(* ===== verification/Prelude.thy ===== *)
theory Prelude
  imports Main "HOL-Library.Sublist" "HOL-Library.List_Lexorder" "HOL-Library.Char_ord"
begin

text \<open>
  The shared base of the development: byte strings, the result type of fallible code and its
  combinators, 64-bit counters, and the generic lemmas on lists and orders that the component
  theories use.

  A byte is a \<^typ>\<open>char\<close> (eight bits in HOL) and a byte string, a Rust \<open>Vec<u8>\<close>, \<open>Bytes\<close>,
  \<open>&str\<close> or \<open>String\<close>, is a \<^typ>\<open>string\<close>; the library order on \<^typ>\<open>string\<close> is then the byte-wise
  lexicographic order the storage engine sorts keys by. A Rust \<open>Result<T, E>\<close> is the sum
  \<open>'e + 'a\<close> with \<^const>\<open>Inl\<close> for \<open>Err\<close>. An unsigned 64-bit counter is a \<^typ>\<open>nat\<close>, and its
  addition is \<open>add64\<close>, which wraps at \<open>2 ^ 64\<close>.
\<close>

named_theorems res_simps "computation rules of the result combinators"
named_theorems key_simps "facts on formatted storage keys"
named_theorems map_simps "what the stored maps answer after an update"

type_synonym bytes = string
type_synonym u64 = nat
type_synonym u32 = nat
type_synonym i64 = int

section \<open>Results\<close>

definition bind_res :: "'e + 'a \<Rightarrow> ('a \<Rightarrow> 'e + 'b) \<Rightarrow> 'e + 'b" where
  "bind_res m f = (case m of Inl e \<Rightarrow> Inl e | Inr x \<Rightarrow> f x)"

definition map_err :: "('e \<Rightarrow> 'f) \<Rightarrow> 'e + 'a \<Rightarrow> 'f + 'a" where
  "map_err g m = (case m of Inl e \<Rightarrow> Inl (g e) | Inr x \<Rightarrow> Inr x)"

fun map_res :: "('a \<Rightarrow> 'e + 'b) \<Rightarrow> 'a list \<Rightarrow> 'e + 'b list" where
  "map_res f [] = Inr []"
| "map_res f (x # xs) = bind_res (f x) (\<lambda>y. bind_res (map_res f xs) (\<lambda>ys. Inr (y # ys)))"

fun fold_res :: "('s \<Rightarrow> 'a \<Rightarrow> 'e + 's) \<Rightarrow> 's \<Rightarrow> 'a list \<Rightarrow> 'e + 's" where
  "fold_res f s [] = Inr s"
| "fold_res f s (x # xs) = bind_res (f s x) (\<lambda>s'. fold_res f s' xs)"

lemma bind_res_Inl [simp, res_simps]: "bind_res (Inl e) f = Inl e"
  by (simp add: bind_res_def)

lemma bind_res_Inr [simp, res_simps]: "bind_res (Inr x) f = f x"
  by (simp add: bind_res_def)

lemma map_err_Inl [simp, res_simps]: "map_err g (Inl e) = Inl (g e)"
  by (simp add: map_err_def)

lemma map_err_Inr [simp, res_simps]: "map_err g (Inr x) = Inr x"
  by (simp add: map_err_def)

lemma bind_res_eq_Inr:
  "bind_res m f = Inr y \<longleftrightarrow> (\<exists>x. m = Inr x \<and> f x = Inr y)"
  by (cases m) auto

lemma bind_res_Inl_only [simp]: "Inr y \<noteq> bind_res m (\<lambda>x. Inl (g x))" "bind_res m (\<lambda>x. Inl (g x)) \<noteq> Inr y"
  by (cases m; simp)+

lemma map_err_eq_Inr [simp]: "map_err g m = Inr y \<longleftrightarrow> m = Inr y"
  by (cases m) auto

lemma map_res_eq: "(\<And>x. x \<in> set xs \<Longrightarrow> f x = Inr (g x)) \<Longrightarrow> map_res f xs = Inr (map g xs)"
  by (induction xs) auto

lemma fold_res_append:
  "fold_res f s (xs @ ys) = bind_res (fold_res f s xs) (\<lambda>s'. fold_res f s' ys)"
proof (induction xs arbitrary: s)
  case (Cons x xs)
  then show ?case by (cases "f s x") auto
qed simp

section \<open>64-bit counters\<close>

abbreviation (input) u64_max :: u64 where
  "u64_max \<equiv> 2 ^ 64 - 1"

definition add64 :: "u64 \<Rightarrow> u64 \<Rightarrow> u64" where
  "add64 a b = (a + b) mod 2 ^ 64"

lemma add64_small [simp]: "a + b < 2 ^ 64 \<Longrightarrow> add64 a b = a + b"
  by (simp add: add64_def)

lemma add64_bound: "add64 a b < 2 ^ 64"
  by (simp add: add64_def)

section \<open>Lists and orders\<close>

lemma append_snoc_less:
  fixes xs ys :: "'a::linorder list"
  assumes "length xs = length ys"
  shows "xs @ [x] < ys @ [y] \<longleftrightarrow> xs < ys \<or> xs = ys \<and> x < y"
  using assms by (induction xs ys rule: list_induct2) auto

lemma append_less_same_prefix [simp]:
  fixes p xs ys :: "'a::linorder list"
  shows "p @ xs < p @ ys \<longleftrightarrow> xs < ys"
  by (induction p) auto

lemma append_le_same_prefix [simp]:
  fixes p xs ys :: "'a::linorder list"
  shows "p @ xs \<le> p @ ys \<longleftrightarrow> xs \<le> ys"
  by (auto simp: le_less)

lemma strict_sorted_unique:
  fixes xs ys :: "'a::linorder list"
  assumes "sorted_wrt (<) xs" "sorted_wrt (<) ys" "set xs = set ys"
  shows "xs = ys"
  using assms strict_sorted_equal by blast

lemma sorted_wrt_less_distinct:
  fixes xs :: "'a::linorder list"
  shows "sorted_wrt (<) xs \<Longrightarrow> distinct xs"
  by (induction xs) auto

lemma sorted_wrt_map_mono:
  assumes "sorted_wrt R xs" "\<And>x y. x \<in> set xs \<Longrightarrow> y \<in> set xs \<Longrightarrow> R x y \<Longrightarrow> Q (f x) (f y)"
  shows "sorted_wrt Q (map f xs)"
  using assms by (induction xs) auto

lemma sorted_split_last:
  fixes xs ys :: "'a::linorder list"
  assumes "sorted_wrt (<) (xs @ ys)" "xs \<noteq> []"
  shows "set xs = {x \<in> set (xs @ ys). x \<le> last xs}" "set ys = {x \<in> set (xs @ ys). last xs < x}"
proof -
  obtain zs z where xs: "xs = zs @ [z]" using assms(2) by (cases xs rule: rev_cases) auto
  have "\<forall>x \<in> set zs. x < z" "\<forall>y \<in> set ys. z < y" using assms(1) by (auto simp: xs sorted_wrt_append)
  then show "set xs = {x \<in> set (xs @ ys). x \<le> last xs}" "set ys = {x \<in> set (xs @ ys). last xs < x}"
    by (fastforce simp: xs)+
qed

lemma prefix_drop_eq: "prefix p k \<Longrightarrow> k = p @ drop (length p) k"
  by (auto simp: prefix_def)

lemma takeWhile_append_sep:
  assumes "c \<notin> set xs" shows "takeWhile (\<lambda>d. d \<noteq> c) (xs @ c # ys) = xs"
  using assms by (induction xs) auto

lemma sep_append_inject:
  assumes "c \<notin> set xs" "c \<notin> set ys"
  shows "xs @ c # us = ys @ c # vs \<longleftrightarrow> xs = ys \<and> us = vs"
proof
  assume eq: "xs @ c # us = ys @ c # vs"
  then have "takeWhile (\<lambda>d. d \<noteq> c) (xs @ c # us) = takeWhile (\<lambda>d. d \<noteq> c) (ys @ c # vs)"
    by simp
  then have "xs = ys" using assms by (simp add: takeWhile_append_sep)
  with eq show "xs = ys \<and> us = vs" by simp
qed simp

end
