(* ===== verification/Rust_Std.thy ===== *)
theory Rust_Std
  imports Prelude
begin

text \<open>
  The pieces of the Rust standard library the program uses on strings and integers: decimal
  formatting (\<open>{n}\<close> and \<open>{n:016}\<close>), \<open>str::parse::<u64>\<close>, big-endian bytes, prefix and suffix
  stripping, the last component of \<open>rsplit\<close>, UTF-8 validity, and \<open>RangeBounds\<close>. The lemmas are
  the ones the key layout rests on: a 16-digit zero-padded number parses back to itself and
  sorts like the number, and a big-endian counter reads back as itself.
\<close>

section \<open>Decimal formatting and parsing\<close>

definition digit :: "nat \<Rightarrow> char" where
  "digit d = char_of (48 + d)"

fun show_nat :: "nat \<Rightarrow> string" where
  "show_nat n = (if n < 10 then [digit n] else show_nat (n div 10) @ [digit (n mod 10)])"

declare show_nat.simps [simp del]

definition show_int :: "int \<Rightarrow> string" where
  "show_int i = (if i < 0 then CHR ''-'' # show_nat (nat (- i)) else show_nat (nat i))"

text \<open>\<open>{n:016}\<close>: sign-aware zero padding to sixteen columns; longer numbers are not cut.\<close>

definition fmt016 :: "nat \<Rightarrow> string" where
  "fmt016 n = replicate (16 - length (show_nat n)) CHR ''0'' @ show_nat n"

definition fmt016_int :: "int \<Rightarrow> string" where
  "fmt016_int i =
     (if i < 0 then CHR ''-'' # replicate (15 - length (show_nat (nat (- i)))) CHR ''0'' @ show_nat (nat (- i))
      else fmt016 (nat i))"

definition is_digit :: "char \<Rightarrow> bool" where
  "is_digit c \<longleftrightarrow> 48 \<le> (of_char c :: nat) \<and> (of_char c :: nat) \<le> 57"

definition digit_value :: "char \<Rightarrow> nat" where
  "digit_value c = of_char c - 48"

definition dec_value :: "string \<Rightarrow> nat" where
  "dec_value s = foldl (\<lambda>a c. 10 * a + digit_value c) 0 s"

text \<open>\<open>str::parse::<u64>\<close>: an optional plus sign, at least one digit, no overflow.\<close>

definition parse_u64 :: "string \<Rightarrow> u64 option" where
  "parse_u64 s =
     (let ds = (case s of c # r \<Rightarrow> if c = CHR ''+'' then r else s | [] \<Rightarrow> [])
      in if ds \<noteq> [] \<and> list_all is_digit ds \<and> dec_value ds < 2 ^ 64
         then Some (dec_value ds) else None)"

section \<open>Big-endian counters\<close>

fun be_bytes :: "nat \<Rightarrow> nat \<Rightarrow> bytes" where
  "be_bytes 0 n = []"
| "be_bytes (Suc k) n = be_bytes k (n div 256) @ [char_of (n mod 256)]"

definition from_be :: "bytes \<Rightarrow> nat" where
  "from_be bs = foldl (\<lambda>a c. 256 * a + of_char c) 0 bs"

definition to_be_bytes :: "u64 \<Rightarrow> bytes" where
  "to_be_bytes n = be_bytes 8 n"

text \<open>\<open>u64::from_be_bytes(b.try_into().unwrap_or([0; 8]))\<close>: any other length reads as zero.\<close>

definition be_u64 :: "bytes \<Rightarrow> u64" where
  "be_u64 b = (if length b = 8 then from_be b else 0)"

section \<open>Strings\<close>

definition strip_prefix :: "string \<Rightarrow> string \<Rightarrow> string option" where
  "strip_prefix p s = (if prefix p s then Some (drop (length p) s) else None)"

definition strip_suffix :: "string \<Rightarrow> string \<Rightarrow> string option" where
  "strip_suffix q s = (if suffix q s then Some (take (length s - length q) s) else None)"

text \<open>\<open>s.rsplit('/').next()\<close>: what follows the last slash.\<close>

definition last_component :: "string \<Rightarrow> string" where
  "last_component s = rev (takeWhile (\<lambda>c. c \<noteq> CHR ''/'') (rev s))"

definition quoted :: "string \<Rightarrow> string" where
  "quoted s = CHR 0x27 # s @ [CHR 0x27]"

definition utf8_tail :: "nat \<Rightarrow> bool" where
  "utf8_tail b \<longleftrightarrow> 0x80 \<le> b \<and> b \<le> 0xBF"

text \<open>The length of the well-formed UTF-8 sequence a byte list starts with: one to four bytes, no
  surrogates, no overlong forms.\<close>

fun utf8_len :: "nat list \<Rightarrow> nat option" where
  "utf8_len [] = None"
| "utf8_len (a # r) =
     (if a < 0x80 then Some 1
      else if 0xC2 \<le> a \<and> a \<le> 0xDF then
        (case r of b # _ \<Rightarrow> if utf8_tail b then Some 2 else None | _ \<Rightarrow> None)
      else if 0xE0 \<le> a \<and> a \<le> 0xEF then
        (case r of b # c # _ \<Rightarrow>
           if utf8_tail b \<and> utf8_tail c \<and> (a = 0xE0 \<longrightarrow> 0xA0 \<le> b) \<and> (a = 0xED \<longrightarrow> b \<le> 0x9F)
           then Some 3 else None
         | _ \<Rightarrow> None)
      else if 0xF0 \<le> a \<and> a \<le> 0xF4 then
        (case r of b # c # d # _ \<Rightarrow>
           if utf8_tail b \<and> utf8_tail c \<and> utf8_tail d \<and> (a = 0xF0 \<longrightarrow> 0x90 \<le> b) \<and> (a = 0xF4 \<longrightarrow> b \<le> 0x8F)
           then Some 4 else None
         | _ \<Rightarrow> None)
      else None)"

lemma utf8_len_bounds: "utf8_len xs = Some n \<Longrightarrow> 0 < n \<and> n \<le> length xs"
  by (cases xs) (auto split: if_splits list.splits)

text \<open>\<open>str::from_utf8\<close> succeeds.\<close>

function utf8_valid :: "nat list \<Rightarrow> bool" where
  "utf8_valid xs =
     (if xs = [] then True
      else case utf8_len xs of None \<Rightarrow> False | Some n \<Rightarrow> utf8_valid (drop n xs))"
  by pat_completeness auto
termination
  by (relation "measure length") (auto dest: utf8_len_bounds)

declare utf8_valid.simps [simp del]

definition is_utf8 :: "bytes \<Rightarrow> bool" where
  "is_utf8 s = utf8_valid (map of_char s)"

text \<open>\<open>String::from_utf8_lossy\<close>: each maximal ill-formed part becomes one U+FFFD.\<close>

definition utf8_second :: "nat \<Rightarrow> nat \<Rightarrow> bool" where
  "utf8_second a b \<longleftrightarrow> utf8_tail b \<and> 0xE0 \<le> a \<and> a \<le> 0xF4 \<and> (a = 0xE0 \<longrightarrow> 0xA0 \<le> b) \<and>
     (a = 0xED \<longrightarrow> b \<le> 0x9F) \<and> (a = 0xF0 \<longrightarrow> 0x90 \<le> b) \<and> (a = 0xF4 \<longrightarrow> b \<le> 0x8F)"

fun utf8_bad_len :: "nat list \<Rightarrow> nat" where
  "utf8_bad_len (a # b # r) =
     (if utf8_second a b
      then (if 0xF0 \<le> a \<and> r \<noteq> [] \<and> utf8_tail (hd r) then 3 else 2)
      else 1)"
| "utf8_bad_len xs = 1"

lemma utf8_bad_len_pos [simp]: "0 < utf8_bad_len xs"
  by (cases xs rule: utf8_bad_len.cases) auto

function utf8_repair :: "nat list \<Rightarrow> nat list" where
  "utf8_repair xs =
     (if xs = [] then []
      else case utf8_len xs of
             Some n \<Rightarrow> take n xs @ utf8_repair (drop n xs)
           | None \<Rightarrow> [0xEF, 0xBF, 0xBD] @ utf8_repair (drop (utf8_bad_len xs) xs))"
  by pat_completeness auto
termination
  by (relation "measure length") (auto dest: utf8_len_bounds intro!: diff_less)

declare utf8_repair.simps [simp del]

definition from_utf8_lossy :: "bytes \<Rightarrow> string" where
  "from_utf8_lossy s = map char_of (utf8_repair (map of_char s))"

text \<open>\<open>{:?}\<close> of a string: quoted, with the escapes of \<open>char::escape_debug\<close> on ASCII text (a single quote
  stays as it is inside a string, a control character is written by its number).\<close>

definition hex_digit :: "nat \<Rightarrow> char" where
  "hex_digit d = char_of (if d < 10 then 48 + d else 87 + d)"

definition debug_char :: "char \<Rightarrow> string" where
  "debug_char c =
     (let n = of_char c :: nat in
      if c = CHR 0x22 then [CHR 0x5C, CHR 0x22]
      else if c = CHR 0x5C then [CHR 0x5C, CHR 0x5C]
      else if c = CHR 0x0A then [CHR 0x5C, CHR ''n'']
      else if c = CHR 0x0D then [CHR 0x5C, CHR ''r'']
      else if c = CHR 0x09 then [CHR 0x5C, CHR ''t'']
      else if c = CHR 0x00 then [CHR 0x5C, CHR ''0'']
      else if n < 0x20 \<or> n = 0x7F
      then [CHR 0x5C, CHR ''u'', CHR 0x7B] @ (if n < 16 then [hex_digit n] else [hex_digit (n div 16), hex_digit (n mod 16)]) @ [CHR 0x7D]
      else [c])"

definition debug_str :: "string \<Rightarrow> string" where
  "debug_str s = [CHR 0x22] @ concat (map debug_char s) @ [CHR 0x22]"

section \<open>Ranges\<close>

datatype 'a bound = Included 'a | Excluded 'a | Unbounded

section \<open>Lemmas: decimal\<close>

fun pad_digits :: "nat \<Rightarrow> nat \<Rightarrow> string" where
  "pad_digits 0 n = []"
| "pad_digits (Suc k) n = pad_digits k (n div 10) @ [digit (n mod 10)]"

lemma length_pad_digits [simp]: "length (pad_digits k n) = k"
  by (induction k arbitrary: n) auto

lemma of_char_digit [simp]: "d < 10 \<Longrightarrow> of_char (digit d) = (48 + d :: nat)"
  by (simp add: digit_def)

lemma digit_less_iff: "a < 10 \<Longrightarrow> b < 10 \<Longrightarrow> digit a < digit b \<longleftrightarrow> a < b"
  by (simp add: less_char_def)

lemma digit_eq_iff: "a < 10 \<Longrightarrow> b < 10 \<Longrightarrow> digit a = digit b \<longleftrightarrow> a = b"
  by (metis add_left_cancel of_char_digit)

lemma is_digit_digit [simp]: "d < 10 \<Longrightarrow> is_digit (digit d)"
  by (simp add: is_digit_def)

lemma digit_zero: "digit 0 = CHR ''0''"
  by code_simp

lemma pad_digits_zero: "pad_digits k 0 = replicate k CHR ''0''"
  by (induction k) (auto simp: digit_zero replicate_append_same)

lemma show_nat_pad:
  "n < 10 ^ k \<Longrightarrow> 0 < k \<Longrightarrow> length (show_nat n) \<le> k \<and>
     pad_digits k n = replicate (k - length (show_nat n)) CHR ''0'' @ show_nat n"
proof (induction n arbitrary: k rule: show_nat.induct)
  case (1 n)
  then obtain j where k: "k = Suc j" by (cases k) auto
  show ?case
  proof (cases "n < 10")
    case True
    then show ?thesis by (simp add: k show_nat.simps [of n] pad_digits_zero)
  next
    case False
    from "1.prems"(1) have "n div 10 < 10 ^ j" by (simp add: k less_mult_imp_div_less mult.commute)
    moreover from False "1.prems"(1) have "0 < j" by (cases j) (simp_all add: k)
    ultimately have "length (show_nat (n div 10)) \<le> j \<and>
      pad_digits j (n div 10) = replicate (j - length (show_nat (n div 10))) CHR ''0'' @ show_nat (n div 10)"
      using "1.IH" [OF False] by blast
    with False show ?thesis by (simp add: k show_nat.simps [of n])
  qed
qed

lemma fmt016_pad: "n < 10 ^ 16 \<Longrightarrow> fmt016 n = pad_digits 16 n"
  using show_nat_pad [of n 16] by (simp add: fmt016_def)

lemma length_fmt016 [key_simps]: "n < 10 ^ 16 \<Longrightarrow> length (fmt016 n) = 16"
  by (simp add: fmt016_pad)

lemma show_nat_long: "10 ^ k \<le> n \<Longrightarrow> k < length (show_nat n)"
proof (induction n arbitrary: k rule: show_nat.induct)
  case (1 n)
  show ?case
  proof (cases k)
    case 0
    then show ?thesis by (simp add: show_nat.simps [of n])
  next
    case (Suc j)
    with "1.prems" have le: "10 * 10 ^ j \<le> n" by simp
    have big: "\<not> n < 10" using le one_le_power [of "10::nat" j] by linarith
    have "10 ^ j \<le> n div 10" using le by (simp add: less_eq_div_iff_mult_less_eq mult.commute)
    with "1.IH" [OF big] have "j < length (show_nat (n div 10))" by blast
    with big Suc show ?thesis by (simp add: show_nat.simps [of n])
  qed
qed

lemma length_fmt016_long: "10 ^ 16 \<le> n \<Longrightarrow> 16 < length (fmt016 n)"
  using show_nat_long [of 16 n] by (simp add: fmt016_def)

lemma pad_digits_all_digits: "list_all is_digit (pad_digits k n)"
  by (induction k arbitrary: n) auto

lemma dec_value_pad_digits: "n < 10 ^ k \<Longrightarrow> dec_value (pad_digits k n) = n"
proof (induction k arbitrary: n)
  case (Suc k)
  then have "dec_value (pad_digits k (n div 10)) = n div 10"
    by (simp add: less_mult_imp_div_less mult.commute)
  then show ?case by (simp add: dec_value_def digit_value_def)
qed (simp add: dec_value_def)

lemma pad_digits_eq:
  "a < 10 ^ k \<Longrightarrow> b < 10 ^ k \<Longrightarrow> pad_digits k a = pad_digits k b \<longleftrightarrow> a = b"
  by (metis dec_value_pad_digits)

lemma pad_digits_less:
  "a < 10 ^ k \<Longrightarrow> b < 10 ^ k \<Longrightarrow> pad_digits k a < pad_digits k b \<longleftrightarrow> a < b"
proof (induction k arbitrary: a b)
  case (Suc k)
  then have lt: "a div 10 < 10 ^ k" "b div 10 < 10 ^ k"
    by (simp_all add: less_mult_imp_div_less mult.commute)
  have "a < b \<longleftrightarrow> a div 10 < b div 10 \<or> a div 10 = b div 10 \<and> a mod 10 < b mod 10"
    using div_mult_mod_eq [of a 10] div_mult_mod_eq [of b 10] mod_less_divisor [of 10 a] mod_less_divisor [of 10 b]
    by linarith
  then show ?case
    by (simp add: append_snoc_less digit_less_iff Suc.IH [OF lt] pad_digits_eq [OF lt])
qed simp

lemma fmt016_less [key_simps]:
  "a < 10 ^ 16 \<Longrightarrow> b < 10 ^ 16 \<Longrightarrow> fmt016 a < fmt016 b \<longleftrightarrow> a < b"
  by (simp add: fmt016_pad pad_digits_less)

lemma fmt016_eq [key_simps]:
  "a < 10 ^ 16 \<Longrightarrow> b < 10 ^ 16 \<Longrightarrow> fmt016 a = fmt016 b \<longleftrightarrow> a = b"
  by (simp add: fmt016_pad pad_digits_eq)

lemma fmt016_le [key_simps]:
  "a < 10 ^ 16 \<Longrightarrow> b < 10 ^ 16 \<Longrightarrow> fmt016 a \<le> fmt016 b \<longleftrightarrow> a \<le> b"
  by (auto simp: le_less key_simps)

lemma parse_fmt016 [key_simps]: "n < 10 ^ 16 \<Longrightarrow> parse_u64 (fmt016 n) = Some n"
proof -
  assume n: "n < 10 ^ 16"
  obtain c r where cr: "pad_digits 16 n = c # r"
    by (metis length_pad_digits list.size(3) neq_Nil_conv zero_neq_numeral)
  have "is_digit c" using pad_digits_all_digits [of 16 n] by (simp add: cr)
  then have "c \<noteq> CHR ''+''" by (auto simp: is_digit_def)
  then show ?thesis
    using n pad_digits_all_digits [of 16 n] dec_value_pad_digits [OF n]
    by (simp add: parse_u64_def fmt016_pad cr)
qed

lemma slash_notin_pad_digits: "CHR ''/'' \<notin> set (pad_digits k n)"
proof -
  have "is_digit c" if "c \<in> set (pad_digits k n)" for c
    using pad_digits_all_digits [of k n] that by (simp add: list_all_iff)
  then show ?thesis by (force simp: is_digit_def)
qed

lemma slash_notin_fmt016 [key_simps]: "n < 10 ^ 16 \<Longrightarrow> CHR ''/'' \<notin> set (fmt016 n)"
  by (simp add: fmt016_pad slash_notin_pad_digits)

section \<open>Lemmas: big-endian bytes\<close>

lemma length_be_bytes [simp]: "length (be_bytes k n) = k"
  by (induction k arbitrary: n) auto

lemma from_be_be_bytes: "n < 256 ^ k \<Longrightarrow> from_be (be_bytes k n) = n"
proof (induction k arbitrary: n)
  case (Suc k)
  then have "from_be (be_bytes k (n div 256)) = n div 256" by auto
  then show ?case by (simp add: from_be_def)
qed (simp add: from_be_def)

lemma be_u64_to_be_bytes [simp]: "n < 2 ^ 64 \<Longrightarrow> be_u64 (to_be_bytes n) = n"
  using from_be_be_bytes [of n 8] by (simp add: be_u64_def to_be_bytes_def)

section \<open>Lemmas: strings\<close>

lemma utf8_len_append: "utf8_len xs = Some n \<Longrightarrow> utf8_len (xs @ ys) = Some n"
  by (cases xs) (auto split: if_splits list.splits)

lemma utf8_valid_append: "utf8_valid xs \<Longrightarrow> utf8_valid ys \<Longrightarrow> utf8_valid (xs @ ys)"
proof (induction xs rule: utf8_valid.induct)
  case (1 xs)
  show ?case
  proof (cases "xs = []")
    case False
    with "1.prems"(1) obtain n where n: "utf8_len xs = Some n" "utf8_valid (drop n xs)"
      by (auto simp: utf8_valid.simps [of xs] split: option.splits)
    with False "1.IH" "1.prems"(2) have "utf8_valid (drop n xs @ ys)" by simp
    with n False utf8_len_bounds [OF n(1)] show ?thesis
      by (simp add: utf8_valid.simps [of "xs @ ys"] utf8_len_append)
  qed (use "1.prems" in simp)
qed

lemma is_utf8_append [simp]: "is_utf8 xs \<Longrightarrow> is_utf8 ys \<Longrightarrow> is_utf8 (xs @ ys)"
  by (simp add: is_utf8_def utf8_valid_append)

lemma is_utf8_ascii [simp]: "(of_char c :: nat) < 128 \<Longrightarrow> is_utf8 (c # xs) = is_utf8 xs"
  by (simp add: is_utf8_def utf8_valid.simps [of "of_char c # map of_char xs"])

lemma utf8_repair_valid: "utf8_valid xs \<Longrightarrow> utf8_repair xs = xs"
proof (induction xs rule: utf8_valid.induct)
  case (1 xs)
  then show ?case
    by (auto simp: utf8_valid.simps [of xs] utf8_repair.simps [of xs] split: option.splits if_splits)
qed

lemma from_utf8_lossy_valid [simp]: "is_utf8 s \<Longrightarrow> from_utf8_lossy s = s"
  by (simp add: from_utf8_lossy_def is_utf8_def utf8_repair_valid comp_def)

lemma is_utf8_Nil [simp]: "is_utf8 []"
  by (simp add: is_utf8_def utf8_valid.simps)

lemma strip_prefix_append [simp]: "strip_prefix p (p @ s) = Some s"
  by (simp add: strip_prefix_def)

lemma strip_prefix_eq_Some: "strip_prefix p s = Some r \<longleftrightarrow> s = p @ r"
  by (auto simp: strip_prefix_def prefix_def)

lemma strip_suffix_append [simp]: "strip_suffix q (s @ q) = Some s"
  by (simp add: strip_suffix_def suffix_def)

lemma strip_suffix_eq_Some: "strip_suffix q s = Some r \<longleftrightarrow> s = r @ q"
  by (auto simp: strip_suffix_def suffix_def)

lemma last_component_append:
  "CHR ''/'' \<notin> set s \<Longrightarrow> last_component (p @ CHR ''/'' # s) = s"
  using takeWhile_append_sep [of "CHR ''/''" "rev s" "rev p"]
  by (simp add: last_component_def)

end
