(* ===== verification/Records.thy ===== *)
theory Records
  imports Rust_Std
begin

text \<open>
  The data of the core crate: errors (\<open>src/error.rs\<close>), events and their stored envelope
  (\<open>src/envelope.rs\<close>), snapshot and compaction records (\<open>src/snapshot.rs\<close>), the tail record of
  \<open>src/kv.rs\<close>, the fork reference of \<open>src/fork.rs\<close>, and the aggregate trait
  (\<open>src/aggregate.rs\<close>). Serialisation is third-party code (\<open>bincode\<close>, \<open>serde_json\<close> and the
  \<open>Serialize\<close> derives): it is the parameter record \<open>codec\<close>, and the locale \<open>serde_codec\<close> states
  what is relied on, that decoding inverts encoding.
\<close>

section \<open>Errors\<close>

type_synonym version = u64

datatype expected_version = Any | NoStream | Exact version

text \<open>\<open>slatedb::Error\<close>, as far as the program looks at it: whether its kind is
  \<open>ErrorKind::Transaction\<close> (a commit conflict), a closed database, or anything else.\<close>

datatype slate_error = SlateTransaction | SlateClosed string | SlateOther string

text \<open>The last constructor is not in the source: it is the outcome of a Rust panic.\<close>

datatype error =
    VersionConflict string expected_version "version option"
  | FenceMismatch string string
  | Backend slate_error
  | Encoding string
  | Bincode string
  | InvalidInput string
  | Panicked string

type_synonym 'a res = "error + 'a"

section \<open>Events\<close>

record new_event =
  ne_type :: string
  ne_data :: bytes
  ne_metadata :: "(string \<times> bytes) list"

definition new_event_new :: "string \<Rightarrow> bytes \<Rightarrow> new_event" where
  "new_event_new event_type data = \<lparr>ne_type = event_type, ne_data = data, ne_metadata = []\<rparr>"

definition new_event_json :: "('a \<Rightarrow> string + bytes) \<Rightarrow> string \<Rightarrow> 'a \<Rightarrow> new_event res" where
  "new_event_json to_vec event_type v =
     bind_res (map_err Encoding (to_vec v)) (\<lambda>b. Inr (new_event_new event_type b))"

record envelope =
  env_id :: string
  env_type :: string
  env_version :: version
  env_seq :: u64
  env_data :: bytes
  env_metadata :: "(string \<times> bytes) list"
  env_ts_ms :: i64

text \<open>\<open>Envelope::new\<close>; the fresh ULID and the clock reading are arguments.\<close>

definition envelope_new :: "string \<Rightarrow> i64 \<Rightarrow> new_event \<Rightarrow> version \<Rightarrow> envelope" where
  "envelope_new ulid now e v =
     \<lparr>env_id = ulid, env_type = ne_type e, env_version = v, env_seq = 0,
      env_data = ne_data e, env_metadata = ne_metadata e, env_ts_ms = now\<rparr>"

record event =
  ev_id :: string
  ev_type :: string
  ev_version :: version
  ev_global_seq :: u64
  ev_data :: bytes
  ev_metadata :: "(string \<times> bytes) list"
  ev_ts_ms :: i64

definition event_from_parts :: "envelope \<Rightarrow> event" where
  "event_from_parts e =
     \<lparr>ev_id = env_id e, ev_type = env_type e, ev_version = env_version e,
      ev_global_seq = env_seq e, ev_data = env_data e, ev_metadata = env_metadata e,
      ev_ts_ms = env_ts_ms e\<rparr>"

definition event_json :: "(bytes \<Rightarrow> string + 'a) \<Rightarrow> event \<Rightarrow> 'a res" where
  "event_json from_slice e = map_err Encoding (from_slice (ev_data e))"

section \<open>Stored records\<close>

record tail_record =
  tail_version :: version
  tail_ts_ms :: i64

record fork_ref =
  fork_stream :: string
  fork_at_version :: version

record snapshot_record =
  snap_through_version :: version
  snap_ts_ms :: i64
  snap_state :: bytes

record compaction_record =
  comp_stream :: string
  comp_through_version :: version
  comp_events_compacted :: u64
  comp_job_id :: "string option"
  comp_ts_ms :: i64

text \<open>The lifecycle transitions of \<open>src/jobs.rs\<close>: job id, detail, timestamp.\<close>

datatype job_event =
    Requested string string i64
  | Claimed string string i64
  | Failed string string i64

section \<open>Aggregates\<close>

text \<open>The trait \<open>Aggregate\<close>, implemented by application code: its four methods as a record.\<close>

record 'a aggregate =
  agg_default :: 'a
  agg_apply :: "'a \<Rightarrow> event \<Rightarrow> 'a"
  agg_snapshot :: "'a \<Rightarrow> bytes res"
  agg_restore :: "bytes \<Rightarrow> 'a res"

definition default_snapshot :: "'a \<Rightarrow> bytes res" where
  "default_snapshot a = Inl (InvalidInput ''aggregate does not implement snapshot()'')"

definition default_restore :: "bytes \<Rightarrow> 'a res" where
  "default_restore b = Inl (InvalidInput ''aggregate does not implement restore()'')"

section \<open>Serialisation\<close>

record codec =
  bin_envelope :: "envelope \<Rightarrow> string + bytes"
  unbin_envelope :: "bytes \<Rightarrow> string + envelope"
  unjson_envelope :: "bytes \<Rightarrow> string + envelope"
  json_tail :: "tail_record \<Rightarrow> string + bytes"
  unjson_tail :: "bytes \<Rightarrow> string + tail_record"
  json_fork :: "fork_ref \<Rightarrow> string + bytes"
  unjson_fork :: "bytes \<Rightarrow> string + fork_ref"
  json_snapshot :: "snapshot_record \<Rightarrow> string + bytes"
  unjson_snapshot :: "bytes \<Rightarrow> string + snapshot_record"
  json_compaction :: "compaction_record \<Rightarrow> string + bytes"
  unjson_compaction :: "bytes \<Rightarrow> string + compaction_record"
  json_job :: "job_event \<Rightarrow> string + bytes"
  unjson_job :: "bytes \<Rightarrow> string + job_event"

definition envelope_encode :: "codec \<Rightarrow> envelope \<Rightarrow> bytes res" where
  "envelope_encode C e = map_err Bincode (bin_envelope C e)"

text \<open>\<open>Envelope::decode\<close>: JSON on a leading brace, else bincode.\<close>

definition envelope_decode :: "codec \<Rightarrow> bytes \<Rightarrow> envelope res" where
  "envelope_decode C b =
     (case b of
        c # _ \<Rightarrow> if c = CHR 0x7B then map_err Encoding (unjson_envelope C b)
                 else map_err Bincode (unbin_envelope C b)
      | [] \<Rightarrow> map_err Bincode (unbin_envelope C b))"

text \<open>
  The contract of the serialisers. \<open>bincode\<close> writes a string as its 64-bit little-endian length
  and then its bytes, and \<open>id\<close> is the envelope's first field: the first byte of a stored
  envelope is the low byte of the length of its id.
\<close>

locale serde_codec =
  fixes C :: codec
  assumes bin_total: "\<exists>b. bin_envelope C e = Inr b"
    and bin_inverse: "bin_envelope C e = Inr b \<Longrightarrow> unbin_envelope C b = Inr e"
    and bin_first: "bin_envelope C e = Inr b \<Longrightarrow> \<exists>r. b = char_of (length (env_id e) mod 256) # r"
    and tail_codec: "\<exists>b. json_tail C t = Inr b \<and> unjson_tail C b = Inr t"
    and fork_codec: "\<exists>b. json_fork C f = Inr b \<and> unjson_fork C b = Inr f"
    and snapshot_codec: "\<exists>b. json_snapshot C s = Inr b \<and> unjson_snapshot C b = Inr s"
    and compaction_codec: "\<exists>b. json_compaction C c = Inr b \<and> unjson_compaction C b = Inr c"
    and job_codec: "\<exists>b. json_job C j = Inr b \<and> unjson_job C b = Inr j"
begin

text \<open>A ULID has 26 characters, so a stored envelope never starts with a brace.\<close>

lemma envelope_roundtrip:
  assumes "length (env_id e) = 26"
  shows "\<exists>b. envelope_encode C e = Inr b \<and> envelope_decode C b = Inr e"
proof -
  obtain b where b: "bin_envelope C e = Inr b" using bin_total by blast
  obtain r where r: "b = char_of (26::nat) # r" using bin_first [OF b] assms by auto
  have "char_of (26::nat) \<noteq> CHR 0x7B" by code_simp
  with b r bin_inverse [OF b] show ?thesis
    by (simp add: envelope_encode_def envelope_decode_def)
qed

end

end
