(* ===== verification/Slate.thy ===== *)
theory Slate
  imports Records
begin

text \<open>
  The interface to the storage engine. SlateDB is third-party code: its operations are the
  parameter record \<open>slatedb_ops\<close> (a database state \<open>'s\<close>, a transaction \<open>'t\<close>), and the locale
  \<open>slatedb\<close> states the documented behaviour the program relies on. A database state holds a
  finite map from keys to values; a prefix scan returns the matching entries in key order; a
  transaction reads the state it began on overlaid with its own writes; a successful commit
  applies the writes to the state at commit time, one that fails with a conflict changes nothing (of
  the other failures of a commit nothing is assumed), and a commit with no other commit since its
  begin succeeds. The trait \<open>KvRead\<close> of \<open>src/kv.rs\<close>, which the
  read helpers are written against, is the record \<open>kv_read\<close>.
\<close>

type_synonym kv_map = "bytes \<Rightarrow> bytes option"
type_synonym byte_range = "bytes bound \<times> bytes bound"

record kv_read =
  kv_get :: "bytes \<Rightarrow> bytes option res"
  kv_scan_range :: "bytes \<Rightarrow> byte_range \<Rightarrow> (bytes \<times> bytes) list res"

text \<open>The trait's default method: a scan of a whole prefix.\<close>

definition kv_scan :: "kv_read \<Rightarrow> bytes \<Rightarrow> (bytes \<times> bytes) list res" where
  "kv_scan r p = kv_scan_range r p (Unbounded, Unbounded)"

record ('s, 't) slatedb_ops =
  db_get :: "'s \<Rightarrow> bytes \<Rightarrow> slate_error + bytes option"
  db_scan :: "'s \<Rightarrow> bytes \<Rightarrow> byte_range \<Rightarrow> slate_error + (bytes \<times> bytes) list"
  db_put :: "'s \<Rightarrow> bytes \<Rightarrow> bytes \<Rightarrow> (slate_error + unit) \<times> 's"
  db_begin :: "'s \<Rightarrow> slate_error + 't"
  tx_get :: "'t \<Rightarrow> bytes \<Rightarrow> slate_error + bytes option"
  tx_scan :: "'t \<Rightarrow> bytes \<Rightarrow> byte_range \<Rightarrow> slate_error + (bytes \<times> bytes) list"
  tx_put :: "'t \<Rightarrow> bytes \<Rightarrow> bytes \<Rightarrow> slate_error + 't"
  tx_delete :: "'t \<Rightarrow> bytes \<Rightarrow> slate_error + 't"
  tx_unmark_write :: "'t \<Rightarrow> bytes list \<Rightarrow> slate_error + 't"
  tx_commit :: "'s \<Rightarrow> 't \<Rightarrow> (slate_error + u64 option) \<times> 's"

text \<open>\<open>impl KvRead\<close> for \<open>Db\<close> (and \<open>DbReader\<close>) and for \<open>DbTransaction\<close>.\<close>

definition db_reader :: "('s, 't) slatedb_ops \<Rightarrow> 's \<Rightarrow> kv_read" where
  "db_reader B s = \<lparr>kv_get = (\<lambda>k. map_err Backend (db_get B s k)),
                    kv_scan_range = (\<lambda>p rg. map_err Backend (db_scan B s p rg))\<rparr>"

definition tx_reader :: "('s, 't) slatedb_ops \<Rightarrow> 't \<Rightarrow> kv_read" where
  "tx_reader B t = \<lparr>kv_get = (\<lambda>k. map_err Backend (tx_get B t k)),
                    kv_scan_range = (\<lambda>p rg. map_err Backend (tx_scan B t p rg))\<rparr>"

section \<open>What a scan returns\<close>

fun above_lower :: "'a::linorder bound \<Rightarrow> 'a \<Rightarrow> bool" where
  "above_lower (Included a) x = (a \<le> x)"
| "above_lower (Excluded a) x = (a < x)"
| "above_lower Unbounded x = True"

fun below_upper :: "'a::linorder bound \<Rightarrow> 'a \<Rightarrow> bool" where
  "below_upper (Included a) x = (x \<le> a)"
| "below_upper (Excluded a) x = (x < a)"
| "below_upper Unbounded x = True"

definition in_range :: "'a::linorder bound \<times> 'a bound \<Rightarrow> 'a \<Rightarrow> bool" where
  "in_range rg x \<longleftrightarrow> above_lower (fst rg) x \<and> below_upper (snd rg) x"

definition scan_set :: "kv_map \<Rightarrow> bytes \<Rightarrow> byte_range \<Rightarrow> (bytes \<times> bytes) set" where
  "scan_set m p rg = {(k, v). m k = Some v \<and> prefix p k \<and> in_range rg (drop (length p) k)}"

definition is_scan :: "kv_map \<Rightarrow> bytes \<Rightarrow> byte_range \<Rightarrow> (bytes \<times> bytes) list \<Rightarrow> bool" where
  "is_scan m p rg l \<longleftrightarrow> sorted_wrt (<) (map fst l) \<and> set l = scan_set m p rg"

text \<open>A reader that answers from a map.\<close>

definition serves :: "kv_read \<Rightarrow> kv_map \<Rightarrow> bool" where
  "serves r m \<longleftrightarrow> finite (dom m) \<and> (\<forall>k. kv_get r k = Inr (m k)) \<and>
     (\<forall>p rg. \<exists>l. kv_scan_range r p rg = Inr l \<and> is_scan m p rg l)"

text \<open>The writes of a transaction over a map; a deletion is \<^term>\<open>Some None\<close>.\<close>

definition overlay :: "kv_map \<Rightarrow> (bytes \<Rightarrow> bytes option option) \<Rightarrow> kv_map" where
  "overlay m w = (\<lambda>k. case w k of None \<Rightarrow> m k | Some x \<Rightarrow> x)"

lemma overlay_empty [simp]: "overlay m Map.empty = m"
  by (simp add: overlay_def)

lemma overlay_put [simp]: "overlay m (w(k \<mapsto> Some v)) = (overlay m w)(k \<mapsto> v)"
  by (auto simp: overlay_def fun_eq_iff)

lemma overlay_delete [simp]: "overlay m (w(k \<mapsto> None)) = (overlay m w)(k := None)"
  by (auto simp: overlay_def fun_eq_iff)

lemma serves_get [simp]: "serves r m \<Longrightarrow> kv_get r k = Inr (m k)"
  by (simp add: serves_def)

lemma serves_scan_range:
  assumes "serves r m" obtains l where "kv_scan_range r p rg = Inr l" "is_scan m p rg l"
  using assms unfolding serves_def by blast

lemma serves_scan:
  assumes "serves r m" obtains l where "kv_scan r p = Inr l" "is_scan m p (Unbounded, Unbounded) l"
  using assms serves_scan_range [of r m p "(Unbounded, Unbounded)"] unfolding kv_scan_def by blast

lemma serves_finite: "serves r m \<Longrightarrow> finite (dom m)"
  unfolding serves_def by blast

lemma is_scan_unique: "is_scan m p rg l \<Longrightarrow> is_scan m p rg l' \<Longrightarrow> l = l'"
proof -
  assume l: "is_scan m p rg l" and l': "is_scan m p rg l'"
  then have "set (map fst l) = set (map fst l')" by (simp add: is_scan_def)
  with l l' have fst_eq: "map fst l = map fst l'"
    by (intro strict_sorted_unique) (simp_all only: is_scan_def)
  have inj: "inj_on fst (scan_set m p rg)"
    by (auto simp: scan_set_def inj_on_def)
  show ?thesis
    using fst_eq
  proof (rule map_inj_on)
    show "inj_on fst (set l \<union> set l')" using inj l l' by (simp add: is_scan_def)
  qed
qed

lemma in_scan_set:
  "(k, v) \<in> scan_set m p rg \<longleftrightarrow> m k = Some v \<and> (\<exists>s. k = p @ s \<and> in_range rg s)"
  by (auto simp: scan_set_def prefix_def)

lemma in_range_unbounded [simp]: "in_range (Unbounded, Unbounded) x"
  by (simp add: in_range_def)

section \<open>The engine's contract\<close>

locale slatedb =
  fixes B :: "('s, 't) slatedb_ops"
    and content :: "'s \<Rightarrow> kv_map"
    and writes :: "'t \<Rightarrow> bytes \<Rightarrow> bytes option option"
    and base :: "'t \<Rightarrow> 's"
  assumes finite_content: "finite (dom (content s))"
    and get_law: "db_get B s k = Inr (content s k)"
    and scan_law: "\<exists>l. db_scan B s p rg = Inr l \<and> is_scan (content s) p rg l"
    and put_law: "\<exists>s'. db_put B s k v = (Inr (), s') \<and> content s' = (content s)(k \<mapsto> v)"
    and begin_law: "\<exists>t. db_begin B s = Inr t \<and> base t = s \<and> writes t = Map.empty"
    and finite_writes: "finite (dom (writes t))"
    and tx_get_law: "tx_get B t k = Inr (overlay (content (base t)) (writes t) k)"
    and tx_scan_law: "\<exists>l. tx_scan B t p rg = Inr l \<and> is_scan (overlay (content (base t)) (writes t)) p rg l"
    and tx_put_law: "\<exists>t'. tx_put B t k v = Inr t' \<and> base t' = base t \<and> writes t' = (writes t)(k \<mapsto> Some v)"
    and tx_delete_law: "\<exists>t'. tx_delete B t k = Inr t' \<and> base t' = base t \<and> writes t' = (writes t)(k \<mapsto> None)"
    and tx_unmark_law: "\<exists>t'. tx_unmark_write B t ks = Inr t' \<and> base t' = base t \<and> writes t' = writes t"
    and commit_ok: "tx_commit B s t = (Inr h, s') \<Longrightarrow>
       content s' = overlay (content s) (writes t) \<and> (writes t \<noteq> Map.empty \<longrightarrow> h \<noteq> None)"
    and commit_conflict: "tx_commit B s t = (Inl SlateTransaction, s') \<Longrightarrow> content s' = content s"
    and commit_quiet: "base t = s \<Longrightarrow> \<exists>h s'. tx_commit B s t = (Inr h, s')"
begin

definition view :: "'t \<Rightarrow> kv_map" where
  "view t = overlay (content (base t)) (writes t)"

lemma serves_db: "serves (db_reader B s) (content s)"
  unfolding serves_def
proof (intro conjI allI)
  fix p rg
  obtain l where "db_scan B s p rg = Inr l" "is_scan (content s) p rg l" using scan_law by blast
  then show "\<exists>l. kv_scan_range (db_reader B s) p rg = Inr l \<and> is_scan (content s) p rg l"
    by (simp add: db_reader_def)
qed (simp_all add: db_reader_def finite_content get_law)

lemma finite_view: "finite (dom (view t))"
proof (rule finite_subset)
  show "dom (view t) \<subseteq> dom (content (base t)) \<union> dom (writes t)"
    by (auto simp: view_def overlay_def split: option.splits)
qed (simp add: finite_content finite_writes)

lemma serves_tx: "serves (tx_reader B t) (view t)"
  unfolding serves_def
proof (intro conjI allI)
  fix p rg
  obtain l where "tx_scan B t p rg = Inr l" "is_scan (view t) p rg l"
    using tx_scan_law unfolding view_def by blast
  then show "\<exists>l. kv_scan_range (tx_reader B t) p rg = Inr l \<and> is_scan (view t) p rg l"
    by (simp add: tx_reader_def)
qed (simp_all add: tx_reader_def tx_get_law finite_view [unfolded view_def] view_def)

lemma tx_beginE:
  obtains t where "db_begin B s = Inr t" "base t = s" "writes t = Map.empty" "view t = content s"
  using begin_law [of s] by (auto simp: view_def)

lemma tx_putE:
  obtains t' where "tx_put B t k v = Inr t'" "base t' = base t" "writes t' = (writes t)(k \<mapsto> Some v)"
    "view t' = (view t)(k \<mapsto> v)"
  using tx_put_law [of t k v] by (auto simp: view_def)

lemma tx_deleteE:
  obtains t' where "tx_delete B t k = Inr t'" "base t' = base t" "writes t' = (writes t)(k \<mapsto> None)"
    "view t' = (view t)(k := None)"
  using tx_delete_law [of t k] by (auto simp: view_def)

lemma tx_unmarkE:
  obtains t' where "tx_unmark_write B t ks = Inr t'" "base t' = base t" "writes t' = writes t"
    "view t' = view t"
  using tx_unmark_law [of t ks] by (auto simp: view_def)

lemma quiet_commitE:
  assumes "base t = s"
  obtains h s' where "tx_commit B s t = (Inr h, s')" "content s' = view t"
    "writes t \<noteq> Map.empty \<Longrightarrow> h \<noteq> None"
  using commit_quiet [OF assms] commit_ok assms by (metis view_def)

end

end
