(* ===== verification/Kv.thy ===== *)
theory Kv
  imports Slate
begin

text \<open>
  The key layout and the read helpers of \<open>src/kv.rs\<close>. The state of the store is the map of keys
  to values the engine holds; the first part translates the key constructors and the helpers
  over a \<open>kv_read\<close>, the second says what they compute on a well-formed map: which envelope is
  stored under a stream and version, which are hidden by the trim floor, a deletion or a
  rollback window, and that \<open>read_events\<close> returns exactly the visible ones, in version order.
\<close>

section \<open>Keys\<close>

definition r_prefix :: "string \<Rightarrow> bytes" where
  "r_prefix stream = ''r/'' @ stream @ ''/''"

definition r_key :: "string \<Rightarrow> version \<Rightarrow> bytes" where
  "r_key stream v = ''r/'' @ stream @ ''/'' @ fmt016 v"

definition m_key :: "string \<Rightarrow> string \<Rightarrow> bytes" where
  "m_key stream field = ''m/'' @ stream @ ''/'' @ field"

text \<open>The fields \<open>forks/{child}\<close> and \<open>rollback/{from:016}\<close>.\<close>

definition forks_field :: "string \<Rightarrow> string" where
  "forks_field child = ''forks/'' @ child"

definition rollback_field :: "version \<Rightarrow> string" where
  "rollback_field from_version = ''rollback/'' @ fmt016 from_version"

definition ts_key :: "string \<Rightarrow> i64 \<Rightarrow> version \<Rightarrow> bytes" where
  "ts_key stream ts v = ''i/'' @ stream @ ''/'' @ fmt016_int ts @ ''/'' @ fmt016 v"

definition snap_prefix :: "string \<Rightarrow> bytes" where
  "snap_prefix stream = ''snap/'' @ stream @ ''/''"

definition COMPACTIONS_PREFIX :: bytes where
  "COMPACTIONS_PREFIX = ''j/compactions/''"

definition SEQ_KEY :: bytes where
  "SEQ_KEY = ''g/seq''"

section \<open>Read helpers\<close>

definition bounds :: "version bound \<times> version bound \<Rightarrow> version \<times> version option" where
  "bounds rg =
     ((case fst rg of Included v \<Rightarrow> v | Excluded v \<Rightarrow> add64 v 1 | Unbounded \<Rightarrow> 0),
      (case snd rg of Included v \<Rightarrow> Some (add64 v 1) | Excluded v \<Rightarrow> Some v | Unbounded \<Rightarrow> None))"

definition get_be :: "kv_read \<Rightarrow> bytes \<Rightarrow> u64 option res" where
  "get_be r key = bind_res (kv_get r key) (\<lambda>v. Inr (map_option be_u64 v))"

definition get_json :: "(bytes \<Rightarrow> string + 'a) \<Rightarrow> kv_read \<Rightarrow> bytes \<Rightarrow> 'a option res" where
  "get_json from_slice r key =
     bind_res (kv_get r key) (\<lambda>v. case v of
        None \<Rightarrow> Inr None
      | Some b \<Rightarrow> bind_res (map_err Encoding (from_slice b)) (\<lambda>x. Inr (Some x)))"

definition kv_tail :: "codec \<Rightarrow> kv_read \<Rightarrow> string \<Rightarrow> tail_record option res" where
  "kv_tail C r stream = get_json (unjson_tail C) r (m_key stream ''tail'')"

definition kv_fork_ref :: "codec \<Rightarrow> kv_read \<Rightarrow> string \<Rightarrow> fork_ref option res" where
  "kv_fork_ref C r stream = get_json (unjson_fork C) r (m_key stream ''fork'')"

text \<open>The slice \<open>key[key.len() - 16..]\<close> panics on a shorter key.\<close>

definition version_suffix :: "bytes \<Rightarrow> version res" where
  "version_suffix key =
     (if length key < 16 then Inl (Panicked ''version_suffix'')
      else case parse_u64 (drop (length key - 16) key) of
             Some v \<Rightarrow> Inr v
           | None \<Rightarrow> Inl (InvalidInput ''bad versioned key''))"

definition kv_latest_snapshot :: "codec \<Rightarrow> kv_read \<Rightarrow> string \<Rightarrow> snapshot_record option res" where
  "kv_latest_snapshot C r stream =
     bind_res (kv_scan r (snap_prefix stream)) (\<lambda>kvs.
       if kvs = [] then Inr None
       else bind_res (map_err Encoding (unjson_snapshot C (snd (last kvs)))) (\<lambda>s. Inr (Some s)))"

definition pin_child :: "bytes \<Rightarrow> string" where
  "pin_child key = (if is_utf8 key then last_component key else [])"

definition raise_ceiling :: "version option \<Rightarrow> version \<Rightarrow> version option" where
  "raise_ceiling c at = Some (case c of None \<Rightarrow> at | Some c \<Rightarrow> max c at)"

definition ceiling :: "kv_read \<Rightarrow> string \<Rightarrow> version option res" where
  "ceiling r stream =
     bind_res (kv_scan r (m_key stream ''forks/'')) (\<lambda>kvs.
       fold_res (\<lambda>c (key, at).
         bind_res (kv_get r (m_key (pin_child key) ''deleted'')) (\<lambda>d.
           Inr (if d = None then raise_ceiling c (be_u64 at) else c))) None kvs)"

definition rollbacks :: "kv_read \<Rightarrow> string \<Rightarrow> (version \<times> u64) list res" where
  "rollbacks r stream =
     bind_res (kv_scan r (m_key stream ''rollback/'')) (\<lambda>kvs.
       map_res (\<lambda>(k, v). bind_res (version_suffix k) (\<lambda>from. Inr (from, be_u64 v))) kvs)"

text \<open>The guards of the read loop: \<open>True\<close> where the loop body reaches \<open>out.push\<close>.\<close>

definition keep_event ::
  "version \<Rightarrow> version option \<Rightarrow> bool \<Rightarrow> version option \<Rightarrow> (version \<times> u64) list \<Rightarrow> envelope \<Rightarrow> bool" where
  "keep_event lo hi deleted ceil rbs env \<longleftrightarrow>
     \<not> (env_version env < lo \<or> (\<exists>h. hi = Some h \<and> h \<le> env_version env)) \<and>
     \<not> (deleted \<and> \<not> (\<exists>c. ceil = Some c \<and> env_version env \<le> c)) \<and>
     \<not> (\<exists>(from, txn) \<in> set rbs. from \<le> env_version env \<and> txn < env_seq env)"

fun collect_events :: "codec \<Rightarrow> (envelope \<Rightarrow> bool) \<Rightarrow> (bytes \<times> bytes) list \<Rightarrow> event list res" where
  "collect_events C keep [] = Inr []"
| "collect_events C keep ((k, value) # kvs) =
     bind_res (envelope_decode C value) (\<lambda>env.
       bind_res (collect_events C keep kvs) (\<lambda>out.
         Inr (if keep env then event_from_parts env # out else out)))"

definition read_events ::
  "codec \<Rightarrow> kv_read \<Rightarrow> string \<Rightarrow> version bound \<times> version bound \<Rightarrow> event list res" where
  "read_events C r stream rg =
     (let (lo0, hi) = bounds rg in
      bind_res (get_be r (m_key stream ''trim'')) (\<lambda>trim.
      bind_res (kv_get r (m_key stream ''deleted'')) (\<lambda>del.
      bind_res (if del \<noteq> None then ceiling r stream else Inr None) (\<lambda>ceil.
      bind_res (rollbacks r stream) (\<lambda>rbs.
        let lo = max lo0 (case trim of None \<Rightarrow> 0 | Some f \<Rightarrow> f) in
        if (\<exists>h. hi = Some h \<and> h \<le> lo) then Inr []
        else bind_res
          (kv_scan_range r (r_prefix stream)
             (Included (fmt016 lo), case hi of Some h \<Rightarrow> Excluded (fmt016 h) | None \<Rightarrow> Unbounded))
          (collect_events C (keep_event lo hi (del \<noteq> None) ceil rbs)))))))"

lemma ex_eq_Some_code [code_unfold]: "(\<exists>h. hi = Some h \<and> P h) \<longleftrightarrow> (case hi of None \<Rightarrow> False | Some h \<Rightarrow> P h)"
  by (cases hi) auto

section \<open>Names and keys\<close>

text \<open>A stream name that cannot run into another key: UTF-8 without a slash.\<close>

definition name_ok :: "string \<Rightarrow> bool" where
  "name_ok s \<longleftrightarrow> CHR ''/'' \<notin> set s \<and> is_utf8 s"

abbreviation (input) VMAX :: version where
  "VMAX \<equiv> 10 ^ 16"

lemma r_key_prefix: "r_key s v = r_prefix s @ fmt016 v"
  by (simp add: r_key_def r_prefix_def)

lemma r_key_eq [key_simps]:
  assumes "name_ok s" "name_ok s'" "v < VMAX" "v' < VMAX"
  shows "r_key s v = r_key s' v' \<longleftrightarrow> s = s' \<and> v = v'"
  using assms sep_append_inject [of "CHR ''/''" s s' "fmt016 v" "fmt016 v'"]
  by (auto simp: r_key_def name_ok_def fmt016_eq)

lemma r_key_split:
  assumes "name_ok s" "name_ok s'" "r_prefix s @ x = r_key s' v"
  shows "s = s' \<and> x = fmt016 v"
  using assms sep_append_inject [of "CHR ''/''" s s' x "fmt016 v"]
  by (simp add: r_key_def r_prefix_def name_ok_def)

lemma r_key_less [key_simps]:
  "v < VMAX \<Longrightarrow> v' < VMAX \<Longrightarrow> r_key s v < r_key s v' \<longleftrightarrow> v < v'"
  by (simp add: r_key_prefix fmt016_less)

lemma m_key_eq [key_simps]:
  assumes "name_ok s" "name_ok s'"
  shows "m_key s f = m_key s' f' \<longleftrightarrow> s = s' \<and> f = f'"
  using assms sep_append_inject [of "CHR ''/''" s s' f f'] by (auto simp: m_key_def name_ok_def)

lemma key_families [key_simps, simp]:
  "r_key s v \<noteq> m_key s' f" "m_key s' f \<noteq> r_key s v"
  "r_key s v \<noteq> ts_key s' ts v'" "ts_key s' ts v' \<noteq> r_key s v"
  "m_key s f \<noteq> ts_key s' ts v'" "ts_key s' ts v' \<noteq> m_key s f"
  "r_key s v \<noteq> SEQ_KEY" "SEQ_KEY \<noteq> r_key s v"
  "m_key s f \<noteq> SEQ_KEY" "SEQ_KEY \<noteq> m_key s f"
  "ts_key s ts v \<noteq> SEQ_KEY" "SEQ_KEY \<noteq> ts_key s ts v"
  "r_key s v \<noteq> snap_prefix s' @ x" "snap_prefix s' @ x \<noteq> r_key s v"
  "m_key s f \<noteq> snap_prefix s' @ x" "snap_prefix s' @ x \<noteq> m_key s f"
  "SEQ_KEY \<noteq> snap_prefix s' @ x" "snap_prefix s' @ x \<noteq> SEQ_KEY"
  "r_key s v \<noteq> CHR ''j'' # y" "CHR ''j'' # y \<noteq> r_key s v"
  "m_key s f \<noteq> CHR ''j'' # y" "CHR ''j'' # y \<noteq> m_key s f"
  "SEQ_KEY \<noteq> CHR ''j'' # y" "CHR ''j'' # y \<noteq> SEQ_KEY"
  "snap_prefix s @ x \<noteq> CHR ''j'' # y" "CHR ''j'' # y \<noteq> snap_prefix s @ x"
  by (simp_all add: r_key_def m_key_def ts_key_def SEQ_KEY_def snap_prefix_def)

lemma version_suffix_r_key [simp]: "v < VMAX \<Longrightarrow> version_suffix (p @ fmt016 v) = Inr v"
  by (simp add: version_suffix_def length_fmt016 parse_fmt016)

lemma pin_child_key [simp]: "name_ok s \<Longrightarrow> name_ok c \<Longrightarrow> pin_child (m_key s (forks_field c)) = c"
  using last_component_append [of c "''m/'' @ s @ ''/forks''"]
  by (simp add: pin_child_def m_key_def forks_field_def name_ok_def)

lemma m_key_forks: "m_key s ''forks/'' @ x = m_key s (forks_field x)"
  by (simp add: m_key_def forks_field_def)

lemma m_key_rollback: "m_key s ''rollback/'' @ fmt016 v = m_key s (rollback_field v)"
  by (simp add: m_key_def rollback_field_def)

lemma version_suffix_rollback [simp]: "v < VMAX \<Longrightarrow> version_suffix (m_key s (rollback_field v)) = Inr v"
  using version_suffix_r_key [of v "m_key s ''rollback/''"] by (simp only: m_key_rollback)

lemma fields_distinct [simp]:
  "forks_field c \<noteq> ''tail''" "forks_field c \<noteq> ''fence''" "forks_field c \<noteq> ''trim''"
  "forks_field c \<noteq> ''deleted''" "forks_field c \<noteq> ''fork''" "forks_field c \<noteq> rollback_field v"
  "rollback_field v \<noteq> ''tail''" "rollback_field v \<noteq> ''fence''" "rollback_field v \<noteq> ''trim''"
  "rollback_field v \<noteq> ''deleted''" "rollback_field v \<noteq> ''fork''" "rollback_field v \<noteq> forks_field c"
  "''tail'' \<noteq> forks_field c" "''fence'' \<noteq> forks_field c" "''trim'' \<noteq> forks_field c"
  "''deleted'' \<noteq> forks_field c" "''fork'' \<noteq> forks_field c"
  "''tail'' \<noteq> rollback_field v" "''fence'' \<noteq> rollback_field v" "''trim'' \<noteq> rollback_field v"
  "''deleted'' \<noteq> rollback_field v" "''fork'' \<noteq> rollback_field v"
  by (simp_all add: forks_field_def rollback_field_def)

lemma forks_field_eq [simp]: "forks_field c = forks_field d \<longleftrightarrow> c = d"
  by (simp add: forks_field_def)

lemma rollback_field_eq [key_simps]:
  "v < VMAX \<Longrightarrow> w < VMAX \<Longrightarrow> rollback_field v = rollback_field w \<longleftrightarrow> v = w"
  by (simp add: rollback_field_def fmt016_eq)

end
