(* ===== verification/Kv_Spec.thy ===== *)
theory Kv_Spec
  imports Kv
begin

text \<open>
  What the stored map means, and what the helpers of \<open>src/kv.rs\<close> compute on it. The abstract
  state of a stream is read off the map: \<open>stored\<close> (the envelope at a version), \<open>floor_of\<close>,
  \<open>is_deleted\<close>, \<open>live_pins\<close>, \<open>windows\<close>; \<open>wf_db\<close> is the invariant the operations of the store
  keep on the keys of streams. The main result is \<open>read_events_eq\<close>: the range scan and the
  guards of \<open>read_events\<close> return the visible envelopes of the range in version order.
\<close>

section \<open>The abstract state of a stream\<close>

definition stored :: "codec \<Rightarrow> kv_map \<Rightarrow> string \<Rightarrow> version \<Rightarrow> envelope option" where
  "stored C m s v =
     (case m (r_key s v) of None \<Rightarrow> None
      | Some b \<Rightarrow> (case envelope_decode C b of Inl _ \<Rightarrow> None | Inr e \<Rightarrow> Some e))"

definition floor_of :: "kv_map \<Rightarrow> string \<Rightarrow> version" where
  "floor_of m s = (case m (m_key s ''trim'') of None \<Rightarrow> 0 | Some b \<Rightarrow> be_u64 b)"

definition is_deleted :: "kv_map \<Rightarrow> string \<Rightarrow> bool" where
  "is_deleted m s \<longleftrightarrow> m (m_key s ''deleted'') \<noteq> None"

text \<open>The pins of a stream, as \<open>ceiling\<close> counts them: direct children without a deleted marker, not the forks of a deleted child.\<close>

definition live_pins :: "kv_map \<Rightarrow> string \<Rightarrow> version set" where
  "live_pins m s = {be_u64 b | c b. name_ok c \<and> m (m_key s (forks_field c)) = Some b \<and> \<not> is_deleted m c}"

definition ceil_of :: "kv_map \<Rightarrow> string \<Rightarrow> version option" where
  "ceil_of m s = (if live_pins m s = {} then None else Some (Max (live_pins m s)))"

definition windows :: "kv_map \<Rightarrow> string \<Rightarrow> (version \<times> u64) set" where
  "windows m s = {(v, be_u64 b) | v b. v < VMAX \<and> m (m_key s (rollback_field v)) = Some b}"

definition visible :: "kv_map \<Rightarrow> string \<Rightarrow> envelope \<Rightarrow> bool" where
  "visible m s e \<longleftrightarrow>
     floor_of m s \<le> env_version e \<and>
     (is_deleted m s \<longrightarrow> (\<exists>c. ceil_of m s = Some c \<and> env_version e \<le> c)) \<and>
     (\<forall>(from, txn) \<in> windows m s. \<not> (from \<le> env_version e \<and> txn < env_seq e))"

definition in_window :: "version \<Rightarrow> version option \<Rightarrow> version \<Rightarrow> bool" where
  "in_window lo hi v \<longleftrightarrow> lo \<le> v \<and> (\<forall>h. hi = Some h \<longrightarrow> v < h)"

text \<open>The envelopes of a stream that satisfy a predicate, in version order.\<close>

definition pick :: "codec \<Rightarrow> kv_map \<Rightarrow> string \<Rightarrow> (envelope \<Rightarrow> bool) \<Rightarrow> envelope list" where
  "pick C m s P = map (\<lambda>v. the (stored C m s v))
     (sorted_list_of_set {v. \<exists>e. stored C m s v = Some e \<and> P e})"

definition history :: "codec \<Rightarrow> kv_map \<Rightarrow> string \<Rightarrow> version \<Rightarrow> version option \<Rightarrow> envelope list" where
  "history C m s lo hi = pick C m s (\<lambda>e. visible m s e \<and> in_window lo hi (env_version e))"

section \<open>Well-formed maps\<close>

definition wf_record :: "codec \<Rightarrow> bytes \<Rightarrow> bytes \<Rightarrow> bool" where
  "wf_record C k b \<longleftrightarrow> (\<exists>s v e. name_ok s \<and> v < VMAX \<and> k = r_key s v \<and>
     envelope_decode C b = Inr e \<and> env_version e = v)"

definition wf_field :: "codec \<Rightarrow> string \<Rightarrow> bytes \<Rightarrow> bool" where
  "wf_field C f b \<longleftrightarrow>
     f = ''tail'' \<and> (\<exists>t. unjson_tail C b = Inr t \<and> tail_version t < VMAX) \<or>
     f = ''fence'' \<or> f = ''deleted'' \<or>
     f = ''trim'' \<and> be_u64 b < VMAX \<or>
     f = ''fork'' \<and> (\<exists>p. unjson_fork C b = Inr p \<and> name_ok (fork_stream p) \<and> fork_at_version p < VMAX - 1) \<or>
     (\<exists>c. name_ok c \<and> f = forks_field c \<and> be_u64 b < VMAX) \<or>
     (\<exists>v < VMAX. f = rollback_field v)"

definition wf_meta :: "codec \<Rightarrow> bytes \<Rightarrow> bytes \<Rightarrow> bool" where
  "wf_meta C k b \<longleftrightarrow> (\<exists>s f. name_ok s \<and> k = m_key s f \<and> wf_field C f b)"

definition wf_entry :: "codec \<Rightarrow> bytes \<Rightarrow> bytes \<Rightarrow> bool" where
  "wf_entry C k b \<longleftrightarrow> (prefix ''r/'' k \<longrightarrow> wf_record C k b) \<and> (prefix ''m/'' k \<longrightarrow> wf_meta C k b)"

definition wf_db :: "codec \<Rightarrow> kv_map \<Rightarrow> bool" where
  "wf_db C m \<longleftrightarrow> finite (dom m) \<and> (\<forall>k b. m k = Some b \<longrightarrow> wf_entry C k b)"

lemma wf_db_finite: "wf_db C m \<Longrightarrow> finite (dom m)"
  by (simp add: wf_db_def)

lemma prefix_r_key [simp]: "prefix ''r/'' (r_key s v)"
  by (simp add: r_key_def)

lemma prefix_m_key [simp]: "prefix ''m/'' (m_key s f)"
  by (simp add: m_key_def)

text \<open>What keeps a map well-formed: adding well-formed entries, and deleting.\<close>

lemma wf_db_overlay:
  assumes "wf_db C m" "finite (dom w)" "\<And>k b. w k = Some (Some b) \<Longrightarrow> wf_entry C k b"
  shows "wf_db C (overlay m w)"
proof -
  have "dom (overlay m w) \<subseteq> dom m \<union> dom w" by (auto simp: overlay_def split: option.splits)
  moreover have "finite (dom m \<union> dom w)" using assms(1,2) by (simp add: wf_db_def)
  ultimately have "finite (dom (overlay m w))" by (rule finite_subset)
  with assms show ?thesis by (auto simp: wf_db_def overlay_def split: option.splits)
qed

lemma wf_db_upd: "wf_db C m \<Longrightarrow> wf_entry C k b \<Longrightarrow> wf_db C (m(k \<mapsto> b))"
  by (auto simp: wf_db_def)

lemma wf_db_del: "wf_db C m \<Longrightarrow> wf_db C (m(k := None))"
  by (auto simp: wf_db_def)

lemma prefix_r_key_m [simp]: "\<not> prefix ''m/'' (r_key s v)"
  by (simp add: r_key_def)

lemma prefix_m_key_r [simp]: "\<not> prefix ''r/'' (m_key s f)"
  by (simp add: m_key_def)

lemma wf_entry_record:
  "name_ok s \<Longrightarrow> env_version e < VMAX \<Longrightarrow> envelope_decode C b = Inr e \<Longrightarrow> wf_entry C (r_key s (env_version e)) b"
  by (auto simp: wf_entry_def wf_record_def)

lemma wf_entry_field: "name_ok s \<Longrightarrow> wf_field C f b \<Longrightarrow> wf_entry C (m_key s f) b"
  by (auto simp: wf_entry_def wf_meta_def)

lemma wf_entry_other: "\<not> prefix ''r/'' k \<Longrightarrow> \<not> prefix ''m/'' k \<Longrightarrow> wf_entry C k b"
  by (simp add: wf_entry_def)

lemma wf_db_record:
  assumes "wf_db C m" "name_ok s" "m (r_prefix s @ x) = Some b"
  obtains v e where "v < VMAX" "x = fmt016 v" "r_prefix s @ x = r_key s v" "envelope_decode C b = Inr e"
    "env_version e = v"
proof -
  have "prefix ''r/'' (r_prefix s @ x)" by (simp add: r_prefix_def)
  with assms(1,3) have "wf_record C (r_prefix s @ x) b" by (simp add: wf_db_def wf_entry_def)
  then obtain s' v e where *: "name_ok s'" "v < VMAX" "r_prefix s @ x = r_key s' v"
    "envelope_decode C b = Inr e" "env_version e = v"
    by (auto simp: wf_record_def)
  from r_key_split [OF assms(2) *(1,3)] * that show ?thesis by blast
qed

lemma wf_db_field:
  assumes "wf_db C m" "name_ok s" "m (m_key s f) = Some b"
  shows "wf_field C f b"
proof -
  from assms have "wf_meta C (m_key s f) b" by (simp add: wf_db_def wf_entry_def)
  then show ?thesis using assms(2) by (auto simp: wf_meta_def m_key_eq)
qed

lemma stored_version:
  assumes "wf_db C m" "name_ok s" "stored C m s v = Some e"
  shows "v < VMAX \<and> env_version e = v"
proof -
  from assms(3) obtain b where b: "m (r_key s v) = Some b" "envelope_decode C b = Inr e"
    by (auto simp: stored_def split: option.splits sum.splits)
  then have "m (r_prefix s @ fmt016 v) = Some b" by (simp add: r_key_prefix)
  from wf_db_record [OF assms(1,2) this] obtain v' e'
    where v': "v' < VMAX" "fmt016 v = fmt016 v'" "envelope_decode C b = Inr e'" "env_version e' = v'" by metis
  have "v < VMAX" using v'(1,2) length_fmt016_long [of v] length_fmt016 [of v']
    by (metis linorder_not_less less_irrefl)
  with v' b show ?thesis by (simp add: fmt016_eq)
qed

lemma finite_stored:
  assumes "wf_db C m" "name_ok s"
  shows "finite {v. \<exists>e. stored C m s v = Some e \<and> P e}"
proof (rule finite_surj [of "dom m" _ "\<lambda>k. the (parse_u64 (drop (length (r_prefix s)) k))"])
  show "finite (dom m)" using assms by (simp add: wf_db_def)
  show "{v. \<exists>e. stored C m s v = Some e \<and> P e} \<subseteq> (\<lambda>k. the (parse_u64 (drop (length (r_prefix s)) k))) ` dom m"
  proof
    fix v assume "v \<in> {v. \<exists>e. stored C m s v = Some e \<and> P e}"
    then obtain e where e: "stored C m s v = Some e" by blast
    then have "r_key s v \<in> dom m" by (auto simp: stored_def split: option.splits)
    moreover have "v = the (parse_u64 (drop (length (r_prefix s)) (r_key s v)))"
      using stored_version [OF assms e] by (simp add: r_key_prefix parse_fmt016)
    ultimately show "v \<in> (\<lambda>k. the (parse_u64 (drop (length (r_prefix s)) k))) ` dom m" by blast
  qed
qed

section \<open>Lists of envelopes\<close>

lemma set_pick:
  assumes "wf_db C m" "name_ok s"
  shows "set (pick C m s P) = {e. \<exists>v. stored C m s v = Some e \<and> P e}"
  using finite_stored [OF assms, of P] by (force simp: pick_def)

lemma versions_pick:
  assumes "wf_db C m" "name_ok s"
  shows "map env_version (pick C m s P) = sorted_list_of_set {v. \<exists>e. stored C m s v = Some e \<and> P e}"
proof -
  have "env_version (the (stored C m s v)) = v"
    if "v \<in> set (sorted_list_of_set {v. \<exists>e. stored C m s v = Some e \<and> P e})" for v
    using that finite_stored [OF assms, of P] stored_version [OF assms] by auto
  then show ?thesis by (simp add: pick_def comp_def cong: map_cong)
qed

lemma sorted_pick:
  assumes "wf_db C m" "name_ok s"
  shows "sorted_wrt (<) (map env_version (pick C m s P))"
  by (simp add: versions_pick [OF assms])

lemma pick_unique:
  assumes "wf_db C m" "name_ok s" "sorted_wrt (<) (map env_version es)"
    "set es = {e. \<exists>v. stored C m s v = Some e \<and> P e}"
  shows "es = pick C m s P"
proof -
  let ?V = "{v. \<exists>e. stored C m s v = Some e \<and> P e}"
  have st: "stored C m s (env_version e) = Some e" if "e \<in> set es" for e
    using that assms(4) stored_version [OF assms(1,2)] by auto
  have "set (map env_version es) = ?V"
    using assms(4) stored_version [OF assms(1,2)] by (force simp: image_iff)
  then have "map env_version es = sorted_list_of_set ?V"
    using assms(3) finite_stored [OF assms(1,2), of P] by (intro strict_sorted_unique) auto
  then have "pick C m s P = map (\<lambda>v. the (stored C m s v)) (map env_version es)"
    by (simp add: pick_def)
  also have "\<dots> = es" by (simp add: map_idI st)
  finally show ?thesis by simp
qed

lemma pick_cong:
  assumes "\<And>v. stored C m s v = stored C m' s v" "\<And>v e. stored C m s v = Some e \<Longrightarrow> P e = Q e"
  shows "pick C m s P = pick C m' s Q"
proof -
  have "{v. \<exists>e. stored C m s v = Some e \<and> P e} = {v. \<exists>e. stored C m' s v = Some e \<and> Q e}"
    using assms by auto
  then show ?thesis using assms(1) by (simp add: pick_def)
qed

section \<open>The guards\<close>

lemma get_be_eq [simp]: "serves r m \<Longrightarrow> get_be r k = Inr (map_option be_u64 (m k))"
  by (simp add: get_be_def)

lemma kv_tail_eq:
  "serves r m \<Longrightarrow> kv_tail C r s = (case m (m_key s ''tail'') of None \<Rightarrow> Inr None
     | Some b \<Rightarrow> bind_res (map_err Encoding (unjson_tail C b)) (\<lambda>x. Inr (Some x)))"
  by (simp add: kv_tail_def get_json_def)

lemma scan_pinsE:
  assumes "wf_db C m" "name_ok s" "is_scan m (m_key s ''forks/'') (Unbounded, Unbounded) l" "(k, b) \<in> set l"
  obtains c where "name_ok c" "k = m_key s (forks_field c)" "m k = Some b"
proof -
  from assms(3,4) obtain x where x: "k = m_key s ''forks/'' @ x" "m k = Some b"
    by (auto simp: is_scan_def in_scan_set)
  then have k: "k = m_key s (forks_field x)" by (simp only: m_key_forks)
  from wf_db_field [OF assms(1,2)] x(2) k have "wf_field C (forks_field x) b" by metis
  then have "name_ok x" by (auto simp: wf_field_def)
  with k x that show ?thesis by blast
qed

lemma scan_pins_in:
  assumes "is_scan m (m_key s ''forks/'') (Unbounded, Unbounded) l" "m (m_key s (forks_field c)) = Some b"
  shows "(m_key s (forks_field c), b) \<in> set l"
  using assms by (auto simp: is_scan_def in_scan_set simp flip: m_key_forks)

definition unpinned :: "kv_map \<Rightarrow> bytes \<times> bytes \<Rightarrow> bool" where
  "unpinned m kv \<longleftrightarrow> m (m_key (pin_child (fst kv)) ''deleted'') = None"

lemma fold_ceiling:
  assumes "serves r m"
  shows "fold_res (\<lambda>c (key, at). bind_res (kv_get r (m_key (pin_child key) ''deleted'')) (\<lambda>d.
       Inr (if d = None then raise_ceiling c (be_u64 at) else c))) c l =
   Inr (foldl raise_ceiling c (map (\<lambda>kv. be_u64 (snd kv)) (filter (unpinned m) l)))"
  using assms by (induction l arbitrary: c) (auto simp: unpinned_def)

lemma foldl_raise_Some: "foldl raise_ceiling (Some c) xs = Some (Max (insert c (set xs)))"
proof (induction xs arbitrary: c)
  case (Cons x xs)
  have "Max (insert (max c x) (set xs)) = Max (insert c (insert x (set xs)))"
    by (cases "xs = []") (simp_all add: max.assoc)
  with Cons show ?case by (simp add: raise_ceiling_def)
qed simp

lemma foldl_raise_None: "foldl raise_ceiling None xs = (if xs = [] then None else Some (Max (set xs)))"
  by (cases xs) (simp_all add: raise_ceiling_def foldl_raise_Some)

lemma ceiling_eq:
  assumes "serves r m" "wf_db C m" "name_ok s"
  shows "ceiling r s = Inr (ceil_of m s)"
proof -
  obtain l where l: "kv_scan r (m_key s ''forks/'') = Inr l" "is_scan m (m_key s ''forks/'') (Unbounded, Unbounded) l"
    using serves_scan [OF assms(1)] by metis
  let ?pins = "map (\<lambda>kv. be_u64 (snd kv)) (filter (unpinned m) l)"
  have "set ?pins = live_pins m s"
  proof (intro set_eqI iffI)
    fix x assume "x \<in> set ?pins"
    then obtain k at where k: "x = be_u64 at" "(k, at) \<in> set l" "unpinned m (k, at)" by auto
    from scan_pinsE [OF assms(2,3) l(2) k(2)] obtain c
      where c: "name_ok c" "k = m_key s (forks_field c)" "m k = Some at" by metis
    with k assms(3) show "x \<in> live_pins m s"
      by (auto simp: live_pins_def unpinned_def is_deleted_def)
  next
    fix x assume "x \<in> live_pins m s"
    then obtain c b where c: "x = be_u64 b" "name_ok c" "m (m_key s (forks_field c)) = Some b" "\<not> is_deleted m c"
      by (auto simp: live_pins_def)
    then have "(m_key s (forks_field c), b) \<in> set (filter (unpinned m) l)"
      using scan_pins_in [OF l(2)] assms(3) by (simp add: unpinned_def is_deleted_def)
    with c(1) show "x \<in> set ?pins" by force
  qed
  moreover from this have "?pins = [] \<longleftrightarrow> live_pins m s = {}" by (metis set_empty)
  ultimately show ?thesis
    using l(1) by (simp add: ceiling_def fold_ceiling [OF assms(1)] foldl_raise_None ceil_of_def)
qed

lemma rollbacks_eq:
  assumes "serves r m" "wf_db C m" "name_ok s"
  obtains rbs where "rollbacks r s = Inr rbs" "set rbs = windows m s"
proof -
  obtain l where l: "kv_scan r (m_key s ''rollback/'') = Inr l" "is_scan m (m_key s ''rollback/'') (Unbounded, Unbounded) l"
    using serves_scan [OF assms(1)] by metis
  have ex: "\<exists>v. v < VMAX \<and> k = m_key s (rollback_field v) \<and> m k = Some b" if "(k, b) \<in> set l" for k b
  proof -
    from l(2) that obtain x where x: "k = m_key s ''rollback/'' @ x" "m k = Some b"
      by (auto simp: is_scan_def in_scan_set)
    then have k: "k = m_key s (''rollback/'' @ x)" by (simp add: m_key_def)
    with wf_db_field [OF assms(2,3)] x(2) have "wf_field C (''rollback/'' @ x) b" by metis
    then have "\<exists>v < VMAX. ''rollback/'' @ x = rollback_field v" by (auto simp: wf_field_def forks_field_def)
    with k x(2) show ?thesis by metis
  qed
  define g where "g kv = (projr (version_suffix (fst kv)), be_u64 (snd kv))" for kv :: "bytes \<times> bytes"
  have g: "(case kv of (k, v) \<Rightarrow> bind_res (version_suffix k) (\<lambda>from. Inr (from, be_u64 v))) = Inr (g kv)"
    if "kv \<in> set l" for kv
    using ex [of "fst kv" "snd kv"] that by (auto simp: g_def split: prod.splits)
  have "rollbacks r s = Inr (map g l)"
    using l(1) map_res_eq [OF g] by (simp add: rollbacks_def)
  moreover have "set (map g l) = windows m s"
  proof (intro set_eqI iffI)
    fix x assume "x \<in> set (map g l)"
    then obtain k b where kb: "(k, b) \<in> set l" "x = g (k, b)" by auto
    from ex [OF kb(1)] obtain v where "v < VMAX" "k = m_key s (rollback_field v)" "m k = Some b" by blast
    with kb(2) show "x \<in> windows m s" by (auto simp: g_def windows_def)
  next
    fix x assume "x \<in> windows m s"
    then obtain v b where vb: "x = (v, be_u64 b)" "v < VMAX" "m (m_key s (rollback_field v)) = Some b"
      by (auto simp: windows_def)
    then have "(m_key s (rollback_field v), b) \<in> set l"
      using l(2) by (auto simp: is_scan_def in_scan_set simp flip: m_key_rollback)
    with vb show "x \<in> set (map g l)" by (force simp: g_def)
  qed
  ultimately show ?thesis using that by blast
qed

section \<open>Reading a stream\<close>

lemma collect_events_eq:
  assumes "\<And>kv. kv \<in> set l \<Longrightarrow> envelope_decode C (snd kv) = Inr (d kv)"
  shows "collect_events C keep l = Inr (map event_from_parts (filter keep (map d l)))"
  using assms
proof (induction l)
  case (Cons kv l)
  then have "envelope_decode C (snd kv) = Inr (d kv)" "collect_events C keep l = Inr (map event_from_parts (filter keep (map d l)))"
    by simp_all
  then show ?case by (cases kv) simp
qed simp

lemma scan_records:
  assumes "wf_db C m" "name_ok s" "lo < VMAX" "\<And>h. hi = Some h \<Longrightarrow> h < VMAX"
    "is_scan m (r_prefix s)
       (Included (fmt016 lo), case hi of Some h \<Rightarrow> Excluded (fmt016 h) | None \<Rightarrow> Unbounded) l"
  obtains d where "\<And>kv. kv \<in> set l \<Longrightarrow> envelope_decode C (snd kv) = Inr (d kv)"
    "map d l = pick C m s (\<lambda>e. in_window lo hi (env_version e))"
proof -
  define d where "d kv = projr (envelope_decode C (snd kv))" for kv :: "bytes \<times> bytes"
  define rg where "rg = (Included (fmt016 lo), case hi of Some h \<Rightarrow> Excluded (fmt016 h) | None \<Rightarrow> Unbounded)"
  have rg: "in_range rg (fmt016 v) \<longleftrightarrow> in_window lo hi v" if "v < VMAX" for v
    using that assms(3,4) by (auto simp: rg_def in_range_def in_window_def fmt016_le fmt016_less split: option.splits)
  have ex: "m (r_key s (env_version (d kv))) = Some (snd kv) \<and> fst kv = r_key s (env_version (d kv)) \<and>
      env_version (d kv) < VMAX \<and> in_window lo hi (env_version (d kv)) \<and> envelope_decode C (snd kv) = Inr (d kv)"
    if "kv \<in> set l" for kv
  proof -
    obtain k b where kv: "kv = (k, b)" by (cases kv)
    with that assms(5) obtain x where x: "k = r_prefix s @ x" "m k = Some b" "in_range rg x"
      by (auto simp: is_scan_def in_scan_set rg_def)
    from wf_db_record [OF assms(1,2)] x obtain v e where "v < VMAX" "x = fmt016 v" "k = r_key s v"
      "envelope_decode C b = Inr e" "env_version e = v" by metis
    with x rg kv show ?thesis by (simp add: d_def)
  qed
  have sl: "sorted_wrt (\<lambda>x y. fst x < fst y) l" using assms(5) by (simp add: is_scan_def sorted_wrt_map)
  have srt: "sorted_wrt (<) (map env_version (map d l))"
    unfolding map_map
  proof (rule sorted_wrt_map_mono [OF sl])
    fix x y assume "x \<in> set l" "y \<in> set l" "fst x < fst y"
    with ex [of x] ex [of y] show "(env_version \<circ> d) x < (env_version \<circ> d) y"
      by (metis comp_apply r_key_less)
  qed
  have "set (map d l) = {e. \<exists>v. stored C m s v = Some e \<and> in_window lo hi (env_version e)}"
  proof (intro set_eqI iffI)
    fix e assume "e \<in> set (map d l)"
    then obtain kv where kv: "kv \<in> set l" "e = d kv" by auto
    with ex [OF kv(1)] have "stored C m s (env_version e) = Some e" "in_window lo hi (env_version e)"
      by (simp_all add: stored_def)
    then show "e \<in> {e. \<exists>v. stored C m s v = Some e \<and> in_window lo hi (env_version e)}" by blast
  next
    fix e assume "e \<in> {e. \<exists>v. stored C m s v = Some e \<and> in_window lo hi (env_version e)}"
    then obtain v where v: "stored C m s v = Some e" "in_window lo hi (env_version e)" by blast
    then obtain b where b: "m (r_key s v) = Some b" "envelope_decode C b = Inr e"
      by (auto simp: stored_def split: option.splits sum.splits)
    from stored_version [OF assms(1,2) v(1)] v(2) rg have "in_range rg (fmt016 v)" by simp
    with b(1) assms(5) have "(r_key s v, b) \<in> set l"
      by (auto simp: is_scan_def in_scan_set rg_def r_key_prefix)
    moreover have "d (r_key s v, b) = e" using b(2) by (simp add: d_def)
    ultimately show "e \<in> set (map d l)" by force
  qed
  with srt have "map d l = pick C m s (\<lambda>e. in_window lo hi (env_version e))"
    by (intro pick_unique [OF assms(1,2)])
  with ex that show ?thesis by blast
qed

lemma filter_pick:
  assumes "wf_db C m" "name_ok s"
  shows "filter Q (pick C m s P) = pick C m s (\<lambda>e. P e \<and> Q e)"
proof (rule pick_unique [OF assms])
  show "sorted_wrt (<) (map env_version (filter Q (pick C m s P)))"
    using sorted_pick [OF assms, of P] by (simp add: sorted_wrt_map sorted_wrt_filter)
qed (auto simp: set_pick [OF assms])

lemma floor_bound: "wf_db C m \<Longrightarrow> name_ok s \<Longrightarrow> floor_of m s < VMAX"
  using wf_db_field [of C m s "''trim''"] by (auto simp: floor_of_def wf_field_def split: option.splits)

theorem read_events_eq:
  assumes r: "serves r m" and wf: "wf_db C m" and s: "name_ok s"
    and rg: "bounds rg = (lo, hi)" and lo: "lo < VMAX" and hi: "\<And>h. hi = Some h \<Longrightarrow> h < VMAX"
  shows "read_events C r s rg = Inr (map event_from_parts (history C m s lo hi))"
proof -
  let ?lo = "max lo (floor_of m s)" and ?del = "is_deleted m s"
  let ?ceil = "if ?del then ceil_of m s else None"
  obtain rbs where rbs: "rollbacks r s = Inr rbs" "set rbs = windows m s"
    using rollbacks_eq [OF r wf s] by metis
  obtain l where l: "kv_scan_range r (r_prefix s)
      (Included (fmt016 ?lo), case hi of Some h \<Rightarrow> Excluded (fmt016 h) | None \<Rightarrow> Unbounded) = Inr l"
    and scan: "is_scan m (r_prefix s)
      (Included (fmt016 ?lo), case hi of Some h \<Rightarrow> Excluded (fmt016 h) | None \<Rightarrow> Unbounded) l"
    using serves_scan_range [OF r] by metis
  have "?lo < VMAX" using lo floor_bound [OF wf s] by simp
  from scan_records [OF wf s this hi scan] obtain d
    where d: "\<And>kv. kv \<in> set l \<Longrightarrow> envelope_decode C (snd kv) = Inr (d kv)"
      "map d l = pick C m s (\<lambda>e. in_window ?lo hi (env_version e))" by metis
  have keep: "(in_window ?lo hi (env_version e) \<and> keep_event ?lo hi ?del ?ceil rbs e) =
      (visible m s e \<and> in_window lo hi (env_version e))" for e
    using rbs(2) by (auto simp: keep_event_def visible_def in_window_def)
  have loop: "collect_events C (keep_event ?lo hi ?del ?ceil rbs) l = Inr (map event_from_parts (history C m s lo hi))"
    by (simp add: collect_events_eq [OF d(1)] d(2) filter_pick [OF wf s] keep history_def)
  have empty: "history C m s lo hi = []" if "hi = Some h" "h \<le> ?lo" for h
  proof -
    have "set (history C m s lo hi) = {}"
      unfolding history_def set_pick [OF wf s] using that by (auto simp: visible_def in_window_def)
    then show ?thesis by simp
  qed
  have lo_eq: "max lo (case map_option be_u64 (m (m_key s ''trim'')) of None \<Rightarrow> 0 | Some f \<Rightarrow> f) = ?lo"
    by (simp add: floor_of_def split: option.splits)
  have del: "(m (m_key s ''deleted'') \<noteq> None) = ?del" by (simp add: is_deleted_def)
  have ceil: "(if ?del then ceiling r s else Inr None) = Inr ?ceil" by (simp add: ceiling_eq [OF r wf s])
  show ?thesis
    unfolding read_events_def rg Let_def prod.case get_be_eq [OF r] serves_get [OF r] bind_res_Inr del ceil rbs(1) lo_eq l
    using empty loop by auto
qed

end
