(* ===== verification/Append.thy ===== *)
theory Append
  imports Kv_Spec
begin

text \<open>
  The write path of \<open>src/store.rs\<close>: the checks and writes of one append replayed into a
  transaction (\<open>replay_append\<close>), the global sequence stamp (\<open>commit_seq\<close>), the bounded retry loop
  on commit conflicts (\<open>commit_appends\<close>), the public append variants, fencing, the durability
  barrier and cross-stream transactions.

  What a call takes from its environment is a record \<open>env\<close>: the readings of the clock and of the
  ULID generator, what other clients commit between the begin of its transaction and its commit,
  and the statuses its watch on the engine delivers.
\<close>

section \<open>Types\<close>

record commit_info =
  first_version :: version
  last_version :: version
  start_sequence :: u64

record commit_ticket =
  tk_info :: commit_info
  tk_seq :: u64

record page_limit =
  max_count :: nat
  max_bytes :: nat

datatype tx_op =
    OpAppend string expected_version "new_event list"
  | OpFence string "string option"

text \<open>\<open>Transaction\<close>: the queued operations; \<open>append\<close> and \<open>fence\<close> push one.\<close>

type_synonym transaction = "tx_op list"

definition new_transaction :: transaction where
  "new_transaction = []"

definition transaction_append :: "transaction \<Rightarrow> string \<Rightarrow> expected_version \<Rightarrow> new_event list \<Rightarrow> transaction" where
  "transaction_append ops stream expected events = ops @ [OpAppend stream expected events]"

definition transaction_fence :: "transaction \<Rightarrow> string \<Rightarrow> string option \<Rightarrow> transaction" where
  "transaction_fence ops stream token = ops @ [OpFence stream token]"

record db_status =
  durable_seq :: u64
  close_reason :: "string option"

record 's env =
  clock :: "nat \<Rightarrow> i64"
  ulids :: "nat \<Rightarrow> string"
  others :: "'s \<Rightarrow> 's"
  watch :: "db_status list"

definition MAX_BATCH_RECORDS :: nat where
  "MAX_BATCH_RECORDS = 1000"

definition COMMIT_RETRIES :: nat where
  "COMMIT_RETRIES = 8"

definition MAX_RECORD_BYTES :: nat where
  "MAX_RECORD_BYTES = 2 ^ 20"

section \<open>Replaying an append\<close>

definition check_batch :: "new_event list \<Rightarrow> unit res" where
  "check_batch events =
     (if MAX_BATCH_RECORDS < length events then
        Inl (InvalidInput (''batch of '' @ show_nat (length events) @ '' records exceeds max '' @ show_nat MAX_BATCH_RECORDS))
      else case find (\<lambda>e. MAX_RECORD_BYTES < length (ne_data e)) events of
        Some e \<Rightarrow> Inl (InvalidInput (''record data of '' @ show_nat (length (ne_data e)) @ '' bytes exceeds max '' @ show_nat MAX_RECORD_BYTES))
      | None \<Rightarrow> Inr ())"

fun version_matches :: "expected_version \<Rightarrow> version option \<Rightarrow> bool" where
  "version_matches Any current = True"
| "version_matches NoStream current = (current = None)"
| "version_matches (Exact v) current = (current = Some v)"

definition check_fence :: "('s, 't) slatedb_ops \<Rightarrow> 't \<Rightarrow> string \<Rightarrow> string option \<Rightarrow> unit res" where
  "check_fence B t stream fence_token =
     (case fence_token of
        None \<Rightarrow> Inr ()
      | Some token \<Rightarrow> bind_res (map_err Backend (tx_get B t (m_key stream ''fence''))) (\<lambda>fence.
          case fence of
            None \<Rightarrow> Inr ()
          | Some b \<Rightarrow> let current_token = from_utf8_lossy b in
              if current_token \<noteq> token then Inl (FenceMismatch stream current_token) else Inr ()))"

definition stamp :: "'s env \<Rightarrow> nat \<Rightarrow> version \<Rightarrow> u64 \<Rightarrow> i64 \<Rightarrow> new_event \<Rightarrow> envelope" where
  "stamp E i v sq last_ts e =
     (let env = envelope_new (ulids E i) (clock E i) e v
      in env\<lparr>env_seq := sq, env_ts_ms := max (env_ts_ms env) last_ts\<rparr>)"

text \<open>The loop over the batch; \<open>i\<close> is the index of the head of the list.\<close>

fun replay_events ::
  "('s, 't) slatedb_ops \<Rightarrow> codec \<Rightarrow> 's env \<Rightarrow> string \<Rightarrow> version \<Rightarrow> u64 \<Rightarrow> bool \<Rightarrow> nat \<Rightarrow> 't \<Rightarrow> i64 \<Rightarrow>
   new_event list \<Rightarrow> ('t \<times> i64) res" where
  "replay_events B C E stream first start_seq index_ts i t last_ts [] = Inr (t, last_ts)"
| "replay_events B C E stream first start_seq index_ts i t last_ts (e # es) =
     (let v = add64 first i;
          env = stamp E i v (add64 start_seq i) last_ts e
      in bind_res (envelope_encode C env) (\<lambda>b.
         bind_res (map_err Backend (tx_put B t (r_key stream v) b)) (\<lambda>t1.
         bind_res (if index_ts then map_err Backend (tx_put B t1 (ts_key stream (env_ts_ms env) v) []) else Inr t1) (\<lambda>t2.
           replay_events B C E stream first start_seq index_ts (Suc i) t2 (env_ts_ms env) es))))"

definition replay_append ::
  "('s, 't) slatedb_ops \<Rightarrow> codec \<Rightarrow> 's env \<Rightarrow> 't \<Rightarrow> u64 \<Rightarrow> string \<Rightarrow> expected_version \<Rightarrow> version option \<Rightarrow>
   string option \<Rightarrow> new_event list \<Rightarrow> bool \<Rightarrow> (commit_info \<times> u64 \<times> 't) res" where
  "replay_append B C E t sq stream expected from_version fence_token events index_ts =
     bind_res (kv_tail C (tx_reader B t) stream) (\<lambda>tail.
     let current = map_option tail_version tail in
     bind_res (check_fence B t stream fence_token) (\<lambda>_.
       if \<not> version_matches expected current then Inl (VersionConflict stream expected current)
       else if events = [] then Inl (InvalidInput ''empty batch'')
       else
         let first = (case from_version of Some v \<Rightarrow> v
                      | None \<Rightarrow> (case current of None \<Rightarrow> 0 | Some v \<Rightarrow> add64 v 1));
             n = length events;
             last = add64 first (n - 1);
             start_seq = add64 sq 1
         in bind_res (replay_events B C E stream first start_seq index_ts 0 t
                        (case tail of None \<Rightarrow> 0 | Some r \<Rightarrow> tail_ts_ms r) events) (\<lambda>(t', last_ts).
            bind_res (map_err Encoding (json_tail C
                \<lparr>tail_version = (case current of None \<Rightarrow> last | Some c \<Rightarrow> max c last), tail_ts_ms = last_ts\<rparr>)) (\<lambda>b.
            bind_res (map_err Backend (tx_put B t' (m_key stream ''tail'') b)) (\<lambda>t''.
              Inr (\<lparr>first_version = first, last_version = last, start_sequence = start_seq\<rparr>,
                   add64 start_seq (n - 1), t''))))))"

definition replay_fence :: "('s, 't) slatedb_ops \<Rightarrow> 't \<Rightarrow> string \<Rightarrow> string option \<Rightarrow> 't res" where
  "replay_fence B t stream token =
     (case token of
        Some tok \<Rightarrow> if tok \<noteq> [] then map_err Backend (tx_put B t (m_key stream ''fence'') tok)
                    else map_err Backend (tx_delete B t (m_key stream ''fence''))
      | None \<Rightarrow> map_err Backend (tx_delete B t (m_key stream ''fence'')))"

section \<open>Committing\<close>

definition commit_seq :: "('s, 't) slatedb_ops \<Rightarrow> 's \<Rightarrow> 't \<Rightarrow> u64 \<Rightarrow> (slate_error + u64 option) \<times> 's" where
  "commit_seq B s t sq =
     (case bind_res (tx_put B t SEQ_KEY (to_be_bytes sq)) (\<lambda>t1. tx_unmark_write B t1 [SEQ_KEY]) of
        Inl e \<Rightarrow> (Inl e, s)
      | Inr t2 \<Rightarrow> tx_commit B s t2)"

definition seq_of :: "u64 option \<Rightarrow> u64" where
  "seq_of v = (case v of None \<Rightarrow> 0 | Some n \<Rightarrow> n)"

text \<open>One attempt: begin, read the counter, replay the append. What follows is the commit.\<close>

definition prepare_append ::
  "('s, 't) slatedb_ops \<Rightarrow> codec \<Rightarrow> 's env \<Rightarrow> 's \<Rightarrow> string \<Rightarrow> expected_version \<Rightarrow> version option \<Rightarrow>
   string option \<Rightarrow> new_event list \<Rightarrow> bool \<Rightarrow> (commit_info \<times> u64 \<times> 't) res" where
  "prepare_append B C E s stream expected from_version fence_token events index_ts =
     bind_res (map_err Backend (db_begin B s)) (\<lambda>t.
     bind_res (get_be (tx_reader B t) SEQ_KEY) (\<lambda>v.
       replay_append B C E t (seq_of v) stream expected from_version fence_token events index_ts))"

text \<open>The loop of \<open>commit_appends\<close>; \<open>retries\<close> is \<open>COMMIT_RETRIES - attempt\<close>.\<close>

fun commit_loop ::
  "('s, 't) slatedb_ops \<Rightarrow> codec \<Rightarrow> (nat \<Rightarrow> 's env) \<Rightarrow> string \<Rightarrow> expected_version \<Rightarrow> version option \<Rightarrow>
   string option \<Rightarrow> new_event list \<Rightarrow> bool \<Rightarrow> nat \<Rightarrow> 's \<Rightarrow> commit_ticket res \<times> 's" where
  "commit_loop B C Es stream expected from_version fence_token events index_ts retries s =
     (let E = Es (COMMIT_RETRIES - retries) in
      case prepare_append B C E s stream expected from_version fence_token events index_ts of
        Inl e \<Rightarrow> (Inl e, s)
      | Inr (info, sq, t) \<Rightarrow>
         (case commit_seq B (others E s) t sq of
            (Inr (Some wal_seq), s') \<Rightarrow> (Inr \<lparr>tk_info = info, tk_seq = wal_seq\<rparr>, s')
          | (Inr None, s') \<Rightarrow> (Inl (Panicked ''append always writes''), s')
          | (Inl e, s') \<Rightarrow>
              if e = SlateTransaction \<and> 0 < retries
              then commit_loop B C Es stream expected from_version fence_token events index_ts (retries - 1) s'
              else if e = SlateTransaction
              then (bind_res (kv_tail C (db_reader B s') stream) (\<lambda>tail.
                      Inl (VersionConflict stream expected (map_option tail_version tail))), s')
              else (Inl (Backend e), s')))"

declare commit_loop.simps [simp del]

definition commit_appends ::
  "('s, 't) slatedb_ops \<Rightarrow> codec \<Rightarrow> (nat \<Rightarrow> 's env) \<Rightarrow> 's \<Rightarrow> string \<Rightarrow> expected_version \<Rightarrow> version option \<Rightarrow>
   string option \<Rightarrow> new_event list \<Rightarrow> bool \<Rightarrow> commit_ticket res \<times> 's" where
  "commit_appends B C Es s stream expected from_version fence_token events index_ts =
     (case check_batch events of
        Inl e \<Rightarrow> (Inl e, s)
      | Inr _ \<Rightarrow> commit_loop B C Es stream expected from_version fence_token events index_ts COMMIT_RETRIES s)"

definition await_seq :: "db_status list \<Rightarrow> u64 \<Rightarrow> unit res" where
  "await_seq statuses sq =
     (case find (\<lambda>st. sq \<le> durable_seq st \<or> close_reason st \<noteq> None) statuses of
        None \<Rightarrow> Inl (Backend (SlateClosed ''watermark watcher closed''))
      | Some st \<Rightarrow> if durable_seq st < sq
                   then Inl (Backend (SlateClosed (''closed before seq '' @ show_nat sq @ '' durable'')))
                   else Inr ())"

definition await_durable :: "db_status list \<Rightarrow> commit_ticket \<Rightarrow> unit res" where
  "await_durable statuses ticket = await_seq statuses (tk_seq ticket)"

section \<open>The public operations\<close>

definition append_lazy ::
  "('s, 't) slatedb_ops \<Rightarrow> codec \<Rightarrow> (nat \<Rightarrow> 's env) \<Rightarrow> 's \<Rightarrow> string \<Rightarrow> expected_version \<Rightarrow> new_event list \<Rightarrow>
   commit_ticket res \<times> 's" where
  "append_lazy B C Es s stream expected events = commit_appends B C Es s stream expected None None events True"

definition append_event ::
  "('s, 't) slatedb_ops \<Rightarrow> codec \<Rightarrow> (nat \<Rightarrow> 's env) \<Rightarrow> 's \<Rightarrow> string \<Rightarrow> expected_version \<Rightarrow> new_event list \<Rightarrow>
   commit_info res \<times> 's" where
  "append_event B C Es s stream expected events =
     apfst (\<lambda>r. bind_res r (\<lambda>t. Inr (tk_info t))) (append_lazy B C Es s stream expected events)"

definition append_at ::
  "('s, 't) slatedb_ops \<Rightarrow> codec \<Rightarrow> (nat \<Rightarrow> 's env) \<Rightarrow> 's \<Rightarrow> string \<Rightarrow> version \<Rightarrow> expected_version \<Rightarrow> new_event list \<Rightarrow>
   commit_info res \<times> 's" where
  "append_at B C Es s stream from_version expected events =
     apfst (\<lambda>r. bind_res r (\<lambda>t. Inr (tk_info t)))
       (commit_appends B C Es s stream expected (Some from_version) None events True)"

definition append_with_token_lazy ::
  "('s, 't) slatedb_ops \<Rightarrow> codec \<Rightarrow> (nat \<Rightarrow> 's env) \<Rightarrow> 's \<Rightarrow> string \<Rightarrow> string \<Rightarrow> expected_version \<Rightarrow> new_event list \<Rightarrow>
   bool \<Rightarrow> commit_ticket res \<times> 's" where
  "append_with_token_lazy B C Es s stream token expected events index_ts =
     commit_appends B C Es s stream expected None (Some token) events index_ts"

definition append_with_token ::
  "('s, 't) slatedb_ops \<Rightarrow> codec \<Rightarrow> (nat \<Rightarrow> 's env) \<Rightarrow> 's \<Rightarrow> string \<Rightarrow> string \<Rightarrow> expected_version \<Rightarrow> new_event list \<Rightarrow>
   commit_info res \<times> 's" where
  "append_with_token B C Es s stream token expected events =
     apfst (\<lambda>r. bind_res r (\<lambda>t. Inr (tk_info t)))
       (commit_appends B C Es s stream expected None (Some token) events True)"

definition append_with_token_durable ::
  "('s, 't) slatedb_ops \<Rightarrow> codec \<Rightarrow> (nat \<Rightarrow> 's env) \<Rightarrow> db_status list \<Rightarrow> 's \<Rightarrow> string \<Rightarrow> string \<Rightarrow> expected_version \<Rightarrow>
   new_event list \<Rightarrow> commit_info res \<times> 's" where
  "append_with_token_durable B C Es sts s stream token expected events =
     apfst (\<lambda>r. bind_res r (\<lambda>t. bind_res (await_durable sts t) (\<lambda>_. Inr (tk_info t))))
       (append_with_token_lazy B C Es s stream token expected events True)"

definition append_durable ::
  "('s, 't) slatedb_ops \<Rightarrow> codec \<Rightarrow> (nat \<Rightarrow> 's env) \<Rightarrow> db_status list \<Rightarrow> 's \<Rightarrow> string \<Rightarrow> expected_version \<Rightarrow>
   new_event list \<Rightarrow> commit_info res \<times> 's" where
  "append_durable B C Es sts s stream expected events =
     apfst (\<lambda>r. bind_res r (\<lambda>t. bind_res (await_durable sts t) (\<lambda>_. Inr (tk_info t))))
       (append_lazy B C Es s stream expected events)"

definition tail_commit_info :: "tail_record option \<Rightarrow> commit_info" where
  "tail_commit_info tail =
     (let v = (case tail of None \<Rightarrow> 0 | Some t \<Rightarrow> tail_version t)
      in \<lparr>first_version = v, last_version = v, start_sequence = 0\<rparr>)"

text \<open>Begin, run a body on the transaction, commit: the frame of the state-only operations.\<close>

definition with_txn ::
  "('s, 't) slatedb_ops \<Rightarrow> 's env \<Rightarrow> 's \<Rightarrow> ('t \<Rightarrow> ('a \<times> 't) res) \<Rightarrow> ('a \<times> u64 option) res \<times> 's" where
  "with_txn B E s body =
     (case bind_res (map_err Backend (db_begin B s)) body of
        Inl e \<Rightarrow> (Inl e, s)
      | Inr (x, t) \<Rightarrow> (case tx_commit B (others E s) t of
          (Inl e, s') \<Rightarrow> (Inl (Backend e), s')
        | (Inr h, s') \<Rightarrow> (Inr (x, h), s')))"

definition fence ::
  "('s, 't) slatedb_ops \<Rightarrow> codec \<Rightarrow> 's env \<Rightarrow> 's \<Rightarrow> string \<Rightarrow> string option \<Rightarrow> commit_info res \<times> 's" where
  "fence B C E s stream token =
     apfst (\<lambda>r. bind_res r (\<lambda>(tail, handle).
         bind_res (case handle of None \<Rightarrow> Inr () | Some sq \<Rightarrow> await_seq (watch E) sq) (\<lambda>_.
           Inr (tail_commit_info tail))))
       (with_txn B E s (\<lambda>t.
         bind_res (kv_tail C (tx_reader B t) stream) (\<lambda>tail.
         bind_res (replay_fence B t stream token) (\<lambda>t'. Inr (tail, t')))))"

section \<open>Cross-stream transactions\<close>

fun replay_ops ::
  "('s, 't) slatedb_ops \<Rightarrow> codec \<Rightarrow> (nat \<Rightarrow> 's env) \<Rightarrow> nat \<Rightarrow> 't \<Rightarrow> u64 \<Rightarrow> tx_op list \<Rightarrow>
   (commit_info list \<times> u64 \<times> 't) res" where
  "replay_ops B C Es i t sq [] = Inr ([], sq, t)"
| "replay_ops B C Es i t sq (OpAppend stream expected events # ops) =
     bind_res (replay_append B C (Es i) t sq stream expected None None events True) (\<lambda>(info, sq', t').
     bind_res (replay_ops B C Es (Suc i) t' sq' ops) (\<lambda>(infos, sq'', t''). Inr (info # infos, sq'', t'')))"
| "replay_ops B C Es i t sq (OpFence stream token # ops) =
     bind_res (replay_fence B t stream token) (\<lambda>t'. replay_ops B C Es (Suc i) t' sq ops)"

definition check_ops :: "tx_op list \<Rightarrow> unit res" where
  "check_ops ops = bind_res (map_res (\<lambda>op. case op of OpAppend _ _ events \<Rightarrow> check_batch events | OpFence _ _ \<Rightarrow> Inr ()) ops) (\<lambda>_. Inr ())"

definition commit ::
  "('s, 't) slatedb_ops \<Rightarrow> codec \<Rightarrow> (nat \<Rightarrow> 's env) \<Rightarrow> 's \<Rightarrow> transaction \<Rightarrow> commit_info list res \<times> 's" where
  "commit B C Es s txn =
     (case bind_res (check_ops txn) (\<lambda>_.
           bind_res (map_err Backend (db_begin B s)) (\<lambda>t.
           bind_res (get_be (tx_reader B t) SEQ_KEY) (\<lambda>v.
             replay_ops B C Es 0 t (seq_of v) txn))) of
        Inl e \<Rightarrow> (Inl e, s)
      | Inr (infos, sq, t) \<Rightarrow> (case commit_seq B (others (Es 0) s) t sq of
          (Inl e, s') \<Rightarrow> (Inl (Backend e), s')
        | (Inr _, s') \<Rightarrow> (Inr infos, s')))"

definition durable_sequence :: "('s, 't) slatedb_ops \<Rightarrow> 's \<Rightarrow> u64 res" where
  "durable_sequence B s = bind_res (get_be (db_reader B s) SEQ_KEY) (\<lambda>v. Inr (seq_of v))"

end
