(* ===== verification/Append_Spec.thy ===== *)
theory Append_Spec
  imports Append
begin

text \<open>
  What an append does to the stored map. \<open>append_writes\<close> is the set of writes one append leaves in
  its transaction; the lemmas give the map after these writes: the batch stands at consecutive
  versions, every other record and every other field is as before, and the map stays
  well-formed. The locale \<open>event_store\<close> joins the contracts of the engine and of the serialisers,
  and its lemmas connect the replayed code with these writes.
\<close>

section \<open>The tail and the counter in the map\<close>

definition tail_of :: "codec \<Rightarrow> kv_map \<Rightarrow> string \<Rightarrow> tail_record option" where
  "tail_of C m s = (case m (m_key s ''tail'') of None \<Rightarrow> None
     | Some b \<Rightarrow> (case unjson_tail C b of Inl _ \<Rightarrow> None | Inr t \<Rightarrow> Some t))"

definition current_version :: "codec \<Rightarrow> kv_map \<Rightarrow> string \<Rightarrow> version option" where
  "current_version C m s = map_option tail_version (tail_of C m s)"

definition next_version :: "codec \<Rightarrow> kv_map \<Rightarrow> string \<Rightarrow> version" where
  "next_version C m s = (case current_version C m s of None \<Rightarrow> 0 | Some v \<Rightarrow> v + 1)"

definition last_ts :: "codec \<Rightarrow> kv_map \<Rightarrow> string \<Rightarrow> i64" where
  "last_ts C m s = (case tail_of C m s of None \<Rightarrow> 0 | Some t \<Rightarrow> tail_ts_ms t)"

definition global_seq :: "kv_map \<Rightarrow> u64" where
  "global_seq m = seq_of (map_option be_u64 (m SEQ_KEY))"

definition fence_of :: "kv_map \<Rightarrow> string \<Rightarrow> string option" where
  "fence_of m s = map_option from_utf8_lossy (m (m_key s ''fence''))"

definition ulids_ok :: "'s env \<Rightarrow> bool" where
  "ulids_ok E \<longleftrightarrow> (\<forall>i. length (ulids E i) = 26)"

section \<open>The writes of an append\<close>

fun stamped :: "'s env \<Rightarrow> nat \<Rightarrow> version \<Rightarrow> u64 \<Rightarrow> i64 \<Rightarrow> new_event list \<Rightarrow> envelope list" where
  "stamped E i v sq ts [] = []"
| "stamped E i v sq ts (e # es) =
     (let env = stamp E i (v + i) (sq + i) ts e in env # stamped E (Suc i) v sq (env_ts_ms env) es)"

definition enc :: "codec \<Rightarrow> envelope \<Rightarrow> bytes" where
  "enc C e = projr (envelope_encode C e)"

fun batch_writes ::
  "codec \<Rightarrow> string \<Rightarrow> bool \<Rightarrow> envelope list \<Rightarrow> (bytes \<Rightarrow> bytes option option) \<Rightarrow> (bytes \<Rightarrow> bytes option option)" where
  "batch_writes C s index_ts [] w = w"
| "batch_writes C s index_ts (env # es) w =
     (let w1 = w(r_key s (env_version env) \<mapsto> Some (enc C env));
          w2 = (if index_ts then w1(ts_key s (env_ts_ms env) (env_version env) \<mapsto> Some []) else w1)
      in batch_writes C s index_ts es w2)"

definition end_ts :: "i64 \<Rightarrow> envelope list \<Rightarrow> i64" where
  "end_ts ts es = (if es = [] then ts else env_ts_ms (last es))"

definition new_tail :: "version option \<Rightarrow> i64 \<Rightarrow> envelope list \<Rightarrow> tail_record" where
  "new_tail current ts es =
     \<lparr>tail_version = (case current of None \<Rightarrow> env_version (last es) | Some c \<Rightarrow> max c (env_version (last es))),
      tail_ts_ms = end_ts ts es\<rparr>"

definition append_writes ::
  "codec \<Rightarrow> string \<Rightarrow> bool \<Rightarrow> version option \<Rightarrow> i64 \<Rightarrow> envelope list \<Rightarrow> (bytes \<Rightarrow> bytes option option) \<Rightarrow>
   (bytes \<Rightarrow> bytes option option)" where
  "append_writes C s index_ts current ts es w =
     (batch_writes C s index_ts es w)(m_key s ''tail'' \<mapsto> Some (projr (json_tail C (new_tail current ts es))))"

lemma length_stamped [simp]: "length (stamped E i v sq ts es) = length es"
  by (induction es arbitrary: i ts) (auto simp: Let_def)

lemma stamped_empty [simp]: "stamped E i v sq ts es = [] \<longleftrightarrow> es = []"
  by (metis length_0_conv length_stamped)

lemma stamp_simps [simp]:
  "env_version (stamp E i v sq ts e) = v" "env_seq (stamp E i v sq ts e) = sq"
  "env_data (stamp E i v sq ts e) = ne_data e" "env_type (stamp E i v sq ts e) = ne_type e"
  "env_metadata (stamp E i v sq ts e) = ne_metadata e" "env_id (stamp E i v sq ts e) = ulids E i"
  "env_ts_ms (stamp E i v sq ts e) = max (clock E i) ts"
  by (simp_all add: stamp_def envelope_new_def)

lemma stamped_nth:
  "j < length es \<Longrightarrow> env_version (stamped E i v sq ts es ! j) = v + i + j \<and>
     env_seq (stamped E i v sq ts es ! j) = sq + i + j \<and> env_data (stamped E i v sq ts es ! j) = ne_data (es ! j) \<and>
     env_type (stamped E i v sq ts es ! j) = ne_type (es ! j) \<and>
     env_metadata (stamped E i v sq ts es ! j) = ne_metadata (es ! j) \<and>
     env_id (stamped E i v sq ts es ! j) = ulids E (i + j)"
  by (induction es arbitrary: i j ts) (auto simp: Let_def nth_Cons split: nat.splits)

lemma stamped_versions: "map env_version (stamped E i v sq ts es) = [v + i ..< v + i + length es]"
  by (rule nth_equalityI) (auto simp: stamped_nth)

lemma stamped_ts_mono: "sorted_wrt (\<le>) (ts # map env_ts_ms (stamped E i v sq ts es))"
proof (induction es arbitrary: i ts)
  case (Cons e es)
  from Cons [where ts = "max (clock E i) ts" and i = "Suc i"] show ?case
    by (auto simp: Let_def intro: order_trans)
qed simp

lemma last_stamped_version: "es \<noteq> [] \<Longrightarrow> env_version (last (stamped E 0 v sq ts es)) = v + length es - 1"
  by (cases es rule: rev_cases) (simp_all add: last_conv_nth stamped_nth)

text \<open>A list of envelopes at consecutive versions below the bound of the key format.\<close>

definition consecutive :: "version \<Rightarrow> envelope list \<Rightarrow> bool" where
  "consecutive v es \<longleftrightarrow> (\<forall>j < length es. env_version (es ! j) = v + j) \<and> v + length es \<le> VMAX"

lemma consecutive_stamped: "v + length es \<le> VMAX \<Longrightarrow> consecutive v (stamped E 0 v sq ts es)"
  by (simp add: consecutive_def stamped_nth)

lemma consecutive_Cons: "consecutive v (e # es) \<longleftrightarrow> env_version e = v \<and> consecutive (Suc v) es \<and> v < VMAX"
  by (auto simp: consecutive_def nth_Cons split: nat.splits)

lemma consecutive_in:
  "consecutive v es \<Longrightarrow> e \<in> set es \<Longrightarrow> v \<le> env_version e \<and> env_version e < v + length es \<and> env_version e < VMAX"
  by (auto simp: consecutive_def in_set_conv_nth)

lemma batch_writes_other:
  assumes "\<And>e. e \<in> set es \<Longrightarrow> k \<noteq> r_key s (env_version e)" "\<And>ts v. k \<noteq> ts_key s ts v"
  shows "batch_writes C s index_ts es w k = w k"
  using assms by (induction es arbitrary: w) (auto simp: Let_def)

lemma batch_writes_record:
  assumes "name_ok s" "consecutive v es" "j < length es"
  shows "batch_writes C s index_ts es w (r_key s (v + j)) = Some (Some (enc C (es ! j)))"
  using assms(2,3)
proof (induction es arbitrary: v j w)
  case (Cons e es)
  then have e: "env_version e = v" "consecutive (Suc v) es" "v < VMAX" by (simp_all add: consecutive_Cons)
  show ?case
  proof (cases j)
    case 0
    have "r_key s v \<noteq> r_key s (env_version e')" if "e' \<in> set es" for e'
    proof -
      from consecutive_in [OF e(2) that] have "v < env_version e'" "env_version e' < VMAX" by auto
      with e(3) assms(1) show ?thesis by (simp add: r_key_eq)
    qed
    then show ?thesis by (simp add: 0 e Let_def batch_writes_other)
  next
    case (Suc j')
    with Cons.prems e Cons.IH [of "Suc v" j'] show ?thesis by (simp add: Let_def)
  qed
qed simp

lemma append_writes_record:
  assumes "name_ok s" "consecutive v es" "v \<le> u" "u < v + length es"
  shows "append_writes C s index_ts cur ts es w (r_key s u) = Some (Some (enc C (es ! (u - v))))"
  using batch_writes_record [OF assms(1,2), of "u - v"] assms(3,4) by (simp add: append_writes_def)

lemma append_writes_field:
  assumes "name_ok s" "name_ok s'"
  shows "append_writes C s index_ts cur ts es w (m_key s' f) =
     (if s' = s \<and> f = ''tail'' then Some (Some (projr (json_tail C (new_tail cur ts es)))) else w (m_key s' f))"
  using assms by (auto simp: append_writes_def m_key_eq intro: batch_writes_other)

lemma append_writes_other:
  assumes "\<And>v. k \<noteq> r_key s v" "\<And>ts v. k \<noteq> ts_key s ts v" "k \<noteq> m_key s ''tail''"
  shows "append_writes C s index_ts cur ts es w k = w k"
  using assms by (simp add: append_writes_def batch_writes_other)

section \<open>The map after an append\<close>

definition appended ::
  "codec \<Rightarrow> string \<Rightarrow> bool \<Rightarrow> version option \<Rightarrow> i64 \<Rightarrow> envelope list \<Rightarrow> u64 \<Rightarrow> kv_map \<Rightarrow> kv_map" where
  "appended C s index_ts cur ts es sq m =
     overlay m ((append_writes C s index_ts cur ts es Map.empty)(SEQ_KEY \<mapsto> Some (to_be_bytes sq)))"

lemma appended_record_other:
  assumes "name_ok s" "name_ok s'" "consecutive v es" "u < VMAX" "s' \<noteq> s \<or> u < v \<or> v + length es \<le> u"
  shows "appended C s index_ts cur ts es sq m (r_key s' u) = m (r_key s' u)"
proof -
  have "r_key s' u \<noteq> r_key s (env_version e)" if "e \<in> set es" for e
  proof -
    from consecutive_in [OF assms(3) that] assms show ?thesis by (auto simp: r_key_eq)
  qed
  then have "append_writes C s index_ts cur ts es Map.empty (r_key s' u) = None"
    by (simp add: append_writes_def batch_writes_other)
  then show ?thesis by (simp add: appended_def overlay_def)
qed

lemma appended_field:
  assumes "name_ok s" "name_ok s'" "s' \<noteq> s \<or> f \<noteq> ''tail''"
  shows "appended C s index_ts cur ts es sq m (m_key s' f) = m (m_key s' f)"
  using assms by (auto simp: appended_def append_writes_field overlay_def)

lemma appended_seq: "sq < 2 ^ 64 \<Longrightarrow> global_seq (appended C s index_ts cur ts es sq m) = sq"
  by (simp add: appended_def global_seq_def seq_of_def)

lemma appended_other:
  assumes "\<And>v. k \<noteq> r_key s v" "\<And>ts v. k \<noteq> ts_key s ts v" "k \<noteq> m_key s ''tail''" "k \<noteq> SEQ_KEY"
  shows "appended C s index_ts cur ts es sq m k = m k"
  using assms append_writes_other [of k s C index_ts cur ts es Map.empty]
  by (simp add: appended_def overlay_def)

context serde_codec begin

lemma enc_inverse:
  "length (env_id e) = 26 \<Longrightarrow> envelope_encode C e = Inr (enc C e) \<and> envelope_decode C (enc C e) = Inr e"
  using envelope_roundtrip [of e] by (auto simp: enc_def)

lemma tail_inverse: "json_tail C t = Inr (projr (json_tail C t)) \<and> unjson_tail C (projr (json_tail C t)) = Inr t"
  using tail_codec [of t] by auto

lemma appended_record:
  assumes "name_ok s" "consecutive v es" "\<And>e. e \<in> set es \<Longrightarrow> length (env_id e) = 26" "v \<le> u" "u < v + length es"
  shows "stored C (appended C s index_ts cur ts es sq m) s u = Some (es ! (u - v))"
  using append_writes_record [OF assms(1,2,4,5), of C index_ts cur ts Map.empty] assms(3) [of "es ! (u - v)"] assms(4,5)
    enc_inverse [of "es ! (u - v)"]
  by (simp add: stored_def appended_def overlay_def)

lemma appended_tail:
  assumes "name_ok s"
  shows "tail_of C (appended C s index_ts cur ts es sq m) s = Some (new_tail cur ts es)"
  using tail_inverse [of "new_tail cur ts es"] assms
  by (simp add: tail_of_def appended_def overlay_def append_writes_field)

lemma batch_writes_wf:
  assumes "name_ok s" "\<And>e. e \<in> set es \<Longrightarrow> length (env_id e) = 26 \<and> env_version e < VMAX"
    "\<And>k b. w k = Some (Some b) \<Longrightarrow> wf_entry C k b" "batch_writes C s index_ts es w k = Some (Some b)"
  shows "wf_entry C k b"
  using assms(2-4)
proof (induction es arbitrary: w)
  case (Cons e es)
  let ?w1 = "w(r_key s (env_version e) \<mapsto> Some (enc C e))"
  let ?w2 = "if index_ts then ?w1(ts_key s (env_ts_ms e) (env_version e) \<mapsto> Some []) else ?w1"
  have "wf_entry C (r_key s (env_version e)) (enc C e)"
    using Cons.prems(1) [of e] assms(1) enc_inverse [of e] wf_entry_record by simp
  moreover have "wf_entry C (ts_key s (env_ts_ms e) (env_version e)) []"
    by (rule wf_entry_other) (simp_all add: ts_key_def)
  ultimately have w2: "wf_entry C k b" if "?w2 k = Some (Some b)" for k b
    using Cons.prems(2) that by (auto split: if_splits)
  show ?case
    using Cons.IH [OF _ w2] Cons.prems(1,3) by (simp add: Let_def)
qed (simp add: assms(3))

lemma finite_batch_writes: "finite (dom w) \<Longrightarrow> finite (dom (batch_writes C s index_ts es w))"
  by (induction es arbitrary: w) (auto simp: Let_def)

lemma wf_field_tail: "tail_version t < VMAX \<Longrightarrow> wf_field C ''tail'' (projr (json_tail C t))"
  using tail_inverse [of t] by (auto simp: wf_field_def)

lemma wf_db_appended:
  assumes "wf_db C m" "name_ok s" "consecutive v es" "es \<noteq> []"
    "\<And>e. e \<in> set es \<Longrightarrow> length (env_id e) = 26" "\<And>c. cur = Some c \<Longrightarrow> c < VMAX"
  shows "wf_db C (appended C s index_ts cur ts es sq m)"
  unfolding appended_def
proof (rule wf_db_overlay [OF assms(1)])
  show "finite (dom ((append_writes C s index_ts cur ts es Map.empty)(SEQ_KEY \<mapsto> Some (to_be_bytes sq))))"
    by (simp add: append_writes_def finite_batch_writes)
  fix k b
  assume k: "((append_writes C s index_ts cur ts es Map.empty)(SEQ_KEY \<mapsto> Some (to_be_bytes sq))) k = Some (Some b)"
  have e: "length (env_id e) = 26 \<and> env_version e < VMAX" if "e \<in> set es" for e
    using assms(5) [OF that] consecutive_in [OF assms(3) that] by simp
  have "tail_version (new_tail cur ts es) < VMAX"
    using e [of "last es"] assms(4,6) by (auto simp: new_tail_def split: option.splits)
  from wf_field_tail [OF this] have tail: "wf_entry C (m_key s ''tail'') (projr (json_tail C (new_tail cur ts es)))"
    by (rule wf_entry_field [OF assms(2)])
  have sq: "wf_entry C SEQ_KEY b" by (rule wf_entry_other) (simp_all add: SEQ_KEY_def)
  from k tail sq show "wf_entry C k b"
    by (auto simp: append_writes_def split: if_splits intro: batch_writes_wf [OF assms(2) e, of _ Map.empty])
qed

end

end
