(* ===== verification/Event_Store.thy ===== *)
theory Event_Store
  imports Append_Spec
begin

text \<open>
  The append path against its contract. Inside the locale \<open>event_store\<close> (the engine's and the
  serialisers' laws) the replayed code is shown to compute the outcome and the writes of
  \<open>Append_Spec\<close>, for one append, for the retry loop and for the public operations.
\<close>

definition append_start :: "codec \<Rightarrow> kv_map \<Rightarrow> string \<Rightarrow> version option \<Rightarrow> version" where
  "append_start C m s from_version = (case from_version of Some v \<Rightarrow> v | None \<Rightarrow> next_version C m s)"

text \<open>Why an append is refused, in the order the code checks; \<^const>\<open>None\<close> when it is not.\<close>

definition refusal ::
  "codec \<Rightarrow> kv_map \<Rightarrow> string \<Rightarrow> expected_version \<Rightarrow> string option \<Rightarrow> new_event list \<Rightarrow> error option" where
  "refusal C m s expected token events =
     (if (\<exists>tok cur. token = Some tok \<and> fence_of m s = Some cur \<and> cur \<noteq> tok)
      then Some (FenceMismatch s (the (fence_of m s)))
      else if \<not> version_matches expected (current_version C m s)
      then Some (VersionConflict s expected (current_version C m s))
      else if events = [] then Some (InvalidInput ''empty batch'')
      else None)"

text \<open>The envelopes an append stores.\<close>

definition batch_of ::
  "codec \<Rightarrow> 's env \<Rightarrow> kv_map \<Rightarrow> string \<Rightarrow> version option \<Rightarrow> new_event list \<Rightarrow> envelope list" where
  "batch_of C E m s from_version events =
     stamped E 0 (append_start C m s from_version) (global_seq m + 1) (last_ts C m s) events"

text \<open>The map after an append to \<open>m\<close>.\<close>

definition append_map ::
  "codec \<Rightarrow> 's env \<Rightarrow> kv_map \<Rightarrow> string \<Rightarrow> version option \<Rightarrow> bool \<Rightarrow> new_event list \<Rightarrow> kv_map" where
  "append_map C E m s from_version index_ts events =
     appended C s index_ts (current_version C m s) (last_ts C m s) (batch_of C E m s from_version events)
       (global_seq m + length events) m"

definition append_room :: "codec \<Rightarrow> kv_map \<Rightarrow> string \<Rightarrow> version option \<Rightarrow> new_event list \<Rightarrow> bool" where
  "append_room C m s from_version events \<longleftrightarrow>
     append_start C m s from_version + length events \<le> VMAX \<and> global_seq m + length events < 2 ^ 64"

lemma kv_tail_of:
  assumes "serves r m" "wf_db C m" "name_ok s"
  shows "kv_tail C r s = Inr (tail_of C m s)"
proof (cases "m (m_key s ''tail'')")
  case (Some b)
  with wf_db_field [OF assms(2,3) Some] obtain t where "unjson_tail C b = Inr t"
    by (auto simp: wf_field_def)
  with Some show ?thesis by (simp add: kv_tail_eq [OF assms(1)] tail_of_def)
qed (simp add: kv_tail_eq [OF assms(1)] tail_of_def)

lemma tail_of_bound:
  assumes "wf_db C m" "name_ok s" "tail_of C m s = Some t"
  shows "tail_version t < VMAX"
proof -
  from assms(3) obtain b where b: "m (m_key s ''tail'') = Some b" "unjson_tail C b = Inr t"
    by (auto simp: tail_of_def split: option.splits sum.splits)
  with wf_db_field [OF assms(1,2) b(1)] show ?thesis by (auto simp: wf_field_def)
qed

lemma current_version_bound:
  "wf_db C m \<Longrightarrow> name_ok s \<Longrightarrow> current_version C m s = Some v \<Longrightarrow> v < VMAX"
  using tail_of_bound by (auto simp: current_version_def)

lemma next_version_add64:
  assumes "wf_db C m" "name_ok s"
  shows "(case current_version C m s of None \<Rightarrow> 0 | Some v \<Rightarrow> add64 v 1) = next_version C m s"
  using current_version_bound [OF assms] by (auto simp: next_version_def split: option.splits)

lemma batch_ids:
  "ulids_ok E \<Longrightarrow> e \<in> set (batch_of C E m s from_version events) \<Longrightarrow> length (env_id e) = 26"
  by (auto simp: batch_of_def ulids_ok_def in_set_conv_nth stamped_nth)

lemma batch_consecutive:
  "append_room C m s from_version events \<Longrightarrow>
     consecutive (append_start C m s from_version) (batch_of C E m s from_version events)"
  by (simp add: append_room_def batch_of_def consecutive_stamped)

text \<open>The six ways one turn of the retry loop goes on.\<close>

lemma commit_loop_cases:
  assumes "commit_loop B C Es stream expected from_version token events idx retries s = (r, s')"
  obtains (refused) e where "r = Inl e" "s' = s"
      "prepare_append B C (Es (COMMIT_RETRIES - retries)) s stream expected from_version token events idx = Inl e"
    | (committed) info sq t h where "r = Inr \<lparr>tk_info = info, tk_seq = h\<rparr>"
      "prepare_append B C (Es (COMMIT_RETRIES - retries)) s stream expected from_version token events idx = Inr (info, sq, t)"
      "commit_seq B (others (Es (COMMIT_RETRIES - retries)) s) t sq = (Inr (Some h), s')"
    | (nothing_written) t sq where "commit_seq B (others (Es (COMMIT_RETRIES - retries)) s) t sq = (Inr None, s')"
    | (retry) info sq t s1 n where "retries = Suc n"
      "prepare_append B C (Es (COMMIT_RETRIES - retries)) s stream expected from_version token events idx = Inr (info, sq, t)"
      "commit_seq B (others (Es (COMMIT_RETRIES - retries)) s) t sq = (Inl SlateTransaction, s1)"
      "commit_loop B C Es stream expected from_version token events idx n s1 = (r, s')"
    | (exhausted) info sq t where "retries = 0"
      "prepare_append B C (Es (COMMIT_RETRIES - retries)) s stream expected from_version token events idx = Inr (info, sq, t)"
      "commit_seq B (others (Es (COMMIT_RETRIES - retries)) s) t sq = (Inl SlateTransaction, s')"
      "r = bind_res (kv_tail C (db_reader B s') stream) (\<lambda>tail. Inl (VersionConflict stream expected (map_option tail_version tail)))"
    | (backend) sq t e where "r = Inl (Backend e)" "e \<noteq> SlateTransaction"
      "commit_seq B (others (Es (COMMIT_RETRIES - retries)) s) t sq = (Inl e, s')"
proof (cases "prepare_append B C (Es (COMMIT_RETRIES - retries)) s stream expected from_version token events idx")
  case (Inl e)
  with assms refused show ?thesis by (subst (asm) commit_loop.simps) auto
next
  case (Inr p)
  obtain info sq t where p: "p = (info, sq, t)" by (cases p)
  obtain c s1 where c: "commit_seq B (others (Es (COMMIT_RETRIES - retries)) s) t sq = (c, s1)" by fastforce
  note unfolded = assms [unfolded commit_loop.simps [of B C Es stream expected from_version token events idx retries s] Let_def
      Inr p c sum.case prod.case]
  show ?thesis
  proof (cases c)
    case (Inl e)
    show ?thesis
    proof (cases "e = SlateTransaction")
      case True
      with unfolded c Inl Inr p retry exhausted show ?thesis by (cases retries) auto
    next
      case False
      with unfolded c Inl backend show ?thesis by auto
    qed
  next
    case h: (Inr h)
    with unfolded c Inr p committed nothing_written show ?thesis by (cases h) auto
  qed
qed

locale event_store = slatedb B content writes base + serde_codec C
  for B :: "('s, 't) slatedb_ops" and content writes base C
begin

lemma check_fence_eq:
  "check_fence B t s token =
     (if (\<exists>tok cur. token = Some tok \<and> fence_of (view t) s = Some cur \<and> cur \<noteq> tok)
      then Inl (FenceMismatch s (the (fence_of (view t) s))) else Inr ())"
  by (auto simp: check_fence_def tx_get_law fence_of_def Let_def simp flip: view_def split: option.splits)

lemma replay_events_eq:
  assumes "ulids_ok E" "first + i + length es \<le> VMAX" "sq + i + length es \<le> 2 ^ 64"
  shows "\<exists>t'. replay_events B C E s first sq idx i t ts es = Inr (t', end_ts ts (stamped E i first sq ts es)) \<and>
     base t' = base t \<and> writes t' = batch_writes C s idx (stamped E i first sq ts es) (writes t)"
  using assms(2,3)
proof (induction es arbitrary: i t ts)
  case Nil
  then show ?case by (simp add: end_ts_def)
next
  case (Cons e es)
  let ?env = "stamp E i (first + i) (sq + i) ts e"
  have enc: "envelope_encode C ?env = Inr (enc C ?env)"
    using enc_inverse [of ?env] assms(1) by (simp add: ulids_ok_def)
  obtain t1 where t1: "tx_put B t (r_key s (first + i)) (enc C ?env) = Inr t1" "base t1 = base t"
    "writes t1 = (writes t)(r_key s (first + i) \<mapsto> Some (enc C ?env))" using tx_putE by metis
  obtain u where u: "tx_put B t1 (ts_key s (env_ts_ms ?env) (first + i)) [] = Inr u" "base u = base t1"
    "writes u = (writes t1)(ts_key s (env_ts_ms ?env) (first + i) \<mapsto> Some [])" using tx_putE by metis
  define t2 where "t2 = (if idx then u else t1)"
  have t2: "(if idx then map_err Backend (tx_put B t1 (ts_key s (env_ts_ms ?env) (first + i)) []) else Inr t1) = Inr t2"
    "base t2 = base t"
    "writes t2 = (if idx then (writes t1)(ts_key s (env_ts_ms ?env) (first + i) \<mapsto> Some []) else writes t1)"
    using u t1(2) by (simp_all add: t2_def)
  from Cons.IH [of "Suc i" t2 "env_ts_ms ?env"] Cons.prems obtain t'
    where t': "replay_events B C E s first sq idx (Suc i) t2 (env_ts_ms ?env) es =
        Inr (t', end_ts (env_ts_ms ?env) (stamped E (Suc i) first sq (env_ts_ms ?env) es))" "base t' = base t2"
      "writes t' = batch_writes C s idx (stamped E (Suc i) first sq (env_ts_ms ?env) es) (writes t2)"
    by auto
  have end_eq: "end_ts ts (stamped E i first sq ts (e # es)) = end_ts (env_ts_ms ?env) (stamped E (Suc i) first sq (env_ts_ms ?env) es)"
    by (simp add: end_ts_def Let_def)
  have add: "add64 first i = first + i" "add64 sq i = sq + i" using Cons.prems by simp_all
  show ?case
    unfolding end_eq
    using enc t1 t2 t' by (simp add: add Let_def del: stamp_simps(7))
qed

lemma replay_append_at:
  assumes wf: "wf_db C (view t)" and s: "name_ok s" and ids: "ulids_ok E"
    and room: "append_start C (view t) s from_version + length events \<le> VMAX" "sq + length events < 2 ^ 64"
  shows "case refusal C (view t) s expected token events of
      Some e \<Rightarrow> replay_append B C E t sq s expected from_version token events idx = Inl e
    | None \<Rightarrow> \<exists>t'. replay_append B C E t sq s expected from_version token events idx =
          Inr (\<lparr>first_version = append_start C (view t) s from_version,
                last_version = append_start C (view t) s from_version + length events - 1,
                start_sequence = sq + 1\<rparr>, sq + length events, t') \<and>
        base t' = base t \<and>
        writes t' = append_writes C s idx (current_version C (view t) s) (last_ts C (view t) s)
          (stamped E 0 (append_start C (view t) s from_version) (sq + 1) (last_ts C (view t) s) events) (writes t)"
proof -
  let ?m = "view t" and ?n = "length events"
  let ?first = "append_start C ?m s from_version" and ?sq = sq
  have tail: "kv_tail C (tx_reader B t) s = Inr (tail_of C ?m s)"
    by (rule kv_tail_of [OF serves_tx wf s])
  show ?thesis
  proof (cases "refusal C ?m s expected token events")
    case (Some e)
    then show ?thesis
      by (auto simp: refusal_def replay_append_def tail check_fence_eq current_version_def Let_def split: if_splits)
  next
    case None
    then have ok: "version_matches expected (current_version C ?m s)" "events \<noteq> []" "check_fence B t s token = Inr ()"
      by (auto simp: refusal_def check_fence_eq split: if_splits)
    have n: "1 \<le> ?n" using ok(2) by (cases events) auto
    have room': "?first + ?n \<le> VMAX" "?sq + ?n < 2 ^ 64" using room by simp_all
    have first: "(case from_version of Some v \<Rightarrow> v | None \<Rightarrow> (case current_version C ?m s of None \<Rightarrow> 0 | Some v \<Rightarrow> add64 v 1)) = ?first"
      unfolding append_start_def next_version_add64 [OF wf s] ..
    have adds: "add64 ?first (?n - 1) = ?first + ?n - 1" "add64 ?sq 1 = ?sq + 1" "add64 (?sq + 1) (?n - 1) = ?sq + ?n"
      using room' n by (simp_all add: add64_def)
    obtain t1 where t1: "replay_events B C E s ?first (?sq + 1) idx 0 t (last_ts C ?m s) events =
        Inr (t1, end_ts (last_ts C ?m s) (stamped E 0 ?first (sq + 1) (last_ts C ?m s) events))" "base t1 = base t"
      "writes t1 = batch_writes C s idx (stamped E 0 ?first (sq + 1) (last_ts C ?m s) events) (writes t)"
      using replay_events_eq [OF ids, of ?first 0 events "?sq + 1" s idx t "last_ts C ?m s"] room' by auto
    let ?tail = "new_tail (current_version C ?m s) (last_ts C ?m s) (stamped E 0 ?first (sq + 1) (last_ts C ?m s) events)"
    have tail': "\<lparr>tail_version = (case current_version C ?m s of None \<Rightarrow> ?first + ?n - 1 | Some c \<Rightarrow> max c (?first + ?n - 1)),
        tail_ts_ms = end_ts (last_ts C ?m s) (stamped E 0 ?first (sq + 1) (last_ts C ?m s) events)\<rparr> = ?tail"
      using ok(2) by (simp add: new_tail_def last_stamped_version split: option.split)
    obtain b where b: "json_tail C ?tail = Inr b" using tail_inverse [of ?tail] by blast
    obtain t2 where t2: "tx_put B t1 (m_key s ''tail'') b = Inr t2" "base t2 = base t1"
      "writes t2 = (writes t1)(m_key s ''tail'' \<mapsto> Some b)" using tx_putE by metis
    have ts: "(case tail_of C ?m s of None \<Rightarrow> 0 | Some r \<Rightarrow> tail_ts_ms r) = last_ts C ?m s" by (simp add: last_ts_def)
    have "replay_append B C E t ?sq s expected from_version token events idx =
      Inr (\<lparr>first_version = ?first, last_version = ?first + ?n - 1, start_sequence = ?sq + 1\<rparr>, ?sq + ?n, t2)"
      unfolding replay_append_def tail bind_res_Inr Let_def current_version_def [symmetric] ok(3) first adds ts t1(1) tail' prod.case
      using ok(1,2) b t2(1) by simp
    with None t2 t1(2,3) b show ?thesis by (simp add: append_writes_def)
  qed
qed

lemma replay_append_eq:
  assumes "wf_db C (view t)" "name_ok s" "ulids_ok E" "append_room C (view t) s from_version events"
  shows "case refusal C (view t) s expected token events of
      Some e \<Rightarrow> replay_append B C E t (global_seq (view t)) s expected from_version token events idx = Inl e
    | None \<Rightarrow> \<exists>t'. replay_append B C E t (global_seq (view t)) s expected from_version token events idx =
          Inr (\<lparr>first_version = append_start C (view t) s from_version,
                last_version = append_start C (view t) s from_version + length events - 1,
                start_sequence = global_seq (view t) + 1\<rparr>, global_seq (view t) + length events, t') \<and>
        base t' = base t \<and>
        writes t' = append_writes C s idx (current_version C (view t) s) (last_ts C (view t) s)
          (batch_of C E (view t) s from_version events) (writes t)"
  using replay_append_at [OF assms(1-3), of from_version events "global_seq (view t)" expected token idx] assms(4)
  unfolding batch_of_def append_room_def by blast

lemma commit_seqE:
  obtains t2 where "commit_seq B s t sq = tx_commit B s t2" "base t2 = base t"
    "writes t2 = (writes t)(SEQ_KEY \<mapsto> Some (to_be_bytes sq))"
proof -
  obtain t1 where t1: "tx_put B t SEQ_KEY (to_be_bytes sq) = Inr t1" "base t1 = base t"
    "writes t1 = (writes t)(SEQ_KEY \<mapsto> Some (to_be_bytes sq))" using tx_putE by metis
  obtain t2 where "tx_unmark_write B t1 [SEQ_KEY] = Inr t2" "base t2 = base t1" "writes t2 = writes t1"
    using tx_unmarkE by metis
  with t1 that show ?thesis by (simp add: commit_seq_def)
qed

lemma commit_seq_ok:
  assumes "commit_seq B s t sq = (Inr h, s')"
  shows "content s' = overlay (content s) ((writes t)(SEQ_KEY \<mapsto> Some (to_be_bytes sq))) \<and> h \<noteq> None"
  using commit_seqE [of s t sq] assms commit_ok by (metis fun_upd_same option.distinct(1))

lemma commit_seq_writes [simp]: "commit_seq B s t sq \<noteq> (Inr None, s')"
  using commit_seq_ok [of s t sq None s'] by blast

lemma commit_seq_conflict: "commit_seq B s t sq = (Inl SlateTransaction, s') \<Longrightarrow> content s' = content s"
  using commit_seqE [of s t sq] commit_conflict by metis

lemma commit_seq_quiet:
  assumes "base t = s"
  obtains h s' where "commit_seq B s t sq = (Inr (Some h), s')"
    "content s' = overlay (content s) ((writes t)(SEQ_KEY \<mapsto> Some (to_be_bytes sq)))"
proof -
  obtain t2 where t2: "commit_seq B s t sq = tx_commit B s t2" "base t2 = base t"
    using commit_seqE by metis
  with commit_quiet [of t2 s] assms obtain h s' where "commit_seq B s t sq = (Inr h, s')" by metis
  with commit_seq_ok [OF this] that show ?thesis by auto
qed

lemma prepare_append_eq:
  assumes wf: "wf_db C (content s)" and s: "name_ok stream" and ids: "ulids_ok E"
    and room: "append_room C (content s) stream from_version events"
  shows "case refusal C (content s) stream expected token events of
      Some e \<Rightarrow> prepare_append B C E s stream expected from_version token events idx = Inl e
    | None \<Rightarrow> \<exists>t. prepare_append B C E s stream expected from_version token events idx =
          Inr (\<lparr>first_version = append_start C (content s) stream from_version,
                last_version = append_start C (content s) stream from_version + length events - 1,
                start_sequence = global_seq (content s) + 1\<rparr>, global_seq (content s) + length events, t) \<and>
        base t = s \<and>
        writes t = append_writes C stream idx (current_version C (content s) stream) (last_ts C (content s) stream)
          (batch_of C E (content s) stream from_version events) Map.empty"
proof -
  obtain t where t: "db_begin B s = Inr t" "base t = s" "writes t = Map.empty" "view t = content s"
    by (rule tx_beginE)
  have sq: "get_be (tx_reader B t) SEQ_KEY = Inr (map_option be_u64 (content s SEQ_KEY))"
    using get_be_eq [OF serves_tx, of t SEQ_KEY] t(4) by simp
  show ?thesis
    using replay_append_eq [of t stream E from_version events expected token idx] assms t sq
    by (cases "refusal C (content s) stream expected token events")
       (simp_all add: prepare_append_def flip: global_seq_def)
qed

text \<open>Without interference the first attempt decides.\<close>

lemma commit_loop_quiet:
  assumes "wf_db C (content s)" "name_ok stream" "ulids_ok (Es (COMMIT_RETRIES - retries))"
    "append_room C (content s) stream from_version events" "others (Es (COMMIT_RETRIES - retries)) s = s"
  shows "case refusal C (content s) stream expected token events of
      Some e \<Rightarrow> commit_loop B C Es stream expected from_version token events idx retries s = (Inl e, s)
    | None \<Rightarrow> \<exists>h s'. commit_loop B C Es stream expected from_version token events idx retries s =
          (Inr \<lparr>tk_info = \<lparr>first_version = append_start C (content s) stream from_version,
                 last_version = append_start C (content s) stream from_version + length events - 1,
                 start_sequence = global_seq (content s) + 1\<rparr>, tk_seq = h\<rparr>, s') \<and>
        content s' = append_map C (Es (COMMIT_RETRIES - retries)) (content s) stream from_version idx events"
proof (cases "refusal C (content s) stream expected token events")
  case None
  with prepare_append_eq [OF assms(1-4), of expected token idx] obtain t
    where t: "prepare_append B C (Es (COMMIT_RETRIES - retries)) s stream expected from_version token events idx =
          Inr (\<lparr>first_version = append_start C (content s) stream from_version,
                last_version = append_start C (content s) stream from_version + length events - 1,
                start_sequence = global_seq (content s) + 1\<rparr>, global_seq (content s) + length events, t)" "base t = s"
      "writes t = append_writes C stream idx (current_version C (content s) stream) (last_ts C (content s) stream)
          (batch_of C (Es (COMMIT_RETRIES - retries)) (content s) stream from_version events) Map.empty"
    by auto
  obtain h s' where c: "commit_seq B s t (global_seq (content s) + length events) = (Inr (Some h), s')"
    "content s' = overlay (content s) ((writes t)(SEQ_KEY \<mapsto> Some (to_be_bytes (global_seq (content s) + length events))))"
    using commit_seq_quiet [OF t(2)] by metis
  with None t(1,3) assms(5) show ?thesis
    by (subst commit_loop.simps) (simp add: append_map_def appended_def)
next
  case (Some e)
  with prepare_append_eq [OF assms(1-4), of expected token idx] show ?thesis
    by (subst commit_loop.simps) simp
qed

text \<open>A call that fails otherwise than by a failure of the engine leaves only what other clients wrote.\<close>

lemma commit_loop_error:
  assumes "commit_loop B C Es stream expected from_version token events idx retries s = (Inl e, s')"
    "Q (content s)" "\<And>k s. Q (content s) \<Longrightarrow> Q (content (others (Es k) s))" "\<And>x. e \<noteq> Backend x"
  shows "Q (content s')"
  using assms(1,2)
proof (induction retries arbitrary: s)
  case 0
  from 0(1) show ?case
    by (rule commit_loop_cases) (use 0(2) assms(3,4) commit_seq_conflict commit_seq_ok in \<open>fastforce+\<close>)
next
  case (Suc retries)
  from Suc.prems(1) show ?case
    by (rule commit_loop_cases) (use Suc.IH Suc.prems(2) assms(3,4) commit_seq_conflict commit_seq_ok in \<open>fastforce+\<close>)
qed

end

section \<open>Interference\<close>

text \<open>
  SlateDB's serialisable isolation, as far as the append path needs it: a commit goes through only
  when no key the transaction has written and not unmarked has changed since its begin.
\<close>

locale slatedb_ssi = slatedb B content writes base
  for B :: "('s, 't) slatedb_ops" and content writes base +
  fixes marked :: "'t \<Rightarrow> bytes set"
  assumes marked_put: "tx_put B t k v = Inr t' \<Longrightarrow> marked t' = insert k (marked t)"
    and marked_unmark: "tx_unmark_write B t ks = Inr t' \<Longrightarrow> marked t' = marked t - set ks"
    and commit_unchanged: "tx_commit B s t = (Inr h, s') \<Longrightarrow> k \<in> marked t \<Longrightarrow> content s k = content (base t) k"

locale event_store_ssi = event_store B content writes base C + slatedb_ssi B content writes base marked
  for B :: "('s, 't) slatedb_ops" and content writes base marked C
begin

lemma replay_append_marks:
  assumes "replay_append B C E t sq stream expected from_version token events idx = Inr (info, sq', t')"
  shows "m_key stream ''tail'' \<in> marked t'"
  using assms marked_put
  by (fastforce simp: replay_append_def bind_res_eq_Inr Let_def split: if_splits prod.splits)

lemma prepare_append_marks:
  "prepare_append B C E bs stream expected from_version token events idx = Inr (info, sq, t) \<Longrightarrow>
     m_key stream ''tail'' \<in> marked t"
  using replay_append_marks by (fastforce simp: prepare_append_def bind_res_eq_Inr)

lemma commit_seq_tail:
  assumes "prepare_append B C E bs stream expected from_version token events idx = Inr (info, sq, t)"
    "commit_seq B s t sq = (Inr h, s')" "base t = bs"
  shows "content s (m_key stream ''tail'') = content bs (m_key stream ''tail'')"
proof -
  have m: "m_key stream ''tail'' \<in> marked t" using assms(1) by (rule prepare_append_marks)
  obtain t1 where t1: "tx_put B t SEQ_KEY (to_be_bytes sq) = Inr t1" "base t1 = base t" using tx_putE by metis
  obtain t2 where t2: "tx_unmark_write B t1 [SEQ_KEY] = Inr t2" "base t2 = base t1" using tx_unmarkE by metis
  from m marked_put [OF t1(1)] marked_unmark [OF t2(1)] have "m_key stream ''tail'' \<in> marked t2" by simp
  moreover from t1 t2 assms(2) have "tx_commit B s t2 = (Inr h, s')" by (simp add: commit_seq_def)
  ultimately show ?thesis using commit_unchanged t1(2) t2(2) assms(3) by metis
qed

lemma commit_loop_commit:
  assumes "prepare_append B C E bs stream expected from_version token events idx = Inr (info, sq, t)"
    "commit_seq B (others E bs) t sq = (Inr h, s')" "wf_db C (content bs)" "append_room C (content bs) stream from_version events"
    "name_ok stream" "ulids_ok E"
  shows "version_matches expected (current_version C (content (others E bs)) stream) \<and> events \<noteq> [] \<and>
     info = \<lparr>first_version = append_start C (content (others E bs)) stream from_version,
        last_version = append_start C (content (others E bs)) stream from_version + length events - 1,
        start_sequence = global_seq (content bs) + 1\<rparr> \<and>
     content s' = appended C stream idx (current_version C (content (others E bs)) stream) (last_ts C (content (others E bs)) stream)
       (stamped E 0 (append_start C (content (others E bs)) stream from_version) (global_seq (content bs) + 1)
          (last_ts C (content (others E bs)) stream) events)
       (global_seq (content bs) + length events) (content (others E bs))"
proof -
  have none: "refusal C (content bs) stream expected token events = None"
    using prepare_append_eq [OF assms(3,5,6,4), of expected token idx] assms(1) by (auto split: option.splits)
  with prepare_append_eq [OF assms(3,5,6,4), of expected token idx] assms(1)
  have t: "base t = bs" "sq = global_seq (content bs) + length events"
    "writes t = append_writes C stream idx (current_version C (content bs) stream) (last_ts C (content bs) stream)
          (batch_of C E (content bs) stream from_version events) Map.empty"
    "info = \<lparr>first_version = append_start C (content bs) stream from_version,
        last_version = append_start C (content bs) stream from_version + length events - 1,
        start_sequence = global_seq (content bs) + 1\<rparr>"
    by auto
  have "tail_of C (content (others E bs)) stream = tail_of C (content bs) stream"
    using commit_seq_tail [OF assms(1,2) t(1)] by (simp add: tail_of_def)
  then have eqs: "current_version C (content (others E bs)) stream = current_version C (content bs) stream"
    "last_ts C (content (others E bs)) stream = last_ts C (content bs) stream"
    "append_start C (content (others E bs)) stream from_version = append_start C (content bs) stream from_version"
    by (simp_all add: current_version_def last_ts_def append_start_def next_version_def split: option.split)
  show ?thesis
    using commit_seq_ok [OF assms(2)] none t unfolding eqs
    by (auto simp: refusal_def appended_def batch_of_def split: if_splits)
qed

text \<open>
  A call that succeeds took effect at one moment, on the state just before its commit: the version
  check holds of that state, and the batch was added to it. Only the global sequence numbers are
  those of the earlier state \<open>bs\<close> the transaction began on.
\<close>

lemma commit_loop_linear:
  assumes "commit_loop B C Es stream expected from_version token events idx retries s = (Inr tk, s')"
    "P (content s)" "\<And>k s. P (content s) \<Longrightarrow> P (content (others (Es k) s))"
    "\<And>m. P m \<Longrightarrow> wf_db C m \<and> append_room C m stream from_version events"
    "name_ok stream" "\<And>k. ulids_ok (Es k)"
  shows "\<exists>k bs pre. P (content bs) \<and> pre = others (Es k) bs \<and>
     version_matches expected (current_version C (content pre) stream) \<and> events \<noteq> [] \<and>
     tk_info tk = \<lparr>first_version = append_start C (content pre) stream from_version,
        last_version = append_start C (content pre) stream from_version + length events - 1,
        start_sequence = global_seq (content bs) + 1\<rparr> \<and>
     content s' = appended C stream idx (current_version C (content pre) stream) (last_ts C (content pre) stream)
       (stamped (Es k) 0 (append_start C (content pre) stream from_version) (global_seq (content bs) + 1)
          (last_ts C (content pre) stream) events)
       (global_seq (content bs) + length events) (content pre)"
  using assms(1,2)
proof (induction retries arbitrary: s)
  case 0
  from 0(1) show ?case
  proof (cases rule: commit_loop_cases)
    case (committed info sq t h)
    from commit_loop_commit [OF committed(2,3)] assms(4) [OF 0(2)] assms(5,6) 0(2) committed(1) show ?thesis
      by (intro exI [of _ "COMMIT_RETRIES - 0"] exI [of _ s] exI [of _ "others (Es (COMMIT_RETRIES - 0)) s"]) simp
  qed simp_all
next
  case (Suc n)
  from Suc.prems(1) show ?case
  proof (cases rule: commit_loop_cases)
    case (committed info sq t h)
    from commit_loop_commit [OF committed(2,3)] assms(4) [OF Suc.prems(2)] assms(5,6) Suc.prems(2) committed(1) show ?thesis
      by (intro exI [of _ "COMMIT_RETRIES - Suc n"] exI [of _ s] exI [of _ "others (Es (COMMIT_RETRIES - Suc n)) s"]) simp
  next
    case (retry info sq t s1 n')
    with commit_seq_conflict [OF retry(3)] assms(3) Suc show ?thesis by simp
  qed simp_all
qed

text \<open>An attempt loop that meets a conflict at every commit ends, after the last attempt, in a version conflict
  that reports the version the stream has then.\<close>

lemma commit_loop_exhausted:
  assumes "P (content s)" "\<And>k s. P (content s) \<Longrightarrow> P (content (others (Es k) s))"
    "\<And>m. P m \<Longrightarrow> wf_db C m \<and> append_room C m stream from_version events \<and>
       refusal C m stream expected token events = None"
    "name_ok stream" "\<And>k. ulids_ok (Es k)"
    "\<And>k s t sq. P (content s) \<Longrightarrow> base t = s \<Longrightarrow> m_key stream ''tail'' \<in> marked t \<Longrightarrow>
       fst (commit_seq B (others (Es k) s) t sq) = Inl SlateTransaction"
  shows "\<exists>s'. commit_loop B C Es stream expected from_version token events idx retries s =
     (Inl (VersionConflict stream expected (current_version C (content s') stream)), s') \<and> P (content s')"
  using assms(1)
proof (induction retries arbitrary: s)
  case (0 s)
  let ?E = "Es (COMMIT_RETRIES - 0)"
  from prepare_append_eq [of s stream ?E from_version events expected token idx] assms(3) [OF 0] assms(4,5)
  obtain info sq t where t: "prepare_append B C ?E s stream expected from_version token events idx = Inr (info, sq, t)" "base t = s"
    by auto
  with prepare_append_marks [OF t(1)] assms(6) [OF 0, of t "COMMIT_RETRIES - 0" sq] obtain s'
    where c: "commit_seq B (others ?E s) t sq = (Inl SlateTransaction, s')" by (metis prod.collapse)
  from commit_seq_conflict [OF c] assms(2) 0 have P: "P (content s')" by simp
  from kv_tail_of [OF serves_db] assms(3) [OF P] assms(4)
  have "kv_tail C (db_reader B s') stream = Inr (tail_of C (content s') stream)" by blast
  with t c P show ?case by (subst commit_loop.simps) (simp add: current_version_def)
next
  case (Suc n s)
  let ?E = "Es (COMMIT_RETRIES - Suc n)"
  from prepare_append_eq [of s stream ?E from_version events expected token idx] assms(3) [OF Suc.prems] assms(4,5)
  obtain info sq t where t: "prepare_append B C ?E s stream expected from_version token events idx = Inr (info, sq, t)" "base t = s"
    by auto
  with prepare_append_marks [OF t(1)] assms(6) [OF Suc.prems, of t "COMMIT_RETRIES - Suc n" sq] obtain s1
    where c: "commit_seq B (others ?E s) t sq = (Inl SlateTransaction, s1)" by (metis prod.collapse)
  from commit_seq_conflict [OF c] assms(2) Suc.prems have "P (content s1)" by simp
  from Suc.IH [OF this] t c show ?case by (subst commit_loop.simps) simp
qed

end

end
