(* ===== verification/Mem_Db.thy ===== *)
theory Mem_Db
  imports Event_Store
begin

text \<open>
  A reference engine and reference serialisers that satisfy the contracts of \<open>Slate\<close> and
  \<open>Records\<close>: an ordered in-memory store whose transactions keep the state they began on and
  their own writes, with conflict detection on the marked keys at commit; and a length-prefixed
  text format. They show that the assumed laws can hold together, and the concrete examples of
  the development run on them.
\<close>

section \<open>The engine\<close>

type_synonym mem_db = "(bytes \<times> bytes) list \<times> u64"

record mem_txn =
  mt_base :: mem_db
  mt_writes :: "(bytes \<times> bytes option) list"
  mt_marked :: "bytes list"

definition mem_content :: "mem_db \<Rightarrow> kv_map" where
  "mem_content s = map_of (fst s)"

definition mem_overlay :: "(bytes \<times> bytes) list \<Rightarrow> (bytes \<times> bytes option) list \<Rightarrow> (bytes \<times> bytes) list" where
  "mem_overlay l w = foldr (\<lambda>(k, x) l. case x of Some v \<Rightarrow> (k, v) # l | None \<Rightarrow> filter (\<lambda>p. fst p \<noteq> k) l) w l"

definition mem_scan :: "(bytes \<times> bytes) list \<Rightarrow> bytes \<Rightarrow> byte_range \<Rightarrow> (bytes \<times> bytes) list" where
  "mem_scan l p rg =
     map (\<lambda>k. (k, the (map_of l k)))
       (sorted_list_of_set (set (filter (\<lambda>k. prefix p k \<and> in_range rg (drop (length p) k)) (map fst l))))"

definition mem_commit :: "mem_db \<Rightarrow> mem_txn \<Rightarrow> (slate_error + u64 option) \<times> mem_db" where
  "mem_commit s t =
     (if list_ex (\<lambda>k. mem_content s k \<noteq> mem_content (mt_base t) k) (mt_marked t) then (Inl SlateTransaction, s)
      else if mt_writes t = [] then (Inr None, s)
      else (Inr (Some (snd s + 1)), (mem_overlay (fst s) (mt_writes t), snd s + 1)))"

definition mem_ops :: "(mem_db, mem_txn) slatedb_ops" where
  "mem_ops =
     \<lparr>db_get = (\<lambda>s k. Inr (mem_content s k)),
      db_scan = (\<lambda>s p rg. Inr (mem_scan (fst s) p rg)),
      db_put = (\<lambda>s k v. (Inr (), ((k, v) # fst s, snd s + 1))),
      db_begin = (\<lambda>s. Inr \<lparr>mt_base = s, mt_writes = [], mt_marked = []\<rparr>),
      tx_get = (\<lambda>t k. Inr (map_of (mem_overlay (fst (mt_base t)) (mt_writes t)) k)),
      tx_scan = (\<lambda>t p rg. Inr (mem_scan (mem_overlay (fst (mt_base t)) (mt_writes t)) p rg)),
      tx_put = (\<lambda>t k v. Inr (t\<lparr>mt_writes := (k, Some v) # mt_writes t, mt_marked := k # mt_marked t\<rparr>)),
      tx_delete = (\<lambda>t k. Inr (t\<lparr>mt_writes := (k, None) # mt_writes t, mt_marked := k # mt_marked t\<rparr>)),
      tx_unmark_write = (\<lambda>t ks. Inr (t\<lparr>mt_marked := filter (\<lambda>k. k \<notin> set ks) (mt_marked t)\<rparr>)),
      tx_commit = mem_commit\<rparr>"

definition mem_writes :: "mem_txn \<Rightarrow> bytes \<Rightarrow> bytes option option" where
  "mem_writes t = map_of (mt_writes t)"

definition mem_marked :: "mem_txn \<Rightarrow> bytes set" where
  "mem_marked t = set (mt_marked t)"

lemma map_of_filter_ne: "map_of (filter (\<lambda>p. fst p \<noteq> k) l) = (map_of l)(k := None)"
  by (induction l) (auto simp: fun_eq_iff)

lemma map_of_mem_overlay: "map_of (mem_overlay l w) = overlay (map_of l) (map_of w)"
proof (induction w)
  case (Cons kx w)
  obtain k x where "kx = (k, x)" by (cases kx)
  moreover have "mem_overlay l ((k, x) # w) =
      (case x of Some v \<Rightarrow> (k, v) # mem_overlay l w | None \<Rightarrow> filter (\<lambda>p. fst p \<noteq> k) (mem_overlay l w))"
    by (simp add: mem_overlay_def split: option.split)
  ultimately show ?case using Cons by (cases x) (auto simp: map_of_filter_ne overlay_def fun_eq_iff)
qed (simp add: mem_overlay_def)

lemma is_scan_mem: "is_scan (map_of l) p rg (mem_scan l p rg)"
proof -
  let ?K = "set (filter (\<lambda>k. prefix p k \<and> in_range rg (drop (length p) k)) (map fst l))"
  have "map fst (mem_scan l p rg) = sorted_list_of_set ?K" by (simp add: mem_scan_def comp_def)
  then have "sorted_wrt (<) (map fst (mem_scan l p rg))" by simp
  moreover have "set (mem_scan l p rg) = (\<lambda>k. (k, the (map_of l k))) ` ?K" by (simp add: mem_scan_def)
  moreover have "\<dots> = scan_set (map_of l) p rg"
  proof (intro set_eqI iffI)
    fix kv assume "kv \<in> scan_set (map_of l) p rg"
    then obtain k v where kv: "kv = (k, v)" "map_of l k = Some v" "prefix p k" "in_range rg (drop (length p) k)"
      by (auto simp: scan_set_def)
    then have "k \<in> ?K" by (force dest: map_of_SomeD)
    moreover have "kv = (k, the (map_of l k))" using kv by simp
    ultimately show "kv \<in> (\<lambda>k. (k, the (map_of l k))) ` ?K" by blast
  next
    fix kv assume "kv \<in> (\<lambda>k. (k, the (map_of l k))) ` ?K"
    then obtain k where k: "kv = (k, the (map_of l k))" "k \<in> fst ` set l" "prefix p k" "in_range rg (drop (length p) k)"
      by auto
    then obtain v where "map_of l k = Some v" by (metis map_of_eq_None_iff not_None_eq)
    with k show "kv \<in> scan_set (map_of l) p rg" by (simp add: scan_set_def)
  qed
  ultimately show ?thesis by (simp add: is_scan_def)
qed

interpretation mem: slatedb_ssi mem_ops mem_content mem_writes mt_base mem_marked
proof
  fix s s' :: mem_db and t t' :: mem_txn and h e k ks v p rg
  show "tx_commit mem_ops s t = (Inr h, s') \<Longrightarrow>
      mem_content s' = overlay (mem_content s) (mem_writes t) \<and> (mem_writes t \<noteq> Map.empty \<longrightarrow> h \<noteq> None)"
    by (auto simp: mem_ops_def mem_commit_def mem_writes_def mem_content_def map_of_mem_overlay split: if_splits)
  show "tx_commit mem_ops s t = (Inl SlateTransaction, s') \<Longrightarrow> mem_content s' = mem_content s"
    by (auto simp: mem_ops_def mem_commit_def split: if_splits)
  show "mt_base t = s \<Longrightarrow> \<exists>h s'. tx_commit mem_ops s t = (Inr h, s')"
    by (auto simp: mem_ops_def mem_commit_def list_ex_iff)
  show "tx_commit mem_ops s t = (Inr h, s') \<Longrightarrow> k \<in> mem_marked t \<Longrightarrow> mem_content s k = mem_content (mt_base t) k"
    by (auto simp: mem_ops_def mem_commit_def mem_marked_def list_ex_iff split: if_splits)
qed (auto simp: mem_ops_def mem_content_def mem_writes_def mem_marked_def finite_dom_map_of map_of_mem_overlay
       intro: is_scan_mem is_scan_mem [of "mem_overlay _ _", unfolded map_of_mem_overlay])

section \<open>The serialisers\<close>

definition net_field :: "string \<Rightarrow> string" where
  "net_field x = replicate (length x) CHR ''1'' @ CHR ''0'' # x"

definition net_enc :: "string list \<Rightarrow> string" where
  "net_enc xs = concat (map net_field xs)"

fun net_dec :: "nat \<Rightarrow> string \<Rightarrow> string list option" where
  "net_dec fuel [] = Some []"
| "net_dec 0 (c # cs) = None"
| "net_dec (Suc fuel) (c # cs) =
     (let n = length (takeWhile (\<lambda>d. d = CHR ''1'') (c # cs));
          rest = drop (Suc n) (c # cs)
      in map_option (\<lambda>xs. take n rest # xs) (net_dec fuel (drop n rest)))"

lemma takeWhile_net_field: "takeWhile (\<lambda>d. d = CHR ''1'') (net_field x @ ys) = replicate (length x) CHR ''1''"
proof -
  have "takeWhile (\<lambda>d. d = CHR ''1'') (replicate n CHR ''1'' @ CHR ''0'' # zs) = replicate n CHR ''1''" for n zs
    by (induction n) auto
  then show ?thesis by (simp add: net_field_def)
qed

lemma net_dec_field:
  "net_dec (Suc fuel) (net_field x @ ys) = map_option (\<lambda>xs. x # xs) (net_dec fuel ys)"
proof -
  have d: "drop (Suc (length x)) (net_field x @ ys) = x @ ys" by (simp add: net_field_def)
  obtain c cs where c: "net_field x @ ys = c # cs" by (cases "net_field x @ ys") (auto simp: net_field_def)
  have n: "length (takeWhile (\<lambda>d. d = CHR ''1'') (c # cs)) = length x"
    using takeWhile_net_field [of x ys] unfolding c by simp
  show ?thesis
    unfolding c net_dec.simps n Let_def using d [unfolded c] by simp
qed

lemma length_net_enc: "length xs \<le> length (net_enc xs)"
  by (induction xs) (auto simp: net_enc_def net_field_def)

lemma net_dec_enc: "length xs \<le> fuel \<Longrightarrow> net_dec fuel (net_enc xs) = Some xs"
proof (induction xs arbitrary: fuel)
  case (Cons x xs)
  then obtain f where f: "fuel = Suc f" "length xs \<le> f" by (cases fuel) auto
  with Cons.IH [of f] net_dec_field [of f x "net_enc xs"] show ?case by (simp add: net_enc_def)
qed (simp add: net_enc_def)

definition net_parse :: "(string list \<Rightarrow> 'a option) \<Rightarrow> string \<Rightarrow> string + 'a" where
  "net_parse f b = (case net_dec (length b) b of None \<Rightarrow> Inl ''malformed''
     | Some xs \<Rightarrow> (case f xs of None \<Rightarrow> Inl ''malformed'' | Some x \<Rightarrow> Inr x))"

lemma net_parse_enc: "f xs = Some x \<Longrightarrow> net_parse f (net_enc xs) = Inr x"
  by (simp add: net_parse_def net_dec_enc [OF length_net_enc])

definition read_int :: "string \<Rightarrow> int" where
  "read_int s = (case s of c # cs \<Rightarrow> if c = CHR ''-'' then - int (dec_value cs) else int (dec_value s) | [] \<Rightarrow> 0)"

fun pairs_of :: "string list \<Rightarrow> (string \<times> string) list" where
  "pairs_of (a # b # xs) = (a, b) # pairs_of xs"
| "pairs_of xs = []"

definition flat_pairs :: "(string \<times> string) list \<Rightarrow> string list" where
  "flat_pairs ps = concat (map (\<lambda>(a, b). [a, b]) ps)"

lemma pairs_of_flat: "pairs_of (flat_pairs ps) = ps"
  by (induction ps) (auto simp: flat_pairs_def)

lemma dec_value_show_nat [simp]: "dec_value (show_nat n) = n"
proof (induction n rule: show_nat.induct)
  case (1 n)
  then show ?case
    by (subst show_nat.simps) (auto simp: dec_value_def digit_value_def)
qed

lemma show_nat_head: "\<exists>d r. d < 10 \<and> show_nat n = digit d # r"
proof (induction n rule: show_nat.induct)
  case (1 n)
  then show ?case by (cases "n < 10") (fastforce simp: show_nat.simps [of n])+
qed

lemma read_int_show [simp]: "read_int (show_int i) = i"
proof -
  have "show_nat n \<noteq> [] \<and> hd (show_nat n) \<noteq> CHR ''-''" for n
  proof -
    obtain d r where d: "d < 10" "show_nat n = digit d # r" using show_nat_head by blast
    have "digit d \<noteq> CHR ''-''" using of_char_digit [OF d(1)] by (auto dest: arg_cong [of _ _ "of_char :: char \<Rightarrow> nat"])
    with d show ?thesis by simp
  qed
  note h = this
  have "read_int (show_nat n) = int n" for n
    using h [of n] dec_value_show_nat [of n] by (cases "show_nat n") (auto simp: read_int_def)
  then show ?thesis by (simp add: show_int_def) (simp add: read_int_def)
qed

definition read_envelope :: "string list \<Rightarrow> envelope option" where
  "read_envelope xs = (case xs of [i, t, v, q, d, m, ts] \<Rightarrow> map_option (\<lambda>ps.
       \<lparr>env_id = i, env_type = t, env_version = dec_value v, env_seq = dec_value q, env_data = d,
        env_metadata = pairs_of ps, env_ts_ms = read_int ts\<rparr>) (net_dec (length m) m) | _ \<Rightarrow> None)"

definition show_envelope :: "envelope \<Rightarrow> string" where
  "show_envelope e = net_enc [env_id e, env_type e, show_nat (env_version e), show_nat (env_seq e), env_data e,
     net_enc (flat_pairs (env_metadata e)), show_int (env_ts_ms e)]"

definition show_tail :: "tail_record \<Rightarrow> string" where
  "show_tail t = net_enc [show_nat (tail_version t), show_int (tail_ts_ms t)]"

definition read_tail_record :: "string list \<Rightarrow> tail_record option" where
  "read_tail_record xs = (case xs of [v, ts] \<Rightarrow> Some \<lparr>tail_version = dec_value v, tail_ts_ms = read_int ts\<rparr> | _ \<Rightarrow> None)"

definition show_fork :: "fork_ref \<Rightarrow> string" where
  "show_fork f = net_enc [fork_stream f, show_nat (fork_at_version f)]"

definition read_fork :: "string list \<Rightarrow> fork_ref option" where
  "read_fork xs = (case xs of [s, v] \<Rightarrow> Some \<lparr>fork_stream = s, fork_at_version = dec_value v\<rparr> | _ \<Rightarrow> None)"

definition show_snapshot :: "snapshot_record \<Rightarrow> string" where
  "show_snapshot s = net_enc [show_nat (snap_through_version s), show_int (snap_ts_ms s), snap_state s]"

definition read_snapshot :: "string list \<Rightarrow> snapshot_record option" where
  "read_snapshot xs = (case xs of [v, ts, b] \<Rightarrow>
     Some \<lparr>snap_through_version = dec_value v, snap_ts_ms = read_int ts, snap_state = b\<rparr> | _ \<Rightarrow> None)"

definition show_compaction :: "compaction_record \<Rightarrow> string" where
  "show_compaction c = net_enc ([comp_stream c, show_nat (comp_through_version c), show_nat (comp_events_compacted c),
     show_int (comp_ts_ms c)] @ (case comp_job_id c of None \<Rightarrow> [] | Some j \<Rightarrow> [j]))"

definition read_compaction :: "string list \<Rightarrow> compaction_record option" where
  "read_compaction xs = (case xs of s # v # n # ts # js \<Rightarrow>
     Some \<lparr>comp_stream = s, comp_through_version = dec_value v, comp_events_compacted = dec_value n,
       comp_job_id = (case js of [] \<Rightarrow> None | j # _ \<Rightarrow> Some j), comp_ts_ms = read_int ts\<rparr> | _ \<Rightarrow> None)"

fun show_job :: "job_event \<Rightarrow> string" where
  "show_job (Requested j d ts) = net_enc [''r'', j, d, show_int ts]"
| "show_job (Claimed j d ts) = net_enc [''c'', j, d, show_int ts]"
| "show_job (Failed j d ts) = net_enc [''f'', j, d, show_int ts]"

definition read_job :: "string list \<Rightarrow> job_event option" where
  "read_job xs = (case xs of [k, j, d, ts] \<Rightarrow>
       if k = ''r'' then Some (Requested j d (read_int ts))
       else if k = ''c'' then Some (Claimed j d (read_int ts))
       else Some (Failed j d (read_int ts)) | _ \<Rightarrow> None)"

definition mem_codec :: codec where
  "mem_codec =
     \<lparr>bin_envelope = (\<lambda>e. Inr (char_of (length (env_id e) mod 256) # show_envelope e)),
      unbin_envelope = (\<lambda>b. net_parse read_envelope (drop 1 b)),
      unjson_envelope = (\<lambda>b. Inl ''not JSON''),
      json_tail = (\<lambda>t. Inr (show_tail t)), unjson_tail = net_parse read_tail_record,
      json_fork = (\<lambda>f. Inr (show_fork f)), unjson_fork = net_parse read_fork,
      json_snapshot = (\<lambda>s. Inr (show_snapshot s)), unjson_snapshot = net_parse read_snapshot,
      json_compaction = (\<lambda>c. Inr (show_compaction c)), unjson_compaction = net_parse read_compaction,
      json_job = (\<lambda>j. Inr (show_job j)), unjson_job = net_parse read_job\<rparr>"

lemma read_envelope_show: "net_parse read_envelope (show_envelope e) = Inr e"
  unfolding show_envelope_def
  by (rule net_parse_enc) (simp add: read_envelope_def net_dec_enc [OF length_net_enc] pairs_of_flat)

lemma read_job_show: "net_parse read_job (show_job j) = Inr j"
  by (cases j) (simp_all add: net_parse_enc read_job_def)

lemma read_compaction_show: "net_parse read_compaction (show_compaction c) = Inr c"
  unfolding show_compaction_def
  by (rule net_parse_enc) (simp add: read_compaction_def split: option.split)

interpretation mem_serde: serde_codec mem_codec
  by unfold_locales
     (auto simp: mem_codec_def read_envelope_show read_job_show read_compaction_show show_tail_def show_fork_def
       show_snapshot_def net_parse_enc read_tail_record_def read_fork_def read_snapshot_def)

interpretation mem_store: event_store_ssi mem_ops mem_content mem_writes mt_base mem_marked mem_codec ..

text \<open>The empty store, a quiet environment, and one in which another client writes between begin and commit.\<close>

definition mem_empty :: mem_db where
  "mem_empty = ([], 0)"

definition mem_env :: "nat \<Rightarrow> mem_db env" where
  "mem_env k = \<lparr>clock = (\<lambda>i. 5), ulids = (\<lambda>i. replicate 26 CHR ''A''), others = (\<lambda>s. s),
     watch = [\<lparr>durable_seq = 100, close_reason = None\<rparr>]\<rparr>"

lemma mem_env_ok [simp]: "ulids_ok (mem_env k)" "others (mem_env k) s = s"
  by (simp_all add: ulids_ok_def mem_env_def)

lemma mem_content_empty [simp]: "mem_content mem_empty = Map.empty"
  by (simp add: mem_content_def mem_empty_def)

lemma wf_db_empty [simp]: "wf_db C Map.empty"
  by (simp add: wf_db_def)

lemma empty_map_simps [simp]:
  "tail_of C Map.empty s = None" "current_version C Map.empty s = None" "next_version C Map.empty s = 0"
  "last_ts C Map.empty s = 0" "global_seq Map.empty = 0" "fence_of Map.empty s = None" "stored C Map.empty s v = None"
  by (simp_all add: tail_of_def current_version_def next_version_def last_ts_def global_seq_def seq_of_def fence_of_def stored_def)

definition one_event :: new_event where
  "one_event = new_event_new ''t'' ''d''"

lemma one_event_simps [simp]: "ne_type one_event = ''t''" "ne_data one_event = ''d''" "ne_metadata one_event = []"
  by (simp_all add: one_event_def new_event_new_def)

lemma example_names [simp]: "name_ok ''a''" "name_ok ''b''"
  by (simp_all add: name_ok_def)

lemma example_batch [simp]: "check_batch [one_event] = Inr ()" "append_room C Map.empty s None [one_event]"
  by (simp_all add: check_batch_def MAX_BATCH_RECORDS_def MAX_RECORD_BYTES_def append_room_def append_start_def)

end
