(* ===== verification/Wire_Bytes.thy ===== *)
theory Wire_Bytes
  imports Mem_Db
begin

text \<open>
  How byte strings are written: the serialisation adapters \<open>b64_bytes\<close> and \<open>b64_headers\<close> of
  \<open>src/envelope.rs\<close>, \<open>b64\<close> of \<open>landslide-sqlite/src/lib.rs\<close>, \<open>b64\<close> and \<open>b64_opt\<close> of
  \<open>landslide-fuse/src/lib.rs\<close>. A format of \<open>serde\<close> is a record of what the adapters call of it, and the
  base64 engine another; the locale says that both invert. Human-readable formats get base64 text and
  binary ones raw bytes, and either is read back as it was written.
\<close>

section \<open>Formats\<close>

record base64 =
  b64_encode :: "bytes \<Rightarrow> string"
  b64_decode :: "string \<Rightarrow> string + bytes"

record 'w serde_format =
  is_human_readable :: bool
  serialize_str :: "string \<Rightarrow> string + 'w"
  serialize_bytes :: "bytes \<Rightarrow> string + 'w"
  serialize_opt :: "string option \<Rightarrow> string + 'w"
  serialize_pairs :: "(string \<times> string) list \<Rightarrow> string + 'w"
  serialize_byte_pairs :: "(string \<times> bytes) list \<Rightarrow> string + 'w"
  deserialize_string :: "'w \<Rightarrow> string + string"
  deserialize_byte_vec :: "'w \<Rightarrow> string + bytes"
  deserialize_opt :: "'w \<Rightarrow> string + string option"
  deserialize_pairs :: "'w \<Rightarrow> string + (string \<times> string) list"
  deserialize_byte_pairs :: "'w \<Rightarrow> string + (string \<times> bytes) list"

section \<open>Envelopes\<close>

definition b64_bytes_serialize :: "base64 \<Rightarrow> 'w serde_format \<Rightarrow> bytes \<Rightarrow> string + 'w" where
  "b64_bytes_serialize X F b = (if is_human_readable F then serialize_str F (b64_encode X b) else serialize_bytes F b)"

definition b64_bytes_deserialize :: "base64 \<Rightarrow> 'w serde_format \<Rightarrow> 'w \<Rightarrow> string + bytes" where
  "b64_bytes_deserialize X F w =
     (if is_human_readable F then bind_res (deserialize_string F w) (b64_decode X) else deserialize_byte_vec F w)"

definition b64_headers_serialize :: "base64 \<Rightarrow> 'w serde_format \<Rightarrow> (string \<times> bytes) list \<Rightarrow> string + 'w" where
  "b64_headers_serialize X F h =
     (if is_human_readable F then serialize_pairs F (map (\<lambda>(name, val). (name, b64_encode X val)) h)
      else serialize_byte_pairs F h)"

definition b64_headers_deserialize :: "base64 \<Rightarrow> 'w serde_format \<Rightarrow> 'w \<Rightarrow> string + (string \<times> bytes) list" where
  "b64_headers_deserialize X F w =
     (if is_human_readable F
      then bind_res (deserialize_pairs F w) (map_res (\<lambda>(name, val). bind_res (b64_decode X val) (\<lambda>v. Inr (name, v))))
      else deserialize_byte_pairs F w)"

section \<open>Pages\<close>

definition page_serialize :: "base64 \<Rightarrow> 'w serde_format \<Rightarrow> bytes \<Rightarrow> string + 'w" where
  "page_serialize X F b = (if is_human_readable F then serialize_str F (b64_encode X b) else serialize_bytes F b)"

definition page_deserialize :: "base64 \<Rightarrow> 'w serde_format \<Rightarrow> 'w \<Rightarrow> string + bytes" where
  "page_deserialize X F w =
     (if is_human_readable F then bind_res (deserialize_string F w) (b64_decode X) else deserialize_byte_vec F w)"

section \<open>File content\<close>

text \<open>Base64 in every format.\<close>

definition b64_serialize :: "base64 \<Rightarrow> 'w serde_format \<Rightarrow> bytes \<Rightarrow> string + 'w" where
  "b64_serialize X F b = serialize_str F (b64_encode X b)"

definition b64_deserialize :: "base64 \<Rightarrow> 'w serde_format \<Rightarrow> 'w \<Rightarrow> string + bytes" where
  "b64_deserialize X F w = bind_res (deserialize_string F w) (b64_decode X)"

definition b64_opt_serialize :: "base64 \<Rightarrow> 'w serde_format \<Rightarrow> bytes option \<Rightarrow> string + 'w" where
  "b64_opt_serialize X F b = serialize_opt F (map_option (b64_encode X) b)"

definition b64_opt_deserialize :: "base64 \<Rightarrow> 'w serde_format \<Rightarrow> 'w \<Rightarrow> string + bytes option" where
  "b64_opt_deserialize X F w =
     bind_res (deserialize_opt F w) (\<lambda>s. case s of None \<Rightarrow> Inr None | Some t \<Rightarrow> bind_res (b64_decode X t) (\<lambda>b. Inr (Some b)))"

lemmas wire_defs = b64_bytes_serialize_def b64_bytes_deserialize_def b64_headers_serialize_def b64_headers_deserialize_def
  page_serialize_def page_deserialize_def b64_serialize_def b64_deserialize_def b64_opt_serialize_def b64_opt_deserialize_def

section \<open>Round trips\<close>

text \<open>What the adapters rely on: decoding inverts encoding, a format reads what it wrote, and a binary format reads
  the bytes it wrote as a sequence of bytes.\<close>

locale wire =
  fixes X :: base64 and F :: "'w serde_format"
  assumes decode_encode: "b64_decode X (b64_encode X b) = Inr b"
    and read_str: "serialize_str F t = Inr w \<Longrightarrow> deserialize_string F w = Inr t"
    and read_opt: "serialize_opt F s = Inr w \<Longrightarrow> deserialize_opt F w = Inr s"
    and read_pairs: "serialize_pairs F ps = Inr w \<Longrightarrow> deserialize_pairs F w = Inr ps"
    and read_bytes: "\<not> is_human_readable F \<Longrightarrow> serialize_bytes F b = Inr w \<Longrightarrow> deserialize_byte_vec F w = Inr b"
    and read_byte_pairs: "\<not> is_human_readable F \<Longrightarrow> serialize_byte_pairs F h = Inr w \<Longrightarrow> deserialize_byte_pairs F w = Inr h"
begin

lemma headers_decode:
  "map_res (\<lambda>(name, val). bind_res (b64_decode X val) (\<lambda>v. Inr (name, v))) (map (\<lambda>(name, val). (name, b64_encode X val)) h) = Inr h"
  by (induction h) (auto simp: decode_encode)

lemma bytes_roundtrip: "b64_bytes_serialize X F b = Inr w \<Longrightarrow> b64_bytes_deserialize X F w = Inr b"
  by (auto simp: wire_defs decode_encode read_str read_bytes split: if_splits)

lemma headers_roundtrip: "b64_headers_serialize X F h = Inr w \<Longrightarrow> b64_headers_deserialize X F w = Inr h"
  by (auto simp: wire_defs headers_decode read_pairs read_byte_pairs split: if_splits)

lemma page_roundtrip: "page_serialize X F b = Inr w \<Longrightarrow> page_deserialize X F w = Inr b"
  by (auto simp: wire_defs decode_encode read_str read_bytes split: if_splits)

lemma content_roundtrip: "b64_serialize X F b = Inr w \<Longrightarrow> b64_deserialize X F w = Inr b"
  by (simp add: wire_defs decode_encode read_str)

lemma opt_roundtrip: "b64_opt_serialize X F x = Inr w \<Longrightarrow> b64_opt_deserialize X F w = Inr x"
  by (cases x) (auto simp: wire_defs decode_encode dest!: read_opt)

end

text \<open>A text that is not base64 is an error of the whole record.\<close>

theorem bad_header_refused:
  assumes "is_human_readable F" "deserialize_pairs F w = Inr (ps @ (name, val) # qs)" "b64_decode X val = Inl e"
    "\<forall>(n, v) \<in> set ps. \<exists>b. b64_decode X v = Inr b"
  shows "b64_headers_deserialize X F w = Inl e"
proof -
  have "map_res (\<lambda>(name, val). bind_res (b64_decode X val) (\<lambda>v. Inr (name, v))) (ps @ (name, val) # qs) = Inl e"
    using assms(4) by (induction ps) (auto simp: assms(3))
  with assms(1,2) show ?thesis by (simp add: b64_headers_deserialize_def)
qed

section \<open>Formats of the in-memory engine\<close>

fun hex_bytes :: "bytes \<Rightarrow> string" where
  "hex_bytes [] = []"
| "hex_bytes (c # cs) = hex_digit (of_char c div 16) # hex_digit (of_char c mod 16) # hex_bytes cs"

definition hex_value :: "char \<Rightarrow> nat" where
  "hex_value c = (if of_char c < (58 :: nat) then of_char c - 48 else of_char c - 87)"

fun unhex :: "string \<Rightarrow> string + bytes" where
  "unhex [] = Inr []"
| "unhex [_] = Inl ''odd length''"
| "unhex (a # b # cs) = bind_res (unhex cs) (\<lambda>r. Inr (char_of (16 * hex_value a + hex_value b) # r))"

lemma hex_value_digit: "d < 16 \<Longrightarrow> hex_value (hex_digit d) = d"
  by (auto simp: hex_value_def hex_digit_def)

lemma unhex_hex: "unhex (hex_bytes b) = Inr b"
proof (induction b)
  case (Cons c b)
  have "(of_char c :: nat) div 16 < 16" by (rule less_mult_imp_div_less) simp
  with Cons show ?case by (simp add: hex_value_digit)
qed simp

definition hex64 :: base64 where
  "hex64 = \<lparr>b64_encode = hex_bytes, b64_decode = unhex\<rparr>"

definition mem_format :: "bool \<Rightarrow> bytes serde_format" where
  "mem_format readable =
     \<lparr>is_human_readable = readable,
      serialize_str = (\<lambda>t. Inr (net_enc [t])), serialize_bytes = (\<lambda>b. Inr (net_enc [b])),
      serialize_opt = (\<lambda>s. Inr (net_enc (case s of None \<Rightarrow> [] | Some t \<Rightarrow> [t]))),
      serialize_pairs = (\<lambda>ps. Inr (net_enc (flat_pairs ps))), serialize_byte_pairs = (\<lambda>h. Inr (net_enc (flat_pairs h))),
      deserialize_string = net_parse (\<lambda>xs. case xs of [t] \<Rightarrow> Some t | _ \<Rightarrow> None),
      deserialize_byte_vec = net_parse (\<lambda>xs. case xs of [t] \<Rightarrow> Some t | _ \<Rightarrow> None),
      deserialize_opt = net_parse (\<lambda>xs. case xs of [] \<Rightarrow> Some None | [t] \<Rightarrow> Some (Some t) | _ \<Rightarrow> None),
      deserialize_pairs = net_parse (\<lambda>xs. Some (pairs_of xs)), deserialize_byte_pairs = net_parse (\<lambda>xs. Some (pairs_of xs))\<rparr>"

interpretation mem_wire: wire hex64 "mem_format readable" for readable
  by unfold_locales (auto simp: hex64_def mem_format_def unhex_hex pairs_of_flat net_parse_enc split: option.splits)

text \<open>What an adapter of the core crate writes in JSON and in bincode is read back, in the in-memory formats.\<close>

lemma mem_wire_bytes:
  "b64_bytes_serialize hex64 (mem_format readable) b = Inr w \<Longrightarrow> b64_bytes_deserialize hex64 (mem_format readable) w = Inr b"
  by (rule mem_wire.bytes_roundtrip)

end
