(* ===== verification/Append_Map.thy ===== *)
theory Append_Map
  imports Mem_Db
begin

text \<open>
  The store after an append, as its readers see it: which records, fields and guards change, how a
  stream's history grows, and that the invariant \<open>covered\<close> (no record above the tail) is kept.
\<close>

definition covered :: "codec \<Rightarrow> kv_map \<Rightarrow> string \<Rightarrow> bool" where
  "covered C m s \<longleftrightarrow> (\<forall>v e. stored C m s v = Some e \<longrightarrow> v < next_version C m s)"

definition batch_fields :: "new_event list \<Rightarrow> (string \<times> bytes \<times> (string \<times> bytes) list) list" where
  "batch_fields events = map (\<lambda>e. (ne_type e, ne_data e, ne_metadata e)) events"

text \<open>No reader's guard hides the versions from \<open>v\<close> on and the sequence numbers from \<open>q\<close> on.\<close>

definition open_from :: "kv_map \<Rightarrow> string \<Rightarrow> version \<Rightarrow> bool" where
  "open_from m s v \<longleftrightarrow> floor_of m s \<le> v \<and> \<not> is_deleted m s \<and> windows m s = {}"

lemma fields_same:
  assumes "\<And>s f. name_ok s \<Longrightarrow> f \<noteq> ''tail'' \<Longrightarrow> m' (m_key s f) = m (m_key s f)" "name_ok s"
  shows "floor_of m' s = floor_of m s" "is_deleted m' s = is_deleted m s" "live_pins m' s = live_pins m s"
    "windows m' s = windows m s" "fence_of m' s = fence_of m s" "visible m' s = visible m s"
proof -
  show fl: "floor_of m' s = floor_of m s" "fence_of m' s = fence_of m s" "windows m' s = windows m s"
    using assms by (simp_all add: floor_of_def fence_of_def windows_def)
  have del: "is_deleted m' s' = is_deleted m s'" if "name_ok s'" for s' using assms(1) that by (simp add: is_deleted_def)
  then show "is_deleted m' s = is_deleted m s" using assms(2) by simp
  have "name_ok c \<and> m' (m_key s (forks_field c)) = Some b \<and> \<not> is_deleted m' c \<longleftrightarrow>
      name_ok c \<and> m (m_key s (forks_field c)) = Some b \<and> \<not> is_deleted m c" for c b
    using assms del by auto
  then show "live_pins m' s = live_pins m s" by (simp only: live_pins_def)
  then have "ceil_of m' s = ceil_of m s" by (simp add: ceil_of_def)
  with fl del assms(2) show "visible m' s = visible m s" by (simp add: visible_def fun_eq_iff)
qed

lemma batch_nth:
  assumes "i < length events"
  shows "env_type (batch_of C E m s from_version events ! i) = ne_type (events ! i)"
    "env_data (batch_of C E m s from_version events ! i) = ne_data (events ! i)"
    "env_metadata (batch_of C E m s from_version events ! i) = ne_metadata (events ! i)"
    "env_version (batch_of C E m s from_version events ! i) = append_start C m s from_version + i"
    "env_seq (batch_of C E m s from_version events ! i) = global_seq m + 1 + i"
    "env_id (batch_of C E m s from_version events ! i) = ulids E i"
  using assms by (simp_all add: batch_of_def stamped_nth)

lemma length_batch [simp]: "length (batch_of C E m s from_version events) = length events"
  by (simp add: batch_of_def)

lemma batch_empty [simp]: "batch_of C E m s from_version events = [] \<longleftrightarrow> events = []"
  by (simp add: batch_of_def)

lemma append_map_field:
  assumes "name_ok s" "name_ok s'" "s' \<noteq> s \<or> f \<noteq> ''tail''"
  shows "append_map C E m s from_version idx events (m_key s' f) = m (m_key s' f)"
  using assms by (simp add: append_map_def appended_field)

lemma append_map_seq:
  "append_room C m s from_version events \<Longrightarrow>
     global_seq (append_map C E m s from_version idx events) = global_seq m + length events"
  by (simp add: append_map_def appended_seq append_room_def)

lemma append_map_tail_other:
  assumes "name_ok s" "name_ok s'" "s' \<noteq> s"
  shows "tail_of C (append_map C E m s from_version idx events) s' = tail_of C m s'"
  using assms by (simp add: tail_of_def append_map_field)

context serde_codec begin

lemma wf_append_map:
  assumes "wf_db C m" "name_ok s" "ulids_ok E" "append_room C m s from_version events" "events \<noteq> []"
  shows "wf_db C (append_map C E m s from_version idx events)"
  unfolding append_map_def
proof (rule wf_db_appended [OF assms(1,2)])
  show "consecutive (append_start C m s from_version) (batch_of C E m s from_version events)"
    using assms(4) by (rule batch_consecutive)
  show "\<And>e. e \<in> set (batch_of C E m s from_version events) \<Longrightarrow> length (env_id e) = 26"
    using batch_ids [OF assms(3)] by blast
  show "\<And>c. current_version C m s = Some c \<Longrightarrow> c < VMAX" using current_version_bound [OF assms(1,2)] by blast
qed (simp add: assms)

lemma append_map_stored:
  assumes "wf_db C m" "name_ok s" "name_ok s'" "ulids_ok E" "append_room C m s from_version events" "events \<noteq> []"
  shows "stored C (append_map C E m s from_version idx events) s' v =
     (if s' = s \<and> append_start C m s from_version \<le> v \<and> v < append_start C m s from_version + length events
      then Some (batch_of C E m s from_version events ! (v - append_start C m s from_version))
      else stored C m s' v)"
proof (cases "s' = s \<and> append_start C m s from_version \<le> v \<and> v < append_start C m s from_version + length events")
  case True
  with assms show ?thesis
    by (simp add: append_map_def appended_record [OF assms(2) batch_consecutive [OF assms(5)]] batch_ids)
next
  case False
  have wf: "wf_db C (append_map C E m s from_version idx events)" using assms(1,2,4-6) by (rule wf_append_map)
  show ?thesis
  proof (cases "v < VMAX")
    case True
    with False assms(2,3) have "append_map C E m s from_version idx events (r_key s' v) = m (r_key s' v)"
      unfolding append_map_def by (intro appended_record_other [OF _ _ batch_consecutive [OF assms(5)]]) auto
    then show ?thesis unfolding if_not_P [OF False] by (simp add: stored_def)
  next
    case big: False
    then have "stored C (append_map C E m s from_version idx events) s' v = None" "stored C m s' v = None"
      using stored_version [OF wf assms(3)] stored_version [OF assms(1,3)] by (metis not_Some_eq)+
    then show ?thesis unfolding if_not_P [OF False] by simp
  qed
qed

lemma append_map_tail:
  assumes "name_ok s" "events \<noteq> []"
  shows "tail_of C (append_map C E m s from_version idx events) s =
     Some \<lparr>tail_version = (case current_version C m s of
             None \<Rightarrow> append_start C m s from_version + length events - 1
           | Some c \<Rightarrow> max c (append_start C m s from_version + length events - 1)),
           tail_ts_ms = end_ts (last_ts C m s) (batch_of C E m s from_version events)\<rparr>"
  using assms unfolding append_map_def appended_tail [OF assms(1)]
  by (simp add: new_tail_def batch_of_def last_stamped_version split: option.split)

lemma append_map_version:
  assumes "name_ok s" "events \<noteq> []"
  shows "current_version C (append_map C E m s None idx events) s = Some (next_version C m s + length events - 1)"
proof -
  have "1 \<le> length events" using assms(2) by (cases events) auto
  then show ?thesis
    by (auto simp: next_version_def current_version_def append_map_tail [OF assms] append_start_def split: option.split)
qed

lemma append_map_next:
  assumes "name_ok s" "events \<noteq> []"
  shows "next_version C (append_map C E m s None idx events) s = next_version C m s + length events"
proof -
  have "1 \<le> length events" using assms(2) by (cases events) auto
  then show ?thesis
    unfolding next_version_def [of C "append_map C E m s None idx events"] append_map_version [OF assms] by simp
qed

lemma append_map_guards:
  assumes "name_ok s" "name_ok s'"
  shows "floor_of (append_map C E m s from_version idx events) s' = floor_of m s'"
    "is_deleted (append_map C E m s from_version idx events) s' = is_deleted m s'"
    "windows (append_map C E m s from_version idx events) s' = windows m s'"
    "fence_of (append_map C E m s from_version idx events) s' = fence_of m s'"
    "visible (append_map C E m s from_version idx events) s' = visible m s'"
  by (rule fields_same; simp add: append_map_field assms)+

lemma covered_append:
  assumes "wf_db C m" "name_ok s" "name_ok s'" "ulids_ok E" "append_room C m s None events" "events \<noteq> []" "covered C m s'"
  shows "covered C (append_map C E m s None idx events) s'"
proof (cases "s' = s")
  case True
  with assms show ?thesis
    by (auto simp: covered_def append_map_stored append_map_next append_start_def split: if_splits dest: trans_less_add1)
next
  case False
  then have "next_version C (append_map C E m s None idx events) s' = next_version C m s'"
    using assms by (simp add: next_version_def current_version_def append_map_tail_other)
  with False assms show ?thesis by (simp add: covered_def append_map_stored)
qed

text \<open>The history of the stream after an append: the old one and then the batch.\<close>

lemma history_append:
  assumes wf: "wf_db C m" and s: "name_ok s" and ids: "ulids_ok E" and room: "append_room C m s None events"
    and ne: "events \<noteq> []" and cov: "covered C m s" and op: "open_from m s (next_version C m s)" and lo: "lo \<le> next_version C m s"
  shows "history C (append_map C E m s None idx events) s lo None = history C m s lo None @ batch_of C E m s None events"
proof (rule sym, unfold history_def, rule pick_unique)
  let ?m = "append_map C E m s None idx events" and ?b = "batch_of C E m s None events"
  let ?old = "pick C m s (\<lambda>e. visible m s e \<and> in_window lo None (env_version e))"
  show wf': "wf_db C ?m" using wf s ids room ne by (rule wf_append_map)
  have old: "env_version e < next_version C m s" if "e \<in> set ?old" for e
    using that cov stored_version [OF wf s] by (auto simp: set_pick [OF wf s] covered_def)
  have versions: "map env_version ?b = [next_version C m s ..< next_version C m s + length events]"
    by (simp add: batch_of_def stamped_versions append_start_def)
  show "sorted_wrt (<) (map env_version (?old @ ?b))"
    using sorted_pick [OF wf s] old unfolding map_append versions sorted_wrt_append by (fastforce dest: old)
  have vis: "visible ?m s e \<and> in_window lo None (env_version e)" if "e \<in> set ?b" for e
  proof -
    from that have "env_version e \<in> set (map env_version ?b)" by simp
    then have "next_version C m s \<le> env_version e" unfolding versions by simp
    with op lo show ?thesis
      by (auto simp: append_map_guards s visible_def open_from_def in_window_def)
  qed
  show "set (?old @ ?b) = {e. \<exists>v. stored C ?m s v = Some e \<and> visible ?m s e \<and> in_window lo None (env_version e)}"
  proof (intro set_eqI iffI)
    fix e assume "e \<in> set (?old @ ?b)"
    then consider "e \<in> set ?old" | "e \<in> set ?b" by auto
    then show "e \<in> {e. \<exists>v. stored C ?m s v = Some e \<and> visible ?m s e \<and> in_window lo None (env_version e)}"
    proof cases
      case 1
      then obtain v where v: "stored C m s v = Some e" "visible m s e" "in_window lo None (env_version e)"
        by (auto simp: set_pick [OF wf s])
      with cov have "v < next_version C m s" by (auto simp: covered_def)
      with v show ?thesis by (auto simp: append_map_stored assms append_start_def append_map_guards intro!: exI [of _ v])
    next
      case 2
      then obtain i where "i < length events" "e = ?b ! i" by (auto simp: in_set_conv_nth)
      then have "stored C ?m s (next_version C m s + i) = Some e"
        by (simp add: append_map_stored assms append_start_def)
      with vis [OF 2] show ?thesis by blast
    qed
  next
    fix e assume "e \<in> {e. \<exists>v. stored C ?m s v = Some e \<and> visible ?m s e \<and> in_window lo None (env_version e)}"
    then obtain v where v: "stored C ?m s v = Some e" "visible m s e" "in_window lo None (env_version e)"
      by (auto simp: append_map_guards s)
    show "e \<in> set (?old @ ?b)"
    proof (cases "next_version C m s \<le> v \<and> v < next_version C m s + length events")
      case True
      with v(1) show ?thesis by (auto simp: append_map_stored assms append_start_def)
    next
      case False
      with v show ?thesis by (auto simp: append_map_stored assms append_start_def set_pick [OF wf s])
    qed
  qed
qed (rule s)

lemma history_append_other:
  assumes "wf_db C m" "name_ok s" "name_ok s'" "s' \<noteq> s" "ulids_ok E" "append_room C m s from_version events" "events \<noteq> []"
  shows "history C (append_map C E m s from_version idx events) s' lo hi = history C m s' lo hi"
  unfolding history_def
  by (rule pick_cong) (use assms in \<open>simp_all add: append_map_stored append_map_guards\<close>)

end

end
