(* ===== verification/Write_Path.thy ===== *)
theory Write_Path
  imports Append_Map
begin

text \<open>
  The correctness of the write path: what the public appends return and store, the errors they
  give, what survives a failure, how concurrent appends are ordered, fencing, and transactions
  over several streams as a sequence of single appends done at once.
\<close>

section \<open>Transactions as sequences of appends\<close>

definition fence_map :: "kv_map \<Rightarrow> string \<Rightarrow> string option \<Rightarrow> kv_map" where
  "fence_map m s token = m(m_key s ''fence'' := (case token of None \<Rightarrow> None | Some tok \<Rightarrow> if tok = [] then None else Some tok))"

text \<open>The specification of a transaction: its operations one after the other on the map.\<close>

fun ops_map :: "codec \<Rightarrow> (nat \<Rightarrow> 's env) \<Rightarrow> nat \<Rightarrow> kv_map \<Rightarrow> tx_op list \<Rightarrow> (commit_info list \<times> kv_map) res" where
  "ops_map C Es i m [] = Inr ([], m)"
| "ops_map C Es i m (OpAppend s expected events # ops) =
     (case refusal C m s expected None events of
        Some e \<Rightarrow> Inl e
      | None \<Rightarrow> bind_res (ops_map C Es (Suc i) (append_map C (Es i) m s None True events) ops) (\<lambda>(infos, m').
          Inr (\<lparr>first_version = next_version C m s, last_version = next_version C m s + length events - 1,
                start_sequence = global_seq m + 1\<rparr> # infos, m')))"
| "ops_map C Es i m (OpFence s token # ops) = ops_map C Es (Suc i) (fence_map m s token) ops"

text \<open>Names and counters within the bounds of the key format, at each operation.\<close>

fun ops_room :: "codec \<Rightarrow> (nat \<Rightarrow> 's env) \<Rightarrow> nat \<Rightarrow> kv_map \<Rightarrow> tx_op list \<Rightarrow> bool" where
  "ops_room C Es i m [] \<longleftrightarrow> True"
| "ops_room C Es i m (OpAppend s expected events # ops) \<longleftrightarrow>
     name_ok s \<and> ulids_ok (Es i) \<and> append_room C m s None events \<and>
     (refusal C m s expected None events = None \<longrightarrow> ops_room C Es (Suc i) (append_map C (Es i) m s None True events) ops)"
| "ops_room C Es i m (OpFence s token # ops) \<longleftrightarrow> name_ok s \<and> ops_room C Es (Suc i) (fence_map m s token) ops"

definition with_seq :: "kv_map \<Rightarrow> u64 \<Rightarrow> kv_map" where
  "with_seq m sq = m(SEQ_KEY \<mapsto> to_be_bytes sq)"

lemma with_seq_simps [simp]:
  "with_seq m sq (m_key s f) = m (m_key s f)" "with_seq m sq (r_key s v) = m (r_key s v)"
  "tail_of C (with_seq m sq) s = tail_of C m s" "current_version C (with_seq m sq) s = current_version C m s"
  "next_version C (with_seq m sq) s = next_version C m s" "last_ts C (with_seq m sq) s = last_ts C m s"
  "fence_of (with_seq m sq) s = fence_of m s"
  by (simp_all add: with_seq_def tail_of_def current_version_def next_version_def last_ts_def fence_of_def)

lemma refusal_with_seq [simp]:
  "append_start C (with_seq m sq) s fv = append_start C m s fv"
  "refusal C (with_seq m sq) s expected token events = refusal C m s expected token events"
  by (simp add: append_start_def split: option.split) (simp only: refusal_def with_seq_simps)

lemma global_seq_with_seq [simp]: "sq < 2 ^ 64 \<Longrightarrow> global_seq (with_seq m sq) = sq"
  by (simp add: with_seq_def global_seq_def seq_of_def)

lemma wf_with_seq: "wf_db C m \<Longrightarrow> wf_db C (with_seq m sq)"
  unfolding with_seq_def by (rule wf_db_upd) (auto intro: wf_entry_other simp: SEQ_KEY_def)

lemma wf_with_seqD: "wf_db C (with_seq m sq) \<Longrightarrow> wf_db C m"
proof -
  assume wf: "wf_db C (with_seq m sq)"
  have "wf_entry C k b" if "m k = Some b" for k b
  proof (cases "k = SEQ_KEY")
    case True
    then show ?thesis by (auto intro: wf_entry_other simp: SEQ_KEY_def)
  next
    case False
    with that wf show ?thesis by (auto simp: with_seq_def wf_db_def)
  qed
  with wf show ?thesis by (auto simp: wf_db_def with_seq_def)
qed

lemma batch_writes_add: "batch_writes C s idx es w = w ++ batch_writes C s idx es Map.empty"
proof (induction es arbitrary: w)
  case (Cons e es)
  let ?u = "\<lambda>w. if idx then w(r_key s (env_version e) \<mapsto> Some (enc C e), ts_key s (env_ts_ms e) (env_version e) \<mapsto> Some [])
                  else w(r_key s (env_version e) \<mapsto> Some (enc C e))"
  have "batch_writes C s idx (e # es) w = ?u w ++ batch_writes C s idx es Map.empty"
    using Cons.IH [of "?u w"] by (simp add: Let_def)
  moreover have "batch_writes C s idx (e # es) Map.empty = ?u Map.empty ++ batch_writes C s idx es Map.empty"
    using Cons.IH [of "?u Map.empty"] by (simp add: Let_def)
  moreover have "?u w = w ++ ?u Map.empty" by (auto simp: map_add_def fun_eq_iff)
  ultimately show ?case by simp
qed simp

lemma overlay_append_writes:
  "overlay m (append_writes C s idx cur ts es w) = overlay (overlay m w) (append_writes C s idx cur ts es Map.empty)"
  unfolding append_writes_def batch_writes_add [of C s idx es w]
  by (auto simp: overlay_def map_add_def fun_eq_iff split: option.splits)

lemma overlay_with_seq: "overlay (with_seq m sq) (w(SEQ_KEY \<mapsto> Some (to_be_bytes sq'))) = with_seq (overlay m w) sq'"
  by (auto simp: overlay_def with_seq_def fun_eq_iff split: option.split)

lemma wf_fence_map: "wf_db C m \<Longrightarrow> name_ok s \<Longrightarrow> wf_db C (fence_map m s token)"
  unfolding fence_map_def
  by (cases token) (auto intro!: wf_db_upd wf_db_del wf_entry_field simp: wf_field_def)

lemma fence_map_with_seq: "fence_map (with_seq m sq) s token = with_seq (fence_map m s token) sq"
  by (auto simp: fence_map_def with_seq_def fun_eq_iff)

context event_store begin

lemma replay_fence_eq:
  obtains t' where "replay_fence B t s token = Inr t'" "base t' = base t" "view t' = fence_map (view t) s token"
proof -
  obtain t1 where t1: "tx_delete B t (m_key s ''fence'') = Inr t1" "base t1 = base t"
    "view t1 = (view t)(m_key s ''fence'' := None)" using tx_deleteE by metis
  obtain t2 where t2: "tx_put B t (m_key s ''fence'') (the token) = Inr t2" "base t2 = base t"
    "view t2 = (view t)(m_key s ''fence'' \<mapsto> the token)" using tx_putE by metis
  show ?thesis
  proof (cases "token = None \<or> token = Some []")
    case True
    with that [of t1] t1 show ?thesis by (auto simp: replay_fence_def fence_map_def)
  next
    case False
    with that [of t2] t2 show ?thesis by (cases token) (auto simp: replay_fence_def fence_map_def)
  qed
qed

lemma replay_ops_eq:
  assumes "ops_room C Es i m ops" "wf_db C m" "m = with_seq (view t) sq" "sq < 2 ^ 64"
  shows "case ops_map C Es i m ops of
      Inl e \<Rightarrow> replay_ops B C Es i t sq ops = Inl e
    | Inr (infos, m') \<Rightarrow> \<exists>sq' t'. replay_ops B C Es i t sq ops = Inr (infos, sq', t') \<and> base t' = base t \<and>
        m' = with_seq (view t') sq' \<and> sq' < 2 ^ 64"
  using assms
proof (induction ops arbitrary: i m t sq)
  case (Cons op ops)
  show ?case
  proof (cases op)
    case (OpFence s token)
    obtain t1 where t1: "replay_fence B t s token = Inr t1" "base t1 = base t" "view t1 = fence_map (view t) s token"
      by (rule replay_fence_eq)
    have "case ops_map C Es (Suc i) (fence_map m s token) ops of
        Inl e \<Rightarrow> replay_ops B C Es (Suc i) t1 sq ops = Inl e
      | Inr (infos, m') \<Rightarrow> \<exists>sq' t'. replay_ops B C Es (Suc i) t1 sq ops = Inr (infos, sq', t') \<and> base t' = base t1 \<and>
          m' = with_seq (view t') sq' \<and> sq' < 2 ^ 64"
      using Cons.prems OpFence t1(3) wf_fence_map [of C m s token] by (intro Cons.IH) (simp_all add: fence_map_with_seq)
    with OpFence t1 show ?thesis by (auto split: sum.splits)
  next
    case (OpAppend s expected events)
    have s: "name_ok s" "ulids_ok (Es i)" and room: "append_start C (view t) s None + length events \<le> VMAX" "sq + length events < 2 ^ 64"
      and wf: "wf_db C (view t)"
      using Cons.prems OpAppend wf_with_seqD by (auto simp: append_room_def)
    note r = replay_append_at [OF wf s(1,2) room, of expected None True]
    show ?thesis
    proof (cases "refusal C (view t) s expected None events")
      case (Some e)
      with r Cons.prems(3) OpAppend show ?thesis by simp
    next
      case None
      let ?info = "\<lparr>first_version = append_start C (view t) s None,
         last_version = append_start C (view t) s None + length events - 1, start_sequence = sq + 1\<rparr>"
      let ?m = "append_map C (Es i) m s None True events"
      from None r obtain t1 where t1: "replay_append B C (Es i) t sq s expected None None events True = Inr (?info, sq + length events, t1)"
        "base t1 = base t" "writes t1 = append_writes C s True (current_version C (view t) s) (last_ts C (view t) s)
          (stamped (Es i) 0 (append_start C (view t) s None) (sq + 1) (last_ts C (view t) s) events) (writes t)" by auto
      have ne: "events \<noteq> []" using None by (auto simp: refusal_def split: if_splits)
      have m1: "?m = with_seq (view t1) (sq + length events)"
        using Cons.prems(3,4)
        by (simp add: append_map_def appended_def batch_of_def view_def t1(2,3) overlay_append_writes [of "content (base t)"]
            overlay_with_seq del: overlay_put)
      have wf1: "wf_db C ?m"
        by (rule wf_append_map) (use Cons.prems OpAppend ne in simp_all)
      have "case ops_map C Es (Suc i) ?m ops of
          Inl e \<Rightarrow> replay_ops B C Es (Suc i) t1 (sq + length events) ops = Inl e
        | Inr (infos, m') \<Rightarrow> \<exists>sq' t'. replay_ops B C Es (Suc i) t1 (sq + length events) ops = Inr (infos, sq', t') \<and>
            base t' = base t1 \<and> m' = with_seq (view t') sq' \<and> sq' < 2 ^ 64"
        using Cons.prems OpAppend None m1 room(2) wf1 by (intro Cons.IH) simp_all
      with OpAppend t1 None Cons.prems(3,4) show ?thesis
        by (auto simp: append_start_def split: sum.splits)
    qed
  qed
qed simp

lemma commit_eq:
  assumes "check_ops txn = Inr ()" "wf_db C (content s)" "others (Es 0) s = s" "global_seq (content s) < 2 ^ 64"
    "ops_room C Es 0 (with_seq (content s) (global_seq (content s))) txn"
  shows "case ops_map C Es 0 (with_seq (content s) (global_seq (content s))) txn of
      Inl e \<Rightarrow> commit B C Es s txn = (Inl e, s)
    | Inr (infos, m') \<Rightarrow> \<exists>s'. commit B C Es s txn = (Inr infos, s') \<and> content s' = m'"
proof -
  obtain t where t: "db_begin B s = Inr t" "base t = s" "view t = content s" using tx_beginE by metis
  have sq: "get_be (tx_reader B t) SEQ_KEY = Inr (map_option be_u64 (content s SEQ_KEY))"
    using get_be_eq [OF serves_tx, of t SEQ_KEY] t(3) by simp
  note r = replay_ops_eq [OF assms(5) wf_with_seq [OF assms(2)], of t "global_seq (content s)"]
  show ?thesis
  proof (cases "ops_map C Es 0 (with_seq (content s) (global_seq (content s))) txn")
    case (Inl e)
    with r t sq assms(1,4) show ?thesis by (simp add: commit_def flip: global_seq_def)
  next
    case (Inr p)
    obtain infos m' where p: "p = (infos, m')" by (cases p)
    from Inr r t assms(4) obtain sq' t' where t': "replay_ops B C Es 0 t (global_seq (content s)) txn = Inr (infos, sq', t')"
      "base t' = s" "m' = with_seq (view t') sq'" by (auto simp: p)
    obtain h s' where c: "commit_seq B s t' sq' = (Inr (Some h), s')"
      "content s' = overlay (content s) ((writes t')(SEQ_KEY \<mapsto> Some (to_be_bytes sq')))"
      using commit_seq_quiet [OF t'(2)] by metis
    then have "content s' = m'" using t'(2,3) by (simp add: with_seq_def view_def)
    with c(1) Inr p t t'(1) sq assms(1,3) show ?thesis by (simp add: commit_def flip: global_seq_def)
  qed
qed

text \<open>The call around the loop keeps what a failed loop keeps.\<close>

lemma commit_appends_error:
  assumes "commit_appends B C Es s stream expected from_version token events idx = (Inl e, s')"
    "Q (content s)" "\<And>k s. Q (content s) \<Longrightarrow> Q (content (others (Es k) s))" "\<And>x. e \<noteq> Backend x"
  shows "Q (content s')"
  using assms(1) commit_loop_error [OF _ assms(2-4)] assms(2)
  by (auto simp: commit_appends_def split: sum.splits)

text \<open>A transaction that is refused or meets a conflict leaves only what other clients wrote.\<close>

lemma commit_error:
  assumes "commit B C Es s txn = (Inl e, s')" "Q (content s)" "Q (content (others (Es 0) s))"
    "\<And>x. e = Backend x \<Longrightarrow> x = SlateTransaction"
  shows "Q (content s')"
proof -
  let ?r = "bind_res (check_ops txn) (\<lambda>_. bind_res (map_err Backend (db_begin B s)) (\<lambda>t.
       bind_res (get_be (tx_reader B t) SEQ_KEY) (\<lambda>v. replay_ops B C Es 0 t (seq_of v) txn)))"
  show ?thesis
  proof (cases ?r)
    case (Inl e')
    with assms(1,2) show ?thesis by (simp add: commit_def)
  next
    case (Inr p)
    obtain infos sq t where p: "p = (infos, sq, t)" by (cases p)
    from assms(1) Inr p obtain x where x: "commit_seq B (others (Es 0) s) t sq = (Inl x, s')" "e = Backend x"
      by (auto simp: commit_def split: prod.splits sum.splits)
    with assms(4) [OF x(2)] commit_seq_conflict assms(3) show ?thesis by metis
  qed
qed

lemma commit_appends_quiet:
  assumes "check_batch events = Inr ()" "wf_db C (content s)" "name_ok stream" "ulids_ok (Es 0)"
    "append_room C (content s) stream from_version events" "others (Es 0) s = s"
  shows "case refusal C (content s) stream expected token events of
      Some e \<Rightarrow> commit_appends B C Es s stream expected from_version token events idx = (Inl e, s)
    | None \<Rightarrow> \<exists>h s'. commit_appends B C Es s stream expected from_version token events idx =
          (Inr \<lparr>tk_info = \<lparr>first_version = append_start C (content s) stream from_version,
                 last_version = append_start C (content s) stream from_version + length events - 1,
                 start_sequence = global_seq (content s) + 1\<rparr>, tk_seq = h\<rparr>, s') \<and>
        content s' = append_map C (Es 0) (content s) stream from_version idx events"
  using commit_loop_quiet [of s stream Es COMMIT_RETRIES from_version events expected token idx] assms
  by (cases "refusal C (content s) stream expected token events") (simp_all add: commit_appends_def)

end

lemma find_SomeD: "find P xs = Some x \<Longrightarrow> P x \<and> x \<in> set xs"
  by (auto simp: find_Some_iff)

lemma check_batch_ok:
  "check_batch events = Inr () \<longleftrightarrow>
     length events \<le> MAX_BATCH_RECORDS \<and> (\<forall>e \<in> set events. length (ne_data e) \<le> MAX_RECORD_BYTES)"
  by (auto simp: check_batch_def find_None_iff not_less not_le split: option.splits dest!: find_SomeD)

section \<open>Properties\<close>

text \<open>C13: an append to a well-formed store that passes the batch limits, the fence and the version check,
  with no other commit in between, returns the versions after the current tail and the next global
  sequence numbers, stores each event of the batch under its version with its type, data and
  metadata, moves the tail to the last of them, and leaves every other record, the guards of every
  stream and the well-formedness of the store as they were.\<close>

theorem append_event_ok:
  assumes store: "event_store B content writes base C" and batch: "check_batch events = Inr ()"
    and wf: "wf_db C (content s)" and name: "name_ok stream" and ids: "ulids_ok (Es 0)"
    and room: "append_room C (content s) stream None events" and quiet: "others (Es 0) s = s"
    and ok: "version_matches expected (current_version C (content s) stream)" "events \<noteq> []"
  shows "\<exists>s'. append_event B C Es s stream expected events =
      (Inr \<lparr>first_version = next_version C (content s) stream,
            last_version = next_version C (content s) stream + length events - 1,
            start_sequence = global_seq (content s) + 1\<rparr>, s') \<and>
    wf_db C (content s') \<and>
    current_version C (content s') stream = Some (next_version C (content s) stream + length events - 1) \<and>
    global_seq (content s') = global_seq (content s) + length events \<and>
    (\<forall>i < length events. \<exists>e. stored C (content s') stream (next_version C (content s) stream + i) = Some e \<and>
       env_version e = next_version C (content s) stream + i \<and> env_seq e = global_seq (content s) + 1 + i \<and>
       env_type e = ne_type (events ! i) \<and> env_data e = ne_data (events ! i) \<and> env_metadata e = ne_metadata (events ! i)) \<and>
    (\<forall>st v. name_ok st \<longrightarrow> st \<noteq> stream \<or> v < next_version C (content s) stream \<longrightarrow>
       stored C (content s') st v = stored C (content s) st v) \<and>
    (\<forall>st. name_ok st \<longrightarrow> visible (content s') st = visible (content s) st \<and>
       fence_of (content s') st = fence_of (content s) st)"
proof -
  have serde: "serde_codec C" using store by (simp add: event_store_def)
  have ref: "refusal C (content s) stream expected None events = None" using ok by (simp add: refusal_def)
  let ?m = "append_map C (Es 0) (content s) stream None True events"
  from event_store.commit_appends_quiet [OF store batch wf name, where Es = Es and from_version = None and expected = expected and token = None and idx = True] ids room quiet ref
  obtain h s' where c: "commit_appends B C Es s stream expected None None events True =
      (Inr \<lparr>tk_info = \<lparr>first_version = append_start C (content s) stream None,
             last_version = append_start C (content s) stream None + length events - 1,
             start_sequence = global_seq (content s) + 1\<rparr>, tk_seq = h\<rparr>, s')" and m: "content s' = ?m" by auto
  note st = serde_codec.append_map_stored [OF serde wf name _ ids room ok(2)]
  note serde_codec.append_map_version [OF serde name ok(2)]
  moreover have "global_seq ?m = global_seq (content s) + length events" using room by (rule append_map_seq)
  moreover have "wf_db C ?m" by (rule serde_codec.wf_append_map [OF serde wf name ids room ok(2)])
  ultimately show ?thesis
    using c m
    by (auto simp: append_event_def append_lazy_def append_start_def st name batch_nth serde_codec.append_map_guards [OF serde name])
qed

theorem append_event_ok_witness:
  "\<exists>s'. append_event mem_ops mem_codec mem_env mem_empty ''a'' NoStream [one_event] =
      (Inr \<lparr>first_version = 0, last_version = 0, start_sequence = 1\<rparr>, s') \<and>
    current_version mem_codec (mem_content s') ''a'' = Some 0 \<and>
    (\<exists>e. stored mem_codec (mem_content s') ''a'' 0 = Some e \<and> env_data e = ''d'')"
  using append_event_ok [OF mem_store.event_store_axioms, of "[one_event]" mem_empty "''a''" mem_env NoStream]
  by auto

text \<open>C31: an append is refused for exactly the reason the code gives, and a refused append changes nothing:
  another fence token, then a version other than the expected one, then an empty batch.\<close>

theorem append_refused:
  assumes store: "event_store B content writes base C" and batch: "check_batch events = Inr ()"
    and wf: "wf_db C (content s)" and name: "name_ok stream" and ids: "ulids_ok (Es 0)"
    and room: "append_room C (content s) stream None events" and quiet: "others (Es 0) s = s"
  shows "(\<forall>cur. fence_of (content s) stream = Some cur \<longrightarrow> cur \<noteq> token \<longrightarrow>
      append_with_token B C Es s stream token expected events = (Inl (FenceMismatch stream cur), s)) \<and>
    (\<not> version_matches expected (current_version C (content s) stream) \<longrightarrow>
      append_event B C Es s stream expected events =
        (Inl (VersionConflict stream expected (current_version C (content s) stream)), s)) \<and>
    (version_matches expected (current_version C (content s) stream) \<longrightarrow>
      append_event B C Es s stream expected [] = (Inl (InvalidInput ''empty batch''), s))"
proof (intro conjI allI impI)
  note q = event_store.commit_appends_quiet [OF store _ wf name, where Es = Es and from_version = None and expected = expected]
  show "append_with_token B C Es s stream token expected events = (Inl (FenceMismatch stream cur), s)"
    if "fence_of (content s) stream = Some cur" "cur \<noteq> token" for cur
    using q [where events = events and token = "Some token" and idx = True] batch ids room quiet that
    by (simp add: refusal_def append_with_token_def)
  show "append_event B C Es s stream expected events =
        (Inl (VersionConflict stream expected (current_version C (content s) stream)), s)"
    if "\<not> version_matches expected (current_version C (content s) stream)"
    using q [where events = events and token = None and idx = True] batch ids room quiet that
    by (simp add: refusal_def append_event_def append_lazy_def)
  have "append_room C (content s) stream None []" using room by (simp add: append_room_def)
  then show "append_event B C Es s stream expected [] = (Inl (InvalidInput ''empty batch''), s)"
    if "version_matches expected (current_version C (content s) stream)"
    using q [where events = "[]" and token = None and idx = True] ids quiet that
    by (simp add: refusal_def append_event_def append_lazy_def check_batch_ok)
qed

theorem append_refused_witness:
  "append_event mem_ops mem_codec mem_env mem_empty ''a'' (Exact 3) [one_event] = (Inl (VersionConflict ''a'' (Exact 3) None), mem_empty)"
  using append_refused [OF mem_store.event_store_axioms, of "[one_event]" mem_empty "''a''" mem_env "[]" "Exact 3"] by simp

text \<open>C35: a batch is accepted by the limits exactly when it has at most a thousand records of at most a mebibyte
  each; beyond them every append answers with an input error and writes nothing.\<close>

theorem append_limits:
  "(if length events \<le> 1000 \<and> (\<forall>e \<in> set events. length (ne_data e) \<le> 1048576)
    then commit_appends B C Es s stream expected from_version token events idx =
           commit_loop B C Es stream expected from_version token events idx 8 s
    else \<exists>w. commit_appends B C Es s stream expected from_version token events idx = (Inl (InvalidInput w), s))"
proof (cases "check_batch events")
  case (Inl e)
  then have "\<exists>w. e = InvalidInput w" by (auto simp: check_batch_def split: if_splits option.splits)
  with Inl check_batch_ok [of events] show ?thesis
    by (auto simp: commit_appends_def MAX_BATCH_RECORDS_def MAX_RECORD_BYTES_def)
next
  case (Inr u)
  with check_batch_ok [of events] show ?thesis
    by (auto simp: commit_appends_def MAX_BATCH_RECORDS_def MAX_RECORD_BYTES_def COMMIT_RETRIES_def)
qed

theorem append_limits_witness:
  "\<exists>w. commit_appends mem_ops mem_codec mem_env mem_empty ''a'' Any None None (replicate 1001 one_event) True = (Inl (InvalidInput w), mem_empty)"
  using append_limits [of "replicate 1001 one_event" mem_ops mem_codec mem_env mem_empty "''a''" Any None None True] by simp

lemma apfst_ticket_Inl: "apfst (\<lambda>r. bind_res r (\<lambda>t. Inr (f t))) p = (Inl e, s') \<longleftrightarrow> p = (Inl e, s')"
  by (cases p; cases "fst p") auto

text \<open>C28: an append that does not wait for durability (plain, at a version, with a token, and the two lazy ones)
  and returns an error other than a failure of the engine (input, fence, version conflict, a conflict that outlived
  the retries) has written nothing, whatever other clients commit in between: every property of the stored map that
  the other clients keep holds afterwards. After a failure of the engine the outcome is open, and the
  durable variants can fail in their wait, after the commit.\<close>

theorem append_failed_writes_nothing:
  assumes store: "event_store B content writes base C"
    and failed: "append_event B C Es s stream expected events = (Inl e, s') \<or>
      append_at B C Es s stream from_version expected events = (Inl e, s') \<or>
      append_with_token B C Es s stream token expected events = (Inl e, s') \<or>
      append_lazy B C Es s stream expected events = (Inl e, s') \<or>
      append_with_token_lazy B C Es s stream token expected events idx = (Inl e, s')"
    and engine: "\<And>x. e \<noteq> Backend x"
    and others: "Q (content s)" "\<And>k s. Q (content s) \<Longrightarrow> Q (content (others (Es k) s))"
  shows "Q (content s')"
proof -
  have "Q (content s')" if "commit_appends B C Es s stream expected at tok events ix = (Inl e, s')" for at tok ix
    using event_store.commit_appends_error [OF store that others engine] .
  with failed show ?thesis
    by (auto simp: append_event_def append_at_def append_with_token_def append_lazy_def append_with_token_lazy_def apfst_ticket_Inl)
qed

theorem append_failed_writes_nothing_witness:
  "mem_content (snd (append_event mem_ops mem_codec mem_env mem_empty ''a'' (Exact 3) [])) = Map.empty"
proof -
  have "append_event mem_ops mem_codec mem_env mem_empty ''a'' (Exact 3) [] = (Inl (VersionConflict ''a'' (Exact 3) None), mem_empty)"
    using mem_store.commit_appends_quiet [of "[]" mem_empty "''a''" mem_env None "Exact 3" None True]
    by (simp add: refusal_def check_batch_ok append_room_def append_start_def append_event_def append_lazy_def)
  from append_failed_writes_nothing [OF mem_store.event_store_axioms disjI1 [OF this], of "\<lambda>m. m = Map.empty"] this
  show ?thesis by simp
qed

text \<open>C1: concurrent appends are linearised: when an append succeeds, whatever other clients commit around it,
  there is one state \<open>pre\<close>, the one its commit meets, on which the expected-version check holds and
  to which the batch was added at the versions the call returns. The global sequence numbers come
  from the earlier state the transaction began on.\<close>

theorem append_linearizable:
  assumes store: "event_store_ssi B content writes base marked C"
    and ok: "commit_appends B C Es s stream expected from_version token events idx = (Inr tk, s')"
    and inv: "P (content s)" "\<And>k s. P (content s) \<Longrightarrow> P (content (others (Es k) s))"
    and bounds: "\<And>m. P m \<Longrightarrow> wf_db C m \<and> append_room C m stream from_version events"
    and name: "name_ok stream" and ids: "\<And>k. ulids_ok (Es k)"
  shows "\<exists>k bs pre. P (content bs) \<and> pre = others (Es k) bs \<and>
     version_matches expected (current_version C (content pre) stream) \<and>
     first_version (tk_info tk) = append_start C (content pre) stream from_version \<and>
     last_version (tk_info tk) = first_version (tk_info tk) + length events - 1 \<and>
     wf_db C (content s') \<and>
     (\<forall>i < length events. \<exists>e. stored C (content s') stream (first_version (tk_info tk) + i) = Some e \<and>
        env_data e = ne_data (events ! i) \<and> env_type e = ne_type (events ! i) \<and>
        env_seq e = global_seq (content bs) + 1 + i) \<and>
     (\<forall>st v. name_ok st \<longrightarrow> v < VMAX \<longrightarrow> st \<noteq> stream \<or> v < first_version (tk_info tk) \<or> last_version (tk_info tk) < v \<longrightarrow>
        stored C (content s') st v = stored C (content pre) st v)"
proof -
  have serde: "serde_codec C" using store by (simp add: event_store_ssi_def event_store_def)
  have loop: "commit_loop B C Es stream expected from_version token events idx COMMIT_RETRIES s = (Inr tk, s')"
    using ok by (cases "check_batch events") (simp_all add: commit_appends_def)
  from event_store_ssi.commit_loop_linear [OF store loop, of P] inv bounds name ids
  obtain k bs pre where l: "P (content bs)" "pre = others (Es k) bs"
    "version_matches expected (current_version C (content pre) stream)" "events \<noteq> []"
    "tk_info tk = \<lparr>first_version = append_start C (content pre) stream from_version,
        last_version = append_start C (content pre) stream from_version + length events - 1,
        start_sequence = global_seq (content bs) + 1\<rparr>"
    "content s' = appended C stream idx (current_version C (content pre) stream) (last_ts C (content pre) stream)
       (stamped (Es k) 0 (append_start C (content pre) stream from_version) (global_seq (content bs) + 1)
          (last_ts C (content pre) stream) events) (global_seq (content bs) + length events) (content pre)"
    by metis
  let ?v = "append_start C (content pre) stream from_version"
  let ?es = "stamped (Es k) 0 ?v (global_seq (content bs) + 1) (last_ts C (content pre) stream) events"
  have pre: "wf_db C (content pre)" "?v + length events \<le> VMAX"
    using bounds [of "content pre"] inv(2) [OF l(1), of k] l(2) by (auto simp: append_room_def)
  note con = consecutive_stamped [OF pre(2), of "Es k" "global_seq (content bs) + 1" "last_ts C (content pre) stream"]
  have id26: "length (env_id e) = 26" if "e \<in> set ?es" for e
    using that ids [of k] by (auto simp: in_set_conv_nth stamped_nth ulids_ok_def)
  have "wf_db C (content s')"
    unfolding l(6) using con l(4) id26 current_version_bound [OF pre(1) name]
    by (intro serde_codec.wf_db_appended [OF serde pre(1) name]) auto
  moreover have "stored C (content s') stream (?v + i) = Some (?es ! i)" if "i < length events" for i
    using serde_codec.appended_record [OF serde name con id26, of "?v + i" idx] that unfolding l(6) by simp
  moreover have "stored C (content s') st v = stored C (content pre) st v"
    if "name_ok st" "v < VMAX" "st \<noteq> stream \<or> v < ?v \<or> ?v + length events - 1 < v" for st v
  proof -
    have "st \<noteq> stream \<or> v < ?v \<or> ?v + length ?es \<le> v" using that(3) l(4) by auto
    from appended_record_other [OF name that(1) con that(2) this] show ?thesis
      unfolding l(6) by (simp add: stored_def)
  qed
  ultimately show ?thesis
    using l(1-3,5) by (intro exI [of _ k] exI [of _ bs] exI [of _ pre]) (simp add: stamped_nth)
qed

theorem append_linearizable_witness:
  "\<exists>tk s'. commit_appends mem_ops mem_codec mem_env mem_empty ''a'' NoStream None None [one_event] True = (Inr tk, s') \<and>
     (\<exists>e. stored mem_codec (mem_content s') ''a'' (first_version (tk_info tk)) = Some e \<and> env_data e = ''d'')"
proof -
  from mem_store.commit_appends_quiet [of "[one_event]" mem_empty "''a''" mem_env None NoStream None True]
  obtain tk s' where c: "commit_appends mem_ops mem_codec mem_env mem_empty ''a'' NoStream None None [one_event] True = (Inr tk, s')"
    by (auto simp: refusal_def)
  from append_linearizable [OF mem_store.event_store_ssi_axioms c, of "\<lambda>m. m = Map.empty"] c show ?thesis by auto
qed

text \<open>C32: the retry loop is bounded: when the commit of every attempt meets a conflict, the call ends after the
  last of the nine attempts with a version conflict that reports the version the stream has then.\<close>

theorem append_conflict_bound:
  assumes store: "event_store_ssi B content writes base marked C" and batch: "check_batch events = Inr ()"
    and inv: "P (content s)" "\<And>k s. P (content s) \<Longrightarrow> P (content (others (Es k) s))"
    and bounds: "\<And>m. P m \<Longrightarrow> wf_db C m \<and> append_room C m stream from_version events \<and>
       refusal C m stream expected token events = None"
    and name: "name_ok stream" and ids: "\<And>k. ulids_ok (Es k)"
    and conflict: "\<And>k s t sq. P (content s) \<Longrightarrow> base t = s \<Longrightarrow> m_key stream ''tail'' \<in> marked t \<Longrightarrow>
       fst (commit_seq B (others (Es k) s) t sq) = Inl SlateTransaction"
  shows "\<exists>s'. commit_appends B C Es s stream expected from_version token events idx =
     (Inl (VersionConflict stream expected (current_version C (content s') stream)), s') \<and> P (content s')"
  using event_store_ssi.commit_loop_exhausted [OF store, where P = P and s = s and Es = Es and stream = stream and
      from_version = from_version and events = events and expected = expected and token = token and idx = idx and
      retries = COMMIT_RETRIES] assms
  by (simp add: commit_appends_def)

text \<open>Two contending writes to the tail of a stream at version 7.\<close>

definition busy_tail :: "i64 \<Rightarrow> (bytes \<times> bytes) list" where
  "busy_tail ts = [(m_key ''a'' ''tail'', show_tail \<lparr>tail_version = 7, tail_ts_ms = ts\<rparr>)]"

definition busy_env :: "nat \<Rightarrow> mem_db env" where
  "busy_env k = (mem_env k)\<lparr>others := (\<lambda>s. (busy_tail (if mem_content s = map_of (busy_tail 0) then 1 else 0), 0))\<rparr>"

definition busy :: "kv_map \<Rightarrow> bool" where
  "busy m \<longleftrightarrow> m = map_of (busy_tail 0) \<or> m = map_of (busy_tail 1)"

lemma tail_of_busy: "tail_of mem_codec (map_of (busy_tail ts)) ''a'' = Some \<lparr>tail_version = 7, tail_ts_ms = ts\<rparr>"
  by (simp add: tail_of_def busy_tail_def mem_codec_def show_tail_def net_parse_enc read_tail_record_def)

lemma busy_tail_eq: "map_of (busy_tail ts) = map_of (busy_tail ts') \<longleftrightarrow> ts = ts'"
proof
  assume "map_of (busy_tail ts) = map_of (busy_tail ts')"
  then have "tail_of mem_codec (map_of (busy_tail ts)) ''a'' = tail_of mem_codec (map_of (busy_tail ts')) ''a''" by simp
  then show "ts = ts'" by (simp add: tail_of_busy)
qed simp

lemma busy_others: "mem_content (others (busy_env k) s) = map_of (busy_tail (if mem_content s = map_of (busy_tail 0) then 1 else 0))"
  by (simp add: busy_env_def mem_content_def)

lemma wf_busy: "wf_db mem_codec (map_of (busy_tail ts))"
proof -
  have "wf_field mem_codec ''tail'' (show_tail \<lparr>tail_version = 7, tail_ts_ms = ts\<rparr>)"
    using mem_serde.wf_field_tail [of "\<lparr>tail_version = 7, tail_ts_ms = ts\<rparr>"] by (simp add: mem_codec_def)
  then show ?thesis using wf_db_upd [OF wf_db_empty wf_entry_field] by (simp add: busy_tail_def)
qed

lemma busy_conflict:
  assumes "busy (mem_content s)" "mt_base t = s" "m_key ''a'' ''tail'' \<in> mem_marked t"
  shows "fst (commit_seq mem_ops (others (busy_env k) s) t sq) = Inl SlateTransaction"
proof -
  have "mem_content (others (busy_env k) s) (m_key ''a'' ''tail'') \<noteq> mem_content s (m_key ''a'' ''tail'')"
    using assms(1) busy_tail_eq [of 0 1] unfolding busy_others busy_def by (auto simp: busy_tail_def)
  with assms(2,3) show ?thesis
    by (auto simp: commit_seq_def mem_ops_def mem_commit_def mem_marked_def list_ex_iff)
qed

theorem append_conflict_bound_witness:
  "fst (commit_appends mem_ops mem_codec busy_env (busy_tail 0, 0) ''a'' (Exact 7) None None [one_event] True) =
     Inl (VersionConflict ''a'' (Exact 7) (Some 7))"
proof -
  have b: "current_version mem_codec m ''a'' = Some 7" "next_version mem_codec m ''a'' = 8" "wf_db mem_codec m"
    "global_seq m = 0" if "busy m" for m
    using that tail_of_busy wf_busy
    by (auto simp: busy_def current_version_def next_version_def global_seq_def seq_of_def busy_tail_def)
  have "\<exists>s'. commit_appends mem_ops mem_codec busy_env (busy_tail 0, 0) ''a'' (Exact 7) None None [one_event] True =
     (Inl (VersionConflict ''a'' (Exact 7) (current_version mem_codec (mem_content s') ''a'')), s') \<and> busy (mem_content s')"
    by (rule append_conflict_bound [OF mem_store.event_store_ssi_axioms])
       (use b busy_conflict in \<open>auto simp: busy_others refusal_def append_room_def append_start_def busy_def mem_content_def
          ulids_ok_def busy_env_def mem_env_def\<close>)
  with b show ?thesis by auto
qed

text \<open>C17: a conditional append takes effect once: repeating it after it has succeeded, as a client that lost the
  answer would, is a version conflict and leaves the store as it is.\<close>

theorem append_exactly_once:
  assumes store: "event_store B content writes base C" and batch: "check_batch events = Inr ()"
    and wf: "wf_db C (content s)" and name: "name_ok stream" and ids: "ulids_ok (Es 0)" "ulids_ok (Es' 0)"
    and room: "append_room C (content s) stream None events" "append_room C (content s') stream None events"
    and quiet: "others (Es 0) s = s" "others (Es' 0) s' = s'"
    and conditional: "expected \<noteq> Any" and first: "append_event B C Es s stream expected events = (Inr info, s')"
  shows "append_event B C Es' s' stream expected events =
     (Inl (VersionConflict stream expected (Some (last_version info))), s')"
proof -
  have serde: "serde_codec C" using store by (simp add: event_store_def)
  note q = event_store.commit_appends_quiet [OF store batch _ name, where from_version = None and expected = expected and token = None and idx = True]
  have ref: "refusal C (content s) stream expected None events = None"
    using q [where Es = Es and s = s] wf ids(1) room(1) quiet(1) first
    by (cases "refusal C (content s) stream expected None events") (simp_all add: append_event_def append_lazy_def)
  with q [where Es = Es and s = s] wf ids(1) room(1) quiet(1) first
  have m: "content s' = append_map C (Es 0) (content s) stream None True events"
    "last_version info = next_version C (content s) stream + length events - 1"
    by (auto simp: append_event_def append_lazy_def append_start_def)
  have ne: "events \<noteq> []" "version_matches expected (current_version C (content s) stream)"
    using ref by (auto simp: refusal_def split: if_splits)
  have wf': "wf_db C (content s')" unfolding m by (rule serde_codec.wf_append_map [OF serde wf name ids(1) room(1) ne(1)])
  have cur: "current_version C (content s') stream = Some (last_version info)"
    unfolding m by (rule serde_codec.append_map_version [OF serde name ne(1)])
  have "1 \<le> length events" using ne(1) by (cases events) auto
  then have "\<not> version_matches expected (Some (last_version info))"
    using ne(2) conditional m(2) by (cases expected) (auto simp: next_version_def)
  with q [where Es = Es' and s = s'] wf' ids(2) room(2) quiet(2) cur show ?thesis
    by (simp add: refusal_def append_event_def append_lazy_def)
qed

theorem append_exactly_once_witness:
  "\<exists>info s'. append_event mem_ops mem_codec mem_env mem_empty ''a'' NoStream [one_event] = (Inr info, s') \<and>
     append_event mem_ops mem_codec mem_env s' ''a'' NoStream [one_event] =
       (Inl (VersionConflict ''a'' NoStream (Some (last_version info))), s')"
proof -
  from mem_store.commit_appends_quiet [of "[one_event]" mem_empty "''a''" mem_env None NoStream None True]
  obtain info s' where c: "append_event mem_ops mem_codec mem_env mem_empty ''a'' NoStream [one_event] = (Inr info, s')"
    and m: "mem_content s' = append_map mem_codec (mem_env 0) Map.empty ''a'' None True [one_event]"
    by (auto simp: refusal_def append_event_def append_lazy_def)
  have "append_room mem_codec (mem_content s') ''a'' None [one_event]"
    unfolding m append_room_def append_start_def
    using mem_serde.append_map_next [of "''a''" "[one_event]" "mem_env 0" Map.empty True]
      append_map_seq [of mem_codec Map.empty "''a''" None "[one_event]" "mem_env 0" True] by simp
  with append_exactly_once [OF mem_store.event_store_axioms, of "[one_event]" mem_empty "''a''" mem_env mem_env s' NoStream info] c
  show ?thesis by auto
qed

lemma clock_stamped: "j < length es \<Longrightarrow> clock E (i + j) \<le> env_ts_ms (stamped E i v sq ts es ! j)"
proof (induction es arbitrary: i j ts)
  case (Cons e es)
  show ?case
  proof (cases j)
    case (Suc j')
    with Cons.IH [of j' "Suc i"] Cons.prems show ?thesis by (simp add: Let_def)
  qed (simp add: Let_def)
qed simp

lemma append_map_last_ts:
  assumes "serde_codec C" "name_ok s" "events \<noteq> []"
  shows "last_ts C (append_map C E m s None idx events) s = env_ts_ms (last (batch_of C E m s None events))"
  using assms(3) by (simp add: last_ts_def serde_codec.append_map_tail [OF assms] end_ts_def)

text \<open>C29: the timestamps of a stream never go back: those of an appended batch start at or after the last
  timestamp of the stream, are non-decreasing even when the clock is not, are never earlier than the
  clock reading of their event, and the tail keeps the last of them.\<close>

theorem append_timestamps_monotone:
  assumes store: "event_store B content writes base C" and batch: "check_batch events = Inr ()"
    and wf: "wf_db C (content s)" and name: "name_ok stream" and ids: "ulids_ok (Es 0)"
    and room: "append_room C (content s) stream None events" and quiet: "others (Es 0) s = s"
    and ok: "append_event B C Es s stream expected events = (Inr info, s')"
  shows "\<exists>es. length es = length events \<and>
     (\<forall>i < length es. stored C (content s') stream (first_version info + i) = Some (es ! i) \<and> clock (Es 0) i \<le> env_ts_ms (es ! i)) \<and>
     sorted_wrt (\<le>) (last_ts C (content s) stream # map env_ts_ms es) \<and>
     last_ts C (content s') stream = env_ts_ms (last es)"
proof -
  have serde: "serde_codec C" using store by (simp add: event_store_def)
  note q = event_store.commit_appends_quiet [OF store batch wf name, where Es = Es and from_version = None and
      expected = expected and token = None and idx = True]
  have ref: "refusal C (content s) stream expected None events = None"
    using q ids room quiet ok
    by (cases "refusal C (content s) stream expected None events") (simp_all add: append_event_def append_lazy_def)
  then have ne: "events \<noteq> []" by (auto simp: refusal_def split: if_splits)
  from ref q ids room quiet ok have m: "content s' = append_map C (Es 0) (content s) stream None True events"
    "first_version info = append_start C (content s) stream None"
    by (auto simp: append_event_def append_lazy_def)
  let ?es = "batch_of C (Es 0) (content s) stream None events"
  have "stored C (content s') stream (first_version info + i) = Some (?es ! i) \<and> clock (Es 0) i \<le> env_ts_ms (?es ! i)"
    if "i < length ?es" for i
    unfolding m using that clock_stamped [of i events "Es 0" 0] serde_codec.append_map_stored [OF serde wf name name ids room ne]
    by (simp add: batch_of_def)
  then show ?thesis
    using stamped_ts_mono [of "last_ts C (content s) stream" "Es 0" 0 "append_start C (content s) stream None" "global_seq (content s) + 1" events]
      append_map_last_ts [OF serde name ne] unfolding m
    by (intro exI [of _ ?es]) (simp add: batch_of_def)
qed

theorem append_timestamps_monotone_witness:
  "\<exists>info s' e. append_event mem_ops mem_codec mem_env mem_empty ''a'' NoStream [one_event] = (Inr info, s') \<and>
     stored mem_codec (mem_content s') ''a'' (first_version info) = Some e \<and> 5 \<le> env_ts_ms e"
proof -
  from mem_store.commit_appends_quiet [of "[one_event]" mem_empty "''a''" mem_env None NoStream None True]
  obtain info s' where c: "append_event mem_ops mem_codec mem_env mem_empty ''a'' NoStream [one_event] = (Inr info, s')"
    by (auto simp: refusal_def append_event_def append_lazy_def)
  from append_timestamps_monotone [OF mem_store.event_store_axioms _ _ _ _ _ _ c] obtain es where
    "length es = 1" "\<forall>i < length es. stored mem_codec (mem_content s') ''a'' (first_version info + i) = Some (es ! i) \<and>
       clock (mem_env 0) i \<le> env_ts_ms (es ! i)" by auto
  with c show ?thesis by (auto simp: mem_env_def)
qed

text \<open>C33: a durable append answers only after the watermark of the engine has reached its commit: it returns the
  versions of a committed append whose sequence number some delivered status covers.\<close>

theorem append_durable_is_durable:
  assumes "append_durable B C Es sts s stream expected events = (Inr info, s')"
  shows "\<exists>h st. append_lazy B C Es s stream expected events = (Inr \<lparr>tk_info = info, tk_seq = h\<rparr>, s') \<and>
     st \<in> set sts \<and> h \<le> durable_seq st"
proof -
  obtain r s1 where l: "append_lazy B C Es s stream expected events = (r, s1)" by fastforce
  with assms obtain t where t: "r = Inr t" "await_durable sts t = Inr ()" "tk_info t = info" "s1 = s'"
    by (cases r) (auto simp: append_durable_def bind_res_eq_Inr)
  from t(2) obtain st where st: "find (\<lambda>st. tk_seq t \<le> durable_seq st \<or> close_reason st \<noteq> None) sts = Some st"
    and le: "tk_seq t \<le> durable_seq st"
    by (auto simp: await_durable_def await_seq_def split: option.splits if_splits)
  from find_SomeD [OF st] le have "st \<in> set sts" "tk_seq t \<le> durable_seq st" by simp_all
  moreover obtain h where "t = \<lparr>tk_info = info, tk_seq = h\<rparr>" using t(3) by (cases t) simp
  ultimately show ?thesis
    using l t(1,4) by (intro exI [of _ h] exI [of _ st]) simp
qed

theorem append_durable_is_durable_witness:
  "\<exists>info s' n h. append_durable mem_ops mem_codec mem_env [\<lparr>durable_seq = n, close_reason = None\<rparr>] mem_empty ''a'' NoStream [one_event] = (Inr info, s') \<and>
     append_lazy mem_ops mem_codec mem_env mem_empty ''a'' NoStream [one_event] = (Inr \<lparr>tk_info = info, tk_seq = h\<rparr>, s') \<and> h \<le> n"
proof -
  from mem_store.commit_appends_quiet [of "[one_event]" mem_empty "''a''" mem_env None NoStream None True]
  obtain tk s' where "append_lazy mem_ops mem_codec mem_env mem_empty ''a'' NoStream [one_event] = (Inr tk, s')"
    by (auto simp: refusal_def append_lazy_def)
  then have d: "append_durable mem_ops mem_codec mem_env [\<lparr>durable_seq = tk_seq tk, close_reason = None\<rparr>] mem_empty ''a'' NoStream [one_event] =
      (Inr (tk_info tk), s')" by (simp add: append_durable_def await_durable_def await_seq_def)
  from append_durable_is_durable [OF d] d show ?thesis by fastforce
qed

end
