(* ===== verification/Fencing.thy ===== *)
theory Fencing
  imports Write_Path
begin

text \<open>
  Operations that are one transaction: the frame \<open>with_txn\<close> (begin, body, commit) in a quiet
  environment, fencing, and cross-stream transactions against their specification \<open>ops_map\<close>.
\<close>

context slatedb begin

lemma with_txn_ok:
  assumes "others E s = s"
    "\<And>t. base t = s \<Longrightarrow> view t = content s \<Longrightarrow> \<exists>t'. body t = Inr (x, t') \<and> base t' = s \<and> view t' = m'"
  obtains h s' where "with_txn B E s body = (Inr (x, h), s')" "content s' = m'"
proof -
  obtain t where t: "db_begin B s = Inr t" "base t = s" "view t = content s" using tx_beginE by metis
  from assms(2) [OF t(2,3)] obtain t' where t': "body t = Inr (x, t')" "base t' = s" "view t' = m'" by blast
  obtain h s' where "tx_commit B s t' = (Inr h, s')" "content s' = m'"
    using quiet_commitE [OF t'(2)] t'(3) by metis
  with that t(1) t'(1) assms(1) show ?thesis by (simp add: with_txn_def)
qed

lemma with_txn_err:
  assumes "\<And>t. base t = s \<Longrightarrow> view t = content s \<Longrightarrow> body t = Inl e"
  shows "with_txn B E s body = (Inl e, s)"
proof -
  obtain t where "db_begin B s = Inr t" "base t = s" "view t = content s" using tx_beginE by metis
  with assms show ?thesis by (simp add: with_txn_def)
qed

end

context event_store begin

lemma fence_watch:
  assumes "wf_db C (content s)" "name_ok stream" "others E s = s"
  obtains h s' where "\<forall>w. fence B C (E\<lparr>watch := w\<rparr>) s stream token =
      (bind_res (case h of None \<Rightarrow> Inr () | Some sq \<Rightarrow> await_seq w sq) (\<lambda>_. Inr (tail_commit_info (tail_of C (content s) stream))), s')"
    "content s' = fence_map (content s) stream token"
proof -
  let ?body = "\<lambda>t. bind_res (kv_tail C (tx_reader B t) stream) (\<lambda>tail.
         bind_res (replay_fence B t stream token) (\<lambda>t'. Inr (tail, t')))"
  have "\<exists>t'. ?body t = Inr (tail_of C (content s) stream, t') \<and> base t' = s \<and> view t' = fence_map (content s) stream token"
    if "base t = s" "view t = content s" for t
  proof -
    obtain t' where "replay_fence B t stream token = Inr t'" "base t' = base t" "view t' = fence_map (view t) stream token"
      by (rule replay_fence_eq)
    moreover have "kv_tail C (tx_reader B t) stream = Inr (tail_of C (content s) stream)"
      using kv_tail_of [OF serves_tx] assms(1,2) that by metis
    ultimately show ?thesis using that by auto
  qed
  then obtain h s' where w: "with_txn B E s ?body = (Inr (tail_of C (content s) stream, h), s')"
    "content s' = fence_map (content s) stream token" by (rule with_txn_ok [OF assms(3)])
  have "with_txn B (E\<lparr>watch := w\<rparr>) s ?body = with_txn B E s ?body" for w
    unfolding with_txn_def by (simp cong: sum.case_cong)
  with w(1) have "fence B C (E\<lparr>watch := w\<rparr>) s stream token =
      (bind_res (case h of None \<Rightarrow> Inr () | Some sq \<Rightarrow> await_seq w sq) (\<lambda>_. Inr (tail_commit_info (tail_of C (content s) stream))), s')" for w
    by (cases h) (simp_all add: fence_def)
  with that w(2) show ?thesis by blast
qed

lemma fence_eq:
  assumes "wf_db C (content s)" "name_ok stream" "others E s = s"
  obtains r s' where "fence B C E s stream token = (r, s')" "content s' = fence_map (content s) stream token"
    "r = Inr (tail_commit_info (tail_of C (content s) stream)) \<or> (\<exists>w. r = Inl (Backend (SlateClosed w)))"
proof -
  obtain h s' where f: "\<forall>w. fence B C (E\<lparr>watch := w\<rparr>) s stream token =
      (bind_res (case h of None \<Rightarrow> Inr () | Some sq \<Rightarrow> await_seq w sq) (\<lambda>_. Inr (tail_commit_info (tail_of C (content s) stream))), s')"
    and m: "content s' = fence_map (content s) stream token" by (rule fence_watch [OF assms])
  have a: "await_seq sts sq = Inr () \<or> (\<exists>w. await_seq sts sq = Inl (Backend (SlateClosed w)))" for sts sq
    by (auto simp: await_seq_def split: option.splits)
  let ?r = "bind_res (case h of None \<Rightarrow> Inr () | Some sq \<Rightarrow> await_seq (watch E) sq) (\<lambda>_. Inr (tail_commit_info (tail_of C (content s) stream)))"
  have "?r = Inr (tail_commit_info (tail_of C (content s) stream)) \<or> (\<exists>w. ?r = Inl (Backend (SlateClosed w)))"
  proof (cases h)
    case (Some sq)
    with a [of "watch E" sq] show ?thesis by auto
  qed simp
  moreover have "fence B C E s stream token = (?r, s')" using f [rule_format, of "watch E"] by simp
  ultimately show ?thesis using that m by blast
qed

end

text \<open>What an append of \<open>events\<close> after the tail reports: the versions after it and the next sequence number.\<close>

definition append_info :: "codec \<Rightarrow> kv_map \<Rightarrow> string \<Rightarrow> new_event list \<Rightarrow> commit_info" where
  "append_info C m stream events =
     \<lparr>first_version = append_start C m stream None, last_version = append_start C m stream None + length events - 1,
      start_sequence = global_seq m + 1\<rparr>"

context event_store begin

text \<open>The three ways an append goes on a fenced stream.\<close>

lemma appends_fenced:
  assumes "check_batch events = Inr ()" "wf_db C (content s)" "name_ok stream" "ulids_ok (Es 0)"
    "append_room C (content s) stream None events" "others (Es 0) s = s" "fence_of (content s) stream = Some token"
  shows "other \<noteq> token \<Longrightarrow> append_with_token B C Es s stream other expected events = (Inl (FenceMismatch stream token), s)"
    "events \<noteq> [] \<Longrightarrow> version_matches expected (current_version C (content s) stream) \<Longrightarrow>
       \<exists>s'. append_with_token B C Es s stream token expected events = (Inr (append_info C (content s) stream events), s') \<and>
         content s' = append_map C (Es 0) (content s) stream None True events"
    "events \<noteq> [] \<Longrightarrow> version_matches expected (current_version C (content s) stream) \<Longrightarrow>
       \<exists>s'. append_event B C Es s stream expected events = (Inr (append_info C (content s) stream events), s') \<and>
         content s' = append_map C (Es 0) (content s) stream None True events"
  using commit_appends_quiet [where Es = Es, OF assms(1-6), of expected "Some other" True]
    commit_appends_quiet [where Es = Es, OF assms(1-6), of expected "Some token" True]
    commit_appends_quiet [where Es = Es, OF assms(1-6), of expected None True] assms(7)
  by (auto simp: refusal_def append_with_token_def append_event_def append_lazy_def append_info_def)

end

text \<open>C18: a fence takes over a stream: setting a token touches nothing but the fence key (whether or not the
  durability wait succeeds); after it every append that carries another token is refused and reports
  the new token, and an append that carries the token, or none, goes through at the next version
  whenever its expected version matches.\<close>

theorem fence_takes_over:
  assumes store: "event_store B content writes base C" and wf: "wf_db C (content s)" and name: "name_ok stream"
    and quiet: "others E s = s" and tok: "token \<noteq> []" "is_utf8 token"
  shows "\<exists>r s'. fence B C E s stream (Some token) = (r, s') \<and>
     (r = Inr (tail_commit_info (tail_of C (content s) stream)) \<or> (\<exists>w. r = Inl (Backend (SlateClosed w)))) \<and>
     content s' = (content s)(m_key stream ''fence'' \<mapsto> token) \<and> wf_db C (content s') \<and>
     (\<forall>other Es expected events. other \<noteq> token \<longrightarrow> check_batch events = Inr () \<longrightarrow> ulids_ok (Es 0) \<longrightarrow>
        append_room C (content s') stream None events \<longrightarrow> others (Es 0) s' = s' \<longrightarrow>
        append_with_token B C Es s' stream other expected events = (Inl (FenceMismatch stream token), s')) \<and>
     (\<forall>Es expected events. events \<noteq> [] \<longrightarrow> check_batch events = Inr () \<longrightarrow> ulids_ok (Es 0) \<longrightarrow>
        append_room C (content s') stream None events \<longrightarrow> others (Es 0) s' = s' \<longrightarrow>
        version_matches expected (current_version C (content s) stream) \<longrightarrow>
        (\<exists>s''. append_with_token B C Es s' stream token expected events =
             (Inr (append_info C (content s) stream events), s'') \<and>
           content s'' = append_map C (Es 0) (content s') stream None True events) \<and>
        (\<exists>s''. append_event B C Es s' stream expected events = (Inr (append_info C (content s) stream events), s'') \<and>
           content s'' = append_map C (Es 0) (content s') stream None True events))"
proof -
  obtain r s' where f: "fence B C E s stream (Some token) = (r, s')" "content s' = fence_map (content s) stream (Some token)"
    "r = Inr (tail_commit_info (tail_of C (content s) stream)) \<or> (\<exists>w. r = Inl (Backend (SlateClosed w)))"
    using event_store.fence_eq [OF store wf name quiet] by metis
  have m: "content s' = (content s)(m_key stream ''fence'' \<mapsto> token)" using f(2) tok(1) by (simp add: fence_map_def)
  have wf': "wf_db C (content s')" unfolding f(2) by (rule wf_fence_map [OF wf name])
  have fe: "fence_of (content s') stream = Some token" using tok(2) by (simp add: m fence_of_def)
  have "m_key stream ''tail'' \<noteq> m_key stream ''fence''" by (simp add: m_key_eq name)
  then have cur: "current_version C (content s') stream = current_version C (content s) stream"
    and sq: "global_seq (content s') = global_seq (content s)"
    by (simp_all add: m current_version_def tail_of_def global_seq_def)
  then have inf: "append_info C (content s') stream ev = append_info C (content s) stream ev" for ev
    by (simp add: append_info_def append_start_def next_version_def)
  note after = event_store.appends_fenced [OF store _ wf' name _ _ _ fe]
  have other: "append_with_token B C Es s' stream other expected events = (Inl (FenceMismatch stream token), s')"
    if "other \<noteq> token" "check_batch events = Inr ()" "ulids_ok (Es 0)" "append_room C (content s') stream None events"
      "others (Es 0) s' = s'" for other Es expected events
    using after(1) [where Es = Es, OF that(2-5,1)] .
  have through: "(\<exists>s''. append_with_token B C Es s' stream token expected events = (Inr (append_info C (content s) stream events), s'') \<and>
           content s'' = append_map C (Es 0) (content s') stream None True events) \<and>
        (\<exists>s''. append_event B C Es s' stream expected events = (Inr (append_info C (content s) stream events), s'') \<and>
           content s'' = append_map C (Es 0) (content s') stream None True events)"
    if "events \<noteq> []" "check_batch events = Inr ()" "ulids_ok (Es 0)" "append_room C (content s') stream None events"
      "others (Es 0) s' = s'" "version_matches expected (current_version C (content s) stream)" for Es expected events
    using after(2,3) [where Es = Es, OF that(2-5,1) that(6) [folded cur]] unfolding inf by blast
  show ?thesis using f(1,3) m wf' other through by (intro exI [of _ r] exI [of _ s']) blast
qed

theorem fence_takes_over_witness:
  "\<exists>s' s'' info. snd (fence mem_ops mem_codec (mem_env 0) mem_empty ''a'' (Some ''w1'')) = s' \<and>
     append_with_token mem_ops mem_codec mem_env s' ''a'' ''w0'' Any [one_event] = (Inl (FenceMismatch ''a'' ''w1''), s') \<and>
     append_with_token mem_ops mem_codec mem_env s' ''a'' ''w1'' Any [one_event] = (Inr info, s'') \<and> first_version info = 0"
proof -
  have u: "is_utf8 ''w1''" by simp
  have room: "append_room mem_codec [m_key ''a'' ''fence'' \<mapsto> ''w1''] ''a'' None [one_event]"
    by (simp add: append_room_def append_start_def next_version_def current_version_def tail_of_def m_key_eq
        global_seq_def seq_of_def)
  have i: "first_version (append_info mem_codec Map.empty ''a'' [one_event]) = 0"
    by (simp add: append_info_def append_start_def next_version_def)
  have p: "wf_db mem_codec (mem_content mem_empty)" "name_ok ''a''" "others (mem_env 0) mem_empty = mem_empty" "''w1'' \<noteq> []"
    by simp_all
  from fence_takes_over [OF mem_store.event_store_axioms p u] obtain r s'
    where f: "fence mem_ops mem_codec (mem_env 0) mem_empty ''a'' (Some ''w1'') = (r, s')"
      and m: "mem_content s' = (mem_content mem_empty)(m_key ''a'' ''fence'' \<mapsto> ''w1'')"
      and other: "\<forall>other Es expected events. other \<noteq> ''w1'' \<longrightarrow> check_batch events = Inr () \<longrightarrow> ulids_ok (Es 0) \<longrightarrow>
        append_room mem_codec (mem_content s') ''a'' None events \<longrightarrow> others (Es 0) s' = s' \<longrightarrow>
        append_with_token mem_ops mem_codec Es s' ''a'' other expected events = (Inl (FenceMismatch ''a'' ''w1''), s')"
      and same: "\<forall>Es expected events. events \<noteq> [] \<longrightarrow> check_batch events = Inr () \<longrightarrow> ulids_ok (Es 0) \<longrightarrow>
        append_room mem_codec (mem_content s') ''a'' None events \<longrightarrow> others (Es 0) s' = s' \<longrightarrow>
        version_matches expected (current_version mem_codec (mem_content mem_empty) ''a'') \<longrightarrow>
        (\<exists>s''. append_with_token mem_ops mem_codec Es s' ''a'' ''w1'' expected events =
             (Inr (append_info mem_codec (mem_content mem_empty) ''a'' events), s'') \<and>
           mem_content s'' = append_map mem_codec (Es 0) (mem_content s') ''a'' None True events) \<and>
        (\<exists>s''. append_event mem_ops mem_codec Es s' ''a'' expected events =
             (Inr (append_info mem_codec (mem_content mem_empty) ''a'' events), s'') \<and>
           mem_content s'' = append_map mem_codec (Es 0) (mem_content s') ''a'' None True events)"
    by (elim exE conjE)
  have r: "append_room mem_codec (mem_content s') ''a'' None [one_event]" using m room by simp
  from same [rule_format, of "[one_event]" mem_env Any] r obtain s''
    where "append_with_token mem_ops mem_codec mem_env s' ''a'' ''w1'' Any [one_event] =
       (Inr (append_info mem_codec Map.empty ''a'' [one_event]), s'')" by auto
  with other [rule_format, of "''w0''" "[one_event]" mem_env Any] r f i show ?thesis by auto
qed

text \<open>C2: a transaction over several streams is the sequence of its operations done at once: it returns what the
  operations one after the other return, each append seeing the ones before it, and stores their
  joint effect; when one of them is refused, it returns that error and stores nothing.\<close>

theorem commit_atomic:
  assumes "event_store B content writes base C" "check_ops txn = Inr ()" "wf_db C (content s)" "others (Es 0) s = s"
    "global_seq (content s) < 2 ^ 64" "ops_room C Es 0 (with_seq (content s) (global_seq (content s))) txn"
  shows "case ops_map C Es 0 (with_seq (content s) (global_seq (content s))) txn of
      Inl e \<Rightarrow> commit B C Es s txn = (Inl e, s)
    | Inr (infos, m') \<Rightarrow> \<exists>s'. commit B C Es s txn = (Inr infos, s') \<and> content s' = m'"
  using assms by (rule event_store.commit_eq)

definition two_appends :: transaction where
  "two_appends = transaction_append (transaction_append new_transaction ''a'' NoStream [one_event]) ''a'' NoStream [one_event]"

lemma two_appends_eq: "two_appends = [OpAppend ''a'' NoStream [one_event], OpAppend ''a'' NoStream [one_event]]"
  by (simp add: two_appends_def new_transaction_def transaction_append_def)

theorem commit_atomic_witness:
  "commit mem_ops mem_codec mem_env mem_empty two_appends = (Inl (VersionConflict ''a'' NoStream (Some 0)), mem_empty)"
proof -
  let ?m = "with_seq Map.empty 0" and ?m1 = "append_map mem_codec (mem_env 0) (with_seq Map.empty 0) ''a'' None True [one_event]"
  have r0: "append_room mem_codec ?m ''a'' None [one_event]" by (simp add: append_room_def append_start_def)
  have n1: "next_version mem_codec ?m1 ''a'' = 1" "current_version mem_codec ?m1 ''a'' = Some 0"
    using mem_serde.append_map_next [of "''a''" "[one_event]" "mem_env 0" ?m True]
      mem_serde.append_map_version [of "''a''" "[one_event]" "mem_env 0" ?m True] by simp_all
  have "append_room mem_codec ?m1 ''a'' None [one_event]"
    using n1 append_map_seq [OF r0, of "mem_env 0" True] by (simp add: append_room_def append_start_def)
  then have room: "ops_room mem_codec mem_env 0 ?m two_appends"
    using r0 n1 by (simp add: two_appends_eq refusal_def)
  have "check_ops two_appends = Inr ()" by (simp add: two_appends_eq check_ops_def)
  with commit_atomic [OF mem_store.event_store_axioms, of two_appends mem_empty mem_env] room n1 show ?thesis
    by (simp add: two_appends_eq refusal_def)
qed

text \<open>A transaction that returns an error, a commit conflict with other clients included, has written
  nothing of its own; only another failure of the engine leaves its outcome open.\<close>

theorem commit_failed_writes_nothing:
  assumes "event_store B content writes base C" "commit B C Es s txn = (Inl e, s')"
    "Q (content s)" "Q (content (others (Es 0) s))" "\<And>x. e = Backend x \<Longrightarrow> x = SlateTransaction"
  shows "Q (content s')"
  using assms by (rule event_store.commit_error)

theorem commit_failed_writes_nothing_witness:
  "\<exists>e s'. commit mem_ops mem_codec mem_env mem_empty [OpAppend ''a'' Any []] = (Inl e, s') \<and> mem_content s' = Map.empty"
proof -
  have "commit mem_ops mem_codec mem_env mem_empty [OpAppend ''a'' Any []] = (Inl (InvalidInput ''empty batch''), mem_empty)"
    using mem_store.commit_eq [of "[OpAppend ''a'' Any []]" mem_empty mem_env]
    by (simp add: check_ops_def check_batch_def append_room_def append_start_def refusal_def)
  from commit_failed_writes_nothing [OF mem_store.event_store_axioms this, of "\<lambda>m. m = Map.empty"] this show ?thesis by simp
qed

end
