(* ===== verification/Branch.thy ===== *)
theory Branch
  imports Fencing
begin

text \<open>
  Branches of \<open>src/fork.rs\<close> and \<open>src/store.rs\<close>: the fork-resolved history of a stream, the operations
  that fork, trim, roll back, purge and delete streams. The recursion over the fork chain and the
  purge loop are partial functions into \<^typ>\<open>'a option\<close>; that they return is proved.
\<close>

section \<open>Fork-resolved history\<close>

definition half_open :: "version \<Rightarrow> version option \<Rightarrow> version bound \<times> version bound" where
  "half_open lo hi = (Included lo, case hi of None \<Rightarrow> Unbounded | Some h \<Rightarrow> Excluded h)"

definition empty_range :: "version \<Rightarrow> version option \<Rightarrow> bool" where
  "empty_range lo hi = (case hi of None \<Rightarrow> False | Some h \<Rightarrow> h \<le> lo)"

definition parent_hi :: "fork_ref \<Rightarrow> version option \<Rightarrow> version" where
  "parent_hi f hi = (case hi of None \<Rightarrow> add64 (fork_at_version f) 1 | Some h \<Rightarrow> min h (add64 (fork_at_version f) 1))"

partial_function (option) resolve_history ::
  "codec \<Rightarrow> kv_read \<Rightarrow> string \<Rightarrow> string list \<Rightarrow> version \<Rightarrow> version option \<Rightarrow> event list res option" where
  "resolve_history C r stream visited lo hi =
     (if empty_range lo hi then Some (Inr [])
      else if stream \<in> set visited then Some (Inl (InvalidInput (''fork cycle at '' @ quoted stream)))
      else case kv_fork_ref C r stream of
        Inl e \<Rightarrow> Some (Inl e)
      | Inr fork \<Rightarrow>
          Option.bind
            (case fork of
               None \<Rightarrow> Some (Inr [])
             | Some f \<Rightarrow> if lo < parent_hi f hi
                         then resolve_history C r (fork_stream f) (stream # visited) lo (Some (parent_hi f hi))
                         else Some (Inr []))
            (\<lambda>inherited. Some (bind_res inherited (\<lambda>events.
               bind_res (read_events C r stream (half_open lo hi)) (\<lambda>own. Inr (events @ own))))))"

section \<open>Operations\<close>

definition fork ::
  "('s, 't) slatedb_ops \<Rightarrow> codec \<Rightarrow> 's env \<Rightarrow> 's \<Rightarrow> string \<Rightarrow> version \<Rightarrow> string \<Rightarrow> unit res \<times> 's" where
  "fork B C E s parent at_version child =
     apfst (\<lambda>r. bind_res r (\<lambda>_. Inr ())) (with_txn B E s (\<lambda>t.
       bind_res (kv_tail C (tx_reader B t) parent) (\<lambda>tail. case tail of
         None \<Rightarrow> Inl (InvalidInput (''parent '' @ quoted parent @ '' does not exist''))
       | Some parent_tail \<Rightarrow>
           if tail_version parent_tail < at_version then
             Inl (InvalidInput (''parent '' @ quoted parent @ '' is at v'' @ show_nat (tail_version parent_tail) @
               '', cannot fork at v'' @ show_nat at_version))
           else bind_res (kv_tail C (tx_reader B t) child) (\<lambda>child_tail.
             if child_tail \<noteq> None then Inl (VersionConflict child NoStream (map_option tail_version child_tail))
             else
               bind_res (map_err Encoding (json_fork C \<lparr>fork_stream = parent, fork_at_version = at_version\<rparr>)) (\<lambda>b1.
               bind_res (map_err Backend (tx_put B t (m_key child ''fork'') b1)) (\<lambda>t1.
               bind_res (map_err Encoding (json_tail C \<lparr>tail_version = at_version, tail_ts_ms = tail_ts_ms parent_tail\<rparr>)) (\<lambda>b2.
               bind_res (map_err Backend (tx_put B t1 (m_key child ''tail'') b2)) (\<lambda>t2.
               bind_res (map_err Backend (tx_put B t2 (m_key parent (forks_field child)) (to_be_bytes at_version))) (\<lambda>t3.
                 Inr ((), t3))))))))))"

definition trim ::
  "('s, 't) slatedb_ops \<Rightarrow> codec \<Rightarrow> 's env \<Rightarrow> 's \<Rightarrow> string \<Rightarrow> version \<Rightarrow> u64 \<Rightarrow> commit_info res \<times> 's" where
  "trim B C E s stream from_version txn =
     apfst (\<lambda>r. bind_res r (\<lambda>(tail, _). Inr (tail_commit_info tail))) (with_txn B E s (\<lambda>t.
       bind_res (kv_tail C (tx_reader B t) stream) (\<lambda>tail.
       bind_res (map_err Backend (tx_put B t (m_key stream (rollback_field from_version)) (to_be_bytes txn))) (\<lambda>t'.
         Inr (tail, t')))))"

definition trim_below ::
  "('s, 't) slatedb_ops \<Rightarrow> codec \<Rightarrow> 's env \<Rightarrow> 's \<Rightarrow> string \<Rightarrow> version \<Rightarrow> commit_info res \<times> 's" where
  "trim_below B C E s stream floor =
     apfst (\<lambda>r. bind_res r (\<lambda>(tail, _). Inr (tail_commit_info tail))) (with_txn B E s (\<lambda>t.
       bind_res (kv_tail C (tx_reader B t) stream) (\<lambda>tail.
       bind_res (get_be (tx_reader B t) (m_key stream ''trim'')) (\<lambda>old.
         let floor' = max (min floor (case tail of None \<Rightarrow> u64_max | Some r \<Rightarrow> add64 (tail_version r) 1))
                          (case old of None \<Rightarrow> 0 | Some f \<Rightarrow> f)
         in bind_res (map_err Backend (tx_put B t (m_key stream ''trim'') (to_be_bytes floor'))) (\<lambda>t'.
              Inr (tail, t'))))))"

definition CHUNK :: nat where
  "CHUNK = 1024"

definition purge_chunk :: "('s, 't) slatedb_ops \<Rightarrow> 's env \<Rightarrow> 's \<Rightarrow> bytes list \<Rightarrow> unit res \<times> 's" where
  "purge_chunk B E s keys =
     apfst (\<lambda>r. bind_res r (\<lambda>_. Inr ())) (with_txn B E s (\<lambda>t.
       bind_res (fold_res (\<lambda>t k. map_err Backend (tx_delete B t k)) t keys) (\<lambda>t'. Inr ((), t'))))"

text \<open>The loop of \<open>purge_below\<close>; \<open>k\<close> counts its transactions.\<close>

partial_function (option) purge_loop ::
  "('s, 't) slatedb_ops \<Rightarrow> (nat \<Rightarrow> 's env) \<Rightarrow> string \<Rightarrow> version \<Rightarrow> nat \<Rightarrow> version \<Rightarrow> u64 \<Rightarrow> 's \<Rightarrow> (u64 res \<times> 's) option" where
  "purge_loop B Es stream floor k nxt purged s =
     (if \<not> nxt < floor then Some (Inr purged, s)
      else case db_scan B s (r_prefix stream) (Included (fmt016 nxt), Excluded (fmt016 floor)) of
        Inl e \<Rightarrow> Some (Inl (Backend e), s)
      | Inr kvs \<Rightarrow>
         let keys = map fst (take CHUNK kvs) in
         if keys = [] then Some (Inr purged, s)
         else case version_suffix (last keys) of
           Inl e \<Rightarrow> Some (Inl e, s)
         | Inr last_v \<Rightarrow>
            (case fst (purge_chunk B (Es k) s keys) of
               Inl e \<Rightarrow> Some (Inl e, snd (purge_chunk B (Es k) s keys))
             | Inr _ \<Rightarrow> purge_loop B Es stream floor (Suc k) (add64 last_v 1) (add64 purged (length keys))
                          (snd (purge_chunk B (Es k) s keys))))"

definition purge_below ::
  "('s, 't) slatedb_ops \<Rightarrow> (nat \<Rightarrow> 's env) \<Rightarrow> 's \<Rightarrow> string \<Rightarrow> version \<Rightarrow> (u64 res \<times> 's) option" where
  "purge_below B Es s stream floor =
     (case ceiling (db_reader B s) stream of
        Inl e \<Rightarrow> Some (Inl e, s)
      | Inr c \<Rightarrow> purge_loop B Es stream floor 0 (case c of None \<Rightarrow> 0 | Some c \<Rightarrow> add64 c 1) 0 s)"

definition delete_stream :: "('s, 't) slatedb_ops \<Rightarrow> codec \<Rightarrow> 's env \<Rightarrow> 's \<Rightarrow> string \<Rightarrow> unit res \<times> 's" where
  "delete_stream B C E s stream =
     (case bind_res (map_err Backend (db_begin B s)) (\<lambda>t.
           bind_res (kv_tail C (tx_reader B t) stream) (\<lambda>tail.
             if tail \<noteq> None then bind_res (map_err Backend (tx_put B t (m_key stream ''deleted'') [])) (\<lambda>t'. Inr (Some t'))
             else Inr None)) of
        Inl e \<Rightarrow> (Inl e, s)
      | Inr None \<Rightarrow> (Inr (), s)
      | Inr (Some t) \<Rightarrow> (case tx_commit B (others E s) t of
          (Inl e, s') \<Rightarrow> (Inl (Backend e), s')
        | (Inr _, s') \<Rightarrow> (Inr (), s')))"

section \<open>Reading\<close>

definition read_stream ::
  "('s, 't) slatedb_ops \<Rightarrow> codec \<Rightarrow> 's \<Rightarrow> string \<Rightarrow> version bound \<times> version bound \<Rightarrow> event list res" where
  "read_stream B C s stream rg = read_events C (db_reader B s) stream rg"

definition read_history ::
  "('s, 't) slatedb_ops \<Rightarrow> codec \<Rightarrow> 's \<Rightarrow> string \<Rightarrow> version bound \<times> version bound \<Rightarrow> event list res option" where
  "read_history B C s stream rg =
     (let (lo, hi) = bounds rg in resolve_history C (db_reader B s) stream [] lo hi)"

end
