(* ===== verification/Branch_Spec.thy ===== *)
theory Branch_Spec
  imports Branch
begin

text \<open>
  What a fork-resolved read returns. \<open>lineage\<close> is the specification: the inherited prefix of each
  ancestor up to the fork point, then the stream's own visible events. The recursion of
  \<open>resolve_history\<close> returns on every store, and on a store whose fork references descend (which
  the operations keep, \<open>forks_ok\<close>) it returns the lineage.
\<close>

definition fork_of :: "codec \<Rightarrow> kv_map \<Rightarrow> string \<Rightarrow> fork_ref option" where
  "fork_of C m s = (case m (m_key s ''fork'') of None \<Rightarrow> None
     | Some b \<Rightarrow> (case unjson_fork C b of Inl _ \<Rightarrow> None | Inr f \<Rightarrow> Some f))"

text \<open>The exclusive upper end of what a stream inherits.\<close>

definition pin_hi :: "fork_ref \<Rightarrow> version option \<Rightarrow> version" where
  "pin_hi f hi = (case hi of None \<Rightarrow> fork_at_version f + 1 | Some h \<Rightarrow> min h (fork_at_version f + 1))"

definition inherits :: "codec \<Rightarrow> kv_map \<Rightarrow> string \<Rightarrow> version \<Rightarrow> version option \<Rightarrow> fork_ref option" where
  "inherits C m s lo hi = (case fork_of C m s of None \<Rightarrow> None | Some f \<Rightarrow> if lo < pin_hi f hi then Some f else None)"

inductive lineage :: "codec \<Rightarrow> kv_map \<Rightarrow> string \<Rightarrow> version \<Rightarrow> version option \<Rightarrow> envelope list \<Rightarrow> bool"
  for C m where
  empty: "empty_range lo hi \<Longrightarrow> lineage C m s lo hi []"
| own: "\<not> empty_range lo hi \<Longrightarrow> inherits C m s lo hi = None \<Longrightarrow> lineage C m s lo hi (history C m s lo hi)"
| forked: "\<not> empty_range lo hi \<Longrightarrow> inherits C m s lo hi = Some f \<Longrightarrow>
    lineage C m (fork_stream f) lo (Some (pin_hi f hi)) es \<Longrightarrow> lineage C m s lo hi (es @ history C m s lo hi)"

inductive_cases lineage_E: "lineage C m s lo hi es"

text \<open>Fork references descend, and point into the history of their target.\<close>

definition descends :: "codec \<Rightarrow> kv_map \<Rightarrow> (string \<Rightarrow> nat) \<Rightarrow> bool" where
  "descends C m rank \<longleftrightarrow> (\<forall>s f. name_ok s \<longrightarrow> fork_of C m s = Some f \<longrightarrow> rank (fork_stream f) < rank s)"

definition forks_ok :: "codec \<Rightarrow> kv_map \<Rightarrow> bool" where
  "forks_ok C m \<longleftrightarrow> (\<exists>rank. descends C m rank) \<and>
     (\<forall>s f. name_ok s \<longrightarrow> fork_of C m s = Some f \<longrightarrow>
        (\<exists>t. current_version C m (fork_stream f) = Some t \<and> fork_at_version f \<le> t))"

lemma m_key_inj: "m_key s f = m_key s' f \<longleftrightarrow> s = s'"
  by (simp add: m_key_def)

lemma finite_forked:
  assumes "finite (dom m)" shows "finite {s. m (m_key s ''fork'') \<noteq> None}"
proof -
  have "(\<lambda>s. m_key s ''fork'') ` {s. m (m_key s ''fork'') \<noteq> None} \<subseteq> dom m" by auto
  then have "finite ((\<lambda>s. m_key s ''fork'') ` {s. m (m_key s ''fork'') \<noteq> None})" using assms finite_subset by blast
  then show ?thesis by (rule finite_imageD) (simp add: inj_on_def m_key_inj)
qed

lemma resolve_returns:
  assumes "serves r m"
  shows "\<exists>x. resolve_history C r s visited lo hi = Some x"
proof -
  let ?F = "{s. m (m_key s ''fork'') \<noteq> None}"
  have fin: "finite ?F" using assms finite_forked serves_finite by blast
  show ?thesis
  proof (induction "card (?F - set visited)" arbitrary: s visited lo hi rule: less_induct)
    case less
    show ?case
    proof (cases "kv_fork_ref C r s")
      case (Inr fork)
      have IH: "\<exists>x. resolve_history C r (fork_stream f) (s # visited) lo (Some h) = Some x"
        if "fork = Some f" "s \<notin> set visited" for f h
      proof (rule less)
        have "s \<in> ?F" using Inr that(1) assms by (auto simp: kv_fork_ref_def get_json_def split: option.splits)
        with that(2) have "?F - set (s # visited) \<subset> ?F - set visited" by auto
        then show "card (?F - set (s # visited)) < card (?F - set visited)" using fin by (intro psubset_card_mono) auto
      qed
      show ?thesis
      proof (cases fork)
        case (Some f)
        with IH [OF Some, of "parent_hi f hi"] Inr show ?thesis
          by (subst resolve_history.simps) (auto split: if_splits)
      qed (use Inr in \<open>subst resolve_history.simps; simp\<close>)
    qed (subst resolve_history.simps; simp)
  qed
qed

lemma kv_fork_ref_of:
  assumes "serves r m" "wf_db C m" "name_ok s"
  shows "kv_fork_ref C r s = Inr (fork_of C m s)"
proof (cases "m (m_key s ''fork'')")
  case (Some b)
  with wf_db_field [OF assms(2,3) Some] obtain f where "unjson_fork C b = Inr f" by (auto simp: wf_field_def)
  with Some assms(1) show ?thesis by (simp add: kv_fork_ref_def get_json_def fork_of_def)
qed (simp add: kv_fork_ref_def get_json_def fork_of_def serves_get [OF assms(1)])

lemma fork_of_wf:
  assumes "wf_db C m" "name_ok s" "fork_of C m s = Some f"
  shows "name_ok (fork_stream f) \<and> fork_at_version f + 1 < VMAX"
proof -
  from assms(3) obtain b where b: "m (m_key s ''fork'') = Some b" "unjson_fork C b = Inr f"
    by (auto simp: fork_of_def split: option.splits sum.splits)
  with wf_db_field [OF assms(1,2) b(1)] show ?thesis by (auto simp: wf_field_def)
qed

lemma parent_hi_eq: "fork_at_version f + 1 < VMAX \<Longrightarrow> parent_hi f hi = pin_hi f hi"
  by (simp add: parent_hi_def pin_hi_def split: option.split)

lemma bounds_half_open [simp]: "bounds (half_open lo hi) = (lo, hi)"
  by (simp add: bounds_def half_open_def split: option.split)

lemma inherits_fork: "inherits C m s lo hi = Some f \<longleftrightarrow> fork_of C m s = Some f \<and> lo < pin_hi f hi"
  by (auto simp: inherits_def split: option.splits)

lemma resolve_step:
  assumes "serves r m" "wf_db C m" "name_ok s" "\<not> empty_range lo hi" "s \<notin> set visited" "lo < VMAX" "\<And>h. hi = Some h \<Longrightarrow> h < VMAX"
  shows "resolve_history C r s visited lo hi =
     (case inherits C m s lo hi of
        None \<Rightarrow> Some (Inr (map event_from_parts (history C m s lo hi)))
      | Some f \<Rightarrow> Option.bind (resolve_history C r (fork_stream f) (s # visited) lo (Some (pin_hi f hi)))
          (\<lambda>p. Some (bind_res p (\<lambda>es. Inr (es @ map event_from_parts (history C m s lo hi))))))"
proof -
  have r: "read_events C r s (half_open lo hi) = Inr (map event_from_parts (history C m s lo hi))"
    using assms(6,7) by (intro read_events_eq [OF assms(1-3)]) simp_all
  show ?thesis
  proof (cases "fork_of C m s")
    case (Some f)
    with fork_of_wf [OF assms(2,3) Some] have "parent_hi f hi = pin_hi f hi" by (simp add: parent_hi_eq)
    with Some r assms(4,5) show ?thesis
      by (subst resolve_history.simps) (simp add: kv_fork_ref_of [OF assms(1-3)] inherits_def)
  next
    case None
    with r assms(4,5) show ?thesis
      by (subst resolve_history.simps) (simp add: kv_fork_ref_of [OF assms(1-3)] inherits_def)
  qed
qed

lemma pin_hi_bound: "fork_at_version f + 1 < VMAX \<Longrightarrow> pin_hi f hi < VMAX"
  by (auto simp: pin_hi_def split: option.split)

lemma resolve_lineage:
  assumes "lineage C m s lo hi es" "serves r m" "wf_db C m" "name_ok s" "descends C m rank"
    "\<And>v. v \<in> set visited \<Longrightarrow> rank s < rank v" "lo < VMAX" "\<And>h. hi = Some h \<Longrightarrow> h < VMAX"
  shows "resolve_history C r s visited lo hi = Some (Inr (map event_from_parts es))"
  using assms(1,4,6-8)
proof (induction arbitrary: visited rule: lineage.induct)
  case (empty lo hi s)
  then show ?case by (subst resolve_history.simps) simp
next
  case (own lo hi s)
  have "s \<notin> set visited" using own.prems(2) by auto
  with own show ?case by (simp add: resolve_step [OF assms(2,3)])
next
  case (forked lo hi s f es)
  then have f: "fork_of C m s = Some f" by (simp add: inherits_fork)
  note wf = fork_of_wf [OF assms(3) forked.prems(1) f]
  have rank: "rank (fork_stream f) < rank s" using assms(5) f forked.prems(1) by (simp add: descends_def)
  have "resolve_history C r (fork_stream f) (s # visited) lo (Some (pin_hi f hi)) = Some (Inr (map event_from_parts es))"
    using wf forked.prems rank pin_hi_bound
    by (intro forked.IH) (auto intro: less_trans)
  moreover have "s \<notin> set visited" using forked.prems(2) by auto
  ultimately show ?case using forked by (simp add: resolve_step [OF assms(2,3)])
qed

lemma lineage_exists:
  assumes "descends C m rank" "wf_db C m" "name_ok s" shows "\<exists>es. lineage C m s lo hi es"
  using assms(3)
proof (induction "rank s" arbitrary: s hi rule: less_induct)
  case less
  show ?case
  proof (cases "empty_range lo hi")
    case True
    then show ?thesis using lineage.empty by blast
  next
    case False
    show ?thesis
    proof (cases "inherits C m s lo hi")
      case (Some f)
      then have f: "fork_of C m s = Some f" by (simp add: inherits_fork)
      then have "rank (fork_stream f) < rank s" "name_ok (fork_stream f)"
        using assms(1) less.prems fork_of_wf [OF assms(2) less.prems f] by (auto simp: descends_def)
      from less.hyps [OF this] obtain es where "lineage C m (fork_stream f) lo (Some (pin_hi f hi)) es" by blast
      with lineage.forked False Some show ?thesis by blast
    next
      case None
      with lineage.own False show ?thesis by blast
    qed
  qed
qed

lemma lineage_unique: "lineage C m s lo hi es \<Longrightarrow> lineage C m s lo hi es' \<Longrightarrow> es' = es"
proof (induction arbitrary: es' rule: lineage.induct)
  case (empty lo hi s)
  from empty(2,1) show ?case by (cases rule: lineage.cases) auto
next
  case (own lo hi s)
  from own(3,1,2) show ?case by (cases rule: lineage.cases) auto
next
  case (forked lo hi s f es)
  from forked.prems forked.hyps(1,2) forked.IH show ?case by (cases rule: lineage.cases) auto
qed

section \<open>Changing one field\<close>

lemma stored_put_field [simp]: "stored C (m(m_key s f := x)) s' v = stored C m s' v"
  by (simp add: stored_def)

lemma put_field_simps:
  assumes "name_ok s" "name_ok s'"
  shows "f \<noteq> ''tail'' \<Longrightarrow> tail_of C (m(m_key s f := x)) s' = tail_of C m s'"
    "f \<noteq> ''fork'' \<Longrightarrow> fork_of C (m(m_key s f := x)) s' = fork_of C m s'"
    "f \<noteq> ''trim'' \<Longrightarrow> floor_of (m(m_key s f := x)) s' = floor_of m s'"
    "f \<noteq> ''deleted'' \<Longrightarrow> is_deleted (m(m_key s f := x)) s' = is_deleted m s'"
    "f \<noteq> ''fence'' \<Longrightarrow> fence_of (m(m_key s f := x)) s' = fence_of m s'"
    "s' \<noteq> s \<Longrightarrow> windows (m(m_key s f := x)) s' = windows m s'"
    "s' \<noteq> s \<Longrightarrow> tail_of C (m(m_key s f := x)) s' = tail_of C m s'"
    "s' \<noteq> s \<Longrightarrow> fork_of C (m(m_key s f := x)) s' = fork_of C m s'"
    "s' \<noteq> s \<Longrightarrow> floor_of (m(m_key s f := x)) s' = floor_of m s'"
    "s' \<noteq> s \<Longrightarrow> is_deleted (m(m_key s f := x)) s' = is_deleted m s'"
  using assms
  by (simp_all add: tail_of_def fork_of_def floor_of_def is_deleted_def fence_of_def windows_def m_key_eq)

lemma windows_put:
  assumes "name_ok s" "name_ok s'" "\<And>v. rollback_field v \<noteq> f"
  shows "windows (m(m_key s f := x)) s' = windows m s'"
  using assms by (simp add: windows_def m_key_eq)

lemma current_version_put:
  assumes "name_ok s" "name_ok s'" "f \<noteq> ''tail'' \<or> s' \<noteq> s"
  shows "current_version C (m(m_key s f := x)) s' = current_version C m s'"
  using put_field_simps(1,7) [OF assms(1,2)] assms(3) by (auto simp: current_version_def)

lemma live_pins_put:
  assumes "name_ok s" "name_ok s'" "f \<noteq> ''deleted''" "s' \<noteq> s \<or> (\<forall>c. f \<noteq> forks_field c)"
  shows "live_pins (m(m_key s f := x)) s' = live_pins m s'"
proof -
  have "name_ok c \<and> (m(m_key s f := x)) (m_key s' (forks_field c)) = Some b \<and> \<not> is_deleted (m(m_key s f := x)) c \<longleftrightarrow>
      name_ok c \<and> m (m_key s' (forks_field c)) = Some b \<and> \<not> is_deleted m c" for c b
    using assms put_field_simps(4) [OF assms(1) _ assms(3)] by (auto simp: m_key_eq)
  then show ?thesis by (simp only: live_pins_def)
qed

lemma visible_cong:
  assumes "floor_of m' s = floor_of m s" "is_deleted m' s = is_deleted m s" "windows m' s = windows m s"
    "is_deleted m s \<Longrightarrow> live_pins m' s = live_pins m s"
  shows "visible m' s = visible m s"
  using assms by (auto simp: visible_def ceil_of_def fun_eq_iff)

lemma history_cong:
  assumes "\<And>v. stored C m' s v = stored C m s v" "visible m' s = visible m s"
  shows "history C m' s lo hi = history C m s lo hi"
  unfolding history_def by (rule pick_cong) (simp_all add: assms)

text \<open>A change that keeps the records and the guards of the streams and their fork references keeps every lineage.\<close>

lemma lineage_cong:
  assumes "lineage C m s lo hi es" "P s hi" "wf_db C m" "name_ok s"
    "\<And>s hi. name_ok s \<Longrightarrow> P s hi \<Longrightarrow> history C m' s lo hi = history C m s lo hi \<and> fork_of C m' s = fork_of C m s"
    "\<And>s hi f. name_ok s \<Longrightarrow> P s hi \<Longrightarrow> fork_of C m s = Some f \<Longrightarrow> P (fork_stream f) (Some (pin_hi f hi))"
  shows "lineage C m' s lo hi es"
  using assms(1,2,4) assms(5,6)
proof (induction rule: lineage.induct)
  case (empty lo hi s)
  then show ?case by (simp add: lineage.empty)
next
  case (own lo hi s)
  then have "inherits C m' s lo hi = None" by (simp add: inherits_def)
  with own lineage.own [of lo hi C m' s] show ?case by simp
next
  case (forked lo hi s f es)
  then have f: "fork_of C m s = Some f" by (simp add: inherits_fork)
  from forked have "inherits C m' s lo hi = Some f" by (simp add: inherits_def)
  moreover have "lineage C m' (fork_stream f) lo (Some (pin_hi f hi)) es"
    using forked.IH forked.prems f fork_of_wf [OF assms(3) forked.prems(2) f] by blast
  ultimately show ?case using forked lineage.forked [of lo hi C m' s f es] by simp
qed

end
