(* ===== verification/Forking.thy ===== *)
theory Forking
  imports Branch_Spec
begin

text \<open>
  Forking a stream: what the transaction writes, that the child reads as the parent's history up to
  the fork point, that parent and child do not see each other's later appends, and that fork
  references stay acyclic, so that the recursion of a fork-resolved read never meets its guard.
\<close>

definition fork_map :: "codec \<Rightarrow> kv_map \<Rightarrow> string \<Rightarrow> version \<Rightarrow> string \<Rightarrow> kv_map" where
  "fork_map C m parent at_version child =
     m(m_key child ''fork'' \<mapsto> projr (json_fork C \<lparr>fork_stream = parent, fork_at_version = at_version\<rparr>),
       m_key child ''tail'' \<mapsto> projr (json_tail C \<lparr>tail_version = at_version, tail_ts_ms = last_ts C m parent\<rparr>),
       m_key parent (forks_field child) \<mapsto> to_be_bytes at_version)"

text \<open>A name with no record and no field.\<close>

definition fresh :: "codec \<Rightarrow> kv_map \<Rightarrow> string \<Rightarrow> bool" where
  "fresh C m s \<longleftrightarrow> (\<forall>f. m (m_key s f) = None) \<and> (\<forall>v. stored C m s v = None)"

definition fork_refusal :: "codec \<Rightarrow> kv_map \<Rightarrow> string \<Rightarrow> version \<Rightarrow> string \<Rightarrow> error option" where
  "fork_refusal C m parent at_version child =
     (case current_version C m parent of
        None \<Rightarrow> Some (InvalidInput (''parent '' @ quoted parent @ '' does not exist''))
      | Some v \<Rightarrow>
          if v < at_version then Some (InvalidInput (''parent '' @ quoted parent @ '' is at v'' @ show_nat v @
               '', cannot fork at v'' @ show_nat at_version))
          else if current_version C m child \<noteq> None then Some (VersionConflict child NoStream (current_version C m child))
          else None)"

lemma stored_fork_map [simp]: "stored C (fork_map C m parent at_version child) s v = stored C m s v"
  by (simp add: fork_map_def)

lemma fork_map_guards:
  assumes "name_ok parent" "name_ok child" "name_ok s"
  shows "floor_of (fork_map C m parent at_version child) s = floor_of m s"
    "is_deleted (fork_map C m parent at_version child) s = is_deleted m s"
    "windows (fork_map C m parent at_version child) s = windows m s"
    "fence_of (fork_map C m parent at_version child) s = fence_of m s"
  using assms by (simp_all add: fork_map_def put_field_simps(3-5) windows_put)

lemma fork_map_visible:
  assumes "name_ok parent" "name_ok child" "name_ok s" "\<not> is_deleted m parent"
  shows "visible (fork_map C m parent at_version child) s = visible m s"
proof (rule visible_cong)
  assume "is_deleted m s"
  with assms(4) have "s \<noteq> parent" by blast
  with assms show "live_pins (fork_map C m parent at_version child) s = live_pins m s"
    by (simp add: fork_map_def live_pins_put)
qed (simp_all add: fork_map_guards assms)

lemma fork_map_history:
  assumes "name_ok parent" "name_ok child" "name_ok s" "\<not> is_deleted m parent"
  shows "history C (fork_map C m parent at_version child) s lo hi = history C m s lo hi"
  by (rule history_cong) (simp_all add: fork_map_visible [OF assms])

context serde_codec begin

lemma fork_inverse: "json_fork C f = Inr (projr (json_fork C f)) \<and> unjson_fork C (projr (json_fork C f)) = Inr f"
  using fork_codec [of f] by auto

lemma fork_map_fields:
  assumes "name_ok parent" "name_ok child" "name_ok s"
  shows "fork_of C (fork_map C m parent at_version child) s =
      (if s = child then Some \<lparr>fork_stream = parent, fork_at_version = at_version\<rparr> else fork_of C m s)"
    "tail_of C (fork_map C m parent at_version child) s =
      (if s = child then Some \<lparr>tail_version = at_version, tail_ts_ms = last_ts C m parent\<rparr> else tail_of C m s)"
  using assms fork_inverse tail_inverse by (auto simp: fork_map_def fork_of_def tail_of_def m_key_eq)

lemma fork_map_version:
  assumes "name_ok parent" "name_ok child" "name_ok s"
  shows "current_version C (fork_map C m parent at_version child) s = (if s = child then Some at_version else current_version C m s)"
  by (simp add: current_version_def fork_map_fields [OF assms])

lemma wf_fork_map:
  assumes "wf_db C m" "name_ok parent" "name_ok child" "at_version + 1 < VMAX"
  shows "wf_db C (fork_map C m parent at_version child)"
proof -
  have "wf_field C ''fork'' (projr (json_fork C \<lparr>fork_stream = parent, fork_at_version = at_version\<rparr>))"
    using fork_inverse assms(2,4) by (auto simp: wf_field_def)
  moreover have "wf_field C ''tail'' (projr (json_tail C \<lparr>tail_version = at_version, tail_ts_ms = last_ts C m parent\<rparr>))"
    using assms(4) by (intro wf_field_tail) simp
  moreover have "wf_field C (forks_field child) (to_be_bytes at_version)"
    using assms(3,4) by (auto simp: wf_field_def)
  ultimately show ?thesis
    using assms(1-3) unfolding fork_map_def by (intro wf_db_upd wf_entry_field) simp_all
qed

lemma forks_ok_fork:
  assumes "forks_ok C m" "wf_db C m" "name_ok parent" "name_ok child" "current_version C m parent = Some v" "at_version \<le> v"
    "current_version C m child = None"
  shows "forks_ok C (fork_map C m parent at_version child)"
proof -
  let ?m = "fork_map C m parent at_version child"
  obtain rank where rank: "descends C m rank" using assms(1) by (auto simp: forks_ok_def)
  have ne: "parent \<noteq> child" using assms(5,7) by auto
  have tgt: "fork_stream f \<noteq> child" if "name_ok s" "fork_of C m s = Some f" for s f
    using assms(1,7) that by (fastforce simp: forks_ok_def)
  have "descends C ?m (rank(child := Suc (rank parent)))"
    unfolding descends_def
    using rank ne tgt by (auto simp: fork_map_fields assms(3,4) descends_def)
  moreover have "\<exists>t. current_version C ?m (fork_stream f) = Some t \<and> fork_at_version f \<le> t"
    if "name_ok s" "fork_of C ?m s = Some f" for s f
  proof (cases "s = child")
    case True
    with that assms(3-6) ne show ?thesis by (auto simp: fork_map_fields fork_map_version)
  next
    case False
    with that assms(3,4) have f: "fork_of C m s = Some f" by (simp add: fork_map_fields)
    with tgt [OF that(1) f] assms(1,3,4) fork_of_wf [OF assms(2) that(1) f] that(1) show ?thesis
      by (simp add: fork_map_version forks_ok_def)
  qed
  ultimately show ?thesis unfolding forks_ok_def by blast
qed

lemma fork_lineage_parent:
  assumes "forks_ok C m" "wf_db C m" "name_ok parent" "name_ok child" "\<not> is_deleted m parent"
    "current_version C m child = None" "name_ok s" "s \<noteq> child" "lineage C m s lo hi es"
  shows "lineage C (fork_map C m parent at_version child) s lo hi es"
  using assms(9)
proof (rule lineage_cong [where P = "\<lambda>s hi. s \<noteq> child"])
  show "fork_stream f \<noteq> child" if "name_ok s" "fork_of C m s = Some f" for s f
    using assms(1,6) that by (fastforce simp: forks_ok_def)
qed (use assms in \<open>simp_all add: fork_map_history fork_map_fields\<close>)

lemma fork_lineage_child:
  assumes "forks_ok C m" "wf_db C m" "name_ok parent" "name_ok child" "\<not> is_deleted m parent"
    "current_version C m parent \<noteq> None" "fresh C m child" "lineage C m parent 0 (Some (at_version + 1)) es"
  shows "lineage C (fork_map C m parent at_version child) child 0 None es"
proof -
  let ?m = "fork_map C m parent at_version child" and ?f = "\<lparr>fork_stream = parent, fork_at_version = at_version\<rparr>"
  have tail: "current_version C m child = None" using assms(7) by (simp add: fresh_def current_version_def tail_of_def)
  with assms(6) have ne: "parent \<noteq> child" by auto
  have par: "lineage C ?m parent 0 (Some (at_version + 1)) es"
    by (rule fork_lineage_parent) (use assms tail ne in simp_all)
  have none: "history C ?m child 0 None = []"
    using assms(7) by (simp add: fork_map_history assms(3-5) history_def pick_def fresh_def)
  have "inherits C ?m child 0 None = Some ?f"
    using assms(3,4) by (simp add: inherits_def fork_map_fields pin_hi_def)
  with lineage.forked [of 0 None C ?m child ?f es] par none show ?thesis
    by (simp add: empty_range_def pin_hi_def)
qed

end

context event_store begin

lemma fork_eq:
  assumes "wf_db C (content s)" "name_ok parent" "name_ok child" "others E s = s"
  shows "case fork_refusal C (content s) parent at_version child of
      Some e \<Rightarrow> fork B C E s parent at_version child = (Inl e, s)
    | None \<Rightarrow> \<exists>s'. fork B C E s parent at_version child = (Inr (), s') \<and>
        content s' = fork_map C (content s) parent at_version child"
proof -
  let ?m = "content s" and ?f = "\<lparr>fork_stream = parent, fork_at_version = at_version\<rparr>"
  let ?t = "\<lparr>tail_version = at_version, tail_ts_ms = last_ts C ?m parent\<rparr>"
  have tails: "kv_tail C (tx_reader B t) st = Inr (tail_of C ?m st)" if "view t = ?m" "name_ok st" for t st
    using kv_tail_of [OF serves_tx] assms(1) that by metis
  show ?thesis
  proof (cases "fork_refusal C ?m parent at_version child")
    case (Some e)
    have "fork B C E s parent at_version child = (Inl e, s)"
      unfolding fork_def by (subst with_txn_err [where e = e])
        (use Some in \<open>auto simp: tails assms(2,3) fork_refusal_def current_version_def split: option.splits if_splits\<close>)
    with Some show ?thesis by simp
  next
    case None
    then obtain p where p: "tail_of C ?m parent = Some p" "at_version \<le> tail_version p" "tail_of C ?m child = None"
      by (auto simp: fork_refusal_def current_version_def split: option.splits if_splits)
    obtain b1 where b1: "json_fork C ?f = Inr b1" using fork_inverse by blast
    obtain b2 where b2: "json_tail C ?t = Inr b2" using tail_inverse by blast
    have ts: "tail_ts_ms p = last_ts C ?m parent" using p(1) by (simp add: last_ts_def)
    let ?body = "\<lambda>t. bind_res (kv_tail C (tx_reader B t) parent) (\<lambda>tail. case tail of
         None \<Rightarrow> Inl (InvalidInput (''parent '' @ quoted parent @ '' does not exist''))
       | Some parent_tail \<Rightarrow>
           if tail_version parent_tail < at_version then
             Inl (InvalidInput (''parent '' @ quoted parent @ '' is at v'' @ show_nat (tail_version parent_tail) @
               '', cannot fork at v'' @ show_nat at_version))
           else bind_res (kv_tail C (tx_reader B t) child) (\<lambda>child_tail.
             if child_tail \<noteq> None then Inl (VersionConflict child NoStream (map_option tail_version child_tail))
             else
               bind_res (map_err Encoding (json_fork C ?f)) (\<lambda>b1.
               bind_res (map_err Backend (tx_put B t (m_key child ''fork'') b1)) (\<lambda>t1.
               bind_res (map_err Encoding (json_tail C \<lparr>tail_version = at_version, tail_ts_ms = tail_ts_ms parent_tail\<rparr>)) (\<lambda>b2.
               bind_res (map_err Backend (tx_put B t1 (m_key child ''tail'') b2)) (\<lambda>t2.
               bind_res (map_err Backend (tx_put B t2 (m_key parent (forks_field child)) (to_be_bytes at_version))) (\<lambda>t3.
                 Inr ((), t3))))))))"
    have "\<exists>t'. ?body t = Inr ((), t') \<and> base t' = s \<and> view t' = fork_map C ?m parent at_version child"
      if t: "base t = s" "view t = ?m" for t
    proof -
      obtain t1 where t1: "tx_put B t (m_key child ''fork'') b1 = Inr t1" "base t1 = base t"
        "view t1 = (view t)(m_key child ''fork'' \<mapsto> b1)" using tx_putE by metis
      obtain t2 where t2: "tx_put B t1 (m_key child ''tail'') b2 = Inr t2" "base t2 = base t1"
        "view t2 = (view t1)(m_key child ''tail'' \<mapsto> b2)" using tx_putE by metis
      obtain t3 where t3: "tx_put B t2 (m_key parent (forks_field child)) (to_be_bytes at_version) = Inr t3" "base t3 = base t2"
        "view t3 = (view t2)(m_key parent (forks_field child) \<mapsto> to_be_bytes at_version)" using tx_putE by metis
      show ?thesis
        using t t1 t2 t3 p b1 b2 ts by (simp add: tails assms(2,3) fork_map_def)
    qed
    then obtain h s' where "with_txn B E s ?body = (Inr ((), h), s')" "content s' = fork_map C ?m parent at_version child"
      by (rule with_txn_ok [OF assms(4)])
    with None show ?thesis by (simp add: fork_def)
  qed
qed

end

lemma pick_cong_on:
  assumes "\<And>v e. (stored C m' s v = Some e \<and> P' e) = (stored C m s v = Some e \<and> P e)"
    and fin: "finite {v. \<exists>e. stored C m s v = Some e \<and> P e}"
  shows "pick C m' s P' = pick C m s P"
proof -
  have "{v. \<exists>e. stored C m' s v = Some e \<and> P' e} = {v. \<exists>e. stored C m s v = Some e \<and> P e}" using assms(1) by auto
  moreover have "the (stored C m' s v) = the (stored C m s v)" if "\<exists>e. stored C m s v = Some e \<and> P e" for v
  proof -
    from that obtain e where e: "stored C m s v = Some e \<and> P e" by blast
    then have "stored C m' s v = Some e" using assms(1) [of v e] by blast
    with e show ?thesis by simp
  qed
  ultimately show ?thesis using fin by (simp add: pick_def cong: map_cong)
qed

context serde_codec begin

lemma history_append_below:
  assumes "wf_db C m" "name_ok s" "ulids_ok E" "append_room C m s None events" "events \<noteq> []" "h \<le> next_version C m s"
  shows "history C (append_map C E m s None idx events) s lo (Some h) = history C m s lo (Some h)"
  unfolding history_def
proof (rule pick_cong_on)
  have wf': "wf_db C (append_map C E m s None idx events)" by (rule wf_append_map) (use assms in simp_all)
  fix v e
  show "(stored C (append_map C E m s None idx events) s v = Some e \<and>
      visible (append_map C E m s None idx events) s e \<and> in_window lo (Some h) (env_version e)) =
    (stored C m s v = Some e \<and> visible m s e \<and> in_window lo (Some h) (env_version e))"
    using assms stored_version [OF assms(1,2), of v e] stored_version [OF wf' assms(2), of v e]
    by (auto simp: append_map_stored append_map_guards append_start_def in_window_def split: if_splits)
qed (rule finite_stored [OF assms(1,2)])

lemma append_map_fork_of:
  assumes "name_ok s" "name_ok s'"
  shows "fork_of C (append_map C E m s from_version idx events) s' = fork_of C m s'"
  using assms by (simp add: fork_of_def append_map_field)

lemma next_version_above: "current_version C m s = Some t \<Longrightarrow> next_version C m s = t + 1"
  by (simp add: next_version_def)

lemma lineage_append:
  assumes "forks_ok C m" "wf_db C m" "name_ok p" "ulids_ok E" "append_room C m p None events" "events \<noteq> []"
    "name_ok s" "lineage C m s lo hi es" "s \<noteq> p \<or> (\<exists>h. hi = Some h \<and> h \<le> next_version C m p)"
  shows "lineage C (append_map C E m p None idx events) s lo hi es"
  using assms(8)
proof (rule lineage_cong [where P = "\<lambda>s hi. s \<noteq> p \<or> (\<exists>h. hi = Some h \<and> h \<le> next_version C m p)"])
  fix s hi assume s: "name_ok s" "s \<noteq> p \<or> (\<exists>h. hi = Some h \<and> h \<le> next_version C m p)"
  show "history C (append_map C E m p None idx events) s lo hi = history C m s lo hi \<and>
      fork_of C (append_map C E m p None idx events) s = fork_of C m s"
  proof (cases "s = p")
    case True
    with s(2) assms show ?thesis by (auto simp: history_append_below append_map_fork_of)
  next
    case False
    with s(1) assms(2-6) show ?thesis
      by (simp add: append_map_fork_of history_append_other)
  qed
next
  fix s hi f assume f: "name_ok s" "fork_of C m s = Some f"
  with assms(1) obtain t where "current_version C m (fork_stream f) = Some t" "fork_at_version f \<le> t"
    by (auto simp: forks_ok_def)
  then have "fork_stream f = p \<longrightarrow> pin_hi f hi \<le> next_version C m p"
    by (auto simp: next_version_above pin_hi_def split: option.split)
  then show "fork_stream f \<noteq> p \<or> (\<exists>h. Some (pin_hi f hi) = Some h \<and> h \<le> next_version C m p)" by simp
qed (use assms in simp_all)

lemma forks_ok_append:
  assumes "forks_ok C m" "wf_db C m" "name_ok p" "events \<noteq> []"
  shows "forks_ok C (append_map C E m p None idx events)"
proof -
  let ?m = "append_map C E m p None idx events"
  obtain rank where "descends C m rank" using assms(1) by (auto simp: forks_ok_def)
  then have "descends C ?m rank" using assms(3) by (simp add: descends_def append_map_fork_of)
  moreover have "\<exists>t. current_version C ?m (fork_stream f) = Some t \<and> fork_at_version f \<le> t"
    if s: "name_ok s" "fork_of C ?m s = Some f" for s f
  proof -
    have f: "fork_of C m s = Some f" using s assms(3) by (simp add: append_map_fork_of)
    then obtain t where t: "current_version C m (fork_stream f) = Some t" "fork_at_version f \<le> t"
      using assms(1) s(1) by (auto simp: forks_ok_def)
    show ?thesis
    proof (cases "fork_stream f = p")
      case True
      have "1 \<le> length events" using assms(4) by (cases events) auto
      with True t assms(3,4) show ?thesis by (simp add: append_map_version next_version_above)
    next
      case False
      with t assms(3) fork_of_wf [OF assms(2) s(1) f] have "current_version C ?m (fork_stream f) = Some t"
        by (simp add: current_version_def append_map_tail_other)
      with t(2) show ?thesis by simp
    qed
  qed
  ultimately show ?thesis unfolding forks_ok_def by blast
qed

end

context event_store begin

lemma read_history_lineage:
  assumes "forks_ok C (content s)" "wf_db C (content s)" "name_ok stream" "bounds rg = (lo, hi)" "lo < VMAX"
    "\<And>h. hi = Some h \<Longrightarrow> h < VMAX" "lineage C (content s) stream lo hi es"
  shows "read_history B C s stream rg = Some (Inr (map event_from_parts es))"
proof -
  obtain rank where "descends C (content s) rank" using assms(1) by (auto simp: forks_ok_def)
  from resolve_lineage [OF assms(7) serves_db assms(2,3) this, of "[]"] assms(4-6) show ?thesis
    by (simp add: read_history_def)
qed

lemma lineage_of:
  assumes "forks_ok C (content s)" "wf_db C (content s)" "name_ok stream"
  obtains es where "lineage C (content s) stream lo hi es"
proof -
  obtain rank where "descends C (content s) rank" using assms(1) by (auto simp: forks_ok_def)
  from lineage_exists [OF this assms(2,3)] that show ?thesis by blast
qed

end

section \<open>Properties\<close>

text \<open>C34: a fork-resolved read returns on every store, also on one whose fork references were tampered with.\<close>

theorem read_history_returns:
  assumes "slatedb B content writes base"
  shows "\<exists>r. read_history B C s stream rg = Some r"
  using resolve_returns [OF slatedb.serves_db [OF assms]] by (auto simp: read_history_def split: prod.split)

theorem read_history_returns_witness:
  "\<exists>r. read_history mem_ops mem_codec ([(m_key ''a'' ''fork'', show_fork \<lparr>fork_stream = ''a'', fork_at_version = 3\<rparr>)], 0) ''a''
     (Unbounded, Unbounded) = Some r"
  by (rule read_history_returns [OF mem.slatedb_axioms])


lemma fresh_empty [simp]: "fresh C Map.empty s"
  by (simp add: fresh_def)

lemma forks_ok_empty [simp]: "forks_ok C Map.empty"
  by (simp add: forks_ok_def descends_def fork_of_def)

text \<open>A store with one event in the stream \<open>a\<close>.\<close>

definition example_db :: mem_db where
  "example_db = snd (append_event mem_ops mem_codec mem_env mem_empty ''a'' NoStream [one_event])"

lemma example_db_content: "mem_content example_db = append_map mem_codec (mem_env 0) Map.empty ''a'' None True [one_event]"
proof -
  from mem_store.commit_appends_quiet [of "[one_event]" mem_empty "''a''" mem_env None NoStream None True]
  show ?thesis by (auto simp: refusal_def example_db_def append_event_def append_lazy_def)
qed

lemma example_db_ok [simp]:
  "wf_db mem_codec (mem_content example_db)" "forks_ok mem_codec (mem_content example_db)"
  "current_version mem_codec (mem_content example_db) ''a'' = Some 0" "current_version mem_codec (mem_content example_db) ''b'' = None"
  "is_deleted (mem_content example_db) ''a'' = False" "fresh mem_codec (mem_content example_db) ''b''"
  "next_version mem_codec (mem_content example_db) ''a'' = 1" "global_seq (mem_content example_db) = 1"
  unfolding example_db_content
  using mem_serde.wf_append_map [of Map.empty "''a''" "mem_env 0" None "[one_event]" True]
    mem_serde.forks_ok_append [of Map.empty "''a''" "[one_event]" "mem_env 0" True]
    mem_serde.append_map_version [of "''a''" "[one_event]" "mem_env 0" Map.empty True]
    mem_serde.append_map_next [of "''a''" "[one_event]" "mem_env 0" Map.empty True]
    append_map_tail_other [of "''a''" "''b''" mem_codec "mem_env 0" Map.empty None True "[one_event]"]
    append_map_seq [of mem_codec Map.empty "''a''" None "[one_event]" "mem_env 0" True]
  by (simp_all add: current_version_def mem_serde.append_map_guards is_deleted_def append_map_field fresh_def
      mem_serde.append_map_stored)


text \<open>C20: parent and child are isolated: on a store whose fork references are in order, an append to one stream
  changes the fork-resolved read of no other stream, of no child of it in particular, and keeps
  the references in order.\<close>

theorem fork_isolation:
  assumes store: "event_store B content writes base C" and inv: "forks_ok C (content s)" "wf_db C (content s)"
    and names: "name_ok stream" "name_ok other" "other \<noteq> stream" and ids: "ulids_ok (Es 0)" and quiet: "others (Es 0) s = s"
    and room: "append_room C (content s) stream None events"
    and ok: "append_event B C Es s stream expected events = (Inr info, s')"
  shows "read_history B C s' other (Unbounded, Unbounded) = read_history B C s other (Unbounded, Unbounded) \<and>
     forks_ok C (content s') \<and> wf_db C (content s')"
proof -
  have serde: "serde_codec C" using store by (simp add: event_store_def)
  have batch: "check_batch events = Inr ()"
    using ok by (cases "check_batch events") (auto simp: append_event_def append_lazy_def commit_appends_def)
  note q = event_store.commit_appends_quiet [OF store batch inv(2) names(1), where Es = Es and from_version = None and
      expected = expected and token = None and idx = True]
  have ref: "refusal C (content s) stream expected None events = None"
    using q ids room quiet ok
    by (cases "refusal C (content s) stream expected None events") (simp_all add: append_event_def append_lazy_def)
  then have ne: "events \<noteq> []" by (auto simp: refusal_def split: if_splits)
  from ref q ids room quiet ok have m: "content s' = append_map C (Es 0) (content s) stream None True events"
    by (auto simp: append_event_def append_lazy_def)
  have inv': "forks_ok C (content s')" "wf_db C (content s')"
    unfolding m using inv names(1) ids room ne
    by (auto intro: serde_codec.forks_ok_append [OF serde] serde_codec.wf_append_map [OF serde])
  obtain ls where ls: "lineage C (content s) other 0 None ls" by (rule event_store.lineage_of [OF store inv names(2)])
  then have "lineage C (content s') other 0 None ls"
    unfolding m using inv names ids room ne by (intro serde_codec.lineage_append [OF serde]) auto
  with event_store.read_history_lineage [OF store inv' names(2), of "(Unbounded, Unbounded)" 0 None ls]
    event_store.read_history_lineage [OF store inv names(2), of "(Unbounded, Unbounded)" 0 None ls] ls inv' show ?thesis
    by (simp add: bounds_def)
qed

theorem fork_isolation_witness:
  "\<exists>info s'. append_event mem_ops mem_codec mem_env example_db ''a'' Any [one_event] = (Inr info, s') \<and>
     read_history mem_ops mem_codec s' ''b'' (Unbounded, Unbounded) =
       read_history mem_ops mem_codec example_db ''b'' (Unbounded, Unbounded)"
proof -
  have room: "append_room mem_codec (mem_content example_db) ''a'' None [one_event]"
    by (simp add: append_room_def append_start_def)
  from mem_store.commit_appends_quiet [of "[one_event]" example_db "''a''" mem_env None Any None True] room
  obtain info s' where c: "append_event mem_ops mem_codec mem_env example_db ''a'' Any [one_event] = (Inr info, s')"
    by (auto simp: refusal_def append_event_def append_lazy_def)
  from fork_isolation [OF mem_store.event_store_axioms _ _ _ _ _ _ _ room c, of "''b''"] c show ?thesis by auto
qed

text \<open>C3: a fork-resolved read refines the lineage: on a well-formed store whose fork references are in order
  (each points into the history of a stream that exists, and none goes round a cycle) it returns, for
  every range, the one list of the visible events of the ancestors up to each fork point followed by
  the stream's own.\<close>

theorem read_history_refines_lineage:
  assumes store: "event_store B content writes base C" and inv: "forks_ok C (content s)" "wf_db C (content s)"
    and name: "name_ok stream" and range: "bounds rg = (lo, hi)" "lo < VMAX" "\<And>h. hi = Some h \<Longrightarrow> h < VMAX"
  shows "(\<exists>!es. lineage C (content s) stream lo hi es) \<and>
    (\<exists>es. lineage C (content s) stream lo hi es \<and> read_history B C s stream rg = Some (Inr (map event_from_parts es)))"
proof -
  obtain es where es: "lineage C (content s) stream lo hi es" by (rule event_store.lineage_of [OF store inv name])
  moreover from event_store.read_history_lineage [OF store inv name range es]
  have "read_history B C s stream rg = Some (Inr (map event_from_parts es))" .
  ultimately show ?thesis using lineage_unique by blast
qed

theorem read_history_refines_lineage_witness:
  "\<exists>es. read_history mem_ops mem_codec example_db ''a'' (Unbounded, Unbounded) = Some (Inr (map event_from_parts es)) \<and>
     lineage mem_codec (mem_content example_db) ''a'' 0 None es"
  using read_history_refines_lineage [OF mem_store.event_store_axioms, of example_db "''a''" "(Unbounded, Unbounded)" 0 None]
  by (auto simp: bounds_def)

text \<open>A fork is refused exactly when the parent does not exist, does not have the version, or the child
  exists, each with its error, and then the store is unchanged.\<close>

theorem fork_refused:
  assumes "event_store B content writes base C" "wf_db C (content s)" "name_ok parent" "name_ok child" "others E s = s"
  shows "case current_version C (content s) parent of
      None \<Rightarrow> fork B C E s parent at_version child = (Inl (InvalidInput (''parent '' @ quoted parent @ '' does not exist'')), s)
    | Some v \<Rightarrow>
        if v < at_version then \<exists>w. fork B C E s parent at_version child = (Inl (InvalidInput w), s)
        else (case current_version C (content s) child of
            Some c \<Rightarrow> fork B C E s parent at_version child = (Inl (VersionConflict child NoStream (Some c)), s)
          | None \<Rightarrow> \<exists>s'. fork B C E s parent at_version child = (Inr (), s'))"
  using event_store.fork_eq [OF assms, of at_version] by (auto simp: fork_refusal_def split: option.splits if_splits)

theorem fork_refused_witness:
  "fork mem_ops mem_codec (mem_env 0) example_db ''a'' 0 ''a'' = (Inl (VersionConflict ''a'' NoStream (Some 0)), example_db)"
  using fork_refused [OF mem_store.event_store_axioms, of example_db "''a''" "''a''" "mem_env 0" 0] by simp

end
