(* ===== verification/Retention.thy ===== *)
theory Retention
  imports Forking
begin

text \<open>
  Operations that hide or remove events: the trim floor, rollback windows, purging in chunks and
  logical deletion, each with what its transaction writes and what readers see afterwards.
\<close>

section \<open>One field at a time\<close>

definition trim_floor :: "codec \<Rightarrow> kv_map \<Rightarrow> string \<Rightarrow> version \<Rightarrow> version" where
  "trim_floor C m s n = max (min n (case current_version C m s of None \<Rightarrow> u64_max | Some v \<Rightarrow> v + 1)) (floor_of m s)"

context event_store begin

lemma trim_eq:
  assumes "wf_db C (content s)" "name_ok stream" "others E s = s"
  obtains s' where "trim B C E s stream from_version txn = (Inr (tail_commit_info (tail_of C (content s) stream)), s')"
    "content s' = (content s)(m_key stream (rollback_field from_version) \<mapsto> to_be_bytes txn)"
proof -
  let ?body = "\<lambda>t. bind_res (kv_tail C (tx_reader B t) stream) (\<lambda>tail.
       bind_res (map_err Backend (tx_put B t (m_key stream (rollback_field from_version)) (to_be_bytes txn))) (\<lambda>t'. Inr (tail, t')))"
  have "\<exists>t'. ?body t = Inr (tail_of C (content s) stream, t') \<and> base t' = s \<and>
      view t' = (content s)(m_key stream (rollback_field from_version) \<mapsto> to_be_bytes txn)"
    if t: "base t = s" "view t = content s" for t
  proof -
    obtain t' where "tx_put B t (m_key stream (rollback_field from_version)) (to_be_bytes txn) = Inr t'" "base t' = base t"
      "view t' = (view t)(m_key stream (rollback_field from_version) \<mapsto> to_be_bytes txn)" using tx_putE by metis
    moreover have "kv_tail C (tx_reader B t) stream = Inr (tail_of C (content s) stream)"
      using kv_tail_of [OF serves_tx] assms(1,2) t by metis
    ultimately show ?thesis using t by simp
  qed
  then obtain h s' where "with_txn B E s ?body = (Inr (tail_of C (content s) stream, h), s')"
    "content s' = (content s)(m_key stream (rollback_field from_version) \<mapsto> to_be_bytes txn)"
    by (rule with_txn_ok [OF assms(3)])
  with that show ?thesis by (simp add: trim_def)
qed

lemma trim_below_eq:
  assumes "wf_db C (content s)" "name_ok stream" "others E s = s"
  obtains s' where "trim_below B C E s stream n = (Inr (tail_commit_info (tail_of C (content s) stream)), s')"
    "content s' = (content s)(m_key stream ''trim'' \<mapsto> to_be_bytes (trim_floor C (content s) stream n))"
proof -
  let ?body = "\<lambda>t. bind_res (kv_tail C (tx_reader B t) stream) (\<lambda>tail.
       bind_res (get_be (tx_reader B t) (m_key stream ''trim'')) (\<lambda>old.
         let floor' = max (min n (case tail of None \<Rightarrow> u64_max | Some r \<Rightarrow> add64 (tail_version r) 1))
                          (case old of None \<Rightarrow> 0 | Some f \<Rightarrow> f)
         in bind_res (map_err Backend (tx_put B t (m_key stream ''trim'') (to_be_bytes floor'))) (\<lambda>t'. Inr (tail, t'))))"
  have "\<exists>t'. ?body t = Inr (tail_of C (content s) stream, t') \<and> base t' = s \<and>
      view t' = (content s)(m_key stream ''trim'' \<mapsto> to_be_bytes (trim_floor C (content s) stream n))"
    if t: "base t = s" "view t = content s" for t
  proof -
    obtain t' where t': "tx_put B t (m_key stream ''trim'') (to_be_bytes (trim_floor C (content s) stream n)) = Inr t'" "base t' = base t"
      "view t' = (view t)(m_key stream ''trim'' \<mapsto> to_be_bytes (trim_floor C (content s) stream n))" using tx_putE by metis
    have k: "kv_tail C (tx_reader B t) stream = Inr (tail_of C (content s) stream)"
      using kv_tail_of [OF serves_tx] assms(1,2) t by metis
    have g: "get_be (tx_reader B t) (m_key stream ''trim'') = Inr (map_option be_u64 (content s (m_key stream ''trim'')))"
      using get_be_eq [OF serves_tx] t(2) by metis
    have "max (min n (case tail_of C (content s) stream of None \<Rightarrow> u64_max | Some r \<Rightarrow> add64 (tail_version r) 1))
        (case map_option be_u64 (content s (m_key stream ''trim'')) of None \<Rightarrow> 0 | Some f \<Rightarrow> f) = trim_floor C (content s) stream n"
      using tail_of_bound [OF assms(1,2)]
      by (auto simp: trim_floor_def current_version_def floor_of_def split: option.split)
    then show ?thesis unfolding k g bind_res_Inr Let_def using t' t by simp
  qed
  then obtain h s' where "with_txn B E s ?body = (Inr (tail_of C (content s) stream, h), s')"
    "content s' = (content s)(m_key stream ''trim'' \<mapsto> to_be_bytes (trim_floor C (content s) stream n))"
    by (rule with_txn_ok [OF assms(3)])
  with that show ?thesis by (simp add: trim_below_def Let_def)
qed

lemma delete_stream_eq:
  assumes "wf_db C (content s)" "name_ok stream" "others E s = s"
  shows "if current_version C (content s) stream = None then delete_stream B C E s stream = (Inr (), s)
    else \<exists>s'. delete_stream B C E s stream = (Inr (), s') \<and> content s' = (content s)(m_key stream ''deleted'' \<mapsto> [])"
proof -
  obtain t where t: "db_begin B s = Inr t" "base t = s" "view t = content s" using tx_beginE by metis
  have k: "kv_tail C (tx_reader B t) stream = Inr (tail_of C (content s) stream)"
    using kv_tail_of [OF serves_tx] assms(1,2) t by metis
  obtain t' where t': "tx_put B t (m_key stream ''deleted'') [] = Inr t'" "base t' = base t"
    "view t' = (view t)(m_key stream ''deleted'' \<mapsto> [])" using tx_putE by metis
  obtain h s' where "tx_commit B s t' = (Inr h, s')" "content s' = view t'"
    using quiet_commitE [of t' s] t'(2) t(2) by metis
  with t t' k assms(3) show ?thesis
    by (cases "tail_of C (content s) stream") (simp_all add: delete_stream_def current_version_def)
qed

end

text \<open>What readers see after a change of one guard field.\<close>

lemma history_put_guard:
  assumes "name_ok s" "name_ok s'" "s' \<noteq> s" "\<And>c. f \<noteq> forks_field c" "f \<noteq> ''deleted''"
  shows "history C (m(m_key s f := x)) s' lo hi = history C m s' lo hi"
proof (rule history_cong)
  show "visible (m(m_key s f := x)) s' = visible m s'"
    by (rule visible_cong) (use assms in \<open>simp_all add: put_field_simps live_pins_put\<close>)
qed simp

lemma history_pick_filter:
  assumes "wf_db C m" "name_ok s" "\<And>v. stored C m' s v = stored C m s v"
    "\<And>e. visible m' s e = (visible m s e \<and> Q e)"
  shows "history C m' s lo hi = filter Q (history C m s lo hi)"
  unfolding history_def filter_pick [OF assms(1,2)]
  by (rule pick_cong) (use assms(3,4) in auto)

lemma history_trim:
  assumes "wf_db C m" "name_ok s" "floor_of m s \<le> n" "n < 2 ^ 64"
  shows "history C (m(m_key s ''trim'' \<mapsto> to_be_bytes n)) s lo hi = filter (\<lambda>e. n \<le> env_version e) (history C m s lo hi)"
proof (rule history_pick_filter [OF assms(1,2)])
  let ?m = "m(m_key s ''trim'' \<mapsto> to_be_bytes n)"
  have "is_deleted ?m s = is_deleted m s" "windows ?m s = windows m s" "live_pins ?m s = live_pins m s"
    using assms(2) put_field_simps(4) windows_put live_pins_put by simp_all
  moreover have "floor_of ?m s = n" using assms(4) by (simp add: floor_of_def)
  ultimately show "visible ?m s e = (visible m s e \<and> n \<le> env_version e)" for e
    using assms(3) by (auto simp: visible_def ceil_of_def)
qed simp

lemma history_rollback:
  assumes "wf_db C m" "name_ok s" "from < VMAX" "m (m_key s (rollback_field from)) = None" "txn < 2 ^ 64"
  shows "history C (m(m_key s (rollback_field from) \<mapsto> to_be_bytes txn)) s lo hi =
     filter (\<lambda>e. \<not> (from \<le> env_version e \<and> txn < env_seq e)) (history C m s lo hi)"
proof (rule history_pick_filter [OF assms(1,2)])
  let ?m = "m(m_key s (rollback_field from) \<mapsto> to_be_bytes txn)"
  have "windows ?m s = insert (from, txn) (windows m s)"
    using assms(2-5) by (auto simp: windows_def m_key_eq rollback_field_eq)
  moreover have "is_deleted ?m s = is_deleted m s" "floor_of ?m s = floor_of m s" "live_pins ?m s = live_pins m s"
    using assms(2) put_field_simps(3,4) live_pins_put by simp_all
  ultimately show "visible ?m s e = (visible m s e \<and> \<not> (from \<le> env_version e \<and> txn < env_seq e))" for e
    by (auto simp: visible_def ceil_of_def)
qed simp

lemma history_delete:
  assumes "wf_db C m" "name_ok s" "m (m_key s (forks_field s)) = None" "\<not> is_deleted m s"
  shows "history C (m(m_key s ''deleted'' \<mapsto> [])) s lo hi =
     filter (\<lambda>e. \<exists>c. ceil_of m s = Some c \<and> env_version e \<le> c) (history C m s lo hi)"
proof (rule history_pick_filter [OF assms(1,2)])
  let ?m = "m(m_key s ''deleted'' \<mapsto> [])"
  have "name_ok c \<and> ?m (m_key s (forks_field c)) = Some b \<and> \<not> is_deleted ?m c \<longleftrightarrow>
      name_ok c \<and> m (m_key s (forks_field c)) = Some b \<and> \<not> is_deleted m c" for c b
    using assms(2,3) put_field_simps(10) [of s c] by (cases "c = s") (auto simp: m_key_eq)
  then have "live_pins ?m s = live_pins m s" by (simp only: live_pins_def)
  moreover have "windows ?m s = windows m s" "floor_of ?m s = floor_of m s" "is_deleted ?m s"
    using assms(2) put_field_simps(3) windows_put by (simp_all add: is_deleted_def)
  ultimately show "visible ?m s e = (visible m s e \<and> (\<exists>c. ceil_of m s = Some c \<and> env_version e \<le> c))" for e
    using assms(4) by (auto simp: visible_def ceil_of_def)
qed simp

section \<open>Purging\<close>

definition purgeable :: "kv_map \<Rightarrow> string \<Rightarrow> version \<Rightarrow> version \<Rightarrow> version set" where
  "purgeable m s lo hi = {v. lo \<le> v \<and> v < hi \<and> m (r_key s v) \<noteq> None}"

definition without :: "kv_map \<Rightarrow> bytes set \<Rightarrow> kv_map" where
  "without m K = (\<lambda>k. if k \<in> K then None else m k)"

lemma finite_purgeable [simp]: "finite (purgeable m s lo hi)"
  by (rule finite_subset [of _ "{..<hi}"]) (auto simp: purgeable_def)

lemma scan_purgeable:
  assumes "wf_db C m" "name_ok s" "lo < hi" "hi < VMAX"
    "is_scan m (r_prefix s) (Included (fmt016 lo), Excluded (fmt016 hi)) kvs"
  shows "map fst kvs = map (r_key s) (sorted_list_of_set (purgeable m s lo hi))"
proof (rule strict_sorted_unique)
  let ?vs = "sorted_list_of_set (purgeable m s lo hi)"
  show "sorted_wrt (<) (map fst kvs)" using assms(5) by (simp add: is_scan_def)
  have below: "v < VMAX" if "v \<in> set ?vs" for v using that assms(4) by (simp add: purgeable_def)
  show "sorted_wrt (<) (map (r_key s) ?vs)"
    using below by (intro sorted_wrt_map_mono [of "(<)" ?vs]) (simp_all add: r_key_less)
  have rg: "in_range (Included (fmt016 lo), Excluded (fmt016 hi)) (fmt016 v) \<longleftrightarrow> lo \<le> v \<and> v < hi" if "v < VMAX" for v
    using that assms(3,4) by (simp add: in_range_def fmt016_le fmt016_less)
  show "set (map fst kvs) = set (map (r_key s) ?vs)"
  proof (intro set_eqI iffI)
    fix k assume "k \<in> set (map fst kvs)"
    then obtain b x where x: "k = r_prefix s @ x" "m k = Some b" "in_range (Included (fmt016 lo), Excluded (fmt016 hi)) x"
      using assms(5) by (auto simp: is_scan_def in_scan_set)
    from wf_db_record [OF assms(1,2)] x(1,2) obtain v where v: "v < VMAX" "x = fmt016 v" "k = r_key s v" by metis
    with x rg have "v \<in> purgeable m s lo hi" by (simp add: purgeable_def)
    with v(3) show "k \<in> set (map (r_key s) ?vs)" by simp
  next
    fix k assume "k \<in> set (map (r_key s) ?vs)"
    then obtain v b where v: "k = r_key s v" "lo \<le> v" "v < hi" "m k = Some b" by (auto simp: purgeable_def)
    then have "(k, b) \<in> set kvs" using assms(4,5) rg [of v] by (auto simp: is_scan_def in_scan_set r_key_prefix)
    then show "k \<in> set (map fst kvs)" by force
  qed
qed

lemma wf_db_without: "wf_db C m \<Longrightarrow> wf_db C (without m K)"
proof -
  assume wf: "wf_db C m"
  have "dom (without m K) \<subseteq> dom m" by (auto simp: without_def split: if_splits)
  with wf show ?thesis by (auto simp: wf_db_def without_def intro: finite_subset split: if_splits)
qed

context event_store begin

lemma purge_chunk_eq:
  assumes "others E s = s"
  obtains s' where "purge_chunk B E s keys = (Inr (), s')" "content s' = without (content s) (set keys)"
proof -
  have fold: "\<exists>t'. fold_res (\<lambda>t k. map_err Backend (tx_delete B t k)) t keys = Inr t' \<and> base t' = base t \<and>
      view t' = without (view t) (set keys)" for t
  proof (induction keys arbitrary: t)
    case (Cons k keys)
    obtain t1 where t1: "tx_delete B t k = Inr t1" "base t1 = base t" "view t1 = (view t)(k := None)" using tx_deleteE by metis
    from Cons [of t1] t1 show ?case by (auto simp: without_def fun_eq_iff)
  qed (simp add: without_def)
  let ?body = "\<lambda>t. bind_res (fold_res (\<lambda>t k. map_err Backend (tx_delete B t k)) t keys) (\<lambda>t'. Inr ((), t'))"
  have "\<exists>t'. ?body t = Inr ((), t') \<and> base t' = s \<and> view t' = without (content s) (set keys)"
    if "base t = s" "view t = content s" for t using fold [of t] that by auto
  then obtain h s' where "with_txn B E s ?body = (Inr ((), h), s')" "content s' = without (content s) (set keys)"
    by (rule with_txn_ok [OF assms])
  with that show ?thesis by (simp add: purge_chunk_def)
qed

text \<open>What is left to purge after a chunk.\<close>

lemma purgeable_rest:
  assumes "name_ok stream" "fl < VMAX" "sorted_list_of_set (purgeable m stream nxt fl) = ws @ ys" "ws \<noteq> []"
  shows "purgeable (without m (r_key stream ` set ws)) stream (last ws + 1) fl = set ys"
proof -
  let ?V = "purgeable m stream nxt fl"
  have srt: "sorted_wrt (<) (ws @ ys)" by (simp flip: assms(3))
  have vs: "set (ws @ ys) = ?V" by (simp flip: assms(3))
  have lb: "nxt \<le> last ws" "last ws < fl" using vs last_in_set [OF assms(4)] by (auto simp: purgeable_def)
  have "r_key stream v \<notin> r_key stream ` set ws" if v: "last ws < v" "v < fl" for v
  proof
    assume "r_key stream v \<in> r_key stream ` set ws"
    then obtain x where x: "x \<in> set ws" "r_key stream v = r_key stream x" by blast
    have "x \<le> last ws" using x(1) sorted_split_last(1) [OF srt assms(4)] by blast
    moreover have "x < fl" using x(1) vs by (auto simp: purgeable_def)
    ultimately show False using x(2) v assms(1,2) by (simp add: r_key_eq)
  qed
  then have "purgeable (without m (r_key stream ` set ws)) stream (last ws + 1) fl = {v \<in> ?V. last ws < v}"
    using lb by (auto simp: purgeable_def without_def)
  also have "\<dots> = set ys" using sorted_split_last(2) [OF srt assms(4), unfolded vs] by (rule sym)
  finally show ?thesis .
qed

lemma purge_loop_eq:
  assumes "\<And>k s. others (Es k) s = s" "name_ok stream" "fl < VMAX" "wf_db C (content s)"
    "purged + card (purgeable (content s) stream nxt fl) < 2 ^ 64"
  shows "\<exists>s'. purge_loop B Es stream fl k nxt purged s = Some (Inr (purged + card (purgeable (content s) stream nxt fl)), s') \<and>
     content s' = without (content s) (r_key stream ` purgeable (content s) stream nxt fl)"
  using assms(4,5)
proof (induction "fl - nxt" arbitrary: nxt purged s k rule: less_induct)
  case less
  let ?m = "content s" and ?V = "purgeable (content s) stream nxt fl"
  show ?case
  proof (cases "nxt < fl")
    case False
    then have "?V = {}" by (auto simp: purgeable_def)
    with False show ?thesis by (subst purge_loop.simps) (simp add: without_def)
  next
    case True
    obtain kvs where kvs: "db_scan B s (r_prefix stream) (Included (fmt016 nxt), Excluded (fmt016 fl)) = Inr kvs"
      "is_scan ?m (r_prefix stream) (Included (fmt016 nxt), Excluded (fmt016 fl)) kvs" using scan_law by blast
    let ?vs = "sorted_list_of_set ?V"
    define ws where "ws = take CHUNK ?vs"
    have keys: "map fst (take CHUNK kvs) = map (r_key stream) ws"
      using scan_purgeable [OF less.prems(1) assms(2) True assms(3) kvs(2)] by (simp add: ws_def flip: take_map)
    show ?thesis
    proof (cases "ws = []")
      case empty: True
      then have "?V = {}" by (simp add: ws_def CHUNK_def)
      with True kvs(1) keys empty show ?thesis by (subst purge_loop.simps) (simp add: without_def)
    next
      case False
      let ?last = "last ws"
      have ws_V: "set ws \<subseteq> ?V" by (metis finite_purgeable set_sorted_list_of_set set_take_subset ws_def)
      have last: "?last \<in> ?V" using False ws_V last_in_set by blast
      then have lb: "nxt \<le> ?last" "?last < fl" by (simp_all add: purgeable_def)
      have suffix: "version_suffix (r_key stream ?last) = Inr ?last"
        using lb(2) assms(3) by (simp add: r_key_prefix)
      obtain s1 where s1: "purge_chunk B (Es k) s (map (r_key stream) ws) = (Inr (), s1)"
        "content s1 = without ?m (set (map (r_key stream) ws))" using purge_chunk_eq [OF assms(1)] by metis
      define ys where "ys = drop CHUNK ?vs"
      have split: "?vs = ws @ ys" by (simp add: ws_def ys_def)
      have vs: "set (ws @ ys) = ?V" by (simp flip: split)
      have rest: "purgeable (content s1) stream (?last + 1) fl = set (ys)"
        using purgeable_rest [OF assms(2,3) split False] by (simp add: s1(2))
      have V: "?V = set ws \<union> set (ys)" using vs by simp
      have "distinct (ws @ ys)" by (simp flip: split)
      then have card: "card ?V = length ws + card (set (ys))"
        unfolding V by (subst card_Un_disjoint) (auto simp: distinct_card)
      have adds: "add64 ?last 1 = ?last + 1" "add64 purged (length ws) = purged + length ws"
        using lb assms(3) less.prems(2) card by simp_all
      obtain s' where s': "purge_loop B Es stream fl (Suc k) (?last + 1) (purged + length ws) s1 =
          Some (Inr (purged + length ws + card (set (ys))), s')"
        "content s' = without (content s1) (r_key stream ` set (ys))"
      proof -
        have "fl - (?last + 1) < fl - nxt" "wf_db C (content s1)" "purged + length ws + card (set ys) < 2 ^ 64"
          using lb wf_db_without [OF less.prems(1)] less.prems(2) card unfolding s1(2) by simp_all
        from less.hyps [OF this(1,2), of "purged + length ws" "Suc k", unfolded rest] this(3) that show ?thesis by blast
      qed
      have "content s' = without ?m (r_key stream ` ?V)"
        unfolding s'(2) s1(2) V by (auto simp: without_def fun_eq_iff)
      with s' card True kvs(1) keys False s1(1) suffix adds show ?thesis
        by (subst purge_loop.simps) (simp add: Let_def last_map add.assoc)
    qed
  qed
qed

end

definition pin_floor :: "kv_map \<Rightarrow> string \<Rightarrow> version" where
  "pin_floor m s = (case ceil_of m s of None \<Rightarrow> 0 | Some c \<Rightarrow> c + 1)"

lemma live_pins_finite:
  assumes "wf_db C m" shows "finite (live_pins m s)"
proof -
  have "live_pins m s \<subseteq> be_u64 ` ran m" by (auto simp: live_pins_def ran_def)
  then show ?thesis using finite_ran [OF wf_db_finite [OF assms]] finite_subset by blast
qed

lemma live_pins_bound:
  assumes "wf_db C m" "name_ok s" "c \<in> live_pins m s" shows "c < VMAX"
proof -
  from assms(3) obtain ch b where "name_ok ch" "m (m_key s (forks_field ch)) = Some b" "c = be_u64 b"
    by (auto simp: live_pins_def)
  with wf_db_field [OF assms(1,2), of "forks_field ch" b] show ?thesis by (auto simp: wf_field_def)
qed

lemma ceil_of_pins:
  assumes "wf_db C m" "name_ok s" "ceil_of m s = Some c"
  shows "c \<in> live_pins m s" "\<And>p. p \<in> live_pins m s \<Longrightarrow> p \<le> c" "c < VMAX"
proof -
  have ne: "live_pins m s \<noteq> {}" "c = Max (live_pins m s)" using assms(3) by (auto simp: ceil_of_def split: if_splits)
  then show c: "c \<in> live_pins m s" using live_pins_finite [OF assms(1)] by simp
  show "\<And>p. p \<in> live_pins m s \<Longrightarrow> p \<le> c" using ne(2) live_pins_finite [OF assms(1)] by simp
  show "c < VMAX" using c assms(1,2) live_pins_bound by blast
qed

text \<open>Ranges whose bounds fit the sixteen digits of a record key.\<close>

definition range_ok :: "version bound \<times> version bound \<Rightarrow> bool" where
  "range_ok rg \<longleftrightarrow> fst (bounds rg) < VMAX \<and> (\<forall>h. snd (bounds rg) = Some h \<longrightarrow> h < VMAX)"

lemma range_ok_all [simp]: "range_ok (Unbounded, Unbounded)"
  by (simp add: range_ok_def bounds_def)

lemma ev_version_parts [simp]: "ev_version (event_from_parts e) = env_version e"
  by (simp add: event_from_parts_def)

context event_store begin

lemma read_events_history:
  assumes "wf_db C (content s)" "name_ok st" "range_ok rg"
  shows "read_events C (db_reader B s) st rg =
     Inr (map event_from_parts (history C (content s) st (fst (bounds rg)) (snd (bounds rg))))"
  by (rule read_events_eq [OF serves_db assms(1,2)]) (use assms(3) in \<open>simp_all add: range_ok_def\<close>)

lemma purge_below_eq:
  assumes wf: "wf_db C (content s)" and name: "name_ok stream" and quiet: "\<And>k s. others (Es k) s = s" and bound: "n < VMAX"
  obtains s' where "purge_below B Es s stream n = Some (Inr (card (purgeable (content s) stream (pin_floor (content s) stream) n)), s')"
    "content s' = without (content s) (r_key stream ` purgeable (content s) stream (pin_floor (content s) stream) n)"
proof -
  let ?m = "content s" and ?lo = "pin_floor (content s) stream"
  let ?V = "purgeable ?m stream ?lo n"
  have lo: "(case ceil_of ?m stream of None \<Rightarrow> 0 | Some c \<Rightarrow> add64 c 1) = ?lo"
    using ceil_of_pins(3) [OF wf name] by (auto simp: pin_floor_def split: option.split)
  have "?V \<subseteq> {..<n}" by (auto simp: purgeable_def)
  from card_mono [OF _ this] have "card ?V \<le> n" by simp
  then have c64: "0 + card ?V < 2 ^ 64" using bound by simp
  from ceiling_eq [OF serves_db wf name] have ceil: "ceiling (db_reader B s) stream = Inr (ceil_of ?m stream)" .
  from purge_loop_eq [OF _ name bound wf c64, where k = 0 and Es = Es] quiet that show ?thesis
    by (auto simp: purge_below_def ceil lo)
qed

end

section \<open>Properties\<close>

text \<open>C4: purging deletes exactly the records of the stream below the floor and above the highest pin, the pins
  being the fork points of the direct children that carry no deleted marker, in however many bounded
  transactions it takes; it returns, its result is their number, and no other key of the store
  changes. A pin of a deleted child does not count, even where that child has a live fork of its own
  (\<open>purge_below_loses_grandchild\<close> below).\<close>

theorem purge_below_exact:
  assumes store: "event_store B content writes base C" and wf: "wf_db C (content s)" and name: "name_ok stream"
    and quiet: "\<And>k s. others (Es k) s = s" and bound: "n < VMAX"
  shows "\<exists>s'. purge_below B Es s stream n =
      Some (Inr (card (purgeable (content s) stream (pin_floor (content s) stream) n)), s') \<and>
    (\<forall>v < VMAX. stored C (content s') stream v =
       (if pin_floor (content s) stream \<le> v \<and> v < n then None else stored C (content s) stream v)) \<and>
    (\<forall>k. (\<forall>v. k \<noteq> r_key stream v) \<longrightarrow> content s' k = content s k) \<and>
    (\<forall>p \<in> live_pins (content s) stream. \<forall>v \<le> p. stored C (content s') stream v = stored C (content s) stream v) \<and>
    wf_db C (content s')"
proof -
  let ?m = "content s" and ?lo = "pin_floor (content s) stream"
  let ?V = "purgeable ?m stream ?lo n"
  have V: "?V \<subseteq> {..<n}" by (auto simp: purgeable_def)
  obtain s' where s': "purge_below B Es s stream n = Some (Inr (card ?V), s')" "content s' = without ?m (r_key stream ` ?V)"
    using event_store.purge_below_eq [OF store wf name quiet bound] .
  have inV: "r_key stream v \<in> r_key stream ` ?V \<longleftrightarrow> v \<in> ?V" if "v < VMAX" for v
  proof
    assume "r_key stream v \<in> r_key stream ` ?V"
    then obtain x where "x \<in> ?V" "r_key stream v = r_key stream x" by blast
    with V that bound name show "v \<in> ?V" using r_key_eq [OF name name that, of x] by auto
  qed simp
  have st: "stored C (content s') stream v = (if ?lo \<le> v \<and> v < n then None else stored C ?m stream v)" if "v < VMAX" for v
    using inV [OF that] by (auto simp: stored_def s'(2) without_def purgeable_def)
  have "stored C (content s') stream v = stored C ?m stream v" if p: "p \<in> live_pins ?m stream" "v \<le> p" for p v
  proof -
    have "ceil_of ?m stream \<noteq> None" using p(1) by (auto simp: ceil_of_def)
    then obtain c where c: "ceil_of ?m stream = Some c" by blast
    with ceil_of_pins [OF wf name c] p have "v < VMAX" "v < ?lo" by (auto simp: pin_floor_def intro: le_less_trans)
    with st show ?thesis by simp
  qed
  with s' st wf_db_without [OF wf, of "r_key stream ` ?V"] show ?thesis
    by (intro exI [of _ s']) (auto simp: without_def)
qed

theorem purge_below_exact_witness:
  "\<exists>s'. purge_below mem_ops mem_env example_db ''a'' 5 = Some (Inr (card (purgeable (mem_content example_db) ''a'' 0 5)), s') \<and>
     stored mem_codec (mem_content s') ''a'' 0 = None"
proof -
  have "live_pins (mem_content example_db) ''a'' = {}"
    unfolding example_db_content by (auto simp: live_pins_def append_map_field)
  then have "pin_floor (mem_content example_db) ''a'' = 0" by (simp add: pin_floor_def ceil_of_def)
  with purge_below_exact [OF mem_store.event_store_axioms, of example_db "''a''" mem_env 5] show ?thesis by auto
qed

text \<open>C36: a trim point on a stream that exists hides exactly the events below it: the floor is raised to the
  requested version, cut at the end of the existing history and never lowered; a read of any range
  then returns what it returned before less the events below the floor, no record is removed, other
  streams read as before, and the floor does not pass the next version to be appended.\<close>

theorem trim_below_hides:
  assumes store: "event_store B content writes base C" and wf: "wf_db C (content s)" and name: "name_ok stream"
    and quiet: "others E s = s" and ex: "current_version C (content s) stream = Some t" "t + 1 < VMAX"
  shows "\<exists>s' n'. trim_below B C E s stream n = (Inr (tail_commit_info (tail_of C (content s) stream)), s') \<and>
     n' = max (min n (t + 1)) (floor_of (content s) stream) \<and> floor_of (content s') stream = n' \<and> wf_db C (content s') \<and>
     (\<forall>rg. range_ok rg \<longrightarrow> (\<exists>es. read_events C (db_reader B s) stream rg = Inr es \<and>
        read_events C (db_reader B s') stream rg = Inr (filter (\<lambda>e. n' \<le> ev_version e) es))) \<and>
     (\<forall>st v. stored C (content s') st v = stored C (content s) st v) \<and>
     (\<forall>st rg. name_ok st \<longrightarrow> st \<noteq> stream \<longrightarrow> range_ok rg \<longrightarrow>
        read_events C (db_reader B s') st rg = read_events C (db_reader B s) st rg) \<and>
     (floor_of (content s) stream \<le> t + 1 \<longrightarrow> n' \<le> next_version C (content s') stream)"
proof -
  let ?m = "content s" and ?n = "max (min n (t + 1)) (floor_of (content s) stream)"
  have tf: "trim_floor C ?m stream n = ?n" by (simp add: trim_floor_def ex(1))
  obtain s' where s': "trim_below B C E s stream n = (Inr (tail_commit_info (tail_of C ?m stream)), s')"
    "content s' = ?m(m_key stream ''trim'' \<mapsto> to_be_bytes ?n)"
    using event_store.trim_below_eq [OF store wf name quiet, of n] unfolding tf by metis
  have b: "?n < VMAX" using ex(2) floor_bound [OF wf name] by auto
  then have b64: "?n < 2 ^ 64" by simp
  have fl: "floor_of (content s') stream = ?n" using b64 by (simp add: s'(2) floor_of_def)
  have wf': "wf_db C (content s')"
    unfolding s'(2) using wf name b by (intro wf_db_upd wf_entry_field) (simp_all add: wf_field_def)
  note rd = event_store.read_events_history [OF store wf] event_store.read_events_history [OF store wf']
  have "history C (content s') stream lo hi = filter (\<lambda>e. ?n \<le> env_version e) (history C ?m stream lo hi)" for lo hi
    unfolding s'(2) using b64 by (intro history_trim [OF wf name]) simp_all
  then have h: "\<exists>es. read_events C (db_reader B s) stream rg = Inr es \<and>
      read_events C (db_reader B s') stream rg = Inr (filter (\<lambda>e. ?n \<le> ev_version e) es)" if "range_ok rg" for rg
    using rd [OF name that] by (simp add: filter_map comp_def)
  have "history C (content s') st lo hi = history C ?m st lo hi" if "name_ok st" "st \<noteq> stream" for st lo hi
    unfolding s'(2) by (rule history_put_guard [OF name that]) simp_all
  then have ho: "read_events C (db_reader B s') st rg = read_events C (db_reader B s) st rg"
    if "name_ok st" "st \<noteq> stream" "range_ok rg" for st rg
    using that rd [OF that(1,3)] by simp
  have "next_version C (content s') stream = t + 1"
    using ex(1) name by (simp add: next_version_def s'(2) current_version_put)
  with s'(1) fl wf' h ho s'(2) show ?thesis by (intro exI [of _ s'] exI [of _ ?n]) simp
qed

theorem trim_below_hides_witness:
  "\<exists>s'. trim_below mem_ops mem_codec (mem_env 0) example_db ''a'' 9 =
     (Inr (tail_commit_info (tail_of mem_codec (mem_content example_db) ''a'')), s') \<and> floor_of (mem_content s') ''a'' = 1 \<and>
     (\<exists>es. read_events mem_codec (db_reader mem_ops example_db) ''a'' (Unbounded, Unbounded) = Inr es \<and>
        read_events mem_codec (db_reader mem_ops s') ''a'' (Unbounded, Unbounded) = Inr (filter (\<lambda>e. 1 \<le> ev_version e) es))"
proof -
  have "floor_of (mem_content example_db) ''a'' = 0"
    unfolding example_db_content by (simp add: append_map_field floor_of_def)
  with trim_below_hides [OF mem_store.event_store_axioms, of example_db "''a''" "mem_env 0" 0 9] show ?thesis by fastforce
qed

text \<open>A rollback hides exactly the shadow appends: the events at or above the version whose global sequence is
  greater than the transaction's; no record is removed, other streams read as before, and an event
  appended later under the same version is hidden or not by its own sequence number only.\<close>

theorem trim_hides_shadow_appends:
  assumes store: "event_store B content writes base C" and wf: "wf_db C (content s)" and name: "name_ok stream"
    and quiet: "others E s = s" and bound: "from_version < VMAX" "txn < 2 ^ 64"
    and new: "content s (m_key stream (rollback_field from_version)) = None"
  shows "\<exists>s'. trim B C E s stream from_version txn = (Inr (tail_commit_info (tail_of C (content s) stream)), s') \<and>
     wf_db C (content s') \<and>
     (\<forall>lo hi. history C (content s') stream lo hi =
        filter (\<lambda>e. \<not> (from_version \<le> env_version e \<and> txn < env_seq e)) (history C (content s) stream lo hi)) \<and>
     (\<forall>st v. stored C (content s') st v = stored C (content s) st v) \<and>
     (\<forall>st lo hi. name_ok st \<longrightarrow> st \<noteq> stream \<longrightarrow> history C (content s') st lo hi = history C (content s) st lo hi)"
proof -
  obtain s' where s': "trim B C E s stream from_version txn = (Inr (tail_commit_info (tail_of C (content s) stream)), s')"
    "content s' = (content s)(m_key stream (rollback_field from_version) \<mapsto> to_be_bytes txn)"
    using event_store.trim_eq [OF store wf name quiet] by metis
  have "wf_db C (content s')"
    unfolding s'(2) using wf name bound(1) by (intro wf_db_upd wf_entry_field) (auto simp: wf_field_def)
  moreover have "history C (content s') stream lo hi =
      filter (\<lambda>e. \<not> (from_version \<le> env_version e \<and> txn < env_seq e)) (history C (content s) stream lo hi)" for lo hi
    unfolding s'(2) by (rule history_rollback [OF wf name bound(1) new bound(2)])
  moreover have "history C (content s') st lo hi = history C (content s) st lo hi" if "name_ok st" "st \<noteq> stream" for st lo hi
    unfolding s'(2) by (rule history_put_guard [OF name that]) simp_all
  ultimately show ?thesis using s' by (intro exI [of _ s']) simp
qed

theorem trim_hides_shadow_appends_witness:
  "\<exists>s'. trim mem_ops mem_codec (mem_env 0) example_db ''a'' 0 0 =
     (Inr (tail_commit_info (tail_of mem_codec (mem_content example_db) ''a'')), s') \<and>
     history mem_codec (mem_content s') ''a'' 0 None =
       filter (\<lambda>e. env_seq e = 0) (history mem_codec (mem_content example_db) ''a'' 0 None)"
proof -
  have "mem_content example_db (m_key ''a'' (rollback_field 0)) = None"
    unfolding example_db_content by (simp add: append_map_field)
  with trim_hides_shadow_appends [OF mem_store.event_store_axioms, of example_db "''a''" "mem_env 0" 0 0] show ?thesis by auto
qed

text \<open>C37: deleting a stream that was not deleted before (and is no fork of itself) leaves readable exactly the prefix that its pins cover, the pins being the fork points
  of the direct children without a deleted marker: a read of any range then returns what it returned
  before less the events above every pin, nothing when there is none. No record is removed, and
  deleting a stream that does not exist changes nothing. A fork of a deleted child holds no pin
  (\<open>purge_below_loses_grandchild\<close>).\<close>

theorem delete_stream_keeps_pinned:
  assumes store: "event_store B content writes base C" and wf: "wf_db C (content s)" and name: "name_ok stream"
    and quiet: "others E s = s" and live: "\<not> is_deleted (content s) stream" "content s (m_key stream (forks_field stream)) = None"
  shows "\<exists>s'. delete_stream B C E s stream = (Inr (), s') \<and>
     (if current_version C (content s) stream = None then s' = s
      else is_deleted (content s') stream \<and> wf_db C (content s') \<and>
        (\<forall>st v. stored C (content s') st v = stored C (content s) st v) \<and>
        (\<forall>rg. range_ok rg \<longrightarrow> (\<exists>es. read_events C (db_reader B s) stream rg = Inr es \<and>
           read_events C (db_reader B s') stream rg =
             Inr (filter (\<lambda>e. \<exists>p \<in> live_pins (content s) stream. ev_version e \<le> p) es))))"
proof (cases "current_version C (content s) stream = None")
  case True
  with event_store.delete_stream_eq [OF store wf name quiet] show ?thesis by simp
next
  case False
  with event_store.delete_stream_eq [OF store wf name quiet] obtain s'
    where s': "delete_stream B C E s stream = (Inr (), s')" "content s' = (content s)(m_key stream ''deleted'' \<mapsto> [])" by auto
  have wf': "wf_db C (content s')"
    unfolding s'(2) using wf name by (intro wf_db_upd wf_entry_field) (auto simp: wf_field_def)
  have pins: "(\<exists>c. ceil_of (content s) stream = Some c \<and> v \<le> c) \<longleftrightarrow> (\<exists>p \<in> live_pins (content s) stream. v \<le> p)" for v
  proof
    assume "\<exists>c. ceil_of (content s) stream = Some c \<and> v \<le> c"
    then show "\<exists>p \<in> live_pins (content s) stream. v \<le> p" using ceil_of_pins(1) [OF wf name] by blast
  next
    assume "\<exists>p \<in> live_pins (content s) stream. v \<le> p"
    then obtain p where p: "p \<in> live_pins (content s) stream" "v \<le> p" by blast
    then have "ceil_of (content s) stream \<noteq> None" by (auto simp: ceil_of_def)
    then obtain c where c: "ceil_of (content s) stream = Some c" by blast
    with ceil_of_pins(2) [OF wf name c p(1)] p(2) show "\<exists>c. ceil_of (content s) stream = Some c \<and> v \<le> c" by auto
  qed
  have "history C (content s') stream lo hi =
      filter (\<lambda>e. \<exists>p \<in> live_pins (content s) stream. env_version e \<le> p) (history C (content s) stream lo hi)" for lo hi
    unfolding s'(2) history_delete [OF wf name live(2,1)] pins ..
  then have "\<exists>es. read_events C (db_reader B s) stream rg = Inr es \<and> read_events C (db_reader B s') stream rg =
      Inr (filter (\<lambda>e. \<exists>p \<in> live_pins (content s) stream. ev_version e \<le> p) es)" if "range_ok rg" for rg
    using event_store.read_events_history [OF store wf name that] event_store.read_events_history [OF store wf' name that]
    by (simp add: filter_map comp_def)
  with s' False wf' show ?thesis by (intro exI [of _ s']) (auto simp: is_deleted_def)
qed

theorem delete_stream_keeps_pinned_witness:
  "\<exists>s'. delete_stream mem_ops mem_codec (mem_env 0) example_db ''a'' = (Inr (), s') \<and> is_deleted (mem_content s') ''a'' \<and>
     read_events mem_codec (db_reader mem_ops s') ''a'' (Unbounded, Unbounded) = Inr []"
proof -
  have "mem_content example_db (m_key ''a'' (forks_field ''a'')) = None" "live_pins (mem_content example_db) ''a'' = {}"
    unfolding example_db_content by (auto simp: append_map_field live_pins_def)
  with delete_stream_keeps_pinned [OF mem_store.event_store_axioms, of example_db "''a''" "mem_env 0"] show ?thesis by fastforce
qed

text \<open>
  Pins are counted one generation deep: with the fork \<open>b\<close> of \<open>a\<close> deleted and the fork \<open>c\<close> of \<open>b\<close>
  alive, \<open>a\<close> has no pin. The history \<open>c\<close> inherits through \<open>b\<close> is read until \<open>a\<close> is purged or
  deleted, and lost after either.
\<close>

lemma lineage_grandchild:
  assumes "fork_of C m ''c'' = Some \<lparr>fork_stream = ''b'', fork_at_version = 0\<rparr>"
    "fork_of C m ''b'' = Some \<lparr>fork_stream = ''a'', fork_at_version = 0\<rparr>" "fork_of C m ''a'' = None"
    "\<And>v. stored C m ''b'' v = None" "\<And>v. stored C m ''c'' v = None"
  shows "lineage C m ''c'' 0 None (history C m ''a'' 0 (Some 1))"
proof -
  have none: "history C m ''b'' lo hi = []" "history C m ''c'' lo hi = []" for lo hi
    using assms(4,5) by (simp_all add: history_def pick_def)
  have "lineage C m ''a'' 0 (Some 1) (history C m ''a'' 0 (Some 1))"
    by (rule lineage.own) (simp_all add: empty_range_def inherits_def assms(3))
  then have "lineage C m ''b'' 0 (Some 1) (history C m ''a'' 0 (Some 1) @ history C m ''b'' 0 (Some 1))"
    by (intro lineage.forked [where f = "\<lparr>fork_stream = ''a'', fork_at_version = 0\<rparr>"])
       (simp_all add: empty_range_def inherits_def assms(2) pin_hi_def)
  then have "lineage C m ''c'' 0 None (history C m ''a'' 0 (Some 1) @ history C m ''c'' 0 None)"
    by (intro lineage.forked [where f = "\<lparr>fork_stream = ''b'', fork_at_version = 0\<rparr>"])
       (simp_all add: empty_range_def inherits_def assms(1) pin_hi_def none)
  then show ?thesis by (simp add: none)
qed

lemma name_c [simp]: "name_ok ''c''"
  by (simp add: name_ok_def)

lemma forks_ok_put_guard:
  assumes "forks_ok C m" "wf_db C m" "name_ok s" "f \<noteq> ''fork''" "f \<noteq> ''tail''"
  shows "forks_ok C (m(m_key s f := x))"
proof -
  let ?m = "m(m_key s f := x)"
  have fo: "fork_of C ?m s' = fork_of C m s'" if "name_ok s'" for s'
    by (rule put_field_simps(2) [OF assms(3) that assms(4)])
  have cv: "current_version C ?m s' = current_version C m s'" if "name_ok s'" for s'
    using current_version_put [OF assms(3) that] assms(5) by blast
  obtain rank where "descends C m rank" using assms(1) unfolding forks_ok_def by blast
  then have "descends C ?m rank" using fo unfolding descends_def by metis
  moreover have "\<exists>t. current_version C ?m (fork_stream g) = Some t \<and> fork_at_version g \<le> t"
    if g: "name_ok s'" "fork_of C ?m s' = Some g" for s' g
  proof -
    have "fork_of C m s' = Some g" using fo g by metis
    with assms(1) g(1) fork_of_wf [OF assms(2) g(1)] cv show ?thesis unfolding forks_ok_def by metis
  qed
  ultimately show ?thesis unfolding forks_ok_def by blast
qed

text \<open>The store with \<open>b\<close> forked from \<open>a\<close>, \<open>c\<close> from \<open>b\<close>, and \<open>b\<close> deleted.\<close>

definition grandchild_map :: kv_map where
  "grandchild_map = (fork_map mem_codec (fork_map mem_codec (mem_content example_db) ''a'' 0 ''b'') ''b'' 0 ''c'')
     (m_key ''b'' ''deleted'' \<mapsto> [])"

lemma grandchild_steps:
  obtains s1 s2 s3 where "fork mem_ops mem_codec (mem_env 0) example_db ''a'' 0 ''b'' = (Inr (), s1)"
    "fork mem_ops mem_codec (mem_env 0) s1 ''b'' 0 ''c'' = (Inr (), s2)"
    "delete_stream mem_ops mem_codec (mem_env 0) s2 ''b'' = (Inr (), s3)" "mem_content s3 = grandchild_map"
    "wf_db mem_codec grandchild_map" "forks_ok mem_codec grandchild_map"
proof -
  let ?m0 = "mem_content example_db"
  let ?m1 = "fork_map mem_codec ?m0 ''a'' 0 ''b''" and ?m2 = "fork_map mem_codec (fork_map mem_codec ?m0 ''a'' 0 ''b'') ''b'' 0 ''c''"
  have c0: "current_version mem_codec ?m0 ''c'' = None"
    unfolding example_db_content
    using append_map_tail_other [of "''a''" "''c''" mem_codec "mem_env 0" Map.empty None True "[one_event]"]
    by (simp add: current_version_def)
  have v: "current_version mem_codec ?m1 ''b'' = Some 0" "current_version mem_codec ?m1 ''c'' = None"
    "current_version mem_codec ?m2 ''b'' = Some 0"
    using c0 by (simp_all add: mem_serde.fork_map_version)
  have w1: "wf_db mem_codec ?m1" "forks_ok mem_codec ?m1"
    by (auto intro!: mem_serde.wf_fork_map mem_serde.forks_ok_fork)
  then have w2: "wf_db mem_codec ?m2" "forks_ok mem_codec ?m2"
    using v by (auto intro!: mem_serde.wf_fork_map mem_serde.forks_ok_fork)
  obtain s1 where s1: "fork mem_ops mem_codec (mem_env 0) example_db ''a'' 0 ''b'' = (Inr (), s1)" "mem_content s1 = ?m1"
    using mem_store.fork_eq [of example_db "''a''" "''b''" "mem_env 0" 0] by (auto simp: fork_refusal_def)
  obtain s2 where s2: "fork mem_ops mem_codec (mem_env 0) s1 ''b'' 0 ''c'' = (Inr (), s2)" "mem_content s2 = ?m2"
    using mem_store.fork_eq [of s1 "''b''" "''c''" "mem_env 0" 0] w1 v s1(2) by (auto simp: fork_refusal_def)
  obtain s3 where s3: "delete_stream mem_ops mem_codec (mem_env 0) s2 ''b'' = (Inr (), s3)" "mem_content s3 = grandchild_map"
    using mem_store.delete_stream_eq [of s2 "''b''" "mem_env 0"] w2 v s2(2) by (auto simp: grandchild_map_def)
  have "wf_db mem_codec grandchild_map"
    unfolding grandchild_map_def using w2(1) by (intro wf_db_upd wf_entry_field) (auto simp: wf_field_def)
  moreover have "forks_ok mem_codec grandchild_map"
    unfolding grandchild_map_def by (rule forks_ok_put_guard [OF w2(2,1)]) simp_all
  ultimately show ?thesis using that s1(1) s2(1) s3 by blast
qed

lemma grandchild_facts:
  "fork_of mem_codec grandchild_map ''c'' = Some \<lparr>fork_stream = ''b'', fork_at_version = 0\<rparr>"
  "fork_of mem_codec grandchild_map ''b'' = Some \<lparr>fork_stream = ''a'', fork_at_version = 0\<rparr>"
  "fork_of mem_codec grandchild_map ''a'' = None"
  "stored mem_codec grandchild_map ''b'' v = None" "stored mem_codec grandchild_map ''c'' v = None"
  "stored mem_codec grandchild_map ''a'' v = stored mem_codec (mem_content example_db) ''a'' v"
  "floor_of grandchild_map ''a'' = 0" "windows grandchild_map ''a'' = {}"
  "live_pins grandchild_map ''a'' = {}" "is_deleted grandchild_map ''a'' = False" "is_deleted grandchild_map ''c'' = False"
  "current_version mem_codec grandchild_map ''a'' = Some 0" "grandchild_map (m_key ''a'' (forks_field ''a'')) = None"
proof -
  let ?m0 = "mem_content example_db"
  have field: "?m0 (m_key st f) = None" if "name_ok st" "st \<noteq> ''a'' \<or> f \<noteq> ''tail''" for st f
    using append_map_field [OF _ that] unfolding example_db_content by simp
  show "fork_of mem_codec grandchild_map ''c'' = Some \<lparr>fork_stream = ''b'', fork_at_version = 0\<rparr>"
    "fork_of mem_codec grandchild_map ''b'' = Some \<lparr>fork_stream = ''a'', fork_at_version = 0\<rparr>"
    "fork_of mem_codec grandchild_map ''a'' = None"
    by (simp_all add: grandchild_map_def put_field_simps(2) mem_serde.fork_map_fields) (simp add: fork_of_def field)
  show "stored mem_codec grandchild_map ''b'' v = None" "stored mem_codec grandchild_map ''c'' v = None"
    "stored mem_codec grandchild_map ''a'' v = stored mem_codec ?m0 ''a'' v"
    by (simp_all add: grandchild_map_def) (simp_all add: example_db_content mem_serde.append_map_stored)
  show "floor_of grandchild_map ''a'' = 0" "windows grandchild_map ''a'' = {}"
    by (simp_all add: grandchild_map_def put_field_simps(3) windows_put fork_map_guards) (simp_all add: floor_of_def windows_def field)
  show "is_deleted grandchild_map ''a'' = False" "is_deleted grandchild_map ''c'' = False"
    by (simp_all add: grandchild_map_def put_field_simps(10) fork_map_guards) (simp_all add: is_deleted_def field)
  show "current_version mem_codec grandchild_map ''a'' = Some 0"
    by (simp add: grandchild_map_def current_version_put mem_serde.fork_map_version)
  show "grandchild_map (m_key ''a'' (forks_field ''a'')) = None"
    using field by (simp add: grandchild_map_def fork_map_def m_key_eq)
  have "c = ''b''" if "name_ok c" "grandchild_map (m_key ''a'' (forks_field c)) = Some b" for c b
    using that field [of "''a''" "forks_field c"]
    by (auto simp: grandchild_map_def fork_map_def m_key_eq split: if_splits)
  moreover have "is_deleted grandchild_map ''b''" by (simp add: grandchild_map_def is_deleted_def)
  ultimately show "live_pins grandchild_map ''a'' = {}" by (auto simp: live_pins_def)
qed

lemma grandchild_history:
  obtains e where "history mem_codec grandchild_map ''a'' 0 (Some 1) = [e]" "stored mem_codec grandchild_map ''a'' 0 \<noteq> None"
proof -
  let ?e = "batch_of mem_codec (mem_env 0) Map.empty ''a'' None [one_event] ! 0"
  have st: "stored mem_codec grandchild_map ''a'' v = (if v = 0 then Some ?e else None)" for v
    unfolding grandchild_facts example_db_content by (simp add: mem_serde.append_map_stored append_start_def)
  have "wf_db mem_codec (mem_content example_db)" by simp
  from stored_version [OF this, of "''a''" 0 ?e] st [of 0] have "env_version ?e = 0" unfolding grandchild_facts by simp
  then have "visible grandchild_map ''a'' ?e" "in_window 0 (Some 1) (env_version ?e)"
    by (simp_all add: visible_def grandchild_facts in_window_def)
  then have "{v. \<exists>e. stored mem_codec grandchild_map ''a'' v = Some e \<and> visible grandchild_map ''a'' e \<and>
      in_window 0 (Some 1) (env_version e)} = {0}" by (auto simp: st)
  then have "history mem_codec grandchild_map ''a'' 0 (Some 1) = [?e]" by (simp add: history_def pick_def st)
  with st [of 0] that show ?thesis by simp
qed

lemma grandchild_read:
  assumes "mem_content s = m" "wf_db mem_codec m" "forks_ok mem_codec m"
    "fork_of mem_codec m ''c'' = Some \<lparr>fork_stream = ''b'', fork_at_version = 0\<rparr>"
    "fork_of mem_codec m ''b'' = Some \<lparr>fork_stream = ''a'', fork_at_version = 0\<rparr>" "fork_of mem_codec m ''a'' = None"
    "\<And>v. stored mem_codec m ''b'' v = None" "\<And>v. stored mem_codec m ''c'' v = None"
  shows "read_history mem_ops mem_codec s ''c'' (Unbounded, Unbounded) =
     Some (Inr (map event_from_parts (history mem_codec m ''a'' 0 (Some 1))))"
  using mem_store.read_history_lineage [of s "''c''" "(Unbounded, Unbounded)" 0 None] lineage_grandchild [OF assms(4-8)] assms(1-3)
  by (simp add: bounds_def)

lemma no_first_record:
  assumes "wf_db mem_codec m" "stored mem_codec m ''a'' 0 = None"
  shows "history mem_codec m ''a'' 0 (Some 1) = []"
proof -
  have "\<not> in_window 0 (Some 1) (env_version e)" if e: "stored mem_codec m ''a'' v = Some e" for v e
    using e assms(2) stored_version [OF assms(1) _ e] by (cases v) (auto simp: in_window_def)
  then have "{v. \<exists>e. stored mem_codec m ''a'' v = Some e \<and> visible m ''a'' e \<and> in_window 0 (Some 1) (env_version e)} = {}" by blast
  then show ?thesis unfolding history_def pick_def by (simp only: sorted_list_of_set_empty list.map)
qed

theorem purge_below_loses_grandchild:
  "\<exists>s1 s2 s3 s4 s5 e. fork mem_ops mem_codec (mem_env 0) example_db ''a'' 0 ''b'' = (Inr (), s1) \<and>
     fork mem_ops mem_codec (mem_env 0) s1 ''b'' 0 ''c'' = (Inr (), s2) \<and>
     delete_stream mem_ops mem_codec (mem_env 0) s2 ''b'' = (Inr (), s3) \<and> \<not> is_deleted (mem_content s3) ''c'' \<and>
     read_history mem_ops mem_codec s3 ''c'' (Unbounded, Unbounded) = Some (Inr [e]) \<and>
     purge_below mem_ops mem_env s3 ''a'' 1 = Some (Inr 1, s4) \<and>
     read_history mem_ops mem_codec s4 ''c'' (Unbounded, Unbounded) = Some (Inr []) \<and>
     delete_stream mem_ops mem_codec (mem_env 0) s3 ''a'' = (Inr (), s5) \<and>
     read_history mem_ops mem_codec s5 ''c'' (Unbounded, Unbounded) = Some (Inr [])"
proof -
  let ?all = "(Unbounded, Unbounded)"
  obtain s1 s2 s3 where st: "fork mem_ops mem_codec (mem_env 0) example_db ''a'' 0 ''b'' = (Inr (), s1)"
    "fork mem_ops mem_codec (mem_env 0) s1 ''b'' 0 ''c'' = (Inr (), s2)"
    "delete_stream mem_ops mem_codec (mem_env 0) s2 ''b'' = (Inr (), s3)" and m3: "mem_content s3 = grandchild_map"
    and ok: "wf_db mem_codec grandchild_map" "forks_ok mem_codec grandchild_map" by (rule grandchild_steps)
  note G = grandchild_facts
  obtain e where e: "history mem_codec grandchild_map ''a'' 0 (Some 1) = [e]" "stored mem_codec grandchild_map ''a'' 0 \<noteq> None"
    by (rule grandchild_history)
  have r3: "read_history mem_ops mem_codec s3 ''c'' ?all = Some (Inr [event_from_parts e])"
    using grandchild_read [OF m3 ok G(1-5)] e(1) by simp
  have rec: "purgeable grandchild_map ''a'' 0 1 = {0}"
    using e(2) by (auto simp: purgeable_def stored_def split: option.splits)
  have pf: "pin_floor grandchild_map ''a'' = 0" by (simp add: pin_floor_def ceil_of_def G)
  let ?m4 = "without grandchild_map {r_key ''a'' 0}"
  obtain s4 where s4: "purge_below mem_ops mem_env s3 ''a'' 1 = Some (Inr 1, s4)" "mem_content s4 = ?m4"
    by (rule mem_store.purge_below_eq [of s3 "''a''" mem_env 1, unfolded m3 pf rec]) (use ok(1) in simp_all)
  have fields: "?m4 (m_key st f) = grandchild_map (m_key st f)" for st f by (simp add: without_def)
  have fo: "fork_of mem_codec ?m4 st = fork_of mem_codec grandchild_map st" "current_version mem_codec ?m4 st = current_version mem_codec grandchild_map st" for st
    by (simp_all add: fork_of_def current_version_def tail_of_def fields)
  have "forks_ok mem_codec ?m4" using ok(2) by (simp add: forks_ok_def descends_def fo)
  moreover have "stored mem_codec ?m4 st v = None" if "stored mem_codec grandchild_map st v = None" for st v
    using that by (simp add: stored_def without_def)
  moreover have w4: "wf_db mem_codec ?m4" by (rule wf_db_without [OF ok(1)])
  moreover have "stored mem_codec ?m4 ''a'' 0 = None" by (simp add: stored_def without_def)
  ultimately have r4: "read_history mem_ops mem_codec s4 ''c'' ?all = Some (Inr [])"
    using grandchild_read [OF s4(2)] no_first_record [OF w4] G by (simp add: fo)
  let ?m5 = "grandchild_map(m_key ''a'' ''deleted'' \<mapsto> [])"
  obtain s5 where s5: "delete_stream mem_ops mem_codec (mem_env 0) s3 ''a'' = (Inr (), s5)" "mem_content s5 = ?m5"
    using mem_store.delete_stream_eq [of s3 "''a''" "mem_env 0"] ok(1) G(12) by (auto simp: m3)
  have w5: "wf_db mem_codec ?m5" "forks_ok mem_codec ?m5"
    using ok by (intro wf_db_upd wf_entry_field forks_ok_put_guard; simp add: wf_field_def)+
  have "history mem_codec ?m5 ''a'' 0 (Some 1) = []"
    using history_delete [OF ok(1) _ G(13)] G(9,10) by (simp add: ceil_of_def)
  then have "read_history mem_ops mem_codec s5 ''c'' ?all = Some (Inr [])"
    using grandchild_read [OF s5(2) w5] G by (simp add: put_field_simps(2))
  with st m3 r3 s4(1) r4 s5(1) G(11) show ?thesis
    by (intro exI [of _ s1] exI [of _ s2] exI [of _ s3] exI [of _ s4] exI [of _ s5] exI [of _ "event_from_parts e"] conjI) simp_all
qed

text \<open>On a stream that does not exist yet the requested floor is not cut: it is stored as it is, and an append
  made afterwards at the versions below it is never read back, although the trim point is meant to
  cover existing history only.\<close>

theorem trim_below_missing_stream:
  assumes store: "event_store B content writes base C" and wf: "wf_db C (content s)" and name: "name_ok stream"
    and quiet: "others E s = s" "others (Es 0) s' = s'" and missing: "tail_of C (content s) stream = None"
    and floor0: "floor_of (content s) stream = 0"
    and bound: "length events < n" "n < VMAX" "global_seq (content s) + length events < 2 ^ 64"
    and ok: "check_batch events = Inr ()" "events \<noteq> []" "ulids_ok (Es 0)"
    and trimmed: "trim_below B C E s stream n = (Inr info, s')"
  shows "\<exists>info' s''. append_event B C Es s' stream NoStream events = (Inr info', s'') \<and>
     (\<forall>i < length events. stored C (content s'') stream i \<noteq> None) \<and>
     (\<forall>lo. \<forall>e \<in> set (history C (content s'') stream lo None). n \<le> env_version e)"
proof -
  have serde: "serde_codec C" using store by (simp add: event_store_def)
  have "trim_floor C (content s) stream n = n" using bound(2) floor0 missing by (simp add: trim_floor_def current_version_def)
  with event_store.trim_below_eq [OF store wf name quiet(1), of n] trimmed
  have m: "content s' = (content s)(m_key stream ''trim'' \<mapsto> to_be_bytes n)" by (metis Pair_inject)
  have wf': "wf_db C (content s')"
    unfolding m using wf name bound(2) by (intro wf_db_upd wf_entry_field) (auto simp: wf_field_def)
  have none: "current_version C (content s') stream = None" "global_seq (content s') = global_seq (content s)"
    using missing name by (simp_all add: m current_version_put) (simp_all add: current_version_def global_seq_def)
  then have next0: "next_version C (content s') stream = 0" by (simp add: next_version_def)
  have room: "append_room C (content s') stream None events"
    using bound none next0 by (simp add: append_room_def append_start_def)
  let ?m = "append_map C (Es 0) (content s') stream None True events"
  from event_store.commit_appends_quiet [OF store ok(1) wf' name, where Es = Es and from_version = None and expected = NoStream and
      token = None and idx = True] ok room quiet(2) none
  obtain info' s'' where s'': "append_event B C Es s' stream NoStream events = (Inr info', s'')" "content s'' = ?m"
    by (auto simp: refusal_def append_event_def append_lazy_def)
  note st = serde_codec.append_map_stored [OF serde wf' name name ok(3) room ok(2)]
  have fl: "floor_of ?m stream = n"
    using bound(2) by (simp add: append_map_field name m floor_of_def)
  have wf'': "wf_db C ?m" by (rule serde_codec.wf_append_map [OF serde wf' name ok(3) room ok(2)])
  have "n \<le> env_version e" if "e \<in> set (history C ?m stream lo None)" for e lo
    using that fl by (auto simp: history_def set_pick [OF wf'' name] visible_def)
  moreover have "stored C ?m stream i \<noteq> None" if "i < length events" for i
    using that st [of True i] next0 by (simp add: append_start_def)
  ultimately show ?thesis using s'' by auto
qed

theorem trim_below_missing_stream_witness:
  "\<exists>s' info' s''. snd (trim_below mem_ops mem_codec (mem_env 0) mem_empty ''a'' 5) = s' \<and>
     append_event mem_ops mem_codec mem_env s' ''a'' NoStream [one_event] = (Inr info', s'') \<and>
     stored mem_codec (mem_content s'') ''a'' 0 \<noteq> None \<and>
     (\<forall>e \<in> set (history mem_codec (mem_content s'') ''a'' 0 None). 5 \<le> env_version e)"
proof -
  obtain info s' where t: "trim_below mem_ops mem_codec (mem_env 0) mem_empty ''a'' 5 = (Inr info, s')"
    by (rule mem_store.trim_below_eq [of mem_empty "''a''" "mem_env 0" 5]) auto
  from trim_below_missing_stream [OF mem_store.event_store_axioms _ _ _ _ _ _ _ _ _ _ _ _ t, of mem_env "[one_event]"] t
  show ?thesis by (auto simp: floor_of_def)
qed

end
