(* ===== verification/Query.thy ===== *)
theory Query
  imports Retention
begin

text \<open>
  The read operations of \<open>EventStore\<close> and \<open>EventStoreReader\<close>: reads from the tail, pages, the time
  index, folds, the enumeration of streams, and the polling loop that tails a prefix.
\<close>

section \<open>Operations\<close>

definition stream_version :: "('s, 't) slatedb_ops \<Rightarrow> codec \<Rightarrow> 's \<Rightarrow> string \<Rightarrow> version option res" where
  "stream_version B C s stream = bind_res (kv_tail C (db_reader B s) stream) (\<lambda>t. Inr (map_option tail_version t))"

definition check_tail :: "('s, 't) slatedb_ops \<Rightarrow> codec \<Rightarrow> 's \<Rightarrow> string \<Rightarrow> (version \<times> i64) option res" where
  "check_tail B C s stream =
     bind_res (kv_tail C (db_reader B s) stream) (\<lambda>t. Inr (map_option (\<lambda>r. (tail_version r, tail_ts_ms r)) t))"

definition read_tail :: "('s, 't) slatedb_ops \<Rightarrow> codec \<Rightarrow> 's \<Rightarrow> string \<Rightarrow> nat \<Rightarrow> event list res" where
  "read_tail B C s stream n =
     bind_res (kv_tail C (db_reader B s) stream) (\<lambda>tail. case tail of
        None \<Rightarrow> Inr []
      | Some t \<Rightarrow> read_events C (db_reader B s) stream (Included (add64 (tail_version t) 1 - n), Unbounded))"

text \<open>The loop of \<open>read_page\<close>: the page so far and its size; the flag says that the events ran out.\<close>

fun page_loop :: "page_limit \<Rightarrow> event list \<Rightarrow> nat \<Rightarrow> event list \<Rightarrow> event list \<times> bool" where
  "page_loop limit out used [] = (out, True)"
| "page_loop limit out used (e # es) =
     (if out \<noteq> [] \<and> (max_count limit \<le> length out \<or> max_bytes limit < used + length (ev_data e))
      then (out, False)
      else page_loop limit (out @ [e]) (used + length (ev_data e)) es)"

definition read_page ::
  "('s, 't) slatedb_ops \<Rightarrow> codec \<Rightarrow> 's \<Rightarrow> string \<Rightarrow> version \<Rightarrow> page_limit \<Rightarrow> (event list \<times> version option) res" where
  "read_page B C s stream from_version limit =
     bind_res (read_events C (db_reader B s) stream (Included from_version, Unbounded)) (\<lambda>events.
       let (out, drained) = page_loop limit [] 0 events;
           cursor = (if out \<noteq> [] \<and> \<not> drained then Some (add64 (ev_version (last out)) 1) else None)
       in Inr (out, cursor))"

definition ts_prefix :: "string \<Rightarrow> bytes" where
  "ts_prefix stream = ''i/'' @ stream @ ''/''"

definition seek_timestamp :: "('s, 't) slatedb_ops \<Rightarrow> 's \<Rightarrow> string \<Rightarrow> i64 \<Rightarrow> version option res" where
  "seek_timestamp B s stream ts_ms =
     bind_res (map_err Backend (db_scan B s (ts_prefix stream) (Included (fmt016_int ts_ms), Unbounded))) (\<lambda>kvs.
       case kvs of
         [] \<Rightarrow> Inr None
       | (k, _) # _ \<Rightarrow> bind_res (version_suffix k) (\<lambda>v. Inr (Some v)))"

definition last_event_version :: "event list \<Rightarrow> version option" where
  "last_event_version es = (if es = [] then None else Some (ev_version (last es)))"

definition store_fold ::
  "('s, 't) slatedb_ops \<Rightarrow> codec \<Rightarrow> 's \<Rightarrow> string \<Rightarrow> version bound \<times> version bound \<Rightarrow> 'a \<Rightarrow> ('a \<Rightarrow> event \<Rightarrow> 'a) \<Rightarrow>
   ('a \<times> version option) res option" where
  "store_fold B C s stream rg init apply_event =
     (let (lo, hi) = bounds rg in
      map_option (\<lambda>r. bind_res r (\<lambda>events. Inr (foldl apply_event init events, last_event_version events)))
        (resolve_history C (db_reader B s) stream [] lo hi))"

text \<open>The loop of \<open>list_streams\<close>: streams in key order, and the set of deleted names.\<close>

fun list_loop :: "(bytes \<times> bytes) list \<Rightarrow> string list \<Rightarrow> string list \<Rightarrow> (string list \<times> string list) res" where
  "list_loop [] streams deleted = Inr (streams, deleted)"
| "list_loop ((k, v) # kvs) streams deleted =
     (if \<not> is_utf8 k then Inl (InvalidInput ''non-utf8 stream key'')
      else case strip_prefix ''m/'' k of
        None \<Rightarrow> list_loop kvs streams deleted
      | Some rest \<Rightarrow> (case strip_suffix ''/tail'' rest of
          Some st \<Rightarrow> list_loop kvs (streams @ [st]) deleted
        | None \<Rightarrow> (case strip_suffix ''/deleted'' rest of
            Some st \<Rightarrow> list_loop kvs streams (st # deleted)
          | None \<Rightarrow> list_loop kvs streams deleted)))"

definition list_streams :: "('s, 't) slatedb_ops \<Rightarrow> 's \<Rightarrow> string list res" where
  "list_streams B s =
     bind_res (map_err Backend (db_scan B s ''m/'' (Unbounded, Unbounded))) (\<lambda>kvs.
     bind_res (list_loop kvs [] []) (\<lambda>(streams, deleted). Inr (filter (\<lambda>st. st \<notin> set deleted) streams)))"

section \<open>The reader\<close>

text \<open>\<open>EventStoreReader\<close> reads through the same helpers, over a \<open>DbReader\<close>.\<close>

definition reader_read_stream :: "codec \<Rightarrow> kv_read \<Rightarrow> string \<Rightarrow> version bound \<times> version bound \<Rightarrow> event list res" where
  "reader_read_stream C r stream rg = read_events C r stream rg"

definition reader_read_history :: "codec \<Rightarrow> kv_read \<Rightarrow> string \<Rightarrow> version bound \<times> version bound \<Rightarrow> event list res option" where
  "reader_read_history C r stream rg =
     (let (lo, hi) = bounds rg in
      map_option (\<lambda>x. bind_res x (\<lambda>events. Inr (filter (\<lambda>e. \<not> prefix ''$'' (ev_type e)) events)))
        (resolve_history C r stream [] lo hi))"

definition reader_stream_version :: "codec \<Rightarrow> kv_read \<Rightarrow> string \<Rightarrow> version option res" where
  "reader_stream_version C r stream =
     bind_res (reader_read_stream C r stream (Unbounded, Unbounded)) (\<lambda>es. Inr (last_event_version es))"

definition reader_latest_snapshot :: "codec \<Rightarrow> kv_read \<Rightarrow> string \<Rightarrow> snapshot_record option res" where
  "reader_latest_snapshot C r stream = kv_latest_snapshot C r stream"

definition reader_compaction_records :: "codec \<Rightarrow> kv_read \<Rightarrow> compaction_record list res" where
  "reader_compaction_records C r =
     bind_res (kv_scan r COMPACTIONS_PREFIX) (\<lambda>kvs. map_res (\<lambda>(_, v). map_err Encoding (unjson_compaction C v)) kvs)"

text \<open>One scan of \<open>follow\<close>: the new cursor and the items to send. An error ends the loop.\<close>

fun poll_loop ::
  "(bytes \<Rightarrow> bytes \<Rightarrow> ('k::linorder \<times> 'a) option res) \<Rightarrow> 'k option \<Rightarrow> (bytes \<times> bytes) list \<Rightarrow> ('k option \<times> 'a list) res" where
  "poll_loop decode cursor [] = Inr (cursor, [])"
| "poll_loop decode cursor ((k, v) # kvs) =
     bind_res (decode k v) (\<lambda>d. case d of
        None \<Rightarrow> poll_loop decode cursor kvs
      | Some (c, item) \<Rightarrow>
          if (case cursor of None \<Rightarrow> True | Some c0 \<Rightarrow> c0 < c)
          then bind_res (poll_loop decode (Some c) kvs) (\<lambda>(cursor', out). Inr (cursor', item # out))
          else poll_loop decode cursor kvs)"

definition poll ::
  "(bytes \<Rightarrow> bytes \<Rightarrow> ('k::linorder \<times> 'a) option res) \<Rightarrow> bytes \<Rightarrow> 'k option \<Rightarrow> kv_read \<Rightarrow> ('k option \<times> 'a list) res" where
  "poll decode pre cursor r = bind_res (kv_scan r pre) (poll_loop decode cursor)"

text \<open>The messages \<open>follow\<close> sends over the states its polls see; each tick reads a new state.\<close>

fun follow ::
  "(bytes \<Rightarrow> bytes \<Rightarrow> ('k::linorder \<times> 'a) option res) \<Rightarrow> bytes \<Rightarrow> 'k option \<Rightarrow> kv_read list \<Rightarrow> 'a res list" where
  "follow decode pre cursor [] = []"
| "follow decode pre cursor (r # rs) =
     (case poll decode pre cursor r of
        Inl e \<Rightarrow> [Inl e]
      | Inr (cursor', items) \<Rightarrow> map Inr items @ follow decode pre cursor' rs)"

definition decode_event :: "codec \<Rightarrow> version \<Rightarrow> bytes \<Rightarrow> bytes \<Rightarrow> (version \<times> event) option res" where
  "decode_event C from_version k value =
     bind_res (envelope_decode C value) (\<lambda>env.
       Inr (if from_version \<le> env_version env then Some (env_version env, event_from_parts env) else None))"

definition follow_stream :: "codec \<Rightarrow> string \<Rightarrow> version \<Rightarrow> kv_read list \<Rightarrow> event res list" where
  "follow_stream C stream from_version rs = follow (decode_event C from_version) (r_prefix stream) None rs"

definition decode_compaction :: "codec \<Rightarrow> bytes \<Rightarrow> bytes \<Rightarrow> (bytes \<times> compaction_record) option res" where
  "decode_compaction C k value = bind_res (map_err Encoding (unjson_compaction C value)) (\<lambda>r. Inr (Some (k, r)))"

definition follow_compactions :: "codec \<Rightarrow> kv_read list \<Rightarrow> compaction_record res list" where
  "follow_compactions C rs = follow (decode_compaction C) COMPACTIONS_PREFIX None rs"

end
