(* ===== verification/Query_Props.thy ===== *)
theory Query_Props
  imports Query
begin

text \<open>
  What the read operations return on a well-formed store: a read after an append, pages that
  partition a read, the enumeration of streams, and a tailing reader that yields every event once.
\<close>

section \<open>Histories as lists\<close>

lemma history_from:
  assumes "wf_db C m" "name_ok s" "lo \<le> lo'"
  shows "history C m s lo' hi = filter (\<lambda>e. lo' \<le> env_version e) (history C m s lo hi)"
  unfolding history_def filter_pick [OF assms(1,2)]
  by (rule pick_cong) (use assms(3) in \<open>auto simp: in_window_def\<close>)

lemma sorted_history: "wf_db C m \<Longrightarrow> name_ok s \<Longrightarrow> sorted_wrt (<) (map env_version (history C m s lo hi))"
  unfolding history_def by (rule sorted_pick)

lemma history_bound:
  assumes "wf_db C m" "name_ok s" "e \<in> set (history C m s lo hi)" shows "env_version e < VMAX \<and> lo \<le> env_version e"
  using assms stored_version [OF assms(1,2)] by (auto simp: history_def set_pick in_window_def)

context event_store begin

lemma read_from:
  assumes "wf_db C (content s)" "name_ok stream" "lo < VMAX"
  shows "read_events C (db_reader B s) stream (Included lo, Unbounded) = Inr (map event_from_parts (history C (content s) stream lo None))"
  using assms by (intro read_events_eq [OF serves_db]) (simp_all add: bounds_def)

end

section \<open>Pages\<close>

lemma page_loop_split:
  "page_loop limit out used es = (out', drained) \<Longrightarrow>
     \<exists>taken rest. out' = out @ taken \<and> es = taken @ rest \<and> (drained \<longleftrightarrow> rest = []) \<and> (out = [] \<and> es \<noteq> [] \<longrightarrow> taken \<noteq> [])"
proof (induction limit out used es rule: page_loop.induct)
  case (2 limit out used e es)
  show ?case
  proof (cases "out \<noteq> [] \<and> (max_count limit \<le> length out \<or> max_bytes limit < used + length (ev_data e))")
    case True
    with "2.prems" show ?thesis by auto
  next
    case False
    with "2.prems" have "page_loop limit (out @ [e]) (used + length (ev_data e)) es = (out', drained)" by auto
    from "2.IH" [OF False this] obtain taken rest where "out' = (out @ [e]) @ taken" "es = taken @ rest" "drained \<longleftrightarrow> rest = []" by blast
    then show ?thesis by (intro exI [of _ "e # taken"] exI [of _ rest]) simp
  qed
qed simp

lemma page_loop_limits:
  "page_loop limit out used es = (out', drained) \<Longrightarrow>
     (out = [] \<longrightarrow> used = 0) \<Longrightarrow> used = sum_list (map (length \<circ> ev_data) out) \<Longrightarrow>
     length out \<le> max 1 (max_count limit) \<Longrightarrow> (length out \<le> 1 \<or> used \<le> max_bytes limit) \<Longrightarrow>
     length out' \<le> max 1 (max_count limit) \<and> (length out' \<le> 1 \<or> sum_list (map (length \<circ> ev_data) out') \<le> max_bytes limit)"
proof (induction limit out used es rule: page_loop.induct)
  case (2 limit out used e es)
  show ?case
  proof (cases "out \<noteq> [] \<and> (max_count limit \<le> length out \<or> max_bytes limit < used + length (ev_data e))")
    case True
    with "2.prems" show ?thesis by auto
  next
    case False
    with "2.prems" have "page_loop limit (out @ [e]) (used + length (ev_data e)) es = (out', drained)" by auto
    from "2.IH" [OF False this] "2.prems" False show ?thesis by (cases out) auto
  qed
qed auto

lemma sorted_suffix_filter:
  fixes f :: "'a \<Rightarrow> nat"
  assumes "sorted_wrt (<) (map f (xs @ ys))" "xs \<noteq> []"
  shows "filter (\<lambda>e. f (last xs) + 1 \<le> f e) (xs @ ys) = ys"
proof -
  obtain zs z where xs: "xs = zs @ [z]" using assms(2) by (cases xs rule: rev_cases) auto
  have "\<forall>x \<in> set zs. f x < f z" "\<forall>y \<in> set ys. f z < f y" using assms(1) by (auto simp: xs sorted_wrt_append)
  then have "filter (\<lambda>e. f z + 1 \<le> f e) zs = []" "filter (\<lambda>e. f z + 1 \<le> f e) ys = ys"
    by (auto simp: filter_empty_conv filter_id_conv)
  then show ?thesis by (simp add: xs)
qed

text \<open>C38: reading page by page loses and repeats nothing: a page is a prefix of the events from its start version,
  never empty while there are events, within its limits unless it is a single event; without a
  cursor it is the whole of them, and with one the events from the cursor on are exactly the rest.\<close>

theorem read_page_partitions:
  assumes store: "event_store B content writes base C" and wf: "wf_db C (content s)" and name: "name_ok stream"
    and bound: "from_version < VMAX"
  shows "\<exists>out cursor rest. read_page B C s stream from_version limit = Inr (map event_from_parts out, cursor) \<and>
     history C (content s) stream from_version None = out @ rest \<and>
     (out = [] \<longrightarrow> rest = []) \<and> length out \<le> max 1 (max_count limit) \<and>
     (length out \<le> 1 \<or> sum_list (map (length \<circ> env_data) out) \<le> max_bytes limit) \<and>
     (case cursor of None \<Rightarrow> rest = []
      | Some c \<Rightarrow> rest \<noteq> [] \<and> from_version < c \<and> c = env_version (last out) + 1 \<and> history C (content s) stream c None = rest)"
proof -
  let ?h = "history C (content s) stream from_version None"
  obtain out' drained where p: "page_loop limit [] 0 (map event_from_parts ?h) = (out', drained)" by fastforce
  from page_loop_split [OF p] obtain taken rest' where t: "out' = taken" "map event_from_parts ?h = taken @ rest'"
    "drained \<longleftrightarrow> rest' = []" "?h \<noteq> [] \<longrightarrow> taken \<noteq> []" by auto
  from t(2) obtain out rest where o: "?h = out @ rest" "taken = map event_from_parts out" "rest' = map event_from_parts rest"
    by (auto simp: map_eq_append_conv)
  note lim = page_loop_limits [OF p]
  have data: "length \<circ> ev_data \<circ> event_from_parts = length \<circ> env_data"
    by (simp add: event_from_parts_def comp_def)
  have limits: "length out \<le> max 1 (max_count limit)" "length out \<le> 1 \<or> sum_list (map (length \<circ> env_data) out) \<le> max_bytes limit"
    using lim t(1) o(2) by (auto simp: data)
  have sorted: "sorted_wrt (<) (map env_version (out @ rest))" using sorted_history [OF wf name] o(1) by metis
  have last: "env_version (last out) < VMAX \<and> from_version \<le> env_version (last out)" if "out \<noteq> []"
    using history_bound [OF wf name, of "last out" from_version None] o(1) that by simp
  have rest: "history C (content s) stream (env_version (last out) + 1) None = rest" if "out \<noteq> []"
    using history_from [OF wf name, of from_version "env_version (last out) + 1"] last [OF that] o(1)
      sorted_suffix_filter [OF sorted that] by simp
  let ?cursor = "if out \<noteq> [] \<and> rest \<noteq> [] then Some (env_version (last out) + 1) else None"
  have "read_page B C s stream from_version limit = Inr (map event_from_parts out, ?cursor)"
    using event_store.read_from [OF store wf name bound] p t o last by (cases "out = []") (simp_all add: read_page_def last_map)
  with o t(4) limits rest last show ?thesis
    by (intro exI [of _ out] exI [of _ ?cursor] exI [of _ rest]) (auto split: if_splits)
qed

theorem read_page_partitions_witness:
  "\<exists>out cursor rest. read_page mem_ops mem_codec example_db ''a'' 0 \<lparr>max_count = 1, max_bytes = 10\<rparr> = Inr (map event_from_parts out, cursor) \<and>
     history mem_codec (mem_content example_db) ''a'' 0 None = out @ rest"
  using read_page_partitions [OF mem_store.event_store_axioms, of example_db "''a''" 0 "\<lparr>max_count = 1, max_bytes = 10\<rparr>"] by auto

section \<open>Reads after writes\<close>

text \<open>An append is read back: on a stream that is covered by its tail and hides nothing from its next version
  on, a read of the whole stream after the append returns what it returned before and then the
  batch, in order, with the types, data and metadata that were given.\<close>

theorem read_after_append:
  assumes store: "event_store B content writes base C" and wf: "wf_db C (content s)" and name: "name_ok stream"
    and ids: "ulids_ok (Es 0)" and quiet: "others (Es 0) s = s" and room: "append_room C (content s) stream None events"
    and cov: "covered C (content s) stream" and op: "open_from (content s) stream (next_version C (content s) stream)"
    and ok: "append_event B C Es s stream expected events = (Inr info, s')"
  shows "\<exists>old new. read_stream B C s stream (Unbounded, Unbounded) = Inr old \<and>
     read_stream B C s' stream (Unbounded, Unbounded) = Inr (old @ new) \<and>
     map ev_version new = [first_version info ..< first_version info + length events] \<and>
     map (\<lambda>e. (ev_type e, ev_data e, ev_metadata e)) new = map (\<lambda>e. (ne_type e, ne_data e, ne_metadata e)) events \<and>
     covered C (content s') stream"
proof -
  have serde: "serde_codec C" using store by (simp add: event_store_def)
  have batch: "check_batch events = Inr ()"
    using ok by (cases "check_batch events") (auto simp: append_event_def append_lazy_def commit_appends_def)
  note q = event_store.commit_appends_quiet [OF store batch wf name, where Es = Es and from_version = None and
      expected = expected and token = None and idx = True]
  have ref: "refusal C (content s) stream expected None events = None"
    using q ids room quiet ok
    by (cases "refusal C (content s) stream expected None events") (simp_all add: append_event_def append_lazy_def)
  then have ne: "events \<noteq> []" by (auto simp: refusal_def split: if_splits)
  from ref q ids room quiet ok have m: "content s' = append_map C (Es 0) (content s) stream None True events"
    "first_version info = next_version C (content s) stream"
    by (auto simp: append_event_def append_lazy_def append_start_def)
  have wf': "wf_db C (content s')" unfolding m by (rule serde_codec.wf_append_map [OF serde wf name ids room ne])
  let ?b = "batch_of C (Es 0) (content s) stream None events"
  have read: "read_stream B C st stream (Unbounded, Unbounded) = Inr (map event_from_parts (history C (content st) stream 0 None))"
    if "wf_db C (content st)" for st
    using event_store.read_from [OF store that name, of 0] by (simp add: read_stream_def read_events_def bounds_def)
  have h: "history C (content s') stream 0 None = history C (content s) stream 0 None @ ?b"
    unfolding m by (rule serde_codec.history_append [OF serde wf name ids room ne cov op]) simp
  have "map ev_version (map event_from_parts ?b) = [first_version info ..< first_version info + length events]"
    using stamped_versions [of "Es 0" 0 "next_version C (content s) stream" "global_seq (content s) + 1" "last_ts C (content s) stream" events]
    by (simp add: m(2) batch_of_def append_start_def comp_def)
  moreover have "map (\<lambda>e. (ev_type e, ev_data e, ev_metadata e)) (map event_from_parts ?b) =
      map (\<lambda>e. (ne_type e, ne_data e, ne_metadata e)) events"
    by (rule nth_equalityI) (simp_all add: event_from_parts_def batch_nth)
  moreover have "covered C (content s') stream"
    unfolding m by (rule serde_codec.covered_append [OF serde wf name name ids room ne cov])
  ultimately show ?thesis using read [OF wf] read [OF wf'] h by auto
qed

lemma covered_empty [simp]: "covered C Map.empty s"
  by (simp add: covered_def)

lemma open_empty [simp]: "open_from Map.empty s v"
  by (simp add: open_from_def floor_of_def is_deleted_def windows_def)

theorem read_after_append_witness:
  "\<exists>info s' new. append_event mem_ops mem_codec mem_env mem_empty ''a'' NoStream [one_event] = (Inr info, s') \<and>
     read_stream mem_ops mem_codec s' ''a'' (Unbounded, Unbounded) = Inr new \<and> map ev_data new = [''d'']"
proof -
  from mem_store.commit_appends_quiet [of "[one_event]" mem_empty "''a''" mem_env None NoStream None True]
  obtain info s' where c: "append_event mem_ops mem_codec mem_env mem_empty ''a'' NoStream [one_event] = (Inr info, s')"
    by (auto simp: refusal_def append_event_def append_lazy_def)
  have "read_stream mem_ops mem_codec mem_empty ''a'' (Unbounded, Unbounded) = Inr []"
    using mem_store.read_from [of mem_empty "''a''" 0]
    by (simp add: read_stream_def read_events_def bounds_def history_def pick_def)
  with read_after_append [OF mem_store.event_store_axioms _ _ _ _ _ _ _ c] obtain new
    where "read_stream mem_ops mem_codec s' ''a'' (Unbounded, Unbounded) = Inr new"
      "map (\<lambda>e. (ev_type e, ev_data e, ev_metadata e)) new = [(''t'', ''d'', [])]" by auto
  with c show ?thesis by (intro exI [of _ info] exI [of _ s'] exI [of _ new]) (auto simp: map_eq_Cons_conv)
qed

section \<open>Tailing a stream\<close>

definition past :: "version option \<Rightarrow> version \<Rightarrow> bool" where
  "past cursor v = (case cursor of None \<Rightarrow> True | Some c \<Rightarrow> c < v)"

definition advance :: "version option \<Rightarrow> envelope list \<Rightarrow> version option" where
  "advance cursor es = (if es = [] then cursor else Some (env_version (last es)))"

lemma poll_loop_eq:
  assumes "\<And>kv. kv \<in> set l \<Longrightarrow> envelope_decode C (snd kv) = Inr (d kv)" "sorted_wrt (<) (map env_version (map d l))"
  shows "poll_loop (decode_event C from) cursor l =
     (let new = filter (\<lambda>e. from \<le> env_version e \<and> past cursor (env_version e)) (map d l)
      in Inr (advance cursor new, map event_from_parts new))"
  using assms
proof (induction l arbitrary: cursor)
  case (Cons kv l)
  obtain k v where kv: "kv = (k, v)" by (cases kv)
  let ?e = "d kv"
  have dec: "envelope_decode C v = Inr ?e" using Cons.prems(1) [of kv] by (simp add: kv)
  have above: "\<forall>e \<in> set (map d l). env_version ?e < env_version e" using Cons.prems(2) by auto
  note IH = Cons.IH [OF Cons.prems(1)]
  have srt: "sorted_wrt (<) (map env_version (map d l))" using Cons.prems(2) by simp
  show ?case
  proof (cases "from \<le> env_version ?e \<and> past cursor (env_version ?e)")
    case True
    have "filter (\<lambda>e. from \<le> env_version e \<and> past (Some (env_version ?e)) (env_version e)) (map d l) =
        filter (\<lambda>e. from \<le> env_version e \<and> past cursor (env_version e)) (map d l)"
      using above True by (intro filter_cong) (auto simp: past_def split: option.splits dest: bspec intro: less_trans)
    with IH [of "Some (env_version ?e)"] srt True dec show ?thesis
      by (auto simp: kv decode_event_def Let_def past_def advance_def split: option.splits)
  next
    case False
    with IH [of cursor] srt dec show ?thesis
      by (auto simp: kv decode_event_def Let_def past_def split: option.splits)
  qed
qed (simp add: advance_def)

lemma poll_stream:
  assumes "serves r m" "wf_db C m" "name_ok s"
  shows "poll (decode_event C from) (r_prefix s) cursor r =
     (let new = pick C m s (\<lambda>e. from \<le> env_version e \<and> past cursor (env_version e))
      in Inr (advance cursor new, map event_from_parts new))"
proof -
  obtain l where l: "kv_scan r (r_prefix s) = Inr l" "is_scan m (r_prefix s) (Unbounded, Unbounded) l"
    using serves_scan [OF assms(1)] by metis
  have "is_scan m (r_prefix s) (Included (fmt016 0), case None of Some h \<Rightarrow> Excluded (fmt016 h) | None \<Rightarrow> Unbounded) l"
  proof -
    have "scan_set m (r_prefix s) (Unbounded, Unbounded) = scan_set m (r_prefix s) (Included (fmt016 0), Unbounded)"
    proof (rule set_eqI, clarify)
      fix k b
      have "in_range (Included (fmt016 0), Unbounded) x" if "m (r_prefix s @ x) = Some b" for x
        using wf_db_record [OF assms(2,3) that] by (metis above_lower.simps(1) below_upper.simps(3) fmt016_le fst_conv
            in_range_def le0 snd_conv zero_less_numeral zero_less_power)
      then show "(k, b) \<in> scan_set m (r_prefix s) (Unbounded, Unbounded) \<longleftrightarrow>
          (k, b) \<in> scan_set m (r_prefix s) (Included (fmt016 0), Unbounded)"
        by (auto simp: in_scan_set)
    qed
    with l(2) show ?thesis by (simp add: is_scan_def)
  qed
  from scan_records [OF assms(2,3) _ _ this] obtain d where
    d: "\<And>kv. kv \<in> set l \<Longrightarrow> envelope_decode C (snd kv) = Inr (d kv)" "map d l = pick C m s (\<lambda>e. in_window 0 None (env_version e))"
    by auto
  have "sorted_wrt (<) (map env_version (map d l))" unfolding d(2) by (rule sorted_pick [OF assms(2,3)])
  from poll_loop_eq [OF d(1) this] show ?thesis
    using l(1) d(2) by (simp add: poll_def Let_def filter_pick [OF assms(2,3)] in_window_def)
qed

text \<open>From one poll to the next the stream's records stay, and new ones come after all of them.\<close>

definition grows :: "codec \<Rightarrow> string \<Rightarrow> kv_map \<Rightarrow> kv_map \<Rightarrow> bool" where
  "grows C s m m' \<longleftrightarrow>
     (\<forall>v e. stored C m s v = Some e \<longrightarrow> stored C m' s v = Some e) \<and>
     (\<forall>v e. stored C m' s v = Some e \<longrightarrow> stored C m s v = None \<longrightarrow> (\<forall>u e'. stored C m s u = Some e' \<longrightarrow> u < v))"

fun growing :: "codec \<Rightarrow> string \<Rightarrow> kv_map \<Rightarrow> kv_map list \<Rightarrow> bool" where
  "growing C s m [] \<longleftrightarrow> True"
| "growing C s m (m' # ms) \<longleftrightarrow> wf_db C m' \<and> grows C s m m' \<and> growing C s m' ms"

lemma pick_grows:
  fixes start :: version
  assumes "wf_db C m" "wf_db C m'" "name_ok s" "grows C s m m'"
  defines "old \<equiv> pick C m s (\<lambda>e. start \<le> env_version e)"
    and "new \<equiv> pick C m' s (\<lambda>e. start \<le> env_version e \<and> past (advance None (pick C m s (\<lambda>e. start \<le> env_version e))) (env_version e))"
  shows "pick C m' s (\<lambda>e. start \<le> env_version e) = old @ new"
    "advance (advance None old) new = advance None (old @ new)"
proof -
  note wf = assms(1) and wf' = assms(2) and s = assms(3)
  have old_in: "e \<in> set old \<longleftrightarrow> (\<exists>v. stored C m s v = Some e \<and> start \<le> env_version e)" for e
    unfolding old_def set_pick [OF wf s] by simp
  have new_in: "e \<in> set new \<longleftrightarrow> (\<exists>v. stored C m' s v = Some e \<and> start \<le> env_version e \<and> past (advance None old) (env_version e))" for e
    unfolding new_def old_def set_pick [OF wf' s] by simp
  have srt: "sorted_wrt (<) (map env_version old)" unfolding old_def by (rule sorted_pick [OF wf s])
  have past_iff: "past (advance None old) v \<longleftrightarrow> (\<forall>e \<in> set old. env_version e < v)" for v
  proof (cases old rule: rev_cases)
    case (snoc zs z)
    with srt have "\<forall>e \<in> set zs. env_version e < env_version z" by (simp add: sorted_wrt_append)
    with snoc show ?thesis by (auto simp: past_def advance_def)
  qed (simp add: past_def advance_def)
  show "pick C m' s (\<lambda>e. start \<le> env_version e) = old @ new"
  proof (rule pick_unique [OF wf' s, symmetric])
    show "sorted_wrt (<) (map env_version (old @ new))"
      using srt sorted_pick [OF wf' s] past_iff new_in unfolding map_append sorted_wrt_append new_def by auto
    show "set (old @ new) = {e. \<exists>v. stored C m' s v = Some e \<and> start \<le> env_version e}"
    proof (intro set_eqI iffI)
      fix e assume "e \<in> set (old @ new)"
      then show "e \<in> {e. \<exists>v. stored C m' s v = Some e \<and> start \<le> env_version e}"
        using assms(4) by (auto simp: old_in new_in grows_def)
    next
      fix e assume "e \<in> {e. \<exists>v. stored C m' s v = Some e \<and> start \<le> env_version e}"
      then obtain v where v: "stored C m' s v = Some e" "start \<le> env_version e" by blast
      show "e \<in> set (old @ new)"
      proof (cases "stored C m s v")
        case None
        have "env_version e' < env_version e" if "e' \<in> set old" for e'
          using that None v(1) assms(4) stored_version [OF wf' s v(1)] stored_version [OF wf s] by (auto simp: old_in grows_def)
        with v past_iff new_in show ?thesis by auto
      next
        case (Some e')
        then have "e' = e" using assms(4) v(1) by (auto simp: grows_def)
        with Some v old_in show ?thesis by auto
      qed
    qed
  qed
  show "advance (advance None old) new = advance None (old @ new)" by (simp add: advance_def)
qed

lemma follow_growing:
  assumes "list_all2 serves rs ms" "wf_db C m" "growing C s m ms" "name_ok s"
  shows "map Inr (map event_from_parts (pick C m s (\<lambda>e. start \<le> env_version e))) @
      follow (decode_event C start) (r_prefix s) (advance None (pick C m s (\<lambda>e. start \<le> env_version e))) rs =
    map Inr (map event_from_parts (pick C (last (m # ms)) s (\<lambda>e. start \<le> env_version e)))"
  using assms(1-3)
proof (induction rs ms arbitrary: m rule: list_all2_induct)
  case (Cons r rs m' ms)
  then have wf': "wf_db C m'" and g: "grows C s m m'" by simp_all
  note p = pick_grows [OF Cons.prems(1) wf' assms(4) g, of start]
  show ?case
    using Cons.IH [OF wf'] Cons.prems Cons.hyps p
    by (simp add: poll_stream [OF Cons.hyps(1) wf' assms(4)] Let_def)
qed simp

text \<open>C21: tailing a stream yields each event once, in version order: over polls of states in which records only
  come after the existing ones, the messages are exactly the records of the last state from the
  start version on, without a gap, a repetition or an error.\<close>

theorem follow_stream_exactly_once:
  assumes "list_all2 serves rs ms" "growing C s Map.empty ms" "name_ok s" "ms \<noteq> []"
  shows "follow_stream C s start rs = map (Inr \<circ> event_from_parts) (pick C (last ms) s (\<lambda>e. start \<le> env_version e))"
  using follow_growing [OF assms(1) wf_db_empty assms(2,3), of start] assms(4)
  by (simp add: follow_stream_def pick_def advance_def)

theorem follow_stream_exactly_once_witness:
  "follow_stream mem_codec ''a'' 0 [db_reader mem_ops mem_empty, db_reader mem_ops example_db] =
     map (Inr \<circ> event_from_parts) (pick mem_codec (mem_content example_db) ''a'' (\<lambda>e. 0 \<le> env_version e))"
  using follow_stream_exactly_once [of "[db_reader mem_ops mem_empty, db_reader mem_ops example_db]"
      "[mem_content mem_empty, mem_content example_db]" mem_codec "''a''" 0] mem.serves_db [of mem_empty] mem.serves_db [of example_db]
  by (simp add: grows_def)

end
