(* ===== verification/Compaction.thy ===== *)
theory Compaction
  imports Query_Props
begin

text \<open>
  Snapshots, compaction and the compaction-job journal: the snapshot and job operations of
  \<open>src/store.rs\<close> and the status fold of \<open>src/jobs.rs\<close>. An aggregate is application code: the
  parameter record \<open>'a aggregate\<close>.
\<close>

section \<open>Jobs\<close>

definition JOBS_PREFIX :: bytes where
  "JOBS_PREFIX = ''j/jobs/''"

datatype job_status = Pending | ClaimedBy string | Completed | FailedWith string

fun job_event_id :: "job_event \<Rightarrow> string" where
  "job_event_id (Requested j _ _) = j"
| "job_event_id (Claimed j _ _) = j"
| "job_event_id (Failed j _ _) = j"

fun job_event_status :: "job_event \<Rightarrow> job_status" where
  "job_event_status (Requested _ _ _) = Pending"
| "job_event_status (Claimed _ worker _) = ClaimedBy worker"
| "job_event_status (Failed _ err _) = FailedWith err"

definition jobs_fold :: "job_event list \<Rightarrow> job_status option" where
  "jobs_fold events = foldl (\<lambda>status e. Some (job_event_status e)) None events"

definition job_events :: "codec \<Rightarrow> kv_read \<Rightarrow> string \<Rightarrow> job_event list res" where
  "job_events C r job_id =
     bind_res (kv_scan r JOBS_PREFIX) (\<lambda>kvs.
     bind_res (map_res (\<lambda>(_, value). map_err Encoding (unjson_job C value)) kvs) (\<lambda>events.
       Inr (filter (\<lambda>e. job_event_id e = job_id) events)))"

definition job_key :: "string \<Rightarrow> bytes" where
  "job_key ulid = JOBS_PREFIX @ ulid"

text \<open>A single write outside a transaction.\<close>

definition write_job :: "('s, 't) slatedb_ops \<Rightarrow> codec \<Rightarrow> 's \<Rightarrow> string \<Rightarrow> job_event \<Rightarrow> unit res \<times> 's" where
  "write_job B C s ulid e =
     (case json_job C e of
        Inl w \<Rightarrow> (Inl (Encoding w), s)
      | Inr b \<Rightarrow> (case db_put B s (job_key ulid) b of
          (Inl w, s') \<Rightarrow> (Inl (Backend w), s')
        | (Inr _, s') \<Rightarrow> (Inr (), s')))"

definition request_compaction :: "('s, 't) slatedb_ops \<Rightarrow> codec \<Rightarrow> 's env \<Rightarrow> 's \<Rightarrow> string \<Rightarrow> string res \<times> 's" where
  "request_compaction B C E s stream =
     (let job_id = ulids E 0 in
      apfst (\<lambda>r. bind_res r (\<lambda>_. Inr job_id)) (write_job B C s (ulids E 1) (Requested job_id stream (clock E 0))))"

text \<open>The text of \<open>{:?}\<close> for a status.\<close>

fun debug_status :: "job_status option \<Rightarrow> string" where
  "debug_status None = ''None''"
| "debug_status (Some Pending) = ''Some(Pending)''"
| "debug_status (Some (ClaimedBy w)) = ''Some(Claimed { worker: '' @ debug_str w @ '' })''"
| "debug_status (Some Completed) = ''Some(Completed)''"
| "debug_status (Some (FailedWith w)) = ''Some(Failed { error: '' @ debug_str w @ '' })''"

definition claim_compaction :: "('s, 't) slatedb_ops \<Rightarrow> codec \<Rightarrow> 's env \<Rightarrow> 's \<Rightarrow> string \<Rightarrow> string \<Rightarrow> unit res \<times> 's" where
  "claim_compaction B C E s job_id worker =
     apfst (\<lambda>r. bind_res r (\<lambda>_. Inr ())) (with_txn B E s (\<lambda>t.
       bind_res (job_events C (tx_reader B t) job_id) (\<lambda>events.
         if jobs_fold events = Some Pending then
           bind_res (map_err Encoding (json_job C (Claimed job_id worker (clock E 0)))) (\<lambda>b.
           bind_res (map_err Backend (tx_put B t (job_key (ulids E 0)) b)) (\<lambda>t'. Inr ((), t')))
         else Inl (InvalidInput (''job '' @ quoted job_id @ '' is not claimable: '' @ debug_status (jobs_fold events))))))"

definition fail_compaction :: "('s, 't) slatedb_ops \<Rightarrow> codec \<Rightarrow> 's env \<Rightarrow> 's \<Rightarrow> string \<Rightarrow> string \<Rightarrow> unit res \<times> 's" where
  "fail_compaction B C E s job_id err = write_job B C s (ulids E 0) (Failed job_id err (clock E 0))"

section \<open>Snapshots\<close>

definition latest_snapshot :: "('s, 't) slatedb_ops \<Rightarrow> codec \<Rightarrow> 's \<Rightarrow> string \<Rightarrow> snapshot_record option res" where
  "latest_snapshot B C s stream = kv_latest_snapshot C (db_reader B s) stream"

definition compaction_records :: "('s, 't) slatedb_ops \<Rightarrow> codec \<Rightarrow> 's \<Rightarrow> compaction_record list res" where
  "compaction_records B C s =
     bind_res (kv_scan (db_reader B s) COMPACTIONS_PREFIX) (\<lambda>kvs. map_res (\<lambda>(_, v). map_err Encoding (unjson_compaction C v)) kvs)"

definition job_status_of :: "('s, 't) slatedb_ops \<Rightarrow> codec \<Rightarrow> 's \<Rightarrow> string \<Rightarrow> job_status option res" where
  "job_status_of B C s job_id =
     bind_res (compaction_records B C s) (\<lambda>rs.
       if list_ex (\<lambda>r. comp_job_id r = Some job_id) rs then Inr (Some Completed)
       else bind_res (job_events C (db_reader B s) job_id) (\<lambda>events. Inr (jobs_fold events)))"

definition snap_key :: "string \<Rightarrow> u64 \<Rightarrow> bytes" where
  "snap_key stream sq = snap_prefix stream @ fmt016 sq"

definition publish_snapshot ::
  "('s, 't) slatedb_ops \<Rightarrow> codec \<Rightarrow> 's env \<Rightarrow> 's \<Rightarrow> string \<Rightarrow> compaction_record \<Rightarrow> bytes \<Rightarrow> unit res \<times> 's" where
  "publish_snapshot B C E s stream rec state =
     (case bind_res (map_err Backend (db_begin B s)) (\<lambda>t.
           bind_res (get_be (tx_reader B t) SEQ_KEY) (\<lambda>v.
             let sq = add64 (seq_of v) 1 in
             bind_res (map_err Encoding (json_snapshot C
                 \<lparr>snap_through_version = comp_through_version rec, snap_ts_ms = comp_ts_ms rec, snap_state = state\<rparr>)) (\<lambda>b1.
             bind_res (map_err Backend (tx_put B t (snap_key stream sq) b1)) (\<lambda>t1.
             bind_res (map_err Encoding (json_compaction C rec)) (\<lambda>b2.
             bind_res (map_err Backend (tx_put B t1 (COMPACTIONS_PREFIX @ ulids E 0) b2)) (\<lambda>t2.
               Inr (t2, sq))))))) of
        Inl e \<Rightarrow> (Inl e, s)
      | Inr (t, sq) \<Rightarrow> (case commit_seq B (others E s) t sq of
          (Inl e, s') \<Rightarrow> (Inl (Backend e), s')
        | (Inr None, s') \<Rightarrow> (Inr (), s')
        | (Inr (Some wal_seq), s') \<Rightarrow> (await_seq (watch E) wal_seq, s')))"

definition compact_inner ::
  "('s, 't) slatedb_ops \<Rightarrow> codec \<Rightarrow> 's env \<Rightarrow> 's \<Rightarrow> string \<Rightarrow> string option \<Rightarrow> (event list \<Rightarrow> bytes res) \<Rightarrow>
   (compaction_record res \<times> 's) option" where
  "compact_inner B C E s stream job_id build =
     map_option (\<lambda>r. case bind_res r (\<lambda>events. bind_res (build events) (\<lambda>state.
           if events = [] then Inl (InvalidInput (quoted stream @ '' has no events to compact''))
           else Inr (\<lparr>comp_stream = stream, comp_through_version = ev_version (last events),
                      comp_events_compacted = length events, comp_job_id = job_id, comp_ts_ms = clock E 0\<rparr>, state))) of
         Inl e \<Rightarrow> (Inl e, s)
       | Inr (rec, state) \<Rightarrow> apfst (\<lambda>r. bind_res r (\<lambda>_. Inr rec)) (publish_snapshot B C E s stream rec state))
     (read_history B C s stream (Included 0, Unbounded))"

definition compact_with ::
  "('s, 't) slatedb_ops \<Rightarrow> codec \<Rightarrow> 's env \<Rightarrow> 's \<Rightarrow> string \<Rightarrow> (event list \<Rightarrow> bytes res) \<Rightarrow> (compaction_record res \<times> 's) option" where
  "compact_with B C E s stream build = compact_inner B C E s stream None build"

definition compact_job ::
  "('s, 't) slatedb_ops \<Rightarrow> codec \<Rightarrow> 's env \<Rightarrow> 's \<Rightarrow> string \<Rightarrow> string \<Rightarrow> (event list \<Rightarrow> bytes res) \<Rightarrow> (compaction_record res \<times> 's) option" where
  "compact_job B C E s stream job_id build = compact_inner B C E s stream (Some job_id) build"

definition compact ::
  "('s, 't) slatedb_ops \<Rightarrow> codec \<Rightarrow> 'a aggregate \<Rightarrow> 's env \<Rightarrow> 's \<Rightarrow> string \<Rightarrow> (compaction_record res \<times> 's) option" where
  "compact B C A E s stream =
     compact_with B C E s stream (\<lambda>events. agg_snapshot A (foldl (agg_apply A) (agg_default A) events))"

definition rehydrate ::
  "('s, 't) slatedb_ops \<Rightarrow> codec \<Rightarrow> 'a aggregate \<Rightarrow> 's \<Rightarrow> string \<Rightarrow> ('a \<times> version option) res option" where
  "rehydrate B C A s stream =
     (case latest_snapshot B C s stream of
        Inl e \<Rightarrow> Some (Inl e)
      | Inr (Some snap) \<Rightarrow> (case agg_restore A (snap_state snap) of
          Inl e \<Rightarrow> Some (Inl e)
        | Inr a \<Rightarrow> map_option (\<lambda>r. bind_res r (\<lambda>(a', tail).
              Inr (a', case tail of Some v \<Rightarrow> Some v | None \<Rightarrow> Some (snap_through_version snap))))
            (store_fold B C s stream (Included (add64 (snap_through_version snap) 1), Unbounded) a (agg_apply A)))
      | Inr None \<Rightarrow> store_fold B C s stream (Included 0, Unbounded) (agg_default A) (agg_apply A))"

definition compaction_backlog :: "('s, 't) slatedb_ops \<Rightarrow> codec \<Rightarrow> 's \<Rightarrow> string \<Rightarrow> u64 res" where
  "compaction_backlog B C s stream =
     bind_res (stream_version B C s stream) (\<lambda>v.
     bind_res (latest_snapshot B C s stream) (\<lambda>snap.
       Inr ((case v of None \<Rightarrow> 0 | Some n \<Rightarrow> add64 n 1) -
            (case snap of None \<Rightarrow> 0 | Some r \<Rightarrow> add64 (snap_through_version r) 1))))"

end
