(* ===== verification/Compaction_Props.thy ===== *)
theory Compaction_Props
  imports Compaction
begin

text \<open>
  Correctness of snapshots and of the job journal: a published snapshot is the latest one, a
  rehydration from it gives the state a fold of the whole history gives, and the journal of a job
  determines who may claim it.
\<close>

section \<open>Ranges of a lineage\<close>

lemma lineage_bounds:
  assumes "lineage C m s lo hi es" "wf_db C m" "name_ok s" "e \<in> set es"
  shows "lo \<le> env_version e \<and> (\<forall>h. hi = Some h \<longrightarrow> env_version e < h)"
  using assms(1,3,4)
proof (induction rule: lineage.induct)
  case (own lo hi s)
  then show ?case by (auto simp: history_def set_pick [OF assms(2)] in_window_def)
next
  case (forked lo hi s f es)
  then have f: "fork_of C m s = Some f" by (simp add: inherits_fork)
  show ?case
  proof (cases "e \<in> set es")
    case True
    with forked.IH fork_of_wf [OF assms(2) forked.prems(1) f] show ?thesis by (auto simp: pin_hi_def split: option.splits)
  next
    case False
    with forked.prems show ?thesis by (auto simp: history_def set_pick [OF assms(2)] in_window_def)
  qed
qed simp

lemma lineage_from:
  assumes "lineage C m s lo hi es" "wf_db C m" "name_ok s" "lo \<le> lo'"
  shows "lineage C m s lo' hi (filter (\<lambda>e. lo' \<le> env_version e) es)"
  using assms(1,3,4)
proof (induction rule: lineage.induct)
  case (empty lo hi s)
  then have "empty_range lo' hi" by (auto simp: empty_range_def split: option.splits)
  then show ?case by (simp add: lineage.empty)
next
  case (own lo hi s)
  show ?case
  proof (cases "empty_range lo' hi")
    case True
    have "filter (\<lambda>e. lo' \<le> env_version e) (history C m s lo hi) = []"
      using True by (auto simp: filter_empty_conv history_def set_pick [OF assms(2) own.prems(1)] in_window_def empty_range_def split: option.splits)
    with True lineage.empty show ?thesis by metis
  next
    case False
    have "inherits C m s lo' hi = None" using own.hyps(2) own.prems(2) by (auto simp: inherits_def split: option.splits if_splits)
    from lineage.own [OF False this] show ?thesis using history_from [OF assms(2) own.prems(1,2)] by simp
  qed
next
  case (forked lo hi s f es)
  then have f: "fork_of C m s = Some f" "lo < pin_hi f hi" by (simp_all add: inherits_fork)
  note wf = fork_of_wf [OF assms(2) forked.prems(1) f(1)]
  have esb: "env_version e < pin_hi f hi" if "e \<in> set es" for e
    using lineage_bounds [OF forked.hyps(3) assms(2) _ that] wf by simp
  have pin: "pin_hi f hi \<le> h" if "hi = Some h" for h using that by (simp add: pin_hi_def)
  show ?case
  proof (cases "empty_range lo' hi")
    case True
    then obtain h where h: "hi = Some h" "h \<le> lo'" by (auto simp: empty_range_def split: option.splits)
    have "filter (\<lambda>e. lo' \<le> env_version e) (es @ history C m s lo hi) = []"
      using esb pin [OF h(1)] h
      by (fastforce simp: filter_empty_conv history_def set_pick [OF assms(2) forked.prems(1)] in_window_def)
    with True lineage.empty show ?thesis by metis
  next
    case False
    note own = history_from [OF assms(2) forked.prems(1,2), of hi]
    show ?thesis
    proof (cases "lo' < pin_hi f hi")
      case True
      then have "inherits C m s lo' hi = Some f" using f(1) by (simp add: inherits_fork)
      from lineage.forked [OF False this] forked.IH wf forked.prems(2) own show ?thesis by simp
    next
      case above: False
      then have "inherits C m s lo' hi = None" using f(1) by (simp add: inherits_def)
      from lineage.own [OF False this] have "lineage C m s lo' hi (history C m s lo' hi)" .
      moreover have "filter (\<lambda>e. lo' \<le> env_version e) es = []" using esb above by (fastforce simp: filter_empty_conv)
      ultimately show ?thesis using own by simp
    qed
  qed
qed

text \<open>Changes outside the record and metadata keys, or of a fence.\<close>

lemma same_meta:
  assumes "\<And>s f. f \<noteq> ''fence'' \<Longrightarrow> m' (m_key s f) = m (m_key s f)" "\<And>s v. m' (r_key s v) = m (r_key s v)"
  shows "history C m' s lo hi = history C m s lo hi" "fork_of C m' s = fork_of C m s" "tail_of C m' s = tail_of C m s"
    "current_version C m' s = current_version C m s" "forks_ok C m' = forks_ok C m"
proof -
  have v: "visible m' s = visible m s"
    by (rule visible_cong) (simp_all add: floor_of_def is_deleted_def windows_def live_pins_def assms(1))
  then show "history C m' s lo hi = history C m s lo hi" by (intro history_cong) (simp_all add: stored_def assms(2))
  show f: "fork_of C m' s = fork_of C m s" for s by (simp add: fork_of_def assms(1))
  show t: "tail_of C m' s = tail_of C m s" "current_version C m' s = current_version C m s" for s
    by (simp_all add: tail_of_def current_version_def assms(1))
  show "forks_ok C m' = forks_ok C m" by (simp add: forks_ok_def descends_def f t)
qed

lemma same_meta_lineage:
  assumes "\<And>s f. f \<noteq> ''fence'' \<Longrightarrow> m' (m_key s f) = m (m_key s f)" "\<And>s v. m' (r_key s v) = m (r_key s v)"
    "wf_db C m" "name_ok s" "lineage C m s lo hi es"
  shows "lineage C m' s lo hi es"
  using assms(5) by (rule lineage_cong [where P = "\<lambda>s hi. True"]) (simp_all add: assms(3,4) same_meta [OF assms(1,2)])

section \<open>Publishing\<close>

definition publish_map :: "codec \<Rightarrow> 's env \<Rightarrow> kv_map \<Rightarrow> string \<Rightarrow> compaction_record \<Rightarrow> bytes \<Rightarrow> kv_map" where
  "publish_map C E m stream rec state =
     m(snap_key stream (global_seq m + 1) \<mapsto> projr (json_snapshot C
         \<lparr>snap_through_version = comp_through_version rec, snap_ts_ms = comp_ts_ms rec, snap_state = state\<rparr>),
       COMPACTIONS_PREFIX @ ulids E 0 \<mapsto> projr (json_compaction C rec),
       SEQ_KEY \<mapsto> to_be_bytes (global_seq m + 1))"

text \<open>Every snapshot of the stream was written at a sequence number the counter has reached.\<close>

definition snaps_ok :: "kv_map \<Rightarrow> string \<Rightarrow> bool" where
  "snaps_ok m stream \<longleftrightarrow> (\<forall>x b. m (snap_prefix stream @ x) = Some b \<longrightarrow> (\<exists>q \<le> global_seq m. x = fmt016 q))"

lemma publish_map_keys [simp]:
  "publish_map C E m stream rec state (m_key s f) = m (m_key s f)"
  "publish_map C E m stream rec state (r_key s v) = m (r_key s v)"
  by (simp_all add: publish_map_def COMPACTIONS_PREFIX_def snap_key_def)

lemma wf_publish_map: "wf_db C m \<Longrightarrow> wf_db C (publish_map C E m stream rec state)"
  unfolding publish_map_def
  by (intro wf_db_upd wf_entry_other) (simp_all add: snap_key_def snap_prefix_def COMPACTIONS_PREFIX_def SEQ_KEY_def)

lemma publish_map_seq: "global_seq m + 1 < 2 ^ 64 \<Longrightarrow> global_seq (publish_map C E m stream rec state) = global_seq m + 1"
  by (simp add: publish_map_def global_seq_def [of "_(SEQ_KEY \<mapsto> _)"] seq_of_def)

lemma publish_map_snap:
  "publish_map C E m stream rec state (snap_prefix stream @ x) =
     (if x = fmt016 (global_seq m + 1) then Some (projr (json_snapshot C
         \<lparr>snap_through_version = comp_through_version rec, snap_ts_ms = comp_ts_ms rec, snap_state = state\<rparr>))
      else m (snap_prefix stream @ x))"
  by (auto simp: publish_map_def snap_key_def COMPACTIONS_PREFIX_def SEQ_KEY_def snap_prefix_def)

lemma snaps_ok_publish:
  assumes "snaps_ok m stream" "global_seq m + 1 < 2 ^ 64"
  shows "snaps_ok (publish_map C E m stream rec state) stream"
  using assms unfolding snaps_ok_def publish_map_seq [OF assms(2)] publish_map_snap
  by (auto split: if_splits intro: le_SucI)

lemma last_scan:
  assumes "is_scan m p rg l" "(k, v) \<in> set l" "\<And>k' v'. (k', v') \<in> set l \<Longrightarrow> k' \<le> k"
  shows "last l = (k, v)"
proof -
  obtain zs z where l: "l = zs @ [z]" using assms(2) by (cases l rule: rev_cases) auto
  have srt: "\<forall>x \<in> set zs. fst x < fst z" using assms(1) by (auto simp: is_scan_def l sorted_wrt_append)
  have "fst z \<le> k" using assms(3) [of "fst z" "snd z"] by (simp add: l)
  have "(k, v) \<in> set zs \<Longrightarrow> False" using srt \<open>fst z \<le> k\<close> by force
  with assms(2) l show ?thesis by auto
qed

context serde_codec begin

lemma snapshot_inverse:
  "json_snapshot C r = Inr (projr (json_snapshot C r)) \<and> unjson_snapshot C (projr (json_snapshot C r)) = Inr r"
  using snapshot_codec [of r] by auto

lemma latest_after_publish:
  assumes "serves r (publish_map C E m stream rec state)" "snaps_ok m stream" "global_seq m + 1 < VMAX"
  shows "kv_latest_snapshot C r stream = Inr (Some
     \<lparr>snap_through_version = comp_through_version rec, snap_ts_ms = comp_ts_ms rec, snap_state = state\<rparr>)"
proof -
  let ?m = "publish_map C E m stream rec state" and ?k = "snap_prefix stream @ fmt016 (global_seq m + 1)"
  let ?r = "\<lparr>snap_through_version = comp_through_version rec, snap_ts_ms = comp_ts_ms rec, snap_state = state\<rparr>"
  obtain l where l: "kv_scan r (snap_prefix stream) = Inr l" "is_scan ?m (snap_prefix stream) (Unbounded, Unbounded) l"
    using serves_scan [OF assms(1)] by metis
  have k: "(?k, projr (json_snapshot C ?r)) \<in> set l" using l(2) by (simp add: is_scan_def in_scan_set publish_map_snap)
  have "last l = (?k, projr (json_snapshot C ?r))"
  proof (rule last_scan [OF l(2) k])
    fix k' v' assume "(k', v') \<in> set l"
    then obtain x where x: "k' = snap_prefix stream @ x" "?m k' = Some v'" using l(2) by (auto simp: is_scan_def in_scan_set)
    then show "k' \<le> ?k"
      using assms(2,3) by (auto simp: publish_map_snap snaps_ok_def fmt016_le split: if_splits)
  qed
  moreover have "l \<noteq> []" using k by auto
  ultimately show ?thesis using l(1) snapshot_inverse [of ?r] by (simp add: kv_latest_snapshot_def)
qed

end

context event_store begin

lemma publish_watch:
  assumes "others E s = s" "global_seq (content s) + 1 < 2 ^ 64"
  obtains h s' where "\<forall>w. publish_snapshot B C (E\<lparr>watch := w\<rparr>) s stream rec state = (await_seq w h, s')"
    "content s' = publish_map C E (content s) stream rec state"
proof -
  let ?m = "content s" and ?sq = "global_seq (content s) + 1"
  let ?r = "\<lparr>snap_through_version = comp_through_version rec, snap_ts_ms = comp_ts_ms rec, snap_state = state\<rparr>"
  obtain t where t: "db_begin B s = Inr t" "base t = s" "writes t = Map.empty" "view t = ?m" by (rule tx_beginE)
  have sq: "get_be (tx_reader B t) SEQ_KEY = Inr (map_option be_u64 (?m SEQ_KEY))"
    using get_be_eq [OF serves_tx, of t SEQ_KEY] t(4) by simp
  have add: "add64 (seq_of (map_option be_u64 (?m SEQ_KEY))) 1 = ?sq" using assms(2) by (simp flip: global_seq_def)
  obtain b1 where b1: "json_snapshot C ?r = Inr b1" using snapshot_inverse by blast
  obtain b2 where b2: "json_compaction C rec = Inr b2" using compaction_codec by blast
  obtain t1 where t1: "tx_put B t (snap_key stream ?sq) b1 = Inr t1" "base t1 = base t"
    "writes t1 = (writes t)(snap_key stream ?sq \<mapsto> Some b1)" using tx_putE by metis
  obtain t2 where t2: "tx_put B t1 (COMPACTIONS_PREFIX @ ulids E 0) b2 = Inr t2" "base t2 = base t1"
    "writes t2 = (writes t1)(COMPACTIONS_PREFIX @ ulids E 0 \<mapsto> Some b2)" using tx_putE by metis
  have base2: "base t2 = s" using t t1 t2 by simp
  obtain h s' where c: "commit_seq B s t2 ?sq = (Inr (Some h), s')"
    "content s' = overlay ?m ((writes t2)(SEQ_KEY \<mapsto> Some (to_be_bytes ?sq)))" using commit_seq_quiet [OF base2] by metis
  have m: "content s' = publish_map C E ?m stream rec state"
    unfolding c(2) t2(3) t1(3) t(3) by (simp add: publish_map_def b1 b2)
  have "publish_snapshot B C (E\<lparr>watch := w\<rparr>) s stream rec state = (await_seq w h, s')" for w
    unfolding publish_snapshot_def t(1) map_err_Inr bind_res_Inr sq Let_def add b1 t1(1) b2
    using assms(1) c(1) by (simp add: t2(1))
  with that m show ?thesis by blast
qed

lemma publish_eq:
  assumes "others E s = s" "global_seq (content s) + 1 < 2 ^ 64"
  obtains r s' where "publish_snapshot B C E s stream rec state = (r, s')" "content s' = publish_map C E (content s) stream rec state"
    "r = Inr () \<or> (\<exists>w. r = Inl (Backend (SlateClosed w)))"
proof -
  obtain h s' where p: "\<forall>w. publish_snapshot B C (E\<lparr>watch := w\<rparr>) s stream rec state = (await_seq w h, s')"
    and m: "content s' = publish_map C E (content s) stream rec state" by (rule publish_watch [OF assms])
  have "publish_snapshot B C E s stream rec state = (await_seq (watch E) h, s')" using p [rule_format, of "watch E"] by simp
  moreover have "await_seq (watch E) h = Inr () \<or> (\<exists>w. await_seq (watch E) h = Inl (Backend (SlateClosed w)))"
    by (auto simp: await_seq_def split: option.splits)
  ultimately show ?thesis using that m by blast
qed

lemma store_fold_lineage:
  assumes "forks_ok C (content s)" "wf_db C (content s)" "name_ok stream" "lo < VMAX" "lineage C (content s) stream lo None es"
  shows "store_fold B C s stream (Included lo, Unbounded) a f =
     Some (Inr (foldl f a (map event_from_parts es), last_event_version (map event_from_parts es)))"
  using read_history_lineage [OF assms(1-3), of "(Included lo, Unbounded)" lo None es] assms(4,5)
  by (simp add: store_fold_def read_history_def bounds_def)

end

lemma filter_split_sorted:
  fixes f :: "'a \<Rightarrow> nat"
  assumes "sorted_wrt (<) (map f xs)"
  shows "xs = filter (\<lambda>x. f x \<le> v) xs @ filter (\<lambda>x. v + 1 \<le> f x) xs"
  using assms
proof (induction xs)
  case (Cons x xs)
  show ?case
  proof (cases "f x \<le> v")
    case True
    with Cons show ?thesis by simp
  next
    case False
    with Cons.prems have "\<forall>y \<in> set xs. v < f y" by auto
    then have "filter (\<lambda>x. f x \<le> v) xs = []" "filter (\<lambda>x. v + 1 \<le> f x) xs = xs"
      by (auto simp: filter_empty_conv filter_id_conv)
    with False show ?thesis by simp
  qed
qed simp

lemma rehydrate_full:
  assumes store: "event_store B content writes base C" and inv: "forks_ok C (content s)" "wf_db C (content s)" and name: "name_ok stream"
    and hist: "lineage C (content s) stream 0 None es" "sorted_wrt (<) (map env_version es)"
    and snap: "latest_snapshot B C s stream = Inr (Some snap)" "snap_through_version snap + 1 < VMAX"
    and state: "agg_restore A (snap_state snap) = Inr (foldl (agg_apply A) (agg_default A)
       (map event_from_parts (filter (\<lambda>e. env_version e \<le> snap_through_version snap) es)))"
  shows "rehydrate B C A s stream = Some (Inr (foldl (agg_apply A) (agg_default A) (map event_from_parts es),
     Some (if \<exists>e \<in> set es. snap_through_version snap < env_version e then env_version (last es) else snap_through_version snap)))"
proof -
  let ?v = "snap_through_version snap"
  let ?old = "filter (\<lambda>e. env_version e \<le> ?v) es" and ?new = "filter (\<lambda>e. ?v + 1 \<le> env_version e) es"
  have split: "es = ?old @ ?new" by (rule filter_split_sorted [OF hist(2)])
  have new: "lineage C (content s) stream (?v + 1) None ?new"
    using lineage_from [OF hist(1) inv(2) name, of "?v + 1"] by simp
  have fold: "store_fold B C s stream (Included (?v + 1), Unbounded) a (agg_apply A) =
      Some (Inr (foldl (agg_apply A) a (map event_from_parts ?new), last_event_version (map event_from_parts ?new)))" for a
    by (rule event_store.store_fold_lineage [OF store inv name snap(2) new])
  have all: "foldl (agg_apply A) (foldl (agg_apply A) (agg_default A) (map event_from_parts ?old)) (map event_from_parts ?new) =
      foldl (agg_apply A) (agg_default A) (map event_from_parts es)"
    by (subst (3) split) simp
  have last: "(case last_event_version (map event_from_parts ?new) of Some v \<Rightarrow> Some v | None \<Rightarrow> Some ?v) =
      Some (if \<exists>e \<in> set es. ?v < env_version e then env_version (last es) else ?v)"
  proof (cases "?new = []")
    case True
    then show ?thesis by (auto simp: last_event_version_def filter_empty_conv)
  next
    case False
    then have "last es = last ?new" by (subst split) simp
    moreover have "\<exists>e \<in> set es. ?v < env_version e" using False unfolding filter_empty_conv by fastforce
    ultimately show ?thesis using False by (simp add: last_event_version_def last_map del: filter_empty_conv)
  qed
  have "rehydrate B C A s stream = Some (Inr (foldl (agg_apply A) (agg_default A) (map event_from_parts es),
      case last_event_version (map event_from_parts ?new) of Some v \<Rightarrow> Some v | None \<Rightarrow> Some ?v))"
    using snap(2) fold [of "foldl (agg_apply A) (agg_default A) (map event_from_parts ?old)"] all
    by (simp add: rehydrate_def snap(1) state)
  with last show ?thesis by simp
qed

lemma compact_publishes:
  assumes store: "event_store B content writes base C" and inv: "forks_ok C (content s)" "wf_db C (content s)" and name: "name_ok stream"
    and quiet: "others E s = s" and room: "global_seq (content s) + 1 < VMAX" and snaps: "snaps_ok (content s) stream"
    and agg: "\<And>a b. agg_snapshot A a = Inr b \<Longrightarrow> agg_restore A b = Inr a"
    and hist: "lineage C (content s) stream 0 None es" "sorted_wrt (<) (map env_version es)" "es \<noteq> []" "env_version (last es) + 1 < VMAX"
    and snapshot: "agg_snapshot A (foldl (agg_apply A) (agg_default A) (map event_from_parts es)) = Inr state"
  shows "\<exists>r s'. compact B C A E s stream = Some (r, s') \<and> ((\<exists>rec. r = Inr rec) \<or> (\<exists>w. r = Inl (Backend (SlateClosed w)))) \<and>
     latest_snapshot B C s' stream = Inr (Some \<lparr>snap_through_version = env_version (last es), snap_ts_ms = clock E 0, snap_state = state\<rparr>) \<and>
     snaps_ok (content s') stream \<and> lineage C (content s') stream 0 None es \<and>
     read_history B C s' stream (Unbounded, Unbounded) = read_history B C s stream (Unbounded, Unbounded) \<and>
     rehydrate B C A s' stream =
       Some (Inr (foldl (agg_apply A) (agg_default A) (map event_from_parts es), Some (env_version (last es))))"
proof -
  have serde: "serde_codec C" using store by (simp add: event_store_def)
  let ?rec = "\<lparr>comp_stream = stream, comp_through_version = env_version (last es), comp_events_compacted = length es,
     comp_job_id = None, comp_ts_ms = clock E 0\<rparr>"
  let ?m' = "publish_map C E (content s) stream ?rec state"
  have room64: "global_seq (content s) + 1 < 2 ^ 64" using room by simp
  obtain r s' where p: "publish_snapshot B C E s stream ?rec state = (r, s')" "content s' = ?m'"
    "r = Inr () \<or> (\<exists>w. r = Inl (Backend (SlateClosed w)))"
    by (rule event_store.publish_eq [OF store quiet room64])
  have read: "read_history B C s stream (Included 0, Unbounded) = Some (Inr (map event_from_parts es))"
    by (rule event_store.read_history_lineage [OF store inv name _ _ _ hist(1)]) (simp_all add: bounds_def)
  have c: "compact B C A E s stream = Some (bind_res r (\<lambda>_. Inr ?rec), s')"
    using hist(3) p(1) by (simp add: compact_def compact_with_def compact_inner_def read snapshot last_map)
  have "slatedb B content writes base" using store by (simp add: event_store_def)
  from slatedb.serves_db [OF this, of s'] have "serves (db_reader B s') ?m'" by (simp add: p(2))
  from serde_codec.latest_after_publish [OF serde this snaps room]
  have latest: "latest_snapshot B C s' stream =
      Inr (Some \<lparr>snap_through_version = env_version (last es), snap_ts_ms = clock E 0, snap_state = state\<rparr>)"
    by (simp add: latest_snapshot_def)
  have inv': "forks_ok C (content s')" "wf_db C (content s')"
    unfolding p(2) using inv same_meta(5) [of ?m' "content s" C] wf_publish_map by simp_all
  have lin: "lineage C (content s') stream 0 None es"
    unfolding p(2) by (rule same_meta_lineage [OF _ _ inv(2) name hist(1)]) simp_all
  have le: "env_version e \<le> env_version (last es)" if "e \<in> set es" for e
  proof -
    obtain zs z where "es = zs @ [z]" using hist(3) by (cases es rule: rev_cases) auto
    with hist(2) that show ?thesis by (auto simp: sorted_wrt_append less_imp_le)
  qed
  then have "filter (\<lambda>e. env_version e \<le> env_version (last es)) es = es" by (simp add: filter_id_conv)
  with agg [OF snapshot] le have "rehydrate B C A s' stream =
      Some (Inr (foldl (agg_apply A) (agg_default A) (map event_from_parts es), Some (env_version (last es))))"
    by (subst rehydrate_full [OF store inv' name lin hist(2) latest]) (use hist(4) in \<open>auto simp: not_less\<close>)
  moreover have "read_history B C s' stream (Unbounded, Unbounded) = read_history B C s stream (Unbounded, Unbounded)"
    using event_store.read_history_lineage [OF store inv' name _ _ _ lin, of "(Unbounded, Unbounded)"]
      event_store.read_history_lineage [OF store inv name _ _ _ hist(1), of "(Unbounded, Unbounded)"] by (simp add: bounds_def)
  ultimately show ?thesis
    using c latest lin p(3) snaps_ok_publish [OF snaps room64, of C E ?rec state] unfolding p(2) [symmetric] by auto
qed

text \<open>An aggregate that counts events, and a store with one event.\<close>

definition counter :: "nat aggregate" where
  "counter = \<lparr>agg_default = 0, agg_apply = (\<lambda>n e. n + 1), agg_snapshot = (\<lambda>n. Inr (show_nat n)),
     agg_restore = (\<lambda>b. Inr (dec_value b))\<rparr>"

lemma counter_simps: "agg_snapshot counter n = Inr (show_nat n)" "agg_restore counter b = Inr (dec_value b)"
  by (simp_all add: counter_def)

lemma mem_env_clock: "clock (mem_env k) i = 5"
  by (simp add: mem_env_def)

definition example_batch :: "envelope list" where
  "example_batch = batch_of mem_codec (mem_env 0) Map.empty ''a'' None [one_event]"

lemma example_lineage: "lineage mem_codec (mem_content example_db) ''a'' 0 None example_batch"
proof -
  have "history mem_codec (mem_content example_db) ''a'' 0 None = example_batch"
    unfolding example_db_content example_batch_def
    using mem_serde.history_append [of Map.empty "''a''" "mem_env 0" "[one_event]" 0 True] by (simp add: history_def pick_def)
  moreover have "inherits mem_codec (mem_content example_db) ''a'' 0 None = None"
    unfolding example_db_content by (simp add: inherits_def fork_of_def append_map_field)
  ultimately show ?thesis
    using lineage.own [of 0 None mem_codec "mem_content example_db" "''a''"] by (simp add: empty_range_def)
qed

lemma example_batch_one: obtains e where "example_batch = [e]"
proof -
  have "length example_batch = Suc 0" by (simp add: example_batch_def)
  with that show ?thesis by (auto simp: length_Suc_conv)
qed

lemma example_batch_simps [simp]: "length example_batch = 1" "example_batch \<noteq> []" "env_version (last example_batch) = 0"
  "sorted_wrt (<) (map env_version example_batch)"
proof -
  show "length example_batch = 1" by (simp add: example_batch_def)
  obtain e where e: "example_batch = [e]" by (rule example_batch_one)
  show "example_batch \<noteq> []" "sorted_wrt (<) (map env_version example_batch)" unfolding e by simp_all
  have "env_version (example_batch ! 0) = 0" by (simp add: example_batch_def batch_nth append_start_def)
  then show "env_version (last example_batch) = 0" unfolding e by simp
qed

lemma snaps_ok_example: "snaps_ok (mem_content example_db) ''a''"
proof -
  have "mem_content example_db (snap_prefix ''a'' @ x) = None" for x
    unfolding example_db_content append_map_def
    by (subst appended_other) (auto simp: ts_key_def snap_prefix_def r_key_def m_key_def SEQ_KEY_def)
  then show ?thesis by (simp add: snaps_ok_def)
qed

lemma example_compaction:
  obtains r s' state where "compact mem_ops mem_codec counter (mem_env 0) example_db ''a'' = Some (r, s')"
    "latest_snapshot mem_ops mem_codec s' ''a'' = Inr (Some \<lparr>snap_through_version = 0, snap_ts_ms = 5, snap_state = show_nat 1\<rparr>)"
    "lineage mem_codec (mem_content s') ''a'' 0 None example_batch" "forks_ok mem_codec (mem_content s')" "wf_db mem_codec (mem_content s')"
proof -
  have fold: "foldl (agg_apply counter) (agg_default counter) (map event_from_parts example_batch) = 1"
  proof -
    obtain e where e: "example_batch = [e]" by (rule example_batch_one)
    show ?thesis unfolding e by (simp add: counter_def)
  qed
  let ?rec = "\<lparr>comp_stream = ''a'', comp_through_version = 0, comp_events_compacted = 1, comp_job_id = None, comp_ts_ms = 5\<rparr>"
  obtain r s' where p: "publish_snapshot mem_ops mem_codec (mem_env 0) example_db ''a'' ?rec (show_nat 1) = (r, s')"
    "mem_content s' = publish_map mem_codec (mem_env 0) (mem_content example_db) ''a'' ?rec (show_nat 1)"
    by (rule mem_store.publish_eq [of "mem_env 0" example_db "''a''" ?rec "show_nat 1"]) simp_all
  have read: "read_history mem_ops mem_codec example_db ''a'' (Included 0, Unbounded) = Some (Inr (map event_from_parts example_batch))"
    by (rule mem_store.read_history_lineage [OF _ _ _ _ _ _ example_lineage]) (simp_all add: bounds_def)
  have "compact mem_ops mem_codec counter (mem_env 0) example_db ''a'' = Some (bind_res r (\<lambda>_. Inr ?rec), s')"
    using p(1) by (simp add: compact_def compact_with_def compact_inner_def read fold last_map counter_simps mem_env_clock)
  moreover have "latest_snapshot mem_ops mem_codec s' ''a'' = Inr (Some \<lparr>snap_through_version = 0, snap_ts_ms = 5, snap_state = show_nat 1\<rparr>)"
    using mem_serde.latest_after_publish [of "db_reader mem_ops s'" "mem_env 0" "mem_content example_db" "''a''" ?rec "show_nat 1"]
      mem.serves_db [of s'] snaps_ok_example by (simp add: p(2) latest_snapshot_def)
  moreover have "lineage mem_codec (mem_content s') ''a'' 0 None example_batch"
    unfolding p(2) by (rule same_meta_lineage [OF _ _ _ _ example_lineage]) simp_all
  moreover have "forks_ok mem_codec (mem_content s')" "wf_db mem_codec (mem_content s')"
    unfolding p(2) using same_meta(5) [of "publish_map mem_codec (mem_env 0) (mem_content example_db) ''a'' ?rec (show_nat 1)" "mem_content example_db" mem_codec]
    by (simp_all add: wf_publish_map)
  ultimately show ?thesis using that by blast
qed

section \<open>Properties\<close>

text \<open>C22: rehydrating from a snapshot gives the state of a full fold: when the latest snapshot restores to the fold of
  the history through its version, the rehydrated state is the fold of the whole fork-resolved
  history, and the version returned is that of its last event.\<close>

theorem rehydrate_eq_full_fold:
  assumes store: "event_store B content writes base C" and inv: "forks_ok C (content s)" "wf_db C (content s)" and name: "name_ok stream"
    and hist: "lineage C (content s) stream 0 None es" "sorted_wrt (<) (map env_version es)"
    and snap: "latest_snapshot B C s stream = Inr (Some snap)" "snap_through_version snap + 1 < VMAX"
    and state: "agg_restore A (snap_state snap) = Inr (foldl (agg_apply A) (agg_default A)
       (map event_from_parts (filter (\<lambda>e. env_version e \<le> snap_through_version snap) es)))"
  shows "rehydrate B C A s stream = Some (Inr (foldl (agg_apply A) (agg_default A) (map event_from_parts es),
     Some (if \<exists>e \<in> set es. snap_through_version snap < env_version e then env_version (last es) else snap_through_version snap)))"
  using assms by (rule rehydrate_full)

theorem rehydrate_eq_full_fold_witness:
  "\<exists>s'. snd (the (compact mem_ops mem_codec counter (mem_env 0) example_db ''a'')) = s' \<and>
     rehydrate mem_ops mem_codec counter s' ''a'' =
       Some (Inr (foldl (agg_apply counter) (agg_default counter) (map event_from_parts example_batch), Some 0))"
proof -
  obtain e where e: "example_batch = [e]" by (rule example_batch_one)
  have v: "env_version e = 0" using example_batch_simps(3) unfolding e by simp
  obtain r s' where c: "compact mem_ops mem_codec counter (mem_env 0) example_db ''a'' = Some (r, s')"
    "latest_snapshot mem_ops mem_codec s' ''a'' = Inr (Some \<lparr>snap_through_version = 0, snap_ts_ms = 5, snap_state = show_nat 1\<rparr>)"
    "lineage mem_codec (mem_content s') ''a'' 0 None example_batch" "forks_ok mem_codec (mem_content s')" "wf_db mem_codec (mem_content s')"
    by (rule example_compaction)
  have "agg_restore counter (show_nat 1) = Inr (foldl (agg_apply counter) (agg_default counter)
      (map event_from_parts (filter (\<lambda>x. env_version x \<le> 0) example_batch)))"
    unfolding e by (simp add: counter_def v)
  with rehydrate_eq_full_fold [OF mem_store.event_store_axioms c(4,5) _ c(3) _ c(2), of counter] c(1) v show ?thesis
    by (simp add: e [symmetric])
qed

text \<open>C39: compacting an aggregate and rehydrating it agree with folding the whole history: for an aggregate that
  restores what it has snapshot, the compaction publishes the fold of the full history as the
  latest snapshot (even when only the durability wait fails), leaves every read as it was, and a
  rehydration returns that fold and the version of the last event.\<close>

theorem compact_then_rehydrate:
  assumes store: "event_store B content writes base C" and inv: "forks_ok C (content s)" "wf_db C (content s)" and name: "name_ok stream"
    and quiet: "others E s = s" and room: "global_seq (content s) + 1 < VMAX" and snaps: "snaps_ok (content s) stream"
    and agg: "\<And>a b. agg_snapshot A a = Inr b \<Longrightarrow> agg_restore A b = Inr a"
    and hist: "lineage C (content s) stream 0 None es" "sorted_wrt (<) (map env_version es)" "es \<noteq> []" "env_version (last es) + 1 < VMAX"
    and snapshot: "agg_snapshot A (foldl (agg_apply A) (agg_default A) (map event_from_parts es)) = Inr state"
  shows "\<exists>r s'. compact B C A E s stream = Some (r, s') \<and> ((\<exists>rec. r = Inr rec) \<or> (\<exists>w. r = Inl (Backend (SlateClosed w)))) \<and>
     latest_snapshot B C s' stream = Inr (Some \<lparr>snap_through_version = env_version (last es), snap_ts_ms = clock E 0, snap_state = state\<rparr>) \<and>
     snaps_ok (content s') stream \<and> lineage C (content s') stream 0 None es \<and>
     read_history B C s' stream (Unbounded, Unbounded) = read_history B C s stream (Unbounded, Unbounded) \<and>
     rehydrate B C A s' stream =
       Some (Inr (foldl (agg_apply A) (agg_default A) (map event_from_parts es), Some (env_version (last es))))"
  using assms by (rule compact_publishes)

theorem compact_then_rehydrate_witness:
  "\<exists>r s'. compact mem_ops mem_codec counter (mem_env 0) example_db ''a'' = Some (r, s') \<and>
     rehydrate mem_ops mem_codec counter s' ''a'' = Some (Inr (1, Some 0))"
proof -
  obtain e where e: "example_batch = [e]" by (rule example_batch_one)
  have fold: "foldl (agg_apply counter) (agg_default counter) (map event_from_parts example_batch) = 1"
    unfolding e by (simp add: counter_def)
  have "agg_snapshot counter 1 = Inr (show_nat 1)" by (simp add: counter_def)
  moreover have "agg_snapshot counter a = Inr b \<Longrightarrow> agg_restore counter b = Inr a" for a b by (auto simp: counter_def)
  ultimately show ?thesis
    using compact_then_rehydrate [OF mem_store.event_store_axioms, of example_db "''a''" "mem_env 0" counter example_batch "show_nat 1"]
      snaps_ok_example example_lineage fold by auto
qed

end
