(* ===== verification/Jobs_Props.thy ===== *)
theory Jobs_Props
  imports Compaction_Props
begin

text \<open>
  The compaction-job journal. The records under \<open>j/jobs/\<close> in key order are the journal; the status
  of a job is that of its last record, so what a claim means depends on where its key sorts.
\<close>

definition is_journal :: "codec \<Rightarrow> kv_map \<Rightarrow> job_event list \<Rightarrow> bool" where
  "is_journal C m js \<longleftrightarrow> (\<exists>l. is_scan m JOBS_PREFIX (Unbounded, Unbounded) l \<and> map (\<lambda>kv. unjson_job C (snd kv)) l = map Inr js)"

definition job_log :: "string \<Rightarrow> job_event list \<Rightarrow> job_event list" where
  "job_log job_id js = filter (\<lambda>e. job_event_id e = job_id) js"

lemma jobs_fold_snoc [simp]: "jobs_fold (xs @ [e]) = Some (job_event_status e)"
  by (simp add: jobs_fold_def)

lemma jobs_fold_Cons: "xs \<noteq> [] \<Longrightarrow> jobs_fold (e # xs) = jobs_fold xs"
  by (cases xs rule: rev_cases) (simp_all add: jobs_fold_def)

lemma jobs_fold_Nil [simp]: "jobs_fold [] = None"
  by (simp add: jobs_fold_def)

lemma scan_entry: "is_scan m p (Unbounded, Unbounded) l \<Longrightarrow> (k, v) \<in> set l \<Longrightarrow> \<exists>y. k = p @ y \<and> m (p @ y) = Some v"
  by (auto simp: is_scan_def in_scan_set)

lemma scan_set_put:
  "m (p @ x) = None \<Longrightarrow>
     scan_set (m(p @ x \<mapsto> v)) p (Unbounded, Unbounded) = insert (p @ x, v) (scan_set m p (Unbounded, Unbounded))"
  by (auto simp: scan_set_def prefix_def split: if_splits)

lemma is_scan_put_last:
  assumes "is_scan m p (Unbounded, Unbounded) l" "\<And>y b. m (p @ y) = Some b \<Longrightarrow> y < x"
  shows "is_scan (m(p @ x \<mapsto> v)) p (Unbounded, Unbounded) (l @ [(p @ x, v)])"
proof -
  have lt: "fst kv < p @ x" if "kv \<in> set l" for kv
    using scan_entry [OF assms(1), of "fst kv" "snd kv"] assms(2) that by fastforce
  have "scan_set (m(p @ x \<mapsto> v)) p (Unbounded, Unbounded) = insert (p @ x, v) (scan_set m p (Unbounded, Unbounded))"
    using assms(2) [of x] by (intro scan_set_put) (meson less_irrefl not_Some_eq)
  with assms(1) lt show ?thesis by (auto simp: is_scan_def sorted_wrt_append)
qed

lemma is_scan_put_first:
  assumes "is_scan m p (Unbounded, Unbounded) l" "\<And>y b. m (p @ y) = Some b \<Longrightarrow> x < y"
  shows "is_scan (m(p @ x \<mapsto> v)) p (Unbounded, Unbounded) ((p @ x, v) # l)"
proof -
  have lt: "p @ x < fst kv" if "kv \<in> set l" for kv
    using scan_entry [OF assms(1), of "fst kv" "snd kv"] assms(2) that by fastforce
  have "scan_set (m(p @ x \<mapsto> v)) p (Unbounded, Unbounded) = insert (p @ x, v) (scan_set m p (Unbounded, Unbounded))"
    using assms(2) [of x] by (intro scan_set_put) (meson less_irrefl not_Some_eq)
  with assms(1) lt show ?thesis by (auto simp: is_scan_def)
qed

lemma map_res_decoded: "map f xs = map Inr ys \<Longrightarrow> map_res (\<lambda>x. map_err g (f x)) xs = Inr ys"
  by (induction xs arbitrary: ys) auto

lemma job_events_journal:
  assumes "serves r m" "is_journal C m js"
  shows "job_events C r job_id = Inr (job_log job_id js)"
proof -
  obtain l where l: "kv_scan r JOBS_PREFIX = Inr l" "is_scan m JOBS_PREFIX (Unbounded, Unbounded) l"
    using serves_scan [OF assms(1)] by metis
  obtain l' where l': "is_scan m JOBS_PREFIX (Unbounded, Unbounded) l'" "map (\<lambda>kv. unjson_job C (snd kv)) l' = map Inr js"
    using assms(2) by (auto simp: is_journal_def)
  have "l' = l" using l(2) l'(1) is_scan_unique by blast
  with map_res_decoded [OF l'(2), of Encoding] l(1) show ?thesis
    by (simp add: job_events_def job_log_def case_prod_unfold)
qed

context serde_codec begin

lemma job_inverse: "json_job C e = Inr (projr (json_job C e)) \<and> unjson_job C (projr (json_job C e)) = Inr e"
  using job_codec [of e] by auto

lemma journal_put_last:
  assumes "is_journal C m js" "\<And>y b. m (JOBS_PREFIX @ y) = Some b \<Longrightarrow> y < u"
  shows "is_journal C (m(job_key u \<mapsto> projr (json_job C e))) (js @ [e])"
proof -
  from assms(1) obtain l where "is_scan m JOBS_PREFIX (Unbounded, Unbounded) l" "map (\<lambda>kv. unjson_job C (snd kv)) l = map Inr js"
    by (auto simp: is_journal_def)
  with is_scan_put_last [OF _ assms(2)] job_inverse [of e] show ?thesis
    unfolding is_journal_def job_key_def by fastforce
qed

lemma journal_put_first:
  assumes "is_journal C m js" "\<And>y b. m (JOBS_PREFIX @ y) = Some b \<Longrightarrow> u < y"
  shows "is_journal C (m(job_key u \<mapsto> projr (json_job C e))) (e # js)"
proof -
  from assms(1) obtain l where "is_scan m JOBS_PREFIX (Unbounded, Unbounded) l" "map (\<lambda>kv. unjson_job C (snd kv)) l = map Inr js"
    by (auto simp: is_journal_def)
  with is_scan_put_first [OF _ assms(2)] job_inverse [of e] show ?thesis
    unfolding is_journal_def job_key_def by fastforce
qed

end

context event_store begin

lemma claim_eq:
  assumes "is_journal C (content s) js" "others E s = s"
  shows "if jobs_fold (job_log job_id js) = Some Pending
    then \<exists>s'. claim_compaction B C E s job_id worker = (Inr (), s') \<and>
      content s' = (content s)(job_key (ulids E 0) \<mapsto> projr (json_job C (Claimed job_id worker (clock E 0))))
    else claim_compaction B C E s job_id worker =
      (Inl (InvalidInput (''job '' @ quoted job_id @ '' is not claimable: '' @ debug_status (jobs_fold (job_log job_id js)))), s)"
proof -
  let ?e = "Claimed job_id worker (clock E 0)"
  have ev: "job_events C (tx_reader B t) job_id = Inr (job_log job_id js)" if "view t = content s" for t
    using job_events_journal [OF serves_tx] assms(1) that by metis
  show ?thesis
  proof (cases "jobs_fold (job_log job_id js) = Some Pending")
    case True
    obtain b where b: "json_job C ?e = Inr b" using job_inverse by blast
    let ?body = "\<lambda>t. bind_res (job_events C (tx_reader B t) job_id) (\<lambda>events.
         if jobs_fold events = Some Pending then
           bind_res (map_err Encoding (json_job C ?e)) (\<lambda>b.
           bind_res (map_err Backend (tx_put B t (job_key (ulids E 0)) b)) (\<lambda>t'. Inr ((), t')))
         else Inl (InvalidInput (''job '' @ quoted job_id @ '' is not claimable: '' @ debug_status (jobs_fold events))))"
    have "\<exists>t'. ?body t = Inr ((), t') \<and> base t' = s \<and> view t' = (content s)(job_key (ulids E 0) \<mapsto> b)"
      if t: "base t = s" "view t = content s" for t
    proof -
      obtain t' where "tx_put B t (job_key (ulids E 0)) b = Inr t'" "base t' = base t" "view t' = (view t)(job_key (ulids E 0) \<mapsto> b)"
        using tx_putE by metis
      with True b t show ?thesis by (simp add: ev)
    qed
    then obtain h s' where "with_txn B E s ?body = (Inr ((), h), s')" "content s' = (content s)(job_key (ulids E 0) \<mapsto> b)"
      by (rule with_txn_ok [OF assms(2)])
    with True b show ?thesis by (simp add: claim_compaction_def)
  next
    case False
    then show ?thesis
      unfolding claim_compaction_def by (subst with_txn_err [where e = "InvalidInput (''job '' @ quoted job_id @ '' is not claimable: '' @
          debug_status (jobs_fold (job_log job_id js)))"]) (simp_all add: ev)
  qed
qed

end

text \<open>C23: a job is claimed once: a claim of a pending job whose journal key sorts after the existing ones succeeds and
  makes its worker the owner, and every later claim of it is refused and changes nothing; a claim
  of a job that is not pending is refused at once.\<close>

theorem claim_is_exclusive:
  assumes store: "event_store B content writes base C" and journal: "is_journal C (content s) js" and quiet: "others E s = s"
    and newest: "\<And>y b. content s (JOBS_PREFIX @ y) = Some b \<Longrightarrow> y < ulids E 0"
  shows "if jobs_fold (job_log job_id js) = Some Pending
    then \<exists>s'. claim_compaction B C E s job_id worker = (Inr (), s') \<and>
      is_journal C (content s') (js @ [Claimed job_id worker (clock E 0)]) \<and>
      jobs_fold (job_log job_id (js @ [Claimed job_id worker (clock E 0)])) = Some (ClaimedBy worker) \<and>
      (\<forall>E' worker'. others E' s' = s' \<longrightarrow> (\<exists>w. claim_compaction B C E' s' job_id worker' = (Inl (InvalidInput w), s')))
    else \<exists>w. claim_compaction B C E s job_id worker = (Inl (InvalidInput w), s)"
proof (cases "jobs_fold (job_log job_id js) = Some Pending")
  case True
  have serde: "serde_codec C" using store by (simp add: event_store_def)
  let ?e = "Claimed job_id worker (clock E 0)"
  from True event_store.claim_eq [OF store journal quiet, of job_id worker] obtain s'
    where s': "claim_compaction B C E s job_id worker = (Inr (), s')" "content s' = (content s)(job_key (ulids E 0) \<mapsto> projr (json_job C ?e))"
    by auto
  have j: "is_journal C (content s') (js @ [?e])"
    unfolding s'(2) by (rule serde_codec.journal_put_last [OF serde journal newest])
  have f: "jobs_fold (job_log job_id (js @ [?e])) = Some (ClaimedBy worker)" by (simp add: job_log_def)
  have "\<exists>w. claim_compaction B C E' s' job_id worker' = (Inl (InvalidInput w), s')" if "others E' s' = s'" for E' worker'
    using event_store.claim_eq [OF store j that, of job_id worker'] f by simp
  with True s'(1) j f show ?thesis by auto
next
  case False
  with event_store.claim_eq [OF store journal quiet, of job_id worker] show ?thesis by auto
qed

definition job_db :: mem_db where
  "job_db = ([(job_key ''M'', show_job (Requested ''j1'' ''a'' 5))], 0)"

lemma job_db_journal: "is_journal mem_codec (mem_content job_db) [Requested ''j1'' ''a'' 5]"
proof -
  have "mem_content job_db = Map.empty(job_key ''M'' \<mapsto> projr (json_job mem_codec (Requested ''j1'' ''a'' 5)))"
    by (simp add: mem_content_def job_db_def mem_codec_def)
  moreover have "is_journal mem_codec Map.empty []" by (simp add: is_journal_def is_scan_def scan_set_def)
  ultimately show ?thesis using mem_serde.journal_put_last [of Map.empty "[]" "''M''"] by simp
qed

lemma job_db_keys: "mem_content job_db (JOBS_PREFIX @ y) = Some b \<Longrightarrow> y = ''M''"
  by (auto simp: mem_content_def job_db_def job_key_def split: if_splits)

theorem claim_is_exclusive_witness:
  "\<exists>s'. claim_compaction mem_ops mem_codec ((mem_env 0)\<lparr>ulids := (\<lambda>i. ''N'')\<rparr>) job_db ''j1'' ''w'' = (Inr (), s') \<and>
     (\<exists>w. claim_compaction mem_ops mem_codec (mem_env 0) s' ''j1'' ''w2'' = (Inl (InvalidInput w), s'))"
proof -
  have "jobs_fold (job_log ''j1'' [Requested ''j1'' ''a'' 5]) = Some Pending" by (simp add: job_log_def jobs_fold_def)
  moreover have "others ((mem_env 0)\<lparr>ulids := (\<lambda>i. ''N'')\<rparr>) job_db = job_db" by (simp add: mem_env_def)
  moreover have "y < ''N''" if "mem_content job_db (JOBS_PREFIX @ y) = Some b" for y b
    using job_db_keys [OF that] by (simp add: less_char_def)
  ultimately show ?thesis
    using claim_is_exclusive [OF mem_store.event_store_axioms job_db_journal, of "(mem_env 0)\<lparr>ulids := (\<lambda>i. ''N'')\<rparr>" "''j1''" "''w''"]
    by (auto simp: mem_env_def)
qed

text \<open>The guarantee rests on the order of the keys: a claim whose key sorts before the journal, as the identifiers
  of one millisecond may, is recorded but does not change the job's status, and a second worker can
  claim the job as well.\<close>

theorem claim_out_of_order:
  assumes store: "event_store B content writes base C" and journal: "is_journal C (content s) js" and quiet: "others E s = s"
    and oldest: "\<And>y b. content s (JOBS_PREFIX @ y) = Some b \<Longrightarrow> ulids E 0 < y"
    and pending: "jobs_fold (job_log job_id js) = Some Pending"
  shows "\<exists>s'. claim_compaction B C E s job_id worker = (Inr (), s') \<and>
     is_journal C (content s') (Claimed job_id worker (clock E 0) # js) \<and>
     jobs_fold (job_log job_id (Claimed job_id worker (clock E 0) # js)) = Some Pending \<and>
     (\<forall>E' worker'. others E' s' = s' \<longrightarrow> (\<exists>s''. claim_compaction B C E' s' job_id worker' = (Inr (), s'')))"
proof -
  have serde: "serde_codec C" using store by (simp add: event_store_def)
  let ?e = "Claimed job_id worker (clock E 0)"
  from pending event_store.claim_eq [OF store journal quiet, of job_id worker] obtain s'
    where s': "claim_compaction B C E s job_id worker = (Inr (), s')" "content s' = (content s)(job_key (ulids E 0) \<mapsto> projr (json_job C ?e))"
    by auto
  have j: "is_journal C (content s') (?e # js)"
    unfolding s'(2) by (rule serde_codec.journal_put_first [OF serde journal oldest])
  have "job_log job_id js \<noteq> []" using pending by auto
  then have f: "jobs_fold (job_log job_id (?e # js)) = Some Pending"
    using pending jobs_fold_Cons [of "job_log job_id js" ?e] by (simp add: job_log_def)
  have "\<exists>s''. claim_compaction B C E' s' job_id worker' = (Inr (), s'')" if "others E' s' = s'" for E' worker'
    using event_store.claim_eq [OF store j that, of job_id worker'] f by auto
  with s'(1) j f show ?thesis by auto
qed

theorem claim_out_of_order_witness:
  "\<exists>s' s''. claim_compaction mem_ops mem_codec (mem_env 0) job_db ''j1'' ''w'' = (Inr (), s') \<and>
     claim_compaction mem_ops mem_codec (mem_env 0) s' ''j1'' ''w2'' = (Inr (), s'')"
proof -
  have "jobs_fold (job_log ''j1'' [Requested ''j1'' ''a'' 5]) = Some Pending" by (simp add: job_log_def jobs_fold_def)
  moreover have "ulids (mem_env 0) 0 < y" if "mem_content job_db (JOBS_PREFIX @ y) = Some b" for y b
    using job_db_keys [OF that] by (simp add: mem_env_def less_char_def numeral_eq_Suc)
  ultimately show ?thesis
    using claim_out_of_order [OF mem_store.event_store_axioms job_db_journal, of "mem_env 0" "''j1''" "''w''"] by auto
qed

end
