(* ===== verification/Stream_Log.thy ===== *)
theory Stream_Log
  imports Jobs_Props
begin

text \<open>
  A stream as the log of a handle: the facts the SQLite and the file-system crates use of the event
  store. A fold over the stream after an append is the fold before it continued with the batch, an
  append leaves the snapshots as they are, and publishing a snapshot leaves every fold as it is.
\<close>

definition log_ok :: "codec \<Rightarrow> kv_map \<Rightarrow> string \<Rightarrow> bool" where
  "log_ok C m p \<longleftrightarrow> wf_db C m \<and> forks_ok C m \<and> name_ok p \<and> covered C m p \<and> open_from m p (next_version C m p) \<and> snaps_ok m p \<and>
     (\<forall>f. fork_of C m p = Some f \<longrightarrow> fork_at_version f < next_version C m p)"

lemma log_okD:
  assumes "log_ok C m p"
  shows "wf_db C m" "forks_ok C m" "name_ok p" "covered C m p" "open_from m p (next_version C m p)" "snaps_ok m p"
    "fork_of C m p = Some f \<Longrightarrow> fork_at_version f < next_version C m p"
  using assms by (simp_all add: log_ok_def)

lemma append_map_snap: "append_map C E m p fv idx events (snap_prefix s @ x) = m (snap_prefix s @ x)"
  unfolding append_map_def
  by (subst appended_other) (auto simp: ts_key_def snap_prefix_def r_key_def m_key_def SEQ_KEY_def)

lemma batch_payload:
  "map (\<lambda>e. (ev_type e, ev_data e)) (map event_from_parts (batch_of C E m p fv events)) = map (\<lambda>e. (ne_type e, ne_data e)) events"
  by (rule nth_equalityI) (simp_all add: event_from_parts_def batch_nth)

text \<open>Room for one more batch of any admitted size.\<close>

definition log_room :: "codec \<Rightarrow> kv_map \<Rightarrow> string \<Rightarrow> bool" where
  "log_room C m p \<longleftrightarrow> next_version C m p + MAX_BATCH_RECORDS < VMAX \<and> global_seq m + MAX_BATCH_RECORDS + 1 < VMAX"

lemma log_room_append:
  assumes "log_room C m p" "check_batch events = Inr ()"
  shows "append_room C m p None events"
proof -
  have "length events \<le> MAX_BATCH_RECORDS"
    using assms(2) by (auto simp: check_batch_def split: if_splits)
  with assms(1) show ?thesis by (simp add: log_room_def append_room_def append_start_def)
qed

lemma commit_appends_batch: "commit_appends B C Es s p expected fv token events idx = (Inr ticket, s') \<Longrightarrow> check_batch events = Inr ()"
  by (cases "check_batch events") (auto simp: commit_appends_def)

text \<open>The latest snapshot covers committed versions only.\<close>

definition snap_within :: "('s, 't) slatedb_ops \<Rightarrow> codec \<Rightarrow> 's \<Rightarrow> string \<Rightarrow> version \<Rightarrow> bool" where
  "snap_within B C s p n \<longleftrightarrow> (\<forall>r. latest_snapshot B C s p = Inr (Some r) \<longrightarrow> snap_through_version r + 1 \<le> n)"

text \<open>A fence changes no other key.\<close>

lemma fence_key_only:
  assumes "name_ok p" "f \<noteq> ''fence''"
  shows "m_key s f \<noteq> m_key p ''fence''"
proof
  assume "m_key s f = m_key p ''fence''"
  then have eq: "s @ CHR ''/'' # f = p @ CHR ''/'' # ''fence''" by (simp add: m_key_def)
  show False
  proof (cases "CHR ''/'' \<in> set s")
    case True
    then obtain a b where s: "s = a @ CHR ''/'' # b" "CHR ''/'' \<notin> set a" by (meson split_list_first)
    with eq have "a @ CHR ''/'' # (b @ CHR ''/'' # f) = p @ CHR ''/'' # ''fence''" by simp
    then have "b @ CHR ''/'' # f = ''fence''"
      using s(2) assms(1) sep_append_inject [of "CHR ''/''" a p "b @ CHR ''/'' # f" "''fence''"] by (simp add: name_ok_def)
    then have "CHR ''/'' \<in> set ''fence''" by (metis in_set_conv_decomp)
    then show False by simp
  next
    case False
    with eq assms sep_append_inject [of "CHR ''/''" s p f "''fence''"] show False by (simp add: name_ok_def)
  qed
qed

lemma fence_map_keys:
  assumes "name_ok p"
  shows "f \<noteq> ''fence'' \<Longrightarrow> fence_map m p token (m_key s f) = m (m_key s f)"
    "fence_map m p token (r_key s v) = m (r_key s v)" "fence_map m p token (snap_prefix s @ x) = m (snap_prefix s @ x)"
    "fence_map m p token SEQ_KEY = m SEQ_KEY"
  using fence_key_only [OF assms] by (simp_all add: fence_map_def)

context serde_codec begin

lemma lineage_append_own:
  assumes "log_ok C m p" "ulids_ok E" "append_room C m p None events" "events \<noteq> []"
    and "lineage C m p lo None es" "lo \<le> next_version C m p"
  shows "lineage C (append_map C E m p None idx events) p lo None (es @ batch_of C E m p None events)"
proof -
  let ?m = "append_map C E m p None idx events"
  note ok = log_okD [OF assms(1)]
  have hist: "history C ?m p lo None = history C m p lo None @ batch_of C E m p None events"
    by (rule history_append [OF ok(1,3) assms(2-4) ok(4,5) assms(6)])
  have fk: "fork_of C ?m s = fork_of C m s" if "name_ok s" for s using that ok(3) by (simp add: append_map_fork_of)
  have inh: "inherits C ?m p lo None = inherits C m p lo None" by (simp add: inherits_def fk ok(3))
  from assms(5) show ?thesis
  proof (cases rule: lineage.cases)
    case empty
    then show ?thesis by (simp add: empty_range_def)
  next
    case own
    then show ?thesis using lineage.own [of lo None C ?m p] by (simp add: inh hist)
  next
    case (forked f xs)
    then have f: "fork_of C m p = Some f" by (simp add: inherits_fork)
    obtain t where "current_version C m (fork_stream f) = Some t" "fork_at_version f \<le> t"
      using ok(2,3) f by (auto simp: forks_ok_def)
    then have "fork_stream f \<noteq> p \<or> (\<exists>h. Some (pin_hi f None) = Some h \<and> h \<le> next_version C m p)"
      by (auto simp: next_version_above pin_hi_def)
    from lineage_append [OF ok(2,1,3) assms(2-4) _ forked(4) this] fork_of_wf [OF ok(1,3) f]
    have "lineage C ?m (fork_stream f) lo (Some (pin_hi f None)) xs" by simp
    from lineage.forked [OF forked(2) _ this, of p] forked show ?thesis by (simp add: inh hist)
  qed
qed

lemma log_ok_append:
  assumes "log_ok C m p" "ulids_ok E" "append_room C m p None events" "events \<noteq> []"
  shows "log_ok C (append_map C E m p None idx events) p"
proof -
  let ?m = "append_map C E m p None idx events"
  note ok = log_okD [OF assms(1)]
  have seq: "global_seq ?m = global_seq m + length events"
    using assms(3) by (intro append_map_seq) (simp add: append_room_def)
  have "snaps_ok ?m p"
    unfolding snaps_ok_def append_map_snap seq using ok(6) by (meson snaps_ok_def trans_le_add1)
  moreover have "open_from ?m p (next_version C ?m p)"
    using ok(3,5) by (simp add: open_from_def append_map_guards append_map_next assms(4))
  moreover have "fork_at_version f < next_version C ?m p" if "fork_of C ?m p = Some f" for f
    using that ok(3,7) by (simp add: append_map_fork_of append_map_next assms(4) trans_less_add1)
  ultimately show ?thesis
    using wf_append_map [OF ok(1,3) assms(2-4)] forks_ok_append [OF ok(2,1,3) assms(4)] ok(3)
      covered_append [OF ok(1,3,3) assms(2-4) ok(4)] by (simp add: log_ok_def)
qed

end

lemma purge_same:
  assumes "wf_db C m" "name_ok p" and m': "m' = without m (r_key p ` V)"
  shows "m' (m_key s f) = m (m_key s f)" "m' (snap_prefix s @ x) = m (snap_prefix s @ x)" "m' SEQ_KEY = m SEQ_KEY"
    "stored C m' s v = Some e \<Longrightarrow> stored C m s v = Some e"
  by (auto simp: m' without_def stored_def r_key_def m_key_def snap_prefix_def SEQ_KEY_def split: if_splits)

context event_store begin

lemma latest_snapshot_cong:
  assumes "\<And>x. content s' (snap_prefix p @ x) = content s (snap_prefix p @ x)"
  shows "latest_snapshot B C s' p = latest_snapshot B C s p"
proof -
  obtain l where l: "kv_scan (db_reader B s) (snap_prefix p) = Inr l" "is_scan (content s) (snap_prefix p) (Unbounded, Unbounded) l"
    using serves_scan [OF serves_db] by metis
  obtain l' where l': "kv_scan (db_reader B s') (snap_prefix p) = Inr l'" "is_scan (content s') (snap_prefix p) (Unbounded, Unbounded) l'"
    using serves_scan [OF serves_db] by metis
  have "scan_set (content s') (snap_prefix p) rg = scan_set (content s) (snap_prefix p) rg" for rg
    using assms by (auto simp: in_scan_set)
  with l l' have "l' = l" using is_scan_unique [of "content s"] by (simp add: is_scan_def)
  with l l' show ?thesis by (simp add: latest_snapshot_def kv_latest_snapshot_def)
qed

text \<open>A successful append to the log by its only writer.\<close>

lemma append_log:
  assumes "log_ok C (content s) p" "ulids_ok (Es 0)" "append_room C (content s) p None events" "others (Es 0) s = s"
    and ok: "commit_appends B C Es s p expected None token events idx = (Inr ticket, s')"
  shows "content s' = append_map C (Es 0) (content s) p None idx events" "events \<noteq> []"
    "version_matches expected (current_version C (content s) p)"
    "last_version (tk_info ticket) = next_version C (content s) p + length events - 1"
proof -
  note log = log_okD [OF assms(1)]
  have batch: "check_batch events = Inr ()"
    using ok by (cases "check_batch events") (auto simp: commit_appends_def)
  note q = commit_appends_quiet [where s = s and stream = p and Es = Es and from_version = None and events = events and
      expected = expected and token = token and idx = idx, OF batch log(1,3) assms(2-4)]
  have ref: "refusal C (content s) p expected token events = None"
    using q ok by (cases "refusal C (content s) p expected token events") simp_all
  then show "events \<noteq> []" "version_matches expected (current_version C (content s) p)"
    by (auto simp: refusal_def split: if_splits)
  from ref q ok show "content s' = append_map C (Es 0) (content s) p None idx events"
    "last_version (tk_info ticket) = next_version C (content s) p + length events - 1"
    by (auto simp: append_start_def)
qed

lemma fold_log:
  assumes "log_ok C (content s) p" "lo < VMAX"
  obtains es where "lineage C (content s) p lo None es"
    "store_fold B C s p (Included lo, Unbounded) a f =
       Some (Inr (foldl f a (map event_from_parts es), last_event_version (map event_from_parts es)))"
proof -
  note log = log_okD [OF assms(1)]
  obtain es where es: "lineage C (content s) p lo None es" by (rule lineage_of [OF log(2,1,3)])
  show ?thesis by (rule that [OF es store_fold_lineage [OF log(2,1,3) assms(2) es]])
qed

lemma fold_after_append:
  assumes "log_ok C (content s) p" "ulids_ok (Es 0)" "append_room C (content s) p None events" "others (Es 0) s = s"
    and ok: "commit_appends B C Es s p expected None token events idx = (Inr ticket, s')"
    and lo: "lo \<le> next_version C (content s) p" "lo < VMAX"
    and before: "store_fold B C s p (Included lo, Unbounded) a f = Some (Inr (x, t))"
  shows "store_fold B C s' p (Included lo, Unbounded) a f =
     Some (Inr (foldl f x (map event_from_parts (batch_of C (Es 0) (content s) p None events)), Some (last_version (tk_info ticket))))"
proof -
  note a = append_log [OF assms(1-5)]
  let ?b = "batch_of C (Es 0) (content s) p None events"
  obtain es where es: "lineage C (content s) p lo None es" "x = foldl f a (map event_from_parts es)"
  proof (rule fold_log [OF assms(1) lo(2), where a = a and f = f])
    fix es assume "lineage C (content s) p lo None es"
      "store_fold B C s p (Included lo, Unbounded) a f =
         Some (Inr (foldl f a (map event_from_parts es), last_event_version (map event_from_parts es)))"
    with before that show thesis by simp
  qed
  have log': "log_ok C (content s') p" unfolding a(1) by (rule log_ok_append [OF assms(1-3) a(2)])
  have lin: "lineage C (content s') p lo None (es @ ?b)"
    unfolding a(1) by (rule lineage_append_own [OF assms(1-3) a(2) es(1) lo(1)])
  have vs: "map env_version ?b = [next_version C (content s) p ..< next_version C (content s) p + length events]"
    by (simp add: batch_of_def stamped_versions append_start_def)
  have "env_version (last ?b) = last (map env_version ?b)" using a(2) by (simp add: last_map)
  also have "\<dots> = next_version C (content s) p + length events - 1" unfolding vs using a(2) by simp
  finally have "env_version (last ?b) = next_version C (content s) p + length events - 1" .
  then have "last_event_version (map event_from_parts (es @ ?b)) = Some (last_version (tk_info ticket))"
    using a(2) by (simp add: last_event_version_def last_map a(4))
  with store_fold_lineage [OF log_okD(2,1,3) [OF log'] lo(2) lin, of a f] es(2) show ?thesis by simp
qed

lemma latest_after_append:
  assumes "log_ok C (content s) p" "ulids_ok (Es 0)" "append_room C (content s) p None events" "others (Es 0) s = s"
    and "commit_appends B C Es s p expected None token events idx = (Inr ticket, s')"
  shows "latest_snapshot B C s' p = latest_snapshot B C s p"
  by (rule latest_snapshot_cong) (simp add: append_log(1) [OF assms] append_map_snap)

text \<open>Nothing is read past the tail.\<close>

lemma lineage_past_tail:
  assumes "log_ok C (content s) p"
  shows "lineage C (content s) p (next_version C (content s) p) None []"
proof -
  note log = log_okD [OF assms(1)]
  let ?n = "next_version C (content s) p"
  have own: "history C (content s) p ?n None = []"
  proof (rule ccontr)
    assume "history C (content s) p ?n None \<noteq> []"
    then obtain e where "e \<in> set (history C (content s) p ?n None)" by (meson list.set_sel(1))
    then obtain v where "stored C (content s) p v = Some e" "?n \<le> env_version e"
      by (auto simp: history_def set_pick [OF log(1,3)] in_window_def)
    with log(4) stored_version [OF log(1,3)] show False by (fastforce simp: covered_def)
  qed
  have "inherits C (content s) p ?n None = None"
    using log(7) by (fastforce simp: inherits_def pin_hi_def split: option.split)
  then show ?thesis using lineage.own [of ?n None C "content s" p] own by (simp add: empty_range_def)
qed

lemma fold_past_tail:
  assumes "log_ok C (content s) p" "next_version C (content s) p < VMAX"
  shows "store_fold B C s p (Included (next_version C (content s) p), Unbounded) a f = Some (Inr (a, None))"
  using store_fold_lineage [OF log_okD(2,1,3) [OF assms(1)] assms(2) lineage_past_tail [OF assms(1)], of a f]
  by (simp add: last_event_version_def)

text \<open>A published snapshot becomes the latest and nothing else changes.\<close>

lemma publish_log:
  assumes "log_ok C (content s) p" "others E s = s" "global_seq (content s) + 1 < VMAX"
    and ok: "publish_snapshot B C E s p rec state = (r, s')"
  shows "latest_snapshot B C s' p = Inr (Some
       \<lparr>snap_through_version = comp_through_version rec, snap_ts_ms = comp_ts_ms rec, snap_state = state\<rparr>)"
    "log_ok C (content s') p" "next_version C (content s') p = next_version C (content s) p"
    "lo < VMAX \<Longrightarrow> store_fold B C s' p (Included lo, Unbounded) a f = store_fold B C s p (Included lo, Unbounded) a f"
proof -
  note log = log_okD [OF assms(1)]
  have room: "global_seq (content s) + 1 < 2 ^ 64" using assms(3) by simp
  let ?m' = "publish_map C E (content s) p rec state"
  obtain r0 s0 where "publish_snapshot B C E s p rec state = (r0, s0)" "content s0 = ?m'"
    by (rule publish_eq [OF assms(2) room])
  with ok have m': "content s' = ?m'" by simp
  have keys: "?m' (m_key x y) = content s (m_key x y)" "?m' (r_key x v) = content s (r_key x v)" for x y v by simp_all
  have meta: "forks_ok C ?m' = forks_ok C (content s)" "fork_of C ?m' x = fork_of C (content s) x"
    "current_version C ?m' x = current_version C (content s) x" for x
    using same_meta [of ?m' "content s" C, OF keys] by simp_all
  show nxt: "next_version C (content s') p = next_version C (content s) p"
    unfolding m' by (simp add: next_version_def meta)
  have "serves (db_reader B s') ?m'" using serves_db [of s'] by (simp add: m')
  from latest_after_publish [OF this log(6) assms(3)]
  show "latest_snapshot B C s' p = Inr (Some
       \<lparr>snap_through_version = comp_through_version rec, snap_ts_ms = comp_ts_ms rec, snap_state = state\<rparr>)"
    by (simp add: latest_snapshot_def)
  have "covered C ?m' p" "open_from ?m' p (next_version C (content s) p)"
    using log(4,5) nxt [unfolded m'] by (simp_all add: covered_def stored_def open_from_def floor_of_def is_deleted_def windows_def)
  then show log': "log_ok C (content s') p"
    using log(1-3,7) wf_publish_map [OF log(1), of E p rec state] snaps_ok_publish [OF log(6) room, of C E rec state] nxt
    unfolding m' by (simp add: log_ok_def meta)
  assume lo: "lo < VMAX"
  obtain es where es: "lineage C (content s) p lo None es"
    "store_fold B C s p (Included lo, Unbounded) a f =
       Some (Inr (foldl f a (map event_from_parts es), last_event_version (map event_from_parts es)))"
    by (rule fold_log [OF assms(1) lo])
  have "lineage C (content s') p lo None es"
    unfolding m' by (rule same_meta_lineage [OF keys log(1,3) es(1)])
  from store_fold_lineage [OF log_okD(2,1,3) [OF log'] lo this, of a f] es(2)
  show "store_fold B C s' p (Included lo, Unbounded) a f = store_fold B C s p (Included lo, Unbounded) a f" by simp
qed

text \<open>A purge removes records only: the tail, the snapshots and every guard stay.\<close>

lemma purge_log:
  assumes log: "log_ok C (content s) p" and quiet: "\<And>k x. others (Es k) x = x" and "n < VMAX"
    and ok: "purge_below B Es s p n = Some (r, s')"
  shows "log_ok C (content s') p" "latest_snapshot B C s' p = latest_snapshot B C s p"
    "current_version C (content s') p = current_version C (content s) p" "global_seq (content s') = global_seq (content s)"
proof -
  note lg = log_okD [OF log]
  let ?m = "content s" and ?V = "purgeable (content s) p (pin_floor (content s) p) n"
  have m': "content s' = without ?m (r_key p ` ?V)" 
    by (rule purge_below_eq [where Es = Es, OF lg(1,3) quiet assms(3)]) (use ok in auto)
  note same = purge_same [OF lg(1,3) m']
  show g: "global_seq (content s') = global_seq ?m" by (simp add: global_seq_def same(3))
  show "latest_snapshot B C s' p = latest_snapshot B C s p" by (rule latest_snapshot_cong) (rule same(2))
  have f: "fork_of C (content s') x = fork_of C ?m x" "tail_of C (content s') x = tail_of C ?m x"
    "current_version C (content s') x = current_version C ?m x" for x
    by (simp_all add: fork_of_def tail_of_def current_version_def same(1))
  then show "current_version C (content s') p = current_version C ?m p" by simp
  have fo: "forks_ok C (content s')" using lg(2) by (simp add: forks_ok_def descends_def f)
  have nv: "next_version C (content s') p = next_version C ?m p" by (simp add: next_version_def f)
  have "covered C (content s') p" "open_from (content s') p (next_version C ?m p)" "snaps_ok (content s') p"
    using lg(4-6) same(4) nv g
    by (auto simp: covered_def open_from_def floor_of_def is_deleted_def windows_def snaps_ok_def same(1,2))
  with lg(3,7) fo show "log_ok C (content s') p"
    using wf_db_without [OF lg(1), of "r_key p ` ?V"] unfolding log_ok_def m' [symmetric] by (simp add: f nv)
qed

text \<open>Taking the fence leaves the log as it is.\<close>

lemma fence_log:
  assumes "log_ok C (content s) p" "others E s = s" "fence B C E s p token = (r, s')"
  shows "log_ok C (content s') p" "latest_snapshot B C s' p = latest_snapshot B C s p"
    "current_version C (content s') p = current_version C (content s) p" "global_seq (content s') = global_seq (content s)"
    "lineage C (content s) p lo hi es \<Longrightarrow> lineage C (content s') p lo hi es"
proof -
  note log = log_okD [OF assms(1)]
  obtain r0 s0 where "fence B C E s p token = (r0, s0)" "content s0 = fence_map (content s) p token"
    by (rule fence_eq [OF log(1,3) assms(2)])
  with assms(3) have m': "content s' = fence_map (content s) p token" by simp
  note keys = fence_map_keys [OF log(3), where m = "content s" and token = token]
  note meta = same_meta [OF keys(1,2), where C = C]
  show "global_seq (content s') = global_seq (content s)" by (simp add: m' global_seq_def keys(4))
  then have seq: "global_seq (fence_map (content s) p token) = global_seq (content s)" by (simp add: m')
  show "latest_snapshot B C s' p = latest_snapshot B C s p"
    by (rule latest_snapshot_cong) (simp add: m' keys(3))
  show "current_version C (content s') p = current_version C (content s) p" by (simp add: m' meta)
  have nxt: "next_version C (fence_map (content s) p token) p = next_version C (content s) p" by (simp add: next_version_def meta)
  have "covered C (fence_map (content s) p token) p" "open_from (fence_map (content s) p token) p (next_version C (content s) p)"
    "snaps_ok (fence_map (content s) p token) p"
    using log(4-6) nxt seq
    by (simp_all add: covered_def stored_def open_from_def floor_of_def is_deleted_def windows_def snaps_ok_def keys)
  with log(1-3,7) wf_fence_map [OF log(1,3), of token] show "log_ok C (content s') p"
    unfolding m' by (simp add: log_ok_def meta nxt)
  show "lineage C (content s) p lo hi es \<Longrightarrow> lineage C (content s') p lo hi es"
    unfolding m' by (rule same_meta_lineage [OF keys(1,2) log(1,3)])
qed

end

section \<open>The empty store\<close>

lemma log_ok_empty [simp]: "name_ok p \<Longrightarrow> log_ok C Map.empty p"
  by (simp add: log_ok_def snaps_ok_def fork_of_def)

context event_store begin

lemma latest_none: "content s = Map.empty \<Longrightarrow> latest_snapshot B C s p = Inr None"
proof -
  assume s: "content s = Map.empty"
  obtain l where l: "kv_scan (db_reader B s) (snap_prefix p) = Inr l" "is_scan (content s) (snap_prefix p) (Unbounded, Unbounded) l"
    using serves_scan [OF serves_db] by metis
  then have "l = []" by (simp add: is_scan_def scan_set_def s)
  with l show ?thesis by (simp add: latest_snapshot_def kv_latest_snapshot_def)
qed

end

lemmas mem_latest_none = mem_store.latest_none

lemma mem_empty_room [simp]: "log_room C Map.empty p"
  by (simp add: log_room_def MAX_BATCH_RECORDS_def)

lemma await_one: "sq \<le> h \<Longrightarrow> await_seq [\<lparr>durable_seq = h, close_reason = None\<rparr>] sq = Inr ()"
  by (simp add: await_seq_def)

end
