(* ===== verification/Program.thy ===== *)
theory Program
  imports Stream_Log
begin

text \<open>
  The frame of the programs of the repository (the command line tool and the examples), and what
  they open: \<open>Config\<close>, \<open>EventStore::open\<close>, \<open>default_settings\<close> of \<open>src/store.rs\<close> and
  \<open>ReaderConfig\<close>, \<open>EventStoreReader::open\<close> of \<open>src/reader.rs\<close>. A program maps the state of the world
  to how it stops, the lines it prints and the state it leaves; \<^const>\<open>None\<close> is a run that does not
  end. A \<open>main\<close> stops with the error it returns, a panic among them, with an exit code, or when it is
  interrupted from outside.

  The last section is what a program that owns its stream relies on: a stream of which nothing is
  hidden or inherited is the list of what was appended.
\<close>

section \<open>Programs\<close>

datatype stop = Raised error | Exited nat | Interrupted

datatype line = Stdout string | Stderr string

type_synonym ('w, 'a) prog = "'w \<Rightarrow> ((stop + 'a) \<times> line list \<times> 'w) option"

definition ret :: "'a \<Rightarrow> ('w, 'a) prog" where
  "ret x w = Some (Inr x, [], w)"

definition and_then :: "('w, 'a) prog \<Rightarrow> ('a \<Rightarrow> ('w, 'b) prog) \<Rightarrow> ('w, 'b) prog" where
  "and_then p f w =
     (case p w of
        None \<Rightarrow> None
      | Some (Inl e, out, w') \<Rightarrow> Some (Inl e, out, w')
      | Some (Inr x, out, w') \<Rightarrow> map_option (\<lambda>(r, out', w''). (r, out @ out', w'')) (f x w'))"

definition println :: "string \<Rightarrow> ('w, unit) prog" where
  "println l w = Some (Inr (), [Stdout l], w)"

definition eprintln :: "string \<Rightarrow> ('w, unit) prog" where
  "eprintln l w = Some (Inr (), [Stderr l], w)"

definition exit_process :: "nat \<Rightarrow> ('w, 'a) prog" where
  "exit_process n w = Some (Inl (Exited n), [], w)"

text \<open>The operator \<open>?\<close> on a value, on a call that changes the world, and on one that may not return.\<close>

definition attempt :: "'a res \<Rightarrow> ('w, 'a) prog" where
  "attempt r w = Some (map_err Raised r, [], w)"

definition call :: "('w \<Rightarrow> 'a res \<times> 'w) \<Rightarrow> ('w, 'a) prog" where
  "call f w = (case f w of (r, w') \<Rightarrow> Some (map_err Raised r, [], w'))"

definition call_opt :: "('w \<Rightarrow> ('a res \<times> 'w) option) \<Rightarrow> ('w, 'a) prog" where
  "call_opt f w = map_option (\<lambda>(r, w'). (map_err Raised r, [], w')) (f w)"

definition query :: "('w \<Rightarrow> 'a res) \<Rightarrow> ('w, 'a) prog" where
  "query f w = Some (map_err Raised (f w), [], w)"

definition query_opt :: "('w \<Rightarrow> 'a res option) \<Rightarrow> ('w, 'a) prog" where
  "query_opt f w = map_option (\<lambda>r. (map_err Raised r, [], w)) (f w)"

text \<open>\<open>expect\<close> and \<open>unwrap\<close>.\<close>

definition expect :: "string \<Rightarrow> 'a option \<Rightarrow> 'a res" where
  "expect msg v = (case v of None \<Rightarrow> Inl (Panicked msg) | Some x \<Rightarrow> Inr x)"

definition expect_ok :: "string \<Rightarrow> 'e + 'a \<Rightarrow> 'a res" where
  "expect_ok msg r = map_err (\<lambda>_. Panicked msg) r"

text \<open>Variables of the process environment, and numbers in them.\<close>

definition var_or :: "(string \<Rightarrow> string option) \<Rightarrow> string \<Rightarrow> string \<Rightarrow> string" where
  "var_or var name fallback = (case var name of None \<Rightarrow> fallback | Some v \<Rightarrow> v)"

definition parse_or :: "u64 \<Rightarrow> string option \<Rightarrow> u64" where
  "parse_or fallback s = (case Option.bind s parse_u64 of None \<Rightarrow> fallback | Some n \<Rightarrow> n)"

text \<open>The cast \<open>as i64\<close>, and sums at that width.\<close>

definition wrap_i64 :: "int \<Rightarrow> i64" where
  "wrap_i64 i = (i + 2 ^ 63) mod 2 ^ 64 - 2 ^ 63"

text \<open>\<open>{:?}\<close> of an optional version.\<close>

definition debug_version :: "version option \<Rightarrow> string" where
  "debug_version v = (case v of None \<Rightarrow> ''None'' | Some n \<Rightarrow> ''Some('' @ show_nat n @ '')'')"

text \<open>The messages of \<open>src/error.rs\<close>; \<open>slate\<close> gives those of SlateDB.\<close>

fun debug_expected :: "expected_version \<Rightarrow> string" where
  "debug_expected Any = ''Any''"
| "debug_expected NoStream = ''NoStream''"
| "debug_expected (Exact v) = ''Exact('' @ show_nat v @ '')''"

fun error_text :: "(slate_error \<Rightarrow> string) \<Rightarrow> error \<Rightarrow> string" where
  "error_text slate (VersionConflict stream expected actual) =
     ''version conflict on '' @ quoted stream @ '': expected '' @ debug_expected expected @ '', actual '' @ debug_version actual"
| "error_text slate (FenceMismatch stream current_token) =
     ''fence mismatch on '' @ quoted stream @ '': current token is '' @ quoted current_token"
| "error_text slate (Backend e) = ''backend: '' @ slate e"
| "error_text slate (Encoding e) = ''encoding: '' @ e"
| "error_text slate (Bincode e) = ''encoding: '' @ e"
| "error_text slate (InvalidInput e) = e"
| "error_text slate (Panicked e) = e"

lemmas prog_defs = and_then_def ret_def println_def eprintln_def exit_process_def attempt_def call_def call_opt_def query_def
  query_opt_def expect_def expect_ok_def

lemma wrap_i64_range: "- (2 ^ 63) \<le> wrap_i64 i" "wrap_i64 i < 2 ^ 63"
  by (simp_all add: wrap_i64_def)

lemma wrap_i64_small [simp]: "- (2 ^ 63) \<le> i \<Longrightarrow> i < 2 ^ 63 \<Longrightarrow> wrap_i64 i = i"
  by (simp add: wrap_i64_def)

lemma wrap_i64_nested [simp]: "wrap_i64 (wrap_i64 a + wrap_i64 b) = wrap_i64 (a + b)" "wrap_i64 (wrap_i64 a - wrap_i64 b) = wrap_i64 (a - b)"
  "wrap_i64 (wrap_i64 a) = wrap_i64 a"
proof -
  have *: "wrap_i64 x = wrap_i64 y" if "x mod 2 ^ 64 = y mod 2 ^ 64" for x y
    using that by (metis mod_add_left_eq wrap_i64_def)
  have m: "wrap_i64 x mod 2 ^ 64 = x mod 2 ^ 64" for x by (simp add: wrap_i64_def mod_diff_left_eq)
  show "wrap_i64 (wrap_i64 a + wrap_i64 b) = wrap_i64 (a + b)" by (rule *) (metis m mod_add_eq)
  show "wrap_i64 (wrap_i64 a - wrap_i64 b) = wrap_i64 (a - b)" by (rule *) (metis m mod_diff_eq)
  show "wrap_i64 (wrap_i64 a) = wrap_i64 a" by (rule *) (rule m)
qed

text \<open>Composition of programs is associative and \<open>ret\<close> is its unit.\<close>

lemma and_then_assoc: "and_then (and_then p f) g = and_then p (\<lambda>x. and_then (f x) g)"
  by (rule ext) (auto simp: and_then_def option.map_comp comp_def case_prod_unfold split: option.splits sum.splits)

lemma and_then_ret: "and_then p ret = p" "and_then (ret x) f = f x"
  by (auto simp: and_then_def ret_def fun_eq_iff case_prod_unfold option.map_ident split: option.splits sum.splits)

text \<open>A composition that ends well: both parts do.\<close>

lemma and_then_InrE:
  assumes "and_then p f w = Some (Inr y, out, w')"
  obtains x o1 w1 o2 where "p w = Some (Inr x, o1, w1)" "f x w1 = Some (Inr y, o2, w')" "out = o1 @ o2"
  using assms by (auto simp: and_then_def split: option.splits sum.splits)

section \<open>Opening\<close>

text \<open>The two fields of \<open>slatedb::config::Settings\<close> the program sets, milliseconds and bytes; the others
  are the rest of the record, and \<open>stock\<close> is \<open>Settings::default()\<close>.\<close>

record slate_settings =
  flush_interval :: "nat option"
  l0_sst_size_bytes :: nat

record ('o, 'z) config =
  cf_path :: string
  cf_object_store :: 'o
  cf_settings :: "'z slate_settings_scheme option"

definition default_settings :: "'z slate_settings_scheme \<Rightarrow> 'z slate_settings_scheme" where
  "default_settings stock = stock\<lparr>flush_interval := Some 10, l0_sst_size_bytes := 4 * 1024 * 1024\<rparr>"

definition config_in_memory :: "'o \<Rightarrow> ('o, 'z) config" where
  "config_in_memory memory = \<lparr>cf_path = ''landslide'', cf_object_store = memory, cf_settings = None\<rparr>"

text \<open>\<open>build\<close> is the builder of SlateDB: it opens the database at a path of an object store.\<close>

definition store_open ::
  "(string \<Rightarrow> 'o \<Rightarrow> 'z slate_settings_scheme \<Rightarrow> slate_error + 's) \<Rightarrow> 'z slate_settings_scheme \<Rightarrow> ('o, 'z) config \<Rightarrow> 's res" where
  "store_open build stock c =
     map_err Backend (build (cf_path c) (cf_object_store c)
       (case cf_settings c of None \<Rightarrow> default_settings stock | Some st \<Rightarrow> st))"

definition open_in_memory ::
  "(string \<Rightarrow> 'o \<Rightarrow> 'z slate_settings_scheme \<Rightarrow> slate_error + 's) \<Rightarrow> 'z slate_settings_scheme \<Rightarrow> 'o \<Rightarrow> 's res" where
  "open_in_memory build stock memory = store_open build stock (config_in_memory memory)"

text \<open>Reader options: the poll interval in milliseconds, and the rest as before.\<close>

record reader_options =
  manifest_poll_interval :: nat

record ('o, 'z) reader_config =
  rc_path :: string
  rc_object_store :: 'o
  rc_options :: "'z reader_options_scheme option"

definition reader_open ::
  "(string \<Rightarrow> 'o \<Rightarrow> 'z reader_options_scheme \<Rightarrow> slate_error + 'r) \<Rightarrow> 'z reader_options_scheme \<Rightarrow> ('o, 'z) reader_config \<Rightarrow> 'r res" where
  "reader_open open_db stock c =
     map_err Backend (open_db (rc_path c) (rc_object_store c) (case rc_options c of None \<Rightarrow> stock | Some x \<Rightarrow> x))"

definition store_flush :: "('s \<Rightarrow> (slate_error + unit) \<times> 's) \<Rightarrow> 's \<Rightarrow> unit res \<times> 's" where
  "store_flush db_flush s = apfst (map_err Backend) (db_flush s)"

definition store_close :: "('s \<Rightarrow> (slate_error + unit) \<times> 's) \<Rightarrow> 's \<Rightarrow> unit res \<times> 's" where
  "store_close db_close s = apfst (map_err Backend) (db_close s)"

text \<open>Opening with no settings is opening with the tuned profile, and a caller's settings are passed on as they are.\<close>

lemma open_profile:
  "cf_settings c = None \<Longrightarrow> store_open build stock c = store_open build stock' (c\<lparr>cf_settings := Some (default_settings stock)\<rparr>)"
  "cf_settings c = Some st \<Longrightarrow> store_open build stock c = map_err Backend (build (cf_path c) (cf_object_store c) st)"
  by (simp_all add: store_open_def)

section \<open>Streams owned by a program\<close>

definition own_log :: "codec \<Rightarrow> kv_map \<Rightarrow> string \<Rightarrow> envelope list \<Rightarrow> bool" where
  "own_log C m p es \<longleftrightarrow> log_ok C m p \<and> floor_of m p = 0 \<and> fork_of C m p = None \<and> history C m p 0 None = es \<and>
     map env_version es = [0..<next_version C m p]"

lemma own_logD:
  assumes "own_log C m p es"
  shows "log_ok C m p" "floor_of m p = 0" "fork_of C m p = None" "history C m p 0 None = es"
    "map env_version es = [0..<next_version C m p]" "length es = next_version C m p"
    "lineage C m p 0 None es" "pick C m p (\<lambda>e. 0 \<le> env_version e) = es"
proof -
  show log: "log_ok C m p" and f: "floor_of m p = 0" "fork_of C m p = None" and h: "history C m p 0 None = es"
    and v: "map env_version es = [0..<next_version C m p]" using assms by (simp_all add: own_log_def)
  from arg_cong [OF v, of length] show "length es = next_version C m p" by simp
  have "inherits C m p 0 None = None" using f(2) by (simp add: inherits_def)
  from lineage.own [OF _ this] show "lineage C m p 0 None es" by (simp add: h empty_range_def)
  have "\<not> is_deleted m p" "windows m p = {}" using log_okD(5) [OF log] by (simp_all add: open_from_def)
  then have "visible m p e" for e by (simp add: visible_def f(1))
  then show "pick C m p (\<lambda>e. 0 \<le> env_version e) = es" using h by (simp add: history_def in_window_def)
qed

lemma filter_from_version:
  "map env_version xs = [n..<n + length xs] \<Longrightarrow> filter (\<lambda>e. lo \<le> env_version e) xs = drop (lo - n) xs"
proof (induction xs arbitrary: n)
  case (Cons x xs)
  then have x: "env_version x = n" "map env_version xs = [Suc n..<Suc n + length xs]"
    by (simp_all add: upt_conv_Cons del: upt_Suc)
  from Cons.IH [OF x(2)] x(1) show ?case by (simp add: drop_Cons')
qed simp

lemma own_log_versions:
  assumes "own_log C m p es"
  shows "sorted_wrt (<) (map env_version es)" "es \<noteq> [] \<Longrightarrow> env_version (last es) = length es - 1"
    "filter (\<lambda>e. lo \<le> env_version e) es = drop lo es"
proof -
  note lg = own_logD [OF assms]
  show "sorted_wrt (<) (map env_version es)" by (simp add: lg(5))
  have nth: "env_version (es ! i) = i" if "i < length es" for i
    using arg_cong [OF lg(5), of "\<lambda>xs. xs ! i"] that by (simp add: lg(6))
  then show "es \<noteq> [] \<Longrightarrow> env_version (last es) = length es - 1" by (simp add: last_conv_nth)
  from filter_from_version [of es 0 lo] show "filter (\<lambda>e. lo \<le> env_version e) es = drop lo es" by (simp add: lg(5,6))
qed

lemma own_log_empty: "name_ok p \<Longrightarrow> own_log C Map.empty p []"
  by (simp add: own_log_def log_ok_def floor_of_def fork_of_def history_def pick_def forks_ok_def descends_def snaps_ok_def)

lemma own_log_current: "own_log C m p es \<Longrightarrow> current_version C m p = (if es = [] then None else Some (length es - 1))"
  by (auto dest!: own_logD(6) simp: next_version_def split: option.splits)

context serde_codec begin

lemma own_log_append:
  assumes "own_log C m p es" "ulids_ok E" "append_room C m p None events" "events \<noteq> []"
  shows "own_log C (append_map C E m p None idx events) p (es @ batch_of C E m p None events)"
proof -
  note own = own_logD [OF assms(1)] and log = log_okD [OF own_logD(1) [OF assms(1)]]
  have "map env_version (batch_of C E m p None events) = [next_version C m p..<next_version C m p + length events]"
    by (simp add: batch_of_def stamped_versions append_start_def)
  then show ?thesis
    using log_ok_append [OF own(1) assms(2-4)] own(2-5) history_append [OF log(1,3) assms(2-4) log(4,5), of 0 idx]
      upt_add_eq_append [of 0 "next_version C m p" "length events"]
    by (simp add: own_log_def append_map_guards append_map_fork_of append_map_next log(3) assms(4))
qed

end

context event_store begin

lemma own_append:
  assumes own: "own_log C (content s) p es" and batch: "check_batch events = Inr ()" "events \<noteq> []"
    and E: "ulids_ok (Es 0)" "append_room C (content s) p None events" "others (Es 0) s = s"
    and expected: "version_matches expected (if es = [] then None else Some (length es - 1))"
  obtains s' where "append_event B C Es s p expected events =
      (Inr \<lparr>first_version = length es, last_version = length es + length events - 1, start_sequence = global_seq (content s) + 1\<rparr>, s')"
    "own_log C (content s') p (es @ batch_of C (Es 0) (content s) p None events)"
    "global_seq (content s') = global_seq (content s) + length events" "latest_snapshot B C s' p = latest_snapshot B C s p"
proof -
  note log = log_okD [OF own_logD(1) [OF own]]
  have "refusal C (content s) p expected None events = None"
    using expected own_log_current [OF own] batch(2) by (simp add: refusal_def)
  with commit_appends_quiet [where Es = Es and s = s and stream = p and from_version = None and events = events and
      expected = expected and token = None and idx = True, OF batch(1) log(1,3) E] own_logD(6) [OF own]
  obtain h s' where c: "commit_appends B C Es s p expected None None events True =
      (Inr \<lparr>tk_info = \<lparr>first_version = length es, last_version = length es + length events - 1,
         start_sequence = global_seq (content s) + 1\<rparr>, tk_seq = h\<rparr>, s')"
    "content s' = append_map C (Es 0) (content s) p None True events"
    by (auto simp: append_start_def)
  show ?thesis
  proof (rule that)
    show "append_event B C Es s p expected events =
      (Inr \<lparr>first_version = length es, last_version = length es + length events - 1, start_sequence = global_seq (content s) + 1\<rparr>, s')"
      by (simp add: append_event_def append_lazy_def c(1))
    show "own_log C (content s') p (es @ batch_of C (Es 0) (content s) p None events)"
      unfolding c(2) by (rule own_log_append [OF own E(1,2) batch(2)])
    show "global_seq (content s') = global_seq (content s) + length events"
      unfolding c(2) by (rule append_map_seq [OF E(2)])
    show "latest_snapshot B C s' p = latest_snapshot B C s p"
      by (rule latest_after_append [where Es = Es, OF own_logD(1) [OF own] E c(1)])
  qed
qed

lemma own_fold:
  assumes "own_log C (content s) p es" "lo < VMAX"
  shows "store_fold B C s p (Included lo, Unbounded) a f =
     Some (Inr (foldl f a (map event_from_parts (drop lo es)), if length es \<le> lo then None else Some (length es - 1)))"
proof -
  note own = own_logD [OF assms(1)] and log = log_okD [OF own_logD(1) [OF assms(1)]]
  have lin: "lineage C (content s) p lo None (drop lo es)"
    using lineage_from [OF own(7) log(1,3), of lo] own_log_versions(3) [OF assms(1)] by simp
  have "last_event_version (map event_from_parts (drop lo es)) = (if length es \<le> lo then None else Some (length es - 1))"
    using own_log_versions(2) [OF assms(1)] by (cases "es = []") (simp_all add: last_event_version_def last_map)
  with store_fold_lineage [OF log(2,1,3) assms(2) lin, of a f] show ?thesis by simp
qed

text \<open>Publishing a snapshot, once with the answer of any list of statuses.\<close>

lemma own_publish:
  assumes own: "own_log C (content s) p es" and "others E s = s" "global_seq (content s) + 1 < VMAX"
    and "publish_snapshot B C E s p rec state = (r, s')"
  shows "own_log C (content s') p es" "global_seq (content s') = global_seq (content s) + 1"
    "latest_snapshot B C s' p = Inr (Some
       \<lparr>snap_through_version = comp_through_version rec, snap_ts_ms = comp_ts_ms rec, snap_state = state\<rparr>)"
    "r = Inr () \<or> (\<exists>w. r = Inl (Backend (SlateClosed w)))"
proof -
  have room: "global_seq (content s) + 1 < 2 ^ 64" using assms(3) by simp
  let ?m = "publish_map C E (content s) p rec state"
  obtain r0 s0 where "publish_snapshot B C E s p rec state = (r0, s0)" "content s0 = ?m"
    "r0 = Inr () \<or> (\<exists>w. r0 = Inl (Backend (SlateClosed w)))" by (rule publish_eq [OF assms(2) room])
  with assms(4) have m: "content s' = ?m" and r: "r = Inr () \<or> (\<exists>w. r = Inl (Backend (SlateClosed w)))" by auto
  show "r = Inr () \<or> (\<exists>w. r = Inl (Backend (SlateClosed w)))" by (rule r)
  note log = publish_log [OF own_logD(1) [OF own] assms(2-4)]
  show "latest_snapshot B C s' p = Inr (Some
       \<lparr>snap_through_version = comp_through_version rec, snap_ts_ms = comp_ts_ms rec, snap_state = state\<rparr>)" by (rule log(1))
  show "global_seq (content s') = global_seq (content s) + 1" unfolding m by (rule publish_map_seq [OF room])
  have meta: "history C ?m p lo hi = history C (content s) p lo hi" "fork_of C ?m p = fork_of C (content s) p" for lo hi
    using same_meta [of ?m "content s" C] by simp_all
  then show "own_log C (content s') p es"
    using own log(2,3) by (simp add: own_log_def m floor_of_def)
qed

text \<open>Rehydration and compaction of an aggregate over such a stream.\<close>

lemma own_rehydrate:
  assumes "own_log C (content s) p es"
  shows "latest_snapshot B C s p = Inr None \<Longrightarrow> rehydrate B C A s p =
      Some (Inr (foldl (agg_apply A) (agg_default A) (map event_from_parts es), if es = [] then None else Some (length es - 1)))"
    "latest_snapshot B C s p = Inr (Some snap) \<Longrightarrow> snap_through_version snap + 1 < VMAX \<Longrightarrow> agg_restore A (snap_state snap) = Inr a \<Longrightarrow>
      rehydrate B C A s p = Some (Inr (foldl (agg_apply A) a (map event_from_parts (drop (snap_through_version snap + 1) es)),
        Some (if length es \<le> snap_through_version snap + 1 then snap_through_version snap else length es - 1)))"
  using own_fold [OF assms, of 0 "agg_default A" "agg_apply A"]
    own_fold [OF assms, of "snap_through_version snap + 1" a "agg_apply A"] by (simp_all add: rehydrate_def)

lemma own_compact:
  fixes E :: "'s env"
  assumes own: "own_log C (content s) p es" and "es \<noteq> []"
    and state: "agg_snapshot A (foldl (agg_apply A) (agg_default A) (map event_from_parts es)) = Inr state"
  defines "rec \<equiv> \<lparr>comp_stream = p, comp_through_version = length es - 1, comp_events_compacted = length es,
     comp_job_id = None, comp_ts_ms = clock E 0\<rparr>"
  shows "compact B C A E s p = Some (apfst (\<lambda>r. bind_res r (\<lambda>_. Inr rec)) (publish_snapshot B C E s p rec state))"
proof -
  note log = log_okD [OF own_logD(1) [OF own]]
  have "read_history B C s p (Included 0, Unbounded) = Some (Inr (map event_from_parts es))"
    by (rule read_history_lineage [OF log(2,1,3) _ _ _ own_logD(7) [OF own]]) (simp_all add: bounds_def)
  with assms(2) state own_log_versions(2) [OF own] show ?thesis
    by (simp add: compact_def compact_with_def compact_inner_def rec_def last_map)
qed

end

end
