(* ===== verification/Btree_Map.thy ===== *)
theory Btree_Map
  imports Rust_Std
begin

text \<open>
  The ordered map \<open>BTreeMap\<close> of the Rust standard library, as an association list with strictly
  increasing keys: iteration order is list order, and two maps are equal (\<open>PartialEq\<close>) when the
  lists are. The lemmas give the meaning of every operation through \<^const>\<open>map_of\<close>.
\<close>

type_synonym ('k, 'v) btree = "('k \<times> 'v) list"

fun bt_insert :: "'k::linorder \<Rightarrow> 'v \<Rightarrow> ('k, 'v) btree \<Rightarrow> ('k, 'v) btree" where
  "bt_insert k v [] = [(k, v)]"
| "bt_insert k v ((k', v') # m) =
     (if k < k' then (k, v) # (k', v') # m
      else if k = k' then (k, v) # m
      else (k', v') # bt_insert k v m)"

definition bt_remove :: "'k \<Rightarrow> ('k, 'v) btree \<Rightarrow> ('k, 'v) btree" where
  "bt_remove k m = filter (\<lambda>(k', _). k' \<noteq> k) m"

definition bt_retain :: "('k \<Rightarrow> bool) \<Rightarrow> ('k, 'v) btree \<Rightarrow> ('k, 'v) btree" where
  "bt_retain P m = filter (\<lambda>(k, _). P k) m"

definition bt_ok :: "('k::linorder, 'v) btree \<Rightarrow> bool" where
  "bt_ok m \<longleftrightarrow> sorted_wrt (<) (map fst m)"

lemma bt_ok_Nil [simp]: "bt_ok []"
  by (simp add: bt_ok_def)

lemma fst_set_bt_insert: "fst ` set (bt_insert k v m) = insert k (fst ` set m)"
  by (induction k v m rule: bt_insert.induct) auto

lemma bt_ok_insert [simp]: "bt_ok m \<Longrightarrow> bt_ok (bt_insert k v m)"
proof (induction k v m rule: bt_insert.induct)
  case (2 k v k' v' m)
  then have m: "bt_ok m" "\<forall>x \<in> fst ` set m. k' < x" by (auto simp: bt_ok_def)
  show ?case
  proof (cases k k' rule: linorder_cases)
    case greater
    then have "\<forall>x \<in> fst ` set (bt_insert k v m). k' < x" using m(2) by (simp only: fst_set_bt_insert) auto
    with greater 2 m show ?thesis by (auto simp: bt_ok_def)
  qed (use 2 m in \<open>auto simp: bt_ok_def dest: less_trans\<close>)
qed (simp add: bt_ok_def)

lemma map_of_bt_insert [simp]: "map_of (bt_insert k v m) = (map_of m)(k \<mapsto> v)"
  by (induction k v m rule: bt_insert.induct) (auto simp: fun_eq_iff)

lemma bt_ok_filter: "bt_ok m \<Longrightarrow> bt_ok (filter P m)"
  unfolding bt_ok_def by (metis sorted_wrt_filter sorted_wrt_map)

lemma bt_ok_remove [simp]: "bt_ok m \<Longrightarrow> bt_ok (bt_remove k m)"
  by (simp add: bt_remove_def bt_ok_filter)

lemma bt_ok_retain [simp]: "bt_ok m \<Longrightarrow> bt_ok (bt_retain P m)"
  by (simp add: bt_retain_def bt_ok_filter)

lemma map_of_bt_retain [simp]: "map_of (bt_retain P m) k = (if P k then map_of m k else None)"
  by (induction m) (auto simp: bt_retain_def)

lemma map_of_bt_remove [simp]: "map_of (bt_remove k m) = (map_of m)(k := None)"
  by (induction m) (auto simp: bt_remove_def fun_eq_iff)

lemma bt_distinct: "bt_ok m \<Longrightarrow> distinct (map fst m)"
  unfolding bt_ok_def by (rule sorted_wrt_less_distinct)

lemma bt_eqI:
  assumes "bt_ok m" "bt_ok n" "map_of m = map_of n"
  shows "m = n"
proof -
  have s: "set m = set n"
  proof (rule set_eqI)
    fix x show "x \<in> set m \<longleftrightarrow> x \<in> set n"
      using map_of_eq_Some_iff [OF bt_distinct [OF assms(1)], of "fst x" "snd x"]
        map_of_eq_Some_iff [OF bt_distinct [OF assms(2)], of "fst x" "snd x"] assms(3) by simp
  qed
  then have "map fst m = map fst n"
    using assms by (intro strict_sorted_unique) (auto simp: bt_ok_def)
  moreover have "inj_on fst (set m \<union> set n)"
    using s bt_distinct [OF assms(1)] by (simp add: distinct_map)
  ultimately show ?thesis by (rule map_inj_on)
qed

text \<open>Inserting a list of entries in order: the last one for a key wins.\<close>

definition bt_extend :: "('k::linorder, 'v) btree \<Rightarrow> ('k \<times> 'v) list \<Rightarrow> ('k, 'v) btree" where
  "bt_extend m kvs = foldl (\<lambda>m (k, v). bt_insert k v m) m kvs"

lemma bt_extend_simps [simp]:
  "bt_extend m [] = m"
  "bt_extend m ((k, v) # kvs) = bt_extend (bt_insert k v m) kvs"
  by (simp_all add: bt_extend_def)

lemma bt_extend_append: "bt_extend m (xs @ ys) = bt_extend (bt_extend m xs) ys"
  by (simp add: bt_extend_def)

lemma bt_ok_extend [simp]: "bt_ok m \<Longrightarrow> bt_ok (bt_extend m kvs)"
proof (induction kvs arbitrary: m)
  case (Cons x kvs)
  then show ?case by (cases x) simp
qed simp

lemma map_of_bt_extend: "map_of (bt_extend m kvs) = map_of m ++ map_of (rev kvs)"
proof (induction kvs arbitrary: m)
  case (Cons x kvs)
  have "(map_of m)(k \<mapsto> v) ++ r = map_of m ++ ([k \<mapsto> v] ++ r)" for k v r
    by (simp only: map_add_assoc map_add_upd map_add_empty)
  with Cons show ?case by (cases x) (simp add: fun_upd_def)
qed simp

lemma map_of_rev_distinct: "distinct (map fst kvs) \<Longrightarrow> map_of (rev kvs) = map_of kvs"
  by (rule map_of_inject_set [THEN iffD2]) (simp_all add: rev_map [symmetric])

text \<open>Extending by the entries of a map that was built from a list is extending by the list.\<close>

lemma bt_extend_extend:
  assumes "bt_ok m" "bt_ok n"
  shows "bt_extend m (bt_extend n kvs) = bt_extend (bt_extend m n) kvs"
proof (rule bt_eqI)
  have "map_of (rev (bt_extend n kvs)) = map_of (bt_extend n kvs)"
    using assms by (intro map_of_rev_distinct bt_distinct) auto
  moreover have "map_of (rev n) = map_of n"
    using assms by (intro map_of_rev_distinct bt_distinct)
  ultimately show "map_of (bt_extend m (bt_extend n kvs)) = map_of (bt_extend (bt_extend m n) kvs)"
    by (simp add: map_of_bt_extend)
qed (use assms in auto)

end
