(* ===== verification/Checkpointing.thy ===== *)
theory Checkpointing
  imports Btree_Map
begin

text \<open>
  The contract both crates built on the event store rely on: state is the fold of deltas, and a
  checkpoint replaces a run of deltas by one sealed segment. A builder records deltas as they are
  applied, sealing gives the segment, and merging the segment into the image the builder started
  from must give the image the deltas lead to. The lemmas carry this over to whole manifests.
\<close>

locale checkpointing =
  fixes apply_delta :: "'i \<Rightarrow> 'd \<Rightarrow> 'i"
    and start :: "'i \<Rightarrow> 'b"
    and record_delta :: "'b \<Rightarrow> 'd \<Rightarrow> 'b"
    and seal :: "'b \<Rightarrow> 'g option"
    and merge :: "'i \<Rightarrow> 'g \<Rightarrow> 'i"
    and sim :: "'i \<Rightarrow> 'b \<Rightarrow> 'i \<Rightarrow> bool"
    and good :: "'i \<Rightarrow> bool"
    and allowed :: "'d \<Rightarrow> bool"
  assumes start_sim: "good i \<Longrightarrow> sim i (start i) i"
    and step_sim: "sim i b x \<Longrightarrow> allowed d \<Longrightarrow> sim i (record_delta b d) (apply_delta x d)"
    and seal_sim: "sim i b x \<Longrightarrow> seal b = Some g \<Longrightarrow> merge i g = x"
    and good_sim: "sim i b x \<Longrightarrow> good x"
begin

lemma sim_fold:
  "sim i b x \<Longrightarrow> list_all allowed ds \<Longrightarrow> sim i (foldl record_delta b ds) (foldl apply_delta x ds)"
  by (induction ds arbitrary: b x) (auto intro: step_sim)

lemma merge_sealed:
  assumes "good i" "list_all allowed ds" "seal (foldl record_delta (start i) ds) = Some g"
  shows "merge i g = foldl apply_delta i ds"
  using seal_sim [OF sim_fold [OF start_sim [OF assms(1)] assms(2)] assms(3)] .

lemma good_fold: "good i \<Longrightarrow> list_all allowed ds \<Longrightarrow> good (foldl apply_delta i ds)"
  using good_sim [OF sim_fold [OF start_sim]] .

text \<open>A manifest: each segment sealed from one batch, started on the image so far.\<close>

fun sealed_chain :: "'i \<Rightarrow> 'd list list \<Rightarrow> 'g list \<Rightarrow> bool" where
  "sealed_chain i [] gs = (gs = [])"
| "sealed_chain i (ds # dss) gs =
     (case gs of
        [] \<Rightarrow> False
      | g # gs' \<Rightarrow> seal (foldl record_delta (start i) ds) = Some g \<and> sealed_chain (foldl apply_delta i ds) dss gs')"

lemma merge_chain:
  assumes "good i" "list_all (list_all allowed) dss" "sealed_chain i dss gs"
  shows "foldl merge i gs = foldl apply_delta i (concat dss)"
  using assms
proof (induction dss arbitrary: i gs)
  case (Cons ds dss)
  then show ?case
    by (cases gs) (auto simp: merge_sealed good_fold)
qed simp

end

end
