(* ===== verification/Sqlite_Image.thy ===== *)
theory Sqlite_Image
  imports Records Checkpointing
begin

text \<open>
  The data model of the SQLite crate (\<open>landslide-sqlite/src/lib.rs\<close>): deltas of committed
  transactions as page post-images, the packed events that carry them, the database image, sealed
  page sets (\<open>Ltx\<close>) with their builder, manifests, and the newest-wins fold of
  \<open>landslide-sqlite/src/store.rs\<close>. \<open>bincode\<close>, \<open>zstd\<close> and \<open>serde_json\<close> are the parameter
  record \<open>sqlite_codec\<close>; the locale \<open>sqlite_serde\<close> states that they invert.
\<close>

section \<open>Types\<close>

record frame =
  fr_pgno :: u32
  fr_data :: bytes

record delta =
  d_txid :: u64
  d_page_size :: u32
  d_db_size :: u32
  d_pages :: "frame list"

record ltx =
  ltx_txid_start :: u64
  ltx_txid_end :: u64
  ltx_page_size :: u32
  ltx_db_size :: u32
  ltx_pages :: "frame list"

record segment_ref =
  sr_path :: string
  sr_txid_start :: u64
  sr_txid_end :: u64
  sr_page_size :: u32
  sr_db_size :: u32

definition segment_ref_of :: "ltx \<Rightarrow> string \<Rightarrow> segment_ref" where
  "segment_ref_of l path =
     \<lparr>sr_path = path, sr_txid_start = ltx_txid_start l, sr_txid_end = ltx_txid_end l,
      sr_page_size = ltx_page_size l, sr_db_size = ltx_db_size l\<rparr>"

record manifest =
  mf_segments :: "segment_ref list"
  mf_retire :: "string list"

definition manifest_default :: manifest where
  "manifest_default = \<lparr>mf_segments = [], mf_retire = []\<rparr>"

record checkpoint_opts =
  coalesce_at :: nat
  opt_purge :: bool

definition checkpoint_opts_default :: checkpoint_opts where
  "checkpoint_opts_default = \<lparr>coalesce_at = 8, opt_purge = False\<rparr>"

section \<open>The wire format\<close>

record sqlite_codec =
  bin_deltas :: "delta list \<Rightarrow> string + bytes"
  unbin_deltas :: "bytes \<Rightarrow> string + delta list"
  bin_delta_size :: "delta \<Rightarrow> string + nat"
  bin_ltx :: "ltx \<Rightarrow> string + bytes"
  unbin_ltx :: "bytes \<Rightarrow> string + ltx"
  zstd_encode :: "bytes \<Rightarrow> string + bytes"
  zstd_decode :: "bytes \<Rightarrow> string + bytes"
  unjson_delta :: "bytes \<Rightarrow> string + delta"
  json_manifest :: "manifest \<Rightarrow> string + bytes"
  unjson_manifest :: "bytes \<Rightarrow> string + manifest"

definition codec_error :: "string \<Rightarrow> error" where
  "codec_error e = InvalidInput (''codec: '' @ e)"

definition pack :: "sqlite_codec \<Rightarrow> ('a \<Rightarrow> string + bytes) \<Rightarrow> 'a \<Rightarrow> bytes res" where
  "pack Q ser v =
     bind_res (map_err codec_error (ser v)) (\<lambda>raw. map_err codec_error (zstd_encode Q raw))"

definition unpack :: "sqlite_codec \<Rightarrow> (bytes \<Rightarrow> string + 'a) \<Rightarrow> bytes \<Rightarrow> 'a res" where
  "unpack Q de b =
     bind_res (map_err codec_error (zstd_decode Q b)) (\<lambda>raw. map_err codec_error (de raw))"

definition TXB :: string where
  "TXB = ''txb''"

definition TXB_CHUNK :: nat where
  "TXB_CHUNK = 512 * 1024"

text \<open>The loop of \<open>encode_deltas\<close>: the events so far, the open chunk \<open>deltas[start..i]\<close> and its size.\<close>

fun encode_loop :: "sqlite_codec \<Rightarrow> new_event list \<Rightarrow> delta list \<Rightarrow> nat \<Rightarrow> delta list \<Rightarrow> new_event list res" where
  "encode_loop Q events chunk sz [] =
     (if chunk = [] then Inr events
      else bind_res (pack Q (bin_deltas Q) chunk) (\<lambda>b. Inr (events @ [new_event_new TXB b])))"
| "encode_loop Q events chunk sz (d # ds) =
     bind_res (map_err codec_error (bin_delta_size Q d)) (\<lambda>n.
       if TXB_CHUNK < sz + n \<and> chunk \<noteq> [] then
         bind_res (pack Q (bin_deltas Q) chunk) (\<lambda>b. encode_loop Q (events @ [new_event_new TXB b]) [d] n ds)
       else encode_loop Q events (chunk @ [d]) (sz + n) ds)"

definition encode_deltas :: "sqlite_codec \<Rightarrow> delta list \<Rightarrow> new_event list res" where
  "encode_deltas Q deltas = encode_loop Q [] [] 0 deltas"

definition delta_events :: "sqlite_codec \<Rightarrow> event \<Rightarrow> delta list res" where
  "delta_events Q e =
     (if ev_type e = TXB then unpack Q (unbin_deltas Q) (ev_data e)
      else if ev_type e = ''tx'' then
        (case event_json (unjson_delta Q) e of Inl _ \<Rightarrow> Inr [] | Inr d \<Rightarrow> Inr [d])
      else Inr [])"

section \<open>The image\<close>

record db_image =
  im_page_size :: u32
  im_db_size :: u32
  im_txid :: u64
  im_pages :: "(u32, bytes) btree"

definition db_image_default :: db_image where
  "db_image_default = \<lparr>im_page_size = 0, im_db_size = 0, im_txid = 0, im_pages = []\<rparr>"

definition insert_frames :: "(u32, bytes) btree \<Rightarrow> frame list \<Rightarrow> (u32, bytes) btree" where
  "insert_frames m fs = foldl (\<lambda>m f. bt_insert (fr_pgno f) (fr_data f) m) m fs"

definition image_apply :: "db_image \<Rightarrow> delta \<Rightarrow> db_image" where
  "image_apply i d =
     \<lparr>im_page_size = d_page_size d, im_db_size = d_db_size d, im_txid = d_txid d,
      im_pages = insert_frames (im_pages i) (d_pages d)\<rparr>"

definition merge_ltx :: "db_image \<Rightarrow> ltx \<Rightarrow> db_image" where
  "merge_ltx i l =
     \<lparr>im_page_size = ltx_page_size l, im_db_size = ltx_db_size l, im_txid = ltx_txid_end l,
      im_pages = insert_frames (im_pages i) (ltx_pages l)\<rparr>"

text \<open>\<open>out[start..start + data.len()].copy_from_slice(data)\<close>: a panic out of range.\<close>

definition copy_slice :: "bytes \<Rightarrow> nat \<Rightarrow> bytes \<Rightarrow> bytes res" where
  "copy_slice out start data =
     (if start + length data \<le> length out
      then Inr (take start out @ data @ drop (start + length data) out)
      else Inl (Panicked ''range end index out of range''))"

definition place_page :: "u32 \<Rightarrow> u32 \<Rightarrow> bytes \<Rightarrow> u32 \<times> bytes \<Rightarrow> bytes res" where
  "place_page page_size db_size out p =
     (if fst p = 0 \<or> db_size < fst p then Inr out
      else copy_slice out ((fst p - 1) * page_size) (snd p))"

definition to_bytes :: "db_image \<Rightarrow> bytes res" where
  "to_bytes i =
     (if im_page_size i = 0 then Inr []
      else fold_res (place_page (im_page_size i) (im_db_size i))
             (replicate (im_db_size i * im_page_size i) CHR 0x00) (im_pages i))"

section \<open>Sealed page sets\<close>

record ltx_builder =
  lb_txid_start :: "u64 option"
  lb_txid_end :: u64
  lb_page_size :: u32
  lb_db_size :: u32
  lb_pages :: "(u32, bytes) btree"

definition ltx_builder_default :: ltx_builder where
  "ltx_builder_default = \<lparr>lb_txid_start = None, lb_txid_end = 0, lb_page_size = 0, lb_db_size = 0, lb_pages = []\<rparr>"

definition builder_apply :: "ltx_builder \<Rightarrow> delta \<Rightarrow> ltx_builder" where
  "builder_apply b d =
     \<lparr>lb_txid_start = (case lb_txid_start b of None \<Rightarrow> Some (d_txid d) | Some t \<Rightarrow> Some t),
      lb_txid_end = d_txid d, lb_page_size = d_page_size d, lb_db_size = d_db_size d,
      lb_pages = insert_frames (lb_pages b) (d_pages d)\<rparr>"

definition frames_of :: "(u32, bytes) btree \<Rightarrow> frame list" where
  "frames_of m = map (\<lambda>(p, b). \<lparr>fr_pgno = p, fr_data = b\<rparr>) m"

text \<open>\<open>into_ltx\<close> panics on an empty builder: no result.\<close>

definition into_ltx :: "ltx_builder \<Rightarrow> ltx option" where
  "into_ltx b =
     map_option (\<lambda>t. \<lparr>ltx_txid_start = t, ltx_txid_end = lb_txid_end b, ltx_page_size = lb_page_size b,
                      ltx_db_size = lb_db_size b, ltx_pages = frames_of (lb_pages b)\<rparr>) (lb_txid_start b)"

text \<open>\<open>fold\<close>: a batch as one delta; it panics on an empty batch.\<close>

definition fold_deltas :: "delta list \<Rightarrow> delta option" where
  "fold_deltas deltas =
     (if deltas = [] then None
      else Some \<lparr>d_txid = d_txid (last deltas), d_page_size = d_page_size (last deltas),
                 d_db_size = d_db_size (last deltas),
                 d_pages = frames_of (foldl (\<lambda>m d. insert_frames m (d_pages d)) [] deltas)\<rparr>)"

section \<open>Lemmas: pages\<close>

lemma insert_frames_extend: "insert_frames m fs = bt_extend m (map (\<lambda>f. (fr_pgno f, fr_data f)) fs)"
  by (induction fs arbitrary: m) (auto simp: insert_frames_def)

lemma insert_frames_ok [simp]: "bt_ok m \<Longrightarrow> bt_ok (insert_frames m fs)"
  by (simp add: insert_frames_extend)

lemma insert_frames_of [simp]: "insert_frames m (frames_of n) = bt_extend m n"
  by (simp add: insert_frames_extend frames_of_def comp_def case_prod_beta)

lemma insert_built:
  "bt_ok m \<Longrightarrow> bt_ok n \<Longrightarrow> bt_extend m (insert_frames n fs) = insert_frames (bt_extend m n) fs"
  by (simp add: insert_frames_extend bt_extend_extend)

lemma image_apply_ok [simp]: "bt_ok (im_pages i) \<Longrightarrow> bt_ok (im_pages (image_apply i d))"
  by (simp add: image_apply_def)

text \<open>What a builder stands for: nothing yet, or a segment that leads to the image so far.\<close>

definition builder_sim :: "db_image \<Rightarrow> ltx_builder \<Rightarrow> db_image \<Rightarrow> bool" where
  "builder_sim i b x \<longleftrightarrow> bt_ok (im_pages i) \<and> bt_ok (lb_pages b) \<and> bt_ok (im_pages x) \<and>
     (case into_ltx b of None \<Rightarrow> b = ltx_builder_default \<and> x = i | Some l \<Rightarrow> x = merge_ltx i l)"

lemma builder_sim_step:
  assumes "builder_sim i b x"
  shows "builder_sim i (builder_apply b d) (image_apply x d)"
  using assms
  by (cases "lb_txid_start b")
    (auto simp: builder_sim_def builder_apply_def into_ltx_def image_apply_def merge_ltx_def
      ltx_builder_default_def insert_built)

interpretation sqlite_ckpt: checkpointing image_apply "\<lambda>_. ltx_builder_default" builder_apply into_ltx merge_ltx
    builder_sim "\<lambda>i. bt_ok (im_pages i)" "\<lambda>_. True"
proof unfold_locales
  fix i :: db_image assume "bt_ok (im_pages i)"
  then show "builder_sim i ltx_builder_default i"
    by (simp add: builder_sim_def into_ltx_def ltx_builder_default_def)
qed (auto simp: builder_sim_step, auto simp: builder_sim_def)

end
