(* ===== verification/Sqlite_Wal.thy ===== *)
theory Sqlite_Wal
  imports Sqlite_Image
begin

text \<open>
  The WAL parser (\<open>landslide-sqlite/src/wal.rs\<close>) and the capture loop of \<open>Db::sync_inner\<close>, which
  cuts the frames after the cursor into committed transactions. The file format is the abstract side:
  \<open>wal_file\<close> lays out a header and frames as SQLite documents it, and the lemmas show that capturing
  a laid-out file gives the committed transactions, whatever follows the valid frames.
\<close>

section \<open>Parsing\<close>

definition HEADER_LEN :: nat where
  "HEADER_LEN = 32"

definition FRAME_HEADER_LEN :: nat where
  "FRAME_HEADER_LEN = 24"

definition WAL_MAGIC :: "u32 list" where
  "WAL_MAGIC = [0x377f0682, 0x377f0683]"

record wal_cursor =
  cur_salt1 :: u32
  cur_salt2 :: u32
  cur_frame :: u64

definition wal_cursor_default :: wal_cursor where
  "wal_cursor_default = \<lparr>cur_salt1 = 0, cur_salt2 = 0, cur_frame = 0\<rparr>"

record wal_head =
  hd_page_size :: u32
  hd_salt1 :: u32
  hd_salt2 :: u32

definition be32 :: "bytes \<Rightarrow> u32" where
  "be32 b = from_be (take 4 b)"

text \<open>\<open>slice.get(lo..hi)\<close>.\<close>

definition get_slice :: "bytes \<Rightarrow> nat \<Rightarrow> nat \<Rightarrow> bytes option" where
  "get_slice b lo hi = (if lo \<le> hi \<and> hi \<le> length b then Some (take (hi - lo) (drop lo b)) else None)"

definition wal_header :: "bytes \<Rightarrow> wal_head option" where
  "wal_header wal =
     (if length wal < HEADER_LEN then None
      else if be32 wal \<notin> set WAL_MAGIC then None
      else Some \<lparr>hd_page_size = (let n = be32 (drop 8 wal) in if n = 1 then 65536 else n),
                 hd_salt1 = be32 (drop 16 wal), hd_salt2 = be32 (drop 20 wal)\<rparr>)"

definition frame_len :: "wal_head \<Rightarrow> nat" where
  "frame_len h = FRAME_HEADER_LEN + hd_page_size h"

definition wal_frame :: "bytes \<Rightarrow> wal_head \<Rightarrow> u64 \<Rightarrow> (u32 \<times> u32 \<times> bytes) option" where
  "wal_frame wal h index =
     (let off = HEADER_LEN + index * frame_len h in
      case get_slice wal off (off + FRAME_HEADER_LEN) of
        None \<Rightarrow> None
      | Some hdr \<Rightarrow>
          if be32 (drop 8 hdr) \<noteq> hd_salt1 h \<or> be32 (drop 12 hdr) \<noteq> hd_salt2 h then None
          else (case get_slice wal (off + FRAME_HEADER_LEN) (off + frame_len h) of
            None \<Rightarrow> None
          | Some data \<Rightarrow> Some (be32 hdr, be32 (drop 4 hdr), data)))"

lemma wal_frame_in_range:
  "wal_frame wal h i = Some x \<Longrightarrow> HEADER_LEN + (i + 1) * frame_len h \<le> length wal"
  by (auto simp: wal_frame_def get_slice_def Let_def algebra_simps split: if_splits)

lemma wal_frame_progress: "wal_frame wal h i = Some x \<Longrightarrow> length wal - i * frame_len h - frame_len h < length wal - i * frame_len h"
  using wal_frame_in_range [of wal h i x] by (simp add: frame_len_def FRAME_HEADER_LEN_def HEADER_LEN_def algebra_simps)

section \<open>Capturing committed transactions\<close>

text \<open>
  The loop of \<open>sync_inner\<close> over the buffer; \<open>i\<close> is \<open>idx - base\<close>. The index never passes the
  number of frames in the buffer, so only the transaction id can wrap.
\<close>

function wal_loop :: "bytes \<Rightarrow> wal_head \<Rightarrow> nat \<Rightarrow> frame list \<Rightarrow> u64 \<Rightarrow> delta list \<Rightarrow> delta list \<times> frame list \<times> nat" where
  "wal_loop wal h i tx_frames txid deltas =
     (case wal_frame wal h i of
        None \<Rightarrow> (deltas, tx_frames, i)
      | Some (pgno, db_size, data) \<Rightarrow>
          let tx = tx_frames @ [\<lparr>fr_pgno = pgno, fr_data = data\<rparr>] in
          if db_size \<noteq> 0 then
            wal_loop wal h (i + 1) [] (add64 txid 1)
              (deltas @ [\<lparr>d_txid = add64 txid 1, d_page_size = hd_page_size h, d_db_size = db_size, d_pages = tx\<rparr>])
          else wal_loop wal h (i + 1) tx txid deltas)"
  by pat_completeness auto

termination
  by (relation "measure (\<lambda>(wal, h, i, _). length wal - i * frame_len h)")
    (auto dest!: wal_frame_progress simp: algebra_simps)

declare wal_loop.simps [simp del]

text \<open>The bytes \<open>sync_inner\<close> works on: the header and what follows frame \<open>base\<close>.\<close>

definition wal_tail :: "bytes \<Rightarrow> wal_head \<Rightarrow> u64 \<Rightarrow> bytes" where
  "wal_tail file h base = take HEADER_LEN file @ drop (HEADER_LEN + base * frame_len h) file"

text \<open>
  The reading half of \<open>sync_inner\<close>: no result when the file is short or not a WAL; else the cursor of
  this generation, the new deltas and the next frame.
\<close>

definition wal_capture :: "bytes \<Rightarrow> wal_cursor \<Rightarrow> u64 \<Rightarrow> (wal_cursor \<times> delta list \<times> u64) option" where
  "wal_capture file cursor txid =
     (if length file < HEADER_LEN then None
      else case wal_header (take HEADER_LEN file) of
        None \<Rightarrow> None
      | Some h \<Rightarrow>
          let cur = (if (hd_salt1 h, hd_salt2 h) \<noteq> (cur_salt1 cursor, cur_salt2 cursor)
                     then \<lparr>cur_salt1 = hd_salt1 h, cur_salt2 = hd_salt2 h, cur_frame = 0\<rparr> else cursor);
              base = cur_frame cur;
              (deltas, tx_frames, i) = wal_loop (wal_tail file h base) h 0 [] txid []
          in Some (cur, deltas, base + i - length tx_frames))"

section \<open>The file format\<close>

record wal_entry =
  we_pgno :: u32
  we_db_size :: u32
  we_check :: bytes
  we_data :: bytes

definition entry_bytes :: "wal_head \<Rightarrow> wal_entry \<Rightarrow> bytes" where
  "entry_bytes h e = be_bytes 4 (we_pgno e) @ be_bytes 4 (we_db_size e) @
     be_bytes 4 (hd_salt1 h) @ be_bytes 4 (hd_salt2 h) @ we_check e @ we_data e"

definition entry_ok :: "wal_head \<Rightarrow> wal_entry \<Rightarrow> bool" where
  "entry_ok h e \<longleftrightarrow> we_pgno e < 2 ^ 32 \<and> we_db_size e < 2 ^ 32 \<and> length (we_check e) = 8 \<and>
     length (we_data e) = hd_page_size h"

definition entries_bytes :: "wal_head \<Rightarrow> wal_entry list \<Rightarrow> bytes" where
  "entries_bytes h es = concat (map (entry_bytes h) es)"

text \<open>A header: magic, format version, page size, sequence number, salts, checksum.\<close>

definition header_bytes :: "u32 \<Rightarrow> bytes \<Rightarrow> bytes \<Rightarrow> wal_head \<Rightarrow> bytes \<Rightarrow> bytes" where
  "header_bytes magic fmt sq h check = be_bytes 4 magic @ fmt @
     be_bytes 4 (if hd_page_size h = 65536 then 1 else hd_page_size h) @ sq @
     be_bytes 4 (hd_salt1 h) @ be_bytes 4 (hd_salt2 h) @ check"

definition head_ok :: "u32 \<Rightarrow> bytes \<Rightarrow> bytes \<Rightarrow> wal_head \<Rightarrow> bytes \<Rightarrow> bool" where
  "head_ok magic fmt sq h check \<longleftrightarrow> magic \<in> set WAL_MAGIC \<and> length fmt = 4 \<and> length sq = 4 \<and>
     length check = 8 \<and> 1 < hd_page_size h \<and> hd_page_size h < 2 ^ 32 \<and>
     hd_salt1 h < 2 ^ 32 \<and> hd_salt2 h < 2 ^ 32"

text \<open>What follows the valid frames: too short for a frame, or a frame of another generation.\<close>

definition stale_tail :: "wal_head \<Rightarrow> bytes \<Rightarrow> bool" where
  "stale_tail h rest \<longleftrightarrow> length rest < frame_len h \<or>
     be32 (drop 8 rest) \<noteq> hd_salt1 h \<or> be32 (drop 12 rest) \<noteq> hd_salt2 h"

definition entry_frame :: "wal_entry \<Rightarrow> frame" where
  "entry_frame e = \<lparr>fr_pgno = we_pgno e, fr_data = we_data e\<rparr>"

text \<open>The committed transactions of a run of frames, and the frames left open at its end.\<close>

fun cut_txs :: "u32 \<Rightarrow> frame list \<Rightarrow> u64 \<Rightarrow> wal_entry list \<Rightarrow> delta list \<times> frame list" where
  "cut_txs ps open_tx txid [] = ([], open_tx)"
| "cut_txs ps open_tx txid (e # es) =
     (if we_db_size e \<noteq> 0 then
        let (ds, rest) = cut_txs ps [] (add64 txid 1) es in
        (\<lparr>d_txid = add64 txid 1, d_page_size = ps, d_db_size = we_db_size e, d_pages = open_tx @ [entry_frame e]\<rparr> # ds, rest)
      else cut_txs ps (open_tx @ [entry_frame e]) txid es)"

section \<open>Lemmas\<close>

text \<open>A frame is read off the bytes at its offset.\<close>

definition parse_frame :: "wal_head \<Rightarrow> bytes \<Rightarrow> (u32 \<times> u32 \<times> bytes) option" where
  "parse_frame h r =
     (if length r < FRAME_HEADER_LEN \<or> be32 (drop 8 r) \<noteq> hd_salt1 h \<or> be32 (drop 12 r) \<noteq> hd_salt2 h \<or>
         length r < frame_len h then None
      else Some (be32 r, be32 (drop 4 r), take (hd_page_size h) (drop FRAME_HEADER_LEN r)))"

lemma be32_take: "k + 4 \<le> n \<Longrightarrow> be32 (drop k (take n r)) = be32 (drop k r)"
  by (simp add: be32_def drop_take min_def)

lemma be32_take0: "4 \<le> n \<Longrightarrow> be32 (take n r) = be32 r"
  by (simp add: be32_def min_def)

lemma wal_frame_parse: "wal_frame wal h i = parse_frame h (drop (HEADER_LEN + i * frame_len h) wal)"
  by (auto simp: wal_frame_def parse_frame_def get_slice_def Let_def frame_len_def FRAME_HEADER_LEN_def
      be32_take be32_take0 add.commute add.left_commute)

lemma be32_be_bytes [simp]: "n < 2 ^ 32 \<Longrightarrow> be32 (be_bytes 4 n @ r) = n"
  using from_be_be_bytes [of n 4] by (simp add: be32_def)

lemma length_entry_bytes [simp]: "entry_ok h e \<Longrightarrow> length (entry_bytes h e) = frame_len h"
  by (simp add: entry_bytes_def entry_ok_def frame_len_def FRAME_HEADER_LEN_def)

lemma parse_entry:
  assumes "entry_ok h e" "hd_salt1 h < 2 ^ 32" "hd_salt2 h < 2 ^ 32"
  shows "parse_frame h (entry_bytes h e @ r) = Some (we_pgno e, we_db_size e, we_data e)"
proof -
  have "length (entry_bytes h e @ r) \<ge> frame_len h" using assms by simp
  moreover have "drop 4 (entry_bytes h e @ r) = be_bytes 4 (we_db_size e) @ be_bytes 4 (hd_salt1 h) @
      be_bytes 4 (hd_salt2 h) @ we_check e @ we_data e @ r"
    "drop 8 (entry_bytes h e @ r) = be_bytes 4 (hd_salt1 h) @ be_bytes 4 (hd_salt2 h) @ we_check e @ we_data e @ r"
    "drop 12 (entry_bytes h e @ r) = be_bytes 4 (hd_salt2 h) @ we_check e @ we_data e @ r"
    "drop 24 (entry_bytes h e @ r) = we_data e @ r"
    using assms by (simp_all add: entry_bytes_def entry_ok_def)
  moreover have "be32 (entry_bytes h e @ r) = we_pgno e"
    using assms by (simp add: entry_bytes_def entry_ok_def)
  ultimately show ?thesis
    using assms by (simp add: parse_frame_def entry_ok_def frame_len_def FRAME_HEADER_LEN_def)
qed

lemma parse_stale: "stale_tail h r \<Longrightarrow> parse_frame h r = None"
  by (auto simp: parse_frame_def stale_tail_def)

lemma wal_loop_cut:
  assumes "list_all (entry_ok h) es" "stale_tail h rest" "hd_salt1 h < 2 ^ 32" "hd_salt2 h < 2 ^ 32"
    and "drop (HEADER_LEN + i * frame_len h) wal = entries_bytes h es @ rest"
  shows "wal_loop wal h i open_tx txid deltas =
     (deltas @ fst (cut_txs (hd_page_size h) open_tx txid es), snd (cut_txs (hd_page_size h) open_tx txid es), i + length es)"
  using assms
proof (induction es arbitrary: i open_tx txid deltas)
  case Nil
  then show ?case by (simp add: wal_loop.simps [of wal] wal_frame_parse parse_stale entries_bytes_def)
next
  case (Cons e es)
  have fr: "wal_frame wal h i = Some (we_pgno e, we_db_size e, we_data e)"
    using Cons.prems by (simp add: wal_frame_parse entries_bytes_def parse_entry)
  have "drop (HEADER_LEN + (i + 1) * frame_len h) wal = drop (frame_len h) (drop (HEADER_LEN + i * frame_len h) wal)"
    by (simp add: algebra_simps)
  also have "\<dots> = entries_bytes h es @ rest"
    using Cons.prems(1) by (simp add: Cons.prems(5) entries_bytes_def)
  finally have rest: "drop (HEADER_LEN + (i + 1) * frame_len h) wal = entries_bytes h es @ rest" .
  note IH = Cons.IH [OF _ Cons.prems(2-4) rest, simplified]
  show ?case
    using Cons.prems(1)
    by (simp add: wal_loop.simps [of wal h i] fr IH entry_frame_def Let_def case_prod_beta)
qed

lemma cut_txs_append:
  "cut_txs ps tx txid (xs @ ys) =
     (let (ds, tx') = cut_txs ps tx txid xs;
          (ds', tx'') = cut_txs ps tx' ((txid + length ds) mod 2 ^ 64) ys
      in (ds @ ds', tx''))" if "txid < 2 ^ 64"
  using that
proof (induction xs arbitrary: tx txid)
  case (Cons x xs)
  have "(add64 txid 1 + n) mod 2 ^ 64 = (txid + Suc n) mod 2 ^ 64" for n
    by (simp add: add64_def mod_simps add.commute add.left_commute)
  then show ?case using Cons.IH [OF add64_bound [of txid 1]] Cons.IH [OF Cons.prems]
    by (simp add: Let_def case_prod_beta)
qed simp

lemma length_header_bytes [simp]: "head_ok magic fmt sq h check \<Longrightarrow> length (header_bytes magic fmt sq h check) = 32"
  by (simp add: head_ok_def header_bytes_def)

lemma wal_header_bytes:
  assumes "head_ok magic fmt sq h check"
  shows "wal_header (header_bytes magic fmt sq h check) = Some h"
proof -
  let ?b = "header_bytes magic fmt sq h check"
  have "be32 ?b = magic" using assms by (auto simp: header_bytes_def head_ok_def WAL_MAGIC_def)
  moreover have "be32 (drop 8 ?b) = (if hd_page_size h = 65536 then 1 else hd_page_size h)"
    "be32 (drop 16 ?b) = hd_salt1 h" "be32 (drop 20 ?b) = hd_salt2 h"
    using assms by (auto simp: header_bytes_def head_ok_def)
  ultimately show ?thesis using assms by (auto simp: wal_header_def HEADER_LEN_def head_ok_def Let_def)
qed

lemma length_entries_bytes [simp]: "list_all (entry_ok h) es \<Longrightarrow> length (entries_bytes h es) = length es * frame_len h"
  by (induction es) (auto simp: entries_bytes_def)

lemma entries_bytes_append [simp]: "entries_bytes h (xs @ ys) = entries_bytes h xs @ entries_bytes h ys"
  by (simp add: entries_bytes_def)

text \<open>The cursor stands after \<open>done\<close>: it is of this generation, or nothing of this one was read.\<close>

definition cursor_after :: "wal_head \<Rightarrow> wal_cursor \<Rightarrow> wal_entry list \<Rightarrow> bool" where
  "cursor_after h c seen \<longleftrightarrow>
     (if cur_salt1 c = hd_salt1 h \<and> cur_salt2 c = hd_salt2 h then cur_frame c = length seen else seen = [])"

definition cursor_at :: "wal_head \<Rightarrow> nat \<Rightarrow> wal_cursor" where
  "cursor_at h n = \<lparr>cur_salt1 = hd_salt1 h, cur_salt2 = hd_salt2 h, cur_frame = n\<rparr>"

lemma capture_layout:
  assumes "head_ok magic fmt sq h check" "list_all (entry_ok h) (seen @ es)" "stale_tail h rest" "cursor_after h c seen"
  shows "wal_capture (header_bytes magic fmt sq h check @ entries_bytes h (seen @ es) @ rest) c txid =
     Some (cursor_at h (length seen), fst (cut_txs (hd_page_size h) [] txid es),
           length seen + length es - length (snd (cut_txs (hd_page_size h) [] txid es)))"
proof -
  let ?H = "header_bytes magic fmt sq h check"
  let ?f = "?H @ entries_bytes h (seen @ es) @ rest"
  have salts: "hd_salt1 h < 2 ^ 32" "hd_salt2 h < 2 ^ 32" using assms(1) by (simp_all add: head_ok_def)
  have ok: "list_all (entry_ok h) seen" "list_all (entry_ok h) es" using assms(2) by simp_all
  have cur: "(if (hd_salt1 h, hd_salt2 h) \<noteq> (cur_salt1 c, cur_salt2 c)
       then \<lparr>cur_salt1 = hd_salt1 h, cur_salt2 = hd_salt2 h, cur_frame = 0\<rparr> else c) = cursor_at h (length seen)"
    using assms(4) by (cases c) (auto simp: cursor_after_def cursor_at_def split: if_splits)
  have tl: "wal_tail ?f h (length seen) = ?H @ entries_bytes h es @ rest"
    using ok assms(1) by (simp add: wal_tail_def HEADER_LEN_def)
  have "drop (HEADER_LEN + 0 * frame_len h) (wal_tail ?f h (length seen)) = entries_bytes h es @ rest"
    unfolding tl using assms(1) by (simp add: HEADER_LEN_def)
  note loop = wal_loop_cut [OF ok(2) assms(3) salts this, of "[]" txid "[]"]
  have tk: "take HEADER_LEN ?f = ?H" "\<not> length ?f < HEADER_LEN" using assms(1) by (simp_all add: HEADER_LEN_def)
  show ?thesis
    unfolding wal_capture_def tk wal_header_bytes [OF assms(1)]
    by (simp only: if_False tk Let_def cur option.case cursor_at_def wal_cursor.select_convs loop) simp
qed

text \<open>The frames of committed transactions alone give the same transactions and leave none open.\<close>

definition committed :: "wal_entry list \<Rightarrow> nat" where
  "committed es = length es - length (snd (cut_txs 0 [] 0 es))"

lemma cut_txs_rest: "snd (cut_txs ps tx txid es) = snd (cut_txs 0 tx 0 es)"
proof -
  have "snd (cut_txs ps tx txid es) = snd (cut_txs ps' tx txid' es)" for ps' txid'
    by (induction es arbitrary: tx txid txid') (auto simp: Let_def case_prod_beta)
  then show ?thesis by simp
qed

lemma cut_txs_committed:
  assumes "txid < 2 ^ 64"
  shows "cut_txs ps [] txid (take (committed es) es) = (fst (cut_txs ps [] txid es), [])"
proof (induction es rule: rev_induct)
  case (snoc e es)
  note app = cut_txs_append [of _ ps "[]" es "[e]"] cut_txs_append [of _ 0 "[]" es "[e]"]
  show ?case
  proof (cases "we_db_size e = 0")
    case True
    then have open_tx: "snd (cut_txs 0 [] 0 (es @ [e])) = snd (cut_txs 0 [] 0 es) @ [entry_frame e]"
      by (simp add: app(2) Let_def case_prod_beta)
    have "committed (es @ [e]) = committed es" by (simp add: committed_def open_tx)
    moreover have "fst (cut_txs ps [] txid (es @ [e])) = fst (cut_txs ps [] txid es)"
      using True assms by (simp add: app(1) Let_def case_prod_beta)
    ultimately show ?thesis using snoc by (simp add: committed_def)
  next
    case False
    then have "snd (cut_txs q [] t (es @ [e])) = []" for q t
      using cut_txs_rest [of q "[]" t "es @ [e]"] by (simp add: app(2) Let_def case_prod_beta)
    then have "committed (es @ [e]) = length (es @ [e])" "snd (cut_txs ps [] txid (es @ [e])) = []"
      by (simp_all add: committed_def)
    then show ?thesis by (simp add: prod_eq_iff)
  qed
qed simp

lemma cut_txs_resume:
  assumes "txid < 2 ^ 64" "take (committed a) b = take (committed a) a"
  shows "cut_txs ps [] txid b =
     (let (ds, tx) = cut_txs ps [] ((txid + length (fst (cut_txs ps [] txid a))) mod 2 ^ 64) (drop (committed a) b)
      in (fst (cut_txs ps [] txid a) @ ds, tx))"
proof -
  have b: "b = take (committed a) a @ drop (committed a) b" using append_take_drop_id [of "committed a" b] assms(2) by simp
  show ?thesis
    by (subst b, subst cut_txs_append [OF assms(1)])
      (simp add: cut_txs_committed [OF assms(1)] Let_def case_prod_beta)
qed

lemma cut_txs_length: "length (snd (cut_txs ps tx t es)) \<le> length tx + length es"
proof (induction es arbitrary: tx t)
  case (Cons e es)
  show ?case using Cons.IH [of "[]" "add64 t 1"] Cons.IH [of "tx @ [entry_frame e]" t]
    by (simp add: Let_def case_prod_beta)
qed simp

section \<open>Properties\<close>

text \<open>C14: capturing a write-ahead log returns exactly its committed transactions: for a file laid out as SQLite
  writes it, read from the cursor, the frames after the cursor are cut at their commit frames, the transactions get
  the next ids, and the new position is before the frames of an unfinished transaction, whatever stale or partial
  bytes follow.\<close>

theorem wal_capture_committed:
  assumes "head_ok magic fmt sq h check" "list_all (entry_ok h) (seen @ es)" "stale_tail h rest" "cursor_after h c seen"
  shows "wal_capture (header_bytes magic fmt sq h check @ entries_bytes h (seen @ es) @ rest) c txid =
     Some (cursor_at h (length seen), fst (cut_txs (hd_page_size h) [] txid es), length seen + committed es)"
  using capture_layout [OF assms] cut_txs_length [of 0 "[]" 0 es]
  by (simp add: committed_def cut_txs_rest [of "hd_page_size h"])

definition example_head :: wal_head where
  "example_head = \<lparr>hd_page_size = 2, hd_salt1 = 7, hd_salt2 = 9\<rparr>"

definition example_entry :: "u32 \<Rightarrow> u32 \<Rightarrow> char \<Rightarrow> wal_entry" where
  "example_entry p n c = \<lparr>we_pgno = p, we_db_size = n, we_check = replicate 8 c, we_data = [c, c]\<rparr>"

lemma example_head_ok: "head_ok 0x377f0682 ''abcd'' ''efgh'' example_head ''01234567''"
  by (simp add: head_ok_def example_head_def WAL_MAGIC_def)

theorem wal_capture_committed_witness:
  "wal_capture (header_bytes 0x377f0682 ''abcd'' ''efgh'' example_head ''01234567'' @
       entries_bytes example_head ([] @ [example_entry 1 0 CHR ''x'', example_entry 2 2 CHR ''y'', example_entry 1 0 CHR ''z'']) @ ''tail'')
     wal_cursor_default 4 =
     Some (cursor_at example_head 0,
       [\<lparr>d_txid = 5, d_page_size = 2, d_db_size = 2, d_pages = [\<lparr>fr_pgno = 1, fr_data = ''xx''\<rparr>, \<lparr>fr_pgno = 2, fr_data = ''yy''\<rparr>]\<rparr>], 2)"
proof -
  let ?es = "[example_entry 1 0 CHR ''x'', example_entry 2 2 CHR ''y'', example_entry 1 0 CHR ''z'']"
  have "list_all (entry_ok example_head) ([] @ ?es)" "stale_tail example_head ''tail''"
    "cursor_after example_head wal_cursor_default []"
    by (simp_all add: entry_ok_def example_head_def example_entry_def stale_tail_def frame_len_def FRAME_HEADER_LEN_def
        cursor_after_def wal_cursor_default_def)
  note w = wal_capture_committed [OF example_head_ok this, of 4]
  have "fst (cut_txs (hd_page_size example_head) [] 4 ?es) =
      [\<lparr>d_txid = 5, d_page_size = 2, d_db_size = 2, d_pages = [\<lparr>fr_pgno = 1, fr_data = ''xx''\<rparr>, \<lparr>fr_pgno = 2, fr_data = ''yy''\<rparr>]\<rparr>]"
    by (simp add: example_head_def example_entry_def entry_frame_def)
  moreover have "committed ?es = 2" by (simp add: committed_def example_entry_def)
  ultimately show ?thesis using w by simp
qed

text \<open>C40: capturing as the log grows is the same as capturing it at the end: after a first capture, the log goes on,
  keeping the committed frames and rewriting the rest at will; what the second capture adds to the first is what one
  capture of the final log gives.\<close>

theorem wal_capture_incremental:
  assumes "head_ok magic fmt sq h check" "list_all (entry_ok h) a" "stale_tail h rest" "list_all (entry_ok h) b" "stale_tail h rest'"
    and kept: "take (committed a) b = take (committed a) a" and "cursor_after h c []" "txid < 2 ^ 64"
    and first: "wal_capture (header_bytes magic fmt sq h check @ entries_bytes h a @ rest) c txid = Some (c1, ds1, n1)"
    and second: "wal_capture (header_bytes magic fmt sq h check @ entries_bytes h b @ rest') (c1\<lparr>cur_frame := n1\<rparr>)
                   ((txid + length ds1) mod 2 ^ 64) = Some (c2, ds2, n2)"
  shows "\<exists>c3. wal_capture (header_bytes magic fmt sq h check @ entries_bytes h b @ rest') c txid = Some (c3, ds1 @ ds2, n2)"
proof -
  have c1: "c1 = cursor_at h 0" "ds1 = fst (cut_txs (hd_page_size h) [] txid a)" "n1 = committed a"
    using first capture_layout [of magic fmt sq h check "[]" a rest c txid] assms(1-3,7) cut_txs_length [of 0 "[]" 0 a]
    by (auto simp: committed_def cut_txs_rest [of "hd_page_size h"])
  let ?seen = "take (committed a) b" and ?new = "drop (committed a) b"
  have len: "length ?seen = committed a"
    unfolding kept by (simp add: committed_def)
  have "cursor_after h (c1\<lparr>cur_frame := n1\<rparr>) ?seen" by (simp add: c1 cursor_after_def cursor_at_def del: length_take) (simp only: len)
  then have n2: "ds2 = fst (cut_txs (hd_page_size h) [] ((txid + length ds1) mod 2 ^ 64) ?new)"
      "n2 = length ?seen + length ?new - length (snd (cut_txs (hd_page_size h) [] ((txid + length ds1) mod 2 ^ 64) ?new))"
    using second capture_layout [of magic fmt sq h check ?seen ?new rest'] assms(1,4,5) by auto
  show ?thesis
    using capture_layout [of magic fmt sq h check "[]" b rest' c txid] assms(1,4,5,7)
    by (simp add: cut_txs_resume [OF assms(8) kept] Let_def case_prod_beta n2 c1)
qed

lemmas example_wal_simps = entry_ok_def example_head_def example_entry_def stale_tail_def frame_len_def FRAME_HEADER_LEN_def
  cursor_after_def cursor_at_def wal_cursor_default_def entry_frame_def

theorem wal_capture_incremental_witness:
  "\<exists>c3. wal_capture (header_bytes 0x377f0682 ''abcd'' ''efgh'' example_head ''01234567'' @
       entries_bytes example_head [example_entry 1 1 CHR ''x'', example_entry 2 2 CHR ''y''] @ []) wal_cursor_default 0 =
     Some (c3, [\<lparr>d_txid = 1, d_page_size = 2, d_db_size = 1, d_pages = [\<lparr>fr_pgno = 1, fr_data = ''xx''\<rparr>]\<rparr>] @
               [\<lparr>d_txid = 2, d_page_size = 2, d_db_size = 2, d_pages = [\<lparr>fr_pgno = 2, fr_data = ''yy''\<rparr>]\<rparr>], 2)"
proof (rule wal_capture_incremental [where a = "[example_entry 1 1 CHR ''x'', example_entry 9 0 CHR ''w'']" and rest = "''t''"])
  let ?H = "header_bytes 0x377f0682 ''abcd'' ''efgh'' example_head ''01234567''"
  show "wal_capture (?H @ entries_bytes example_head [example_entry 1 1 CHR ''x'', example_entry 9 0 CHR ''w''] @ ''t'') wal_cursor_default 0 =
      Some (cursor_at example_head 0, [\<lparr>d_txid = 1, d_page_size = 2, d_db_size = 1, d_pages = [\<lparr>fr_pgno = 1, fr_data = ''xx''\<rparr>]\<rparr>], 1)"
    using capture_layout [OF example_head_ok, of "[]" "[example_entry 1 1 CHR ''x'', example_entry 9 0 CHR ''w'']" "''t''" wal_cursor_default 0]
    by (simp add: example_wal_simps)
  show "wal_capture (?H @ entries_bytes example_head [example_entry 1 1 CHR ''x'', example_entry 2 2 CHR ''y''] @ [])
      ((cursor_at example_head 0)\<lparr>cur_frame := 1\<rparr>)
      ((0 + length [\<lparr>d_txid = 1, d_page_size = 2, d_db_size = 1, d_pages = [\<lparr>fr_pgno = 1, fr_data = ''xx''\<rparr>]\<rparr>]) mod 2 ^ 64) =
      Some (cursor_at example_head 1, [\<lparr>d_txid = 2, d_page_size = 2, d_db_size = 2, d_pages = [\<lparr>fr_pgno = 2, fr_data = ''yy''\<rparr>]\<rparr>], 2)"
    using capture_layout [OF example_head_ok, of "[example_entry 1 1 CHR ''x'']" "[example_entry 2 2 CHR ''y'']" "[]" "(cursor_at example_head 0)\<lparr>cur_frame := 1\<rparr>" 1]
    by (simp add: example_wal_simps)
qed (simp_all add: example_head_ok, simp_all add: example_wal_simps committed_def)

end
