(* ===== verification/Bucket.thy ===== *)
theory Bucket
  imports Records
begin

text \<open>
  The object store both crates keep their segments in. \<open>object_store\<close> is third-party code: its
  operations are the parameter record \<open>bucket_ops\<close> over a bucket state, with \<open>Path::from\<close> as
  \<open>bk_path\<close>, and the locale \<open>bucket\<close> states what is relied on: an object that was put is read back,
  and a put or a delete touches its own path only.
\<close>

record 'b bucket_ops =
  bk_path :: "string \<Rightarrow> string"
  bk_put :: "'b \<Rightarrow> string \<Rightarrow> bytes \<Rightarrow> (string + unit) \<times> 'b"
  bk_get :: "'b \<Rightarrow> string \<Rightarrow> string + bytes"
  bk_delete :: "'b \<Rightarrow> string \<Rightarrow> (string + unit) \<times> 'b"

definition bucket_io :: "string \<Rightarrow> error" where
  "bucket_io e = InvalidInput (''bucket io: '' @ e)"

locale bucket =
  fixes K :: "'b bucket_ops"
    and objects :: "'b \<Rightarrow> string \<Rightarrow> bytes option"
  assumes get_present: "objects b p = Some d \<Longrightarrow> bk_get K b p = Inr d"
    and get_absent: "objects b p = None \<Longrightarrow> \<exists>e. bk_get K b p = Inl e"
    and put_ok: "bk_put K b p d = (Inr u, b') \<Longrightarrow> objects b' = (objects b)(p \<mapsto> d)"
    and put_other: "bk_put K b p d = (r, b') \<Longrightarrow> q \<noteq> p \<Longrightarrow> objects b' q = objects b q"
    and delete_other: "bk_delete K b p = (r, b') \<Longrightarrow> q \<noteq> p \<Longrightarrow> objects b' q = objects b q"
begin

lemma get_eq: "bk_get K b p = Inr d \<longleftrightarrow> objects b p = Some d"
  using get_present get_absent by (metis Inl_Inr_False Inr_inject option.exhaust)

lemma get_after_put: "bk_put K b p d = (Inr u, b') \<Longrightarrow> bk_get K b' p = Inr d"
  by (rule get_present) (simp add: put_ok)

lemma get_cong: "objects b' p = objects b p \<Longrightarrow> bk_get K b p = Inr d \<Longrightarrow> bk_get K b' p = Inr d"
  by (simp add: get_eq)

end

text \<open>An in-memory bucket.\<close>

type_synonym mem_bucket = "(string \<times> bytes) list"

definition mem_bucket_ops :: "mem_bucket bucket_ops" where
  "mem_bucket_ops =
     \<lparr>bk_path = (\<lambda>p. p), bk_put = (\<lambda>b p d. (Inr (), (p, d) # b)),
      bk_get = (\<lambda>b p. case map_of b p of None \<Rightarrow> Inl (''not found: '' @ p) | Some d \<Rightarrow> Inr d),
      bk_delete = (\<lambda>b p. (Inr (), filter (\<lambda>(q, _). q \<noteq> p) b))\<rparr>"

lemma map_of_filter_key: "map_of (filter (\<lambda>(q, _). q \<noteq> p) b) q = (if q = p then None else map_of b q)"
  by (induction b) auto

interpretation mem_bk: bucket mem_bucket_ops map_of
  by unfold_locales (auto simp: mem_bucket_ops_def map_of_filter_key)

end
