(* ===== verification/Sqlite_Db.thy ===== *)
theory Sqlite_Db
  imports Sqlite_Wal Bucket Jobs_Props
begin

text \<open>
  The handle of the SQLite crate (\<open>landslide-sqlite/src/store.rs\<close>): opening, syncing, checkpointing
  and restoring a database whose state is an event stream, over the event store of the core crate and
  a bucket. SQLite, the local file system and the clock are what a call takes from outside: the record
  \<open>sqlite_env\<close> holds what it sees of them.
\<close>

section \<open>The handle\<close>

record db_handle =
  dbh_name :: string
  dbh_token :: string
  dbh_image :: db_image
  dbh_tail :: "version option"
  dbh_cursor :: wal_cursor
  dbh_pending :: ltx_builder

text \<open>
  \<open>wal_open\<close>: the result of opening the \<open>-wal\<close> file (\<open>Inr None\<close> when it is absent) with its bytes;
  \<open>wal_read\<close>: an error of the seek or of the read after the header; \<open>truncate\<close>: the answer of the
  SQL statement that truncates the log.
\<close>

record 's sqlite_env =
  wal_open :: "string + bytes option"
  wal_read :: "string option"
  append_env :: "nat \<Rightarrow> 's env"
  barrier :: "db_status list"
  publish_env :: "'s env"
  purge_env :: "nat \<Rightarrow> 's env"
  object_ids :: "nat \<Rightarrow> string"
  wall_clock :: i64
  truncate_result :: "string + unit"

definition sql_error :: "string \<Rightarrow> error" where
  "sql_error e = InvalidInput (''sqlite: '' @ e)"

definition sqlite_record :: "string \<Rightarrow> version \<Rightarrow> i64 \<Rightarrow> compaction_record" where
  "sqlite_record name through now =
     \<lparr>comp_stream = name, comp_through_version = through, comp_events_compacted = 0, comp_job_id = None, comp_ts_ms = now\<rparr>"

definition expected_of :: "version option \<Rightarrow> expected_version" where
  "expected_of tail = (case tail of None \<Rightarrow> NoStream | Some v \<Rightarrow> Exact v)"

section \<open>Segments\<close>

definition put_ltx :: "sqlite_codec \<Rightarrow> 'b bucket_ops \<Rightarrow> 'b \<Rightarrow> string \<Rightarrow> string \<Rightarrow> ltx \<Rightarrow> string res \<times> 'b" where
  "put_ltx Q K b name ulid l =
     (let path = bk_path K (''ltx/'' @ name @ ''/'' @ ulid) in
      case pack Q (bin_ltx Q) l of
        Inl e \<Rightarrow> (Inl e, b)
      | Inr bytes \<Rightarrow> (case bk_put K b path bytes of
          (Inl e, b') \<Rightarrow> (Inl (bucket_io e), b')
        | (Inr _, b') \<Rightarrow> (Inr path, b')))"

definition fetch_ltx :: "sqlite_codec \<Rightarrow> 'b bucket_ops \<Rightarrow> 'b \<Rightarrow> string \<Rightarrow> ltx res" where
  "fetch_ltx Q K b path =
     bind_res (map_err bucket_io (bk_get K b (bk_path K path))) (\<lambda>bytes. unpack Q (unbin_ltx Q) bytes)"

section \<open>Sync\<close>

text \<open>The batch of a sync: the captured transactions, or their fold.\<close>

definition sync_batch :: "bool \<Rightarrow> delta list \<Rightarrow> delta list" where
  "sync_batch coalesce captured =
     (if coalesce \<and> 1 < length captured then (case fold_deltas captured of None \<Rightarrow> captured | Some d \<Rightarrow> [d]) else captured)"

text \<open>The writing half of \<open>sync_inner\<close>: one durable append, then the handle advances.\<close>

definition sync_append ::
  "('s, 't) slatedb_ops \<Rightarrow> codec \<Rightarrow> sqlite_codec \<Rightarrow> 's sqlite_env \<Rightarrow> 's \<Rightarrow> db_handle \<Rightarrow> wal_cursor \<Rightarrow> delta list \<Rightarrow> u64 \<Rightarrow> nat \<Rightarrow>
   nat res \<times> db_handle \<times> 's" where
  "sync_append B C Q E s db cur deltas next_frame n =
     (case encode_deltas Q deltas of
        Inl e \<Rightarrow> (Inl e, db\<lparr>dbh_cursor := cur\<rparr>, s)
      | Inr events \<Rightarrow>
          (case append_with_token_lazy B C (append_env E) s (dbh_name db) (dbh_token db)
                  (expected_of (dbh_tail db)) events False of
             (Inl e, s') \<Rightarrow> (Inl e, db\<lparr>dbh_cursor := cur\<rparr>, s')
           | (Inr ticket, s') \<Rightarrow> (case await_durable (barrier E) ticket of
               Inl e \<Rightarrow> (Inl e, db\<lparr>dbh_cursor := cur\<rparr>, s')
             | Inr _ \<Rightarrow>
                 (Inr n, db\<lparr>dbh_tail := Some (last_version (tk_info ticket)),
                            dbh_image := foldl image_apply (dbh_image db) deltas,
                            dbh_pending := foldl builder_apply (dbh_pending db) deltas,
                            dbh_cursor := cur\<lparr>cur_frame := next_frame\<rparr>\<rparr>, s'))))"

definition sync_inner ::
  "('s, 't) slatedb_ops \<Rightarrow> codec \<Rightarrow> sqlite_codec \<Rightarrow> 's sqlite_env \<Rightarrow> 's \<Rightarrow> db_handle \<Rightarrow> bool \<Rightarrow>
   nat res \<times> db_handle \<times> 's" where
  "sync_inner B C Q E s db coalesce =
     (case wal_open E of
        Inl e \<Rightarrow> (Inl (bucket_io e), db, s)
      | Inr None \<Rightarrow> (Inr 0, db, s)
      | Inr (Some file) \<Rightarrow> (case wal_capture file (dbh_cursor db) (im_txid (dbh_image db)) of
          None \<Rightarrow> (Inr 0, db, s)
        | Some (cur, captured, next_frame) \<Rightarrow> (case wal_read E of
            Some e \<Rightarrow> (Inl (bucket_io e), db\<lparr>dbh_cursor := cur\<rparr>, s)
          | None \<Rightarrow>
              if captured = [] then (Inr 0, db\<lparr>dbh_cursor := cur\<lparr>cur_frame := next_frame\<rparr>\<rparr>, s)
              else sync_append B C Q E s db cur (sync_batch coalesce captured) next_frame (length captured))))"

definition sync ::
  "('s, 't) slatedb_ops \<Rightarrow> codec \<Rightarrow> sqlite_codec \<Rightarrow> 's sqlite_env \<Rightarrow> 's \<Rightarrow> db_handle \<Rightarrow> nat res \<times> db_handle \<times> 's" where
  "sync B C Q E s db = sync_inner B C Q E s db False"

definition sync_coalesced ::
  "('s, 't) slatedb_ops \<Rightarrow> codec \<Rightarrow> sqlite_codec \<Rightarrow> 's sqlite_env \<Rightarrow> 's \<Rightarrow> db_handle \<Rightarrow> nat res \<times> db_handle \<times> 's" where
  "sync_coalesced B C Q E s db = sync_inner B C Q E s db True"

section \<open>Restore\<close>

text \<open>The closures that \<open>restore_impl\<close> and \<open>restore_at\<close> fold over the events; the last error wins.\<close>

definition restore_step ::
  "sqlite_codec \<Rightarrow> db_image \<times> ltx_builder \<times> error option \<Rightarrow> event \<Rightarrow> db_image \<times> ltx_builder \<times> error option" where
  "restore_step Q st e =
     (case st of (i, p, bad) \<Rightarrow> (case delta_events Q e of
        Inl err \<Rightarrow> (i, p, Some err)
      | Inr ds \<Rightarrow> (foldl image_apply i ds, foldl builder_apply p ds, bad)))"

definition load_ltxs :: "sqlite_codec \<Rightarrow> 'b bucket_ops \<Rightarrow> 'b \<Rightarrow> segment_ref list \<Rightarrow> db_image res" where
  "load_ltxs Q K b segs =
     fold_res (\<lambda>i sr. bind_res (fetch_ltx Q K b (sr_path sr)) (\<lambda>l. Inr (merge_ltx i l))) db_image_default segs"

definition restore_base ::
  "sqlite_codec \<Rightarrow> 'b bucket_ops \<Rightarrow> 'b \<Rightarrow> snapshot_record option \<Rightarrow> (db_image \<times> version \<times> version option) res" where
  "restore_base Q K b snap =
     (case snap of
        None \<Rightarrow> Inr (db_image_default, 0, None)
      | Some r \<Rightarrow>
          bind_res (map_err Encoding (unjson_manifest Q (snap_state r))) (\<lambda>m.
          bind_res (load_ltxs Q K b (mf_segments m)) (\<lambda>i.
            Inr (i, add64 (snap_through_version r) 1, Some (snap_through_version r)))))"

definition restore_impl ::
  "('s, 't) slatedb_ops \<Rightarrow> codec \<Rightarrow> sqlite_codec \<Rightarrow> 'b bucket_ops \<Rightarrow> 's \<Rightarrow> 'b \<Rightarrow> string \<Rightarrow>
   (db_image \<times> ltx_builder \<times> version option) res option" where
  "restore_impl B C Q K s b name =
     (case bind_res (latest_snapshot B C s name) (restore_base Q K b) of
        Inl e \<Rightarrow> Some (Inl e)
      | Inr (i, start, through) \<Rightarrow>
          map_option (\<lambda>r. bind_res r (\<lambda>((i', p, bad), tail).
              case bad of
                Some err \<Rightarrow> Inl err
              | None \<Rightarrow> Inr (i', p, case tail of Some v \<Rightarrow> Some v | None \<Rightarrow> through)))
            (store_fold B C s name (Included start, Unbounded) (i, ltx_builder_default, None) (restore_step Q)))"

definition restore ::
  "('s, 't) slatedb_ops \<Rightarrow> codec \<Rightarrow> sqlite_codec \<Rightarrow> 'b bucket_ops \<Rightarrow> 's \<Rightarrow> 'b \<Rightarrow> string \<Rightarrow> (db_image \<times> version option) res option" where
  "restore B C Q K s b name =
     map_option (\<lambda>r. bind_res r (\<lambda>(i, _, tail). Inr (i, tail))) (restore_impl B C Q K s b name)"

definition restore_at_step ::
  "sqlite_codec \<Rightarrow> u64 \<Rightarrow> u64 \<Rightarrow> db_image \<times> error option \<Rightarrow> event \<Rightarrow> db_image \<times> error option" where
  "restore_at_step Q lo target st e =
     (case st of (i, bad) \<Rightarrow> (case delta_events Q e of
        Inl err \<Rightarrow> (i, Some err)
      | Inr ds \<Rightarrow> (foldl image_apply i (filter (\<lambda>d. lo < d_txid d \<and> d_txid d \<le> target) ds), bad)))"

text \<open>The segments before the first that starts or ends past the target.\<close>

definition usable_segments :: "u64 \<Rightarrow> segment_ref list \<Rightarrow> segment_ref list" where
  "usable_segments target segs = takeWhile (\<lambda>sr. \<not> (target < sr_txid_start sr \<or> target < sr_txid_end sr)) segs"

definition restore_at ::
  "('s, 't) slatedb_ops \<Rightarrow> codec \<Rightarrow> sqlite_codec \<Rightarrow> 'b bucket_ops \<Rightarrow> 's \<Rightarrow> 'b \<Rightarrow> string \<Rightarrow> u64 \<Rightarrow> db_image res option" where
  "restore_at B C Q K s b name target =
     (case bind_res (latest_snapshot B C s name) (\<lambda>snap.
           case snap of
             None \<Rightarrow> Inr db_image_default
           | Some r \<Rightarrow> bind_res (map_err Encoding (unjson_manifest Q (snap_state r))) (\<lambda>m.
               load_ltxs Q K b (usable_segments target (mf_segments m)))) of
        Inl e \<Rightarrow> Some (Inl e)
      | Inr i \<Rightarrow>
          map_option (\<lambda>r. bind_res r (\<lambda>((i', bad), _).
              case bad of
                Some err \<Rightarrow> Inl err
              | None \<Rightarrow>
                  if im_txid i' < target then
                    Inl (InvalidInput (''txid '' @ show_nat target @
                      '' is not reconstructable (beyond tail or purged by retention); reached txid '' @ show_nat (im_txid i')))
                  else Inr i'))
            (store_fold B C s name (Included 0, Unbounded) (i, None) (restore_at_step Q (im_txid i) target)))"

section \<open>Checkpoint\<close>

text \<open>The pages of a coalescing run: every older segment in order, then the new one, cut at the size.\<close>

definition coalesce_pages ::
  "sqlite_codec \<Rightarrow> 'b bucket_ops \<Rightarrow> 'b \<Rightarrow> segment_ref list \<Rightarrow> segment_ref \<Rightarrow> ltx \<Rightarrow> (u32, bytes) btree res" where
  "coalesce_pages Q K b segs new_ref l =
     bind_res (fold_res (\<lambda>pages sr.
         if sr_path sr = sr_path new_ref then Inr pages
         else bind_res (fetch_ltx Q K b (sr_path sr)) (\<lambda>x. Inr (insert_frames pages (ltx_pages x)))) [] segs) (\<lambda>pages.
       Inr (bt_retain (\<lambda>pgno. pgno \<le> sr_db_size new_ref) (insert_frames pages (ltx_pages l))))"

text \<open>The manifest to publish and what is retired: the segments as they are, or one merged segment.\<close>

definition coalesce_manifest ::
  "sqlite_codec \<Rightarrow> 'b bucket_ops \<Rightarrow> 'b \<Rightarrow> string \<Rightarrow> string \<Rightarrow> checkpoint_opts \<Rightarrow> segment_ref list \<Rightarrow> segment_ref \<Rightarrow> ltx \<Rightarrow>
   (segment_ref list \<times> string list) res \<times> 'b" where
  "coalesce_manifest Q K b name ulid opts segs new_ref l =
     (if coalesce_at opts < length segs then
        (case coalesce_pages Q K b segs new_ref l of
           Inl e \<Rightarrow> (Inl e, b)
         | Inr pages \<Rightarrow>
             let merged = \<lparr>ltx_txid_start = sr_txid_start (hd segs), ltx_txid_end = sr_txid_end new_ref,
                           ltx_page_size = sr_page_size new_ref, ltx_db_size = sr_db_size new_ref,
                           ltx_pages = frames_of pages\<rparr>
             in (case put_ltx Q K b name ulid merged of
                   (Inl e, b') \<Rightarrow> (Inl e, b')
                 | (Inr path, b') \<Rightarrow> (Inr ([segment_ref_of merged path], map sr_path segs), b')))
      else (Inr (segs, []), b))"

text \<open>The last part: the old retire list goes, the manifest is published, then retention and the log.\<close>

definition publish_manifest ::
  "('s, 't) slatedb_ops \<Rightarrow> codec \<Rightarrow> sqlite_codec \<Rightarrow> 'b bucket_ops \<Rightarrow> 's sqlite_env \<Rightarrow> checkpoint_opts \<Rightarrow> 's \<Rightarrow> 'b \<Rightarrow> string \<Rightarrow> version \<Rightarrow>
   string list \<Rightarrow> manifest \<Rightarrow> (compaction_record option res \<times> 's \<times> 'b) option" where
  "publish_manifest B C Q K E opts s b name through old_retire m =
     (let b' = foldl (\<lambda>b p. snd (bk_delete K b (bk_path K p))) b old_retire;
          rec = sqlite_record name through (wall_clock E) in
      case json_manifest Q m of
        Inl e \<Rightarrow> Some (Inl (Encoding e), s, b')
      | Inr state \<Rightarrow> (case publish_snapshot B C (publish_env E) s name rec state of
          (Inl e, s2) \<Rightarrow> Some (Inl e, s2, b')
        | (Inr _, s2) \<Rightarrow>
            map_option (\<lambda>(purged, s3).
                (bind_res purged (\<lambda>_. bind_res (map_err sql_error (truncate_result E)) (\<lambda>_. Inr (Some rec))), s3, b'))
              (if opt_purge opts then purge_below B (purge_env E) s2 name (add64 through 1) else Some (Inr 0, s2))))"

definition checkpoint_with ::
  "('s, 't) slatedb_ops \<Rightarrow> codec \<Rightarrow> sqlite_codec \<Rightarrow> 'b bucket_ops \<Rightarrow> 's sqlite_env \<Rightarrow> checkpoint_opts \<Rightarrow> 's \<Rightarrow> 'b \<Rightarrow> db_handle \<Rightarrow>
   (compaction_record option res \<times> db_handle \<times> 's \<times> 'b) option" where
  "checkpoint_with B C Q K E opts s b db =
     (case sync B C Q E s db of
        (Inl e, db1, s1) \<Rightarrow> Some (Inl e, db1, s1, b)
      | (Inr _, db1, s1) \<Rightarrow> (case dbh_tail db1 of
          None \<Rightarrow> Some (Inr None, db1, s1, b)
        | Some through \<Rightarrow>
            (case bind_res (latest_snapshot B C s1 (dbh_name db1)) (\<lambda>snap. case snap of
                    None \<Rightarrow> Inr manifest_default
                  | Some r \<Rightarrow> map_err Encoding (unjson_manifest Q (snap_state r))) of
               Inl e \<Rightarrow> Some (Inl e, db1, s1, b)
             | Inr manifest \<Rightarrow> (case into_ltx (dbh_pending db1) of
                 None \<Rightarrow> Some (Inr None, db1, s1, b)
               | Some l \<Rightarrow>
                   let db2 = db1\<lparr>dbh_pending := ltx_builder_default\<rparr> in
                   (case put_ltx Q K b (dbh_name db1) (object_ids E 0) l of
                      (Inl e, b1) \<Rightarrow> Some (Inl e, db2, s1, b1)
                    | (Inr seg_path, b1) \<Rightarrow>
                        let new_ref = segment_ref_of l seg_path in
                        (case coalesce_manifest Q K b1 (dbh_name db1) (object_ids E 1) opts
                                (mf_segments manifest @ [new_ref]) new_ref l of
                           (Inl e, b2) \<Rightarrow> Some (Inl e, db2, s1, b2)
                         | (Inr (segs, retire), b2) \<Rightarrow>
                             map_option (\<lambda>(r, s3, b3). (r, db2, s3, b3))
                               (publish_manifest B C Q K E opts s1 b2 (dbh_name db1) through (mf_retire manifest)
                                  \<lparr>mf_segments = segs, mf_retire = retire\<rparr>)))))))"

definition checkpoint ::
  "('s, 't) slatedb_ops \<Rightarrow> codec \<Rightarrow> sqlite_codec \<Rightarrow> 'b bucket_ops \<Rightarrow> 's sqlite_env \<Rightarrow> 's \<Rightarrow> 'b \<Rightarrow> db_handle \<Rightarrow>
   (compaction_record option res \<times> db_handle \<times> 's \<times> 'b) option" where
  "checkpoint B C Q K E s b db = checkpoint_with B C Q K E checkpoint_opts_default s b db"

section \<open>Open\<close>

text \<open>
  Fencing and reconstruction run concurrently: \<open>fence_first\<close> says which of the two sees the state of
  the other. \<open>local_result\<close> is the answer of the local file system and of SQLite.
\<close>

definition open_db ::
  "('s, 't) slatedb_ops \<Rightarrow> codec \<Rightarrow> sqlite_codec \<Rightarrow> 'b bucket_ops \<Rightarrow> 's env \<Rightarrow> bool \<Rightarrow> error option \<Rightarrow> string \<Rightarrow> 's \<Rightarrow> 'b \<Rightarrow> string \<Rightarrow>
   (db_handle res \<times> 's) option" where
  "open_db B C Q K E fence_first local_result token s b name =
     (case fence B C E s name (Some token) of
        (Inl e, s') \<Rightarrow> Some (Inl e, s')
      | (Inr _, s') \<Rightarrow>
          map_option (\<lambda>r. (bind_res r (\<lambda>(i, p, tail).
              bind_res (to_bytes i) (\<lambda>_.
                case local_result of
                  Some e \<Rightarrow> Inl e
                | None \<Rightarrow> Inr \<lparr>dbh_name = name, dbh_token = token, dbh_image = i, dbh_tail = tail,
                               dbh_cursor = wal_cursor_default, dbh_pending = p\<rparr>)), s'))
            (restore_impl B C Q K (if fence_first then s' else s) b name))"

definition db_tail_version :: "('s, 't) slatedb_ops \<Rightarrow> codec \<Rightarrow> 's \<Rightarrow> db_handle \<Rightarrow> version option res" where
  "db_tail_version B C s db = stream_version B C s (dbh_name db)"

end
