(* ===== verification/Sqlite_Serde.thy ===== *)
theory Sqlite_Serde
  imports Sqlite_Image Mem_Db
begin

text \<open>
  The contract of the serialisers the SQLite crate uses (\<open>bincode\<close>, \<open>zstd\<close>, \<open>serde_json\<close>), its
  consequences for the packed events, an instance over text, and the equivalences of the page folds.
\<close>

locale sqlite_serde =
  fixes Q :: sqlite_codec
  assumes deltas_codec: "\<exists>b. bin_deltas Q ds = Inr b \<and> unbin_deltas Q b = Inr ds"
    and size_total: "\<exists>n. bin_delta_size Q d = Inr n"
    and ltx_codec: "\<exists>b. bin_ltx Q l = Inr b \<and> unbin_ltx Q b = Inr l"
    and zstd_codec: "\<exists>z. zstd_encode Q b = Inr z \<and> zstd_decode Q z = Inr b"
    and manifest_codec: "\<exists>b. json_manifest Q m = Inr b \<and> unjson_manifest Q b = Inr m"
begin

definition packed :: "delta list \<Rightarrow> bytes" where
  "packed ds = projr (pack Q (bin_deltas Q) ds)"

definition delta_size :: "delta \<Rightarrow> nat" where
  "delta_size d = projr (bin_delta_size Q d)"

lemma pack_deltas: "pack Q (bin_deltas Q) ds = Inr (packed ds)" "unpack Q (unbin_deltas Q) (packed ds) = Inr ds"
proof -
  obtain b z where "bin_deltas Q ds = Inr b" "unbin_deltas Q b = Inr ds" "zstd_encode Q b = Inr z" "zstd_decode Q z = Inr b"
    using deltas_codec zstd_codec by metis
  then show "pack Q (bin_deltas Q) ds = Inr (packed ds)" "unpack Q (unbin_deltas Q) (packed ds) = Inr ds"
    by (simp_all add: packed_def pack_def unpack_def)
qed

lemma pack_ltx: obtains b where "pack Q (bin_ltx Q) l = Inr b" "unpack Q (unbin_ltx Q) b = Inr l"
proof -
  obtain b z where "bin_ltx Q l = Inr b" "unbin_ltx Q b = Inr l" "zstd_encode Q b = Inr z" "zstd_decode Q z = Inr b"
    using ltx_codec zstd_codec by metis
  with that show ?thesis by (simp add: pack_def unpack_def)
qed

lemma size_eq: "bin_delta_size Q d = Inr (delta_size d)"
  using size_total [of d] by (auto simp: delta_size_def)

lemma encode_loop_chunks:
  assumes "sz = sum_list (map delta_size chunk)" "sz \<le> TXB_CHUNK \<or> length chunk \<le> 1"
  shows "\<exists>chunks. encode_loop Q events chunk sz ds = Inr (events @ map (\<lambda>c. new_event_new TXB (packed c)) chunks) \<and>
     concat chunks = chunk @ ds \<and>
     (\<forall>c \<in> set chunks. c \<noteq> [] \<and> (length c = 1 \<or> sum_list (map delta_size c) \<le> TXB_CHUNK))"
  using assms
proof (induction ds arbitrary: events chunk sz)
  case Nil
  show ?case
  proof (cases "chunk = []")
    case False
    with Nil show ?thesis by (intro exI [of _ "[chunk]"]) (cases chunk, auto simp: pack_deltas)
  qed simp
next
  case (Cons d ds)
  show ?case
  proof (cases "TXB_CHUNK < sz + delta_size d \<and> chunk \<noteq> []")
    case True
    from Cons.IH [of "delta_size d" "[d]" "events @ [new_event_new TXB (packed chunk)]"]
    obtain chunks where "encode_loop Q (events @ [new_event_new TXB (packed chunk)]) [d] (delta_size d) ds =
        Inr (events @ map (\<lambda>c. new_event_new TXB (packed c)) (chunk # chunks))" "concat chunks = d # ds"
      "\<forall>c \<in> set chunks. c \<noteq> [] \<and> (length c = 1 \<or> sum_list (map delta_size c) \<le> TXB_CHUNK)" by auto
    with True Cons.prems show ?thesis
      by (intro exI [of _ "chunk # chunks"]) (cases chunk, auto simp: size_eq pack_deltas)
  next
    case False
    have "sz + delta_size d \<le> TXB_CHUNK \<or> length (chunk @ [d]) \<le> 1" using False by auto
    from Cons.IH [OF _ this] Cons.prems False show ?thesis by (auto simp: size_eq)
  qed
qed

lemma delta_events_packed: "ev_type e = TXB \<Longrightarrow> ev_data e = packed c \<Longrightarrow> delta_events Q e = Inr c"
  by (simp add: delta_events_def pack_deltas)

text \<open>The deltas of a batch, as the events that carry them are stored.\<close>

lemma encode_decode:
  obtains evs chunks where "encode_deltas Q ds = Inr evs" "evs = map (\<lambda>c. new_event_new TXB (packed c)) chunks"
    "concat chunks = ds" "\<forall>c \<in> set chunks. c \<noteq> [] \<and> (length c = 1 \<or> sum_list (map delta_size c) \<le> TXB_CHUNK)"
    "\<forall>es. map (\<lambda>e. (ev_type e, ev_data e)) es = map (\<lambda>e. (ne_type e, ne_data e)) evs \<longrightarrow>
       map (delta_events Q) es = map Inr chunks"
proof -
  obtain chunks where c: "encode_deltas Q ds = Inr (map (\<lambda>c. new_event_new TXB (packed c)) chunks)" "concat chunks = ds"
    "\<forall>c \<in> set chunks. c \<noteq> [] \<and> (length c = 1 \<or> sum_list (map delta_size c) \<le> TXB_CHUNK)"
    using encode_loop_chunks [of 0 "[]" "[]" ds] by (auto simp: encode_deltas_def)
  have "map (delta_events Q) es = map Inr chunks"
    if "map (\<lambda>e. (ev_type e, ev_data e)) es = map (\<lambda>e. (ne_type e, ne_data e)) (map (\<lambda>c. new_event_new TXB (packed c)) chunks)" for es
    using that
    by (induction es arbitrary: chunks) (auto simp: delta_events_packed new_event_new_def Cons_eq_map_conv)
  with c that show ?thesis by blast
qed

end

section \<open>An instance\<close>

definition read_frames :: "string list \<Rightarrow> frame list" where
  "read_frames xs = map (\<lambda>(p, d). \<lparr>fr_pgno = dec_value p, fr_data = d\<rparr>) (pairs_of xs)"

definition show_frames :: "frame list \<Rightarrow> string list" where
  "show_frames fs = flat_pairs (map (\<lambda>f. (show_nat (fr_pgno f), fr_data f)) fs)"

lemma frame_eta [simp]: "\<lparr>fr_pgno = fr_pgno f, fr_data = fr_data f\<rparr> = f"
  by (cases f) simp

lemma read_show_frames [simp]: "read_frames (show_frames fs) = fs"
  by (simp add: read_frames_def show_frames_def pairs_of_flat comp_def)

definition show_delta :: "delta \<Rightarrow> string" where
  "show_delta d = net_enc (show_nat (d_txid d) # show_nat (d_page_size d) # show_nat (d_db_size d) # show_frames (d_pages d))"

definition read_delta :: "string list \<Rightarrow> delta option" where
  "read_delta xs = (case xs of t # p # n # fs \<Rightarrow>
     Some \<lparr>d_txid = dec_value t, d_page_size = dec_value p, d_db_size = dec_value n, d_pages = read_frames fs\<rparr> | _ \<Rightarrow> None)"

definition read_list :: "(string list \<Rightarrow> 'a option) \<Rightarrow> string list \<Rightarrow> 'a list option" where
  "read_list f xs = (case map_res (net_parse f) xs of Inl _ \<Rightarrow> None | Inr ys \<Rightarrow> Some ys)"

definition show_ltx :: "ltx \<Rightarrow> string" where
  "show_ltx l = net_enc (show_nat (ltx_txid_start l) # show_nat (ltx_txid_end l) # show_nat (ltx_page_size l) #
     show_nat (ltx_db_size l) # show_frames (ltx_pages l))"

definition read_ltx :: "string list \<Rightarrow> ltx option" where
  "read_ltx xs = (case xs of a # t # p # n # fs \<Rightarrow>
     Some \<lparr>ltx_txid_start = dec_value a, ltx_txid_end = dec_value t, ltx_page_size = dec_value p,
       ltx_db_size = dec_value n, ltx_pages = read_frames fs\<rparr> | _ \<Rightarrow> None)"

definition show_ref :: "segment_ref \<Rightarrow> string" where
  "show_ref r = net_enc [sr_path r, show_nat (sr_txid_start r), show_nat (sr_txid_end r), show_nat (sr_page_size r), show_nat (sr_db_size r)]"

definition read_ref :: "string list \<Rightarrow> segment_ref option" where
  "read_ref xs = (case xs of [q, a, t, p, n] \<Rightarrow>
     Some \<lparr>sr_path = q, sr_txid_start = dec_value a, sr_txid_end = dec_value t, sr_page_size = dec_value p,
       sr_db_size = dec_value n\<rparr> | _ \<Rightarrow> None)"

definition read_manifest :: "string list \<Rightarrow> manifest option" where
  "read_manifest xs = (case xs of [a, r] \<Rightarrow> (case (net_dec (length a) a, net_dec (length r) r) of
       (Some ss, Some rs) \<Rightarrow> map_option (\<lambda>refs. \<lparr>mf_segments = refs, mf_retire = rs\<rparr>) (read_list read_ref ss)
     | _ \<Rightarrow> None) | _ \<Rightarrow> None)"

definition mem_sqlite :: sqlite_codec where
  "mem_sqlite =
     \<lparr>bin_deltas = (\<lambda>ds. Inr (net_enc (map show_delta ds))), unbin_deltas = net_parse (read_list read_delta),
      bin_delta_size = (\<lambda>d. Inr (length (show_delta d))),
      bin_ltx = (\<lambda>l. Inr (show_ltx l)), unbin_ltx = net_parse read_ltx,
      zstd_encode = Inr, zstd_decode = Inr, unjson_delta = (\<lambda>_. Inl ''not JSON''),
      json_manifest = (\<lambda>m. Inr (net_enc [net_enc (map show_ref (mf_segments m)), net_enc (mf_retire m)])),
      unjson_manifest = net_parse read_manifest\<rparr>"

lemma read_list_show:
  assumes "\<And>x. net_parse f (g x) = Inr x"
  shows "read_list f (map g xs) = Some xs"
proof -
  have "map_res (net_parse f) (map g xs) = Inr xs" by (induction xs) (simp_all add: assms)
  then show ?thesis by (simp add: read_list_def)
qed

lemma read_delta_show: "net_parse read_delta (show_delta d) = Inr d"
  unfolding show_delta_def by (rule net_parse_enc) (simp add: read_delta_def)

lemma read_ref_show: "net_parse read_ref (show_ref r) = Inr r"
  unfolding show_ref_def by (rule net_parse_enc) (simp add: read_ref_def)

lemma read_ltx_show: "net_parse read_ltx (show_ltx l) = Inr l"
  unfolding show_ltx_def by (rule net_parse_enc) (simp add: read_ltx_def)

interpretation mem_sq: sqlite_serde mem_sqlite
proof unfold_locales
  fix m
  have "net_parse read_manifest (net_enc [net_enc (map show_ref (mf_segments m)), net_enc (mf_retire m)]) = Inr m"
    by (rule net_parse_enc)
      (simp add: read_manifest_def net_dec_enc [OF length_net_enc] read_list_show [of read_ref show_ref, OF read_ref_show])
  then show "\<exists>b. json_manifest mem_sqlite m = Inr b \<and> unjson_manifest mem_sqlite b = Inr m" by (simp add: mem_sqlite_def)
next
  fix ds
  have "net_parse (read_list read_delta) (net_enc (map show_delta ds)) = Inr ds"
    by (rule net_parse_enc) (rule read_list_show [of read_delta show_delta, OF read_delta_show])
  then show "\<exists>b. bin_deltas mem_sqlite ds = Inr b \<and> unbin_deltas mem_sqlite b = Inr ds" by (simp add: mem_sqlite_def)
qed (simp_all add: mem_sqlite_def read_ltx_show)

section \<open>Folding a batch\<close>

lemma foldl_image_pages: "im_pages (foldl image_apply j ds) = insert_frames (im_pages j) (concat (map d_pages ds))"
  by (induction ds arbitrary: j) (simp_all add: image_apply_def insert_frames_def)

lemma foldl_insert_frames:
  fixes ds :: "delta list"
  shows "foldl (\<lambda>m d. insert_frames m (d_pages d)) m ds = insert_frames m (concat (map d_pages ds))"
  by (induction ds arbitrary: m) (simp_all add: insert_frames_def)

lemma foldl_image_fields:
  assumes "ds \<noteq> []"
  shows "im_page_size (foldl image_apply j ds) = d_page_size (last ds)" "im_db_size (foldl image_apply j ds) = d_db_size (last ds)"
    "im_txid (foldl image_apply j ds) = d_txid (last ds)"
  using assms by (cases ds rule: rev_cases; simp add: image_apply_def)+

lemma fold_deltas_apply:
  assumes "ds \<noteq> []" "bt_ok (im_pages j)"
  shows "image_apply j (the (fold_deltas ds)) = foldl image_apply j ds"
  using assms foldl_image_fields [OF assms(1), of j] foldl_image_pages [of j ds] insert_built [OF assms(2), of "[]" "concat (map d_pages ds)"]
  by (intro db_image.equality) (simp_all add: fold_deltas_def image_apply_def foldl_insert_frames)

section \<open>Properties\<close>

text \<open>Packing deltas loses nothing and keeps the chunk limit: a batch of any length becomes events that decode
  back, in order, to the same deltas, no event is empty, and an event holds more than one delta only while their
  serialised size is within the chunk.\<close>

theorem encode_deltas_roundtrip:
  assumes "sqlite_serde Q"
  shows "\<exists>evs chunks. encode_deltas Q ds = Inr evs \<and> concat chunks = ds \<and> length chunks = length evs \<and>
     (\<forall>es. map (\<lambda>e. (ev_type e, ev_data e)) es = map (\<lambda>e. (ne_type e, ne_data e)) evs \<longrightarrow>
        map (delta_events Q) es = map Inr chunks) \<and>
     (\<forall>c \<in> set chunks. c \<noteq> [] \<and> (length c = 1 \<or> sum_list (map (\<lambda>d. projr (bin_delta_size Q d)) c) \<le> TXB_CHUNK))"
proof -
  obtain evs chunks where e: "encode_deltas Q ds = Inr evs" "evs = map (\<lambda>c. new_event_new TXB (sqlite_serde.packed Q c)) chunks"
    "concat chunks = ds" "\<forall>c \<in> set chunks. c \<noteq> [] \<and> (length c = 1 \<or> sum_list (map (sqlite_serde.delta_size Q) c) \<le> TXB_CHUNK)"
    "\<forall>es. map (\<lambda>e. (ev_type e, ev_data e)) es = map (\<lambda>e. (ne_type e, ne_data e)) evs \<longrightarrow>
       map (delta_events Q) es = map Inr chunks"
    by (rule sqlite_serde.encode_decode [OF assms, of ds])
  then show ?thesis
    by (intro exI [of _ evs] exI [of _ chunks]) (simp add: sqlite_serde.delta_size_def [OF assms, abs_def])
qed

definition example_delta :: "u64 \<Rightarrow> delta" where
  "example_delta n = \<lparr>d_txid = n, d_page_size = 2, d_db_size = 1, d_pages = [\<lparr>fr_pgno = 1, fr_data = ''xy''\<rparr>]\<rparr>"

theorem encode_deltas_roundtrip_witness:
  "\<exists>evs chunks. encode_deltas mem_sqlite [example_delta 1, example_delta 2] = Inr evs \<and>
     concat chunks = [example_delta 1, example_delta 2] \<and> length chunks = length evs"
  using encode_deltas_roundtrip [OF mem_sq.sqlite_serde_axioms, of "[example_delta 1, example_delta 2]"] by blast

text \<open>C26: sealing a run of transactions loses nothing: merging the segments sealed from consecutive batches gives the
  image that applying every transaction gives, and a coalesced sync's single delta gives the image of its batch.\<close>

theorem sealed_segments_eq_deltas:
  assumes "bt_ok (im_pages i)" "\<forall>ds \<in> set dss. ds \<noteq> []"
  shows "foldl merge_ltx i (map (\<lambda>ds. the (into_ltx (foldl builder_apply ltx_builder_default ds))) dss) =
       foldl image_apply i (concat dss) \<and>
     foldl image_apply i (map (\<lambda>ds. the (fold_deltas ds)) dss) = foldl image_apply i (concat dss)"
proof -
  have sealed: "\<exists>l. into_ltx (foldl builder_apply b ds) = Some l" if "ds \<noteq> [] \<or> lb_txid_start b \<noteq> None" for b ds
    using that
  proof (induction ds arbitrary: b)
    case (Cons d ds)
    show ?case using Cons.IH [of "builder_apply b d"] by (auto simp: builder_apply_def split: option.splits)
  qed (auto simp: into_ltx_def)
  have chain: "sqlite_ckpt.sealed_chain i dss (map (\<lambda>ds. the (into_ltx (foldl builder_apply ltx_builder_default ds))) dss)"
    using assms(2)
  proof (induction dss arbitrary: i)
    case (Cons ds dss)
    then have "into_ltx (foldl builder_apply ltx_builder_default ds) =
        Some (the (into_ltx (foldl builder_apply ltx_builder_default ds)))" using sealed [of ds ltx_builder_default] by auto
    with Cons show ?case by simp
  qed simp
  have "foldl image_apply i (map (\<lambda>ds. the (fold_deltas ds)) dss) = foldl image_apply i (concat dss)"
    using assms by (induction dss arbitrary: i) (simp_all add: fold_deltas_apply foldl_image_pages)
  with sqlite_ckpt.merge_chain [OF assms(1) _ chain] show ?thesis by (simp add: list_all_iff)
qed

theorem sealed_segments_eq_deltas_witness:
  "foldl merge_ltx db_image_default (map (\<lambda>ds. the (into_ltx (foldl builder_apply ltx_builder_default ds)))
       [[example_delta 1, example_delta 2], [example_delta 3]]) =
     foldl image_apply db_image_default [example_delta 1, example_delta 2, example_delta 3]"
  using sealed_segments_eq_deltas [of db_image_default "[[example_delta 1, example_delta 2], [example_delta 3]]"]
  by (simp add: db_image_default_def)

end
