(* ===== verification/Sqlite_Props.thy ===== *)
theory Sqlite_Props
  imports Sqlite_Db Sqlite_Serde Stream_Log
begin

text \<open>
  The SQLite handle against its stream: what the handle holds is always what a restore from the
  stream and the bucket gives, through syncs and checkpoints; what a failed sync leaves; and what a
  failed checkpoint loses.
\<close>

text \<open>The transactions a sync reads from the log.\<close>

definition captured_by :: "'s sqlite_env \<Rightarrow> db_handle \<Rightarrow> delta list" where
  "captured_by E db =
     (case wal_open E of
        Inr (Some f) \<Rightarrow> (case wal_capture f (dbh_cursor db) (im_txid (dbh_image db)) of None \<Rightarrow> [] | Some (_, captured, _) \<Rightarrow> captured)
      | _ \<Rightarrow> [])"

text \<open>The stream of a handle: a restore gives the image \<open>i\<close> with the handle's pending part and tail.\<close>

definition db_at ::
  "('s, 't) slatedb_ops \<Rightarrow> codec \<Rightarrow> ('s \<Rightarrow> kv_map) \<Rightarrow> sqlite_codec \<Rightarrow> 'b bucket_ops \<Rightarrow> 's \<Rightarrow> 'b \<Rightarrow> db_handle \<Rightarrow> db_image \<Rightarrow> bool" where
  "db_at B C content Q K s b db i \<longleftrightarrow> log_ok C (content s) (dbh_name db) \<and>
     restore_impl B C Q K s b (dbh_name db) = Some (Inr (i, dbh_pending db, dbh_tail db)) \<and>
     dbh_tail db = current_version C (content s) (dbh_name db) \<and>
     snap_within B C s (dbh_name db) (next_version C (content s) (dbh_name db))"

text \<open>The handle holds what a restore gives; the invariant that a sync keeps.\<close>

definition db_inv ::
  "('s, 't) slatedb_ops \<Rightarrow> codec \<Rightarrow> ('s \<Rightarrow> kv_map) \<Rightarrow> sqlite_codec \<Rightarrow> 'b bucket_ops \<Rightarrow> 's \<Rightarrow> 'b \<Rightarrow> db_handle \<Rightarrow> bool" where
  "db_inv B C content Q K s b db \<longleftrightarrow> db_at B C content Q K s b db (dbh_image db)"

lemma db_atD:
  assumes "db_at B C content Q K s b db i"
  shows "log_ok C (content s) (dbh_name db)" "restore_impl B C Q K s b (dbh_name db) = Some (Inr (i, dbh_pending db, dbh_tail db))"
    "dbh_tail db = current_version C (content s) (dbh_name db)" "snap_within B C s (dbh_name db) (next_version C (content s) (dbh_name db))"
  using assms by (simp_all add: db_at_def)

lemma restore_step_fold:
  assumes "map (delta_events Q) es = map Inr chunks"
  shows "foldl (restore_step Q) (i, p, bad) es = (foldl image_apply i (concat chunks), foldl builder_apply p (concat chunks), bad)"
  using assms
proof (induction es arbitrary: i p chunks)
  case (Cons e es)
  then obtain c cs where "chunks = c # cs" "delta_events Q e = Inr c" "map (delta_events Q) es = map Inr cs" by (cases chunks) auto
  with Cons.IH [of cs] show ?case by (simp add: restore_step_def)
qed simp

lemma restore_base_start:
  assumes "restore_base Q K b snap = Inr (i, start, through)" "\<And>r. snap = Some r \<Longrightarrow> snap_through_version r + 1 \<le> n" "n < VMAX"
  shows "start \<le> n" "start < VMAX"
proof -
  have "start \<le> n"
  proof (cases snap)
    case (Some r)
    have "snap_through_version r + 1 < 2 ^ 64" using assms(2) [OF Some] assms(3) by simp
    with Some assms(1) assms(2) [OF Some] show ?thesis by (auto simp: restore_base_def bind_res_eq_Inr)
  qed (use assms(1) in \<open>simp add: restore_base_def\<close>)
  with assms(3) show "start \<le> n" "start < VMAX" by simp_all
qed


section \<open>Sync\<close>

text \<open>The ways a sync can end well: nothing to read, nothing committed, or one durable append.\<close>

lemma sync_ok_cases:
  assumes "sync_inner B C Q E s db coalesce = (Inr n, db', s')"
  obtains (idle) "s' = s" "n = 0" "wal_open E = Inr None \<or> (\<exists>f. wal_open E = Inr (Some f) \<and> wal_capture f (dbh_cursor db) (im_txid (dbh_image db)) = None)"
      "db' = db"
  | (empty) f cur nxt where "wal_open E = Inr (Some f)" "wal_capture f (dbh_cursor db) (im_txid (dbh_image db)) = Some (cur, [], nxt)"
      "s' = s" "n = 0" "db' = db\<lparr>dbh_cursor := cur\<lparr>cur_frame := nxt\<rparr>\<rparr>"
  | (appended) f cur captured nxt evs ticket where "wal_open E = Inr (Some f)"
      "wal_capture f (dbh_cursor db) (im_txid (dbh_image db)) = Some (cur, captured, nxt)" "captured \<noteq> []" "n = length captured"
      "encode_deltas Q (sync_batch coalesce captured) = Inr evs"
      "commit_appends B C (append_env E) s (dbh_name db) (expected_of (dbh_tail db)) None (Some (dbh_token db)) evs False = (Inr ticket, s')"
      "await_durable (barrier E) ticket = Inr ()"
      "db' = db\<lparr>dbh_tail := Some (last_version (tk_info ticket)),
                dbh_image := foldl image_apply (dbh_image db) (sync_batch coalesce captured),
                dbh_pending := foldl builder_apply (dbh_pending db) (sync_batch coalesce captured),
                dbh_cursor := cur\<lparr>cur_frame := nxt\<rparr>\<rparr>"
proof (cases "wal_open E")
  case (Inr w)
  show ?thesis
  proof (cases w)
    case None
    with Inr assms show ?thesis by (intro idle) (simp_all add: sync_inner_def)
  next
    case (Some f)
    note w = Inr [unfolded Some]
    show ?thesis
    proof (cases "wal_capture f (dbh_cursor db) (im_txid (dbh_image db))")
      case None
      with w assms show ?thesis by (intro idle) (simp_all add: sync_inner_def)
    next
      case (Some x)
      obtain cur captured nxt where x: "x = (cur, captured, nxt)" by (cases x)
      have rd: "wal_read E = None" using assms by (cases "wal_read E") (simp_all add: sync_inner_def w Some x)
      show ?thesis
      proof (cases "captured = []")
        case True
        with w Some x rd assms show ?thesis by (intro empty [OF w]) (auto simp add: sync_inner_def)
      next
        case False
        with assms have sa: "sync_append B C Q E s db cur (sync_batch coalesce captured) nxt (length captured) = (Inr n, db', s')"
          by (simp add: sync_inner_def w Some x rd)
        obtain evs where evs: "encode_deltas Q (sync_batch coalesce captured) = Inr evs"
          using sa by (cases "encode_deltas Q (sync_batch coalesce captured)") (simp_all add: sync_append_def)
        obtain r s1 where r: "commit_appends B C (append_env E) s (dbh_name db) (expected_of (dbh_tail db)) None (Some (dbh_token db)) evs False = (r, s1)"
          by (cases "commit_appends B C (append_env E) s (dbh_name db) (expected_of (dbh_tail db)) None (Some (dbh_token db)) evs False")
        obtain ticket where t: "r = Inr ticket" using sa by (cases r) (simp_all add: sync_append_def evs append_with_token_lazy_def r)
        have d: "await_durable (barrier E) ticket = Inr ()"
          using sa by (cases "await_durable (barrier E) ticket") (simp_all add: sync_append_def evs append_with_token_lazy_def r t)
        from sa have "n = length captured" "s' = s1" "db' = db\<lparr>dbh_tail := Some (last_version (tk_info ticket)),
                dbh_image := foldl image_apply (dbh_image db) (sync_batch coalesce captured),
                dbh_pending := foldl builder_apply (dbh_pending db) (sync_batch coalesce captured),
                dbh_cursor := cur\<lparr>cur_frame := nxt\<rparr>\<rparr>"
          by (simp_all add: sync_append_def evs append_with_token_lazy_def r t d)
        with r t show ?thesis by (intro appended [OF w Some [unfolded x] False _ evs _ d]) simp_all
      qed
    qed
  qed
qed (use assms in \<open>simp add: sync_inner_def\<close>)

lemma restore_impl_parts:
  assumes "restore_impl B C Q K s b p = Some (Inr (i, pend, tail))"
  obtains snap i0 start through lv where "latest_snapshot B C s p = Inr snap" "restore_base Q K b snap = Inr (i0, start, through)"
    "store_fold B C s p (Included start, Unbounded) (i0, ltx_builder_default, None) (restore_step Q) = Some (Inr ((i, pend, None), lv))"
    "tail = (case lv of Some v \<Rightarrow> Some v | None \<Rightarrow> through)"
proof -
  obtain snap where snap: "latest_snapshot B C s p = Inr snap"
    using assms by (cases "latest_snapshot B C s p") (simp_all add: restore_impl_def)
  obtain i0 start through where base: "restore_base Q K b snap = Inr (i0, start, through)"
    using assms by (cases "restore_base Q K b snap") (auto simp: restore_impl_def snap)
  obtain st lv where f: "store_fold B C s p (Included start, Unbounded) (i0, ltx_builder_default, None) (restore_step Q) = Some (Inr (st, lv))"
    using assms by (auto simp: restore_impl_def snap base bind_res_eq_Inr)
  obtain i' p' bad where st: "st = (i', p', bad)" by (cases st)
  have "bad = None" using assms by (cases bad) (simp_all add: restore_impl_def snap base f st)
  with assms f st base snap show ?thesis by (intro that [OF snap base]) (auto simp: restore_impl_def)
qed

lemma restore_impl_eq:
  assumes "latest_snapshot B C s p = Inr snap" "restore_base Q K b snap = Inr (i0, start, through)"
    "store_fold B C s p (Included start, Unbounded) (i0, ltx_builder_default, None) (restore_step Q) = Some (Inr ((i, pend, None), lv))"
  shows "restore_impl B C Q K s b p = Some (Inr (i, pend, case lv of Some v \<Rightarrow> Some v | None \<Rightarrow> through))"
  using assms by (simp add: restore_impl_def)

lemma sync_batch_nil [simp]: "sync_batch c [] = []"
  by (simp add: sync_batch_def)

lemma sync_keeps:
  assumes store: "event_store B content writes base C" and serde: "sqlite_serde Q"
    and inv: "db_at B C content Q K s b db i" and room: "log_room C (content s) (dbh_name db)"
    and env: "ulids_ok (append_env E 0)" "others (append_env E 0) s = s"
    and ok: "sync_inner B C Q E s db coalesce = (Inr n, db', s')"
  shows "db_at B C content Q K s' b db' (foldl image_apply i (sync_batch coalesce (captured_by E db)))"
    "dbh_image db' = foldl image_apply (dbh_image db) (sync_batch coalesce (captured_by E db))"
    "n = length (captured_by E db)" "dbh_name db' = dbh_name db"
    "global_seq (content s') + 1 < VMAX" "next_version C (content s') (dbh_name db) < VMAX"
    "latest_snapshot B C s' (dbh_name db) = latest_snapshot B C s (dbh_name db)"
proof -
  note at = db_atD [OF inv]
  let ?ds = "sync_batch coalesce (captured_by E db)" and ?p = "dbh_name db"
  have "db_at B C content Q K s' b db' (foldl image_apply i ?ds) \<and> dbh_image db' = foldl image_apply (dbh_image db) ?ds \<and>
    n = length (captured_by E db) \<and> dbh_name db' = ?p \<and> global_seq (content s') + 1 < VMAX \<and> next_version C (content s') ?p < VMAX \<and>
    latest_snapshot B C s' ?p = latest_snapshot B C s ?p"
  using ok
proof (cases rule: sync_ok_cases)
  case idle
  then have "captured_by E db = []" by (auto simp: captured_by_def)
  with idle inv room show ?thesis by (simp add: log_room_def)
next
  case (empty f cur nxt)
  then have "captured_by E db = []" by (simp add: captured_by_def)
  with empty inv room show ?thesis by (simp add: log_room_def db_at_def)
next
  case (appended f c captured nxt evs ticket)
  have ds: "captured_by E db = captured" using appended(1,2) by (simp add: captured_by_def)
  note batch = commit_appends_batch [OF appended(6)]
  note a = event_store.append_log [OF store at(1) env(1) log_room_append [OF room batch] env(2) appended(6)]
  have log': "log_ok C (content s') ?p"
    unfolding a(1) by (rule serde_codec.log_ok_append [OF event_store.axioms(2) [OF store] at(1) env(1) log_room_append [OF room batch] a(2)])
  obtain snp i0 start through lv where parts: "latest_snapshot B C s ?p = Inr snp" "restore_base Q K b snp = Inr (i0, start, through)"
    "store_fold B C s ?p (Included start, Unbounded) (i0, ltx_builder_default, None) (restore_step Q) =
       Some (Inr ((i, dbh_pending db, None), lv))"
    using at(2) by (rule restore_impl_parts)
  have start: "start \<le> next_version C (content s) ?p" "start < VMAX"
    by (rule restore_base_start [OF parts(2)]; use at(4) parts(1) room in \<open>auto simp: snap_within_def log_room_def\<close>)+
  obtain evs' chunks where enc: "encode_deltas Q ?ds = Inr evs'" "concat chunks = ?ds"
    "\<forall>es. map (\<lambda>e. (ev_type e, ev_data e)) es = map (\<lambda>e. (ne_type e, ne_data e)) evs' \<longrightarrow> map (delta_events Q) es = map Inr chunks"
    by (rule sqlite_serde.encode_decode [OF serde])
  have e: "evs' = evs" using enc(1) appended(5) by (simp add: ds)
  have "map (delta_events Q) (map event_from_parts (batch_of C (append_env E 0) (content s) ?p None evs)) = map Inr chunks"
    by (rule enc(3) [unfolded e, rule_format]) (rule batch_payload)
  note new = restore_step_fold [OF this, of i "dbh_pending db" None, unfolded enc(2)]
  note fold = event_store.fold_after_append [OF store at(1) env(1) log_room_append [OF room batch] env(2) appended(6) start parts(3), unfolded new]
  have lat: "latest_snapshot B C s' ?p = Inr snp"
    using event_store.latest_after_append [OF store at(1) env(1) log_room_append [OF room batch] env(2) appended(6)] parts(1) by simp
  have cv: "current_version C (content s') ?p = Some (last_version (tk_info ticket))"
    unfolding a(1,4) by (rule serde_codec.append_map_version [OF event_store.axioms(2) [OF store] log_okD(3) [OF at(1)] a(2)])
  have nv: "next_version C (content s') ?p = next_version C (content s) ?p + length evs"
    unfolding a(1) by (rule serde_codec.append_map_next [OF event_store.axioms(2) [OF store] log_okD(3) [OF at(1)] a(2)])
  have "length evs \<le> MAX_BATCH_RECORDS" using batch by (auto simp: check_batch_def split: if_splits)
  moreover have "global_seq (content s') = global_seq (content s) + length evs"
    unfolding a(1) by (rule append_map_seq [OF log_room_append [OF room batch]])
  ultimately have "global_seq (content s') + 1 < VMAX \<and> next_version C (content s') ?p < VMAX"
    using room nv by (simp add: log_room_def)
  moreover have "snap_within B C s' ?p (next_version C (content s') ?p)"
    using at(4) lat parts(1) nv by (auto simp: snap_within_def)
  ultimately show ?thesis
    using restore_impl_eq [OF lat parts(2) fold] log' appended(4,8) cv lat parts(1) by (simp add: db_at_def ds)
qed
  then show "db_at B C content Q K s' b db' (foldl image_apply i ?ds)" "dbh_image db' = foldl image_apply (dbh_image db) ?ds"
    "n = length (captured_by E db)" "dbh_name db' = ?p" "global_seq (content s') + 1 < VMAX" "next_version C (content s') ?p < VMAX"
    "latest_snapshot B C s' ?p = latest_snapshot B C s ?p" by blast+
qed

section \<open>Checkpoint\<close>

text \<open>The backlog of a restore is a list of deltas, applied to the image and recorded by the builder alike.\<close>

lemma restore_step_deltas:
  assumes "foldl (restore_step Q) (i0, p0, bad) es = (i, p, None)"
  shows "bad = None \<and> (\<exists>ds. i = foldl image_apply i0 ds \<and> p = foldl builder_apply p0 ds)"
  using assms
proof (induction es arbitrary: i0 p0 bad)
  case Nil
  then show ?case by (auto intro: exI [of _ "[]"])
next
  case (Cons e es)
  show ?case
  proof (cases "delta_events Q e")
    case (Inl err)
    with Cons.prems Cons.IH [of i0 p0 "Some err"] show ?thesis by (simp add: restore_step_def)
  next
    case (Inr ds)
    with Cons.prems Cons.IH [of "foldl image_apply i0 ds" "foldl builder_apply p0 ds" bad] obtain ds' where
      "bad = None" "i = foldl image_apply i0 (ds @ ds')" "p = foldl builder_apply p0 (ds @ ds')" by (auto simp: restore_step_def)
    then show ?thesis by blast
  qed
qed

lemma load_ltxs_ok: "load_ltxs Q K b segs = Inr i \<Longrightarrow> bt_ok (im_pages i)"
proof -
  have "fold_res (\<lambda>i sr. bind_res (fetch_ltx Q K b (sr_path sr)) (\<lambda>l. Inr (merge_ltx i l))) j segs = Inr i \<Longrightarrow>
      bt_ok (im_pages j) \<Longrightarrow> bt_ok (im_pages i)" for j
  proof (induction segs arbitrary: j)
    case (Cons sr segs)
    from Cons.prems(1) obtain l where "fetch_ltx Q K b (sr_path sr) = Inr l"
      "fold_res (\<lambda>i sr. bind_res (fetch_ltx Q K b (sr_path sr)) (\<lambda>l. Inr (merge_ltx i l))) (merge_ltx j l) segs = Inr i"
      by (auto simp: bind_res_eq_Inr)
    with Cons.IH [of "merge_ltx j l"] Cons.prems(2) show ?case by (simp add: merge_ltx_def)
  qed simp
  then show "load_ltxs Q K b segs = Inr i \<Longrightarrow> bt_ok (im_pages i)" by (simp add: load_ltxs_def db_image_default_def)
qed

lemma restore_pending:
  assumes "restore_base Q K b snap = Inr (i0, start, through)"
    "foldl (restore_step Q) (i0, ltx_builder_default, None) es = (i, p, None)" "into_ltx p = Some l"
  shows "i = merge_ltx i0 l" "bt_ok (im_pages i)"
proof -
  have ok: "bt_ok (im_pages i0)"
    using assms(1) by (cases snap) (auto simp: restore_base_def bind_res_eq_Inr load_ltxs_ok db_image_default_def)
  obtain ds where ds: "i = foldl image_apply i0 ds" "p = foldl builder_apply ltx_builder_default ds"
    using restore_step_deltas [OF assms(2)] by blast
  with assms(3) sqlite_ckpt.merge_sealed [OF ok, of ds l] show "i = merge_ltx i0 l" by (simp add: list_all_iff)
  show "bt_ok (im_pages i)" unfolding ds by (rule sqlite_ckpt.good_fold [OF ok]) (simp add: list_all_iff)
qed

lemma fetch_cong:
  assumes "bucket K objects" "objects b' (bk_path K path) = objects b (bk_path K path)" "fetch_ltx Q K b path = Inr l"
  shows "fetch_ltx Q K b' path = Inr l"
proof -
  obtain d where d: "bk_get K b (bk_path K path) = Inr d" using assms(3) by (auto simp: fetch_ltx_def bind_res_eq_Inr)
  from bucket.get_cong [OF assms(1,2) this] d assms(3) show ?thesis by (simp add: fetch_ltx_def)
qed

lemma load_cong:
  assumes "bucket K objects" "\<And>sr. sr \<in> set segs \<Longrightarrow> objects b' (bk_path K (sr_path sr)) = objects b (bk_path K (sr_path sr))"
    "load_ltxs Q K b segs = Inr i"
  shows "load_ltxs Q K b' segs = Inr i"
proof -
  have "fold_res (\<lambda>i sr. bind_res (fetch_ltx Q K b (sr_path sr)) (\<lambda>l. Inr (merge_ltx i l))) j segs = Inr i \<Longrightarrow>
      fold_res (\<lambda>i sr. bind_res (fetch_ltx Q K b' (sr_path sr)) (\<lambda>l. Inr (merge_ltx i l))) j segs = Inr i" for j
    using assms(2)
  proof (induction segs arbitrary: j)
    case (Cons sr segs)
    from Cons.prems(1) obtain l where l: "fetch_ltx Q K b (sr_path sr) = Inr l" by (auto simp: bind_res_eq_Inr)
    with fetch_cong [OF assms(1), of b' "sr_path sr" b Q l] Cons show ?case by simp
  qed simp
  with assms(3) show ?thesis by (simp add: load_ltxs_def)
qed

lemma load_present:
  assumes "bucket K objects" "load_ltxs Q K b segs = Inr i" "sr \<in> set segs"
  shows "objects b (bk_path K (sr_path sr)) \<noteq> None"
proof -
  have "fold_res (\<lambda>i sr. bind_res (fetch_ltx Q K b (sr_path sr)) (\<lambda>l. Inr (merge_ltx i l))) j segs = Inr i \<Longrightarrow>
      \<exists>l. fetch_ltx Q K b (sr_path sr) = Inr l" for j
    using assms(3) by (induction segs arbitrary: j) (auto simp: bind_res_eq_Inr)
  with assms(2) obtain l where "fetch_ltx Q K b (sr_path sr) = Inr l" by (auto simp: load_ltxs_def)
  then show ?thesis using bucket.get_eq [OF assms(1)] by (auto simp: fetch_ltx_def bind_res_eq_Inr)
qed

lemma put_ltx_fetch:
  assumes "bucket K objects" "sqlite_serde Q" "put_ltx Q K b name ulid l = (Inr path, b')" "bk_path K path = path"
  shows "fetch_ltx Q K b' path = Inr l" "path = bk_path K (''ltx/'' @ name @ ''/'' @ ulid)"
    "q \<noteq> path \<Longrightarrow> objects b' q = objects b q"
proof -
  obtain d where d: "pack Q (bin_ltx Q) l = Inr d" "unpack Q (unbin_ltx Q) d = Inr l" by (rule sqlite_serde.pack_ltx [OF assms(2)])
  let ?p = "bk_path K (''ltx/'' @ name @ ''/'' @ ulid)"
  have p: "path = ?p \<and> bk_put K b ?p d = (Inr (), b')"
    using assms(3) d(1) by (auto simp: put_ltx_def Let_def split: prod.splits sum.splits)
  then have "bk_get K b' path = Inr d" using bucket.get_after_put [OF assms(1)] by blast
  with d(2) assms(4) show "fetch_ltx Q K b' path = Inr l" by (simp add: fetch_ltx_def)
  show "path = ?p" using p by blast
  show "q \<noteq> path \<Longrightarrow> objects b' q = objects b q" using p bucket.put_other [OF assms(1)] by blast
qed

text \<open>Two images that are the same file: pages past the size do not count.\<close>

definition same_file :: "db_image \<Rightarrow> db_image \<Rightarrow> bool" where
  "same_file i j \<longleftrightarrow> im_page_size i = im_page_size j \<and> im_db_size i = im_db_size j \<and> im_txid i = im_txid j \<and>
     bt_retain (\<lambda>p. p \<le> im_db_size i) (im_pages i) = bt_retain (\<lambda>p. p \<le> im_db_size j) (im_pages j)"

lemma same_file_refl [simp]: "same_file i i"
  by (simp add: same_file_def)

lemma place_visible:
  "fold_res (place_page ps n) out m = fold_res (place_page ps n) out (bt_retain (\<lambda>p. p \<le> n) m)"
proof (induction m arbitrary: out)
  case (Cons x m)
  show ?case
  proof (cases "fst x \<le> n")
    case True
    then show ?thesis by (cases x; cases "place_page ps n out x") (simp_all add: bt_retain_def Cons [unfolded bt_retain_def])
  next
    case False
    then have "place_page ps n out x = Inr out" by (simp add: place_page_def)
    with False Cons show ?thesis by (cases x) (simp add: bt_retain_def)
  qed
qed (simp add: bt_retain_def)

lemma to_bytes_same_file:
  assumes "same_file i j" shows "to_bytes i = to_bytes j"
proof -
  have "im_page_size i = im_page_size j" "im_db_size i = im_db_size j"
    "bt_retain (\<lambda>p. p \<le> im_db_size j) (im_pages i) = bt_retain (\<lambda>p. p \<le> im_db_size j) (im_pages j)"
    using assms by (auto simp: same_file_def)
  then show ?thesis
    unfolding to_bytes_def using place_visible [of "im_page_size j" "im_db_size j" _ "im_pages i"]
      place_visible [of "im_page_size j" "im_db_size j" _ "im_pages j"] by metis
qed

lemma bt_extend_empty: "bt_ok m \<Longrightarrow> bt_extend [] m = m"
  by (rule bt_eqI) (simp_all add: map_of_bt_extend map_of_rev_distinct bt_distinct)

lemma coalesce_pages_eq:
  assumes "load_ltxs Q K b segs = Inr i0" "\<And>sr. sr \<in> set segs \<Longrightarrow> sr_path sr \<noteq> sr_path new_ref"
  shows "coalesce_pages Q K b (segs @ [new_ref]) new_ref l =
     Inr (bt_retain (\<lambda>p. p \<le> sr_db_size new_ref) (im_pages (merge_ltx i0 l)))"
proof -
  let ?f = "\<lambda>pages sr. if sr_path sr = sr_path new_ref then Inr pages
         else bind_res (fetch_ltx Q K b (sr_path sr)) (\<lambda>x. Inr (insert_frames pages (ltx_pages x)))"
  have "fold_res (\<lambda>i sr. bind_res (fetch_ltx Q K b (sr_path sr)) (\<lambda>l. Inr (merge_ltx i l))) j segs = Inr i0 \<Longrightarrow>
      fold_res ?f (im_pages j) segs = Inr (im_pages i0)" for j
    using assms(2)
  proof (induction segs arbitrary: j)
    case (Cons sr segs)
    from Cons.prems(1) obtain x where x: "fetch_ltx Q K b (sr_path sr) = Inr x"
      "fold_res (\<lambda>i sr. bind_res (fetch_ltx Q K b (sr_path sr)) (\<lambda>l. Inr (merge_ltx i l))) (merge_ltx j x) segs = Inr i0"
      by (auto simp: bind_res_eq_Inr)
    with Cons.IH [OF x(2)] Cons.prems(2) show ?case by (simp add: merge_ltx_def)
  qed simp
  from this [of db_image_default] assms(1) have "fold_res ?f [] (segs @ [new_ref]) = Inr (im_pages i0)"
    by (simp add: load_ltxs_def fold_res_append db_image_default_def)
  then show ?thesis by (simp add: coalesce_pages_def merge_ltx_def)
qed

definition manifest_of :: "('s, 't) slatedb_ops \<Rightarrow> codec \<Rightarrow> sqlite_codec \<Rightarrow> 's \<Rightarrow> string \<Rightarrow> manifest res" where
  "manifest_of B C Q s p = bind_res (latest_snapshot B C s p) (\<lambda>snap. case snap of
      None \<Rightarrow> Inr manifest_default
    | Some r \<Rightarrow> map_err Encoding (unjson_manifest Q (snap_state r)))"

lemma checkpoint_ok_cases:
  assumes "checkpoint_with B C Q K E opts s b db = Some (Inr (Some rec), db', s', b')"
  obtains n db1 s1 through m l path b1 segs retire b2 where
    "sync B C Q E s db = (Inr n, db1, s1)" "dbh_tail db1 = Some through" "manifest_of B C Q s1 (dbh_name db1) = Inr m"
    "into_ltx (dbh_pending db1) = Some l" "put_ltx Q K b (dbh_name db1) (object_ids E 0) l = (Inr path, b1)"
    "coalesce_manifest Q K b1 (dbh_name db1) (object_ids E 1) opts (mf_segments m @ [segment_ref_of l path]) (segment_ref_of l path) l =
       (Inr (segs, retire), b2)"
    "publish_manifest B C Q K E opts s1 b2 (dbh_name db1) through (mf_retire m) \<lparr>mf_segments = segs, mf_retire = retire\<rparr> =
       Some (Inr (Some rec), s', b')"
    "db' = db1\<lparr>dbh_pending := ltx_builder_default\<rparr>"
proof -
  obtain r0 db1 s1 where s1: "sync B C Q E s db = (r0, db1, s1)" by (cases "sync B C Q E s db")
  obtain n where n: "r0 = Inr n" using assms by (cases r0) (simp_all add: checkpoint_with_def s1)
  obtain through where t: "dbh_tail db1 = Some through"
    using assms by (cases "dbh_tail db1") (simp_all add: checkpoint_with_def s1 n)
  obtain m where m: "manifest_of B C Q s1 (dbh_name db1) = Inr m"
    using assms by (cases "manifest_of B C Q s1 (dbh_name db1)") (simp_all add: checkpoint_with_def s1 n t flip: manifest_of_def)
  obtain l where l: "into_ltx (dbh_pending db1) = Some l"
    using assms by (cases "into_ltx (dbh_pending db1)") (simp_all add: checkpoint_with_def s1 n t m flip: manifest_of_def)
  obtain r1 b1 where r1: "put_ltx Q K b (dbh_name db1) (object_ids E 0) l = (r1, b1)" by (cases "put_ltx Q K b (dbh_name db1) (object_ids E 0) l")
  obtain path where path: "r1 = Inr path"
    using assms by (cases r1) (simp_all add: checkpoint_with_def s1 n t m l r1 Let_def flip: manifest_of_def)
  let ?ref = "segment_ref_of l path"
  obtain r2 b2 where r2: "coalesce_manifest Q K b1 (dbh_name db1) (object_ids E 1) opts (mf_segments m @ [?ref]) ?ref l = (r2, b2)"
    by (cases "coalesce_manifest Q K b1 (dbh_name db1) (object_ids E 1) opts (mf_segments m @ [?ref]) ?ref l")
  obtain segs retire where sr: "r2 = Inr (segs, retire)"
    using assms by (cases r2) (auto simp: checkpoint_with_def s1 n t m l r1 path r2 [unfolded One_nat_def] Let_def simp flip: manifest_of_def)
  from assms have "publish_manifest B C Q K E opts s1 b2 (dbh_name db1) through (mf_retire m) \<lparr>mf_segments = segs, mf_retire = retire\<rparr> =
       Some (Inr (Some rec), s', b') \<and> db' = db1\<lparr>dbh_pending := ltx_builder_default\<rparr>"
    by (auto simp: checkpoint_with_def s1 n t m l r1 path r2 [unfolded One_nat_def] sr Let_def simp flip: manifest_of_def)
  with that [OF s1 [unfolded n] t m l r1 [unfolded path] r2 [unfolded sr]] show ?thesis by blast
qed

text \<open>The object paths of a checkpoint are new, and the manifest does not need what it retires.\<close>

definition keeps_segments :: "'b bucket_ops \<Rightarrow> manifest \<Rightarrow> bool" where
  "keeps_segments K m \<longleftrightarrow> (\<forall>sr \<in> set (mf_segments m). bk_path K (sr_path sr) \<notin> bk_path K ` set (mf_retire m))"

definition new_paths :: "'b bucket_ops \<Rightarrow> ('b \<Rightarrow> string \<Rightarrow> bytes option) \<Rightarrow> 'b \<Rightarrow> string \<Rightarrow> (nat \<Rightarrow> string) \<Rightarrow> manifest \<Rightarrow> bool" where
  "new_paths K objects b name ids m \<longleftrightarrow>
     (let path = (\<lambda>k. bk_path K (''ltx/'' @ name @ ''/'' @ ids k)) in
      path 0 \<noteq> path 1 \<and> (\<forall>k \<in> {0, 1}. objects b (path k) = None \<and> bk_path K (path k) = path k \<and> path k \<notin> bk_path K ` set (mf_retire m)))"

definition fresh_paths :: "'b bucket_ops \<Rightarrow> ('b \<Rightarrow> string \<Rightarrow> bytes option) \<Rightarrow> 'b \<Rightarrow> string \<Rightarrow> (nat \<Rightarrow> string) \<Rightarrow> manifest \<Rightarrow> bool" where
  "fresh_paths K objects b name ids m \<longleftrightarrow> keeps_segments K m \<and> new_paths K objects b name ids m"

lemma delete_all_other:
  assumes "bucket K objects" "q \<notin> bk_path K ` set ps"
  shows "objects (foldl (\<lambda>b p. snd (bk_delete K b (bk_path K p))) b ps) q = objects b q"
  using assms(2)
proof (induction ps arbitrary: b)
  case (Cons p ps)
  then have "q \<noteq> bk_path K p" by auto
  then have "objects (snd (bk_delete K b (bk_path K p))) q = objects b q"
    using bucket.delete_other [OF assms(1)] by (metis prod.collapse)
  with Cons show ?case by simp
qed simp

text \<open>What the published segments restore to, in the bucket after the uploads.\<close>

lemma coalesced_load:
  assumes bk: "bucket K objects" and serde: "sqlite_serde Q" and fresh: "fresh_paths K objects b name ids m"
    and load: "load_ltxs Q K b (mf_segments m) = Inr i0"
    and put: "put_ltx Q K b name (ids 0) l = (Inr path, b1)"
    and co: "coalesce_manifest Q K b1 name (ids 1) opts (mf_segments m @ [segment_ref_of l path]) (segment_ref_of l path) l =
       (Inr (segs, retire), b2)"
  obtains i where "load_ltxs Q K b2 segs = Inr i" "same_file i (merge_ltx i0 l)"
    "\<forall>sr \<in> set segs. bk_path K (sr_path sr) \<notin> bk_path K ` set (mf_retire m)" "length segs \<le> max 1 (coalesce_at opts)"
    "keeps_segments K \<lparr>mf_segments = segs, mf_retire = retire\<rparr>"
proof -
  let ?path = "\<lambda>k. bk_path K (''ltx/'' @ name @ ''/'' @ ids k)" and ?ref = "segment_ref_of l path"
  have fr: "?path 0 \<noteq> ?path 1" "objects b (?path 0) = None" "objects b (?path 1) = None" "bk_path K (?path 0) = ?path 0"
    "bk_path K (?path 1) = ?path 1" "?path 0 \<notin> bk_path K ` set (mf_retire m)" "?path 1 \<notin> bk_path K ` set (mf_retire m)"
    "\<And>sr. sr \<in> set (mf_segments m) \<Longrightarrow> bk_path K (sr_path sr) \<notin> bk_path K ` set (mf_retire m)"
    using fresh by (simp_all add: fresh_paths_def keeps_segments_def new_paths_def Let_def)
  have path: "path = ?path 0" using put by (auto simp: put_ltx_def Let_def split: prod.splits sum.splits)
  have "bk_path K path = path" unfolding path by (rule fr(4))
  note pf = put_ltx_fetch [OF bk serde put this]
  have old: "bk_path K (sr_path sr) \<noteq> path" "bk_path K (sr_path sr) \<noteq> ?path 1" "sr_path sr \<noteq> path" if "sr \<in> set (mf_segments m)" for sr
    using load_present [OF bk load that] fr(2,3,4) unfolding path by metis+
  have load1: "load_ltxs Q K b1 (mf_segments m) = Inr i0"
    by (rule load_cong [OF bk _ load]) (use old pf(3) in auto)
  show ?thesis
  proof (cases "coalesce_at opts < length (mf_segments m @ [?ref])")
    case False
    then have segs: "segs = mf_segments m @ [?ref]" "retire = []" "b2 = b1" using co by (simp_all add: coalesce_manifest_def)
    have "load_ltxs Q K b2 segs = Inr (merge_ltx i0 l)"
      using load1 pf(1) by (simp add: segs load_ltxs_def fold_res_append segment_ref_of_def)
    moreover have "bk_path K (sr_path sr) \<notin> bk_path K ` set (mf_retire m)" if "sr \<in> set segs" for sr
    proof (cases "sr \<in> set (mf_segments m)")
      case False
      with that have "sr_path sr = ?path 0" by (simp add: segs segment_ref_of_def path)
      then show ?thesis using fr(4,6) by simp
    qed (rule fr(8))
    moreover have "length segs \<le> max 1 (coalesce_at opts)" using False by (simp add: segs)
    moreover have "keeps_segments K \<lparr>mf_segments = segs, mf_retire = retire\<rparr>" by (simp add: keeps_segments_def segs(2))
    ultimately show ?thesis using that same_file_refl by blast
  next
    case True
    have cp: "coalesce_pages Q K b1 (mf_segments m @ [?ref]) ?ref l = Inr (bt_retain (\<lambda>p. p \<le> sr_db_size ?ref) (im_pages (merge_ltx i0 l)))"
      by (rule coalesce_pages_eq [OF load1]) (use old in \<open>simp add: segment_ref_of_def\<close>)
    let ?pages = "bt_retain (\<lambda>p. p \<le> ltx_db_size l) (im_pages (merge_ltx i0 l))"
    let ?merged = "\<lparr>ltx_txid_start = sr_txid_start (hd (mf_segments m @ [?ref])), ltx_txid_end = ltx_txid_end l,
                    ltx_page_size = ltx_page_size l, ltx_db_size = ltx_db_size l, ltx_pages = frames_of ?pages\<rparr>"
    obtain path1 where p1: "put_ltx Q K b1 name (ids 1) ?merged = (Inr path1, b2)" "segs = [segment_ref_of ?merged path1]"
      "retire = map sr_path (mf_segments m @ [?ref])"
      using co True cp by (auto simp: coalesce_manifest_def segment_ref_of_def Let_def split: prod.splits sum.splits)
    have path1: "path1 = ?path 1" using p1(1) by (auto simp: put_ltx_def Let_def split: prod.splits sum.splits)
    have "bk_path K path1 = path1" unfolding path1 by (rule fr(5))
    note pf1 = put_ltx_fetch [OF bk serde p1(1) this]
    have ok: "bt_ok ?pages" using load_ltxs_ok [OF load] by (simp add: merge_ltx_def)
    have "load_ltxs Q K b2 segs = Inr (merge_ltx db_image_default ?merged)"
      using pf1(1) by (simp add: p1(2) load_ltxs_def segment_ref_of_def)
    moreover have "same_file (merge_ltx db_image_default ?merged) (merge_ltx i0 l)"
      using bt_extend_empty [OF ok] by (simp add: same_file_def merge_ltx_def db_image_default_def bt_retain_def)
    moreover have "bk_path K (sr_path sr) \<notin> bk_path K ` set (mf_retire m)" if "sr \<in> set segs" for sr
    proof -
      have "sr_path sr = ?path 1" using that by (simp add: p1(2) segment_ref_of_def path1)
      then show ?thesis using fr(5,7) by simp
    qed
    moreover have "length segs \<le> max 1 (coalesce_at opts)" by (simp add: p1(2))
    moreover have "bk_path K q \<noteq> ?path 1" if "q \<in> set retire" for q
      using that old(2) fr(1,4) unfolding p1(3) path by (auto simp: segment_ref_of_def)
    then have "keeps_segments K \<lparr>mf_segments = segs, mf_retire = retire\<rparr>"
      using fr(5) by (fastforce simp: keeps_segments_def p1(2) segment_ref_of_def path1)
    ultimately show ?thesis using that by blast
  qed
qed

lemma fold_of_store_fold:
  assumes "store_fold B C s p r a f = Some (Inr (x, lv))"
  obtains es where "foldl f a es = x"
  using assms by (cases "resolve_history C (db_reader B s) p [] (fst (bounds r)) (snd (bounds r))")
    (auto simp: store_fold_def case_prod_beta bind_res_eq_Inr)

text \<open>What a publication with its optional purge leaves of the stream.\<close>

lemma publish_manifest_log:
  assumes store: "event_store B content writes base C" and log: "log_ok C (content s) p" and sq: "global_seq (content s) + 1 < VMAX"
    and nv: "next_version C (content s) p = through + 1" "through + 1 < VMAX"
    and env: "\<And>x. others (publish_env E) x = x" "opt_purge opts \<Longrightarrow> \<forall>k x. others (purge_env E k) x = x"
    and state: "json_manifest Q m = Inr state"
    and ok: "publish_manifest B C Q K E opts s b p through old m = Some (Inr (Some rec), s', b')"
  shows "latest_snapshot B C s' p = Inr (Some \<lparr>snap_through_version = through, snap_ts_ms = wall_clock E, snap_state = state\<rparr>)"
    "log_ok C (content s') p" "current_version C (content s') p = current_version C (content s) p"
    "b' = foldl (\<lambda>b q. snd (bk_delete K b (bk_path K q))) b old" "rec = sqlite_record p through (wall_clock E)"
proof -
  let ?rec = "sqlite_record p through (wall_clock E)"
  obtain r s2 where pub: "publish_snapshot B C (publish_env E) s p ?rec state = (r, s2)"
    by (cases "publish_snapshot B C (publish_env E) s p ?rec state")
  note pl = event_store.publish_log [OF store log env(1) sq pub]
  have fin: "b' = foldl (\<lambda>b q. snd (bk_delete K b (bk_path K q))) b old \<and> rec = ?rec \<and>
      (if opt_purge opts then \<exists>n. purge_below B (purge_env E) s2 p (add64 through 1) = Some (Inr n, s') else s' = s2)"
    using ok by (auto simp: publish_manifest_def state pub Let_def bind_res_eq_Inr split: sum.splits if_splits)
  then show "b' = foldl (\<lambda>b q. snd (bk_delete K b (bk_path K q))) b old" "rec = ?rec" by simp_all
  have "log_ok C (content s') p \<and> latest_snapshot B C s' p = latest_snapshot B C s2 p \<and> current_version C (content s') p = current_version C (content s2) p"
  proof (cases "opt_purge opts")
    case True
    with fin nv(2) obtain n where purged: "purge_below B (purge_env E) s2 p (through + 1) = Some (Inr n, s')" by auto
    note quiet = env(2) [OF True, rule_format]
    from event_store.purge_log [where Es = "purge_env E", OF store pl(2) quiet nv(2) purged] show ?thesis by simp
  qed (use fin pl(2) in simp)
  moreover have "current_version C (content s2) p = current_version C (content s) p"
    using pl(3) nv(1) by (auto simp: next_version_def split: option.splits)
  ultimately show "log_ok C (content s') p" "current_version C (content s') p = current_version C (content s) p"
    "latest_snapshot B C s' p = Inr (Some \<lparr>snap_through_version = through, snap_ts_ms = wall_clock E, snap_state = state\<rparr>)"
    using pl(1) by (simp_all add: sqlite_record_def)
qed

lemma sqlite_checkpoint_keeps:
  assumes store: "event_store B content writes base C" and serde: "sqlite_serde Q" and bk: "bucket K objects"
    and inv: "db_at B C content Q K s b db i" and room: "log_room C (content s) (dbh_name db)"
    and env: "ulids_ok (append_env E 0)" "others (append_env E 0) s = s" "\<And>x. others (publish_env E) x = x"
      "opt_purge opts \<Longrightarrow> \<forall>k x. others (purge_env E k) x = x"
    and fresh: "\<And>m. manifest_of B C Q s (dbh_name db) = Inr m \<Longrightarrow> fresh_paths K objects b (dbh_name db) (object_ids E) m"
    and ok: "checkpoint_with B C Q K E opts s b db = Some (Inr (Some rec), db', s', b')"
  obtains i' m where "db_at B C content Q K s' b' db' i'" "same_file i' (foldl image_apply i (captured_by E db))" "bt_ok (im_pages i')"
    "dbh_image db' = foldl image_apply (dbh_image db) (captured_by E db)" "dbh_name db' = dbh_name db"
    "dbh_pending db' = ltx_builder_default" "dbh_tail db' = Some (comp_through_version rec)"
    "manifest_of B C Q s' (dbh_name db) = Inr m" "length (mf_segments m) \<le> max 1 (coalesce_at opts)" "keeps_segments K m"
    "next_version C (content s') (dbh_name db) < VMAX"
  using ok
proof (cases rule: checkpoint_ok_cases)
  case (1 n db1 s1 through m l path b1 segs retire b2)
  let ?p = "dbh_name db"
  have ds: "sync_batch False (captured_by E db) = captured_by E db" by (simp add: sync_batch_def)
  note sk = sync_keeps [OF store serde inv room env(1,2) 1(1) [unfolded sync_def], unfolded ds]
  note nm = sk(4) and at = db_atD [OF sk(1), unfolded sk(4)]
  have man: "manifest_of B C Q s ?p = Inr m" using 1(3) sk(7) by (simp add: nm manifest_of_def)
  have thr: "next_version C (content s1) ?p = through + 1" using at(3) [symmetric] 1(2) by (simp add: next_version_def)
  have nv: "through + 1 < VMAX" using sk(6) thr by simp
  obtain snap i0 start th lv where parts: "latest_snapshot B C s1 ?p = Inr snap" "restore_base Q K b snap = Inr (i0, start, th)"
    "store_fold B C s1 ?p (Included start, Unbounded) (i0, ltx_builder_default, None) (restore_step Q) =
       Some (Inr ((foldl image_apply i (captured_by E db), dbh_pending db1, None), lv))"
    using at(2) by (rule restore_impl_parts)
  obtain es where "foldl (restore_step Q) (i0, ltx_builder_default, None) es = (foldl image_apply i (captured_by E db), dbh_pending db1, None)"
    by (rule fold_of_store_fold [OF parts(3)])
  from restore_pending [OF parts(2) this 1(4)] have img: "foldl image_apply i (captured_by E db) = merge_ltx i0 l" by simp
  have load: "load_ltxs Q K b (mf_segments m) = Inr i0"
    using parts(1,2) 1(3) by (cases snap) (auto simp: manifest_of_def restore_base_def nm bind_res_eq_Inr manifest_default_def load_ltxs_def)
  obtain i' where li: "load_ltxs Q K b2 segs = Inr i'" "same_file i' (merge_ltx i0 l)"
    "\<forall>sr \<in> set segs. bk_path K (sr_path sr) \<notin> bk_path K ` set (mf_retire m)" "length segs \<le> max 1 (coalesce_at opts)"
    "keeps_segments K \<lparr>mf_segments = segs, mf_retire = retire\<rparr>"
    by (rule coalesced_load [OF bk serde fresh [OF man] load 1(5,6) [unfolded nm]])
  let ?m = "\<lparr>mf_segments = segs, mf_retire = retire\<rparr>"
  obtain state where state: "json_manifest Q ?m = Inr state" "unjson_manifest Q state = Inr ?m"
    using sqlite_serde.manifest_codec [OF serde] by blast
  note pl = publish_manifest_log [OF store at(1) sk(5) thr nv env(3,4) state(1) 1(7) [unfolded nm]]
  have load': "load_ltxs Q K b' segs = Inr i'"
    by (rule load_cong [OF bk _ li(1)]) (use li(3) delete_all_other [OF bk] in \<open>simp add: pl(4)\<close>)
  have nv': "next_version C (content s') ?p = through + 1" using thr pl(3) by (simp add: next_version_def)
  have rb: "restore_base Q K b' (Some \<lparr>snap_through_version = through, snap_ts_ms = wall_clock E, snap_state = state\<rparr>) =
      Inr (i', next_version C (content s') ?p, Some through)"
    using state(2) load' nv nv' by (simp add: restore_base_def)
  have "store_fold B C s' ?p (Included (next_version C (content s') ?p), Unbounded) (i', ltx_builder_default, None) (restore_step Q) =
      Some (Inr ((i', ltx_builder_default, None), None))"
    using event_store.fold_past_tail [OF store pl(2)] nv nv' by simp
  from restore_impl_eq [OF pl(1) rb this] have "restore_impl B C Q K s' b' ?p = Some (Inr (i', ltx_builder_default, Some through))" by simp
  moreover have "snap_within B C s' ?p (next_version C (content s') ?p)" using pl(1) nv' by (simp add: snap_within_def)
  ultimately have "db_at B C content Q K s' b' db' i'" using pl(2,3) at(3) 1(2,8) by (simp add: db_at_def nm)
  moreover have "manifest_of B C Q s' ?p = Inr ?m" using pl(1) state(2) by (simp add: manifest_of_def)
  ultimately show ?thesis
    using that [of i' ?m] li(2,4,5) load_ltxs_ok [OF li(1)] sk(2) 1(2,8) pl(5) nv nv' by (simp add: img nm sqlite_record_def)
qed

section \<open>An example handle\<close>

definition example_handle :: db_handle where
  "example_handle = \<lparr>dbh_name = ''a'', dbh_token = ''t'', dbh_image = db_image_default, dbh_tail = None,
     dbh_cursor = wal_cursor_default, dbh_pending = ltx_builder_default\<rparr>"

definition example_wal :: bytes where
  "example_wal = header_bytes 0x377f0682 ''abcd'' ''efgh'' example_head ''01234567'' @
     entries_bytes example_head ([] @ [example_entry 1 1 CHR ''x'']) @ []"

definition example_tx :: delta where
  "example_tx = \<lparr>d_txid = 1, d_page_size = 2, d_db_size = 1, d_pages = [\<lparr>fr_pgno = 1, fr_data = ''xx''\<rparr>]\<rparr>"

definition example_sqlite_env :: "u64 \<Rightarrow> mem_db sqlite_env" where
  "example_sqlite_env h = \<lparr>wal_open = Inr (Some example_wal), wal_read = None, append_env = mem_env,
     barrier = [\<lparr>durable_seq = h, close_reason = None\<rparr>], publish_env = (mem_env 0)\<lparr>watch := [\<lparr>durable_seq = h, close_reason = None\<rparr>]\<rparr>,
     purge_env = mem_env, object_ids = (\<lambda>k. show_nat k), wall_clock = 5, truncate_result = Inr ()\<rparr>"

lemma example_capture:
  "wal_capture example_wal wal_cursor_default 0 = Some (cursor_at example_head 0, [example_tx], 1)"
  unfolding example_wal_def
  by (subst capture_layout [OF example_head_ok]) (simp_all add: example_wal_simps example_tx_def)

lemma example_db_inv: "db_inv mem_ops mem_codec mem_content mem_sqlite mem_bucket_ops mem_empty [] example_handle"
proof -
  have f: "store_fold mem_ops mem_codec mem_empty ''a'' (Included 0, Unbounded) a f = Some (Inr (a, None))" for a :: "db_image \<times> ltx_builder \<times> error option" and f
    using mem_store.fold_past_tail [of mem_empty "''a''" a f] by simp
  have "restore_impl mem_ops mem_codec mem_sqlite mem_bucket_ops mem_empty [] ''a'' = Some (Inr (db_image_default, ltx_builder_default, None))"
    using f by (simp add: restore_impl_def mem_latest_none restore_base_def)
  then show ?thesis by (simp add: db_inv_def db_at_def example_handle_def snap_within_def mem_latest_none)
qed

text \<open>A sync that finds transactions and is not refused commits them; only the durability barrier can still fail.\<close>

lemma sync_commits:
  assumes store: "event_store B content writes base C" and inv: "db_inv B C content Q K s b db"
    and room: "log_room C (content s) (dbh_name db)" and env: "ulids_ok (append_env E 0)" "others (append_env E 0) s = s"
    and wal: "wal_open E = Inr (Some f)" "wal_read E = None" "wal_capture f (dbh_cursor db) (im_txid (dbh_image db)) = Some (cur, captured, nxt)"
    and ne: "captured \<noteq> []" and enc: "encode_deltas Q (sync_batch coalesce captured) = Inr evs" "evs \<noteq> []" "check_batch evs = Inr ()"
    and fence: "fence_of (content s) (dbh_name db) \<in> {None, Some (dbh_token db)}"
  obtains ticket s' where "sync_inner B C Q E s db coalesce =
     (case await_durable (barrier E) ticket of
        Inl e \<Rightarrow> (Inl e, db\<lparr>dbh_cursor := cur\<rparr>, s')
      | Inr _ \<Rightarrow> (Inr (length captured), db\<lparr>dbh_tail := Some (last_version (tk_info ticket)),
                  dbh_image := foldl image_apply (dbh_image db) (sync_batch coalesce captured),
                  dbh_pending := foldl builder_apply (dbh_pending db) (sync_batch coalesce captured),
                  dbh_cursor := cur\<lparr>cur_frame := nxt\<rparr>\<rparr>, s'))"
    "commit_appends B C (append_env E) s (dbh_name db) (expected_of (dbh_tail db)) None (Some (dbh_token db)) evs False = (Inr ticket, s')"
proof -
  let ?p = "dbh_name db"
  have i: "log_ok C (content s) ?p" "dbh_tail db = current_version C (content s) ?p" using inv by (simp_all add: db_inv_def db_at_def)
  have ref: "refusal C (content s) ?p (expected_of (dbh_tail db)) (Some (dbh_token db)) evs = None"
    using fence enc(2) by (auto simp: refusal_def i(2) expected_of_def split: option.split)
  note q = event_store.commit_appends_quiet [OF store, where s = s and stream = ?p and Es = "append_env E" and from_version = None and events = evs and
      expected = "expected_of (dbh_tail db)" and token = "Some (dbh_token db)" and idx = False,
      OF enc(3) log_okD(1,3) [OF i(1)] env(1) log_room_append [OF room enc(3)] env(2)]
  obtain ticket s' where c: "commit_appends B C (append_env E) s ?p (expected_of (dbh_tail db)) None (Some (dbh_token db)) evs False = (Inr ticket, s')"
    using q ref by auto
  show ?thesis
    by (rule that [OF _ c]) (simp add: sync_inner_def wal ne sync_append_def enc(1) append_with_token_lazy_def c)
qed

lemma sync_batch_ne: "captured \<noteq> [] \<Longrightarrow> sync_batch coalesce captured \<noteq> []"
  by (simp add: sync_batch_def fold_deltas_def)

lemma example_encode:
  obtains evs where "encode_deltas mem_sqlite (sync_batch False [example_tx]) = Inr evs" "evs \<noteq> []" "check_batch evs = Inr ()"
proof -
  have "encode_deltas mem_sqlite [example_tx] = Inr [new_event_new TXB (net_enc [show_delta example_tx])]"
    by (simp add: encode_deltas_def mem_sqlite_def pack_def)
  moreover have "length (net_enc [show_delta example_tx]) \<le> MAX_RECORD_BYTES"
    by (simp add: MAX_RECORD_BYTES_def net_enc_def net_field_def show_delta_def example_tx_def show_frames_def flat_pairs_def show_nat.simps)
  ultimately show ?thesis
    using that [of "[new_event_new TXB (net_enc [show_delta example_tx])]"]
    by (simp add: sync_batch_def check_batch_def MAX_BATCH_RECORDS_def new_event_new_def)
qed

lemma example_env_simps [simp]:
  "wal_open (example_sqlite_env h) = Inr (Some example_wal)" "wal_read (example_sqlite_env h) = None"
  "append_env (example_sqlite_env h) = mem_env" "barrier (example_sqlite_env h) = [\<lparr>durable_seq = h, close_reason = None\<rparr>]"
  "publish_env (example_sqlite_env h) = (mem_env 0)\<lparr>watch := [\<lparr>durable_seq = h, close_reason = None\<rparr>]\<rparr>"
  "object_ids (example_sqlite_env h) = show_nat" "wall_clock (example_sqlite_env h) = 5" "truncate_result (example_sqlite_env h) = Inr ()"
  by (simp_all add: example_sqlite_env_def)

lemma example_handle_simps [simp]:
  "dbh_name example_handle = ''a''" "dbh_image example_handle = db_image_default" "dbh_pending example_handle = ltx_builder_default"
  "dbh_cursor example_handle = wal_cursor_default" "dbh_tail example_handle = None" "im_txid db_image_default = 0" "im_pages db_image_default = []"
  by (simp_all add: example_handle_def db_image_default_def)

text \<open>The first sync of the example, with any barrier that reaches its commit.\<close>

lemma example_sync:
  obtains t db1 s1 v where "\<forall>h \<ge> t. sync_inner mem_ops mem_codec mem_sqlite (example_sqlite_env h) mem_empty example_handle False = (Inr 1, db1, s1)"
    "dbh_pending db1 = builder_apply ltx_builder_default example_tx" "dbh_tail db1 = Some v" "dbh_name db1 = ''a''"
    "latest_snapshot mem_ops mem_codec s1 ''a'' = Inr None" "log_ok mem_codec (mem_content s1) ''a''" "global_seq (mem_content s1) + 1 < VMAX"
proof -
  obtain evs where evs: "encode_deltas mem_sqlite (sync_batch False [example_tx]) = Inr evs" "evs \<noteq> []" "check_batch evs = Inr ()"
    by (rule example_encode)
  have "\<exists>ticket s1. commit_appends mem_ops mem_codec mem_env mem_empty ''a'' NoStream None (Some (dbh_token example_handle)) evs False = (Inr ticket, s1)"
    by (rule sync_commits [OF mem_store.event_store_axioms example_db_inv, of "example_sqlite_env 0" example_wal "cursor_at example_head 0" "[example_tx]" 1 False evs])
      (use evs in \<open>auto simp: example_capture expected_of_def\<close>)
  then obtain ticket s1 where c: "commit_appends mem_ops mem_codec mem_env mem_empty ''a'' NoStream None (Some (dbh_token example_handle)) evs False = (Inr ticket, s1)"
    by blast
  let ?db = "example_handle\<lparr>dbh_tail := Some (last_version (tk_info ticket)), dbh_image := image_apply db_image_default example_tx,
      dbh_pending := builder_apply ltx_builder_default example_tx, dbh_cursor := (cursor_at example_head 0)\<lparr>cur_frame := 1\<rparr>\<rparr>"
  have run: "sync_inner mem_ops mem_codec mem_sqlite (example_sqlite_env h) mem_empty example_handle False = (Inr 1, ?db, s1)" if "tk_seq ticket \<le> h" for h
  proof -
    have d: "await_durable [\<lparr>durable_seq = h, close_reason = None\<rparr>] ticket = Inr ()" using await_one [OF that] by (simp add: await_durable_def)
    have "sync_batch False [example_tx] = [example_tx]" by (simp add: sync_batch_def)
    with evs c d show ?thesis
      by (simp add: sync_inner_def sync_append_def example_capture append_with_token_lazy_def expected_of_def)
  qed
  note sk = sync_keeps [OF mem_store.event_store_axioms mem_sq.sqlite_serde_axioms example_db_inv [unfolded db_inv_def] _ _ _ run [OF order_refl]]
  have "latest_snapshot mem_ops mem_codec s1 ''a'' = Inr None" "log_ok mem_codec (mem_content s1) ''a''" "global_seq (mem_content s1) + 1 < VMAX"
    using sk(5,7) db_atD(1) [OF sk(1)] by (simp_all add: mem_latest_none)
  with run show ?thesis by (intro that [of "tk_seq ticket" ?db s1 "last_version (tk_info ticket)"]) simp_all
qed

lemma example_checkpoint:
  obtains h rec db' s' b' where "checkpoint_with mem_ops mem_codec mem_sqlite mem_bucket_ops (example_sqlite_env h) checkpoint_opts_default mem_empty [] example_handle =
       Some (Inr (Some rec), db', s', b')"
proof -
  obtain t db1 s1 v where s1: "\<forall>h \<ge> t. sync_inner mem_ops mem_codec mem_sqlite (example_sqlite_env h) mem_empty example_handle False = (Inr 1, db1, s1)"
    "dbh_pending db1 = builder_apply ltx_builder_default example_tx" "dbh_tail db1 = Some v" "dbh_name db1 = ''a''"
    "latest_snapshot mem_ops mem_codec s1 ''a'' = Inr None" "log_ok mem_codec (mem_content s1) ''a''" "global_seq (mem_content s1) + 1 < VMAX"
    by (rule example_sync)
  obtain l where l: "into_ltx (builder_apply ltx_builder_default example_tx) = Some l"
    by (simp add: into_ltx_def builder_apply_def ltx_builder_default_def)
  obtain d where d: "pack mem_sqlite (bin_ltx mem_sqlite) l = Inr d" by (rule mem_sq.pack_ltx)
  let ?path = "''ltx/a/'' @ show_nat 0"
  let ?m = "\<lparr>mf_segments = [segment_ref_of l ?path], mf_retire = []\<rparr>"
  have put: "put_ltx mem_sqlite mem_bucket_ops [] ''a'' (show_nat 0) l = (Inr ?path, [(?path, d)])"
    by (simp add: put_ltx_def d mem_bucket_ops_def Let_def)
  obtain state where state: "json_manifest mem_sqlite ?m = Inr state" using mem_sq.manifest_codec by blast
  have sq: "global_seq (mem_content s1) + 1 < 2 ^ 64" using s1(7) by simp
  obtain k s2 where pub: "\<forall>w. publish_snapshot mem_ops mem_codec ((mem_env 0)\<lparr>watch := w\<rparr>) s1 ''a'' (sqlite_record ''a'' v 5) state = (await_seq w k, s2)"
    by (rule mem_store.publish_watch [OF mem_env_ok(2) sq])
  let ?h = "max t k"
  have "publish_snapshot mem_ops mem_codec ((mem_env 0)\<lparr>watch := [\<lparr>durable_seq = ?h, close_reason = None\<rparr>]\<rparr>) s1 ''a'' (sqlite_record ''a'' v 5) state = (Inr (), s2)"
    using pub await_one [of k ?h] by simp
  then have "checkpoint_with mem_ops mem_codec mem_sqlite mem_bucket_ops (example_sqlite_env ?h) checkpoint_opts_default mem_empty [] example_handle =
      Some (Inr (Some (sqlite_record ''a'' v 5)), db1\<lparr>dbh_pending := ltx_builder_default\<rparr>, s2, [(?path, d)])"
    using s1(1) [rule_format, of ?h]
    by (simp add: checkpoint_with_def sync_def s1(2-5) l put manifest_default_def coalesce_manifest_def checkpoint_opts_default_def
        publish_manifest_def state [simplified] Let_def)
  with that show ?thesis by blast
qed

text \<open>A coalesced batch leads to the same image.\<close>

lemma sync_batch_image: "bt_ok (im_pages i) \<Longrightarrow> foldl image_apply i (sync_batch coalesce ds) = foldl image_apply i ds"
  using fold_deltas_apply [of ds i] by (auto simp: sync_batch_def fold_deltas_def)

section \<open>Properties\<close>

text \<open>C6: a sync keeps the handle and its stream in step: when the handle holds what a restore gives, a sync that
  returns, coalesced or not, leaves it holding what a restore from the new stream gives, with the tail of the stream
  as its tail, and its image is the old one with every captured transaction applied.\<close>

theorem sync_then_restore:
  assumes store: "event_store B content writes base C" and serde: "sqlite_serde Q"
    and inv: "db_inv B C content Q K s b db" and room: "log_room C (content s) (dbh_name db)"
    and env: "ulids_ok (append_env E 0)" "others (append_env E 0) s = s"
    and pages: "bt_ok (im_pages (dbh_image db))"
    and ok: "sync_inner B C Q E s db coalesce = (Inr n, db', s')"
  shows "db_inv B C content Q K s' b db' \<and> n = length (captured_by E db) \<and>
     dbh_image db' = foldl image_apply (dbh_image db) (captured_by E db)"
  using sync_keeps [OF store serde inv [unfolded db_inv_def] room env ok] by (simp add: db_inv_def sync_batch_image [OF pages])

theorem sync_then_restore_witness:
  "\<exists>h db' s'. sync_inner mem_ops mem_codec mem_sqlite (example_sqlite_env h) mem_empty example_handle False = (Inr 1, db', s') \<and>
     db_inv mem_ops mem_codec mem_content mem_sqlite mem_bucket_ops s' [] db' \<and> dbh_image db' = image_apply db_image_default example_tx"
proof -
  obtain h db' s' where "\<forall>x \<ge> h. sync_inner mem_ops mem_codec mem_sqlite (example_sqlite_env x) mem_empty example_handle False = (Inr 1, db', s')"
    by (rule example_sync)
  then have ok: "sync_inner mem_ops mem_codec mem_sqlite (example_sqlite_env h) mem_empty example_handle False = (Inr 1, db', s')" by blast
  from sync_then_restore [OF mem_store.event_store_axioms mem_sq.sqlite_serde_axioms example_db_inv _ _ _ _ ok]
  have "db_inv mem_ops mem_codec mem_content mem_sqlite mem_bucket_ops s' [] db' \<and> dbh_image db' = image_apply db_image_default example_tx"
    by (simp add: captured_by_def example_capture)
  with ok show ?thesis by blast
qed

text \<open>C7: a checkpoint keeps the database: after one that returns a record, a restore gives the same file, byte for
  byte, from the published segments alone, with nothing pending and the same tail, whether or not the segments were
  coalesced and the covered events purged; and the manifest stays within the coalescing limit.\<close>

theorem checkpoint_then_restore:
  assumes store: "event_store B content writes base C" and serde: "sqlite_serde Q" and bk: "bucket K objects"
    and inv: "db_inv B C content Q K s b db" and room: "log_room C (content s) (dbh_name db)"
    and env: "ulids_ok (append_env E 0)" "others (append_env E 0) s = s" "\<And>x. others (publish_env E) x = x"
      "opt_purge opts \<Longrightarrow> \<forall>k x. others (purge_env E k) x = x"
    and fresh: "\<And>m. manifest_of B C Q s (dbh_name db) = Inr m \<Longrightarrow> fresh_paths K objects b (dbh_name db) (object_ids E) m"
    and ok: "checkpoint_with B C Q K E opts s b db = Some (Inr (Some rec), db', s', b')"
  shows "\<exists>i m. restore_impl B C Q K s' b' (dbh_name db) = Some (Inr (i, dbh_pending db', dbh_tail db')) \<and>
     to_bytes i = to_bytes (dbh_image db') \<and> im_txid i = im_txid (dbh_image db') \<and>
     dbh_pending db' = ltx_builder_default \<and> dbh_tail db' = Some (comp_through_version rec) \<and>
     manifest_of B C Q s' (dbh_name db) = Inr m \<and> length (mf_segments m) \<le> max 1 (coalesce_at opts)"
proof -
  obtain i m where im: "db_at B C content Q K s' b' db' i" "same_file i (foldl image_apply (dbh_image db) (captured_by E db))"
    "dbh_image db' = foldl image_apply (dbh_image db) (captured_by E db)" "dbh_name db' = dbh_name db"
    "dbh_pending db' = ltx_builder_default" "dbh_tail db' = Some (comp_through_version rec)"
    "manifest_of B C Q s' (dbh_name db) = Inr m" "length (mf_segments m) \<le> max 1 (coalesce_at opts)"
    by (rule sqlite_checkpoint_keeps [OF store serde bk inv [unfolded db_inv_def] room env fresh ok])
  have same: "same_file i (dbh_image db')" using im(2,3) by simp
  then have "im_txid i = im_txid (dbh_image db')" by (simp add: same_file_def)
  with db_atD(2) [OF im(1)] im(4-8) to_bytes_same_file [OF same] show ?thesis by auto
qed

theorem checkpoint_then_restore_witness:
  "\<exists>h rec db' s' b' i. checkpoint_with mem_ops mem_codec mem_sqlite mem_bucket_ops (example_sqlite_env h) checkpoint_opts_default mem_empty [] example_handle =
       Some (Inr (Some rec), db', s', b') \<and>
     restore_impl mem_ops mem_codec mem_sqlite mem_bucket_ops s' b' ''a'' = Some (Inr (i, dbh_pending db', dbh_tail db')) \<and>
     to_bytes i = to_bytes (dbh_image db')"
proof -
  obtain h rec db' s' b' where ok: "checkpoint_with mem_ops mem_codec mem_sqlite mem_bucket_ops (example_sqlite_env h) checkpoint_opts_default mem_empty [] example_handle =
       Some (Inr (Some rec), db', s', b')" by (rule example_checkpoint)
  have fresh: "fresh_paths mem_bucket_ops map_of [] ''a'' show_nat m"
    if "manifest_of mem_ops mem_codec mem_sqlite mem_empty ''a'' = Inr m" for m
    using that by (auto simp: manifest_of_def mem_latest_none manifest_default_def fresh_paths_def keeps_segments_def new_paths_def Let_def
        mem_bucket_ops_def show_nat.simps digit_def)
  from checkpoint_then_restore [OF mem_store.event_store_axioms mem_sq.sqlite_serde_axioms mem_bk.bucket_axioms example_db_inv _ _ _ _ _ _ ok] fresh
  obtain i where "restore_impl mem_ops mem_codec mem_sqlite mem_bucket_ops s' b' ''a'' = Some (Inr (i, dbh_pending db', dbh_tail db'))"
    "to_bytes i = to_bytes (dbh_image db')"
    by (auto simp: checkpoint_opts_default_def ulids_ok_def mem_env_def)
  with ok show ?thesis by blast
qed

text \<open>An upload that fails during a checkpoint loses what was pending: the builder has been emptied before the
  upload, so the error leaves a handle whose image is unchanged and whose pending part is empty; while nothing new is
  written, every later checkpoint is a no-op, and the last manifest still does not cover the stream.\<close>

theorem checkpoint_upload_failure:
  assumes synced: "sync B C Q E s db = (Inr n, db1, s1)" and tail: "dbh_tail db1 = Some v"
    and man: "manifest_of B C Q s1 (dbh_name db1) = Inr m" and pend: "into_ltx (dbh_pending db1) = Some l"
    and failed: "put_ltx Q K b (dbh_name db1) (object_ids E 0) l = (Inl e, b1)"
  shows "\<exists>db'. checkpoint_with B C Q K E opts s b db = Some (Inl e, db', s1, b1) \<and>
     dbh_image db' = dbh_image db1 \<and> dbh_tail db' = dbh_tail db1 \<and> into_ltx (dbh_pending db') = None \<and>
     (\<forall>E' b'. wal_open E' = Inr None \<longrightarrow> checkpoint_with B C Q K E' opts s1 b' db' = Some (Inr None, db', s1, b'))"
proof -
  let ?db = "db1\<lparr>dbh_pending := ltx_builder_default\<rparr>"
  have empty: "into_ltx ltx_builder_default = None" by (simp add: into_ltx_def ltx_builder_default_def)
  have "checkpoint_with B C Q K E opts s b db = Some (Inl e, ?db, s1, b1)"
    using assms by (simp add: checkpoint_with_def Let_def flip: manifest_of_def)
  moreover have "checkpoint_with B C Q K E' opts s1 b' ?db = Some (Inr None, ?db, s1, b')" if "wal_open E' = Inr None" for E' b'
    using that tail man by (simp add: checkpoint_with_def sync_def sync_inner_def empty flip: manifest_of_def)
  ultimately show ?thesis using empty by (intro exI [of _ ?db]) simp
qed

theorem checkpoint_upload_failure_witness:
  "\<exists>h s1 db' e. checkpoint_with mem_ops mem_codec mem_sqlite (mem_bucket_ops\<lparr>bk_put := \<lambda>b p d. (Inl ''unavailable'', b)\<rparr>)
       (example_sqlite_env h) checkpoint_opts_default mem_empty [] example_handle = Some (Inl e, db', s1, []) \<and>
     dbh_tail db' \<noteq> None \<and> into_ltx (dbh_pending db') = None"
proof -
  let ?K = "mem_bucket_ops\<lparr>bk_put := \<lambda>b p d. (Inl ''unavailable'', b)\<rparr>"
  obtain h db1 s1 v where s1: "\<forall>x \<ge> h. sync_inner mem_ops mem_codec mem_sqlite (example_sqlite_env x) mem_empty example_handle False = (Inr 1, db1, s1)"
    "dbh_pending db1 = builder_apply ltx_builder_default example_tx" "dbh_tail db1 = Some v" "dbh_name db1 = ''a''"
    "latest_snapshot mem_ops mem_codec s1 ''a'' = Inr None" by (rule example_sync)
  obtain l where l: "into_ltx (dbh_pending db1) = Some l"
    by (simp add: s1(2) into_ltx_def builder_apply_def ltx_builder_default_def)
  obtain d where d: "pack mem_sqlite (bin_ltx mem_sqlite) l = Inr d" by (rule mem_sq.pack_ltx)
  have put: "put_ltx mem_sqlite ?K [] (dbh_name db1) (object_ids (example_sqlite_env h) 0) l = (Inl (bucket_io ''unavailable''), [])"
    by (simp add: put_ltx_def d)
  have man: "manifest_of mem_ops mem_codec mem_sqlite s1 (dbh_name db1) = Inr manifest_default"
    by (simp add: manifest_of_def s1(4,5))
  have "sync mem_ops mem_codec mem_sqlite (example_sqlite_env h) mem_empty example_handle = (Inr 1, db1, s1)"
    using s1(1) by (simp add: sync_def)
  from checkpoint_upload_failure [OF this s1(3) man l put, of checkpoint_opts_default] s1(3) show ?thesis by fastforce
qed

text \<open>A sync whose durability barrier fails cannot be retried: its transactions are in the stream although the
  sync returned an error and the handle kept its image, its pending part and its tail; every later sync of the handle
  replicates nothing, because its expected version is behind the stream for good.\<close>

theorem sync_barrier_failure:
  assumes store: "event_store B content writes base C" and inv: "db_inv B C content Q K s b db"
    and room: "log_room C (content s) (dbh_name db)" and env: "ulids_ok (append_env E 0)" "others (append_env E 0) s = s"
    and wal: "wal_open E = Inr (Some f)" "wal_read E = None" "wal_capture f (dbh_cursor db) (im_txid (dbh_image db)) = Some (cur, captured, nxt)"
    and ne: "captured \<noteq> []" and enc: "encode_deltas Q (sync_batch coalesce captured) = Inr evs" "evs \<noteq> []" "check_batch evs = Inr ()"
    and fence: "fence_of (content s) (dbh_name db) \<in> {None, Some (dbh_token db)}"
    and closed: "barrier E = []"
  shows "\<exists>e db1 s1. sync_inner B C Q E s db coalesce = (Inl e, db1, s1) \<and>
     dbh_image db1 = dbh_image db \<and> dbh_pending db1 = dbh_pending db \<and> dbh_tail db1 = dbh_tail db \<and>
     current_version C (content s1) (dbh_name db) = Some (next_version C (content s) (dbh_name db) + length evs - 1) \<and>
     (\<forall>E' coalesce' n db2 s2. ulids_ok (append_env E' 0) \<and> others (append_env E' 0) s1 = s1 \<and> log_room C (content s1) (dbh_name db) \<and>
        sync_inner B C Q E' s1 db1 coalesce' = (Inr n, db2, s2) \<longrightarrow> n = 0)"
proof -
  let ?p = "dbh_name db"
  have i: "log_ok C (content s) ?p" "dbh_tail db = current_version C (content s) ?p" using inv by (simp_all add: db_inv_def db_at_def)
  obtain ticket s1 where run: "sync_inner B C Q E s db coalesce =
     (case await_durable (barrier E) ticket of
        Inl e \<Rightarrow> (Inl e, db\<lparr>dbh_cursor := cur\<rparr>, s1)
      | Inr _ \<Rightarrow> (Inr (length captured), db\<lparr>dbh_tail := Some (last_version (tk_info ticket)),
                  dbh_image := foldl image_apply (dbh_image db) (sync_batch coalesce captured),
                  dbh_pending := foldl builder_apply (dbh_pending db) (sync_batch coalesce captured),
                  dbh_cursor := cur\<lparr>cur_frame := nxt\<rparr>\<rparr>, s1))"
    and c: "commit_appends B C (append_env E) s ?p (expected_of (dbh_tail db)) None (Some (dbh_token db)) evs False = (Inr ticket, s1)"
    by (rule sync_commits [OF store inv room env wal ne enc fence])
  let ?db1 = "db\<lparr>dbh_cursor := cur\<rparr>"
  have failed: "\<exists>e. sync_inner B C Q E s db coalesce = (Inl e, ?db1, s1)"
    using run closed by (simp add: await_durable_def await_seq_def)
  note a = event_store.append_log [OF store i(1) env(1) log_room_append [OF room enc(3)] env(2) c]
  note sc = event_store.axioms(2) [OF store]
  have cv: "current_version C (content s1) ?p = Some (next_version C (content s) ?p + length evs - 1)"
    unfolding a(1) by (rule serde_codec.append_map_version [OF sc log_okD(3) [OF i(1)] a(2)])
  have log1: "log_ok C (content s1) ?p"
    unfolding a(1) by (rule serde_codec.log_ok_append [OF sc i(1) env(1) log_room_append [OF room enc(3)] a(2)])
  have behind: "\<not> version_matches (expected_of (dbh_tail db)) (current_version C (content s1) ?p)"
  proof (cases "dbh_tail db")
    case (Some v)
    then have "next_version C (content s) ?p = v + 1" using i(2) [symmetric] by (simp add: next_version_def)
    with enc(2) show ?thesis by (simp add: Some expected_of_def cv)
  qed (simp add: expected_of_def cv)
  have "n = 0" if "ulids_ok (append_env E' 0)" "others (append_env E' 0) s1 = s1" "log_room C (content s1) ?p"
    "sync_inner B C Q E' s1 ?db1 coalesce' = (Inr n, db2, s2)" for E' coalesce' n db2 s2
    using that(4)
  proof (cases rule: sync_ok_cases)
    case (appended g cur' captured' nxt' evs' ticket')
    have c': "commit_appends B C (append_env E') s1 ?p (expected_of (dbh_tail db)) None (Some (dbh_token db)) evs' False = (Inr ticket', s2)"
      using appended(6) by simp
    from event_store.append_log(3) [OF store log1 that(1) log_room_append [OF that(3) commit_appends_batch [OF c']] that(2) c'] behind
    show ?thesis by simp
  qed
  with failed cv show ?thesis by fastforce
qed

theorem sync_barrier_failure_witness:
  "\<exists>e db1 s1. sync_inner mem_ops mem_codec mem_sqlite ((example_sqlite_env 0)\<lparr>barrier := []\<rparr>) mem_empty example_handle False = (Inl e, db1, s1) \<and>
     dbh_tail db1 = None \<and> current_version mem_codec (mem_content s1) ''a'' \<noteq> None"
proof -
  obtain evs where evs: "encode_deltas mem_sqlite (sync_batch False [example_tx]) = Inr evs" "evs \<noteq> []" "check_batch evs = Inr ()"
    by (rule example_encode)
  from sync_barrier_failure [OF mem_store.event_store_axioms example_db_inv, of "(example_sqlite_env 0)\<lparr>barrier := []\<rparr>" example_wal
      "cursor_at example_head 0" "[example_tx]" 1 False evs] evs
  show ?thesis by (auto simp: example_capture)
qed

end
