(* ===== verification/Sqlite_Runs.thy ===== *)
theory Sqlite_Runs
  imports Sqlite_Props
begin

text \<open>
  Whole runs of a SQLite handle: syncs, coalesced syncs and checkpoints in any order, with coalescing
  and purging. A checkpoint that coalesces drops the pages past the end of the file, so the image of a
  handle and the one a restore gives agree as files only. This is enough as long as a transaction that
  grows the file writes the new pages, which is what SQLite does: the pages a shrunken file left
  behind are then never seen again.
\<close>

section \<open>Images that are the same file\<close>

lemma same_file_trans [trans]: "same_file i j \<Longrightarrow> same_file j k \<Longrightarrow> same_file i k"
  by (auto simp: same_file_def)

text \<open>Every transaction that grows the file writes the pages it adds.\<close>

fun grows_written :: "u32 \<Rightarrow> delta list \<Rightarrow> bool" where
  "grows_written n [] = True"
| "grows_written n (d # ds) \<longleftrightarrow> {n<..d_db_size d} \<subseteq> fr_pgno ` set (d_pages d) \<and> grows_written (d_db_size d) ds"

lemma map_of_insert_frames:
  "map_of (insert_frames m fs) p = (if p \<in> fr_pgno ` set fs then map_of (rev (map (\<lambda>f. (fr_pgno f, fr_data f)) fs)) p else map_of m p)"
proof (cases "map_of (rev (map (\<lambda>f. (fr_pgno f, fr_data f)) fs)) p")
  case None
  then have "p \<notin> fr_pgno ` set fs" by (force simp: map_of_eq_None_iff image_image)
  with None show ?thesis by (simp add: insert_frames_extend map_of_bt_extend map_add_def)
next
  case (Some x)
  then have "p \<in> fr_pgno ` set fs" by (force dest: map_of_SomeD)
  with Some show ?thesis by (simp add: insert_frames_extend map_of_bt_extend map_add_def)
qed

lemma same_file_apply:
  assumes "same_file i j" "bt_ok (im_pages i)" "bt_ok (im_pages j)" "{im_db_size i<..d_db_size d} \<subseteq> fr_pgno ` set (d_pages d)"
  shows "same_file (image_apply i d) (image_apply j d)"
proof -
  let ?n = "im_db_size i"
  have "bt_retain (\<lambda>p. p \<le> ?n) (im_pages i) = bt_retain (\<lambda>p. p \<le> ?n) (im_pages j)" using assms(1) by (auto simp: same_file_def)
  then have old: "map_of (im_pages i) p = map_of (im_pages j) p" if "p \<le> ?n" for p using that by (metis map_of_bt_retain)
  have "bt_retain (\<lambda>p. p \<le> d_db_size d) (insert_frames (im_pages i) (d_pages d)) = bt_retain (\<lambda>p. p \<le> d_db_size d) (insert_frames (im_pages j) (d_pages d))"
  proof (rule bt_eqI)
    show "map_of (bt_retain (\<lambda>p. p \<le> d_db_size d) (insert_frames (im_pages i) (d_pages d))) =
        map_of (bt_retain (\<lambda>p. p \<le> d_db_size d) (insert_frames (im_pages j) (d_pages d)))"
    proof
      fix p
      have "map_of (insert_frames (im_pages i) (d_pages d)) p = map_of (insert_frames (im_pages j) (d_pages d)) p" if "p \<le> d_db_size d"
        using that old [of p] subsetD [OF assms(4), of p] by (cases "p \<le> ?n") (simp_all add: map_of_insert_frames)
      then show "map_of (bt_retain (\<lambda>p. p \<le> d_db_size d) (insert_frames (im_pages i) (d_pages d))) p =
          map_of (bt_retain (\<lambda>p. p \<le> d_db_size d) (insert_frames (im_pages j) (d_pages d))) p" by simp
    qed
  qed (simp_all add: assms(2,3))
  then show ?thesis by (simp add: same_file_def image_apply_def)
qed

lemma same_file_fold:
  "same_file i j \<Longrightarrow> bt_ok (im_pages i) \<Longrightarrow> bt_ok (im_pages j) \<Longrightarrow> grows_written (im_db_size j) ds \<Longrightarrow>
   same_file (foldl image_apply i ds) (foldl image_apply j ds) \<and> bt_ok (im_pages (foldl image_apply j ds))"
proof (induction ds arbitrary: i j)
  case (Cons d ds)
  have "im_db_size i = im_db_size j" using Cons.prems(1) by (simp add: same_file_def)
  with Cons.prems have "same_file (image_apply i d) (image_apply j d)" by (intro same_file_apply) simp_all
  with Cons.IH [of "image_apply i d" "image_apply j d"] Cons.prems show ?case by (simp add: image_apply_def)
qed simp

lemma restore_impl_pages: "restore_impl B C Q K s b p = Some (Inr (i, pend, tail)) \<Longrightarrow> bt_ok (im_pages i)"
proof (erule restore_impl_parts)
  fix snap i0 start through lv assume base: "restore_base Q K b snap = Inr (i0, start, through)"
    and fold: "store_fold B C s p (Included start, Unbounded) (i0, ltx_builder_default, None) (restore_step Q) = Some (Inr ((i, pend, None), lv))"
  obtain es where "foldl (restore_step Q) (i0, ltx_builder_default, None) es = (i, pend, None)" by (rule fold_of_store_fold [OF fold])
  then obtain ds where ds: "i = foldl image_apply i0 ds" using restore_step_deltas by blast
  have "bt_ok (im_pages i0)"
    using base by (cases snap) (auto simp: restore_base_def bind_res_eq_Inr load_ltxs_ok db_image_default_def)
  then show "bt_ok (im_pages i)" unfolding ds by (rule sqlite_ckpt.good_fold) (simp add: list_all_iff)
qed

section \<open>Runs\<close>

datatype 's db_op = SyncOp bool "'s sqlite_env" | CheckpointOp checkpoint_opts "'s sqlite_env"

text \<open>One operation that returns, with the transactions it captured.\<close>

fun db_do ::
  "('s, 't) slatedb_ops \<Rightarrow> codec \<Rightarrow> sqlite_codec \<Rightarrow> 'b bucket_ops \<Rightarrow> 's db_op \<Rightarrow> 's \<times> 'b \<times> db_handle \<Rightarrow> (delta list \<times> 's \<times> 'b \<times> db_handle) option" where
  "db_do B C Q K (SyncOp coalesce E) (s, b, db) =
     (case sync_inner B C Q E s db coalesce of
        (Inr _, db', s') \<Rightarrow> Some (captured_by E db, s', b, db')
      | _ \<Rightarrow> None)"
| "db_do B C Q K (CheckpointOp opts E) (s, b, db) =
     (case checkpoint_with B C Q K E opts s b db of
        Some (Inr _, db', s', b') \<Rightarrow> Some (captured_by E db, s', b', db')
      | _ \<Rightarrow> None)"

text \<open>What an operation takes from outside: it is the only writer of its stream, its object names are
  new, and SQLite writes the pages it adds.\<close>

fun op_env :: "'s db_op \<Rightarrow> 's sqlite_env" where
  "op_env (SyncOp _ E) = E"
| "op_env (CheckpointOp _ E) = E"

definition op_quiet :: "codec \<Rightarrow> ('s \<Rightarrow> kv_map) \<Rightarrow> 's db_op \<Rightarrow> 's \<times> 'b \<times> db_handle \<Rightarrow> bool" where
  "op_quiet C content x w \<longleftrightarrow> (case w of (s, b, db) \<Rightarrow> log_room C (content s) (dbh_name db) \<and> ulids_ok (append_env (op_env x) 0) \<and>
     others (append_env (op_env x) 0) s = s \<and> grows_written (im_db_size (dbh_image db)) (captured_by (op_env x) db))"

definition op_fresh ::
  "('s, 't) slatedb_ops \<Rightarrow> codec \<Rightarrow> sqlite_codec \<Rightarrow> 'b bucket_ops \<Rightarrow> ('b \<Rightarrow> string \<Rightarrow> bytes option) \<Rightarrow> 's db_op \<Rightarrow> 's \<times> 'b \<times> db_handle \<Rightarrow> bool" where
  "op_fresh B C Q K objects x w \<longleftrightarrow> (case (x, w) of
       (SyncOp _ _, _) \<Rightarrow> True
     | (CheckpointOp _ E, s, b, db) \<Rightarrow> (\<forall>k y. others (publish_env E) y = y \<and> others (purge_env E k) y = y) \<and>
         (\<forall>m. manifest_of B C Q s (dbh_name db) = Inr m \<longrightarrow> new_paths K objects b (dbh_name db) (object_ids E) m))"

inductive db_run for B C Q K content objects where
  idle: "db_run B C Q K content objects w [] w"
| step: "db_run B C Q K content objects w ds w1 \<Longrightarrow> op_quiet C content x w1 \<Longrightarrow> op_fresh B C Q K objects x w1 \<Longrightarrow>
    db_do B C Q K x w1 = Some (ds', w2) \<Longrightarrow> db_run B C Q K content objects w (ds @ ds') w2"

lemma db_run_trans:
  "db_run B C Q K content objects w1 ds' w2 \<Longrightarrow> db_run B C Q K content objects w ds w1 \<Longrightarrow> db_run B C Q K content objects w (ds @ ds') w2"
  by (induction rule: db_run.induct) (auto simp flip: append_assoc intro: db_run.step)

text \<open>A sequence of operations whose conditions hold where each of them starts.\<close>

fun ops_ok ::
  "('s, 't) slatedb_ops \<Rightarrow> codec \<Rightarrow> sqlite_codec \<Rightarrow> 'b bucket_ops \<Rightarrow> ('s \<Rightarrow> kv_map) \<Rightarrow> ('b \<Rightarrow> string \<Rightarrow> bytes option) \<Rightarrow>
   's db_op list \<Rightarrow> 's \<times> 'b \<times> db_handle \<Rightarrow> bool" where
  "ops_ok B C Q K content objects [] w = True"
| "ops_ok B C Q K content objects (x # xs) w \<longleftrightarrow> op_quiet C content x w \<and> op_fresh B C Q K objects x w \<and>
     (case db_do B C Q K x w of None \<Rightarrow> True | Some (_, w') \<Rightarrow> ops_ok B C Q K content objects xs w')"

text \<open>The stream of the handle holds its file, and its manifest keeps its segments.\<close>

definition db_kept ::
  "('s, 't) slatedb_ops \<Rightarrow> codec \<Rightarrow> ('s \<Rightarrow> kv_map) \<Rightarrow> sqlite_codec \<Rightarrow> 'b bucket_ops \<Rightarrow> 's \<times> 'b \<times> db_handle \<Rightarrow> bool" where
  "db_kept B C content Q K w \<longleftrightarrow> (case w of (s, b, db) \<Rightarrow> \<exists>i m. db_at B C content Q K s b db i \<and> same_file i (dbh_image db) \<and>
     bt_ok (im_pages (dbh_image db)) \<and> manifest_of B C Q s (dbh_name db) = Inr m \<and> keeps_segments K m \<and>
     next_version C (content s) (dbh_name db) < VMAX)"

lemma db_keptE:
  assumes "db_kept B C content Q K (s, b, db)"
  obtains i m where "db_at B C content Q K s b db i" "same_file i (dbh_image db)" "bt_ok (im_pages (dbh_image db))"
    "bt_ok (im_pages i)" "manifest_of B C Q s (dbh_name db) = Inr m" "keeps_segments K m" "next_version C (content s) (dbh_name db) < VMAX"
proof -
  obtain i m where "db_at B C content Q K s b db i" "same_file i (dbh_image db)" "bt_ok (im_pages (dbh_image db))"
    "manifest_of B C Q s (dbh_name db) = Inr m" "keeps_segments K m" "next_version C (content s) (dbh_name db) < VMAX" using assms by (auto simp: db_kept_def)
  with that restore_impl_pages [OF db_atD(2) [OF this(1)]] show ?thesis by blast
qed

lemma manifest_of_cong: "latest_snapshot B C s' p = latest_snapshot B C s p \<Longrightarrow> manifest_of B C Q s' p = manifest_of B C Q s p"
  by (simp add: manifest_of_def)

lemma sync_kept:
  assumes store: "event_store B content writes base C" and serde: "sqlite_serde Q"
    and kept: "db_kept B C content Q K (s, b, db)" and quiet: "op_quiet C content (SyncOp coalesce E) (s, b, db)"
    and ok: "sync_inner B C Q E s db coalesce = (Inr n, db', s')"
  shows "db_kept B C content Q K (s', b, db')" "dbh_image db' = foldl image_apply (dbh_image db) (captured_by E db)"
    "dbh_name db' = dbh_name db"
proof -
  have q: "log_room C (content s) (dbh_name db)" "ulids_ok (append_env E 0)" "others (append_env E 0) s = s"
    "grows_written (im_db_size (dbh_image db)) (captured_by E db)" using quiet by (simp_all add: op_quiet_def)
  show "db_kept B C content Q K (s', b, db')" "dbh_image db' = foldl image_apply (dbh_image db) (captured_by E db)"
    "dbh_name db' = dbh_name db"
    using kept
  proof (atomize (full), rule db_keptE)
    fix i m assume im: "db_at B C content Q K s b db i" "same_file i (dbh_image db)" "bt_ok (im_pages (dbh_image db))"
      "bt_ok (im_pages i)" "manifest_of B C Q s (dbh_name db) = Inr m" "keeps_segments K m"
    note sk = sync_keeps [OF store serde im(1) q(1-3) ok, unfolded sync_batch_image [OF im(3)] sync_batch_image [OF im(4)]]
    from sk(1,2,4,6) same_file_fold [OF im(2,4,3) q(4)] im(5,6) manifest_of_cong [OF sk(7), of Q]
    show "db_kept B C content Q K (s', b, db') \<and> dbh_image db' = foldl image_apply (dbh_image db) (captured_by E db) \<and>
      dbh_name db' = dbh_name db" by (auto simp: db_kept_def)
  qed
qed

lemma checkpoint_none:
  assumes "checkpoint_with B C Q K E opts s b db = Some (Inr None, db', s', b')"
  obtains n where "sync_inner B C Q E s db False = (Inr n, db', s')" "b' = b"
  using assms
  by (auto simp: checkpoint_with_def sync_def publish_manifest_def Let_def bind_res_eq_Inr
      split: prod.splits sum.splits option.splits)

lemma checkpoint_kept:
  assumes store: "event_store B content writes base C" and serde: "sqlite_serde Q" and bk: "bucket K objects"
    and kept: "db_kept B C content Q K (s, b, db)" and quiet: "op_quiet C content (CheckpointOp opts E) (s, b, db)"
    and fresh: "op_fresh B C Q K objects (CheckpointOp opts E) (s, b, db)"
    and ok: "checkpoint_with B C Q K E opts s b db = Some (Inr r, db', s', b')"
  shows "db_kept B C content Q K (s', b', db') \<and> dbh_image db' = foldl image_apply (dbh_image db) (captured_by E db) \<and>
    dbh_name db' = dbh_name db"
proof (cases r)
  case None
  obtain n where sync: "sync_inner B C Q E s db False = (Inr n, db', s')" "b' = b"
    by (rule checkpoint_none [OF ok [unfolded None]])
  have "op_quiet C content (SyncOp False E) (s, b, db)" using quiet by (simp add: op_quiet_def)
  from sync_kept [OF store serde kept this sync(1)] sync(2) show ?thesis by simp
next
  case (Some rec)
  have q: "log_room C (content s) (dbh_name db)" "ulids_ok (append_env E 0)" "others (append_env E 0) s = s"
    "grows_written (im_db_size (dbh_image db)) (captured_by E db)" using quiet by (simp_all add: op_quiet_def)
  have f: "\<And>y. others (publish_env E) y = y" "\<forall>k y. others (purge_env E k) y = y"
    "\<And>m. manifest_of B C Q s (dbh_name db) = Inr m \<Longrightarrow> new_paths K objects b (dbh_name db) (object_ids E) m"
    using fresh by (simp_all add: op_fresh_def)
  obtain i m where im: "db_at B C content Q K s b db i" "same_file i (dbh_image db)" "bt_ok (im_pages (dbh_image db))"
      "bt_ok (im_pages i)" "manifest_of B C Q s (dbh_name db) = Inr m" "keeps_segments K m" by (rule db_keptE [OF kept])
  have paths: "fresh_paths K objects b (dbh_name db) (object_ids E) m'" if "manifest_of B C Q s (dbh_name db) = Inr m'" for m'
    using that f(3) im(5,6) by (simp add: fresh_paths_def)
  note sf = same_file_fold [OF im(2,4,3) q(4)]
  show ?thesis
  proof (rule sqlite_checkpoint_keeps [OF store serde bk im(1) q(1-3) f(1) f(2) paths ok [unfolded Some]])
    fix i' m' assume ck: "db_at B C content Q K s' b' db' i'" "same_file i' (foldl image_apply i (captured_by E db))"
      "dbh_image db' = foldl image_apply (dbh_image db) (captured_by E db)" "dbh_name db' = dbh_name db"
      "manifest_of B C Q s' (dbh_name db) = Inr m'" "keeps_segments K m'" "next_version C (content s') (dbh_name db) < VMAX"
    have "same_file i' (dbh_image db')" using same_file_trans [OF ck(2)] sf by (simp add: ck(3))
    with ck sf show ?thesis by (auto simp: db_kept_def)
  qed
qed

lemma db_do_kept:
  assumes "event_store B content writes base C" "sqlite_serde Q" "bucket K objects"
    "db_kept B C content Q K (s, b, db)" "op_quiet C content x (s, b, db)" "op_fresh B C Q K objects x (s, b, db)"
    "db_do B C Q K x (s, b, db) = Some (ds, s', b', db')"
  shows "db_kept B C content Q K (s', b', db') \<and> dbh_image db' = foldl image_apply (dbh_image db) ds \<and> dbh_name db' = dbh_name db"
proof (cases x)
  case (SyncOp coalesce E)
  with assms(7) obtain n where n: "sync_inner B C Q E s db coalesce = (Inr n, db', s')" "ds = captured_by E db" "b' = b"
    by (auto split: prod.splits sum.splits)
  from sync_kept [OF assms(1,2,4) assms(5) [unfolded SyncOp] n(1)] show ?thesis by (simp add: n(2,3))
next
  case (CheckpointOp opts E)
  with assms(7) obtain r where r: "checkpoint_with B C Q K E opts s b db = Some (Inr r, db', s', b')" "ds = captured_by E db"
    by (auto split: prod.splits sum.splits option.splits)
  from checkpoint_kept [OF assms(1-4) assms(5,6) [unfolded CheckpointOp] r(1)] show ?thesis by (simp add: r(2))
qed

lemma db_run_kept:
  assumes "event_store B content writes base C" "sqlite_serde Q" "bucket K objects"
    and "db_run B C Q K content objects w ds w'" "db_kept B C content Q K w" "w = (s, b, db)" "w' = (s', b', db')"
  shows "db_kept B C content Q K (s', b', db') \<and> dbh_image db' = foldl image_apply (dbh_image db) ds \<and> dbh_name db' = dbh_name db"
  using assms(4-7)
proof (induction arbitrary: s' b' db')
  case (step w ds w1 x ds' w2)
  obtain s1 b1 db1 where w1: "w1 = (s1, b1, db1)" by (cases w1)
  note k = step.IH [OF step.prems(1,2) w1]
  from db_do_kept [OF assms(1-3) conjunct1 [OF k] step.hyps(2-4) [unfolded w1 step.prems(3)]] k show ?case by simp
qed simp

section \<open>Opening\<close>

lemma db_at_cong:
  assumes store: "event_store B content writes base C" and inv: "db_at B C content Q K s b db i"
    and nv: "next_version C (content s) (dbh_name db) < VMAX"
    and log: "log_ok C (content s') (dbh_name db)" and snap: "latest_snapshot B C s' (dbh_name db) = latest_snapshot B C s (dbh_name db)"
    and cv: "current_version C (content s') (dbh_name db) = current_version C (content s) (dbh_name db)"
    and lin: "\<And>lo hi es. lineage C (content s) (dbh_name db) lo hi es \<Longrightarrow> lineage C (content s') (dbh_name db) lo hi es"
  shows "db_at B C content Q K s' b db i"
proof -
  let ?p = "dbh_name db"
  note at = db_atD [OF inv]
  obtain snap i0 start through lv where parts: "latest_snapshot B C s ?p = Inr snap" "restore_base Q K b snap = Inr (i0, start, through)"
    "store_fold B C s ?p (Included start, Unbounded) (i0, ltx_builder_default, None) (restore_step Q) =
       Some (Inr ((i, dbh_pending db, None), lv))" "dbh_tail db = (case lv of Some v \<Rightarrow> Some v | None \<Rightarrow> through)"
    using at(2) by (rule restore_impl_parts)
  have start: "start < VMAX"
    by (rule restore_base_start [OF parts(2)]; use at(4) parts(1) nv in \<open>auto simp: snap_within_def\<close>)
  have "store_fold B C s' ?p (Included start, Unbounded) (i0, ltx_builder_default, None) (restore_step Q) =
     store_fold B C s ?p (Included start, Unbounded) (i0, ltx_builder_default, None) (restore_step Q)"
  proof (rule event_store.fold_log [OF store at(1) start])
    fix es assume es: "lineage C (content s) ?p start None es"
      "store_fold B C s ?p (Included start, Unbounded) (i0, ltx_builder_default, None) (restore_step Q) =
         Some (Inr (foldl (restore_step Q) (i0, ltx_builder_default, None) (map event_from_parts es), last_event_version (map event_from_parts es)))"
    from event_store.store_fold_lineage [OF store log_okD(2,1,3) [OF log] start lin [OF es(1)]] es(2) show ?thesis by simp
  qed
  with restore_impl_eq [OF _ parts(2), of B C s' ?p] parts(1,3,4) snap
  have "restore_impl B C Q K s' b ?p = Some (Inr (i, dbh_pending db, dbh_tail db))" by simp
  moreover have "snap_within B C s' ?p (next_version C (content s') ?p)"
    using at(4) snap cv by (simp add: snap_within_def next_version_def)
  ultimately show ?thesis using log cv at(3) by (simp add: db_at_def)
qed

text \<open>A second handle of the store, opened when the first is done, restores the same.\<close>

lemma db_at_reopened:
  assumes "event_store B content writes base C" "db_at B C content Q K s b db i" "next_version C (content s) (dbh_name db) < VMAX" "content s' = content s"
  shows "db_at B C content Q K s' b db i"
proof (rule db_at_cong [OF assms(1-3)])
  show "latest_snapshot B C s' (dbh_name db) = latest_snapshot B C s (dbh_name db)"
    by (rule event_store.latest_snapshot_cong [OF assms(1)]) (simp add: assms(4))
qed (use db_atD(1) [OF assms(2)] in \<open>simp_all add: assms(4)\<close>)

lemma open_kept:
  assumes store: "event_store B content writes base C" and inv: "db_at B C content Q K s b db0 i" "db_kept B C content Q K (s, b, db0)"
    and quiet: "others E s = s"
    and ok: "open_db B C Q K E fence_first local_result token s b (dbh_name db0) = Some (Inr db, s')"
  shows "db_kept B C content Q K (s', b, db)" "dbh_image db = i" "dbh_name db = dbh_name db0"
proof -
  let ?p = "dbh_name db0"
  obtain r s1 where f: "fence B C E s ?p (Some token) = (r, s1)" by (cases "fence B C E s ?p (Some token)")
  note fl = event_store.fence_log [OF store db_atD(1) [OF inv(1)] quiet f]
  obtain m where m: "manifest_of B C Q s ?p = Inr m" "keeps_segments K m" and nv: "next_version C (content s) ?p < VMAX"
    by (rule db_keptE [OF inv(2)])
  note at = db_atD [OF inv(1)] and at1 = db_at_cong [OF store inv(1) nv fl(1-3) fl(5)]
  have "s' = s1 \<and> db = \<lparr>dbh_name = ?p, dbh_token = token, dbh_image = i, dbh_tail = dbh_tail db0, dbh_cursor = wal_cursor_default, dbh_pending = dbh_pending db0\<rparr>"
    using ok by (cases r; cases fence_first) (auto simp: open_db_def f db_atD(2) [OF at1] at(2) bind_res_eq_Inr split: option.splits)
  moreover have "next_version C (content s1) ?p < VMAX" using nv fl(3) by (simp add: next_version_def)
  ultimately show "db_kept B C content Q K (s', b, db)" "dbh_image db = i" "dbh_name db = ?p"
    using m at1 restore_impl_pages [OF at(2)] manifest_of_cong [OF fl(2), of Q] by (auto simp: db_kept_def db_at_def)
qed

text \<open>A name that no stream has yet.\<close>

lemma new_stream_at:
  assumes "event_store B content writes base C" "log_ok C (content s) name" "next_version C (content s) name = 0"
    "latest_snapshot B C s name = Inr None"
  shows "db_at B C content Q K s b \<lparr>dbh_name = name, dbh_token = token, dbh_image = db_image_default, dbh_tail = None,
      dbh_cursor = wal_cursor_default, dbh_pending = ltx_builder_default\<rparr> db_image_default" (is ?at)
    "db_kept B C content Q K (s, b, \<lparr>dbh_name = name, dbh_token = token, dbh_image = db_image_default, dbh_tail = None,
      dbh_cursor = wal_cursor_default, dbh_pending = ltx_builder_default\<rparr>)"
proof -
  have "store_fold B C s name (Included 0, Unbounded) a f = Some (Inr (a, None))" for a :: "db_image \<times> ltx_builder \<times> error option" and f
    using event_store.fold_past_tail [OF assms(1,2), of a f] assms(3) by simp
  moreover have "current_version C (content s) name = None" using assms(3) by (auto simp: next_version_def split: option.splits)
  ultimately show ?at
    using assms(2,4) by (simp add: db_at_def restore_impl_def restore_base_def snap_within_def)
  then show "db_kept B C content Q K (s, b, \<lparr>dbh_name = name, dbh_token = token, dbh_image = db_image_default, dbh_tail = None,
      dbh_cursor = wal_cursor_default, dbh_pending = ltx_builder_default\<rparr>)"
    using assms(3,4) by (auto simp: db_kept_def manifest_of_def manifest_default_def keeps_segments_def db_image_default_def)
qed

section \<open>Properties\<close>

text \<open>C8: any run of syncs, coalesced syncs and checkpoints, with coalescing and purging, keeps the database: at its end
  a restore returns, and its image has the bytes, the last transaction and the tail of the handle, whose image is the
  one it started with and every captured transaction applied in order.\<close>

theorem db_run_restores:
  assumes store: "event_store B content writes base C" and serde: "sqlite_serde Q" and bk: "bucket K objects"
    and kept: "db_kept B C content Q K (s, b, db)" and run: "db_run B C Q K content objects (s, b, db) ds (s', b', db')"
  shows "\<exists>i. restore B C Q K s' b' (dbh_name db) = Some (Inr (i, dbh_tail db')) \<and> to_bytes i = to_bytes (dbh_image db') \<and>
     im_txid i = im_txid (dbh_image db') \<and> dbh_image db' = foldl image_apply (dbh_image db) ds"
proof -
  have k: "db_kept B C content Q K (s', b', db')" "dbh_image db' = foldl image_apply (dbh_image db) ds" "dbh_name db' = dbh_name db"
    using db_run_kept [OF store serde bk run kept] by simp_all
  obtain i where i: "db_at B C content Q K s' b' db' i" "same_file i (dbh_image db')" by (rule db_keptE [OF k(1)])
  have "im_txid i = im_txid (dbh_image db')" using i(2) by (simp add: same_file_def)
  with db_atD(2) [OF i(1)] to_bytes_same_file [OF i(2)] k(2,3) show ?thesis by (auto simp: restore_def)
qed

theorem db_run_restores_witness:
  "\<exists>h db' s' b' i. db_run mem_ops mem_codec mem_sqlite mem_bucket_ops mem_content map_of (mem_empty, [], example_handle) [example_tx] (s', b', db') \<and>
     db_do mem_ops mem_codec mem_sqlite mem_bucket_ops (CheckpointOp checkpoint_opts_default (example_sqlite_env h)) (mem_empty, [], example_handle) =
       Some ([example_tx], s', b', db') \<and>
     restore mem_ops mem_codec mem_sqlite mem_bucket_ops s' b' ''a'' = Some (Inr (i, dbh_tail db')) \<and> to_bytes i = to_bytes (dbh_image db')"
proof -
  obtain h rec db' s' b' where ok: "checkpoint_with mem_ops mem_codec mem_sqlite mem_bucket_ops (example_sqlite_env h) checkpoint_opts_default mem_empty [] example_handle =
       Some (Inr (Some rec), db', s', b')" by (rule example_checkpoint)
  let ?x = "CheckpointOp checkpoint_opts_default (example_sqlite_env h)" and ?w = "(mem_empty, [], example_handle)"
  have cap: "captured_by (example_sqlite_env h) example_handle = [example_tx]" by (simp add: captured_by_def example_capture)
  have do: "db_do mem_ops mem_codec mem_sqlite mem_bucket_ops ?x ?w = Some ([example_tx], s', b', db')" by (simp add: ok cap)
  have "op_quiet mem_codec mem_content ?x ?w"
    by (auto simp: op_quiet_def cap db_image_default_def example_tx_def ulids_ok_def mem_env_def)
  moreover have "op_fresh mem_ops mem_codec mem_sqlite mem_bucket_ops map_of ?x ?w"
    by (auto simp: op_fresh_def manifest_of_def mem_latest_none manifest_default_def new_paths_def Let_def
        mem_bucket_ops_def show_nat.simps digit_def example_sqlite_env_def mem_env_def)
  ultimately have run: "db_run mem_ops mem_codec mem_sqlite mem_bucket_ops mem_content map_of ?w [example_tx] (s', b', db')"
    using db_run.step [OF db_run.idle _ _ do] by simp
  have "db_kept mem_ops mem_codec mem_content mem_sqlite mem_bucket_ops ?w"
    using example_db_inv by (auto simp: db_kept_def db_inv_def manifest_of_def mem_latest_none manifest_default_def keeps_segments_def)
  from db_run_restores [OF mem_store.event_store_axioms mem_sq.sqlite_serde_axioms mem_bk.bucket_axioms this run]
  obtain i where "restore mem_ops mem_codec mem_sqlite mem_bucket_ops s' b' ''a'' = Some (Inr (i, dbh_tail db'))" "to_bytes i = to_bytes (dbh_image db')"
    by auto
  with run do show ?thesis by blast
qed

end
