(* ===== verification/Sqlite_Churn.thy ===== *)
theory Sqlite_Churn
  imports Program Sqlite_Runs "HOL-Library.Word"
begin

text \<open>
  The example \<open>landslide-sqlite/examples/churn.rs\<close>: the settings profiles, the backend, the key
  generator at its 64-bit width, the loop of transactions, syncs and checkpoints, and the restore that
  \<open>main\<close> compares with the handle at its end. SQLite is the part of \<open>churn_env\<close> that says what the
  statements so far make a call see; the elapsed times are texts. The generator never reaches the zero
  state from which it could not leave, and a run that ends well prints that the restored database has
  the bytes of the handle.
\<close>

unbundle bit_operations_syntax

section \<open>Settings and backend\<close>

type_synonym statement = "i64 \<times> string"

record ('s, 'b) churn_env =
  cv_var :: "string \<Rightarrow> string option"
  cv_s3 :: "string \<Rightarrow> string + 'b"
  cv_create_dir :: "string \<Rightarrow> string + unit"
  cv_local :: "string \<Rightarrow> string + 'b"
  cv_tempdir :: "string + unit"
  cv_ulid :: string
  cv_stock :: slate_settings
  cv_build :: "string \<Rightarrow> 'b \<Rightarrow> slate_settings \<Rightarrow> slate_error + 's"
  cv_reopen :: "'s \<Rightarrow> string \<Rightarrow> 'b \<Rightarrow> slate_settings \<Rightarrow> slate_error + 's"
  cv_open :: "'s env"
  cv_fence_first :: bool
  cv_local_result :: "error option"
  cv_token :: string
  cv_create_table :: "string + unit"
  cv_insert :: "statement list \<Rightarrow> statement \<Rightarrow> string + unit"
  cv_sync :: "nat \<Rightarrow> statement list \<Rightarrow> 's sqlite_env"
  cv_checkpoint :: "nat \<Rightarrow> statement list \<Rightarrow> 's sqlite_env"
  cv_elapsed :: "string \<Rightarrow> nat \<Rightarrow> string"

definition settings_for_profile :: "slate_settings \<Rightarrow> string \<Rightarrow> slate_settings option res" where
  "settings_for_profile stock profile =
     (if profile = ''default'' then Inr None
      else if profile = ''fastflush'' then Inr (Some (stock\<lparr>flush_interval := Some 10\<rparr>))
      else if profile = ''compact'' then Inr (Some (stock\<lparr>flush_interval := Some 10, l0_sst_size_bytes := 256 * 1024\<rparr>))
      else if profile = ''compact4mb'' then Inr (Some (stock\<lparr>flush_interval := Some 10, l0_sst_size_bytes := 4 * 1024 * 1024\<rparr>))
      else Inl (Panicked (''unknown LANDSLIDE_CHURN_PROFILE '' @ quoted profile @ '' (default|fastflush|compact)'')))"

definition churn_backend :: "('s, 'b) churn_env \<Rightarrow> (string \<times> 'b) res" where
  "churn_backend E =
     (case cv_var E ''LANDSLIDE_TEST_BUCKET'' of
        Some bucket_name \<Rightarrow> bind_res (expect_ok ''s3 client'' (cv_s3 E bucket_name)) (\<lambda>s3. Inr (''s3'', s3))
      | None \<Rightarrow>
          let dir = var_or (cv_var E) ''LANDSLIDE_BUCKET_DIR'' ''/tmp/landslide-churn-bucket'' in
          bind_res (expect_ok ''unwrap of Err'' (cv_create_dir E dir)) (\<lambda>_.
          bind_res (expect_ok ''unwrap of Err'' (cv_local E dir)) (\<lambda>fs. Inr (''local'', fs))))"

definition churn_config :: "('s, 'b) churn_env \<Rightarrow> string \<Rightarrow> 'b \<Rightarrow> string \<Rightarrow> ('b, unit) config res" where
  "churn_config E backend objects profile =
     bind_res (settings_for_profile (cv_stock E) profile) (\<lambda>settings.
       Inr \<lparr>cf_path = ''churn/'' @ backend @ ''-'' @ profile, cf_object_store = objects, cf_settings = settings\<rparr>)"

definition env_usize :: "(string \<Rightarrow> string option) \<Rightarrow> string \<Rightarrow> u64 \<Rightarrow> u64" where
  "env_usize var key fallback = parse_or fallback (var key)"

section \<open>Keys and values\<close>

text \<open>The state of the generator after a step; a key space of no keys is a panic.\<close>

definition next_rng :: "64 word \<Rightarrow> 64 word" where
  "next_rng rng =
     (let a = rng XOR drop_bit 12 rng;
          b = a XOR push_bit 25 a
      in b XOR drop_bit 27 b)"

definition next_key :: "64 word \<Rightarrow> u64 \<Rightarrow> (u64 \<times> 64 word) res" where
  "next_key rng keys =
     (if keys = 0 then Inl (Panicked ''attempt to calculate the remainder with a divisor of zero'')
      else Inr (unat (next_rng rng * 0x2545F4914F6CDD1D) mod keys, next_rng rng))"

text \<open>\<open>{:08x}\<close>.\<close>

fun show_hex :: "nat \<Rightarrow> string" where
  "show_hex n = (if n < 16 then [hex_digit n] else show_hex (n div 16) @ [hex_digit (n mod 16)])"

declare show_hex.simps [simp del]

definition churn_value :: "u64 \<Rightarrow> string" where
  "churn_value k = ''v-'' @ replicate (8 - length (show_hex k)) CHR ''0'' @ show_hex k @ ''-'' @ replicate 200 CHR ''x''"

definition churn_statement :: "u64 \<Rightarrow> statement" where
  "churn_statement k = (wrap_i64 (int k), churn_value k)"

section \<open>The run\<close>

definition sample_line :: "('s, 'b) churn_env \<Rightarrow> string \<Rightarrow> string \<Rightarrow> nat \<Rightarrow> u64 \<Rightarrow> u64 \<Rightarrow> string" where
  "sample_line E label phase rnd txns nbytes =
     ''SAMPLE,'' @ label @ '','' @ phase @ '','' @ show_nat rnd @ '','' @ show_nat txns @ '','' @ show_nat nbytes @ '','' @ cv_elapsed E phase rnd"

type_synonym ('s, 'b) churn_world = "'s \<times> 'b \<times> db_handle \<times> statement list"

fun churn_txns :: "('s, 'b) churn_env \<Rightarrow> u64 \<Rightarrow> nat \<Rightarrow> 64 word \<Rightarrow> (('s, 'b) churn_world, 64 word) prog" where
  "churn_txns E keys 0 rng = ret rng"
| "churn_txns E keys (Suc n) rng =
     and_then (attempt (next_key rng keys)) (\<lambda>(k, rng').
     and_then (call (\<lambda>(s, b, db, st). (expect_ok ''unwrap of Err'' (cv_insert E st (churn_statement k)), s, b, db, st @ [churn_statement k]))) (\<lambda>_.
       churn_txns E keys n rng'))"

definition churn_opts :: checkpoint_opts where
  "churn_opts = \<lparr>coalesce_at = 3, opt_purge = True\<rparr>"

text \<open>\<open>round % ckpt_every == ckpt_every - 1\<close>.\<close>

definition checkpoint_due :: "u64 \<Rightarrow> u64 \<Rightarrow> bool res" where
  "checkpoint_due rnd every =
     (if every = 0 then Inl (Panicked ''attempt to calculate the remainder with a divisor of zero'')
      else Inr (rnd mod every = every - 1))"

fun churn_rounds ::
  "('s, 't) slatedb_ops \<Rightarrow> codec \<Rightarrow> sqlite_codec \<Rightarrow> 'b bucket_ops \<Rightarrow> ('s, 'b) churn_env \<Rightarrow> string \<Rightarrow> u64 \<Rightarrow> u64 \<Rightarrow> u64 \<Rightarrow>
   nat list \<Rightarrow> 64 word \<Rightarrow> (('s, 'b) churn_world, unit) prog" where
  "churn_rounds B C Q K E label txns keys every [] rng = ret ()"
| "churn_rounds B C Q K E label txns keys every (r # rs) rng =
     and_then (churn_txns E keys txns rng) (\<lambda>rng'.
     and_then (println (sample_line E label ''write'' r txns (txns * 215 mod 2 ^ 64))) (\<lambda>_.
     and_then (call (\<lambda>(s, b, db, st). case sync B C Q (cv_sync E r st) s db of (x, db', s') \<Rightarrow> (x, s', b, db', st))) (\<lambda>_.
     and_then (println (sample_line E label ''sync'' r txns (txns * 215 mod 2 ^ 64))) (\<lambda>_.
     and_then (attempt (checkpoint_due r every)) (\<lambda>due.
     and_then (if due then
           and_then (call_opt (\<lambda>(s, b, db, st). map_option (\<lambda>(x, db', s', b'). (x, s', b', db', st))
               (checkpoint_with B C Q K (cv_checkpoint E r st) churn_opts s b db))) (\<lambda>_.
             println (sample_line E label ''checkpoint'' r 0 0))
         else ret ()) (\<lambda>_.
       churn_rounds B C Q K E label txns keys every rs rng'))))))"

text \<open>The end of the run: a second store handle, the restore, and the comparison.\<close>

definition show_bool :: "bool \<Rightarrow> string" where
  "show_bool x = (if x then ''true'' else ''false'')"

definition churn_hydrate ::
  "('s, 't) slatedb_ops \<Rightarrow> codec \<Rightarrow> sqlite_codec \<Rightarrow> 'b bucket_ops \<Rightarrow> ('s, 'b) churn_env \<Rightarrow> ('b, unit) config \<Rightarrow> string \<Rightarrow> string \<Rightarrow>
   (('s, 'b) churn_world, unit) prog" where
  "churn_hydrate B C Q K E cfg label name =
     and_then (query (\<lambda>(_, _, db, _). bind_res (to_bytes (dbh_image db)) (\<lambda>bytes. Inr (im_txid (dbh_image db), bytes)))) (\<lambda>(txid, image_bytes).
     and_then (call (\<lambda>(s, b, db, st). case store_open (cv_reopen E s) (cv_stock E) cfg of
         Inl e \<Rightarrow> (Inl e, s, b, db, st)
       | Inr s2 \<Rightarrow> (Inr (), s2, b, db, st))) (\<lambda>_.
     and_then (println (sample_line E label ''open_fresh'' 0 0 0)) (\<lambda>_.
     and_then (query_opt (\<lambda>(s, b, _, _). restore B C Q K s b name)) (\<lambda>(img, _).
     and_then (println (sample_line E label ''hydrate'' 0 0 (length (im_pages img) * 4096 mod 2 ^ 64))) (\<lambda>_.
     and_then (attempt (to_bytes img)) (\<lambda>bytes.
       println (''VERIFY,txid,'' @ show_nat txid @ '',restored_txid,'' @ show_nat (im_txid img) @ '',byte_equal,'' @
         show_bool (bytes = image_bytes))))))))"

definition churn_body ::
  "('s, 't) slatedb_ops \<Rightarrow> codec \<Rightarrow> sqlite_codec \<Rightarrow> 'b bucket_ops \<Rightarrow> ('s, 'b) churn_env \<Rightarrow> ('b, unit) config \<Rightarrow> string \<Rightarrow> string \<Rightarrow>
   (('s, 'b) churn_world, unit) prog" where
  "churn_body B C Q K E cfg label name =
     (let rounds = env_usize (cv_var E) ''LANDSLIDE_CHURN_ROUNDS'' 30;
          txns = env_usize (cv_var E) ''LANDSLIDE_CHURN_TXNS'' 150;
          keys = env_usize (cv_var E) ''LANDSLIDE_CHURN_KEYS'' 500;
          every = env_usize (cv_var E) ''LANDSLIDE_CHURN_CKPT_EVERY'' 2 in
      and_then (attempt (expect_ok ''unwrap of Err'' (cv_create_table E))) (\<lambda>_.
      and_then (churn_rounds B C Q K E label txns keys every [0..<rounds] 0x9E3779B97F4A7C15) (\<lambda>_.
      and_then (churn_hydrate B C Q K E cfg label name) (\<lambda>_.
        eprintln (''['' @ label @ ''] name='' @ name @ '' done: '' @ show_nat rounds @ '' rounds x '' @ show_nat txns @ '' txns'')))))"

text \<open>What \<open>main\<close> sets up before it opens the database: the label, the bucket, the configuration and the store.\<close>

definition churn_start :: "('s, 'b) churn_env \<Rightarrow> (string \<times> 'b \<times> ('b, unit) config \<times> 's) res" where
  "churn_start E =
     (let profile = var_or (cv_var E) ''LANDSLIDE_CHURN_PROFILE'' ''default'' in
      bind_res (churn_backend E) (\<lambda>(backend, objects).
      bind_res (expect_ok ''unwrap of Err'' (cv_tempdir E)) (\<lambda>_.
      bind_res (churn_config E backend objects profile) (\<lambda>cfg.
      bind_res (store_open (cv_build E) (cv_stock E) cfg) (\<lambda>s. Inr (backend @ ''-'' @ profile, objects, cfg, s))))))"

definition churn_name :: "('s, 'b) churn_env \<Rightarrow> string" where
  "churn_name E = ''churn-'' @ cv_ulid E"

definition sqlite_churn_main ::
  "('s, 't) slatedb_ops \<Rightarrow> codec \<Rightarrow> sqlite_codec \<Rightarrow> 'b bucket_ops \<Rightarrow> ('s, 'b) churn_env \<Rightarrow>
   ((stop + unit) \<times> line list \<times> ('s \<times> 'b) option) option" where
  "sqlite_churn_main B C Q K E =
     (case churn_start E of
        Inl e \<Rightarrow> Some (Inl (Raised e), [], None)
      | Inr (label, objects, cfg, s) \<Rightarrow>
          (case open_db B C Q K (cv_open E) (cv_fence_first E) (cv_local_result E) (cv_token E) s objects (churn_name E) of
             None \<Rightarrow> None
           | Some (Inl e, s1) \<Rightarrow> Some (Inl (Raised e), [Stdout (sample_line E label ''open'' 0 0 0)], Some (s1, objects))
           | Some (Inr db, s1) \<Rightarrow>
               map_option (\<lambda>(r, out, s', b', _). (r, Stdout (sample_line E label ''open'' 0 0 0) # out, Some (s', b')))
                 (churn_body B C Q K E cfg label (churn_name E) (s1, objects, db, []))))"

section \<open>The key generator\<close>

lemma xor_zero: "x XOR y = 0 \<Longrightarrow> x = (y :: 64 word)"
  by (auto simp: bit_eq_iff bit_xor_iff)

lemma xor_shift_right: "n \<noteq> 0 \<Longrightarrow> x XOR drop_bit n x = 0 \<Longrightarrow> x = (0 :: 64 word)"
proof -
  assume n: "n \<noteq> 0" and "x XOR drop_bit n x = 0"
  then have "x = drop_bit n x" by (auto dest: xor_zero)
  then have "unat x = unat x div 2 ^ n" by (metis unat_drop_bit_eq drop_bit_eq_div)
  moreover have "1 < (2 :: nat) ^ n" using n by (intro one_less_power) simp_all
  then have "unat x div 2 ^ n < unat x" if "unat x \<noteq> 0" using that by (intro div_less_dividend) simp_all
  ultimately have "unat x = 0" by (metis less_irrefl)
  then show "x = 0" by (simp add: unat_eq_0)
qed

lemma xor_shift_left: "n \<noteq> 0 \<Longrightarrow> x XOR push_bit n x = 0 \<Longrightarrow> x = (0 :: 64 word)"
proof -
  assume n: "n \<noteq> 0" and "x XOR push_bit n x = 0"
  then have x: "x = push_bit n x" by (auto dest: xor_zero)
  have "\<not> bit x k" for k
  proof (induction k rule: less_induct)
    case (less k)
    have "bit x k \<longleftrightarrow> bit (push_bit n x) k" using x by simp
    with less [of "k - n"] n show ?case by (auto simp: bit_push_bit_iff)
  qed
  then show "x = 0" by (simp add: bit_eq_iff)
qed

text \<open>The generator is never stuck: from a state other than zero it never reaches zero. Its keys are keys.\<close>

theorem next_rng_nonzero: "rng \<noteq> 0 \<Longrightarrow> next_rng rng \<noteq> 0"
  using xor_shift_right [of 12 rng] xor_shift_left [of 25 "rng XOR drop_bit 12 rng"]
    xor_shift_right [of 27 "(rng XOR drop_bit 12 rng) XOR push_bit 25 (rng XOR drop_bit 12 rng)"]
  by (auto simp: next_rng_def Let_def)

theorem next_key_below: "next_key rng keys = Inr (k, rng') \<Longrightarrow> k < keys \<and> rng' = next_rng rng"
  by (auto simp: next_key_def split: if_splits)

text \<open>Values of keys below \<open>2 ^ 32\<close> all have the same length.\<close>

lemma show_hex_length: "n < 16 ^ Suc w \<Longrightarrow> length (show_hex n) \<le> Suc w"
proof (induction w arbitrary: n)
  case (Suc w)
  then have "n div 16 < 16 ^ Suc w" by (simp add: less_mult_imp_div_less)
  from Suc.IH [OF this] show ?case by (simp add: show_hex.simps [of n])
qed (simp add: show_hex.simps)

theorem churn_value_length: "k < 2 ^ 32 \<Longrightarrow> length (churn_value k) = 211"
  using show_hex_length [of k 7] by (simp add: churn_value_def)

section \<open>The run as operations of the handle\<close>

fun churn_batch :: "u64 \<Rightarrow> nat \<Rightarrow> 64 word \<Rightarrow> statement list \<times> 64 word" where
  "churn_batch keys 0 rng = ([], rng)"
| "churn_batch keys (Suc n) rng =
     apfst (Cons (churn_statement (unat (next_rng rng * 0x2545F4914F6CDD1D) mod keys))) (churn_batch keys n (next_rng rng))"

fun churn_ops :: "('s, 'b) churn_env \<Rightarrow> u64 \<Rightarrow> u64 \<Rightarrow> u64 \<Rightarrow> nat list \<Rightarrow> 64 word \<Rightarrow> statement list \<Rightarrow> 's db_op list" where
  "churn_ops E txns keys every [] rng st = []"
| "churn_ops E txns keys every (r # rs) rng st =
     (let st' = st @ fst (churn_batch keys txns rng) in
      SyncOp False (cv_sync E r st') #
      (if r mod every = every - 1 then [CheckpointOp churn_opts (cv_checkpoint E r st')] else []) @
      churn_ops E txns keys every rs (snd (churn_batch keys txns rng)) st')"

lemma churn_txns_batch:
  assumes "churn_txns E keys n rng (s, b, db, st) = Some (Inr rng', out, w)"
  shows "w = (s, b, db, st @ fst (churn_batch keys n rng)) \<and> rng' = snd (churn_batch keys n rng)"
  using assms
proof (induction n arbitrary: rng st out)
  case (Suc n)
  from Suc.prems obtain k r o2 where k: "next_key rng keys = Inr (k, r)"
    and rest: "churn_txns E keys n r (s, b, db, st @ [churn_statement k]) = Some (Inr rng', o2, w)"
    by (auto elim!: and_then_InrE simp: attempt_def call_def expect_ok_def split: prod.splits sum.splits)
  have "r = next_rng rng" "k = unat (next_rng rng * 0x2545F4914F6CDD1D) mod keys" using k by (auto simp: next_key_def split: if_splits)
  with Suc.IH [OF rest] show ?case by simp
qed (simp add: ret_def)

lemma churn_rounds_run:
  assumes "churn_rounds B C Q K E label txns keys every rs rng (s, b, db, st) = Some (Inr (), out, w)"
    and "ops_ok B C Q K content objects (churn_ops E txns keys every rs rng st) (s, b, db)"
  shows "\<exists>s' b' db' st' ds. w = (s', b', db', st') \<and> db_run B C Q K content objects (s, b, db) ds (s', b', db')"
  using assms
proof (induction rs arbitrary: rng s b db st out)
  case Nil
  then show ?case by (auto simp: ret_def intro!: exI [of _ "[]"] db_run.idle)
next
  case (Cons r rs)
  let ?st = "st @ fst (churn_batch keys txns rng)" and ?rng = "snd (churn_batch keys txns rng)"
  obtain rng' o1 w1 o2 where t: "churn_txns E keys txns rng (s, b, db, st) = Some (Inr rng', o1, w1)"
    and body: "and_then (println (sample_line E label ''write'' r txns (txns * 215 mod 2 ^ 64))) (\<lambda>_.
     and_then (call (\<lambda>(s, b, db, st). case sync B C Q (cv_sync E r st) s db of (x, db', s') \<Rightarrow> (x, s', b, db', st))) (\<lambda>_.
     and_then (println (sample_line E label ''sync'' r txns (txns * 215 mod 2 ^ 64))) (\<lambda>_.
     and_then (attempt (checkpoint_due r every)) (\<lambda>due.
     and_then (if due then
           and_then (call_opt (\<lambda>(s, b, db, st). map_option (\<lambda>(x, db', s', b'). (x, s', b', db', st))
               (checkpoint_with B C Q K (cv_checkpoint E r st) churn_opts s b db))) (\<lambda>_.
             println (sample_line E label ''checkpoint'' r 0 0))
         else ret ()) (\<lambda>_.
       churn_rounds B C Q K E label txns keys every rs rng'))))) w1 = Some (Inr (), o2, w)"
    using Cons.prems(1) unfolding churn_rounds.simps by (rule and_then_InrE)
  have w1: "w1 = (s, b, db, ?st)" "rng' = ?rng" using churn_txns_batch [OF t] by simp_all
  let ?rest = "\<lambda>w'. \<exists>o'. churn_rounds B C Q K E label txns keys every rs ?rng w' = Some (Inr (), o', w)"
  have "\<exists>n db1 s1. sync_inner B C Q (cv_sync E r ?st) s db False = (Inr n, db1, s1) \<and>
    (if r mod every = every - 1
     then \<exists>x db2 s2 b2. checkpoint_with B C Q K (cv_checkpoint E r ?st) churn_opts s1 b db1 = Some (Inr x, db2, s2, b2) \<and> ?rest (s2, b2, db2, ?st)
     else ?rest (s1, b, db1, ?st))"
    using body unfolding w1
    by (auto elim!: and_then_InrE simp: println_def call_def call_opt_def ret_def attempt_def checkpoint_due_def sync_def split: prod.splits sum.splits if_splits)
  then obtain n db1 s1 where sync: "sync_inner B C Q (cv_sync E r ?st) s db False = (Inr n, db1, s1)"
    and tl: "if r mod every = every - 1
     then \<exists>x db2 s2 b2. checkpoint_with B C Q K (cv_checkpoint E r ?st) churn_opts s1 b db1 = Some (Inr x, db2, s2, b2) \<and> ?rest (s2, b2, db2, ?st)
     else ?rest (s1, b, db1, ?st)" by blast
  have x1: "db_do B C Q K (SyncOp False (cv_sync E r ?st)) (s, b, db) = Some (captured_by (cv_sync E r ?st) db, s1, b, db1)"
    using sync by simp
  from Cons.prems(2) have q1: "op_quiet C content (SyncOp False (cv_sync E r ?st)) (s, b, db)"
      "op_fresh B C Q K objects (SyncOp False (cv_sync E r ?st)) (s, b, db)"
    and ok1: "ops_ok B C Q K content objects ((if r mod every = every - 1 then [CheckpointOp churn_opts (cv_checkpoint E r ?st)] else []) @
      churn_ops E txns keys every rs ?rng ?st) (s1, b, db1)"
    using x1 by (simp_all add: Let_def)
  note run1 = db_run.step [OF db_run.idle q1 x1]
  show ?case
  proof (cases "r mod every = every - 1")
    case True
    with tl obtain x db2 s2 b2 o' where ck: "checkpoint_with B C Q K (cv_checkpoint E r ?st) churn_opts s1 b db1 = Some (Inr x, db2, s2, b2)"
      and rest: "churn_rounds B C Q K E label txns keys every rs ?rng (s2, b2, db2, ?st) = Some (Inr (), o', w)" by auto
    have x2: "db_do B C Q K (CheckpointOp churn_opts (cv_checkpoint E r ?st)) (s1, b, db1) = Some (captured_by (cv_checkpoint E r ?st) db1, s2, b2, db2)"
      using ck by simp
    have q2: "op_quiet C content (CheckpointOp churn_opts (cv_checkpoint E r ?st)) (s1, b, db1)"
      "op_fresh B C Q K objects (CheckpointOp churn_opts (cv_checkpoint E r ?st)) (s1, b, db1)"
      and ok2: "ops_ok B C Q K content objects (churn_ops E txns keys every rs ?rng ?st) (s2, b2, db2)"
      using ok1 True x2 by simp_all
    from Cons.IH [OF rest ok2] db_run_trans [OF _ db_run.step [OF run1 q2 x2]] show ?thesis by blast
  next
    case False
    with tl obtain o' where rest: "churn_rounds B C Q K E label txns keys every rs ?rng (s1, b, db1, ?st) = Some (Inr (), o', w)" by auto
    from Cons.IH [OF rest] ok1 False db_run_trans [OF _ run1] show ?thesis by fastforce
  qed
qed

section \<open>The verification line\<close>

text \<open>\<open>VERIFY\<close> with the same transaction twice and equal bytes.\<close>

definition verified :: "u64 \<Rightarrow> line" where
  "verified txid = Stdout (''VERIFY,txid,'' @ show_nat txid @ '',restored_txid,'' @ show_nat txid @ '',byte_equal,true'')"

lemma churn_hydrate_verifies:
  assumes store: "event_store B content writes base C" and kept: "db_kept B C content Q K (s, b, db)" and name: "name = dbh_name db"
    and reopen: "\<And>p c st s2. cv_reopen E s p c st = Inr s2 \<Longrightarrow> content s2 = content s"
    and ok: "churn_hydrate B C Q K E cfg label name (s, b, db, st) = Some (Inr (), out, w)"
  shows "verified (im_txid (dbh_image db)) \<in> set out"
proof -
  obtain i where i: "db_at B C content Q K s b db i" "same_file i (dbh_image db)" "next_version C (content s) (dbh_name db) < VMAX"
    by (rule db_keptE [OF kept])
  have "restore B C Q K s2 b name = Some (Inr (i, dbh_tail db))" if "store_open (cv_reopen E s) (cv_stock E) cfg = Inr s2" for s2
  proof -
    have "content s2 = content s" using that reopen by (auto simp: store_open_def map_err_def split: sum.splits option.splits)
    from db_at_reopened [OF store i(1,3) this] show ?thesis by (simp add: restore_def name db_at_def)
  qed
  moreover have "to_bytes i = to_bytes (dbh_image db)" "im_txid i = im_txid (dbh_image db)"
    using to_bytes_same_file [OF i(2)] i(2) by (simp_all add: same_file_def)
  ultimately show ?thesis
    using ok unfolding churn_hydrate_def
    by (auto elim!: and_then_InrE simp: query_def query_opt_def call_def println_def attempt_def bind_res_eq_Inr map_err_def verified_def show_bool_def
        split: sum.splits prod.splits)
qed

text \<open>A run of the example that ends well prints that the database it restored has the last transaction and the
  bytes of the handle, whatever the numbers of rounds, transactions, keys and checkpoints: when the stream is new, the
  run is its only writer, the object names are new, SQLite writes the pages it adds, and a database opened again is
  the one that was left.\<close>

theorem churn_verifies:
  assumes store: "event_store B content writes base C" and serde: "sqlite_serde Q" and bk: "bucket K objects"
    and new: "\<And>label b cfg s. churn_start E = Inr (label, b, cfg, s) \<Longrightarrow> log_ok C (content s) (churn_name E) \<and>
      next_version C (content s) (churn_name E) = 0 \<and> latest_snapshot B C s (churn_name E) = Inr None"
    and alone: "\<And>s. others (cv_open E) s = s"
    and ops: "\<And>label b cfg s db s1. churn_start E = Inr (label, b, cfg, s) \<Longrightarrow>
      open_db B C Q K (cv_open E) (cv_fence_first E) (cv_local_result E) (cv_token E) s b (churn_name E) = Some (Inr db, s1) \<Longrightarrow>
      ops_ok B C Q K content objects (churn_ops E (env_usize (cv_var E) ''LANDSLIDE_CHURN_TXNS'' 150) (env_usize (cv_var E) ''LANDSLIDE_CHURN_KEYS'' 500)
        (env_usize (cv_var E) ''LANDSLIDE_CHURN_CKPT_EVERY'' 2) [0..<env_usize (cv_var E) ''LANDSLIDE_CHURN_ROUNDS'' 30] 0x9E3779B97F4A7C15 []) (s1, b, db)"
    and reopen: "\<And>s p c st s2. cv_reopen E s p c st = Inr s2 \<Longrightarrow> content s2 = content s"
    and ended: "sqlite_churn_main B C Q K E = Some (Inr (), out, w)"
  shows "\<exists>txid. verified txid \<in> set out"
proof -
  let ?name = "churn_name E"
  obtain label b cfg s where st: "churn_start E = Inr (label, b, cfg, s)"
    using ended by (cases "churn_start E") (auto simp: sqlite_churn_main_def)
  obtain r s1 where od: "open_db B C Q K (cv_open E) (cv_fence_first E) (cv_local_result E) (cv_token E) s b ?name = Some (r, s1)"
    using ended by (cases "open_db B C Q K (cv_open E) (cv_fence_first E) (cv_local_result E) (cv_token E) s b ?name")
      (auto simp: sqlite_churn_main_def st)
  obtain db where db: "r = Inr db" using ended by (cases r) (simp_all add: sqlite_churn_main_def st od)
  note opened = od [unfolded db]
  obtain out' w' where body: "churn_body B C Q K E cfg label ?name (s1, b, db, []) = Some (Inr (), out', w')" and sub: "set out' \<subseteq> set out"
    using ended by (fastforce simp: sqlite_churn_main_def st opened)
  from new [OF st] have fresh: "log_ok C (content s) ?name" "next_version C (content s) ?name = 0" "latest_snapshot B C s ?name = Inr None" by auto
  note at0 = new_stream_at [OF store fresh, where Q = Q and K = K and b = b and token = "cv_token E"]
  have kept: "db_kept B C content Q K (s1, b, db)" and nm: "dbh_name db = ?name"
    using open_kept [OF store at0 alone] opened by auto
  from body obtain o1 w1 o2 where rounds: "churn_rounds B C Q K E label (env_usize (cv_var E) ''LANDSLIDE_CHURN_TXNS'' 150)
      (env_usize (cv_var E) ''LANDSLIDE_CHURN_KEYS'' 500) (env_usize (cv_var E) ''LANDSLIDE_CHURN_CKPT_EVERY'' 2)
      [0..<env_usize (cv_var E) ''LANDSLIDE_CHURN_ROUNDS'' 30] 0x9E3779B97F4A7C15 (s1, b, db, []) = Some (Inr (), o1, w1)"
    and hyd: "\<exists>w2. churn_hydrate B C Q K E cfg label ?name w1 = Some (Inr (), o2, w2)" and sub': "\<forall>x \<in> set o2. x \<in> set out'"
    unfolding churn_body_def Let_def by (auto elim!: and_then_InrE simp: attempt_def eprintln_def)
  from churn_rounds_run [OF rounds ops [OF st opened]] obtain s2 b2 db2 st2 ds
    where w1: "w1 = (s2, b2, db2, st2)" and run: "db_run B C Q K content objects (s1, b, db) ds (s2, b2, db2)" by blast
  have end_kept: "db_kept B C content Q K (s2, b2, db2)" "?name = dbh_name db2"
    using db_run_kept [OF store serde bk run kept] nm by simp_all
  obtain w2 where "churn_hydrate B C Q K E cfg label ?name (s2, b2, db2, st2) = Some (Inr (), o2, w2)" using hyd w1 by blast
  from churn_hydrate_verifies [OF store end_kept _ this] reopen have "verified (im_txid (dbh_image db2)) \<in> set o2" .
  with sub sub' show ?thesis by blast
qed

section \<open>An example run\<close>

text \<open>One round of one transaction, whose log is the example's, on the in-memory engine.\<close>

definition example_churn_env :: "u64 \<Rightarrow> (mem_db, (string \<times> bytes) list) churn_env" where
  "example_churn_env h =
     \<lparr>cv_var = [''LANDSLIDE_CHURN_ROUNDS'' \<mapsto> ''1'', ''LANDSLIDE_CHURN_TXNS'' \<mapsto> ''1''],
      cv_s3 = (\<lambda>_. Inl ''no credentials''), cv_create_dir = (\<lambda>_. Inr ()), cv_local = (\<lambda>_. Inr []), cv_tempdir = Inr (), cv_ulid = ''1'',
      cv_stock = \<lparr>flush_interval = None, l0_sst_size_bytes = 0\<rparr>,
      cv_build = (\<lambda>_ _ _. Inr mem_empty), cv_reopen = (\<lambda>s _ _ _. Inr s),
      cv_open = (mem_env 0)\<lparr>watch := [\<lparr>durable_seq = h, close_reason = None\<rparr>]\<rparr>, cv_fence_first = True, cv_local_result = None, cv_token = ''t'',
      cv_create_table = Inr (), cv_insert = (\<lambda>_ _. Inr ()), cv_sync = (\<lambda>_ _. example_sqlite_env h), cv_checkpoint = (\<lambda>_ _. example_sqlite_env h),
      cv_elapsed = (\<lambda>_ _. ''0.000'')\<rparr>"

definition example_churn_db :: db_handle where
  "example_churn_db = \<lparr>dbh_name = ''churn-1'', dbh_token = ''t'', dbh_image = db_image_default, dbh_tail = None,
     dbh_cursor = wal_cursor_default, dbh_pending = ltx_builder_default\<rparr>"

lemma example_churn_simps [simp]:
  "cv_build (example_churn_env h) p b st = Inr mem_empty" "cv_reopen (example_churn_env h) s p b st = Inr s"
  "cv_sync (example_churn_env h) r sts = example_sqlite_env h" "churn_name (example_churn_env h) = ''churn-1''"
  "env_usize (cv_var (example_churn_env h)) ''LANDSLIDE_CHURN_ROUNDS'' 30 = 1" "env_usize (cv_var (example_churn_env h)) ''LANDSLIDE_CHURN_TXNS'' 150 = 1"
  "env_usize (cv_var (example_churn_env h)) ''LANDSLIDE_CHURN_KEYS'' 500 = 500" "env_usize (cv_var (example_churn_env h)) ''LANDSLIDE_CHURN_CKPT_EVERY'' 2 = 2"
  "cv_open (example_churn_env h) = (mem_env 0)\<lparr>watch := [\<lparr>durable_seq = h, close_reason = None\<rparr>]\<rparr>" "cv_fence_first (example_churn_env h)"
  "cv_local_result (example_churn_env h) = None" "cv_token (example_churn_env h) = ''t''" "cv_create_table (example_churn_env h) = Inr ()"
  "cv_insert (example_churn_env h) sts x = Inr ()" "dbh_name example_churn_db = ''churn-1''" "dbh_image example_churn_db = db_image_default"
  "dbh_cursor example_churn_db = wal_cursor_default" "dbh_token example_churn_db = ''t''" "dbh_tail example_churn_db = None"
  by (simp_all add: example_churn_env_def example_churn_db_def churn_name_def env_usize_def parse_or_def parse_u64_def is_digit_def dec_value_def digit_value_def)

lemma example_churn_start:
  "\<exists>label cfg. churn_start (example_churn_env h) = Inr (label, [], cfg, mem_empty)"
  by (simp add: churn_start_def churn_backend_def churn_config_def settings_for_profile_def store_open_def var_or_def expect_ok_def
      example_churn_env_def Let_def)

text \<open>Opening leaves the default handle on a stream with its fence.\<close>

lemma example_churn_opens:
  obtains k s1 where "\<forall>h \<ge> k. open_db mem_ops mem_codec mem_sqlite mem_bucket_ops (cv_open (example_churn_env h)) True None ''t'' mem_empty [] ''churn-1'' =
       Some (Inr example_churn_db, s1)"
    "db_at mem_ops mem_codec mem_content mem_sqlite mem_bucket_ops s1 [] example_churn_db db_image_default"
    "log_room mem_codec (mem_content s1) ''churn-1''" "fence_of (mem_content s1) ''churn-1'' = Some ''t''"
proof -
  have ok: "log_ok mem_codec (mem_content mem_empty) ''churn-1''" "next_version mem_codec (mem_content mem_empty) ''churn-1'' = 0"
    by (simp_all add: name_ok_def)
  note at0 = new_stream_at(1) [OF mem_store.event_store_axioms ok, where Q = mem_sqlite and K = mem_bucket_ops and b = "[]" and token = "''t''",
      folded example_churn_db_def]
  have at: "db_at mem_ops mem_codec mem_content mem_sqlite mem_bucket_ops mem_empty [] example_churn_db db_image_default"
    by (rule at0) (simp add: mem_latest_none)
  obtain k s1 where f: "\<forall>w. fence mem_ops mem_codec ((mem_env 0)\<lparr>watch := w\<rparr>) mem_empty ''churn-1'' (Some ''t'') =
      (bind_res (case k of None \<Rightarrow> Inr () | Some sq \<Rightarrow> await_seq w sq) (\<lambda>_. Inr (tail_commit_info (tail_of mem_codec (mem_content mem_empty) ''churn-1''))), s1)"
    and m: "mem_content s1 = fence_map (mem_content mem_empty) ''churn-1'' (Some ''t'')"
    by (rule mem_store.fence_watch [OF log_okD(1,3) [OF ok(1)] mem_env_ok(2)])
  have quiet: "others ((mem_env 0)\<lparr>watch := w\<rparr>) mem_empty = mem_empty" for w by (simp add: mem_env_def)
  note fl = mem_store.fence_log [OF ok(1) quiet f [rule_format]]
  have at1: "db_at mem_ops mem_codec mem_content mem_sqlite mem_bucket_ops s1 [] example_churn_db db_image_default"
    by (rule db_at_cong [OF mem_store.event_store_axioms at]) (use fl ok in simp_all)
  have pend: "dbh_pending example_churn_db = ltx_builder_default" by (simp add: example_churn_db_def)
  have "open_db mem_ops mem_codec mem_sqlite mem_bucket_ops (cv_open (example_churn_env h)) True None ''t'' mem_empty [] ''churn-1'' = Some (Inr example_churn_db, s1)"
    if "(case k of None \<Rightarrow> 0 | Some sq \<Rightarrow> sq) \<le> h" for h
    using f [rule_format, of "[\<lparr>durable_seq = h, close_reason = None\<rparr>]"] await_one [of "the k" h] that db_atD(2) [OF at1]
    by (cases k) (simp_all add: open_db_def pend example_churn_db_def to_bytes_def db_image_default_def)
  moreover have "log_room mem_codec (mem_content s1) ''churn-1''"
    using fl(3,4) by (simp add: log_room_def next_version_def MAX_BATCH_RECORDS_def)
  moreover have "fence_of (mem_content s1) ''churn-1'' = Some ''t''" by (simp add: m fence_map_def fence_of_def)
  ultimately show ?thesis using that at1 by blast
qed

text \<open>The sync of the round commits the transaction of the example's log.\<close>

lemma example_churn_sync:
  assumes at: "db_at mem_ops mem_codec mem_content mem_sqlite mem_bucket_ops s1 [] example_churn_db db_image_default"
    and room: "log_room mem_codec (mem_content s1) ''churn-1''" and fence: "fence_of (mem_content s1) ''churn-1'' = Some ''t''"
  obtains k db2 s2 where "\<forall>h \<ge> k. sync_inner mem_ops mem_codec mem_sqlite (example_sqlite_env h) s1 example_churn_db False = (Inr 1, db2, s2)"
    "dbh_image db2 = image_apply db_image_default example_tx"
    "restore mem_ops mem_codec mem_sqlite mem_bucket_ops s2 [] ''churn-1'' = Some (Inr (image_apply db_image_default example_tx, dbh_tail db2))"
proof -
  let ?db = example_churn_db
  have inv: "db_inv mem_ops mem_codec mem_content mem_sqlite mem_bucket_ops s1 [] ?db" using at by (simp add: db_inv_def)
  obtain evs where evs: "encode_deltas mem_sqlite (sync_batch False [example_tx]) = Inr evs" "evs \<noteq> []" "check_batch evs = Inr ()"
    by (rule example_encode)
  have "\<exists>ticket s2. commit_appends mem_ops mem_codec mem_env s1 ''churn-1'' NoStream None (Some ''t'') evs False = (Inr ticket, s2)"
    by (rule sync_commits [OF mem_store.event_store_axioms inv, of "example_sqlite_env 0" example_wal "cursor_at example_head 0" "[example_tx]" 1 False evs])
      (use evs room fence in \<open>auto simp: example_capture expected_of_def\<close>)
  then obtain ticket s2 where c: "commit_appends mem_ops mem_codec mem_env s1 ''churn-1'' NoStream None (Some ''t'') evs False = (Inr ticket, s2)" by blast
  let ?db2 = "?db\<lparr>dbh_tail := Some (last_version (tk_info ticket)), dbh_image := image_apply db_image_default example_tx,
      dbh_pending := builder_apply ltx_builder_default example_tx, dbh_cursor := (cursor_at example_head 0)\<lparr>cur_frame := 1\<rparr>\<rparr>"
  have sync: "sync_inner mem_ops mem_codec mem_sqlite (example_sqlite_env h) s1 ?db False = (Inr 1, ?db2, s2)" if "tk_seq ticket \<le> h" for h
  proof -
    have d: "await_durable [\<lparr>durable_seq = h, close_reason = None\<rparr>] ticket = Inr ()" using await_one [OF that] by (simp add: await_durable_def)
    have "dbh_pending ?db = ltx_builder_default" "sync_batch False [example_tx] = [example_tx]" by (simp_all add: example_churn_db_def sync_batch_def)
    with evs c d show ?thesis by (simp add: sync_inner_def sync_append_def example_capture append_with_token_lazy_def expected_of_def)
  qed
  note sk = sync_keeps [OF mem_store.event_store_axioms mem_sq.sqlite_serde_axioms at _ _ _ sync [OF order_refl]]
  have "db_at mem_ops mem_codec mem_content mem_sqlite mem_bucket_ops s2 [] ?db2 (image_apply db_image_default example_tx)"
    using sk(1) room by (simp add: captured_by_def example_capture sync_batch_def)
  from db_atD(2) [OF this] have "restore mem_ops mem_codec mem_sqlite mem_bucket_ops s2 [] ''churn-1'' =
      Some (Inr (image_apply db_image_default example_tx, dbh_tail ?db2))" by (simp add: restore_def)
  with sync show ?thesis by (intro that [of "tk_seq ticket" ?db2 s2]) simp_all
qed

theorem churn_verifies_witness:
  "\<exists>h out w txid. sqlite_churn_main mem_ops mem_codec mem_sqlite mem_bucket_ops (example_churn_env h) = Some (Inr (), out, w) \<and> verified txid \<in> set out"
proof -
  let ?E = example_churn_env and ?db = example_churn_db
  obtain k s1 where opened: "\<forall>h \<ge> k. open_db mem_ops mem_codec mem_sqlite mem_bucket_ops (cv_open (?E h)) True None ''t'' mem_empty [] ''churn-1'' = Some (Inr ?db, s1)"
    and at: "db_at mem_ops mem_codec mem_content mem_sqlite mem_bucket_ops s1 [] ?db db_image_default"
    and room: "log_room mem_codec (mem_content s1) ''churn-1''" and fence: "fence_of (mem_content s1) ''churn-1'' = Some ''t''"
    by (rule example_churn_opens)
  obtain k2 db2 s2 where synced: "\<forall>h \<ge> k2. sync_inner mem_ops mem_codec mem_sqlite (example_sqlite_env h) s1 ?db False = (Inr 1, db2, s2)"
    and img: "dbh_image db2 = image_apply db_image_default example_tx"
    and res: "restore mem_ops mem_codec mem_sqlite mem_bucket_ops s2 [] ''churn-1'' = Some (Inr (image_apply db_image_default example_tx, dbh_tail db2))"
    by (rule example_churn_sync [OF at room fence])
  define h where "h = max k k2"
  have od: "open_db mem_ops mem_codec mem_sqlite mem_bucket_ops (cv_open (?E h)) True None ''t'' mem_empty [] ''churn-1'' = Some (Inr ?db, s1)"
    and sync: "sync_inner mem_ops mem_codec mem_sqlite (example_sqlite_env h) s1 ?db False = (Inr 1, db2, s2)"
    using opened synced by (simp_all add: h_def)
  have bytes: "to_bytes (image_apply db_image_default example_tx) = Inr ''xx''"
    by (simp add: to_bytes_def image_apply_def example_tx_def insert_frames_def place_page_def copy_slice_def eval_nat_numeral)
  obtain label cfg where st: "churn_start (?E h) = Inr (label, [], cfg, mem_empty)" using example_churn_start by blast
  have reopened: "store_open (cv_reopen (?E h) s) (cv_stock (?E h)) cfg = Inr s" for s by (simp add: store_open_def)
  obtain o1 sts where rounds: "churn_rounds mem_ops mem_codec mem_sqlite mem_bucket_ops (?E h) label 1 500 2 [0] 0x9E3779B97F4A7C15 (s1, [], ?db, []) =
      Some (Inr (), o1, s2, [], db2, sts)"
  proof -
    have "\<exists>out sts. churn_rounds mem_ops mem_codec mem_sqlite mem_bucket_ops (?E h) label 1 500 2 [0] rng (s1, [], ?db, []) = Some (Inr (), out, s2, [], db2, sts)" for rng
      unfolding One_nat_def churn_rounds.simps churn_txns.simps by (simp add: prog_defs next_key_def checkpoint_due_def sync_def sync)
    with that show ?thesis by blast
  qed
  have "\<exists>out. churn_hydrate mem_ops mem_codec mem_sqlite mem_bucket_ops (?E h) cfg label ''churn-1'' (s2, [], db2, sts) = Some (Inr (), out, s2, [], db2, sts)"
    unfolding churn_hydrate_def by (simp add: prog_defs img bytes reopened res)
  then have "\<exists>out w. churn_body mem_ops mem_codec mem_sqlite mem_bucket_ops (?E h) cfg label ''churn-1'' (s1, [], ?db, []) = Some (Inr (), out, w)"
    using rounds by (auto simp: churn_body_def prog_defs)
  then obtain out w where run: "sqlite_churn_main mem_ops mem_codec mem_sqlite mem_bucket_ops (?E h) = Some (Inr (), out, w)"
    using od by (auto simp: sqlite_churn_main_def st)
  have fresh: "log_ok mem_codec (mem_content mem_empty) ''churn-1''" "next_version mem_codec (mem_content mem_empty) ''churn-1'' = 0"
    "latest_snapshot mem_ops mem_codec mem_empty ''churn-1'' = Inr None" by (simp_all add: name_ok_def mem_latest_none)
  have quiet: "ops_ok mem_ops mem_codec mem_sqlite mem_bucket_ops mem_content map_of (churn_ops (?E h) 1 500 2 [0..<1] rng []) (s1, [], ?db)" for rng
    using room by (auto simp: op_quiet_def op_fresh_def captured_by_def example_capture example_tx_def ulids_ok_def mem_env_def split: option.splits)
  have "\<exists>txid. verified txid \<in> set out"
    by (rule churn_verifies [where objects = map_of, OF mem_store.event_store_axioms mem_sq.sqlite_serde_axioms mem_bk.bucket_axioms _ _ _ _ run])
      (use fresh quiet od in \<open>auto simp: mem_env_def st\<close>)
  with run show ?thesis by blast
qed

end
