(* ===== verification/Host_Fs.thy ===== *)
theory Host_Fs
  imports Rust_Std
begin

text \<open>
  The host file system, as the mirror and the SQLite crate use it: the record \<open>host_ops\<close> has one field for
  each call of \<open>std::fs\<close> they make, and a host path is the list of its components. The locale states
  what is relied on: a view of the host as a tree of files,
  directories and symbolic links, and the documented effect of every call on a path that passes no
  link. Permissions come in by two predicates on modes: \<open>may_write\<close> (the process can open a file of
  its own with that mode for writing) and \<open>may_enter\<close> (it can look up, create and remove entries in a
  directory with that mode), both true of every mode for a privileged process. In an \<open>ok\<close> state every
  directory can be entered and no space is missing, so that the calls succeed; nothing is said about
  paths that lead through links. An in-memory host that follows links, with or without privileges
  for files, satisfies the laws.
\<close>

datatype host_kind = HostFile | HostDir | HostLink

datatype host_error = NotFound | OtherIo string

type_synonym host_path = "string list"

record 'h host_ops =
  h_lstat :: "'h \<Rightarrow> host_path \<Rightarrow> host_kind option"
  h_is_dir :: "'h \<Rightarrow> host_path \<Rightarrow> bool"
  h_read :: "'h \<Rightarrow> host_path \<Rightarrow> host_error + bytes"
  h_create_dir_all :: "'h \<Rightarrow> host_path \<Rightarrow> (string + unit) \<times> 'h"
  h_remove_dir_all :: "'h \<Rightarrow> host_path \<Rightarrow> 'h"
  h_remove_file :: "'h \<Rightarrow> host_path \<Rightarrow> 'h"
  h_symlink :: "'h \<Rightarrow> string \<Rightarrow> host_path \<Rightarrow> (string + unit) \<times> 'h"
  h_write :: "'h \<Rightarrow> host_path \<Rightarrow> bytes \<Rightarrow> (string + unit) \<times> 'h"
  h_rename :: "'h \<Rightarrow> host_path \<Rightarrow> host_path \<Rightarrow> (string + unit) \<times> 'h"
  h_set_mode :: "'h \<Rightarrow> host_path \<Rightarrow> u32 \<Rightarrow> 'h"
  h_open_write :: "'h \<Rightarrow> host_path \<Rightarrow> bool"
  h_set_modified :: "'h \<Rightarrow> host_path \<Rightarrow> int \<Rightarrow> 'h"

text \<open>The normal components of a path.\<close>

fun split_slash :: "string \<Rightarrow> string list" where
  "split_slash [] = [[]]"
| "split_slash (c # cs) =
     (if c = CHR ''/'' then [] # split_slash cs
      else case split_slash cs of w # ws \<Rightarrow> (c # w) # ws | [] \<Rightarrow> [[c]])"

definition components :: "string \<Rightarrow> string list" where
  "components path = filter (\<lambda>c. c \<noteq> [] \<and> c \<noteq> ''.'' \<and> c \<noteq> ''..'') (split_slash path)"

datatype host_node =
  HFile bytes u32 int
| HDir u32
| HLink string

type_synonym host_view = "host_path \<rightharpoonup> host_node"

fun host_kind_of :: "host_node \<Rightarrow> host_kind" where
  "host_kind_of (HFile _ _ _) = HostFile"
| "host_kind_of (HDir _) = HostDir"
| "host_kind_of (HLink _) = HostLink"

definition plain :: "host_path \<Rightarrow> bool" where
  "plain p \<longleftrightarrow> ''.'' \<notin> set p \<and> ''..'' \<notin> set p"

abbreviation is_hdir :: "host_node option \<Rightarrow> bool" where
  "is_hdir x \<equiv> \<exists>m. x = Some (HDir m)"

abbreviation is_hlink :: "host_node option \<Rightarrow> bool" where
  "is_hlink x \<equiv> \<exists>t. x = Some (HLink t)"

abbreviation is_hfile :: "host_node option \<Rightarrow> bool" where
  "is_hfile x \<equiv> \<exists>d m t. x = Some (HFile d m t)"

text \<open>Every proper prefix is a directory; no proper prefix is a link.\<close>

definition real_path :: "host_view \<Rightarrow> host_path \<Rightarrow> bool" where
  "real_path V p \<longleftrightarrow> plain p \<and> (\<forall>q. strict_prefix q p \<longrightarrow> is_hdir (V q))"

definition unlinked :: "host_view \<Rightarrow> host_path \<Rightarrow> bool" where
  "unlinked V p \<longleftrightarrow> plain p \<and> (\<forall>q. strict_prefix q p \<longrightarrow> \<not> is_hlink (V q))"

lemma real_unlinked: "real_path V p \<Longrightarrow> unlinked V p"
  by (auto simp: real_path_def unlinked_def)

lemma plain_append [simp]: "plain (p @ q) \<longleftrightarrow> plain p \<and> plain q"
  by (auto simp: plain_def)

text \<open>The effect of the calls on the view.\<close>

definition made_dirs :: "u32 \<Rightarrow> host_path \<Rightarrow> host_view \<Rightarrow> host_view" where
  "made_dirs m p V = (\<lambda>q. if prefix q p \<and> V q = None then Some (HDir m) else V q)"

definition pruned :: "host_path \<Rightarrow> host_view \<Rightarrow> host_view" where
  "pruned p V = (\<lambda>q. if prefix p q then None else V q)"

fun with_mode :: "u32 \<Rightarrow> host_node \<Rightarrow> host_node" where
  "with_mode m (HFile d _ t) = HFile d m t"
| "with_mode m (HDir _) = HDir m"
| "with_mode m (HLink t) = HLink t"

fun with_mtime :: "int \<Rightarrow> host_node \<Rightarrow> host_node" where
  "with_mtime t (HFile d m _) = HFile d m t"
| "with_mtime t n = n"

locale host_fs =
  fixes H :: "'h host_ops"
    and view :: "'h \<Rightarrow> host_view"
    and ok :: "'h \<Rightarrow> bool"
    and may_write :: "u32 \<Rightarrow> bool"
    and may_enter :: "u32 \<Rightarrow> bool"
  assumes tree: "ok h \<Longrightarrow> view h p \<noteq> None \<Longrightarrow> real_path (view h) p"
    and lstat: "ok h \<Longrightarrow> unlinked (view h) p \<Longrightarrow> h_lstat H h p = map_option host_kind_of (view h p)"
    and is_dir: "ok h \<Longrightarrow> unlinked (view h) p \<Longrightarrow> \<not> is_hlink (view h p) \<Longrightarrow> h_is_dir H h p \<longleftrightarrow> is_hdir (view h p)"
    and create_dir_all: "ok h \<Longrightarrow> plain p \<Longrightarrow> (\<And>q. prefix q p \<Longrightarrow> view h q = None \<or> is_hdir (view h q)) \<Longrightarrow>
      \<exists>h' m. h_create_dir_all H h p = (Inr (), h') \<and> ok h' \<and> view h' = made_dirs m p (view h)"
    and remove_dir_all: "ok h \<Longrightarrow> real_path (view h) p \<Longrightarrow> is_hdir (view h p) \<Longrightarrow> p \<noteq> [] \<Longrightarrow>
      ok (h_remove_dir_all H h p) \<and> view (h_remove_dir_all H h p) = pruned p (view h)"
    and remove_file: "ok h \<Longrightarrow> unlinked (view h) p \<Longrightarrow> \<not> is_hdir (view h p) \<Longrightarrow>
      ok (h_remove_file H h p) \<and> view (h_remove_file H h p) = (view h)(p := None)"
    and symlink: "ok h \<Longrightarrow> real_path (view h) p \<Longrightarrow> view h p = None \<Longrightarrow> p \<noteq> [] \<Longrightarrow>
      \<exists>h'. h_symlink H h target p = (Inr (), h') \<and> ok h' \<and> view h' = (view h)(p \<mapsto> HLink target)"
    and write_file: "ok h \<Longrightarrow> real_path (view h) p \<Longrightarrow> view h p = None \<or> (\<exists>d0 m0 t0. view h p = Some (HFile d0 m0 t0) \<and> may_write m0) \<Longrightarrow> p \<noteq> [] \<Longrightarrow>
      \<exists>h' m t. h_write H h p d = (Inr (), h') \<and> ok h' \<and> view h' = (view h)(p \<mapsto> HFile d m t)"
    and rename: "ok h \<Longrightarrow> real_path (view h) p \<Longrightarrow> real_path (view h) q \<Longrightarrow> view h p = Some (HFile d m t) \<Longrightarrow>
      \<not> is_hdir (view h q) \<Longrightarrow> p \<noteq> q \<Longrightarrow> q \<noteq> [] \<Longrightarrow>
      \<exists>h'. h_rename H h p q = (Inr (), h') \<and> ok h' \<and> view h' = (view h)(p := None, q \<mapsto> HFile d m t)"
    and set_mode: "ok h \<Longrightarrow> real_path (view h) p \<Longrightarrow> view h p = Some n \<Longrightarrow> \<not> is_hlink (Some n) \<Longrightarrow> (is_hdir (Some n) \<Longrightarrow> may_enter m) \<Longrightarrow>
      ok (h_set_mode H h p m) \<and> view (h_set_mode H h p m) = (view h)(p \<mapsto> with_mode m n)"
    and open_write: "ok h \<Longrightarrow> real_path (view h) p \<Longrightarrow> view h p = Some (HFile d m t) \<Longrightarrow> h_open_write H h p \<longleftrightarrow> may_write m"
    and set_modified: "ok h \<Longrightarrow> real_path (view h) p \<Longrightarrow> view h p = Some (HFile d m t0) \<Longrightarrow> h_open_write H h p \<Longrightarrow>
      ok (h_set_modified H h p t) \<and> view (h_set_modified H h p t) = (view h)(p \<mapsto> HFile d m t)"
begin

lemma nothing_below:
  assumes "ok h" "\<not> is_hdir (view h p)" "strict_prefix p q"
  shows "view h q = None"
proof (rule ccontr)
  assume "view h q \<noteq> None"
  from tree [OF assms(1) this] assms(3) have "is_hdir (view h p)" by (simp add: real_path_def)
  with assms(2) show False by simp
qed

end

section \<open>An in-memory host\<close>

text \<open>Path resolution: links on the way are followed, the last component only when asked, 40 links at most.\<close>

fun mh_resolve :: "bool \<Rightarrow> nat \<Rightarrow> host_view \<Rightarrow> host_path \<Rightarrow> string list \<Rightarrow> host_path option" where
  "mh_resolve deref n V acc [] = Some acc"
| "mh_resolve deref n V acc (c # cs) =
     (if c = ''.'' then mh_resolve deref n V acc cs
      else if c = ''..'' then mh_resolve deref n V (butlast acc) cs
      else case V (acc @ [c]) of
        Some (HDir _) \<Rightarrow> mh_resolve deref n V (acc @ [c]) cs
      | Some (HLink t) \<Rightarrow>
          if cs = [] \<and> \<not> deref then Some (acc @ [c])
          else if n = 0 then None
          else mh_resolve deref (n - 1) V (if prefix ''/'' t then [] else acc) (filter (\<lambda>x. x \<noteq> []) (split_slash t) @ cs)
      | _ \<Rightarrow> if cs = [] then Some (acc @ [c]) else None)"

definition mh_at :: "bool \<Rightarrow> host_view \<Rightarrow> host_path \<Rightarrow> host_path option" where
  "mh_at deref V p = mh_resolve deref 40 V [] p"

definition mh_edit :: "bool \<Rightarrow> (host_node \<Rightarrow> host_node option) \<Rightarrow> host_view \<Rightarrow> host_path \<Rightarrow> host_view" where
  "mh_edit deref f V p =
     (case mh_at deref V p of None \<Rightarrow> V | Some q \<Rightarrow> (case V q of None \<Rightarrow> V | Some n \<Rightarrow> V(q := f n)))"

text \<open>The owner's write bit; a process without privileges opens a file of its own for writing only when it is set.\<close>

definition owner_writes :: "bool \<Rightarrow> u32 \<Rightarrow> bool" where
  "owner_writes root m \<longleftrightarrow> root \<or> (m div 128) mod 2 = 1"

definition mem_host_ops :: "bool \<Rightarrow> host_view host_ops" where
  "mem_host_ops root =
     \<lparr>h_lstat = (\<lambda>V p. case mh_at False V p of None \<Rightarrow> None | Some q \<Rightarrow> map_option host_kind_of (V q)),
      h_is_dir = (\<lambda>V p. case mh_at True V p of None \<Rightarrow> False | Some q \<Rightarrow> (case V q of Some (HDir _) \<Rightarrow> True | _ \<Rightarrow> False)),
      h_read = (\<lambda>V p. case mh_at True V p of None \<Rightarrow> Inl NotFound
         | Some q \<Rightarrow> (case V q of None \<Rightarrow> Inl NotFound | Some (HFile d _ _) \<Rightarrow> Inr d | _ \<Rightarrow> Inl (OtherIo ''Is a directory''))),
      h_create_dir_all = (\<lambda>V p.
         let r = (case mh_at True V p of None \<Rightarrow> p | Some q \<Rightarrow> q) in
         if list_all (\<lambda>i. case V (take i r) of None \<Rightarrow> True | Some (HDir _) \<Rightarrow> True | _ \<Rightarrow> False) [0..<Suc (length r)]
         then (Inr (), made_dirs 493 r V) else (Inl ''File exists'', V)),
      h_remove_dir_all = (\<lambda>V p. case mh_at False V p of
           Some q \<Rightarrow> (case V q of Some (HDir _) \<Rightarrow> if q = [] then V else pruned q V | _ \<Rightarrow> V)
         | None \<Rightarrow> V),
      h_remove_file = mh_edit False (\<lambda>n. case n of HDir m \<Rightarrow> Some (HDir m) | _ \<Rightarrow> None),
      h_symlink = (\<lambda>V t p. case mh_at False V p of None \<Rightarrow> (Inl ''No such file or directory'', V)
         | Some q \<Rightarrow> if V q = None then (Inr (), V(q \<mapsto> HLink t)) else (Inl ''File exists'', V)),
      h_write = (\<lambda>V p d. case mh_at True V p of None \<Rightarrow> (Inl ''No such file or directory'', V)
         | Some q \<Rightarrow> (case V q of None \<Rightarrow> (Inr (), V(q \<mapsto> HFile d 420 0))
             | Some (HFile _ m _) \<Rightarrow> if owner_writes root m then (Inr (), V(q \<mapsto> HFile d m 0)) else (Inl ''Permission denied'', V)
             | _ \<Rightarrow> (Inl ''Is a directory'', V))),
      h_rename = (\<lambda>V p p'. case (mh_at False V p, mh_at False V p') of
           (Some q, Some q') \<Rightarrow> (case (V q, V q') of
               (None, _) \<Rightarrow> (Inl ''No such file or directory'', V)
             | (Some (HDir _), _) \<Rightarrow> (Inl ''Not supported'', V)
             | (_, Some (HDir _)) \<Rightarrow> (Inl ''Is a directory'', V)
             | (Some n, _) \<Rightarrow> (Inr (), V(q := None, q' \<mapsto> n)))
         | _ \<Rightarrow> (Inl ''No such file or directory'', V)),
      h_set_mode = (\<lambda>V p m. mh_edit True (\<lambda>n. Some (with_mode m n)) V p),
      h_open_write = (\<lambda>V p. case mh_at True V p of None \<Rightarrow> False
         | Some q \<Rightarrow> (case V q of Some (HFile _ m _) \<Rightarrow> owner_writes root m | _ \<Rightarrow> False)),
      h_set_modified = (\<lambda>V p t. mh_edit True (\<lambda>n. Some (with_mtime t n)) V p)\<rparr>"

definition mh_ok :: "host_view \<Rightarrow> bool" where
  "mh_ok V \<longleftrightarrow> is_hdir (V []) \<and> (\<forall>p. V p \<noteq> None \<longrightarrow> real_path V p)"

lemma mh_resolve_unlinked:
  assumes "plain cs" "\<forall>q. strict_prefix q cs \<and> q \<noteq> [] \<longrightarrow> \<not> is_hlink (V (acc @ q))" "deref \<Longrightarrow> cs \<noteq> [] \<Longrightarrow> \<not> is_hlink (V (acc @ cs))"
  shows "mh_resolve deref n V acc cs =
    (if \<forall>q. strict_prefix q cs \<and> q \<noteq> [] \<longrightarrow> is_hdir (V (acc @ q)) then Some (acc @ cs) else None)"
  using assms
proof (induction cs arbitrary: acc)
  case (Cons c cs)
  have c: "c \<noteq> ''.''" "c \<noteq> ''..''" "plain cs" using Cons.prems(1) by (auto simp: plain_def)
  have pre: "(\<forall>q. strict_prefix q (c # cs) \<and> q \<noteq> [] \<longrightarrow> P (acc @ q)) \<longleftrightarrow>
      (cs = [] \<or> P (acc @ [c])) \<and> (\<forall>q. strict_prefix q cs \<and> q \<noteq> [] \<longrightarrow> P ((acc @ [c]) @ q))" for P
  proof -
    have "strict_prefix q (c # cs) \<and> q \<noteq> [] \<longleftrightarrow> (\<exists>r. q = c # r \<and> strict_prefix r cs)" for q by (cases q) auto
    then show ?thesis by (auto simp: strict_prefix_def) (metis prefix_bot.extremum)+
  qed
  show ?case
  proof (cases "cs = []")
    case True
    moreover have "strict_prefix q [c] \<longleftrightarrow> q = []" for q by (cases q) auto
    ultimately show ?thesis using Cons.prems(3) c by (auto split: option.split host_node.split)
  next
    case False
    note IH = Cons.IH [OF c(3), of "acc @ [c]"]
    have nl: "\<not> is_hlink (V (acc @ [c]))" "\<forall>q. strict_prefix q cs \<and> q \<noteq> [] \<longrightarrow> \<not> is_hlink (V ((acc @ [c]) @ q))"
      using Cons.prems(2) False unfolding pre [of "\<lambda>x. \<not> is_hlink (V x)"] by auto
    have "mh_resolve deref n V (acc @ [c]) cs =
        (if \<forall>q. strict_prefix q cs \<and> q \<noteq> [] \<longrightarrow> is_hdir (V ((acc @ [c]) @ q)) then Some ((acc @ [c]) @ cs) else None)"
      using IH nl(2) Cons.prems(3) by simp
    then show ?thesis unfolding pre [of "\<lambda>x. is_hdir (V x)"] using c nl(1) False
      by (auto split: option.split host_node.split)
  qed
qed simp

lemma mh_at_unlinked:
  assumes "mh_ok V" "unlinked V p" "deref \<Longrightarrow> \<not> is_hlink (V p)"
  shows "mh_at deref V p = (if real_path V p then Some p else None)"
proof -
  have "(\<forall>q. strict_prefix q p \<and> q \<noteq> [] \<longrightarrow> is_hdir (V q)) \<longleftrightarrow> real_path V p"
    using assms(1,2) by (auto simp: real_path_def mh_ok_def unlinked_def)
  with mh_resolve_unlinked [of p V "[]" deref 40] assms(2,3) show ?thesis
    by (simp add: mh_at_def unlinked_def)
qed

text \<open>Trees stay trees under the effects of the calls.\<close>

lemma mh_ok_update:
  assumes "mh_ok V" "real_path V p" "is_hdir (V p) \<Longrightarrow> is_hdir (Some n)" "p \<noteq> [] \<or> is_hdir (Some n)"
  shows "mh_ok (V(p \<mapsto> n))"
  using assms by (auto simp: mh_ok_def real_path_def strict_prefix_def)

lemma mh_ok_remove:
  assumes "mh_ok V" "\<not> is_hdir (V p)"
  shows "mh_ok (V(p := None))"
  using assms by (auto simp: mh_ok_def real_path_def)

lemma mh_ok_pruned:
  assumes "mh_ok V" "p \<noteq> []"
  shows "mh_ok (pruned p V)"
  using assms unfolding mh_ok_def real_path_def pruned_def
  by (auto split: if_splits)

lemma mh_ok_made_dirs:
  assumes "mh_ok V" "plain p" "\<And>q. prefix q p \<Longrightarrow> V q = None \<or> is_hdir (V q)"
  shows "mh_ok (made_dirs m p V)"
proof -
  have "real_path (made_dirs m p V) q" if "V q \<noteq> None \<or> prefix q p" for q
  proof -
    have "plain q" using that assms(1,2) by (auto simp: mh_ok_def real_path_def prefix_def)
    moreover have "is_hdir (made_dirs m p V r)" if "strict_prefix r q" for r
    proof (cases "V q \<noteq> None")
      case True
      with that assms(1) show ?thesis by (auto simp: mh_ok_def real_path_def made_dirs_def)
    next
      case False
      with \<open>V q \<noteq> None \<or> prefix q p\<close> have "prefix q p" by simp
      with that have "prefix r p" by (meson prefix_order.less_imp_le prefix_order.trans)
      with assms(3) [OF this] show ?thesis by (auto simp: made_dirs_def)
    qed
    ultimately show ?thesis by (simp add: real_path_def)
  qed
  with assms(1) show ?thesis by (auto simp: mh_ok_def made_dirs_def split: if_splits)
qed

lemma list_all_prefixes: "list_all (\<lambda>i. P (take i p)) [0..<Suc (length p)] \<longleftrightarrow> (\<forall>q. prefix q p \<longrightarrow> P q)"
proof -
  have "prefix q p \<longleftrightarrow> (\<exists>i \<le> length p. q = take i p)" for q
    by (metis le_cases take_all_iff take_is_prefix prefix_def append_eq_conv_conj)
  then show ?thesis by (auto simp: list_all_iff less_Suc_eq_le Ball_def simp del: upt_Suc)
qed

interpretation mem_host: host_fs "mem_host_ops root" "\<lambda>V. V" mh_ok "owner_writes root" "\<lambda>_. True" for root
proof
  fix V :: host_view and p assume ok: "mh_ok V"
  note at = mh_at_unlinked [OF ok]
  show "real_path V p" if "V p \<noteq> None" using ok that by (simp add: mh_ok_def)
  have none: "V p = None" if "\<not> real_path V p" using ok that by (auto simp: mh_ok_def)
  show "h_lstat (mem_host_ops root) V p = map_option host_kind_of (V p)" if "unlinked V p"
    using that none by (simp add: mem_host_ops_def at)
  show "h_is_dir (mem_host_ops root) V p \<longleftrightarrow> is_hdir (V p)" if "unlinked V p" "\<not> is_hlink (V p)"
    using that none by (auto simp: mem_host_ops_def at split: option.split host_node.split)
  show "mh_ok (h_remove_file (mem_host_ops root) V p) \<and> h_remove_file (mem_host_ops root) V p = V(p := None)" if "unlinked V p" "\<not> is_hdir (V p)"
  proof -
    have "h_remove_file (mem_host_ops root) V p = V(p := None)"
      using that none by (auto simp: mem_host_ops_def mh_edit_def at fun_upd_idem split: option.split host_node.split)
    with mh_ok_remove [OF ok that(2)] show ?thesis by simp
  qed
  show "\<exists>h' m. h_create_dir_all (mem_host_ops root) V p = (Inr (), h') \<and> mh_ok h' \<and> h' = made_dirs m p V"
    if "plain p" "\<And>q. prefix q p \<Longrightarrow> V q = None \<or> is_hdir (V q)"
  proof -
    have "unlinked V p" "\<not> is_hlink (V p)"
      using that(1) that(2) [OF prefix_order.less_imp_le] that(2) [of p] by (fastforce simp: unlinked_def)+
    then have "(case mh_at True V p of None \<Rightarrow> p | Some q \<Rightarrow> q) = p" by (simp add: at)
    moreover have "list_all (\<lambda>i. case V (take i p) of None \<Rightarrow> True | Some (HDir _) \<Rightarrow> True | _ \<Rightarrow> False) [0..<Suc (length p)]"
      unfolding list_all_prefixes [of "\<lambda>q. case V q of None \<Rightarrow> True | Some (HDir _) \<Rightarrow> True | _ \<Rightarrow> False"]
      using that(2) by (fastforce split: option.split host_node.split)
    ultimately have "h_create_dir_all (mem_host_ops root) V p = (Inr (), made_dirs 493 p V)"
      by (simp add: mem_host_ops_def Let_def del: upt_Suc)
    with mh_ok_made_dirs [OF ok that] show ?thesis by blast
  qed
next
  fix V :: host_view and p assume ok: "mh_ok V" and r: "real_path V p"
  note u = real_unlinked [OF r]
  note at = mh_at_unlinked [OF ok]
  show "mh_ok (h_remove_dir_all (mem_host_ops root) V p) \<and> h_remove_dir_all (mem_host_ops root) V p = pruned p V" if "is_hdir (V p)" "p \<noteq> []"
    using that mh_ok_pruned [OF ok] by (auto simp: mem_host_ops_def at u r)
  show "\<exists>h'. h_symlink (mem_host_ops root) V target p = (Inr (), h') \<and> mh_ok h' \<and> h' = V(p \<mapsto> HLink target)" if "V p = None" "p \<noteq> []" for target
    using that mh_ok_update [OF ok r] by (auto simp: mem_host_ops_def at u r)
  show "\<exists>h' m t. h_write (mem_host_ops root) V p d = (Inr (), h') \<and> mh_ok h' \<and> h' = V(p \<mapsto> HFile d m t)"
    if "V p = None \<or> (\<exists>d0 m0 t0. V p = Some (HFile d0 m0 t0) \<and> owner_writes root m0)" "p \<noteq> []" for d
    using that mh_ok_update [OF ok r, of "HFile d _ _"] by (fastforce simp: mem_host_ops_def at u r)
  show "mh_ok (h_set_mode (mem_host_ops root) V p m) \<and> h_set_mode (mem_host_ops root) V p m = V(p \<mapsto> with_mode m n)"
    if "V p = Some n" "\<not> is_hlink (Some n)" for m n
    using that mh_ok_update [OF ok r, of "with_mode m n"] ok by (cases n) (auto simp: mem_host_ops_def mh_edit_def at u r mh_ok_def)
  show "mh_ok (h_set_modified (mem_host_ops root) V p t) \<and> h_set_modified (mem_host_ops root) V p t = V(p \<mapsto> HFile d m t)"
    if "V p = Some (HFile d m t0)" "h_open_write (mem_host_ops root) V p" for d m t0 t
    using that mh_ok_update [OF ok r, of "HFile d m t"] ok by (auto simp: mem_host_ops_def mh_edit_def at u r mh_ok_def)
  show "h_open_write (mem_host_ops root) V p \<longleftrightarrow> owner_writes root m" if "V p = Some (HFile d m t)" for d m t
    using that by (simp add: mem_host_ops_def at u r)
next
  fix V :: host_view and p q d m t
  assume a: "mh_ok V" "real_path V p" "real_path V q" "V p = Some (HFile d m t)" "\<not> is_hdir (V q)" "p \<noteq> q" "q \<noteq> []"
  have "real_path (V(p := None)) q" using a by (auto simp: real_path_def)
  then have "mh_ok (V(p := None, q \<mapsto> HFile d m t))"
    using a by (intro mh_ok_update mh_ok_remove) auto
  then show "\<exists>h'. h_rename (mem_host_ops root) V p q = (Inr (), h') \<and> mh_ok h' \<and> h' = V(p := None, q \<mapsto> HFile d m t)"
    using a by (auto simp: mem_host_ops_def mh_at_unlinked real_unlinked split: option.split host_node.split)
qed

end
