(* ===== verification/Sqlite_Files.thy ===== *)
theory Sqlite_Files
  imports Sqlite_Image Host_Fs
begin

text \<open>
  Writing a restored image to a file of the host (\<open>write_to\<close> of \<open>landslide-sqlite/src/lib.rs\<close>): the file
  has the bytes of the image and the stale write-ahead log and shared-memory files are gone.
\<close>

text \<open>\<open>format!("{}{ext}", path.display())\<close> of an absolute path.\<close>

definition with_suffix :: "host_path \<Rightarrow> string \<Rightarrow> host_path" where
  "with_suffix path ext = (if path = [] then [ext] else butlast path @ [last path @ ext])"

text \<open>An I/O error is an inner \<open>Inl\<close>, a panic of \<open>to_bytes\<close> an outer one.\<close>

definition write_to :: "'h host_ops \<Rightarrow> 'h \<Rightarrow> db_image \<Rightarrow> host_path \<Rightarrow> (string + unit) res \<times> 'h" where
  "write_to H h img path =
     (case (if path = [] then (Inr (), h) else h_create_dir_all H h (butlast path)) of
        (Inl e, h1) \<Rightarrow> (Inr (Inl e), h1)
      | (Inr _, h1) \<Rightarrow>
          let h2 = foldl (\<lambda>h ext. h_remove_file H h (with_suffix path ext)) h1 [''-wal'', ''-shm''] in
          (case to_bytes img of
             Inl e \<Rightarrow> (Inl e, h2)
           | Inr d \<Rightarrow> apfst Inr (h_write H h2 path d)))"

lemma strict_prefix_snoc: "strict_prefix q (p @ [x]) \<longleftrightarrow> prefix q p"
  by (auto simp: strict_prefix_def dest: prefix_length_le)

lemma made_dirs_real:
  assumes "plain p" "\<And>q. prefix q p \<Longrightarrow> V q = None \<or> is_hdir (V q)" "x \<noteq> ''.''" "x \<noteq> ''..''"
  shows "real_path (made_dirs m p V) (p @ [x])"
  unfolding real_path_def strict_prefix_snoc
proof (intro conjI allI impI)
  show "plain (p @ [x])" using assms(1,3,4) by (simp add: plain_def)
  show "is_hdir (made_dirs m p V q)" if "prefix q p" for q using assms(2) [OF that] that by (auto simp: made_dirs_def)
qed

lemma made_dirs_sibling: "made_dirs m p V (p @ [x]) = V (p @ [x])"
  by (auto simp: made_dirs_def dest: prefix_length_le)

context host_fs begin

lemma write_to_effect:
  assumes "ok h" "plain dir" "\<And>q. prefix q dir \<Longrightarrow> view h q = None \<or> is_hdir (view h q)"
    and name: "name \<noteq> ''.''" "name \<noteq> ''..''"
      "view h (dir @ [name]) = None \<or> (\<exists>d0 m0 t0. view h (dir @ [name]) = Some (HFile d0 m0 t0) \<and> may_write m0)"
    and logs: "\<not> is_hdir (view h (dir @ [name @ ''-wal'']))" "\<not> is_hdir (view h (dir @ [name @ ''-shm'']))"
    and d: "to_bytes img = Inr d"
  shows "\<exists>h' m m' t. write_to H h img (dir @ [name]) = (Inr (Inr ()), h') \<and> ok h' \<and>
    view h' = (made_dirs m dir (view h))(dir @ [name @ ''-wal''] := None, dir @ [name @ ''-shm''] := None, dir @ [name] \<mapsto> HFile d m' t)"
proof -
  let ?wal = "dir @ [name @ ''-wal'']" and ?shm = "dir @ [name @ ''-shm'']" and ?p = "dir @ [name]"
  obtain h1 m where h1: "h_create_dir_all H h dir = (Inr (), h1)" "ok h1" "view h1 = made_dirs m dir (view h)"
    using create_dir_all [OF assms(1-3)] by blast
  have len: "name @ ''-wal'' \<noteq> ''.''" "name @ ''-wal'' \<noteq> ''..''" "name @ ''-shm'' \<noteq> ''.''" "name @ ''-shm'' \<noteq> ''..''" by (auto simp: append_eq_Cons_conv)
  have real: "real_path (view h1) ?p" "real_path (view h1) ?wal" "real_path (view h1) ?shm"
    unfolding h1(3) by (simp_all only: made_dirs_real [OF assms(2,3)] name(1,2) len simp_thms)
  define h2 where "h2 = h_remove_file H h1 ?wal"
  have h2: "ok h2" "view h2 = (view h1)(?wal := None)"
    using remove_file [OF h1(2) real_unlinked [OF real(2)]] logs(1) by (simp_all add: h2_def h1(3) made_dirs_sibling)
  have real2: "real_path (view h2) ?p" "real_path (view h2) ?shm"
    using real by (auto simp: h2(2) real_path_def strict_prefix_snoc dest: prefix_length_le)
  define h3 where "h3 = h_remove_file H h2 ?shm"
  have h3: "ok h3" "view h3 = (view h1)(?wal := None, ?shm := None)"
    using remove_file [OF h2(1) real_unlinked [OF real2(2)]] logs(2) by (simp_all add: h3_def h2(2) h1(3) made_dirs_sibling)
  have real3: "real_path (view h3) ?p"
    using real(1) by (auto simp: h3(2) real_path_def strict_prefix_snoc dest: prefix_length_le)
  have "view h3 ?p = view h ?p" by (simp add: h3(2) h1(3) made_dirs_sibling)
  with write_file [OF h3(1) real3] name(3) obtain h4 m' t where h4: "h_write H h3 ?p d = (Inr (), h4)" "ok h4" "view h4 = (view h3)(?p \<mapsto> HFile d m' t)"
    by fastforce
  have "write_to H h img ?p = (Inr (Inr ()), h4)"
    using h1(1) d h4(1) by (simp add: write_to_def Let_def with_suffix_def h2_def h3_def)
  with h4(2,3) h3(2) h1(3) show ?thesis by (intro exI [of _ h4] exI [of _ m] exI [of _ m'] exI [of _ t]) simp
qed

end

text \<open>
  Whatever was beside it, a restore to a path leaves the bytes of the image there and no log that
  SQLite would replay over them; other files stay.
\<close>

theorem write_to_replaces:
  assumes "host_fs H view ok may_write may_enter" "ok h" "plain dir" "\<forall>q. prefix q dir \<longrightarrow> view h q = None \<or> is_hdir (view h q)"
    and "name \<noteq> ''.''" "name \<noteq> ''..''"
      "view h (dir @ [name]) = None \<or> (\<exists>d0 m0 t0. view h (dir @ [name]) = Some (HFile d0 m0 t0) \<and> may_write m0)"
    and "\<not> is_hdir (view h (dir @ [name @ ''-wal'']))" "\<not> is_hdir (view h (dir @ [name @ ''-shm'']))" "to_bytes img = Inr d"
  shows "\<exists>h' m t. write_to H h img (dir @ [name]) = (Inr (Inr ()), h') \<and> ok h' \<and> view h' (dir @ [name]) = Some (HFile d m t) \<and>
    view h' (dir @ [name @ ''-wal'']) = None \<and> view h' (dir @ [name @ ''-shm'']) = None \<and>
    (\<forall>q. view h q \<noteq> None \<and> q \<notin> {dir @ [name], dir @ [name @ ''-wal''], dir @ [name @ ''-shm'']} \<longrightarrow> view h' q = view h q)"
proof -
  have "\<exists>h' m m' t. write_to H h img (dir @ [name]) = (Inr (Inr ()), h') \<and> ok h' \<and>
      view h' = (made_dirs m dir (view h))(dir @ [name @ ''-wal''] := None, dir @ [name @ ''-shm''] := None, dir @ [name] \<mapsto> HFile d m' t)"
    by (rule host_fs.write_to_effect [where ok = ok and view = view, OF assms(1-3) _ assms(5-10)]) (use assms(4) in blast)
  then obtain h' m m' t where w: "write_to H h img (dir @ [name]) = (Inr (Inr ()), h')" "ok h'"
    "view h' = (made_dirs m dir (view h))(dir @ [name @ ''-wal''] := None, dir @ [name @ ''-shm''] := None, dir @ [name] \<mapsto> HFile d m' t)" by blast
  have "view h' q = view h q" if "view h q \<noteq> None" "q \<notin> {dir @ [name], dir @ [name @ ''-wal''], dir @ [name @ ''-shm'']}" for q
    using that by (auto simp: w(3) made_dirs_def)
  with w show ?thesis by (intro exI [of _ h'] exI [of _ m'] exI [of _ t]) simp
qed

end
