(* ===== verification/Fs_Image.thy ===== *)
theory Fs_Image
  imports Records Checkpointing
begin

text \<open>
  The data model of the file-system crate (\<open>landslide-fuse/src/lib.rs\<close>): nodes with metadata, the
  deltas a volume commits, the in-memory image with \<open>apply\<close>, segments with tombstones, and the
  checkpoint fold \<open>DeltaImage\<close> of \<open>landslide-fuse/src/store.rs\<close>. A call of \<open>now_ms\<close> is the
  argument \<open>now\<close> of the operation that makes it (no operation makes two). Lengths of vectors are
  natural numbers: an extent that ends past the address space aborts the process and has no result.
\<close>

section \<open>Types\<close>

record node_meta =
  nm_mode :: u32
  nm_uid :: u32
  nm_gid :: u32
  nm_mtime_ms :: i64
  nm_xattrs :: "(string, bytes) btree"

definition meta_with :: "u32 \<Rightarrow> i64 \<Rightarrow> node_meta" where
  "meta_with mode now = \<lparr>nm_mode = mode, nm_uid = 0, nm_gid = 0, nm_mtime_ms = now, nm_xattrs = []\<rparr>"

text \<open>The modes are the octal literals 644, 755 and 777.\<close>

definition meta_file :: "i64 \<Rightarrow> node_meta" where
  "meta_file now = meta_with (6 * 64 + 4 * 8 + 4) now"

definition meta_dir :: "i64 \<Rightarrow> node_meta" where
  "meta_dir now = meta_with (7 * 64 + 5 * 8 + 5) now"

definition meta_symlink :: "i64 \<Rightarrow> node_meta" where
  "meta_symlink now = meta_with (7 * 64 + 7 * 8 + 7) now"

record block_ref =
  br_hash :: string
  br_len :: u64

datatype content =
  Inline bytes
| Blocks "block_ref list" u64

definition content_len :: "content \<Rightarrow> u64" where
  "content_len c = (case c of Inline b \<Rightarrow> length b | Blocks _ sz \<Rightarrow> sz)"

datatype node =
  File content node_meta
| Dir node_meta
| Symlink string node_meta

datatype fs_data =
  InlineData bytes
| BlocksData "block_ref list"

datatype fs_delta =
  Write string u64 fs_data
| Mkdir string
| Remove string
| Rename string string
| MkSymlink string string
| SetAttr string "u32 option" "u32 option" "u32 option" "i64 option"
| SetXattr string string "bytes option"

record fs_segment =
  sg_entries :: "(string, node option) btree"

record fs_manifest =
  fm_segments :: "string list"

definition fs_manifest_default :: fs_manifest where
  "fs_manifest_default = \<lparr>fm_segments = []\<rparr>"

record fs_image =
  nodes :: "(string, node) btree"

definition fs_image_default :: fs_image where
  "fs_image_default = \<lparr>nodes = []\<rparr>"

definition BLOCK_CHUNK :: nat where
  "BLOCK_CHUNK = 1024 * 1024"

section \<open>Applying a delta\<close>

fun node_meta_of :: "node \<Rightarrow> node_meta" where
  "node_meta_of (File _ m) = m"
| "node_meta_of (Dir m) = m"
| "node_meta_of (Symlink _ m) = m"

fun with_meta :: "(node_meta \<Rightarrow> node_meta) \<Rightarrow> node \<Rightarrow> node" where
  "with_meta g (File c m) = File c (g m)"
| "with_meta g (Dir m) = Dir (g m)"
| "with_meta g (Symlink t m) = Symlink t (g m)"

definition meta_of :: "fs_image \<Rightarrow> string \<Rightarrow> node_meta option" where
  "meta_of img path = map_option node_meta_of (map_of (nodes img) path)"

text \<open>An update through \<open>meta_mut\<close>.\<close>

definition meta_mut :: "fs_image \<Rightarrow> string \<Rightarrow> (node_meta \<Rightarrow> node_meta) \<Rightarrow> fs_image" where
  "meta_mut img path g =
     (case map_of (nodes img) path of
        None \<Rightarrow> img
      | Some n \<Rightarrow> img\<lparr>nodes := bt_insert path (with_meta g n) (nodes img)\<rparr>)"

text \<open>\<open>Vec::resize\<close> with zero bytes, and the splice of an extent.\<close>

definition resize :: "nat \<Rightarrow> bytes \<Rightarrow> bytes" where
  "resize n c = take n c @ replicate (n - length c) CHR 0x00"

definition splice :: "bytes \<Rightarrow> nat \<Rightarrow> bytes \<Rightarrow> bytes" where
  "splice c offset data =
     (let c' = (if length c < offset + length data then resize (offset + length data) c else c)
      in take offset c' @ data @ drop (offset + length data) c')"

definition blocks_size :: "block_ref list \<Rightarrow> u64" where
  "blocks_size bs = foldl (\<lambda>a b. add64 a (br_len b)) 0 bs"

definition apply_write :: "i64 \<Rightarrow> fs_image \<Rightarrow> string \<Rightarrow> u64 \<Rightarrow> fs_data \<Rightarrow> fs_image" where
  "apply_write now img path offset data =
     (let node = (case data of
          BlocksData bs \<Rightarrow>
            File (Blocks bs (blocks_size bs)) (case meta_of img path of None \<Rightarrow> meta_file now | Some m \<Rightarrow> m)
        | InlineData d \<Rightarrow>
            (case map_of (nodes img) path of
               Some (File (Inline b) m) \<Rightarrow> File (Inline (splice b offset d)) m
             | _ \<Rightarrow> File (Inline (splice [] offset d)) (meta_file now)))
      in img\<lparr>nodes := bt_insert path node (nodes img)\<rparr>)"

definition apply_mkdir :: "i64 \<Rightarrow> fs_image \<Rightarrow> string \<Rightarrow> fs_image" where
  "apply_mkdir now img path =
     (case map_of (nodes img) path of
        Some _ \<Rightarrow> img
      | None \<Rightarrow> img\<lparr>nodes := bt_insert path (Dir (meta_dir now)) (nodes img)\<rparr>)"

definition below :: "string \<Rightarrow> string \<Rightarrow> bool" where
  "below path p \<longleftrightarrow> prefix (path @ ''/'') p"

definition apply_remove :: "fs_image \<Rightarrow> string \<Rightarrow> fs_image" where
  "apply_remove img path = img\<lparr>nodes := bt_retain (\<lambda>p. \<not> below path p) (bt_remove path (nodes img))\<rparr>"

text \<open>\<open>range(prefix..).take_while(starts_with)\<close>.\<close>

definition range_keys :: "string \<Rightarrow> (string, node) btree \<Rightarrow> string list" where
  "range_keys pre m = map fst (takeWhile (\<lambda>(p, _). prefix pre p) (dropWhile (\<lambda>(p, _). p < pre) m))"

text \<open>One iteration over \<open>moved\<close>; the key is present, so \<open>unwrap\<close> does not panic (\<open>move_node_present\<close>).\<close>

definition move_node :: "string \<Rightarrow> string \<Rightarrow> (string, node) btree \<Rightarrow> string \<Rightarrow> (string, node) btree" where
  "move_node pre to m p =
     (case map_of m p of
        None \<Rightarrow> m
      | Some n \<Rightarrow> bt_insert (to @ ''/'' @ drop (length pre) p) n (bt_remove p m))"

definition apply_rename :: "fs_image \<Rightarrow> string \<Rightarrow> string \<Rightarrow> fs_image" where
  "apply_rename img src to =
     (let m = (case map_of (nodes img) src of
                 None \<Rightarrow> nodes img
               | Some n \<Rightarrow> bt_insert to n (bt_remove src (nodes img)));
          pre = src @ ''/''
      in img\<lparr>nodes := foldl (move_node pre to) m (range_keys pre m)\<rparr>)"

definition set_attrs :: "u32 option \<Rightarrow> u32 option \<Rightarrow> u32 option \<Rightarrow> i64 option \<Rightarrow> node_meta \<Rightarrow> node_meta" where
  "set_attrs mode uid gid mtime_ms m =
     m\<lparr>nm_mode := case_option (nm_mode m) (\<lambda>v. v) mode, nm_uid := case_option (nm_uid m) (\<lambda>v. v) uid,
       nm_gid := case_option (nm_gid m) (\<lambda>v. v) gid, nm_mtime_ms := case_option (nm_mtime_ms m) (\<lambda>v. v) mtime_ms\<rparr>"

definition set_xattr :: "string \<Rightarrow> bytes option \<Rightarrow> node_meta \<Rightarrow> node_meta" where
  "set_xattr name v m =
     m\<lparr>nm_xattrs := (case v of Some b \<Rightarrow> bt_insert name b (nm_xattrs m) | None \<Rightarrow> bt_remove name (nm_xattrs m))\<rparr>"

fun fs_apply :: "i64 \<Rightarrow> fs_image \<Rightarrow> fs_delta \<Rightarrow> fs_image" where
  "fs_apply now img (Write path offset data) = apply_write now img path offset data"
| "fs_apply now img (Mkdir path) = apply_mkdir now img path"
| "fs_apply now img (Remove path) = apply_remove img path"
| "fs_apply now img (Rename src to) = apply_rename img src to"
| "fs_apply now img (MkSymlink path target) =
     img\<lparr>nodes := bt_insert path (Symlink target (meta_symlink now)) (nodes img)\<rparr>"
| "fs_apply now img (SetAttr path mode uid gid mtime_ms) = meta_mut img path (set_attrs mode uid gid mtime_ms)"
| "fs_apply now img (SetXattr path name v) = meta_mut img path (set_xattr name v)"

section \<open>Segments\<close>

definition merge_entry :: "(string, node) btree \<Rightarrow> string \<times> node option \<Rightarrow> (string, node) btree" where
  "merge_entry m e =
     (case e of
        (path, Some n) \<Rightarrow> bt_insert path n m
      | (path, None) \<Rightarrow> bt_retain (\<lambda>p. \<not> below path p) (bt_remove path m))"

definition merge_segment :: "fs_image \<Rightarrow> fs_segment \<Rightarrow> fs_image" where
  "merge_segment img seg = img\<lparr>nodes := foldl merge_entry (nodes img) (sg_entries seg)\<rparr>"

section \<open>The checkpoint fold\<close>

record delta_image =
  di_entries :: "(string, node option) btree"
  di_live :: fs_image

definition descendants :: "delta_image \<Rightarrow> string \<Rightarrow> string list" where
  "descendants di pre = filter (prefix pre) (map fst (nodes (di_live di)))"

text \<open>The loops of the \<open>Remove\<close> and \<open>Rename\<close> arms over the descendants.\<close>

definition bury :: "(string, node option) btree \<Rightarrow> string list \<Rightarrow> (string, node option) btree" where
  "bury es ps = foldl (\<lambda>es p. bt_insert p None es) es ps"

definition carry :: "fs_image \<Rightarrow> string \<Rightarrow> string \<Rightarrow> (string, node option) btree \<Rightarrow> string \<Rightarrow> (string, node option) btree" where
  "carry live src to es p =
     bt_insert (to @ ''/'' @ drop (length src + 1) p) (map_of (nodes live) p) (bt_insert p None es)"

definition delta_path :: "fs_delta \<Rightarrow> string" where
  "delta_path d = (case d of
     Write path _ _ \<Rightarrow> path | Mkdir path \<Rightarrow> path | SetAttr path _ _ _ _ \<Rightarrow> path
   | SetXattr path _ _ \<Rightarrow> path | MkSymlink path _ \<Rightarrow> path | Remove path \<Rightarrow> path | Rename src _ \<Rightarrow> src)"

definition di_apply :: "i64 \<Rightarrow> delta_image \<Rightarrow> fs_delta \<Rightarrow> delta_image" where
  "di_apply now di d =
     (case d of
        Remove path \<Rightarrow>
          \<lparr>di_entries = bury (bt_insert path None (di_entries di)) (descendants di (path @ ''/'')),
           di_live = fs_apply now (di_live di) d\<rparr>
      | Rename src to \<Rightarrow>
          let es = bt_insert src None (di_entries di);
              es' = (case map_of (nodes (di_live di)) src of None \<Rightarrow> es | Some n \<Rightarrow> bt_insert to (Some n) es)
          in \<lparr>di_entries = foldl (carry (di_live di) src to) es' (descendants di (src @ ''/'')),
              di_live = fs_apply now (di_live di) d\<rparr>
      | _ \<Rightarrow>
          let live = fs_apply now (di_live di) d in
          \<lparr>di_entries = (case map_of (nodes live) (delta_path d) of
             None \<Rightarrow> di_entries di
           | Some n \<Rightarrow> bt_insert (delta_path d) (Some n) (di_entries di)),
           di_live = live\<rparr>)"

end
