(* ===== verification/Fs_Content.thy ===== *)
theory Fs_Content
  imports Fs_Image Bucket
begin

text \<open>
  File content of the file-system crate: the lazy read path shared by volumes and replicas (the free
  functions of \<open>landslide-fuse/src/store.rs\<close>), and the chunking of large files into
  content-addressed blocks. SHA-256 is third-party code: the hexadecimal digest is the parameter
  \<open>sha\<close>. The block cache is a map from digests to bytes.
\<close>

type_synonym block_cache = "string \<rightharpoonup> bytes"

definition sub64 :: "u64 \<Rightarrow> u64 \<Rightarrow> u64" where
  "sub64 a b = (a + 2 ^ 64 - b) mod 2 ^ 64"

definition block_path :: "'b bucket_ops \<Rightarrow> string \<Rightarrow> string" where
  "block_path K hash = bk_path K (''blocks/'' @ hash)"

definition fetch_block :: "'b bucket_ops \<Rightarrow> 'b \<Rightarrow> block_cache \<Rightarrow> string \<Rightarrow> bytes res \<times> block_cache" where
  "fetch_block K b cache hash =
     (case cache hash of
        Some d \<Rightarrow> (Inr d, cache)
      | None \<Rightarrow> (case bk_get K b (block_path K hash) of
          Inl e \<Rightarrow> (Inl (bucket_io e), cache)
        | Inr d \<Rightarrow> (Inr d, cache(hash \<mapsto> d))))"

text \<open>\<open>&b[lo..hi]\<close>: a panic when the bounds cross.\<close>

definition slice_of :: "nat \<Rightarrow> nat \<Rightarrow> bytes \<Rightarrow> bytes res" where
  "slice_of lo hi d =
     (if lo \<le> hi \<and> hi \<le> length d then Inr (take (hi - lo) (drop lo d))
      else Inl (Panicked ''range out of bounds''))"

text \<open>The loop over the blocks: \<open>pos\<close> is the file offset of the next block, \<open>out\<close> what was read so far.\<close>

fun read_blocks ::
  "'b bucket_ops \<Rightarrow> 'b \<Rightarrow> u64 \<Rightarrow> u64 \<Rightarrow> u64 \<Rightarrow> bytes \<Rightarrow> block_cache \<Rightarrow> block_ref list \<Rightarrow> bytes res \<times> block_cache" where
  "read_blocks K b offset fin pos out cache [] = (Inr out, cache)"
| "read_blocks K b offset fin pos out cache (r # refs) =
     (let bstart = pos; bend = add64 pos (br_len r) in
      if bend \<le> offset then read_blocks K b offset fin bend out cache refs
      else if fin \<le> bstart then (Inr out, cache)
      else case fetch_block K b cache (br_hash r) of
        (Inl e, cache') \<Rightarrow> (Inl e, cache')
      | (Inr d, cache') \<Rightarrow>
          (case slice_of (min (offset - bstart) (length d)) (min (sub64 (min fin bend) bstart) (length d)) d of
             Inl e \<Rightarrow> (Inl e, cache')
           | Inr part \<Rightarrow> read_blocks K b offset fin bend (out @ part) cache' refs))"

definition read_content :: "'b bucket_ops \<Rightarrow> 'b \<Rightarrow> block_cache \<Rightarrow> content \<Rightarrow> u64 \<Rightarrow> u64 \<Rightarrow> bytes res \<times> block_cache" where
  "read_content K b cache content offset len =
     (case content of
        Inline d \<Rightarrow>
          let s = min offset (length d); e = min (add64 s len) (length d) in (slice_of s e d, cache)
      | Blocks refs _ \<Rightarrow> read_blocks K b offset (add64 offset len) 0 [] cache refs)"

definition image_read_range ::
  "'b bucket_ops \<Rightarrow> fs_image \<Rightarrow> 'b \<Rightarrow> block_cache \<Rightarrow> string \<Rightarrow> u64 \<Rightarrow> u64 \<Rightarrow> bytes option res \<times> block_cache" where
  "image_read_range K img b cache path offset len =
     (case map_of (nodes img) path of
        Some (File content _) \<Rightarrow> apfst (\<lambda>r. bind_res r (\<lambda>d. Inr (Some d))) (read_content K b cache content offset len)
      | _ \<Rightarrow> (Inr None, cache))"

definition image_read_file ::
  "'b bucket_ops \<Rightarrow> fs_image \<Rightarrow> 'b \<Rightarrow> block_cache \<Rightarrow> string \<Rightarrow> bytes option res \<times> block_cache" where
  "image_read_file K img b cache path =
     (case map_of (nodes img) path of
        Some (File content _) \<Rightarrow>
          apfst (\<lambda>r. bind_res r (\<lambda>d. Inr (Some d))) (read_content K b cache content 0 (content_len content))
      | _ \<Rightarrow> (Inr None, cache))"

section \<open>Chunking\<close>

text \<open>\<open>content.chunks(CHUNK)\<close>.\<close>

function chunks_of :: "nat \<Rightarrow> bytes \<Rightarrow> bytes list" where
  "chunks_of n d = (if n = 0 \<or> d = [] then [] else take n d # chunks_of n (drop n d))"
  by pat_completeness auto

termination
  by (relation "measure (\<lambda>(n, d). length d)") auto

declare chunks_of.simps [simp del]

definition block_of :: "(bytes \<Rightarrow> string) \<Rightarrow> bytes \<Rightarrow> block_ref" where
  "block_of sha chunk = \<lparr>br_hash = sha chunk, br_len = length chunk\<rparr>"

text \<open>The blocks of a content, and the uploads: the chunks whose object is not in the bucket yet.\<close>

definition blocks_of :: "(bytes \<Rightarrow> string) \<Rightarrow> bytes \<Rightarrow> block_ref list" where
  "blocks_of sha d = map (block_of sha) (chunks_of BLOCK_CHUNK d)"

definition missing_blocks :: "(bytes \<Rightarrow> string) \<Rightarrow> 'b bucket_ops \<Rightarrow> 'b \<Rightarrow> bytes \<Rightarrow> (string \<times> bytes) list" where
  "missing_blocks sha K b d =
     map (\<lambda>c. (sha c, c)) (filter (\<lambda>c. case bk_get K b (block_path K (sha c)) of Inl _ \<Rightarrow> True | Inr _ \<Rightarrow> False) (chunks_of BLOCK_CHUNK d))"

fun upload_blocks :: "'b bucket_ops \<Rightarrow> 'b \<Rightarrow> (string \<times> bytes) list \<Rightarrow> unit res \<times> 'b" where
  "upload_blocks K b [] = (Inr (), b)"
| "upload_blocks K b ((hash, d) # us) =
     (case bk_put K b (block_path K hash) d of
        (Inl e, b') \<Rightarrow> (Inl (bucket_io e), b')
      | (Inr _, b') \<Rightarrow> upload_blocks K b' us)"

section \<open>Reads\<close>

text \<open>The blocks are in the bucket with their lengths, and the cache agrees with the bucket.\<close>

definition blocks_stored :: "'b bucket_ops \<Rightarrow> ('b \<Rightarrow> string \<Rightarrow> bytes option) \<Rightarrow> 'b \<Rightarrow> (string \<Rightarrow> bytes) \<Rightarrow> block_ref list \<Rightarrow> bool" where
  "blocks_stored K objects b body refs \<longleftrightarrow>
     (\<forall>r \<in> set refs. objects b (block_path K (br_hash r)) = Some (body (br_hash r)) \<and> length (body (br_hash r)) = br_len r)"

definition cache_ok :: "(string \<Rightarrow> bytes) \<Rightarrow> block_cache \<Rightarrow> block_ref list \<Rightarrow> bool" where
  "cache_ok body cache refs \<longleftrightarrow> (\<forall>r \<in> set refs. \<forall>d. cache (br_hash r) = Some d \<longrightarrow> d = body (br_hash r))"

definition file_of :: "(string \<Rightarrow> bytes) \<Rightarrow> block_ref list \<Rightarrow> bytes" where
  "file_of body refs = concat (map (\<lambda>r. body (br_hash r)) refs)"

text \<open>The digests of the blocks that overlap \<open>[offset, fin)\<close>.\<close>

fun overlapping :: "u64 \<Rightarrow> u64 \<Rightarrow> u64 \<Rightarrow> block_ref list \<Rightarrow> string set" where
  "overlapping offset fin pos [] = {}"
| "overlapping offset fin pos (r # refs) =
     (if offset < pos + br_len r \<and> pos < fin then {br_hash r} else {}) \<union> overlapping offset fin (pos + br_len r) refs"

context bucket begin

lemma fetch_stored:
  assumes "blocks_stored K objects b body refs" "cache_ok body cache refs" "r \<in> set refs"
  obtains cache' where "fetch_block K b cache (br_hash r) = (Inr (body (br_hash r)), cache')" "cache_ok body cache' refs"
    "cache' = cache(br_hash r \<mapsto> body (br_hash r))"
proof (cases "cache (br_hash r)")
  case (Some d)
  with assms have d: "d = body (br_hash r)" by (auto simp: cache_ok_def)
  then have "cache(br_hash r \<mapsto> body (br_hash r)) = cache" using Some by (simp add: fun_upd_idem)
  with Some d assms(2) that [of cache] show ?thesis by (simp add: fetch_block_def)
next
  case None
  have "bk_get K b (block_path K (br_hash r)) = Inr (body (br_hash r))"
    using assms(1,3) by (intro get_present) (simp add: blocks_stored_def)
  with None assms(2) that [of "cache(br_hash r \<mapsto> body (br_hash r))"] show ?thesis
    by (auto simp: fetch_block_def cache_ok_def)
qed

text \<open>The loop reads the requested bytes, and fetches the blocks that overlap the range only.\<close>

lemma read_blocks_slice:
  assumes "blocks_stored K objects b body refs" "cache_ok body cache refs"
    and "pos + length (file_of body refs) < 2 ^ 64" "offset \<le> fin" "fin < 2 ^ 64"
  shows "\<exists>cache'. read_blocks K b offset fin pos out cache refs =
      (Inr (out @ take (fin - max pos offset) (drop (offset - pos) (file_of body refs))), cache') \<and>
    cache \<subseteq>\<^sub>m cache' \<and> dom cache' \<subseteq> dom cache \<union> overlapping offset fin pos refs"
  using assms(1-3)
proof (induction refs arbitrary: pos out cache)
  case Nil
  then show ?case by (simp add: file_of_def)
next
  case (Cons r refs)
  let ?d = "body (br_hash r)"
  have st: "blocks_stored K objects b body refs" "length ?d = br_len r" using Cons.prems(1) by (simp_all add: blocks_stored_def)
  have fl: "file_of body (r # refs) = ?d @ file_of body refs" by (simp add: file_of_def)
  have bend: "add64 pos (br_len r) = pos + length ?d" using Cons.prems(3) st(2) by (simp add: fl)
  have room: "pos + length ?d + length (file_of body refs) < 2 ^ 64" using Cons.prems(3) by (simp add: fl)
  consider (before) "pos + length ?d \<le> offset" | (after) "offset < pos + length ?d" "fin \<le> pos"
    | (overlap) "offset < pos + length ?d" "pos < fin" by linarith
  then show ?case
  proof cases
    case before
    have "cache_ok body cache refs" using Cons.prems(2) by (simp add: cache_ok_def)
    note IH = Cons.IH [OF st(1) this room, of out]
    have "read_blocks K b offset fin pos out cache (r # refs) = read_blocks K b offset fin (pos + length ?d) out cache refs"
      using before by (simp add: bend Let_def)
    moreover have "drop (offset - pos) (file_of body (r # refs)) = drop (offset - (pos + length ?d)) (file_of body refs)"
      using before by (simp add: fl)
    moreover have "max pos offset = max (pos + length ?d) offset" using before by (simp add: max_def)
    moreover have "overlapping offset fin pos (r # refs) = overlapping offset fin (pos + length ?d) refs"
      using before by (simp add: st(2))
    ultimately show ?thesis using IH by (simp only:)
  next
    case after
    then show ?thesis by (auto simp: bend Let_def)
  next
    case overlap
    obtain cache' where f: "fetch_block K b cache (br_hash r) = (Inr ?d, cache')" "cache_ok body cache' (r # refs)"
      "cache' = cache(br_hash r \<mapsto> ?d)"
      by (rule fetch_stored [OF Cons.prems(1,2), of r]) simp
    have mono: "cache \<subseteq>\<^sub>m cache'" using f(3) Cons.prems(2) by (auto simp: map_le_def cache_ok_def)
    have sub: "sub64 (min fin (pos + length ?d)) pos = min fin (pos + length ?d) - pos"
      using overlap assms(5) room by (auto simp: sub64_def min_def mod_if)
    have part: "slice_of (min (offset - pos) (length ?d)) (min (sub64 (min fin (pos + length ?d)) pos) (length ?d)) ?d =
        Inr (take (fin - max pos offset) (drop (offset - pos) ?d))"
      unfolding sub slice_of_def using overlap assms(4) by (auto simp: min_def max_def)
    have step: "read_blocks K b offset fin pos out cache (r # refs) =
        read_blocks K b offset fin (pos + length ?d) (out @ take (fin - max pos offset) (drop (offset - pos) ?d)) cache' refs"
    proof -
      have "\<not> pos + length ?d \<le> offset" "\<not> fin \<le> pos" using overlap by simp_all
      then show ?thesis by (simp only: read_blocks.simps Let_def bend f(1) part prod.case sum.case if_False)
    qed
    from Cons.IH [OF st(1) _ room, of cache' "out @ take (fin - max pos offset) (drop (offset - pos) ?d)"] f(2)
    obtain cache'' where c: "read_blocks K b offset fin pos out cache (r # refs) =
        (Inr ((out @ take (fin - max pos offset) (drop (offset - pos) ?d)) @
          take (fin - max (pos + length ?d) offset) (drop (offset - (pos + length ?d)) (file_of body refs))), cache'')"
      "cache' \<subseteq>\<^sub>m cache''" "dom cache'' \<subseteq> dom cache' \<union> overlapping offset fin (pos + length ?d) refs"
      unfolding step by (auto simp: cache_ok_def)
    have "fin - max (pos + length ?d) offset = fin - max pos offset - (length ?d - (offset - pos))"
      "offset - (pos + length ?d) = 0" using overlap(1) by (auto simp: max_def)
    then have "take (fin - max pos offset) (drop (offset - pos) ?d) @
        take (fin - max (pos + length ?d) offset) (drop (offset - (pos + length ?d)) (file_of body refs)) =
        take (fin - max pos offset) (drop (offset - pos) (file_of body (r # refs)))"
      using overlap(1) by (simp add: fl)
    with c(1) have "read_blocks K b offset fin pos out cache (r # refs) =
        (Inr (out @ take (fin - max pos offset) (drop (offset - pos) (file_of body (r # refs)))), cache'')" by simp
    moreover have "cache \<subseteq>\<^sub>m cache''" by (rule map_le_trans [OF mono c(2)])
    moreover have "dom cache'' \<subseteq> dom cache \<union> overlapping offset fin pos (r # refs)"
      using c(3) overlap by (auto simp: f(3) st(2))
    ultimately show ?thesis by blast
  qed
qed

end

lemma apfst_read: "apfst (\<lambda>r. bind_res r (\<lambda>d. Inr (Some d))) (Inr d, c) = (Inr (Some d), c)"
  by simp

section \<open>Chunks and blocks\<close>

lemma concat_chunks: "0 < n \<Longrightarrow> concat (chunks_of n d) = d"
  by (induction n d rule: chunks_of.induct) (subst chunks_of.simps, auto)

lemma chunk_in: "c \<in> set (chunks_of n d) \<Longrightarrow> c \<noteq> [] \<and> length c \<le> n"
  by (induction n d rule: chunks_of.induct) (subst (asm) (2) chunks_of.simps, auto split: if_splits)

text \<open>Objects under \<open>blocks/\<close> are named by the digest of their bytes.\<close>

definition blocks_addressed :: "(bytes \<Rightarrow> string) \<Rightarrow> 'b bucket_ops \<Rightarrow> ('b \<Rightarrow> string \<Rightarrow> bytes option) \<Rightarrow> 'b \<Rightarrow> bool" where
  "blocks_addressed sha K objects b \<longleftrightarrow> (\<forall>c d. objects b (block_path K (sha c)) = Some d \<longrightarrow> d = c)"

definition distinct_digests :: "(bytes \<Rightarrow> string) \<Rightarrow> 'b bucket_ops \<Rightarrow> bool" where
  "distinct_digests sha K \<longleftrightarrow> inj (\<lambda>c. block_path K (sha c))"

context bucket begin

lemma upload_stores:
  assumes "upload_blocks K b (map (\<lambda>c. (sha c, c)) cs) = (Inr u, b')" "distinct_digests sha K" "blocks_addressed sha K objects b"
  shows "blocks_addressed sha K objects b' \<and> (\<forall>c \<in> set cs. objects b' (block_path K (sha c)) = Some c) \<and>
    (\<forall>q. objects b q \<noteq> None \<longrightarrow> objects b' q = objects b q) \<and>
    (\<forall>q. (\<forall>c. q \<noteq> block_path K (sha c)) \<longrightarrow> objects b' q = objects b q)"
  using assms(1,3)
proof (induction cs arbitrary: b)
  case (Cons c cs)
  obtain b1 where p: "bk_put K b (block_path K (sha c)) c = (Inr (), b1)"
    "upload_blocks K b1 (map (\<lambda>c. (sha c, c)) cs) = (Inr u, b')"
    using Cons.prems(1) by (auto split: prod.splits sum.splits)
  have o: "objects b1 = (objects b)(block_path K (sha c) \<mapsto> c)" by (rule put_ok [OF p(1)])
  have "blocks_addressed sha K objects b1"
    unfolding blocks_addressed_def
  proof (intro allI impI)
    fix c' d assume d: "objects b1 (block_path K (sha c')) = Some d"
    show "d = c'"
    proof (cases "c' = c")
      case False
      then have "block_path K (sha c') \<noteq> block_path K (sha c)" using assms(2) by (auto simp: distinct_digests_def dest: injD)
      with d Cons.prems(2) show ?thesis by (simp add: o blocks_addressed_def)
    qed (use d in \<open>simp add: o\<close>)
  qed
  note IH = Cons.IH [OF p(2) this]
  have kept: "objects b1 q = objects b q" if "objects b q \<noteq> None" for q
    using that Cons.prems(2) by (cases "q = block_path K (sha c)") (fastforce simp: o blocks_addressed_def)+
  have "objects b' q = objects b q" if "objects b q \<noteq> None" for q
    using IH kept [OF that] that by metis
  moreover have "objects b' (block_path K (sha c)) = Some c" using IH o by (metis fun_upd_same option.distinct(1))
  moreover have "objects b' q = objects b q" if "\<forall>c. q \<noteq> block_path K (sha c)" for q
    using IH that by (simp add: o)
  ultimately show ?case using IH by simp
qed simp

text \<open>After the uploads of a content, its blocks are stored, whatever was there before.\<close>

lemma missing_then_stored:
  assumes up: "upload_blocks K b (missing_blocks sha K b d) = (Inr u, b')"
    and sha: "distinct_digests sha K" "blocks_addressed sha K objects b"
    and "c \<in> set (chunks_of BLOCK_CHUNK d)"
  shows "objects b' (block_path K (sha c)) = Some c"
proof -
  let ?cs = "filter (\<lambda>c. case bk_get K b (block_path K (sha c)) of Inl _ \<Rightarrow> True | Inr _ \<Rightarrow> False) (chunks_of BLOCK_CHUNK d)"
  note st = upload_stores [OF up [unfolded missing_blocks_def] sha]
  show ?thesis
  proof (cases "bk_get K b (block_path K (sha c))")
    case (Inl e)
    with st assms(4) show ?thesis by simp
  next
    case (Inr x)
    then have x: "objects b (block_path K (sha c)) = Some x" by (simp add: get_eq)
    with sha(2) have "x = c" by (auto simp: blocks_addressed_def)
    with x st show ?thesis by simp
  qed
qed

definition bodies :: "'b \<Rightarrow> string \<Rightarrow> bytes" where
  "bodies b hash = the (objects b (block_path K hash))"

lemma chunked_stored:
  assumes "\<forall>c \<in> set (chunks_of BLOCK_CHUNK d). objects b (block_path K (sha c)) = Some c"
  shows "blocks_stored K objects b (bodies b) (blocks_of sha d)" "file_of (bodies b) (blocks_of sha d) = d"
proof -
  show "blocks_stored K objects b (bodies b) (blocks_of sha d)"
    using assms by (auto simp: blocks_stored_def blocks_of_def block_of_def bodies_def)
  have "map (\<lambda>r. bodies b (br_hash r)) (blocks_of sha d) = chunks_of BLOCK_CHUNK d"
    unfolding blocks_of_def map_map by (rule map_idI) (simp add: assms block_of_def bodies_def)
  then show "file_of (bodies b) (blocks_of sha d) = d"
    by (simp add: file_of_def concat_chunks BLOCK_CHUNK_def)
qed

text \<open>Reading a range of the block-backed file; the recorded size plays no part.\<close>

lemma read_chunked:
  assumes sha: "distinct_digests sha K" "blocks_addressed sha K objects b"
    and up: "upload_blocks K b (missing_blocks sha K b d) = (Inr u, b')"
    and cache: "\<forall>h x. cache h = Some x \<longrightarrow> objects b' (block_path K h) = Some x"
    and range: "length d < 2 ^ 64" "offset + len < 2 ^ 64"
  shows "\<exists>cache'. read_content K b' cache (Blocks (blocks_of sha d) sz) offset len = (Inr (take len (drop offset d)), cache') \<and>
     cache \<subseteq>\<^sub>m cache' \<and> dom cache' \<subseteq> dom cache \<union> overlapping offset (offset + len) 0 (blocks_of sha d)"
proof -
  have st: "\<forall>c \<in> set (chunks_of BLOCK_CHUNK d). objects b' (block_path K (sha c)) = Some c"
    using missing_then_stored [OF up sha] by blast
  note c = chunked_stored [OF st]
  have "cache_ok (bodies b') cache (blocks_of sha d)" using cache by (simp add: cache_ok_def bodies_def)
  from read_blocks_slice [OF c(1) this, of 0 offset "offset + len" "[]"] range
  show ?thesis by (simp add: c(2) read_content_def)
qed

end

section \<open>Property\<close>

text \<open>C27: large files survive chunking: after the blocks of a content were uploaded, skipping those the bucket already had,
  reading any range of the block-backed file gives exactly those bytes of the content (fewer at its end), and
  fetches no block that does not overlap the range.\<close>

theorem chunked_content_roundtrip:
  assumes bk: "bucket K objects" and sha: "distinct_digests sha K" "blocks_addressed sha K objects b"
    and up: "upload_blocks K b (missing_blocks sha K b d) = (Inr u, b')"
    and cache: "\<forall>h x. cache h = Some x \<longrightarrow> objects b' (block_path K h) = Some x"
    and range: "length d < 2 ^ 64" "offset + len < 2 ^ 64"
  shows "\<exists>cache'. read_content K b' cache (Blocks (blocks_of sha d) (length d)) offset len = (Inr (take len (drop offset d)), cache') \<and>
     cache \<subseteq>\<^sub>m cache' \<and> dom cache' \<subseteq> dom cache \<union> overlapping offset (offset + len) 0 (blocks_of sha d)"
  using bucket.read_chunked [OF bk sha up cache range] by blast

definition example_sha :: "bytes \<Rightarrow> string" where
  "example_sha c = c"

theorem chunked_content_roundtrip_witness:
  "\<exists>b' cache'. upload_blocks mem_bucket_ops [] (missing_blocks example_sha mem_bucket_ops [] ''hello'') = (Inr (), b') \<and>
     read_content mem_bucket_ops b' Map.empty (Blocks (blocks_of example_sha ''hello'') (length ''hello'')) 1 3 = (Inr ''ell'', cache')"
proof -
  have up: "upload_blocks mem_bucket_ops [] (missing_blocks example_sha mem_bucket_ops [] ''hello'') = (Inr (), [(''blocks/hello'', ''hello'')])"
    by (simp add: missing_blocks_def chunks_of.simps BLOCK_CHUNK_def mem_bucket_ops_def block_path_def example_sha_def)
  have "distinct_digests example_sha mem_bucket_ops" "blocks_addressed example_sha mem_bucket_ops map_of []"
    by (auto simp: distinct_digests_def blocks_addressed_def inj_def block_path_def mem_bucket_ops_def example_sha_def)
  from chunked_content_roundtrip [OF mem_bk.bucket_axioms this up, of Map.empty 1 3] up show ?thesis by auto
qed

end
