(* ===== verification/Volume.thy ===== *)
theory Volume
  imports Fs_Content Stream_Log
begin

text \<open>
  The write handle of the file-system crate (\<open>landslide-fuse/src/store.rs\<close>): mounting, buffering
  mutations, committing them as one batch and checkpointing, over the event store and a bucket.
  \<open>serde_json\<close> is the parameter record \<open>fs_codec\<close>; the clock is a sequence of readings, one for each
  delta that is applied.
\<close>

record fs_codec =
  json_fs_delta :: "fs_delta \<Rightarrow> string + bytes"
  unjson_fs_delta :: "bytes \<Rightarrow> string + fs_delta"
  json_segment :: "fs_segment \<Rightarrow> string + bytes"
  unjson_segment :: "bytes \<Rightarrow> string + fs_segment"
  json_fs_manifest :: "fs_manifest \<Rightarrow> string + bytes"
  unjson_fs_manifest :: "bytes \<Rightarrow> string + fs_manifest"

record volume =
  v_vol :: string
  v_token :: string
  v_image :: fs_image
  v_tail :: "version option"
  v_pending :: "fs_delta list"
  v_blocks :: block_cache

record 's volume_env =
  ve_fence :: "'s env"
  ve_append :: "nat \<Rightarrow> 's env"
  ve_publish :: "'s env"
  ve_ulid :: string
  ve_clock :: "nat \<Rightarrow> i64"
  ve_now :: i64

definition volume_record :: "string \<Rightarrow> version \<Rightarrow> i64 \<Rightarrow> compaction_record" where
  "volume_record vol through now =
     \<lparr>comp_stream = vol, comp_through_version = through, comp_events_compacted = 0, comp_job_id = None, comp_ts_ms = now\<rparr>"

definition tail_expected :: "version option \<Rightarrow> expected_version" where
  "tail_expected tail = (case tail of None \<Rightarrow> NoStream | Some v \<Rightarrow> Exact v)"

section \<open>Mount\<close>

text \<open>The closures folded over the events: what does not decode is skipped.\<close>

definition replay_event :: "fs_codec \<Rightarrow> (nat \<Rightarrow> i64) \<Rightarrow> nat \<times> fs_image \<Rightarrow> event \<Rightarrow> nat \<times> fs_image" where
  "replay_event Q clk st e =
     (case event_json (unjson_fs_delta Q) e of
        Inl _ \<Rightarrow> st
      | Inr d \<Rightarrow> (fst st + 1, fs_apply (clk (fst st)) (snd st) d))"

definition gather_event :: "fs_codec \<Rightarrow> (nat \<Rightarrow> i64) \<Rightarrow> nat \<times> delta_image \<Rightarrow> event \<Rightarrow> nat \<times> delta_image" where
  "gather_event Q clk st e =
     (case event_json (unjson_fs_delta Q) e of
        Inl _ \<Rightarrow> st
      | Inr d \<Rightarrow> (fst st + 1, di_apply (clk (fst st)) (snd st) d))"

definition load_segments :: "fs_codec \<Rightarrow> 'b bucket_ops \<Rightarrow> 'b \<Rightarrow> bytes \<Rightarrow> fs_image res" where
  "load_segments Q K b manifest_bytes =
     bind_res (map_err Encoding (unjson_fs_manifest Q manifest_bytes)) (\<lambda>manifest.
       fold_res (\<lambda>img path.
           bind_res (map_err bucket_io (bk_get K b (bk_path K path))) (\<lambda>bytes.
           bind_res (map_err Encoding (unjson_segment Q bytes)) (\<lambda>seg. Inr (merge_segment img seg))))
         fs_image_default (fm_segments manifest))"

definition volume_base :: "fs_codec \<Rightarrow> 'b bucket_ops \<Rightarrow> 'b \<Rightarrow> snapshot_record option \<Rightarrow> (fs_image \<times> version) res" where
  "volume_base Q K b snap =
     (case snap of
        None \<Rightarrow> Inr (fs_image_default, 0)
      | Some r \<Rightarrow> bind_res (load_segments Q K b (snap_state r)) (\<lambda>img. Inr (img, add64 (snap_through_version r) 1)))"

text \<open>What \<open>mount\<close> reads after it has taken the fence: the image, and the tail the fold returns.\<close>

definition volume_load ::
  "('s, 't) slatedb_ops \<Rightarrow> codec \<Rightarrow> fs_codec \<Rightarrow> 'b bucket_ops \<Rightarrow> (nat \<Rightarrow> i64) \<Rightarrow> 's \<Rightarrow> 'b \<Rightarrow> string \<Rightarrow>
   (fs_image \<times> version option) res option" where
  "volume_load B C Q K clk s b vol =
     (case bind_res (latest_snapshot B C s vol) (volume_base Q K b) of
        Inl e \<Rightarrow> Some (Inl e)
      | Inr (img, start) \<Rightarrow>
          map_option (\<lambda>r. bind_res r (\<lambda>((_, img'), tail). Inr (img', tail)))
            (store_fold B C s vol (Included start, Unbounded) (0, img) (replay_event Q clk)))"

definition volume_mount ::
  "('s, 't) slatedb_ops \<Rightarrow> codec \<Rightarrow> fs_codec \<Rightarrow> 'b bucket_ops \<Rightarrow> 's volume_env \<Rightarrow> 's \<Rightarrow> 'b \<Rightarrow> string \<Rightarrow> (volume res \<times> 's) option" where
  "volume_mount B C Q K E s b vol =
     (let token = ve_ulid E in
      case fence B C (ve_fence E) s vol (Some token) of
        (Inl e, s') \<Rightarrow> Some (Inl e, s')
      | (Inr _, s') \<Rightarrow>
          map_option (\<lambda>r. (bind_res r (\<lambda>(img, tail).
              Inr \<lparr>v_vol = vol, v_token = token, v_image = img, v_tail = tail, v_pending = [], v_blocks = Map.empty\<rparr>), s'))
            (volume_load B C Q K (ve_clock E) s' b vol))"

section \<open>Mutations\<close>

definition mutate :: "i64 \<Rightarrow> volume \<Rightarrow> fs_delta \<Rightarrow> volume" where
  "mutate now v d = v\<lparr>v_image := fs_apply now (v_image v) d, v_pending := v_pending v @ [d]\<rparr>"

definition write_file :: "i64 \<Rightarrow> volume \<Rightarrow> string \<Rightarrow> u64 \<Rightarrow> bytes \<Rightarrow> volume" where
  "write_file now v path offset data = mutate now v (Write path offset (InlineData data))"

definition volume_read_file :: "'b bucket_ops \<Rightarrow> 'b \<Rightarrow> volume \<Rightarrow> string \<Rightarrow> bytes option res \<times> volume" where
  "volume_read_file K b v path =
     apsnd (\<lambda>c. v\<lparr>v_blocks := c\<rparr>) (image_read_file K (v_image v) b (v_blocks v) path)"

definition volume_read_range :: "'b bucket_ops \<Rightarrow> 'b \<Rightarrow> volume \<Rightarrow> string \<Rightarrow> u64 \<Rightarrow> u64 \<Rightarrow> bytes option res \<times> volume" where
  "volume_read_range K b v path offset len =
     apsnd (\<lambda>c. v\<lparr>v_blocks := c\<rparr>) (image_read_range K (v_image v) b (v_blocks v) path offset len)"

definition truncate :: "'b bucket_ops \<Rightarrow> i64 \<Rightarrow> 'b \<Rightarrow> volume \<Rightarrow> string \<Rightarrow> u64 \<Rightarrow> unit res \<times> volume" where
  "truncate K now b v path sz =
     (case volume_read_file K b v path of
        (Inl e, v') \<Rightarrow> (Inl e, v')
      | (Inr content, v') \<Rightarrow>
          let c = resize sz (case content of None \<Rightarrow> [] | Some d \<Rightarrow> d) in
          (Inr (), mutate now (mutate now v' (Remove path)) (Write path 0 (InlineData c))))"

section \<open>Commit\<close>

text \<open>
  The loop over the pending deltas: the uploads and the upgraded deltas. \<open>chunked\<close> holds the paths
  that already have their full replacement.
\<close>

fun upgrade ::
  "(bytes \<Rightarrow> string) \<Rightarrow> 'b bucket_ops \<Rightarrow> 'b \<Rightarrow> fs_image \<Rightarrow> string set \<Rightarrow> fs_delta list \<Rightarrow> (string \<times> bytes) list \<times> fs_delta list" where
  "upgrade sha K b img chunked [] = ([], [])"
| "upgrade sha K b img chunked (Write path offset data # ds) =
     (if path \<in> chunked then upgrade sha K b img chunked ds
      else case map_of (nodes img) path of
        Some (File (Inline content) m) \<Rightarrow>
          if length content \<le> BLOCK_CHUNK then apsnd ((#) (Write path offset data)) (upgrade sha K b img chunked ds)
          else map_prod ((@) (missing_blocks sha K b content)) ((#) (Write path 0 (BlocksData (blocks_of sha content))))
                 (upgrade sha K b img (insert path chunked) ds)
      | _ \<Rightarrow> apsnd ((#) (Write path offset data)) (upgrade sha K b img chunked ds))"
| "upgrade sha K b img chunked (d # ds) = apsnd ((#) d) (upgrade sha K b img chunked ds)"

fun is_blocks_write :: "fs_delta \<Rightarrow> bool" where
  "is_blocks_write (Write _ _ (BlocksData _)) = True"
| "is_blocks_write _ = False"

definition volume_commit ::
  "('s, 't) slatedb_ops \<Rightarrow> codec \<Rightarrow> fs_codec \<Rightarrow> (bytes \<Rightarrow> string) \<Rightarrow> 'b bucket_ops \<Rightarrow> 's volume_env \<Rightarrow> 's \<Rightarrow> 'b \<Rightarrow> volume \<Rightarrow>
   unit res \<times> volume \<times> 's \<times> 'b" where
  "volume_commit B C Q sha K E s b v =
     (if v_pending v = [] then (Inr (), v, s, b)
      else let (uploads, upgraded) = upgrade sha K b (v_image v) {} (v_pending v) in
        case upload_blocks K b uploads of
          (Inl e, b') \<Rightarrow> (Inl e, v, s, b')
        | (Inr _, b') \<Rightarrow>
            let v' = v\<lparr>v_image := foldl (fs_apply (ve_now E)) (v_image v) (filter is_blocks_write upgraded)\<rparr> in
            (case map_res (new_event_json (json_fs_delta Q) ''delta'') upgraded of
               Inl e \<Rightarrow> (Inl e, v', s, b')
             | Inr events \<Rightarrow>
                 (case append_with_token B C (ve_append E) s (v_vol v) (v_token v) (tail_expected (v_tail v)) events of
                    (Inl e, s') \<Rightarrow> (Inl e, v', s', b')
                  | (Inr info, s') \<Rightarrow>
                      (Inr (), v'\<lparr>v_tail := Some (last_version info), v_pending := []\<rparr>, s', b'))))"

section \<open>Checkpoint\<close>

definition seal_segment ::
  "('s, 't) slatedb_ops \<Rightarrow> codec \<Rightarrow> fs_codec \<Rightarrow> 'b bucket_ops \<Rightarrow> 's volume_env \<Rightarrow> 's \<Rightarrow> 'b \<Rightarrow> string \<Rightarrow> fs_segment res option" where
  "seal_segment B C Q K E s b vol =
     (case bind_res (latest_snapshot B C s vol) (volume_base Q K b) of
        Inl e \<Rightarrow> Some (Inl e)
      | Inr (base, start) \<Rightarrow>
          map_option (\<lambda>r. bind_res r (\<lambda>((_, di), _). Inr \<lparr>sg_entries = di_entries di\<rparr>))
            (store_fold B C s vol (Included start, Unbounded) (0, \<lparr>di_entries = [], di_live = base\<rparr>)
               (gather_event Q (ve_clock E))))"

definition put_segment ::
  "fs_codec \<Rightarrow> 'b bucket_ops \<Rightarrow> 'b \<Rightarrow> string \<Rightarrow> fs_segment \<Rightarrow> unit res \<times> 'b" where
  "put_segment Q K b path seg =
     (case map_err Encoding (json_segment Q seg) of
        Inl e \<Rightarrow> (Inl e, b)
      | Inr bytes \<Rightarrow> apfst (map_err bucket_io) (bk_put K b path bytes))"

definition extend_manifest ::
  "('s, 't) slatedb_ops \<Rightarrow> codec \<Rightarrow> fs_codec \<Rightarrow> 's \<Rightarrow> string \<Rightarrow> string \<Rightarrow> bytes res" where
  "extend_manifest B C Q s vol path =
     bind_res (latest_snapshot B C s vol) (\<lambda>snap.
     bind_res (case snap of
         None \<Rightarrow> Inr fs_manifest_default
       | Some r \<Rightarrow> map_err Encoding (unjson_fs_manifest Q (snap_state r))) (\<lambda>m.
       map_err Encoding (json_fs_manifest Q (m\<lparr>fm_segments := fm_segments m @ [path]\<rparr>))))"

definition volume_checkpoint ::
  "('s, 't) slatedb_ops \<Rightarrow> codec \<Rightarrow> fs_codec \<Rightarrow> (bytes \<Rightarrow> string) \<Rightarrow> 'b bucket_ops \<Rightarrow> 's volume_env \<Rightarrow> 's \<Rightarrow> 'b \<Rightarrow> volume \<Rightarrow>
   (compaction_record res \<times> volume \<times> 's \<times> 'b) option" where
  "volume_checkpoint B C Q sha K E s b v =
     (case volume_commit B C Q sha K E s b v of
        (Inl e, v1, s1, b1) \<Rightarrow> Some (Inl e, v1, s1, b1)
      | (Inr _, v1, s1, b1) \<Rightarrow>
          (case v_tail v1 of
             None \<Rightarrow> Some (Inl (InvalidInput ''nothing to checkpoint''), v1, s1, b1)
           | Some through \<Rightarrow>
               (case seal_segment B C Q K E s1 b1 (v_vol v1) of
                  None \<Rightarrow> None
                | Some (Inl e) \<Rightarrow> Some (Inl e, v1, s1, b1)
                | Some (Inr seg) \<Rightarrow>
                    let path = bk_path K (''segments/'' @ v_vol v1 @ ''/'' @ ve_ulid E) in
                    (case put_segment Q K b1 path seg of
                       (Inl e, b2) \<Rightarrow> Some (Inl e, v1, s1, b2)
                     | (Inr _, b2) \<Rightarrow>
                         (case extend_manifest B C Q s1 (v_vol v1) path of
                            Inl e \<Rightarrow> Some (Inl e, v1, s1, b2)
                          | Inr state \<Rightarrow>
                              let rec = volume_record (v_vol v1) through (ve_now E) in
                              (case publish_snapshot B C (ve_publish E) s1 (v_vol v1) rec state of
                                 (Inl e, s2) \<Rightarrow> Some (Inl e, v1, s2, b2)
                               | (Inr _, s2) \<Rightarrow> Some (Inr rec, v1, s2, b2)))))))"

definition volume_tail :: "('s, 't) slatedb_ops \<Rightarrow> codec \<Rightarrow> 's \<Rightarrow> volume \<Rightarrow> version option res" where
  "volume_tail B C s v = stream_version B C s (v_vol v)"

definition block_cache_len :: "volume \<Rightarrow> nat" where
  "block_cache_len v = card (dom (v_blocks v))"

end
