(* ===== verification/Replica.thy ===== *)
theory Replica
  imports Volume
begin

text \<open>
  The read-only replica of a volume (\<open>landslide-fuse/src/replica.rs\<close>): opening, syncing with the
  stream through a reader, and rebuilding from the latest checkpoint when retention cut the backlog.
  A reader follows the writer while a call runs: the sequence \<open>rs\<close> gives what each of its reads sees.
\<close>

record replica =
  rp_vol :: string
  rp_image :: fs_image
  rp_cursor :: "version option"
  rp_blocks :: block_cache

text \<open>The loop over the events: a delta is applied when it decodes, and the cursor moves in any case.\<close>

definition follow_event :: "fs_codec \<Rightarrow> (nat \<Rightarrow> i64) \<Rightarrow> nat \<times> replica \<Rightarrow> event \<Rightarrow> nat \<times> replica" where
  "follow_event Q clk st e =
     (case event_json (unjson_fs_delta Q) e of
        Inl _ \<Rightarrow> (fst st, (snd st)\<lparr>rp_cursor := Some (ev_version e)\<rparr>)
      | Inr d \<Rightarrow> (fst st + 1,
          (snd st)\<lparr>rp_image := fs_apply (clk (fst st)) (rp_image (snd st)) d, rp_cursor := Some (ev_version e)\<rparr>))"

text \<open>\<open>reload\<close>: its two reads are \<open>rs 2\<close> and \<open>rs 3\<close> of the sync that calls it.\<close>

definition reload ::
  "codec \<Rightarrow> fs_codec \<Rightarrow> 'b bucket_ops \<Rightarrow> (nat \<Rightarrow> kv_read) \<Rightarrow> 'b \<Rightarrow> replica \<Rightarrow> event list res \<times> replica" where
  "reload C Q K rs b rp =
     (case reader_latest_snapshot C (rs 2) (rp_vol rp) of
        Inl e \<Rightarrow> (Inl e, rp)
      | Inr None \<Rightarrow>
          (Inl (InvalidInput (''volume '' @ debug_str (rp_vol rp) @ '': backlog pruned but no checkpoint to rebuild from'')), rp)
      | Inr (Some snap) \<Rightarrow> (case load_segments Q K b (snap_state snap) of
          Inl e \<Rightarrow> (Inl e, rp)
        | Inr img \<Rightarrow>
            let start = add64 (snap_through_version snap) 1 in
            (case reader_read_stream C (rs 3) (rp_vol rp) (Included start, Unbounded) of
               Inl e \<Rightarrow> (Inl e, rp)
             | Inr events \<Rightarrow>
                 if events \<noteq> [] \<and> start < ev_version (hd events) then
                   (Inl (InvalidInput (''volume '' @ debug_str (rp_vol rp) @ '': deltas v'' @ show_nat start @ ''..v'' @
                      show_nat (ev_version (hd events)) @ '' pruned past the latest checkpoint (v'' @
                      show_nat (snap_through_version snap) @ ''); retry after the writer checkpoints'')), rp)
                 else (Inr events, rp\<lparr>rp_image := img, rp_cursor := Some (snap_through_version snap)\<rparr>))))"

definition sync_gap :: "codec \<Rightarrow> (nat \<Rightarrow> kv_read) \<Rightarrow> string \<Rightarrow> version \<Rightarrow> event list \<Rightarrow> bool res" where
  "sync_gap C rs vol start events =
     (case events of
        e # _ \<Rightarrow> Inr (start < ev_version e)
      | [] \<Rightarrow> bind_res (reader_latest_snapshot C (rs 1) vol) (\<lambda>snap.
          Inr (case snap of None \<Rightarrow> False | Some r \<Rightarrow> start \<le> snap_through_version r)))"

definition replica_sync ::
  "codec \<Rightarrow> fs_codec \<Rightarrow> 'b bucket_ops \<Rightarrow> (nat \<Rightarrow> i64) \<Rightarrow> (nat \<Rightarrow> kv_read) \<Rightarrow> 'b \<Rightarrow> replica \<Rightarrow> unit res \<times> replica" where
  "replica_sync C Q K clk rs b rp =
     (let start = (case rp_cursor rp of None \<Rightarrow> 0 | Some c \<Rightarrow> add64 c 1) in
      case reader_read_stream C (rs 0) (rp_vol rp) (Included start, Unbounded) of
        Inl e \<Rightarrow> (Inl e, rp)
      | Inr events \<Rightarrow> (case sync_gap C rs (rp_vol rp) start events of
          Inl e \<Rightarrow> (Inl e, rp)
        | Inr gap \<Rightarrow>
            (case (if gap then reload C Q K rs b rp else (Inr events, rp)) of
               (Inl e, rp') \<Rightarrow> (Inl e, rp')
             | (Inr events', rp') \<Rightarrow> (Inr (), snd (foldl (follow_event Q clk) (0, rp') events')))))"

definition replica_open ::
  "codec \<Rightarrow> fs_codec \<Rightarrow> 'b bucket_ops \<Rightarrow> (nat \<Rightarrow> i64) \<Rightarrow> (nat \<Rightarrow> kv_read) \<Rightarrow> 'b \<Rightarrow> string \<Rightarrow> replica res" where
  "replica_open C Q K clk rs b vol =
     (case replica_sync C Q K clk rs b
             \<lparr>rp_vol = vol, rp_image = fs_image_default, rp_cursor = None, rp_blocks = Map.empty\<rparr> of
        (Inl e, _) \<Rightarrow> Inl e
      | (Inr _, rp) \<Rightarrow> Inr rp)"

definition replica_read_file :: "'b bucket_ops \<Rightarrow> 'b \<Rightarrow> replica \<Rightarrow> string \<Rightarrow> bytes option res \<times> replica" where
  "replica_read_file K b rp path =
     apsnd (\<lambda>c. rp\<lparr>rp_blocks := c\<rparr>) (image_read_file K (rp_image rp) b (rp_blocks rp) path)"

definition replica_read_range :: "'b bucket_ops \<Rightarrow> 'b \<Rightarrow> replica \<Rightarrow> string \<Rightarrow> u64 \<Rightarrow> u64 \<Rightarrow> bytes option res \<times> replica" where
  "replica_read_range K b rp path offset len =
     apsnd (\<lambda>c. rp\<lparr>rp_blocks := c\<rparr>) (image_read_range K (rp_image rp) b (rp_blocks rp) path offset len)"

definition replica_cache_len :: "replica \<Rightarrow> nat" where
  "replica_cache_len rp = card (dom (rp_blocks rp))"

end
