(* ===== verification/Fuse_Fs.thy ===== *)
theory Fuse_Fs
  imports Replica
begin

text \<open>
  The FUSE adapter (\<open>landslide-fuse/src/fs.rs\<close>): the inode tables, the open handles with their
  staged extents, and one definition for each handler of the \<open>Filesystem\<close> trait, over a volume or a
  replica. A handler gets the request and gives the reply it sends together with the new state.

  What a handler takes from outside is in \<open>fuse_env\<close>: the readings of \<open>now_ms\<close> and of the system
  clock, the caller's ids, the iteration order of a hash map, the reply buffer of \<open>readdir\<close>
  (\<open>ReplyDirectory::add\<close>), and what the background task of a replica mount did to the replica before
  the handler's n-th lock of it. A volume is used by its mount only. A name that is not UTF-8, for
  which \<open>to_str\<close> gives \<open>None\<close>, is \<^const>\<open>None\<close>. A system time counts nanoseconds from the epoch.
\<close>

unbundle bit_operations_syntax

section \<open>State\<close>

datatype errno =
  EROFS | EIO | EINVAL | ENOENT | ENOTDIR | EEXIST | EISDIR | ELOOP | ENOSYS | EBADF | ENOTEMPTY | NO_XATTR | ERANGE

text \<open>The outcome of a handler or of one of its calls: a value, an error number, or a panic.\<close>

datatype 'a reply = Reply 'a | Fail errno | Crash

type_synonym systime = int
type_synonym os_str = "string option"

datatype file_type = RegularFile | Directory | SymlinkFile

record file_attr =
  fa_ino :: u64
  fa_size :: u64
  fa_blocks :: u64
  fa_atime :: systime
  fa_mtime :: systime
  fa_ctime :: systime
  fa_crtime :: systime
  fa_kind :: file_type
  fa_perm :: nat
  fa_nlink :: u32
  fa_uid :: u32
  fa_gid :: u32
  fa_rdev :: u32
  fa_blksize :: u32
  fa_flags :: u32

record ino_state =
  st_path_of :: "u64 \<rightharpoonup> string"
  st_ino_of :: "string \<rightharpoonup> u64"
  st_next_ino :: u64

record fuse_handle =
  h_ino :: u64
  h_extents :: "(u64 \<times> bytes) list"

datatype backend = VolumeBackend volume | ReplicaBackend replica

text \<open>The file system with the store and the bucket its backend writes to.\<close>

record ('s, 'b) landslide_fs =
  lf_backend :: backend
  lf_state :: ino_state
  lf_handles :: "u64 \<rightharpoonup> fuse_handle"
  lf_next_fh :: u64
  lf_store :: 's
  lf_bucket :: 'b

type_synonym dir_entry = "u64 \<times> u64 \<times> file_type \<times> string"

record 's fuse_env =
  fe_volume :: "'s volume_env"
  fe_now :: "nat \<Rightarrow> i64"
  fe_times :: "nat \<Rightarrow> systime"
  fe_uid :: u32
  fe_gid :: u32
  fe_iter :: "(string \<rightharpoonup> u64) \<Rightarrow> (string \<times> u64) list"
  fe_add :: "dir_entry list \<Rightarrow> dir_entry \<Rightarrow> bool \<times> dir_entry list"
  fe_sync :: "nat \<Rightarrow> replica \<Rightarrow> replica"

text \<open>The crates the adapter calls into.\<close>

record ('s, 't, 'b) fuse_deps =
  fd_db :: "('s, 't) slatedb_ops"
  fd_codec :: codec
  fd_fs :: fs_codec
  fd_sha :: "bytes \<Rightarrow> string"
  fd_bucket :: "'b bucket_ops"

subsection \<open>Inode tables\<close>

definition state_new :: ino_state where
  "state_new = \<lparr>st_path_of = [1 \<mapsto> ''/''], st_ino_of = [''/'' \<mapsto> 1], st_next_ino = 2\<rparr>"

definition state_ino :: "string \<Rightarrow> ino_state \<Rightarrow> u64 \<times> ino_state" where
  "state_ino path st =
     (case st_ino_of st path of
        Some i \<Rightarrow> (i, st)
      | None \<Rightarrow>
          let i = st_next_ino st in
          (i, st\<lparr>st_next_ino := add64 i 1, st_ino_of := (st_ino_of st)(path \<mapsto> i), st_path_of := (st_path_of st)(i \<mapsto> path)\<rparr>))"

definition remap :: "string \<Rightarrow> string \<Rightarrow> string \<Rightarrow> string option" where
  "remap src to p =
     (if p = src then Some to
      else if prefix (src @ ''/'') p then Some (to @ ''/'' @ drop (length src + 1) p)
      else None)"

definition move_ino :: "string \<Rightarrow> string \<Rightarrow> ino_state \<Rightarrow> string \<times> u64 \<Rightarrow> ino_state" where
  "move_ino src to st e =
     (case e of (p, i) \<Rightarrow>
        let np = the (remap src to p) in
        st\<lparr>st_ino_of := ((st_ino_of st)(p := None))(np \<mapsto> i), st_path_of := (st_path_of st)(i \<mapsto> np)\<rparr>)"

definition rename_subtree :: "((string \<rightharpoonup> u64) \<Rightarrow> (string \<times> u64) list) \<Rightarrow> string \<Rightarrow> string \<Rightarrow> ino_state \<Rightarrow> ino_state" where
  "rename_subtree it src to st =
     foldl (move_ino src to) st (filter (\<lambda>(p, _). remap src to p \<noteq> None) (it (st_ino_of st)))"

subsection \<open>Backend access\<close>

definition with_backend :: "backend \<Rightarrow> 's \<Rightarrow> 'b \<Rightarrow> ('s, 'b) landslide_fs" where
  "with_backend bk s b =
     \<lparr>lf_backend = bk, lf_state = state_new, lf_handles = Map.empty, lf_next_fh = 1, lf_store = s, lf_bucket = b\<rparr>"

definition backend_image :: "backend \<Rightarrow> fs_image" where
  "backend_image bk = (case bk of VolumeBackend v \<Rightarrow> v_image v | ReplicaBackend r \<Rightarrow> rp_image r)"

text \<open>Taking the lock of the backend for the n-th time.\<close>

definition lock_backend :: "'s fuse_env \<Rightarrow> nat \<Rightarrow> ('s, 'b) landslide_fs \<Rightarrow> ('s, 'b) landslide_fs" where
  "lock_backend E n fs =
     (case lf_backend fs of
        VolumeBackend _ \<Rightarrow> fs
      | ReplicaBackend r \<Rightarrow> fs\<lparr>lf_backend := ReplicaBackend (fe_sync E n r)\<rparr>)"

definition fuse_image :: "'s fuse_env \<Rightarrow> nat \<Rightarrow> (fs_image \<Rightarrow> 'a) \<Rightarrow> ('s, 'b) landslide_fs \<Rightarrow> 'a \<times> ('s, 'b) landslide_fs" where
  "fuse_image E n f fs = (let fs' = lock_backend E n fs in (f (backend_image (lf_backend fs')), fs'))"

text \<open>\<open>map_err(|_| Errno::EIO)\<close>; a panic below is not an error value.\<close>

definition io_result :: "'a res \<Rightarrow> 'a reply" where
  "io_result r = (case r of Inr x \<Rightarrow> Reply x | Inl (Panicked _) \<Rightarrow> Crash | Inl _ \<Rightarrow> Fail EIO)"

definition clocked :: "'s fuse_env \<Rightarrow> nat \<Rightarrow> fs_delta list \<Rightarrow> (i64 \<times> fs_delta) list" where
  "clocked E k ds = map (\<lambda>(n, d). (fe_now E n, d)) (enumerate k ds)"

definition fuse_commit ::
  "('s, 't, 'b) fuse_deps \<Rightarrow> 's fuse_env \<Rightarrow> nat \<Rightarrow> fs_delta list \<Rightarrow> ('s, 'b) landslide_fs \<Rightarrow> unit reply \<times> ('s, 'b) landslide_fs" where
  "fuse_commit D E k deltas fs =
     (case lf_backend fs of
        ReplicaBackend _ \<Rightarrow> (Fail EROFS, fs)
      | VolumeBackend v \<Rightarrow>
          (case volume_commit (fd_db D) (fd_codec D) (fd_fs D) (fd_sha D) (fd_bucket D) (fe_volume E) (lf_store fs) (lf_bucket fs)
                  (foldl (\<lambda>v (now, d). mutate now v d) v (clocked E k deltas)) of
             (r, v', s', b') \<Rightarrow> (io_result r, fs\<lparr>lf_backend := VolumeBackend v', lf_store := s', lf_bucket := b'\<rparr>)))"

definition fuse_read_file ::
  "('s, 't, 'b) fuse_deps \<Rightarrow> 's fuse_env \<Rightarrow> nat \<Rightarrow> string \<Rightarrow> ('s, 'b) landslide_fs \<Rightarrow> bytes option reply \<times> ('s, 'b) landslide_fs" where
  "fuse_read_file D E n path fs =
     (let fs' = lock_backend E n fs in
      case lf_backend fs' of
        VolumeBackend v \<Rightarrow>
          (case volume_read_file (fd_bucket D) (lf_bucket fs') v path of
             (r, v') \<Rightarrow> (io_result r, fs'\<lparr>lf_backend := VolumeBackend v'\<rparr>))
      | ReplicaBackend rp \<Rightarrow>
          (case replica_read_file (fd_bucket D) (lf_bucket fs') rp path of
             (r, rp') \<Rightarrow> (io_result r, fs'\<lparr>lf_backend := ReplicaBackend rp'\<rparr>)))"

definition fuse_read_range ::
  "('s, 't, 'b) fuse_deps \<Rightarrow> 's fuse_env \<Rightarrow> nat \<Rightarrow> string \<Rightarrow> u64 \<Rightarrow> u64 \<Rightarrow> ('s, 'b) landslide_fs \<Rightarrow>
   bytes option reply \<times> ('s, 'b) landslide_fs" where
  "fuse_read_range D E n path offset len fs =
     (let fs' = lock_backend E n fs in
      case lf_backend fs' of
        VolumeBackend v \<Rightarrow>
          (case volume_read_range (fd_bucket D) (lf_bucket fs') v path offset len of
             (r, v') \<Rightarrow> (io_result r, fs'\<lparr>lf_backend := VolumeBackend v'\<rparr>))
      | ReplicaBackend rp \<Rightarrow>
          (case replica_read_range (fd_bucket D) (lf_bucket fs') rp path offset len of
             (r, rp') \<Rightarrow> (io_result r, fs'\<lparr>lf_backend := ReplicaBackend rp'\<rparr>)))"

definition fuse_truncate ::
  "('s, 't, 'b) fuse_deps \<Rightarrow> 's fuse_env \<Rightarrow> nat \<Rightarrow> string \<Rightarrow> u64 \<Rightarrow> ('s, 'b) landslide_fs \<Rightarrow> unit reply \<times> ('s, 'b) landslide_fs" where
  "fuse_truncate D E k path sz fs =
     (case lf_backend fs of
        VolumeBackend v \<Rightarrow>
          (case Volume.truncate (fd_bucket D) (fe_now E k) (lf_bucket fs) v path sz of
             (r, v') \<Rightarrow> (io_result r, fs\<lparr>lf_backend := VolumeBackend v'\<rparr>))
      | ReplicaBackend _ \<Rightarrow> (Fail EROFS, fs))"

definition new_handle :: "u64 \<Rightarrow> ('s, 'b) landslide_fs \<Rightarrow> u64 \<times> ('s, 'b) landslide_fs" where
  "new_handle ino fs =
     (let fh = lf_next_fh fs in
      (fh, fs\<lparr>lf_next_fh := add64 fh 1, lf_handles := (lf_handles fs)(fh \<mapsto> \<lparr>h_ino = ino, h_extents = []\<rparr>)\<rparr>))"

definition path_of :: "('s, 'b) landslide_fs \<Rightarrow> u64 \<Rightarrow> string option" where
  "path_of fs ino = st_path_of (lf_state fs) ino"

text \<open>\<open>self.state.lock().unwrap().ino(path)\<close>.\<close>

definition ino_at :: "string \<Rightarrow> ('s, 'b) landslide_fs \<Rightarrow> u64 \<times> ('s, 'b) landslide_fs" where
  "ino_at path fs = apsnd (\<lambda>st. fs\<lparr>lf_state := st\<rparr>) (state_ino path (lf_state fs))"

definition flush_fh ::
  "('s, 't, 'b) fuse_deps \<Rightarrow> 's fuse_env \<Rightarrow> u64 \<Rightarrow> ('s, 'b) landslide_fs \<Rightarrow> unit reply \<times> ('s, 'b) landslide_fs" where
  "flush_fh D E fh fs =
     (case lf_handles fs fh of
        None \<Rightarrow> (Reply (), fs)
      | Some h \<Rightarrow>
          if h_extents h = [] then (Reply (), fs)
          else let fs1 = fs\<lparr>lf_handles := (lf_handles fs)(fh \<mapsto> h\<lparr>h_extents := []\<rparr>)\<rparr> in
            (case path_of fs1 (h_ino h) of
               None \<Rightarrow> (Reply (), fs1)
             | Some path \<Rightarrow>
                 fuse_commit D E 1
                   (map (\<lambda>(offset, data). Write path offset (InlineData data)) (h_extents h) @
                    [SetAttr path None None None (Some (fe_now E 0))]) fs1))"

section \<open>Paths and attributes\<close>

definition join_path :: "string \<Rightarrow> string \<Rightarrow> string" where
  "join_path parent name = (if parent = ''/'' then ''/'' @ name else parent @ ''/'' @ name)"

definition rfind :: "char \<Rightarrow> string \<Rightarrow> nat option" where
  "rfind c s = (if c \<in> set s then Some (length s - 1 - length (takeWhile (\<lambda>x. x \<noteq> c) (rev s))) else None)"

definition parent_path :: "string \<Rightarrow> string" where
  "parent_path path =
     (case rfind CHR ''/'' path of
        None \<Rightarrow> ''/''
      | Some i \<Rightarrow> if i = 0 then ''/'' else take i path)"

fun kind_of :: "node \<Rightarrow> file_type" where
  "kind_of (File _ _) = RegularFile"
| "kind_of (Dir _) = Directory"
| "kind_of (Symlink _ _) = SymlinkFile"

definition child_step :: "string \<Rightarrow> (string, file_type) btree \<Rightarrow> string \<times> node \<Rightarrow> (string, file_type) btree" where
  "child_step pre out e =
     (if prefix pre (fst e) then
        let rest = drop (length pre) (fst e) in
        if rest = [] \<or> CHR ''/'' \<in> set rest then out else bt_insert rest (kind_of (snd e)) out
      else out)"

definition children :: "fs_image \<Rightarrow> string \<Rightarrow> (string, file_type) btree" where
  "children img dir = foldl (child_step (if dir = ''/'' then ''/'' else dir @ ''/'')) [] (nodes img)"

definition nlink_of :: "fs_image \<Rightarrow> string \<Rightarrow> file_type \<Rightarrow> u32" where
  "nlink_of img path kind =
     (if kind \<noteq> Directory then 1
      else 2 + length (filter (\<lambda>(_, k). k = Directory) (children img path)) mod 2 ^ 32)"

definition ROOT_META :: node_meta where
  "ROOT_META = \<lparr>nm_mode = 7 * 64 + 5 * 8 + 5, nm_uid = 0, nm_gid = 0, nm_mtime_ms = 0, nm_xattrs = []\<rparr>"

text \<open>The permission bits, the octal literal 7777.\<close>

abbreviation PERM_BITS :: nat where
  "PERM_BITS \<equiv> 7 * 512 + 7 * 64 + 7 * 8 + 7"

definition ts :: "i64 \<Rightarrow> systime" where
  "ts ms = max ms 0 * 1000000"

definition ts_ms :: "systime \<Rightarrow> i64" where
  "ts_ms t = (if t < 0 then 0 else (t div 1000000 + 2 ^ 63) mod 2 ^ 64 - 2 ^ 63)"

definition attr_parts :: "fs_image \<Rightarrow> string \<Rightarrow> (file_type \<times> u64 \<times> node_meta) option" where
  "attr_parts img path =
     (if path = ''/'' then Some (Directory, 0, ROOT_META)
      else case map_of (nodes img) path of
        None \<Rightarrow> None
      | Some (File content meta) \<Rightarrow> Some (RegularFile, content_len content, meta)
      | Some (Dir meta) \<Rightarrow> Some (Directory, 0, meta)
      | Some (Symlink target meta) \<Rightarrow> Some (SymlinkFile, length target, meta))"

definition attr_of :: "fs_image \<Rightarrow> u64 \<Rightarrow> string \<Rightarrow> file_attr option" where
  "attr_of img ino path =
     map_option (\<lambda>(kind, size, meta).
       \<lparr>fa_ino = ino, fa_size = size, fa_blocks = (size + 511) div 512,
        fa_atime = ts (nm_mtime_ms meta), fa_mtime = ts (nm_mtime_ms meta), fa_ctime = ts (nm_mtime_ms meta),
        fa_crtime = ts (nm_mtime_ms meta), fa_kind = kind, fa_perm = nm_mode meta AND PERM_BITS,
        fa_nlink = nlink_of img path kind, fa_uid = nm_uid meta, fa_gid = nm_gid meta,
        fa_rdev = 0, fa_blksize = 4096, fa_flags = 0\<rparr>) (attr_parts img path)"

section \<open>Handlers\<close>

text \<open>What a reply carries. Entries and attributes go out with a zero time to live and generation 0.\<close>

datatype answer =
  EntryAnswer file_attr
| AttrAnswer file_attr
| DataAnswer bytes
| OpenedAnswer u64
| CreatedAnswer file_attr u64
| WrittenAnswer u32
| DirectoryAnswer "dir_entry list"
| SizeAnswer u32
| EmptyAnswer

type_synonym ('s, 'b) outcome = "answer reply \<times> ('s, 'b) landslide_fs"

definition is_dir_at :: "string \<Rightarrow> fs_image \<Rightarrow> bool" where
  "is_dir_at path img \<longleftrightarrow>
     path = ''/'' \<or> (case map_of (nodes img) path of Some (Dir _) \<Rightarrow> True | _ \<Rightarrow> False)"

definition has_node :: "string \<Rightarrow> fs_image \<Rightarrow> bool" where
  "has_node path img \<longleftrightarrow> map_of (nodes img) path \<noteq> None"

text \<open>\<open>reply.ok()\<close> or \<open>reply.error(e)\<close>.\<close>

definition reply_empty :: "unit reply \<times> ('s, 'b) landslide_fs \<Rightarrow> ('s, 'b) outcome" where
  "reply_empty r = (case r of
     (Reply _, fs) \<Rightarrow> (Reply EmptyAnswer, fs)
   | (Fail e, fs) \<Rightarrow> (Fail e, fs)
   | (Crash, fs) \<Rightarrow> (Crash, fs))"

text \<open>The last two lines of \<open>lookup\<close>, \<open>symlink\<close> and \<open>mkdir\<close>: \<open>unwrap\<close> panics when the node is not there.\<close>

definition reply_entry :: "'s fuse_env \<Rightarrow> nat \<Rightarrow> string \<Rightarrow> ('s, 'b) landslide_fs \<Rightarrow> ('s, 'b) outcome" where
  "reply_entry E n path fs =
     (let (ino, fs1) = ino_at path fs; (attr, fs2) = fuse_image E n (\<lambda>img. attr_of img ino path) fs1 in
      case attr of None \<Rightarrow> (Crash, fs2) | Some a \<Rightarrow> (Reply (EntryAnswer a), fs2))"

definition reply_attr :: "'s fuse_env \<Rightarrow> nat \<Rightarrow> u64 \<Rightarrow> string \<Rightarrow> ('s, 'b) landslide_fs \<Rightarrow> ('s, 'b) outcome" where
  "reply_attr E n ino path fs =
     (let (attr, fs1) = fuse_image E n (\<lambda>img. attr_of img ino path) fs in
      case attr of None \<Rightarrow> (Fail ENOENT, fs1) | Some a \<Rightarrow> (Reply (AttrAnswer a), fs1))"

text \<open>
  The first lines of \<open>lookup\<close>, \<open>symlink\<close>, \<open>mkdir\<close> and \<open>create\<close>: the name, the parent's path and that the
  parent is a directory (the first lock).
\<close>

definition in_parent ::
  "'s fuse_env \<Rightarrow> u64 \<Rightarrow> os_str \<Rightarrow> ('s, 'b) landslide_fs \<Rightarrow> (string \<Rightarrow> ('s, 'b) landslide_fs \<Rightarrow> ('s, 'b) outcome) \<Rightarrow> ('s, 'b) outcome" where
  "in_parent E parent name fs k =
     (case name of
        None \<Rightarrow> (Fail EINVAL, fs)
      | Some nm \<Rightarrow>
          (case path_of fs parent of
             None \<Rightarrow> (Fail ENOENT, fs)
           | Some dir \<Rightarrow>
               let (is_dir, fs1) = fuse_image E 0 (is_dir_at dir) fs in
               if is_dir then k (join_path dir nm) fs1 else (Fail ENOTDIR, fs1)))"

definition fuse_lookup :: "'s fuse_env \<Rightarrow> ('s, 'b) landslide_fs \<Rightarrow> u64 \<Rightarrow> os_str \<Rightarrow> ('s, 'b) outcome" where
  "fuse_lookup E fs parent name =
     in_parent E parent name fs (\<lambda>path fs1.
       let (found, fs2) = fuse_image E 1 (has_node path) fs1 in
       if found then reply_entry E 2 path fs2 else (Fail ENOENT, fs2))"

definition fuse_getattr :: "'s fuse_env \<Rightarrow> ('s, 'b) landslide_fs \<Rightarrow> u64 \<Rightarrow> ('s, 'b) outcome" where
  "fuse_getattr E fs ino =
     (case path_of fs ino of
        None \<Rightarrow> (Fail ENOENT, fs)
      | Some path \<Rightarrow> reply_attr E 0 ino path fs)"

datatype time_or_now = SpecificTime systime | Now

definition clip_extents :: "u64 \<Rightarrow> (u64 \<times> bytes) list \<Rightarrow> (u64 \<times> bytes) list" where
  "clip_extents sz exts = map (\<lambda>(off, d). (off, take (sz - off) d)) (filter (\<lambda>(off, _). off < sz) exts)"

definition clip_handles :: "u64 \<Rightarrow> u64 \<Rightarrow> ('s, 'b) landslide_fs \<Rightarrow> ('s, 'b) landslide_fs" where
  "clip_handles ino sz fs =
     fs\<lparr>lf_handles := (\<lambda>fh. map_option (\<lambda>h. if h_ino h = ino then h\<lparr>h_extents := clip_extents sz (h_extents h)\<rparr> else h) (lf_handles fs fh))\<rparr>"

text \<open>The block under \<open>if let Some(size) = size\<close>.\<close>

definition setattr_size ::
  "('s, 't, 'b) fuse_deps \<Rightarrow> 's fuse_env \<Rightarrow> u64 \<Rightarrow> string \<Rightarrow> bool \<Rightarrow> u64 option \<Rightarrow> ('s, 'b) landslide_fs \<Rightarrow>
   unit reply \<times> ('s, 'b) landslide_fs" where
  "setattr_size D E ino path is_file new_size fs =
     (case new_size of
        None \<Rightarrow> (Reply (), fs)
      | Some sz \<Rightarrow>
          if \<not> is_file then (Fail EINVAL, fs)
          else (case fuse_truncate D E 0 path sz fs of
             (Reply u, fs1) \<Rightarrow> (Reply (), clip_handles ino sz fs1)
           | r \<Rightarrow> r))"

definition setattr_mtime :: "'s fuse_env \<Rightarrow> u64 option \<Rightarrow> time_or_now option \<Rightarrow> i64 option" where
  "setattr_mtime E new_size mtime =
     (let mtime_ms = map_option (\<lambda>m. case m of SpecificTime t \<Rightarrow> ts_ms t | Now \<Rightarrow> fe_now E 2) mtime in
      if new_size \<noteq> None \<and> mtime_ms = None then Some (fe_now E 2) else mtime_ms)"

text \<open>What follows the size change: one delta with the given fields, when there is one, and the reply.\<close>

definition setattr_finish ::
  "('s, 't, 'b) fuse_deps \<Rightarrow> 's fuse_env \<Rightarrow> u64 \<Rightarrow> string \<Rightarrow> u32 option \<Rightarrow> u32 option \<Rightarrow> u32 option \<Rightarrow> i64 option \<Rightarrow>
   ('s, 'b) landslide_fs \<Rightarrow> ('s, 'b) outcome" where
  "setattr_finish D E ino path mode uid gid mtime_ms fs =
     (let deltas = (if mode \<noteq> None \<or> uid \<noteq> None \<or> gid \<noteq> None \<or> mtime_ms \<noteq> None
                    then [SetAttr path (map_option (\<lambda>m. m AND PERM_BITS) mode) uid gid mtime_ms] else []) in
      case (if deltas \<noteq> [] then fuse_commit D E 3 deltas fs else (Reply (), fs)) of
        (Fail e, fs1) \<Rightarrow> (Fail e, fs1)
      | (Crash, fs1) \<Rightarrow> (Crash, fs1)
      | (Reply _, fs1) \<Rightarrow> reply_attr E 2 ino path fs1)"

definition fuse_setattr ::
  "('s, 't, 'b) fuse_deps \<Rightarrow> 's fuse_env \<Rightarrow> ('s, 'b) landslide_fs \<Rightarrow> u64 \<Rightarrow> u32 option \<Rightarrow> u32 option \<Rightarrow> u32 option \<Rightarrow>
   u64 option \<Rightarrow> time_or_now option \<Rightarrow> ('s, 'b) outcome" where
  "fuse_setattr D E fs ino mode uid gid new_size mtime =
     (case path_of fs ino of
        None \<Rightarrow> (Fail ENOENT, fs)
      | Some path \<Rightarrow>
          let (is_file, fs1) = fuse_image E 0 (\<lambda>img. case map_of (nodes img) path of Some (File _ _) \<Rightarrow> True | _ \<Rightarrow> False) fs;
              (missing, fs2) = (if path \<noteq> ''/'' \<and> \<not> is_file then fuse_image E 1 (\<lambda>img. \<not> has_node path img) fs1 else (False, fs1))
          in if missing then (Fail ENOENT, fs2)
          else (case setattr_size D E ino path is_file new_size fs2 of
             (Fail e, fs3) \<Rightarrow> (Fail e, fs3)
           | (Crash, fs3) \<Rightarrow> (Crash, fs3)
           | (Reply _, fs3) \<Rightarrow> setattr_finish D E ino path mode uid gid (setattr_mtime E new_size mtime) fs3))"

definition fuse_readlink :: "'s fuse_env \<Rightarrow> ('s, 'b) landslide_fs \<Rightarrow> u64 \<Rightarrow> ('s, 'b) outcome" where
  "fuse_readlink E fs ino =
     (case path_of fs ino of
        None \<Rightarrow> (Fail ENOENT, fs)
      | Some path \<Rightarrow>
          let (node, fs1) = fuse_image E 0 (\<lambda>img. map_of (nodes img) path) fs in
          ((case node of
              Some (Symlink target _) \<Rightarrow> Reply (DataAnswer target)
            | Some _ \<Rightarrow> Fail EINVAL
            | None \<Rightarrow> Fail ENOENT), fs1))"

text \<open>Creating a node that must not exist: the common body of \<open>symlink\<close> and \<open>mkdir\<close>.\<close>

definition make_node ::
  "('s, 't, 'b) fuse_deps \<Rightarrow> 's fuse_env \<Rightarrow> u64 \<Rightarrow> os_str \<Rightarrow> (string \<Rightarrow> fs_delta list) \<Rightarrow> ('s, 'b) landslide_fs \<Rightarrow> ('s, 'b) outcome" where
  "make_node D E parent name deltas fs =
     in_parent E parent name fs (\<lambda>path fs1.
       let (found, fs2) = fuse_image E 1 (has_node path) fs1 in
       if found then (Fail EEXIST, fs2)
       else (case fuse_commit D E 0 (deltas path) fs2 of
          (Fail e, fs3) \<Rightarrow> (Fail e, fs3)
        | (Crash, fs3) \<Rightarrow> (Crash, fs3)
        | (Reply _, fs3) \<Rightarrow> reply_entry E 2 path fs3))"

definition fuse_symlink ::
  "('s, 't, 'b) fuse_deps \<Rightarrow> 's fuse_env \<Rightarrow> ('s, 'b) landslide_fs \<Rightarrow> u64 \<Rightarrow> os_str \<Rightarrow> os_str \<Rightarrow> ('s, 'b) outcome" where
  "fuse_symlink D E fs parent link_name target =
     (if link_name = None then (Fail EINVAL, fs)
      else case target of
        None \<Rightarrow> (Fail EINVAL, fs)
      | Some t \<Rightarrow> make_node D E parent link_name
          (\<lambda>path. [MkSymlink path t, SetAttr path None (Some (fe_uid E)) (Some (fe_gid E)) None]) fs)"

definition fuse_link :: "('s, 'b) landslide_fs \<Rightarrow> ('s, 'b) outcome" where
  "fuse_link fs = (Fail ENOSYS, fs)"

subsection \<open>Directories\<close>

fun add_entries :: "(dir_entry list \<Rightarrow> dir_entry \<Rightarrow> bool \<times> dir_entry list) \<Rightarrow> dir_entry list \<Rightarrow> dir_entry list \<Rightarrow> dir_entry list" where
  "add_entries add buf [] = buf"
| "add_entries add buf (e # es) =
     (case add buf e of (added, buf') \<Rightarrow> if \<not> added then buf' else add_entries add buf' es)"

fun child_inos :: "string \<Rightarrow> (string, file_type) btree \<Rightarrow> ('s, 'b) landslide_fs \<Rightarrow> (u64 \<times> file_type \<times> string) list \<times> ('s, 'b) landslide_fs" where
  "child_inos dir [] fs = ([], fs)"
| "child_inos dir ((name, kind) # kids) fs =
     (let (cino, fs1) = ino_at (join_path dir name) fs in apfst ((#) (cino, kind, name)) (child_inos dir kids fs1))"

definition fuse_readdir :: "'s fuse_env \<Rightarrow> ('s, 'b) landslide_fs \<Rightarrow> u64 \<Rightarrow> u64 \<Rightarrow> ('s, 'b) outcome" where
  "fuse_readdir E fs ino offset =
     (case path_of fs ino of
        None \<Rightarrow> (Fail ENOENT, fs)
      | Some dir \<Rightarrow>
          let (is_dir, fs1) = fuse_image E 0 (is_dir_at dir) fs in
          if \<not> is_dir then (Fail ENOTDIR, fs1)
          else let (kids, fs2) = fuse_image E 1 (\<lambda>img. children img dir) fs1;
                   (up, fs3) = ino_at (parent_path dir) fs2;
                   (below_dir, fs4) = child_inos dir kids fs3;
                   entries = (ino, Directory, ''.'') # (up, Directory, ''..'') # below_dir;
                   numbered = map (\<lambda>(i, (cino, kind, name)). (cino, i + 1, kind, name)) (enumerate 0 entries)
               in (Reply (DirectoryAnswer (add_entries (fe_add E) [] (drop offset numbered))), fs4))"

definition masked_mode :: "u32 \<Rightarrow> u32 \<Rightarrow> u32" where
  "masked_mode mode umask = mode AND (2 ^ 32 - 1 - umask) AND PERM_BITS"

definition fuse_mkdir ::
  "('s, 't, 'b) fuse_deps \<Rightarrow> 's fuse_env \<Rightarrow> ('s, 'b) landslide_fs \<Rightarrow> u64 \<Rightarrow> os_str \<Rightarrow> u32 \<Rightarrow> u32 \<Rightarrow> ('s, 'b) outcome" where
  "fuse_mkdir D E fs parent name mode umask =
     make_node D E parent name
       (\<lambda>path. [Mkdir path, SetAttr path (Some (masked_mode mode umask)) (Some (fe_uid E)) (Some (fe_gid E)) None]) fs"

subsection \<open>Open files\<close>

text \<open>The handle and the attributes that \<open>create\<close> replies with; \<open>size\<close> is the length of the content it read.\<close>

definition reply_created ::
  "'s fuse_env \<Rightarrow> u32 \<Rightarrow> u32 \<Rightarrow> string \<Rightarrow> u64 \<Rightarrow> ('s, 'b) landslide_fs \<Rightarrow> ('s, 'b) outcome" where
  "reply_created E mode umask path sz fs =
     (let (ino, fs1) = ino_at path fs;
          (fh, fs2) = new_handle ino fs1;
          (attr, fs3) = fuse_image E 3 (\<lambda>img. attr_of img ino path) fs2;
          fallback = \<lparr>fa_ino = ino, fa_size = sz, fa_blocks = (sz + 511) div 512,
             fa_atime = fe_times E 0, fa_mtime = fe_times E 1, fa_ctime = fe_times E 2, fa_crtime = fe_times E 3,
             fa_kind = RegularFile, fa_perm = masked_mode mode umask, fa_nlink = 1, fa_uid = fe_uid E, fa_gid = fe_gid E,
             fa_rdev = 0, fa_blksize = 4096, fa_flags = 0\<rparr>
      in (Reply (CreatedAnswer (case attr of Some a \<Rightarrow> a | None \<Rightarrow> fallback) fh), fs3))"

definition fuse_create ::
  "('s, 't, 'b) fuse_deps \<Rightarrow> 's fuse_env \<Rightarrow> ('s, 'b) landslide_fs \<Rightarrow> u64 \<Rightarrow> os_str \<Rightarrow> u32 \<Rightarrow> u32 \<Rightarrow> ('s, 'b) outcome" where
  "fuse_create D E fs parent name mode umask =
     in_parent E parent name fs (\<lambda>path fs1.
       let (node, fs2) = fuse_image E 1 (\<lambda>img. map_of (nodes img) path) fs1 in
       case node of
         Some (File _ _) \<Rightarrow>
           (case fuse_read_file D E 2 path fs2 of
              (Crash, fs3) \<Rightarrow> (Crash, fs3)
            | (Reply (Some d), fs3) \<Rightarrow> reply_created E mode umask path (length d) fs3
            | (_, fs3) \<Rightarrow> reply_created E mode umask path 0 fs3)
       | Some (Dir _) \<Rightarrow> (Fail EISDIR, fs2)
       | Some (Symlink _ _) \<Rightarrow> (Fail EEXIST, fs2)
       | None \<Rightarrow>
           (case fuse_commit D E 0 [Write path 0 (InlineData []),
                SetAttr path (Some (masked_mode mode umask)) (Some (fe_uid E)) (Some (fe_gid E)) None] fs2 of
              (Fail e, fs3) \<Rightarrow> (Fail e, fs3)
            | (Crash, fs3) \<Rightarrow> (Crash, fs3)
            | (Reply _, fs3) \<Rightarrow> reply_created E mode umask path 0 fs3))"

definition fuse_open :: "'s fuse_env \<Rightarrow> ('s, 'b) landslide_fs \<Rightarrow> u64 \<Rightarrow> ('s, 'b) outcome" where
  "fuse_open E fs ino =
     (case path_of fs ino of
        None \<Rightarrow> (Fail ENOENT, fs)
      | Some path \<Rightarrow>
          let (node, fs1) = fuse_image E 0 (\<lambda>img. map_of (nodes img) path) fs in
          case node of
            Some (File _ _) \<Rightarrow> let (fh, fs2) = new_handle ino fs1 in (Reply (OpenedAnswer fh), fs2)
          | Some (Dir _) \<Rightarrow> (Fail EISDIR, fs1)
          | Some (Symlink _ _) \<Rightarrow> (Fail ELOOP, fs1)
          | None \<Rightarrow> (Fail ENOENT, fs1))"

text \<open>One iteration of the overlay loop.\<close>

definition overlay_extent :: "u64 \<Rightarrow> bytes \<Rightarrow> u64 \<times> bytes \<Rightarrow> bytes" where
  "overlay_extent offset buf e =
     (case e of (off, d) \<Rightarrow>
        let start = off - offset in
        if length buf < start then buf
        else let fin = min (start + length d) (length buf); n = fin - start in
          take start buf @ take n d @ drop fin buf)"

definition staged :: "('s, 'b) landslide_fs \<Rightarrow> u64 \<Rightarrow> (u64 \<times> bytes) list" where
  "staged fs fh = (case lf_handles fs fh of None \<Rightarrow> [] | Some h \<Rightarrow> h_extents h)"

definition fuse_read ::
  "('s, 't, 'b) fuse_deps \<Rightarrow> 's fuse_env \<Rightarrow> ('s, 'b) landslide_fs \<Rightarrow> u64 \<Rightarrow> u64 \<Rightarrow> u64 \<Rightarrow> u32 \<Rightarrow> ('s, 'b) outcome" where
  "fuse_read D E fs ino fh offset sz =
     (case path_of fs ino of
        None \<Rightarrow> (Fail ENOENT, fs)
      | Some path \<Rightarrow>
          (case fuse_read_range D E 0 path offset sz fs of
             (Reply (Some buf), fs1) \<Rightarrow> (Reply (DataAnswer (foldl (overlay_extent offset) buf (staged fs1 fh))), fs1)
           | (Reply None, fs1) \<Rightarrow> (Fail ENOENT, fs1)
           | (Fail _, fs1) \<Rightarrow> (Fail EIO, fs1)
           | (Crash, fs1) \<Rightarrow> (Crash, fs1)))"

definition fuse_write :: "('s, 'b) landslide_fs \<Rightarrow> u64 \<Rightarrow> u64 \<Rightarrow> bytes \<Rightarrow> ('s, 'b) outcome" where
  "fuse_write fs fh offset data =
     (case lf_handles fs fh of
        None \<Rightarrow> (Fail EBADF, fs)
      | Some h \<Rightarrow>
          (Reply (WrittenAnswer (length data mod 2 ^ 32)),
           fs\<lparr>lf_handles := (lf_handles fs)(fh \<mapsto> h\<lparr>h_extents := h_extents h @ [(offset, data)]\<rparr>)\<rparr>))"

definition fuse_flush :: "('s, 't, 'b) fuse_deps \<Rightarrow> 's fuse_env \<Rightarrow> ('s, 'b) landslide_fs \<Rightarrow> u64 \<Rightarrow> ('s, 'b) outcome" where
  "fuse_flush D E fs fh = reply_empty (flush_fh D E fh fs)"

definition fuse_fsync :: "('s, 't, 'b) fuse_deps \<Rightarrow> 's fuse_env \<Rightarrow> ('s, 'b) landslide_fs \<Rightarrow> u64 \<Rightarrow> ('s, 'b) outcome" where
  "fuse_fsync D E fs fh = reply_empty (flush_fh D E fh fs)"

definition fuse_release :: "('s, 't, 'b) fuse_deps \<Rightarrow> 's fuse_env \<Rightarrow> ('s, 'b) landslide_fs \<Rightarrow> u64 \<Rightarrow> ('s, 'b) outcome" where
  "fuse_release D E fs fh =
     (case flush_fh D E fh fs of
        (Crash, fs1) \<Rightarrow> (Crash, fs1)
      | (r, fs1) \<Rightarrow> reply_empty (r, fs1\<lparr>lf_handles := (lf_handles fs1)(fh := None)\<rparr>))"

subsection \<open>Removal and renaming\<close>

text \<open>The first two lines of \<open>unlink\<close> and \<open>rmdir\<close>: they do not look at the parent's node.\<close>

definition under_parent ::
  "u64 \<Rightarrow> os_str \<Rightarrow> ('s, 'b) landslide_fs \<Rightarrow> (string \<Rightarrow> ('s, 'b) outcome) \<Rightarrow> ('s, 'b) outcome" where
  "under_parent parent name fs k =
     (case name of
        None \<Rightarrow> (Fail EINVAL, fs)
      | Some nm \<Rightarrow> (case path_of fs parent of None \<Rightarrow> (Fail ENOENT, fs) | Some dir \<Rightarrow> k (join_path dir nm)))"

definition fuse_unlink ::
  "('s, 't, 'b) fuse_deps \<Rightarrow> 's fuse_env \<Rightarrow> ('s, 'b) landslide_fs \<Rightarrow> u64 \<Rightarrow> os_str \<Rightarrow> ('s, 'b) outcome" where
  "fuse_unlink D E fs parent name =
     under_parent parent name fs (\<lambda>path.
       let (node, fs1) = fuse_image E 0 (\<lambda>img. map_of (nodes img) path) fs in
       case node of
         Some (Dir _) \<Rightarrow> (Fail EISDIR, fs1)
       | None \<Rightarrow> (Fail ENOENT, fs1)
       | Some _ \<Rightarrow> reply_empty (fuse_commit D E 0 [Remove path] fs1))"

definition fuse_rmdir ::
  "('s, 't, 'b) fuse_deps \<Rightarrow> 's fuse_env \<Rightarrow> ('s, 'b) landslide_fs \<Rightarrow> u64 \<Rightarrow> os_str \<Rightarrow> ('s, 'b) outcome" where
  "fuse_rmdir D E fs parent name =
     under_parent parent name fs (\<lambda>path.
       let (is_dir, fs1) = fuse_image E 0 (\<lambda>img. case map_of (nodes img) path of Some (Dir _) \<Rightarrow> True | _ \<Rightarrow> False) fs in
       if \<not> is_dir then (Fail ENOTDIR, fs1)
       else let (kids, fs2) = fuse_image E 1 (\<lambda>img. children img path) fs1 in
         if kids \<noteq> [] then (Fail ENOTEMPTY, fs2)
         else reply_empty (fuse_commit D E 0 [Remove path] fs2))"

definition rename_kind :: "node option \<Rightarrow> file_type option" where
  "rename_kind n = (case n of
     Some (File _ _) \<Rightarrow> Some RegularFile | Some (Symlink _ _) \<Rightarrow> Some RegularFile
   | Some (Dir _) \<Rightarrow> Some Directory | None \<Rightarrow> None)"

text \<open>The check of the target; only two directories look at the image again.\<close>

definition rename_check ::
  "'s fuse_env \<Rightarrow> string \<Rightarrow> file_type \<Rightarrow> file_type option \<Rightarrow> ('s, 'b) landslide_fs \<Rightarrow> errno option \<times> ('s, 'b) landslide_fs" where
  "rename_check E to fk to_kind fs =
     (case to_kind of
        None \<Rightarrow> (None, fs)
      | Some tk \<Rightarrow>
          if fk = RegularFile \<and> tk = Directory then (Some EISDIR, fs)
          else if fk = Directory \<and> tk = RegularFile then (Some ENOTDIR, fs)
          else if fk = Directory \<and> tk = Directory then
            (let (kids, fs1) = fuse_image E 1 (\<lambda>img. children img to) fs in
             (if kids \<noteq> [] then Some ENOTEMPTY else None, fs1))
          else (None, fs))"

definition fuse_rename ::
  "('s, 't, 'b) fuse_deps \<Rightarrow> 's fuse_env \<Rightarrow> ('s, 'b) landslide_fs \<Rightarrow> u64 \<Rightarrow> os_str \<Rightarrow> u64 \<Rightarrow> os_str \<Rightarrow> u32 \<Rightarrow> ('s, 'b) outcome" where
  "fuse_rename D E fs parent name newparent newname flags =
     (if flags \<noteq> 0 then (Fail EINVAL, fs)
      else case (name, newname) of
        (Some nm, Some nn) \<Rightarrow>
          (case (path_of fs parent, path_of fs newparent) of
             (Some from_dir, Some to_dir) \<Rightarrow>
               let src = join_path from_dir nm; to = join_path to_dir nn;
                   ((from_kind, to_kind), fs1) =
                     fuse_image E 0 (\<lambda>img. (rename_kind (map_of (nodes img) src), rename_kind (map_of (nodes img) to))) fs in
               (case from_kind of
                  None \<Rightarrow> (Fail ENOENT, fs1)
                | Some fk \<Rightarrow>
                    (case rename_check E to fk to_kind fs1 of
                       (Some e, fs2) \<Rightarrow> (Fail e, fs2)
                     | (None, fs2) \<Rightarrow>
                         (case fuse_commit D E 0 [Rename src to] fs2 of
                            (Reply _, fs3) \<Rightarrow>
                              (Reply EmptyAnswer, fs3\<lparr>lf_state := rename_subtree (fe_iter E) src to (lf_state fs3)\<rparr>)
                          | (Fail e, fs3) \<Rightarrow> (Fail e, fs3)
                          | (Crash, fs3) \<Rightarrow> (Crash, fs3))))
           | _ \<Rightarrow> (Fail ENOENT, fs))
      | _ \<Rightarrow> (Fail EINVAL, fs))"

subsection \<open>Extended attributes\<close>

definition fuse_setxattr ::
  "('s, 't, 'b) fuse_deps \<Rightarrow> 's fuse_env \<Rightarrow> ('s, 'b) landslide_fs \<Rightarrow> u64 \<Rightarrow> os_str \<Rightarrow> bytes \<Rightarrow> ('s, 'b) outcome" where
  "fuse_setxattr D E fs ino name v =
     (case path_of fs ino of
        None \<Rightarrow> (Fail ENOENT, fs)
      | Some path \<Rightarrow>
          let (missing, fs1) = (if path \<noteq> ''/'' then fuse_image E 0 (\<lambda>img. \<not> has_node path img) fs else (False, fs)) in
          if missing then (Fail ENOENT, fs1)
          else case name of
            None \<Rightarrow> (Fail EINVAL, fs1)
          | Some nm \<Rightarrow> reply_empty (fuse_commit D E 0 [SetXattr path nm (Some v)] fs1))"

definition fuse_removexattr ::
  "('s, 't, 'b) fuse_deps \<Rightarrow> 's fuse_env \<Rightarrow> ('s, 'b) landslide_fs \<Rightarrow> u64 \<Rightarrow> os_str \<Rightarrow> ('s, 'b) outcome" where
  "fuse_removexattr D E fs ino name =
     (case path_of fs ino of
        None \<Rightarrow> (Fail ENOENT, fs)
      | Some path \<Rightarrow>
          (case name of
             None \<Rightarrow> (Fail EINVAL, fs)
           | Some nm \<Rightarrow>
               let (has, fs1) = fuse_image E 0
                     (\<lambda>img. map_option (\<lambda>n. map_of (nm_xattrs (node_meta_of n)) nm \<noteq> None) (map_of (nodes img) path)) fs in
               (case has of
                  None \<Rightarrow> (Fail ENOENT, fs1)
                | Some False \<Rightarrow> (Fail NO_XATTR, fs1)
                | Some True \<Rightarrow> reply_empty (fuse_commit D E 0 [SetXattr path nm None] fs1))))"

text \<open>The size protocol of the two attribute reads.\<close>

definition sized_reply :: "u32 \<Rightarrow> bytes \<Rightarrow> answer reply" where
  "sized_reply sz d =
     (if sz = 0 then Reply (SizeAnswer (length d mod 2 ^ 32))
      else if sz < length d then Fail ERANGE
      else Reply (DataAnswer d))"

definition fuse_getxattr :: "'s fuse_env \<Rightarrow> ('s, 'b) landslide_fs \<Rightarrow> u64 \<Rightarrow> os_str \<Rightarrow> u32 \<Rightarrow> ('s, 'b) outcome" where
  "fuse_getxattr E fs ino name sz =
     (case path_of fs ino of
        None \<Rightarrow> (Fail ENOENT, fs)
      | Some path \<Rightarrow>
          (case name of
             None \<Rightarrow> (Fail EINVAL, fs)
           | Some nm \<Rightarrow>
               let (missing, fs1) = (if path \<noteq> ''/'' then fuse_image E 0 (\<lambda>img. \<not> has_node path img) fs else (False, fs)) in
               if missing then (Fail ENOENT, fs1)
               else let (v, fs2) = fuse_image E 1
                     (\<lambda>img. case map_of (nodes img) path of None \<Rightarrow> None | Some n \<Rightarrow> map_of (nm_xattrs (node_meta_of n)) nm) fs1 in
                 ((case v of None \<Rightarrow> Fail NO_XATTR | Some d \<Rightarrow> sized_reply sz d), fs2)))"

definition fuse_listxattr :: "'s fuse_env \<Rightarrow> ('s, 'b) landslide_fs \<Rightarrow> u64 \<Rightarrow> u32 \<Rightarrow> ('s, 'b) outcome" where
  "fuse_listxattr E fs ino sz =
     (case path_of fs ino of
        None \<Rightarrow> (Fail ENOENT, fs)
      | Some path \<Rightarrow>
          let (names, fs1) = fuse_image E 0
                (\<lambda>img. map_option (\<lambda>n. concat (map (\<lambda>(k, _). k @ [CHR 0x00]) (nm_xattrs (node_meta_of n)))) (map_of (nodes img) path)) fs in
          if names = None \<and> path \<noteq> ''/'' then (Fail ENOENT, fs1)
          else (sized_reply sz (case names of None \<Rightarrow> [] | Some d \<Rightarrow> d), fs1))"

section \<open>The trait\<close>

datatype request =
  Lookup u64 os_str
| Getattr u64
| Setattr u64 "u32 option" "u32 option" "u32 option" "u64 option" "time_or_now option"
| Readlink u64
| SymlinkReq u64 os_str os_str
| Link
| Readdir u64 u64
| MkdirReq u64 os_str u32 u32
| Create u64 os_str u32 u32
| Open u64
| Read u64 u64 u64 u32
| WriteReq u64 u64 bytes
| Flush u64
| Fsync u64
| Release u64
| Unlink u64 os_str
| Rmdir u64 os_str
| RenameReq u64 os_str u64 os_str u32
| SetxattrReq u64 os_str bytes
| Removexattr u64 os_str
| Getxattr u64 os_str u32
| Listxattr u64 u32

fun serve :: "('s, 't, 'b) fuse_deps \<Rightarrow> 's fuse_env \<Rightarrow> ('s, 'b) landslide_fs \<Rightarrow> request \<Rightarrow> ('s, 'b) outcome" where
  "serve D E fs (Lookup parent name) = fuse_lookup E fs parent name"
| "serve D E fs (Getattr ino) = fuse_getattr E fs ino"
| "serve D E fs (Setattr ino mode uid gid sz mtime) = fuse_setattr D E fs ino mode uid gid sz mtime"
| "serve D E fs (Readlink ino) = fuse_readlink E fs ino"
| "serve D E fs (SymlinkReq parent name target) = fuse_symlink D E fs parent name target"
| "serve D E fs Link = fuse_link fs"
| "serve D E fs (Readdir ino offset) = fuse_readdir E fs ino offset"
| "serve D E fs (MkdirReq parent name mode umask) = fuse_mkdir D E fs parent name mode umask"
| "serve D E fs (Create parent name mode umask) = fuse_create D E fs parent name mode umask"
| "serve D E fs (Open ino) = fuse_open E fs ino"
| "serve D E fs (Read ino fh offset sz) = fuse_read D E fs ino fh offset sz"
| "serve D E fs (WriteReq fh offset data) = fuse_write fs fh offset data"
| "serve D E fs (Flush fh) = fuse_flush D E fs fh"
| "serve D E fs (Fsync fh) = fuse_fsync D E fs fh"
| "serve D E fs (Release fh) = fuse_release D E fs fh"
| "serve D E fs (Unlink parent name) = fuse_unlink D E fs parent name"
| "serve D E fs (Rmdir parent name) = fuse_rmdir D E fs parent name"
| "serve D E fs (RenameReq parent name newparent newname flags) = fuse_rename D E fs parent name newparent newname flags"
| "serve D E fs (SetxattrReq ino name v) = fuse_setxattr D E fs ino name v"
| "serve D E fs (Removexattr ino name) = fuse_removexattr D E fs ino name"
| "serve D E fs (Getxattr ino name sz) = fuse_getxattr E fs ino name sz"
| "serve D E fs (Listxattr ino sz) = fuse_listxattr E fs ino sz"

section \<open>Mounting\<close>

text \<open>What \<open>mount\<close> and \<open>mount_replica\<close> serve; the session loop of \<open>fuser\<close> and the timer are outside.\<close>

definition mount_volume ::
  "('s, 't, 'b) fuse_deps \<Rightarrow> 's volume_env \<Rightarrow> 's \<Rightarrow> 'b \<Rightarrow> string \<Rightarrow> (('s, 'b) landslide_fs res \<times> 's) option" where
  "mount_volume D E s b vol =
     map_option (\<lambda>(r, s'). (bind_res r (\<lambda>v. Inr (with_backend (VolumeBackend v) s' b)), s'))
       (volume_mount (fd_db D) (fd_codec D) (fd_fs D) (fd_bucket D) E s b vol)"

definition mount_replica ::
  "('s, 't, 'b) fuse_deps \<Rightarrow> (nat \<Rightarrow> i64) \<Rightarrow> (nat \<Rightarrow> kv_read) \<Rightarrow> 's \<Rightarrow> 'b \<Rightarrow> string \<Rightarrow> ('s, 'b) landslide_fs res" where
  "mount_replica D clk rs s b vol =
     bind_res (replica_open (fd_codec D) (fd_fs D) (fd_bucket D) clk rs b vol) (\<lambda>rp. Inr (with_backend (ReplicaBackend rp) s b))"

text \<open>One tick of the background task: an error is dropped.\<close>

definition sync_tick ::
  "('s, 't, 'b) fuse_deps \<Rightarrow> (nat \<Rightarrow> i64) \<Rightarrow> (nat \<Rightarrow> kv_read) \<Rightarrow> 'b \<Rightarrow> replica \<Rightarrow> replica" where
  "sync_tick D clk rs b rp = snd (replica_sync (fd_codec D) (fd_fs D) (fd_bucket D) clk rs b rp)"

end
