(* ===== verification/Fuse_Tables.thy ===== *)
theory Fuse_Tables
  imports Fuse_Fs
begin

text \<open>
  The inode tables and the handle table of the FUSE adapter: what every helper and every handler
  keeps of them, and the runs of a mount. The tables do not depend on the backend.
\<close>

section \<open>Invariant\<close>

definition ino_ok :: "ino_state \<Rightarrow> bool" where
  "ino_ok st \<longleftrightarrow>
     finite (dom (st_ino_of st)) \<and> st_path_of st 1 = Some ''/'' \<and> st_ino_of st ''/'' = Some 1 \<and>
     (\<forall>p i. st_ino_of st p = Some i \<longrightarrow> st_path_of st i = Some p) \<and>
     (\<forall>i p. st_path_of st i = Some p \<longrightarrow> i < st_next_ino st)"

definition tables_ok :: "('s, 'b) landslide_fs \<Rightarrow> bool" where
  "tables_ok fs \<longleftrightarrow>
     ino_ok (lf_state fs) \<and>
     (\<forall>fh h. lf_handles fs fh = Some h \<longrightarrow> fh < lf_next_fh fs \<and> st_path_of (lf_state fs) (h_ino h) \<noteq> None)"

text \<open>The part of the state the invariant is about.\<close>

definition tables :: "('s, 'b) landslide_fs \<Rightarrow> ino_state \<times> (u64 \<rightharpoonup> fuse_handle) \<times> u64" where
  "tables fs = (lf_state fs, lf_handles fs, lf_next_fh fs)"

lemma tables_eqD:
  assumes "tables fs' = tables fs"
  shows "tables_ok fs' = tables_ok fs" "lf_state fs' = lf_state fs" "lf_handles fs' = lf_handles fs" "lf_next_fh fs' = lf_next_fh fs"
    "path_of fs' = path_of fs"
  using assms by (simp_all add: tables_def tables_ok_def path_of_def fun_eq_iff)

text \<open>Operations that leave the tables alone.\<close>

lemma tables_backend [simp]:
  "tables (fs\<lparr>lf_backend := x\<rparr>) = tables fs" "tables (fs\<lparr>lf_store := s\<rparr>) = tables fs" "tables (fs\<lparr>lf_bucket := b\<rparr>) = tables fs"
  by (simp_all add: tables_def)

lemma tables_lock [simp]: "tables (lock_backend E n fs) = tables fs"
  by (simp add: lock_backend_def split: backend.split)

lemma tables_image [simp]: "tables (snd (fuse_image E n f fs)) = tables fs"
  by (simp add: fuse_image_def Let_def)

lemma tables_commit [simp]: "tables (snd (fuse_commit D E k ds fs)) = tables fs"
  by (simp add: fuse_commit_def split: backend.split prod.split)

lemma tables_read_file [simp]: "tables (snd (fuse_read_file D E n path fs)) = tables fs"
  by (simp add: fuse_read_file_def Let_def split: backend.split prod.split)

lemma tables_read_range [simp]: "tables (snd (fuse_read_range D E n path offset len fs)) = tables fs"
  by (simp add: fuse_read_range_def Let_def split: backend.split prod.split)

lemma tables_truncate [simp]: "tables (snd (fuse_truncate D E k path sz fs)) = tables fs"
  by (simp add: fuse_truncate_def split: backend.split prod.split)

section \<open>Inode numbers\<close>

lemma ino_ok_new: "ino_ok state_new"
  by (auto simp: ino_ok_def state_new_def)

lemma ino_ok_state_ino:
  assumes "ino_ok st" "st_next_ino st + 1 < 2 ^ 64" "state_ino path st = (i, st')"
  shows "ino_ok st'" "st_path_of st' i = Some path" "st_path_of st \<subseteq>\<^sub>m st_path_of st'" "st_next_ino st' \<le> st_next_ino st + 1"
proof -
  have fresh: "st_path_of st (st_next_ino st) = None"
    using assms(1) unfolding ino_ok_def by (metis less_irrefl not_None_eq)
  have one: "1 < st_next_ino st" using assms(1) by (auto simp: ino_ok_def)
  show "ino_ok st'" "st_path_of st' i = Some path" "st_path_of st \<subseteq>\<^sub>m st_path_of st'" "st_next_ino st' \<le> st_next_ino st + 1"
    using assms fresh one
    by (auto simp: state_ino_def ino_ok_def Let_def map_le_def less_Suc_eq split: option.splits if_splits)
qed

lemma remap_root: "src \<noteq> ''/'' \<Longrightarrow> src \<noteq> [] \<Longrightarrow> remap src to ''/'' = None"
  by (auto simp: remap_def prefix_Cons)

lemma remap_not_root: "to \<noteq> ''/'' \<Longrightarrow> to \<noteq> [] \<Longrightarrow> remap src to p \<noteq> Some ''/''"
  by (auto simp: remap_def append_eq_Cons_conv)

text \<open>
  The loop of \<open>rename_subtree\<close> keeps the tables consistent in any iteration order: each entry it
  moves still has, when its turn comes, the path it was found under.
\<close>

lemma move_inos_ok:
  assumes "ino_ok st" "src \<noteq> ''/''" "src \<noteq> []" "to \<noteq> ''/''" "to \<noteq> []"
    and "distinct (map snd es)" "\<forall>(p, i) \<in> set es. st_path_of st i = Some p \<and> remap src to p \<noteq> None"
  shows "ino_ok (foldl (move_ino src to) st es) \<and> dom (st_path_of (foldl (move_ino src to) st es)) = dom (st_path_of st) \<and>
    st_next_ino (foldl (move_ino src to) st es) = st_next_ino st"
  using assms(1,6,7)
proof (induction es arbitrary: st)
  case (Cons e es)
  obtain p i where e: "e = (p, i)" by (cases e)
  obtain np where np: "remap src to p = Some np" using Cons.prems(3) e by auto
  have p: "st_path_of st i = Some p" "p \<noteq> ''/''" "np \<noteq> ''/''"
    using Cons.prems(3) np remap_root [OF assms(2,3)] remap_not_root [OF assms(4,5)] by (auto simp: e)
  let ?st = "move_ino src to st e"
  have st: "?st = st\<lparr>st_ino_of := ((st_ino_of st)(p := None))(np \<mapsto> i), st_path_of := (st_path_of st)(i \<mapsto> np)\<rparr>"
    by (simp add: move_ino_def e np)
  have i: "i \<noteq> 1" using p Cons.prems(1) by (auto simp: ino_ok_def)
  have ok: "ino_ok ?st" unfolding st using Cons.prems(1) p i by (auto simp: ino_ok_def)
  have d: "dom (st_path_of ?st) = dom (st_path_of st)" "st_next_ino ?st = st_next_ino st" unfolding st using p(1) by auto
  have rest: "\<forall>(p, j) \<in> set es. st_path_of ?st j = Some p \<and> remap src to p \<noteq> None"
  proof
    fix x assume x: "x \<in> set es"
    then have "snd x \<noteq> i" using Cons.prems(2) by (auto simp: e)
    with x Cons.prems(3) show "case x of (p, j) \<Rightarrow> st_path_of ?st j = Some p \<and> remap src to p \<noteq> None" by (auto simp: st)
  qed
  have "distinct (map snd es)" using Cons.prems(2) by simp
  from Cons.IH [OF ok this rest] d show ?case by simp
qed simp

text \<open>Iterating over a hash map yields each entry once.\<close>

definition iterates :: "((string \<rightharpoonup> u64) \<Rightarrow> (string \<times> u64) list) \<Rightarrow> bool" where
  "iterates it \<longleftrightarrow> (\<forall>m. finite (dom m) \<longrightarrow> distinct (it m) \<and> set (it m) = {(p, i). m p = Some i})"

lemma rename_subtree_ok:
  assumes "ino_ok st" "src \<noteq> ''/''" "src \<noteq> []" "to \<noteq> ''/''" "to \<noteq> []" "iterates it"
  shows "ino_ok (rename_subtree it src to st) \<and> dom (st_path_of (rename_subtree it src to st)) = dom (st_path_of st) \<and>
    st_next_ino (rename_subtree it src to st) = st_next_ino st"
proof -
  let ?es = "filter (\<lambda>(p, _). remap src to p \<noteq> None) (it (st_ino_of st))"
  have it: "distinct (it (st_ino_of st))" "set (it (st_ino_of st)) = {(p, i). st_ino_of st p = Some i}"
    using assms(1,6) by (auto simp: iterates_def ino_ok_def)
  have found: "st_path_of st i = Some p" if "(p, i) \<in> set ?es" for p i using that assms(1) it(2) by (auto simp: ino_ok_def)
  have "inj_on snd (set ?es)"
    by (rule inj_onI) (metis found option.inject prod.collapse)
  then have "distinct (map snd ?es)" using it(1) by (simp add: distinct_map)
  then show ?thesis
    unfolding rename_subtree_def by (rule move_inos_ok [OF assms(1-5)]) (use found in auto)
qed

section \<open>Helpers\<close>

lemma tables_okI:
  assumes "ino_ok (lf_state fs)" "\<And>fh h. lf_handles fs fh = Some h \<Longrightarrow> fh < lf_next_fh fs \<and> st_path_of (lf_state fs) (h_ino h) \<noteq> None"
  shows "tables_ok fs"
  using assms by (simp add: tables_ok_def)

lemma tables_okD:
  assumes "tables_ok fs"
  shows "ino_ok (lf_state fs)" "lf_handles fs fh = Some h \<Longrightarrow> fh < lf_next_fh fs"
    "lf_handles fs fh = Some h \<Longrightarrow> st_path_of (lf_state fs) (h_ino h) \<noteq> None"
proof -
  note ok = assms [unfolded tables_ok_def]
  show "ino_ok (lf_state fs)" using ok by (rule conjunct1)
  assume "lf_handles fs fh = Some h"
  with ok show "fh < lf_next_fh fs" "st_path_of (lf_state fs) (h_ino h) \<noteq> None" by simp_all
qed

text \<open>Numbers left for \<open>n\<close> more inodes and one more handle.\<close>

definition numbers_left :: "nat \<Rightarrow> ('s, 'b) landslide_fs \<Rightarrow> bool" where
  "numbers_left n fs \<longleftrightarrow> st_next_ino (lf_state fs) + n < 2 ^ 64 \<and> lf_next_fh fs + 1 < 2 ^ 64"

text \<open>Consistent tables with numbers left.\<close>

definition roomy :: "nat \<Rightarrow> ('s, 'b) landslide_fs \<Rightarrow> bool" where
  "roomy n fs \<longleftrightarrow> tables_ok fs \<and> numbers_left n fs"

lemma tables_roomy: "tables fs' = tables fs \<Longrightarrow> roomy n fs' = roomy n fs"
  by (simp add: roomy_def numbers_left_def tables_ok_def tables_def)

lemmas roomy_same [simp] =
  tables_roomy [OF tables_lock]
  tables_roomy [OF tables_image]
  tables_roomy [OF tables_commit]
  tables_roomy [OF tables_read_file]
  tables_roomy [OF tables_read_range]
  tables_roomy [OF tables_truncate]

lemmas path_of_same [simp] =
  tables_eqD(5) [OF tables_lock]
  tables_eqD(5) [OF tables_image]
  tables_eqD(5) [OF tables_commit]
  tables_eqD(5) [OF tables_read_file]
  tables_eqD(5) [OF tables_read_range]
  tables_eqD(5) [OF tables_truncate]

lemmas tables_ok_same [simp] =
  tables_eqD(1) [OF tables_lock]
  tables_eqD(1) [OF tables_image]
  tables_eqD(1) [OF tables_commit]
  tables_eqD(1) [OF tables_read_file]
  tables_eqD(1) [OF tables_read_range]
  tables_eqD(1) [OF tables_truncate]

lemma roomy_ok [simp]: "roomy n fs \<Longrightarrow> tables_ok fs"
  by (simp add: roomy_def)

lemma roomy_mono: "roomy m fs \<Longrightarrow> n \<le> m \<Longrightarrow> roomy n fs"
  by (auto simp: roomy_def numbers_left_def)

lemma roomy_ino:
  assumes "roomy (Suc n) fs"
  shows "roomy n (snd (ino_at path fs))" "path_of (snd (ino_at path fs)) (fst (ino_at path fs)) = Some path"
proof -
  obtain i st where st: "state_ino path (lf_state fs) = (i, st)" by fastforce
  then have at: "ino_at path fs = (i, fs\<lparr>lf_state := st\<rparr>)" by (simp add: ino_at_def)
  have room: "st_next_ino (lf_state fs) + 1 < 2 ^ 64" using assms by (simp add: roomy_def numbers_left_def)
  note s = ino_ok_state_ino [OF tables_okD(1) [OF roomy_ok [OF assms]] room st]
  have "tables_ok (fs\<lparr>lf_state := st\<rparr>)"
    using s(1,3) tables_okD(2,3) [OF roomy_ok [OF assms]]
    by (intro tables_okI) (fastforce simp: map_le_def dom_def)+
  then show "roomy n (snd (ino_at path fs))" "path_of (snd (ino_at path fs)) (fst (ino_at path fs)) = Some path"
    using s(2,4) assms by (simp_all add: at roomy_def numbers_left_def path_of_def)
qed

lemma new_handle_ok:
  assumes "roomy n fs" "path_of fs ino \<noteq> None"
  shows "tables_ok (snd (new_handle ino fs))"
  using assms by (auto simp: roomy_def new_handle_def tables_ok_def numbers_left_def path_of_def Let_def less_Suc_eq split: if_splits)

lemma clip_handles_ok: "roomy n fs \<Longrightarrow> roomy n (clip_handles ino sz fs)"
  by (auto simp: roomy_def clip_handles_def tables_ok_def numbers_left_def split: if_splits)

lemma handles_upd_ok:
  "roomy n fs \<Longrightarrow> lf_handles fs fh = Some h \<Longrightarrow> roomy n (fs\<lparr>lf_handles := (lf_handles fs)(fh \<mapsto> h\<lparr>h_extents := x\<rparr>)\<rparr>)"
  "roomy n fs \<Longrightarrow> roomy n (fs\<lparr>lf_handles := (lf_handles fs)(fh := None)\<rparr>)"
  by (auto simp: roomy_def numbers_left_def tables_ok_def split: if_splits)

section \<open>Handlers\<close>

lemma flush_ok: "roomy n fs \<Longrightarrow> roomy n (snd (flush_fh D E fh fs))"
  by (simp add: flush_fh_def Let_def handles_upd_ok split: option.split)

lemma reply_empty_snd [simp]: "snd (reply_empty r) = snd r"
  by (simp add: reply_empty_def split: prod.split reply.split)

lemma reply_entry_ok: "roomy (Suc n) fs \<Longrightarrow> roomy n (snd (reply_entry E k path fs))"
  by (simp add: reply_entry_def case_prod_beta Let_def roomy_ino split: option.split)

lemma reply_attr_snd [simp]: "roomy n (snd (reply_attr E k ino path fs)) = roomy n fs"
  by (simp add: reply_attr_def case_prod_beta Let_def split: option.split)

lemma reply_created_ok: "roomy (Suc n) fs \<Longrightarrow> tables_ok (snd (reply_created E mode umask path sz fs))"
  using new_handle_ok [OF roomy_ino(1), of n fs path "fst (ino_at path fs)"]
  by (simp add: reply_created_def case_prod_beta Let_def roomy_ino)

lemma in_parent_ok:
  assumes "roomy n fs" "\<And>path fs1. roomy n fs1 \<Longrightarrow> tables_ok (snd (k path fs1))"
  shows "tables_ok (snd (in_parent E parent name fs k))"
  using assms by (simp add: in_parent_def case_prod_beta Let_def split: option.split)

lemma make_node_ok: "roomy (Suc n) fs \<Longrightarrow> tables_ok (snd (make_node D E parent name ds fs))"
  unfolding make_node_def
  by (rule in_parent_ok, assumption) (simp add: case_prod_beta Let_def roomy_ok [OF reply_entry_ok] split: reply.split)

lemma under_parent_ok:
  assumes "tables_ok fs" "\<And>path. tables_ok (snd (k path))"
  shows "tables_ok (snd (under_parent parent name fs k))"
  using assms by (simp add: under_parent_def split: option.split)

lemma lookup_ok: "roomy (Suc n) fs \<Longrightarrow> tables_ok (snd (fuse_lookup E fs parent name))"
  unfolding fuse_lookup_def
  by (rule in_parent_ok, assumption) (simp add: case_prod_beta Let_def roomy_ok [OF reply_entry_ok])

lemma getattr_ok: "roomy n fs \<Longrightarrow> tables_ok (snd (fuse_getattr E fs ino))"
  using roomy_ok by (fastforce simp: fuse_getattr_def split: option.split)

lemma setattr_size_ok: "roomy n fs \<Longrightarrow> roomy n (snd (setattr_size D E ino path is_file sz fs))"
  by (simp add: setattr_size_def case_prod_beta clip_handles_ok split: option.split reply.split)

lemma setattr_finish_ok: "roomy n fs \<Longrightarrow> roomy n (snd (setattr_finish D E ino path mode uid gid mt fs))"
  by (simp add: setattr_finish_def case_prod_beta Let_def split: reply.split)

lemma setattr_ok: "roomy n fs \<Longrightarrow> tables_ok (snd (fuse_setattr D E fs ino mode uid gid sz mtime))"
  by (simp add: fuse_setattr_def case_prod_beta Let_def roomy_ok [where n = n] setattr_size_ok setattr_finish_ok split: option.split reply.split)

lemma readlink_ok: "tables_ok fs \<Longrightarrow> tables_ok (snd (fuse_readlink E fs ino))"
  by (simp add: fuse_readlink_def case_prod_beta Let_def split: option.split)

lemma symlink_ok: "roomy (Suc n) fs \<Longrightarrow> tables_ok (snd (fuse_symlink D E fs parent name target))"
  by (simp add: fuse_symlink_def make_node_ok split: option.split)

lemma mkdir_ok: "roomy (Suc n) fs \<Longrightarrow> tables_ok (snd (fuse_mkdir D E fs parent name mode umask))"
  by (simp add: fuse_mkdir_def make_node_ok)

lemma create_ok: "roomy (Suc n) fs \<Longrightarrow> tables_ok (snd (fuse_create D E fs parent name mode umask))"
  unfolding fuse_create_def
  by (rule in_parent_ok, assumption)
    (simp add: case_prod_beta Let_def reply_created_ok split: option.split node.split reply.split)

lemma open_ok: "roomy n fs \<Longrightarrow> tables_ok (snd (fuse_open E fs ino))"
  by (simp add: fuse_open_def case_prod_beta Let_def new_handle_ok split: option.split node.split)

lemma read_ok: "tables_ok fs \<Longrightarrow> tables_ok (snd (fuse_read D E fs ino fh offset sz))"
  by (simp add: fuse_read_def case_prod_beta Let_def split: option.split reply.split)

lemma write_ok: "roomy n fs \<Longrightarrow> tables_ok (snd (fuse_write fs fh offset d))"
  using handles_upd_ok(1) [THEN roomy_ok, of n fs fh] by (simp add: fuse_write_def split: option.split)

lemma release_ok: "roomy n fs \<Longrightarrow> tables_ok (snd (fuse_release D E fs fh))"
  using handles_upd_ok(2) [OF flush_ok [of n fs D E fh], THEN roomy_ok, of fh] flush_ok [of n fs D E fh, THEN roomy_ok]
  by (simp add: fuse_release_def case_prod_beta split: reply.split)

lemma unlink_ok: "tables_ok fs \<Longrightarrow> tables_ok (snd (fuse_unlink D E fs parent name))"
  unfolding fuse_unlink_def
  by (rule under_parent_ok, assumption) (simp add: case_prod_beta Let_def split: option.split node.split)

lemma rmdir_ok: "tables_ok fs \<Longrightarrow> tables_ok (snd (fuse_rmdir D E fs parent name))"
  unfolding fuse_rmdir_def
  by (rule under_parent_ok, assumption) (simp add: case_prod_beta Let_def)

lemma xattr_ok:
  assumes "tables_ok fs"
  shows "tables_ok (snd (fuse_setxattr D E fs ino name v))" "tables_ok (snd (fuse_removexattr D E fs ino name))"
    "tables_ok (snd (fuse_getxattr E fs ino name sz))" "tables_ok (snd (fuse_listxattr E fs ino sz))"
  using assms
  by (simp_all add: fuse_setxattr_def fuse_removexattr_def fuse_getxattr_def fuse_listxattr_def case_prod_beta Let_def
      split: option.split bool.split)

subsection \<open>Directories\<close>

lemma length_bt_insert: "length (bt_insert k v m) \<le> Suc (length m)"
  by (induction k v m rule: bt_insert.induct) auto

lemma length_children: "length (children img dir) \<le> length (nodes img)"
proof -
  have "length (foldl (child_step pre) out es) \<le> length out + length es" for pre out and es :: "(string \<times> node) list"
  proof (induction es arbitrary: out)
    case (Cons e es)
    have "length (child_step pre out e) \<le> Suc (length out)"
      using length_bt_insert [of "drop (length pre) (fst e)" "kind_of (snd e)" out] by (simp add: child_step_def Let_def)
    with Cons.IH [of "child_step pre out e"] show ?case by simp
  qed simp
  from this [of _ "[]" "nodes img"] show ?thesis by (simp add: children_def)
qed

lemma child_inos_ok: "roomy (n + length kids) fs \<Longrightarrow> roomy n (snd (child_inos dir kids fs))"
proof (induction dir kids fs rule: child_inos.induct)
  case (2 dir name kind kids fs)
  have "roomy (n + length kids) (snd (ino_at (join_path dir name) fs))" using 2(2) by (intro roomy_ino(1)) simp
  with 2(1) [OF refl prod.collapse] show ?case by (simp add: case_prod_beta Let_def)
qed simp

text \<open>Directories are small: \<open>N\<close> bounds the number of nodes of every image a request sees.\<close>

definition sees_at_most :: "nat \<Rightarrow> 's fuse_env \<Rightarrow> ('s, 'b) landslide_fs \<Rightarrow> bool" where
  "sees_at_most N E fs \<longleftrightarrow>
     (case lf_backend fs of
        VolumeBackend v \<Rightarrow> length (nodes (v_image v)) \<le> N
      | ReplicaBackend _ \<Rightarrow> \<forall>n r. length (nodes (rp_image (fe_sync E n r))) \<le> N)"

lemma readdir_ok:
  assumes "roomy (Suc N) fs" "sees_at_most N E fs"
  shows "tables_ok (snd (fuse_readdir E fs ino offset))"
proof -
  let ?kids = "\<lambda>dir. fst (fuse_image E 1 (\<lambda>img. children img dir) (snd (fuse_image E 0 (is_dir_at dir) fs)))"
  have kids: "length (?kids dir) \<le> N" for dir
    using assms(2) length_children [of _ dir]
    by (force simp: fuse_image_def lock_backend_def sees_at_most_def backend_image_def Let_def intro: order_trans split: backend.splits)
  have "tables_ok (snd (child_inos dir (?kids dir) (snd (ino_at (parent_path dir) (snd (fuse_image E 1 (\<lambda>img. children img dir)
      (snd (fuse_image E 0 (is_dir_at dir) fs))))))))" for dir
    by (rule roomy_ok [where n = 0], rule child_inos_ok, rule roomy_ino(1), rule roomy_mono [OF _ Suc_le_mono [THEN iffD2]]) (use assms(1) kids in simp_all)
  then show ?thesis using roomy_ok [OF assms(1)] by (simp add: fuse_readdir_def case_prod_beta Let_def split: option.split)
qed

subsection \<open>Renaming\<close>

lemma join_path_below: "name \<noteq> [] \<Longrightarrow> join_path dir name \<noteq> ''/'' \<and> join_path dir name \<noteq> []"
  by (auto simp: join_path_def append_eq_Cons_conv)

lemma rename_check_same [simp]: "roomy n (snd (rename_check E to fk tk fs)) = roomy n fs"
  by (simp add: rename_check_def case_prod_beta Let_def split: option.split)

lemma rename_state_ok:
  assumes "roomy n fs" "iterates it" "src \<noteq> ''/'' \<and> src \<noteq> []" "to \<noteq> ''/'' \<and> to \<noteq> []"
  shows "tables_ok (fs\<lparr>lf_state := rename_subtree it src to (lf_state fs)\<rparr>)"
proof -
  note ok = roomy_ok [OF assms(1)]
  note r = rename_subtree_ok [OF tables_okD(1) [OF ok] _ _ _ _ assms(2), of src to]
  show ?thesis
    using r assms(3,4) tables_okD(2,3) [OF ok] by (intro tables_okI) (auto simp: dom_def)
qed

lemma rename_ok:
  fixes fs :: "('a, 'b) landslide_fs"
  assumes "roomy n fs" "iterates (fe_iter E)" "name \<noteq> Some []" "newname \<noteq> Some []"
  shows "tables_ok (snd (fuse_rename D E fs parent name newparent newname flags))"
proof (cases "\<exists>nm nn dir dir'. name = Some nm \<and> newname = Some nn \<and> path_of fs parent = Some dir \<and> path_of fs newparent = Some dir'")
  case True
  then obtain nm nn dir dir' where eq: "name = Some nm" "newname = Some nn" "path_of fs parent = Some dir" "path_of fs newparent = Some dir'"
    by blast
  have "tables_ok (fs'\<lparr>lf_state := rename_subtree (fe_iter E) (join_path dir nm) (join_path dir' nn) (lf_state fs')\<rparr>)"
    if "roomy n fs'" for fs' :: "('a, 'b) landslide_fs"
    using that assms(2-4) eq by (intro rename_state_ok join_path_below) auto
  then show ?thesis
    using assms(1) by (simp add: fuse_rename_def eq case_prod_beta Let_def roomy_ok [where n = n] split: option.split reply.split)
qed (use roomy_ok [OF assms(1)] in \<open>auto simp: fuse_rename_def split: option.splits\<close>)

section \<open>Runs\<close>

text \<open>The kernel never sends an empty name.\<close>

fun names_ok :: "request \<Rightarrow> bool" where
  "names_ok (RenameReq parent name newparent newname flags) \<longleftrightarrow> name \<noteq> Some [] \<and> newname \<noteq> Some []"
| "names_ok _ \<longleftrightarrow> True"

lemma serve_ok:
  assumes "roomy (Suc N) fs" "sees_at_most N E fs" "iterates (fe_iter E)" "names_ok req"
  shows "tables_ok (snd (serve D E fs req))"
  using assms roomy_ok [OF assms(1)] flush_ok [OF assms(1), THEN roomy_ok]
  by (cases req) (simp_all add: lookup_ok getattr_ok setattr_ok readlink_ok symlink_ok fuse_link_def readdir_ok mkdir_ok create_ok
      open_ok read_ok write_ok fuse_flush_def fuse_fsync_def release_ok unlink_ok rmdir_ok rename_ok xattr_ok)

end
