(* ===== verification/Fuse_Frame.thy ===== *)
theory Fuse_Frame
  imports Fuse_Tables
begin

text \<open>
  What every handler keeps. A handler touches the backend through a handful of calls and otherwise
  changes the two tables only, so a predicate that those calls keep is kept by every request: the
  locale states the contract and proves it once for the whole trait. It is interpreted on the
  predicate of a read-only mount and on the identity of a volume's handle.
\<close>

locale fuse_frame =
  fixes D :: "('s, 't, 'b) fuse_deps" and E :: "'s fuse_env" and P :: "('s, 'b) landslide_fs \<Rightarrow> bool"
  assumes lock: "P fs \<Longrightarrow> P (lock_backend E n fs)"
    and commit: "P fs \<Longrightarrow> P (snd (fuse_commit D E n ds fs))"
    and read_file: "P fs \<Longrightarrow> P (snd (fuse_read_file D E n path fs))"
    and read_range: "P fs \<Longrightarrow> P (snd (fuse_read_range D E n path offset len fs))"
    and trunc: "P fs \<Longrightarrow> P (snd (fuse_truncate D E n path sz fs))"
    and state: "P fs \<Longrightarrow> P (fs\<lparr>lf_state := st\<rparr>)"
    and handles: "P fs \<Longrightarrow> P (fs\<lparr>lf_handles := hs\<rparr>)"
    and next_fh: "P fs \<Longrightarrow> P (fs\<lparr>lf_next_fh := i\<rparr>)"
begin

lemma image: "P fs \<Longrightarrow> P (snd (fuse_image E n f fs))"
  by (simp add: fuse_image_def Let_def lock)

lemma ino: "P fs \<Longrightarrow> P (snd (ino_at path fs))"
  by (simp add: ino_at_def state)

lemma handle: "P fs \<Longrightarrow> P (snd (new_handle i fs))"
  using handles [OF next_fh] by (simp add: new_handle_def Let_def)

lemma clip: "P fs \<Longrightarrow> P (clip_handles i sz fs)"
  by (simp add: clip_handles_def handles)

lemma flush: "P fs \<Longrightarrow> P (snd (flush_fh D E fh fs))"
  by (simp add: flush_fh_def Let_def commit handles split: option.split)

lemma entry: "P fs \<Longrightarrow> P (snd (reply_entry E n path fs))"
  by (simp add: reply_entry_def case_prod_beta Let_def image ino split: option.split)

lemma attr: "P fs \<Longrightarrow> P (snd (reply_attr E n i path fs))"
  by (simp add: reply_attr_def case_prod_beta Let_def image split: option.split)

lemma created: "P fs \<Longrightarrow> P (snd (reply_created E mode umask path sz fs))"
  by (simp add: reply_created_def case_prod_beta Let_def image ino handle)

lemma parent:
  assumes "P fs" "\<And>path fs1. P fs1 \<Longrightarrow> P (snd (k path fs1))"
  shows "P (snd (in_parent E i name fs k))"
  using assms by (simp add: in_parent_def case_prod_beta Let_def image split: option.split)

lemma under:
  assumes "P fs" "\<And>path. P (snd (k path))"
  shows "P (snd (under_parent i name fs k))"
  using assms by (simp add: under_parent_def split: option.split)

lemma node: "P fs \<Longrightarrow> P (snd (make_node D E i name ds fs))"
  unfolding make_node_def
  by (rule parent, assumption) (simp add: case_prod_beta Let_def image commit entry split: reply.split)

lemma setattr: "P fs \<Longrightarrow> P (snd (fuse_setattr D E fs i mode uid gid sz mtime))"
proof -
  have finish: "P (snd (setattr_finish D E i path mode uid gid mt fs))" if "P fs" for fs path mt
    using that by (simp add: setattr_finish_def case_prod_beta Let_def commit attr split: reply.split)
  have sized: "P (snd (setattr_size D E i path is_file sz fs))" if "P fs" for fs path is_file
    using that trunc [OF that, of 0 path] by (simp add: setattr_size_def case_prod_beta clip split: option.split reply.split)
  show "P fs \<Longrightarrow> P (snd (fuse_setattr D E fs i mode uid gid sz mtime))"
    by (simp add: fuse_setattr_def case_prod_beta Let_def image finish sized split: option.split reply.split)
qed

lemma children_inos: "P fs \<Longrightarrow> P (snd (child_inos dir kids fs))"
  by (induction kids arbitrary: fs) (auto simp: case_prod_beta Let_def ino)

lemma readdir: "P fs \<Longrightarrow> P (snd (fuse_readdir E fs i offset))"
  by (simp add: fuse_readdir_def case_prod_beta Let_def image ino children_inos split: option.split)

lemma create: "P fs \<Longrightarrow> P (snd (fuse_create D E fs i name mode umask))"
  unfolding fuse_create_def
  by (rule parent, assumption)
    (simp add: case_prod_beta Let_def image read_file commit created split: option.split node.split reply.split)

lemma release: "P fs \<Longrightarrow> P (snd (fuse_release D E fs fh))"
  by (simp add: fuse_release_def case_prod_beta flush handles split: reply.split)

lemma unlink: "P fs \<Longrightarrow> P (snd (fuse_unlink D E fs i name))"
  unfolding fuse_unlink_def
  by (rule under, assumption) (simp add: case_prod_beta Let_def image commit split: option.split node.split)

lemma rmdir: "P fs \<Longrightarrow> P (snd (fuse_rmdir D E fs i name))"
  unfolding fuse_rmdir_def
  by (rule under, assumption) (simp add: case_prod_beta Let_def image commit)

lemma rename: "P fs \<Longrightarrow> P (snd (fuse_rename D E fs i name j newname flags))"
proof -
  have "P (snd (rename_check E to fk tk fs))" if "P fs" for to fk tk fs
    using that by (simp add: rename_check_def case_prod_beta Let_def image split: option.split)
  then show "P fs \<Longrightarrow> P (snd (fuse_rename D E fs i name j newname flags))"
    by (simp add: fuse_rename_def case_prod_beta Let_def image commit state split: option.split reply.split)
qed

lemma xattrs:
  assumes "P fs"
  shows "P (snd (fuse_setxattr D E fs i name v))" "P (snd (fuse_removexattr D E fs i name))"
    "P (snd (fuse_getxattr E fs i name sz))" "P (snd (fuse_listxattr E fs i sz))"
  using assms
  by (simp_all add: fuse_setxattr_def fuse_removexattr_def fuse_getxattr_def fuse_listxattr_def case_prod_beta Let_def image commit
      split: option.split bool.split)

lemma reads:
  assumes "P fs"
  shows "P (snd (fuse_lookup E fs i name))" "P (snd (fuse_getattr E fs i))" "P (snd (fuse_readlink E fs i))"
    "P (snd (fuse_open E fs i))" "P (snd (fuse_read D E fs i fh offset len))" "P (snd (fuse_write fs fh offset d))"
proof -
  show "P (snd (fuse_lookup E fs i name))"
    unfolding fuse_lookup_def by (rule parent [OF assms]) (simp add: case_prod_beta Let_def image entry)
qed (use assms in \<open>simp_all add: fuse_getattr_def fuse_readlink_def fuse_open_def fuse_read_def fuse_write_def case_prod_beta Let_def
    attr image handle read_range handles split: option.split node.split reply.split\<close>)

lemma serve_keeps: "P fs \<Longrightarrow> P (snd (serve D E fs req))"
  by (cases req) (simp_all add: reads setattr fuse_symlink_def fuse_link_def readdir fuse_mkdir_def node create
      fuse_flush_def fuse_fsync_def flush release unlink rmdir rename xattrs split: option.split)

end

section \<open>Interpretations\<close>

text \<open>A read-only mount: its store and its bucket are \<open>s\<close> and \<open>b\<close>, and without background syncs its view is \<open>w\<close>.\<close>

definition read_only :: "'s fuse_env \<Rightarrow> 's \<Rightarrow> 'b \<Rightarrow> string \<times> fs_image \<times> version option \<Rightarrow> ('s, 'b) landslide_fs \<Rightarrow> bool" where
  "read_only E s b w fs \<longleftrightarrow>
     lf_store fs = s \<and> lf_bucket fs = b \<and>
     (\<exists>rp. lf_backend fs = ReplicaBackend rp \<and>
        ((\<forall>n r. fe_sync E n r = r) \<longrightarrow> (rp_vol rp, rp_image rp, rp_cursor rp) = w))"

lemma read_only_lock: "read_only E s b w fs \<Longrightarrow> read_only E s b w (lock_backend E n fs)"
  by (auto simp: read_only_def lock_backend_def)

lemma read_only_read:
  assumes "read_only E s b w fs"
  shows "read_only E s b w (snd (fuse_read_file D E n path fs))" "read_only E s b w (snd (fuse_read_range D E n path offset len fs))"
  using read_only_lock [OF assms, of n]
  by (auto simp: read_only_def fuse_read_file_def fuse_read_range_def replica_read_file_def replica_read_range_def Let_def case_prod_beta)

interpretation ro: fuse_frame D E "read_only E s b w" for D E s b w
  by unfold_locales
    (simp add: read_only_lock, simp_all add: read_only_read, auto simp: read_only_def fuse_commit_def fuse_truncate_def)

text \<open>A volume mount serves one volume with one fencing token.\<close>

definition serves_volume :: "string \<Rightarrow> string \<Rightarrow> ('s, 'b) landslide_fs \<Rightarrow> bool" where
  "serves_volume vol token fs \<longleftrightarrow> (\<exists>v. lf_backend fs = VolumeBackend v \<and> v_vol v = vol \<and> v_token v = token)"

lemma mutations_identity:
  "v_vol (foldl (\<lambda>v (now, d). mutate now v d) v tds) = v_vol v" "v_token (foldl (\<lambda>v (now, d). mutate now v d) v tds) = v_token v"
  by (induction tds arbitrary: v) (auto simp: mutate_def)

lemma commit_identity:
  assumes "volume_commit B C Q sha K E s b v = (r, v', s', b')"
  shows "v_vol v' = v_vol v" "v_token v' = v_token v"
  using assms by (auto simp: volume_commit_def Let_def case_prod_beta split: if_splits sum.splits prod.splits)

lemma truncate_identity:
  "v_vol (snd (Volume.truncate K now b v path sz)) = v_vol v" "v_token (snd (Volume.truncate K now b v path sz)) = v_token v"
  by (simp_all add: Volume.truncate_def volume_read_file_def mutate_def case_prod_beta Let_def split: sum.split)

lemma serves_volume_commit:
  assumes "serves_volume vol token fs"
  shows "serves_volume vol token (snd (fuse_commit D E n ds fs))"
proof -
  obtain v where v: "lf_backend fs = VolumeBackend v" "v_vol v = vol" "v_token v = token" using assms by (auto simp: serves_volume_def)
  obtain r v' s' b' where c: "volume_commit (fd_db D) (fd_codec D) (fd_fs D) (fd_sha D) (fd_bucket D) (fe_volume E) (lf_store fs) (lf_bucket fs)
      (foldl (\<lambda>v (now, d). mutate now v d) v (clocked E n ds)) = (r, v', s', b')" by (metis prod_cases4)
  then show ?thesis using commit_identity [OF c] v by (simp add: fuse_commit_def serves_volume_def mutations_identity)
qed

interpretation vm: fuse_frame D E "serves_volume vol token" for D E vol token
  by unfold_locales
    (auto simp: serves_volume_commit, auto simp: serves_volume_def lock_backend_def fuse_read_file_def fuse_read_range_def
      fuse_truncate_def volume_read_file_def volume_read_range_def truncate_identity case_prod_beta Let_def)

end
