(* ===== verification/Fs_Segments.thy ===== *)
theory Fs_Segments
  imports Fs_Image
begin

text \<open>
  The meaning of the image operations through the lookup of a path, and the correctness of the
  checkpoint fold: merging the entries a \<open>DeltaImage\<close> gathered into the image it started from gives
  the image that applying the deltas gives.
\<close>

section \<open>Paths\<close>

lemma below_less: "below q p \<Longrightarrow> q < p"
proof -
  assume "below q p"
  then obtain x where "p = q @ CHR ''/'' # x" by (auto simp: below_def prefix_def)
  moreover have "q @ [] < q @ CHR ''/'' # x" by (subst append_less_same_prefix) simp
  ultimately show ?thesis by simp
qed

lemma not_below_self [simp]: "\<not> below p p"
  using below_less by blast

lemma below_trans: "below p q \<Longrightarrow> below q r \<Longrightarrow> below p r"
  unfolding below_def by (metis append_prefixD prefix_order.trans)

lemma below_comparable:
  assumes "below a p" "below b p"
  shows "a = b \<or> below a b \<or> below b a"
proof -
  from assms obtain x y where "a @ ''/'' @ x = b @ ''/'' @ y" by (auto simp: below_def prefix_def)
  then show ?thesis
    by (auto simp: append_eq_append_conv2 below_def prefix_def append_eq_Cons_conv Cons_eq_append_conv)
qed

text \<open>The strings with a given prefix are an interval.\<close>

lemma prefix_le: "prefix pre p \<Longrightarrow> pre \<le> (p :: string)"
  using append_le_same_prefix [of pre "[]"] by (auto simp: prefix_def)

lemma past_prefix: "pre \<le> p \<Longrightarrow> \<not> prefix pre p \<Longrightarrow> p < q \<Longrightarrow> \<not> prefix pre (q :: string)"
proof (induction pre arbitrary: p q)
  case (Cons a pre)
  then obtain b p' where p: "p = b # p'" by (cases p) auto
  with Cons.prems obtain c q' where q: "q = c # q'" by (cases q) auto
  show ?case using Cons.IH [of p' q'] Cons.prems by (auto simp: p q)
qed simp

lemma dropWhile_none: "\<forall>x \<in> set xs. \<not> P x \<Longrightarrow> dropWhile P xs = xs"
  by (cases xs) auto

lemma range_keys_filter:
  assumes "bt_ok m"
  shows "range_keys pre m = filter (prefix pre) (map fst m)"
  using assms
proof (induction m)
  case (Cons kv m)
  obtain k v where kv: "kv = (k, v)" by (cases kv)
  have m: "bt_ok m" "\<forall>x \<in> set m. k < fst x" using Cons.prems by (auto simp: bt_ok_def kv)
  show ?case
  proof (cases "k < pre")
    case True
    then have "\<not> prefix pre k" using prefix_le by (auto simp: not_less [symmetric])
    with True Cons.IH [OF m(1)] show ?thesis by (simp add: range_keys_def kv)
  next
    case False
    show ?thesis
    proof (cases "prefix pre k")
      case True
      have "dropWhile (\<lambda>(p, _). p < pre) m = m" using False m(2) by (intro dropWhile_none) auto
      with True False Cons.IH [OF m(1)] show ?thesis by (simp add: range_keys_def kv)
    next
      case np: False
      then have "filter (prefix pre) (map fst m) = []"
        using m(2) False past_prefix [of pre k] by (auto simp: filter_empty_conv not_less)
      with np False show ?thesis by (simp add: range_keys_def kv)
    qed
  qed
qed (simp add: range_keys_def)

section \<open>Moving and burying entries\<close>

text \<open>A fold that clears each key of a list and sets its target.\<close>

lemma fold_moves:
  assumes "distinct ps" "\<forall>p \<in> set ps. u (t p) = p" "set ps \<inter> t ` set ps = {}"
  shows "foldl (\<lambda>g p. (g(p := z))(t p := f p)) g ps =
    (\<lambda>q. if q \<in> t ` set ps then f (u q) else if q \<in> set ps then z else g q)"
  using assms
proof (induction ps rule: rev_induct)
  case (snoc p ps)
  have IH: "foldl (\<lambda>g p. (g(p := z))(t p := f p)) g ps =
    (\<lambda>q. if q \<in> t ` set ps then f (u q) else if q \<in> set ps then z else g q)"
    using snoc.prems by (intro snoc.IH) auto
  have "p \<notin> t ` set ps" "u (t p) = p" using snoc.prems(2,3) by auto
  then show ?case unfolding foldl_append IH by (intro ext) simp
qed simp

text \<open>Where a path of the subtree of \<open>src\<close> goes.\<close>

definition moved_path :: "string \<Rightarrow> string \<Rightarrow> string \<Rightarrow> string" where
  "moved_path src to p = to @ drop (length src) p"

lemma moved_eq: "below src p \<Longrightarrow> to @ CHR ''/'' # drop (Suc (length src)) p = moved_path src to p"
  by (auto simp: moved_path_def below_def prefix_def)

lemma moved_inverse: "below src p \<Longrightarrow> moved_path to src (moved_path src to p) = p"
  by (auto simp: moved_path_def below_def prefix_def)

lemma moved_below: "below src p \<Longrightarrow> below to (moved_path src to p)"
  by (auto simp: moved_path_def below_def prefix_def)

text \<open>Renames that the crate issues: neither path lies in the subtree of the other.\<close>

fun delta_allowed :: "fs_delta \<Rightarrow> bool" where
  "delta_allowed (Rename src to) = (src \<noteq> to \<and> \<not> below src to \<and> \<not> below to src)"
| "delta_allowed _ = True"

lemma moved_apart:
  assumes "delta_allowed (Rename src to)" "below src p" "below src q"
  shows "moved_path src to p \<noteq> q"
proof
  assume "moved_path src to p = q"
  with moved_below [OF assms(2), of to] have "below to q" by simp
  with assms below_comparable show False by fastforce
qed

text \<open>What a rename does to an entry map: the subtree goes, and comes back under the new path.\<close>

definition shifted :: "string \<Rightarrow> string \<Rightarrow> string set \<Rightarrow> 'a \<Rightarrow> (string \<Rightarrow> 'a) \<Rightarrow> (string \<Rightarrow> 'a) \<Rightarrow> string \<Rightarrow> 'a" where
  "shifted src to D z f g q =
     (if below to q \<and> moved_path to src q \<in> D then f (moved_path to src q) else if q \<in> D then z else g q)"

lemma fold_shift:
  assumes "delta_allowed (Rename src to)" "distinct ps" "\<forall>p \<in> set ps. below src p"
  shows "foldl (\<lambda>g p. (g(p := z))(moved_path src to p := f p)) g ps = shifted src to (set ps) z f g"
proof -
  have inv: "\<forall>p \<in> set ps. moved_path to src (moved_path src to p) = p" using assms(3) moved_inverse by blast
  have "set ps \<inter> moved_path src to ` set ps = {}" using moved_apart [OF assms(1)] assms(3) by blast
  note fm = fold_moves [OF assms(2) inv this]
  have mem: "q \<in> moved_path src to ` set ps \<longleftrightarrow> below to q \<and> moved_path to src q \<in> set ps" for q
    using inv assms(3) moved_inverse [of to q src] moved_below by (metis image_iff)
  show ?thesis unfolding fm mem shifted_def by (rule refl)
qed

section \<open>The image operations on lookups\<close>

abbreviation look :: "fs_image \<Rightarrow> string \<Rightarrow> node option" where
  "look img \<equiv> map_of (nodes img)"

definition fs_ok :: "fs_image \<Rightarrow> bool" where
  "fs_ok img \<longleftrightarrow> bt_ok (nodes img)"

lemma bt_ok_move [simp]: "bt_ok m \<Longrightarrow> bt_ok (move_node pre to m p)"
  by (simp add: move_node_def split: option.split)

lemma move_fold:
  assumes "delta_allowed (Rename src to)" "bt_ok m" "distinct ps" "\<forall>p \<in> set ps. below src p \<and> map_of m p \<noteq> None"
  shows "map_of (foldl (move_node (src @ ''/'') to) m ps) = shifted src to (set ps) None (map_of m) (map_of m) \<and>
    bt_ok (foldl (move_node (src @ ''/'') to) m ps)"
  using assms(3,4)
proof (induction ps rule: rev_induct)
  case Nil
  show ?case using assms(2) by (simp add: shifted_def [abs_def])
next
  case (snoc p ps)
  let ?m = "foldl (move_node (src @ ''/'') to) m ps"
  have IH: "map_of ?m = shifted src to (set ps) None (map_of m) (map_of m)" "bt_ok ?m" using snoc by auto
  have ps: "\<forall>p \<in> set ps. below src p" "\<forall>p \<in> set (ps @ [p]). below src p" using snoc.prems by auto
  have p: "below src p" "p \<notin> set ps" "map_of m p \<noteq> None" using snoc.prems by auto
  have "\<not> below to p" using p(1) assms(1) below_comparable by fastforce
  then have at: "map_of ?m p = map_of m p" using p by (simp add: IH shifted_def)
  then have "map_of (move_node (src @ ''/'') to ?m p) = ((map_of ?m)(p := None))(moved_path src to p := map_of m p)"
    using p by (auto simp: move_node_def moved_eq split: option.split)
  also have "\<dots> = shifted src to (set (ps @ [p])) None (map_of m) (map_of m)"
    using fold_shift [OF assms(1) _ ps(1), where z = None and f = "map_of m" and g = "map_of m"]
      fold_shift [OF assms(1) _ ps(2), where z = None and f = "map_of m" and g = "map_of m"] snoc.prems(1)
    by (simp add: IH)
  finally show ?case using IH(2) by simp
qed

text \<open>The keys of a subtree that are present.\<close>

definition subtree :: "(string \<Rightarrow> node option) \<Rightarrow> string \<Rightarrow> string set" where
  "subtree x src = {p. below src p \<and> x p \<noteq> None}"

definition renamed_root :: "string \<Rightarrow> string \<Rightarrow> 'a \<Rightarrow> (node \<Rightarrow> 'a) \<Rightarrow> (string \<Rightarrow> node option) \<Rightarrow> (string \<Rightarrow> 'a) \<Rightarrow> string \<Rightarrow> 'a" where
  "renamed_root src to z w x g = (case x src of None \<Rightarrow> g(src := z) | Some n \<Rightarrow> (g(src := z))(to := w n))"

lemma look_rename:
  assumes "delta_allowed (Rename src to)" "fs_ok img"
  shows "look (apply_rename img src to) =
    shifted src to (subtree (look img) src) None (look img) (renamed_root src to None Some (look img) (look img))"
    "fs_ok (apply_rename img src to)"
proof -
  define m where "m = (case look img src of None \<Rightarrow> nodes img | Some n \<Rightarrow> bt_insert to n (bt_remove src (nodes img)))"
  let ?ps = "filter (prefix (src @ ''/'')) (map fst m)"
  have ok: "bt_ok m" using assms(2) by (auto simp: m_def fs_ok_def split: option.split)
  have m: "map_of m = renamed_root src to None Some (look img) (look img)"
    using assms(1) by (auto simp: m_def renamed_root_def fun_eq_iff split: option.split)
  have same: "map_of m p = look img p" if "below src p" for p
    using that assms(1) by (auto simp: m renamed_root_def split: option.split)
  have keys: "map_of m p \<noteq> None \<longleftrightarrow> p \<in> set (map fst m)" for p by (simp add: map_of_eq_None_iff)
  have set: "set ?ps = subtree (look img) src"
  proof (rule set_eqI)
    fix p
    have "p \<in> set ?ps \<longleftrightarrow> below src p \<and> map_of m p \<noteq> None" unfolding keys below_def by auto
    then show "p \<in> set ?ps \<longleftrightarrow> p \<in> subtree (look img) src" using same [of p] by (auto simp: subtree_def)
  qed
  have "\<forall>p \<in> set ?ps. below src p \<and> map_of m p \<noteq> None"
    unfolding set using same by (auto simp: subtree_def)
  from move_fold [OF assms(1) ok _ this] bt_distinct [OF ok]
  have "map_of (nodes (apply_rename img src to)) = shifted src to (subtree (look img) src) None (map_of m) (map_of m) \<and>
      bt_ok (nodes (apply_rename img src to))"
    unfolding set by (simp add: apply_rename_def Let_def range_keys_filter [OF ok] flip: m_def)
  moreover have "shifted src to (subtree (look img) src) None (map_of m) g = shifted src to (subtree (look img) src) None (look img) g" for g
    using same by (auto simp: shifted_def [abs_def] subtree_def fun_eq_iff)
  ultimately show "look (apply_rename img src to) =
    shifted src to (subtree (look img) src) None (look img) (renamed_root src to None Some (look img) (look img))"
    "fs_ok (apply_rename img src to)" by (simp_all add: m fs_ok_def)
qed

lemma look_remove: "look (apply_remove img path) p = (if p = path \<or> below path p then None else look img p)"
  by (simp add: apply_remove_def)

section \<open>The checkpoint fold\<close>

text \<open>
  The entries \<open>e\<close> gathered on the way from image \<open>b\<close> to image \<open>x\<close>: an entry is the node now, a path
  without entry is unchanged, and what lives below a tombstone has its own entry.
\<close>

definition overlaid :: "(string \<Rightarrow> node option) \<Rightarrow> (string \<Rightarrow> node option option) \<Rightarrow> string \<Rightarrow> node option" where
  "overlaid b e p = (case e p of Some v \<Rightarrow> v | None \<Rightarrow> b p)"

definition tombs_ok :: "(string \<Rightarrow> node option option) \<Rightarrow> (string \<Rightarrow> node option) \<Rightarrow> bool" where
  "tombs_ok e x \<longleftrightarrow> (\<forall>q p. e q = Some None \<longrightarrow> below q p \<longrightarrow> x p \<noteq> None \<longrightarrow> e p \<noteq> None)"

definition gathered :: "(string \<Rightarrow> node option) \<Rightarrow> (string \<Rightarrow> node option option) \<Rightarrow> (string \<Rightarrow> node option) \<Rightarrow> bool" where
  "gathered b e x \<longleftrightarrow> x = overlaid b e \<and> tombs_ok e x"

lemma gathered_set: "gathered b e x \<Longrightarrow> gathered b (e(p \<mapsto> Some n)) (x(p \<mapsto> n))"
  unfolding gathered_def by (elim conjE, intro conjI ext) (simp_all add: overlaid_def tombs_ok_def)

lemma gathered_remove:
  assumes "gathered b e x"
  shows "gathered b (\<lambda>p. if p = path \<or> p \<in> subtree x path then Some None else e p)
    (\<lambda>p. if p = path \<or> below path p then None else x p)"
proof -
  have x: "x p = overlaid b e p" for p using assms by (simp add: gathered_def)
  have "tombs_ok e x" using assms unfolding gathered_def by blast
  then show ?thesis
    unfolding gathered_def
  proof (intro conjI ext)
    fix p
    show "(if p = path \<or> below path p then None else x p) =
        overlaid b (\<lambda>p. if p = path \<or> p \<in> subtree x path then Some None else e p) p"
      using x [of p] by (cases "x p") (simp_all add: overlaid_def subtree_def)
  qed (auto simp: tombs_ok_def subtree_def dest: below_trans)
qed

lemma gathered_rename:
  assumes "delta_allowed (Rename src to)" "gathered b e x"
  shows "gathered b (shifted src to (subtree x src) (Some None) (\<lambda>p. Some (x p)) (renamed_root src to (Some None) (\<lambda>n. Some (Some n)) x e))
    (shifted src to (subtree x src) None x (renamed_root src to None Some x x))"
proof -
  let ?D = "subtree x src"
  let ?e = "renamed_root src to (Some None) (\<lambda>n. Some (Some n)) x e" and ?x = "renamed_root src to None Some x x"
  have a: "src \<noteq> to" "\<not> below src to" "\<not> below to src" using assms(1) by simp_all
  have x: "x p = overlaid b e p" for p using assms(2) by (simp add: gathered_def)
  have "?x p = overlaid b ?e p" for p
    using x [of p] by (cases "x src") (simp_all add: overlaid_def renamed_root_def)
  then have over: "shifted src to ?D None x ?x p = overlaid b (shifted src to ?D (Some None) (\<lambda>p. Some (x p)) ?e) p" for p
    by (simp add: shifted_def overlaid_def)
  have live: "?x p \<noteq> None \<Longrightarrow> p \<notin> ?D \<Longrightarrow> ?e p = None \<Longrightarrow> x p \<noteq> None \<and> e p = None \<and> \<not> below src p" for p
    by (cases "x src") (auto simp: renamed_root_def subtree_def split: if_splits)
  have tomb: "?e q = Some None \<Longrightarrow> q = src \<or> e q = Some None" for q
    by (cases "x src") (auto simp: renamed_root_def split: if_splits)
  have "tombs_ok (shifted src to ?D (Some None) (\<lambda>p. Some (x p)) ?e) (shifted src to ?D None x ?x)"
    unfolding tombs_ok_def
  proof (intro allI impI notI)
    fix q p
    assume q: "shifted src to ?D (Some None) (\<lambda>p. Some (x p)) ?e q = Some None" and "below q p"
      and p: "shifted src to ?D None x ?x p \<noteq> None" "shifted src to ?D (Some None) (\<lambda>p. Some (x p)) ?e p = None"
    then have "x p \<noteq> None" "e p = None" "\<not> below src p" using live [of p] by (auto simp: shifted_def split: if_splits)
    moreover from q have "below src q \<or> q = src \<or> e q = Some None"
      using tomb [of q] by (auto simp: shifted_def subtree_def split: if_splits)
    ultimately show False using \<open>below q p\<close> assms(2) below_trans unfolding gathered_def tombs_ok_def by blast
  qed
  with over show ?thesis unfolding gathered_def by (simp add: fun_eq_iff)
qed

text \<open>The entries of the two arms that remove paths.\<close>

lemma descendants_eq:
  assumes "fs_ok (di_live di)"
  shows "set (descendants di (path @ ''/'')) = subtree (look (di_live di)) path" "distinct (descendants di (path @ ''/''))"
proof -
  have keys: "look (di_live di) p \<noteq> None \<longleftrightarrow> p \<in> set (map fst (nodes (di_live di)))" for p by (simp add: map_of_eq_None_iff)
  show "set (descendants di (path @ ''/'')) = subtree (look (di_live di)) path"
    unfolding descendants_def subtree_def keys below_def by auto
  show "distinct (descendants di (path @ ''/''))"
    using bt_distinct [OF assms [unfolded fs_ok_def]] by (simp add: descendants_def)
qed

lemma map_of_bury: "map_of (bury es ps) = (\<lambda>p. if p \<in> set ps then Some None else map_of es p)"
  by (induction ps arbitrary: es) (auto simp: bury_def fun_eq_iff)

lemma bt_ok_bury [simp]: "bt_ok es \<Longrightarrow> bt_ok (bury es ps)"
  by (induction ps arbitrary: es) (auto simp: bury_def)

lemma map_of_carry:
  assumes "\<forall>p \<in> set ps. below src p"
  shows "map_of (foldl (carry live src to) es ps) =
    foldl (\<lambda>g p. (g(p := Some None))(moved_path src to p := Some (look live p))) (map_of es) ps"
  using assms by (induction ps arbitrary: es) (simp_all add: carry_def moved_eq)

lemma bt_ok_carry [simp]: "bt_ok es \<Longrightarrow> bt_ok (foldl (carry live src to) es ps)"
  by (induction ps arbitrary: es) (auto simp: carry_def)

text \<open>The other deltas touch one path, and leave a node there or nothing changed.\<close>

lemma look_single:
  assumes "\<forall>path. d \<noteq> Remove path" "\<forall>src to. d \<noteq> Rename src to"
  shows "fs_ok img \<Longrightarrow> fs_ok (fs_apply now img d)"
    "look (fs_apply now img d) = (look img)(delta_path d := look (fs_apply now img d) (delta_path d))"
    "look (fs_apply now img d) (delta_path d) = None \<Longrightarrow> look img (delta_path d) = None"
  using assms
  by (cases d; auto simp: delta_path_def apply_write_def apply_mkdir_def meta_mut_def Let_def fs_ok_def fun_eq_iff split: option.splits)+

definition fs_sim :: "fs_image \<Rightarrow> delta_image \<Rightarrow> fs_image \<Rightarrow> bool" where
  "fs_sim i di x \<longleftrightarrow> fs_ok i \<and> fs_ok x \<and> bt_ok (di_entries di) \<and> di_live di = x \<and>
     gathered (look i) (map_of (di_entries di)) (look x)"

lemma fs_sim_step:
  assumes "fs_sim i di x" "delta_allowed d"
  shows "fs_sim i (di_apply now di d) (fs_apply now x d)"
proof -
  note sim = assms(1) [unfolded fs_sim_def]
  have live: "fs_ok (di_live di)" "di_live di = x" using sim by simp_all
  note desc = descendants_eq [OF live(1)]
  consider (remove) path where "d = Remove path" | (rename) src to where "d = Rename src to"
    | (single) "\<forall>path. d \<noteq> Remove path" "\<forall>src to. d \<noteq> Rename src to" by (cases d) auto
  then show ?thesis
  proof cases
    case remove
    have e: "map_of (di_entries (di_apply now di d)) =
        (\<lambda>p. if p = path \<or> p \<in> subtree (look x) path then Some None else map_of (di_entries di) p)"
      using desc(1) [of path] live(2) by (auto simp: remove di_apply_def map_of_bury fun_eq_iff)
    have l: "look (fs_apply now x d) = (\<lambda>p. if p = path \<or> below path p then None else look x p)"
      by (simp add: remove look_remove fun_eq_iff)
    show ?thesis
      using sim gathered_remove [of "look i" "map_of (di_entries di)" "look x" path] unfolding fs_sim_def e l
      by (simp add: remove di_apply_def fs_ok_def apply_remove_def)
  next
    case rename
    let ?ps = "descendants di (src @ ''/'')" and ?D = "subtree (look x) src"
    let ?es = "case look x src of None \<Rightarrow> bt_insert src None (di_entries di)
      | Some n \<Rightarrow> bt_insert to (Some n) (bt_insert src None (di_entries di))"
    have ok: "delta_allowed (Rename src to)" using assms(2) rename by simp
    have D: "set ?ps = ?D" using desc(1) live(2) by simp
    then have ps: "\<forall>p \<in> set ?ps. below src p" by (auto simp: subtree_def)
    have es: "map_of ?es = renamed_root src to (Some None) (\<lambda>n. Some (Some n)) (look x) (map_of (di_entries di))"
      by (auto simp: renamed_root_def split: option.split)
    have "map_of (di_entries (di_apply now di d)) = map_of (foldl (carry x src to) ?es ?ps)"
      using live(2) by (simp add: rename di_apply_def Let_def)
    also have "\<dots> = shifted src to ?D (Some None) (\<lambda>p. Some (look x p))
        (renamed_root src to (Some None) (\<lambda>n. Some (Some n)) (look x) (map_of (di_entries di)))"
      unfolding map_of_carry [OF ps] fold_shift [OF ok desc(2) ps] D es ..
    finally have e: "map_of (di_entries (di_apply now di d)) = shifted src to ?D (Some None) (\<lambda>p. Some (look x p))
        (renamed_root src to (Some None) (\<lambda>n. Some (Some n)) (look x) (map_of (di_entries di)))" .
    have "bt_ok (di_entries (di_apply now di d))"
      using sim by (auto simp: rename di_apply_def Let_def split: option.split)
    then show ?thesis
      using sim look_rename [OF ok, of x] gathered_rename [OF ok, of "look i" "map_of (di_entries di)" "look x"]
      unfolding fs_sim_def e by (simp add: rename di_apply_def Let_def)
  next
    case single
    let ?x = "fs_apply now x d" and ?p = "delta_path d"
    have di: "di_apply now di d = \<lparr>di_entries = (case look ?x ?p of None \<Rightarrow> di_entries di
        | Some n \<Rightarrow> bt_insert ?p (Some n) (di_entries di)), di_live = ?x\<rparr>"
      using single live(2) by (cases d) (auto simp: di_apply_def Let_def split: option.split)
    note x = look_single [OF single, where img = x and now = now]
    show ?thesis
    proof (cases "look ?x ?p")
      case None
      with x(2,3) have "look ?x = look x" by (metis fun_upd_triv)
      moreover have "di_apply now di d = \<lparr>di_entries = di_entries di, di_live = ?x\<rparr>" by (simp add: di None)
      ultimately show ?thesis using sim x(1) by (simp add: fs_sim_def)
    next
      case (Some n)
      with x(2) have "look ?x = (look x)(?p \<mapsto> n)" by metis
      moreover have "di_apply now di d = \<lparr>di_entries = bt_insert ?p (Some n) (di_entries di), di_live = ?x\<rparr>"
        by (simp add: di Some)
      ultimately show ?thesis using sim x(1) gathered_set by (simp add: fs_sim_def)
    qed
  qed
qed

section \<open>Merging a segment\<close>

lemma map_of_merge_entry:
  "map_of (merge_entry m (q, v)) p = (if p = q then v else if v = None \<and> below q p then None else map_of m p)"
  by (cases v) (auto simp: merge_entry_def)

lemma bt_ok_merge: "bt_ok m \<Longrightarrow> bt_ok (foldl merge_entry m es)"
  by (induction es arbitrary: m) (auto simp: merge_entry_def split: option.split)

lemma map_of_merge:
  assumes "bt_ok es"
  shows "map_of (foldl merge_entry m es) p =
    (case map_of es p of
       Some v \<Rightarrow> v
     | None \<Rightarrow> if \<exists>q. map_of es q = Some None \<and> below q p then None else map_of m p)"
  using assms
proof (induction es arbitrary: m)
  case (Cons qv es)
  obtain q v where qv: "qv = (q, v)" by (cases qv)
  have es: "bt_ok es" "\<forall>k \<in> fst ` set es. q < k" using Cons.prems by (auto simp: bt_ok_def qv)
  have later: "map_of es k = None" if "k \<le> q" for k
    using es(2) that by (auto simp: map_of_eq_None_iff)
  then have "map_of es q = None" "\<not> (\<exists>k. map_of es k = Some None \<and> below k q)"
    using below_less by (fastforce simp: less_le)+
  then show ?case
    by (auto simp: Cons.IH [OF es(1)] qv map_of_merge_entry split: option.split)
qed simp

lemma fs_sim_merge:
  assumes "fs_sim i di x"
  shows "merge_segment i \<lparr>sg_entries = di_entries di\<rparr> = x"
proof -
  note sim = assms [unfolded fs_sim_def gathered_def]
  have "map_of (foldl merge_entry (nodes i) (di_entries di)) p = look x p" for p
  proof -
    have x: "look x p = overlaid (look i) (map_of (di_entries di)) p" and t: "tombs_ok (map_of (di_entries di)) (look x)"
      and es: "bt_ok (di_entries di)" using sim by metis+
    show ?thesis
    proof (cases "map_of (di_entries di) p")
      case None
      then have "look x p = None" if "map_of (di_entries di) q = Some None" "below q p" for q
        using t that unfolding tombs_ok_def by blast
      with None x show ?thesis by (auto simp: map_of_merge [OF es] overlaid_def)
    qed (simp add: map_of_merge [OF es] overlaid_def x)
  qed
  moreover have "bt_ok (foldl merge_entry (nodes i) (di_entries di))" using sim by (intro bt_ok_merge) (simp add: fs_ok_def)
  ultimately have "foldl merge_entry (nodes i) (di_entries di) = nodes x" using sim by (intro bt_eqI) (auto simp: fs_ok_def)
  then show ?thesis by (simp add: merge_segment_def)
qed

text \<open>A delta with the clock reading of its application.\<close>

type_synonym timed_delta = "i64 \<times> fs_delta"

interpretation fs_ckpt: checkpointing "\<lambda>i (now, d). fs_apply now i d" "\<lambda>i. \<lparr>di_entries = [], di_live = i\<rparr>"
    "\<lambda>di (now, d). di_apply now di d" "\<lambda>di. Some \<lparr>sg_entries = di_entries di\<rparr>" merge_segment
    fs_sim fs_ok "\<lambda>(now, d). delta_allowed d"
proof unfold_locales
  fix i assume "fs_ok i"
  then show "fs_sim i \<lparr>di_entries = [], di_live = i\<rparr> i"
    by (auto simp: fs_sim_def gathered_def overlaid_def tombs_ok_def)
qed (auto simp: fs_sim_step fs_sim_merge, auto simp: fs_sim_def)

section \<open>Property\<close>

text \<open>The segments of consecutive checkpoints, each folded on the image so far.\<close>

fun fs_seals :: "fs_image \<Rightarrow> timed_delta list list \<Rightarrow> fs_segment list" where
  "fs_seals i [] = []"
| "fs_seals i (ds # dss) =
     \<lparr>sg_entries = di_entries (foldl (\<lambda>di (now, d). di_apply now di d) \<lparr>di_entries = [], di_live = i\<rparr> ds)\<rparr> #
     fs_seals (foldl (\<lambda>i (now, d). fs_apply now i d) i ds) dss"

text \<open>C25: file-system segments lose nothing: merging the segments folded from consecutive batches of deltas, with their
  tombstones, gives the image that applying every delta gives, whatever writes, removals of subtrees and renames the
  batches hold, as long as no rename moves a path onto itself, into its own subtree or onto one of its ancestors.\<close>

theorem fs_segments_eq_deltas:
  assumes "bt_ok (nodes i)" "\<forall>(now, d) \<in> set (concat dss). delta_allowed d"
  shows "foldl merge_segment i (fs_seals i dss) = foldl (\<lambda>i (now, d). fs_apply now i d) i (concat dss)"
proof -
  have "fs_ckpt.sealed_chain i dss (fs_seals i dss)" by (induction dss arbitrary: i) simp_all
  with fs_ckpt.merge_chain [of i dss] assms show ?thesis by (simp add: fs_ok_def list_all_iff)
qed

theorem fs_segments_eq_deltas_witness:
  "foldl merge_segment fs_image_default (fs_seals fs_image_default
       [[(1, Mkdir ''/a''), (2, Write ''/a/f'' 0 (InlineData ''x''))], [(3, Rename ''/a'' ''/b''), (4, Remove ''/b'')]]) =
     foldl (\<lambda>i (now, d). fs_apply now i d) fs_image_default
       [(1, Mkdir ''/a''), (2, Write ''/a/f'' 0 (InlineData ''x'')), (3, Rename ''/a'' ''/b''), (4, Remove ''/b'')]"
  using fs_segments_eq_deltas [of fs_image_default
      "[[(1, Mkdir ''/a''), (2, Write ''/a/f'' 0 (InlineData ''x''))], [(3, Rename ''/a'' ''/b''), (4, Remove ''/b'')]]"]
  by (simp add: fs_image_default_def below_def)

end
