(* ===== verification/Fs_Upgrade.thy ===== *)
theory Fs_Upgrade
  imports Volume Fs_Segments
begin

text \<open>
  Two facts about replaying deltas. Modification times apart, an image depends on the deltas and not
  on the clock readings of their application: replaying a stream gives the same tree each time. And
  the upgrade of a commit, which replaces the extents of a large file by one block-backed write,
  leads to the tree the handle holds after the commit.
\<close>

section \<open>Trees without times\<close>

definition untime :: "node \<Rightarrow> node" where
  "untime n = with_meta (\<lambda>m. m\<lparr>nm_mtime_ms := 0\<rparr>) n"

definition tree :: "fs_image \<Rightarrow> string \<Rightarrow> node option" where
  "tree img p = map_option untime (look img p)"

text \<open>The effect of a delta on the node at its own path.\<close>

fun node_step :: "i64 \<Rightarrow> node option \<Rightarrow> fs_delta \<Rightarrow> node option" where
  "node_step now x (Write path offset (InlineData d)) =
     Some (case x of Some (File (Inline b) m) \<Rightarrow> File (Inline (splice b offset d)) m
           | _ \<Rightarrow> File (Inline (splice [] offset d)) (meta_file now))"
| "node_step now x (Write path offset (BlocksData bs)) =
     Some (File (Blocks bs (blocks_size bs)) (case x of None \<Rightarrow> meta_file now | Some n \<Rightarrow> node_meta_of n))"
| "node_step now x (Mkdir path) = (case x of None \<Rightarrow> Some (Dir (meta_dir now)) | Some n \<Rightarrow> Some n)"
| "node_step now x (MkSymlink path target) = Some (Symlink target (meta_symlink now))"
| "node_step now x (SetAttr path mode uid gid mtime_ms) = map_option (with_meta (set_attrs mode uid gid mtime_ms)) x"
| "node_step now x (SetXattr path name v) = map_option (with_meta (set_xattr name v)) x"
| "node_step now x d = x"

fun single :: "fs_delta \<Rightarrow> bool" where
  "single (Remove _) = False"
| "single (Rename _ _) = False"
| "single _ = True"

lemma look_step:
  assumes "single d"
  shows "look (fs_apply now img d) p = (if p = delta_path d then node_step now (look img p) d else look img p)"
proof (cases d)
  case (Write path offset data)
  then show ?thesis
    by (cases data) (auto simp: delta_path_def apply_write_def meta_of_def Let_def split: option.splits)
qed (use assms in \<open>auto simp: delta_path_def apply_mkdir_def meta_mut_def split: option.splits\<close>)

lemma fs_ok_apply [simp]: "fs_ok i \<Longrightarrow> delta_allowed d \<Longrightarrow> fs_ok (fs_apply now i d)"
proof -
  assume "fs_ok i" "delta_allowed d"
  then show ?thesis
    using fs_ckpt.good_fold [of i "[(now, d)]"] by simp
qed

lemma untime_idem [simp]: "untime (untime n) = untime n"
  by (cases n) (simp_all add: untime_def)

lemma untime_meta:
  "untime (with_meta (set_attrs a b c t) (untime n)) = untime (with_meta (set_attrs a b c t) n)"
  "untime (with_meta (set_xattr k v) (untime n)) = untime (with_meta (set_xattr k v) n)"
  by (cases n; simp add: untime_def set_attrs_def set_xattr_def split: option.split)+

lemma untime_fresh:
  "untime (File c (meta_file n)) = untime (File c (meta_file 0))"
  "untime (Dir (meta_dir n)) = untime (Dir (meta_dir 0))"
  "untime (Symlink t (meta_symlink n)) = untime (Symlink t (meta_symlink 0))"
  by (simp_all add: untime_def meta_file_def meta_dir_def meta_symlink_def meta_with_def)

text \<open>One step on the tree: the clock does not matter.\<close>

definition tree_step :: "node option \<Rightarrow> fs_delta \<Rightarrow> node option" where
  "tree_step x d = map_option untime (node_step 0 x d)"

lemma untime_step: "map_option untime (node_step now x d) = tree_step (map_option untime x) d"
proof (cases d)
  case (Write path offset data)
  show ?thesis
  proof (cases x)
    case None
    then show ?thesis using Write by (cases data) (simp_all add: tree_step_def untime_fresh [where n = now])
  next
    case (Some n)
    then show ?thesis
      using Write by (cases data; cases n)
        (auto simp: tree_step_def untime_def meta_file_def meta_with_def split: content.split)
  qed
qed (cases x; simp add: tree_step_def untime_meta untime_fresh [where n = now])+

lemma tree_single:
  assumes "single d"
  shows "tree (fs_apply now img d) = (tree img)(delta_path d := tree_step (tree img (delta_path d)) d)"
  by (auto simp: tree_def look_step [OF assms] untime_step fun_eq_iff)

lemma tree_None: "tree img p = None \<longleftrightarrow> look img p = None"
  by (simp add: tree_def)

lemma tree_rename:
  assumes "delta_allowed (Rename src to)" "fs_ok img"
  shows "tree (apply_rename img src to) =
    shifted src to (subtree (tree img) src) None (tree img) (renamed_root src to None Some (tree img) (tree img))"
proof -
  have D: "subtree (tree img) src = subtree (look img) src" using tree_None by (auto simp: subtree_def)
  show ?thesis
    unfolding D by (rule ext) (auto simp: tree_def look_rename [OF assms] shifted_def renamed_root_def split: option.split)
qed

text \<open>The tree after a delta is a function of the tree before it.\<close>

lemma tree_apply_cong:
  assumes "tree i = tree j" "fs_ok i" "fs_ok j" "delta_allowed d"
  shows "tree (fs_apply n i d) = tree (fs_apply n' j d)"
proof (cases "single d")
  case True
  then show ?thesis by (simp add: tree_single assms(1))
next
  case False
  then consider path where "d = Remove path" | src to where "d = Rename src to" by (cases d) auto
  then show ?thesis
  proof cases
    case 1
    have t: "tree (apply_remove x path) = (\<lambda>p. if p = path \<or> below path p then None else tree x p)" for x
      by (rule ext) (simp add: tree_def look_remove)
    show ?thesis unfolding 1 fs_apply.simps t assms(1) ..
  next
    case 2
    then show ?thesis using assms by (simp add: tree_rename)
  qed
qed

abbreviation replay :: "fs_image \<Rightarrow> timed_delta list \<Rightarrow> fs_image" where
  "replay i tds \<equiv> foldl (\<lambda>i (now, d). fs_apply now i d) i tds"

lemma tree_replay_cong:
  assumes "tree i = tree j" "fs_ok i" "fs_ok j" "map snd xs = map snd ys" "\<forall>d \<in> set (map snd xs). delta_allowed d"
  shows "tree (replay i xs) = tree (replay j ys) \<and> fs_ok (replay i xs)"
  using assms
proof (induction xs arbitrary: i j ys)
  case (Cons x xs)
  obtain n d where x: "x = (n, d)" by (cases x)
  obtain n' ys' where ys: "ys = (n', d) # ys'" "map snd xs = map snd ys'" using Cons.prems(4) x by (cases ys) auto
  have d: "delta_allowed d" using Cons.prems(5) x by simp
  from Cons.IH [OF tree_apply_cong [OF Cons.prems(1-3) d] fs_ok_apply [OF Cons.prems(2) d] fs_ok_apply [OF Cons.prems(3) d] ys(2)]
    Cons.prems(5) show ?case by (simp add: x ys)
qed simp

section \<open>The upgrade of a commit\<close>

text \<open>
  Batches the upgrade is right for: extents go to new or inline files, and no path is removed,
  renamed or replaced by a link after the first write. The clock is irrelevant here: it is zero.
\<close>

fun inline_or_new :: "node option \<Rightarrow> bool" where
  "inline_or_new None = True"
| "inline_or_new (Some (File (Inline _) _)) = True"
| "inline_or_new _ = False"

fun settles :: "fs_delta \<Rightarrow> bool" where
  "settles (Mkdir _) = True"
| "settles (SetAttr _ _ _ _ _) = True"
| "settles (SetXattr _ _ _) = True"
| "settles _ = False"

fun commit_safe :: "bool \<Rightarrow> fs_image \<Rightarrow> fs_delta list \<Rightarrow> bool" where
  "commit_safe wrote i [] = True"
| "commit_safe wrote i (Write path offset data # ds) =
     ((case data of InlineData _ \<Rightarrow> True | BlocksData _ \<Rightarrow> False) \<and> inline_or_new (look i path) \<and>
      commit_safe True (fs_apply 0 i (Write path offset data)) ds)"
| "commit_safe wrote i (d # ds) =
     ((wrote \<longrightarrow> settles d) \<and> delta_allowed d \<and> commit_safe wrote (fs_apply 0 i d) ds)"

fun is_write :: "fs_delta \<Rightarrow> bool" where
  "is_write (Write _ _ _) = True"
| "is_write _ = False"

definition at_path :: "string \<Rightarrow> fs_delta list \<Rightarrow> fs_delta list" where
  "at_path p ds = filter (\<lambda>d. delta_path d = p) ds"

lemma tree_fold:
  assumes "\<forall>d \<in> set ds. single d"
  shows "tree (foldl (fs_apply now) i ds) p = foldl tree_step (tree i p) (at_path p ds)"
  using assms by (induction ds arbitrary: i) (auto simp: at_path_def tree_single)

text \<open>What the upgrade makes of the deltas at a path whose file is chunked.\<close>

fun collapse :: "fs_delta \<Rightarrow> fs_delta list \<Rightarrow> fs_delta list" where
  "collapse w [] = []"
| "collapse w (d # ds) = (if is_write d then w # filter (\<lambda>d. \<not> is_write d) ds else d # collapse w ds)"

definition chunked_at :: "fs_image \<Rightarrow> string \<Rightarrow> bytes option" where
  "chunked_at img p = (case look img p of
     Some (File (Inline c) _) \<Rightarrow> if length c \<le> BLOCK_CHUNK then None else Some c | _ \<Rightarrow> None)"

definition full_write :: "(bytes \<Rightarrow> string) \<Rightarrow> string \<Rightarrow> bytes \<Rightarrow> fs_delta" where
  "full_write sha p c = Write p 0 (BlocksData (blocks_of sha c))"

lemma upgrade_write:
  "upgrade sha K b img chunked (Write path offset data # ds) =
     (if path \<in> chunked then upgrade sha K b img chunked ds
      else case chunked_at img path of
        None \<Rightarrow> apsnd ((#) (Write path offset data)) (upgrade sha K b img chunked ds)
      | Some c \<Rightarrow> map_prod ((@) (missing_blocks sha K b c)) ((#) (full_write sha path c)) (upgrade sha K b img (insert path chunked) ds))"
  by (auto simp: chunked_at_def full_write_def split: option.split node.split content.split)

lemma upgrade_other: "\<not> is_write d \<Longrightarrow> upgrade sha K b img chunked (d # ds) = apsnd ((#) d) (upgrade sha K b img chunked ds)"
  by (cases d) simp_all

lemma delta_path_write [simp]: "delta_path (Write p off data) = p" "delta_path (full_write sha p c) = p"
  by (simp_all add: delta_path_def full_write_def)

lemma upgrade_at:
  "at_path p (snd (upgrade sha K b img chunked ds)) =
    (if p \<in> chunked then filter (\<lambda>d. \<not> is_write d) (at_path p ds)
     else case chunked_at img p of
       None \<Rightarrow> at_path p ds
     | Some c \<Rightarrow> collapse (full_write sha p c) (at_path p ds))"
proof (induction ds arbitrary: chunked)
  case (Cons d ds)
  show ?case
  proof (cases "is_write d")
    case True
    then obtain path offset data where d: "d = Write path offset data" by (cases d) auto
    show ?thesis
      by (cases "path = p"; cases "chunked_at img path")
        (auto simp: d upgrade_write at_path_def Cons [unfolded at_path_def] simp del: upgrade.simps split: option.split)
  next
    case False
    then show ?thesis
      by (auto simp: upgrade_other at_path_def Cons [unfolded at_path_def] simp del: upgrade.simps split: option.split)
  qed
qed (auto simp: at_path_def split: option.split)

text \<open>The deltas at one path of a safe batch, after the first write of the batch.\<close>

fun path_safe :: "node option \<Rightarrow> fs_delta list \<Rightarrow> bool" where
  "path_safe x [] = True"
| "path_safe x (d # ds) =
     ((if is_write d then \<not> is_blocks_write d \<and> inline_or_new x else settles d) \<and> path_safe (tree_step x d) ds)"

lemma inline_untime [simp]: "inline_or_new (map_option untime x) = inline_or_new x"
  by (cases x rule: inline_or_new.cases) (simp_all add: untime_def)

lemma settles_single: "settles d \<Longrightarrow> single d"
  by (cases d) simp_all

lemma inline_tree [simp]: "inline_or_new (tree i p) = inline_or_new (look i p)"
  by (simp add: tree_def)

lemma commit_safe_head:
  assumes "commit_safe True i (d # ds)"
  shows "single d" "commit_safe True (fs_apply 0 i d) ds"
    "if is_write d then \<not> is_blocks_write d \<and> inline_or_new (look i (delta_path d)) else settles d"
proof -
  have "single d \<and> commit_safe True (fs_apply 0 i d) ds \<and>
      (if is_write d then \<not> is_blocks_write d \<and> inline_or_new (look i (delta_path d)) else settles d)"
  proof (cases d)
    case (Write path offset data)
    with assms show ?thesis by (cases data) simp_all
  qed (use assms in simp_all)
  then show "single d" "commit_safe True (fs_apply 0 i d) ds"
    "if is_write d then \<not> is_blocks_write d \<and> inline_or_new (look i (delta_path d)) else settles d" by blast+
qed

lemma commit_safe_path:
  "commit_safe True i ds \<Longrightarrow> path_safe (tree i p) (at_path p ds)"
proof (induction ds arbitrary: i)
  case (Cons d ds)
  note h = commit_safe_head [OF Cons.prems]
  have "path_safe (tree (fs_apply 0 i d) p) (at_path p ds)" by (rule Cons.IH [OF h(2)])
  with h(3) show ?case
    by (cases "delta_path d = p") (auto simp: at_path_def tree_single [OF h(1)] split: if_splits)
qed (simp add: at_path_def)

lemma commit_safe_single: "commit_safe True i ds \<Longrightarrow> d \<in> set ds \<Longrightarrow> single d"
proof (induction ds arbitrary: i)
  case (Cons x ds)
  then show ?case using commit_safe_head [of i x ds] by auto
qed simp

lemma settle_file:
  assumes "settles d"
  obtains g where "\<And>c m. tree_step (Some (File c m)) d = Some (File c (g m))" "\<And>m. nm_mtime_ms (g m) = 0"
proof -
  have "\<exists>g. \<forall>c m. tree_step (Some (File c m)) d = Some (File c (g m)) \<and> nm_mtime_ms (g m) = 0"
    using assms by (cases d) (auto simp: tree_step_def untime_def intro!: exI)
  with that show ?thesis by blast
qed

text \<open>From a file on, extents change the content only: without them the metadata is the same.\<close>

lemma settled_fold:
  assumes "path_safe (Some (File (Inline c) m)) ds" "nm_mtime_ms m = 0"
  shows "\<exists>c' m'. foldl tree_step (Some (File (Inline c) m)) ds = Some (File (Inline c') m') \<and>
    foldl tree_step (Some (File (Blocks bs n) m)) (filter (\<lambda>d. \<not> is_write d) ds) = Some (File (Blocks bs n) m')"
  using assms
proof (induction ds arbitrary: c m)
  case (Cons d ds)
  show ?case
  proof (cases "is_write d")
    case True
    with Cons.prems obtain path offset data where d: "d = Write path offset (InlineData data)"
      by (cases d rule: is_blocks_write.cases) auto
    have "m\<lparr>nm_mtime_ms := 0\<rparr> = m" using Cons.prems(2) by simp
    then have "tree_step (Some (File (Inline c) m)) d = Some (File (Inline (splice c offset data)) m)"
      by (simp add: d tree_step_def untime_def)
    with Cons True show ?thesis by simp
  next
    case False
    with Cons.prems have "settles d" by simp
    then obtain g where "\<And>c m. tree_step (Some (File c m)) d = Some (File c (g m))" "\<And>m. nm_mtime_ms (g m) = 0"
      by (rule settle_file) blast
    with Cons False show ?thesis by simp
  qed
qed simp

text \<open>The first extent to a new or inline file and the block-backed write give the same metadata.\<close>

lemma first_write:
  assumes "inline_or_new x" "map_option untime x = x" "d = Write path offset (InlineData data)"
  obtains c m where "tree_step x d = Some (File (Inline c) m)" "nm_mtime_ms m = 0"
    "tree_step x (full_write sha path c') = Some (File (Blocks (blocks_of sha c') (blocks_size (blocks_of sha c'))) m)"
proof (cases x rule: inline_or_new.cases)
  case 1
  then show ?thesis
    by (intro that) (simp_all add: assms(3) tree_step_def full_write_def untime_def)
next
  case (2 c m)
  then have "m\<lparr>nm_mtime_ms := 0\<rparr> = m" using assms(2) by (simp add: untime_def)
  then have "nm_mtime_ms m = 0" by (metis node_meta.select_convs(4) node_meta.surjective node_meta.update_convs(4))
  with 2 show ?thesis
    by (intro that [of "splice c offset data" m]) (simp_all add: assms(3) tree_step_def full_write_def untime_def)
qed (use assms(1) in simp_all)

lemma collapse_fold:
  assumes "path_safe x ds" "map_option untime x = x" "\<exists>d \<in> set ds. is_write d" "\<forall>d \<in> set ds. delta_path d = p"
  shows "\<exists>c' m'. foldl tree_step x ds = Some (File (Inline c') m') \<and>
    foldl tree_step x (collapse (full_write sha p c) ds) = Some (File (Blocks (blocks_of sha c) (blocks_size (blocks_of sha c))) m')"
  using assms
proof (induction ds arbitrary: x)
  case (Cons d ds)
  show ?case
  proof (cases "is_write d")
    case True
    with Cons.prems obtain offset data where d: "d = Write p offset (InlineData data)"
      by (cases d rule: is_blocks_write.cases) auto
    have "inline_or_new x" using Cons.prems(1) True by simp
    from first_write [OF this Cons.prems(2) d, of sha c] obtain c0 m where
      f: "tree_step x d = Some (File (Inline c0) m)" "nm_mtime_ms m = 0"
        "tree_step x (full_write sha p c) = Some (File (Blocks (blocks_of sha c) (blocks_size (blocks_of sha c))) m)" by metis
    from settled_fold [of c0 m ds "blocks_of sha c" "blocks_size (blocks_of sha c)"] Cons.prems(1) f True show ?thesis by simp
  next
    case False
    have "map_option untime (tree_step x d) = tree_step x d" by (simp add: tree_step_def option.map_comp comp_def)
    with Cons False show ?thesis by simp
  qed
qed simp

lemma upgrade_from:
  "d \<in> set (snd (upgrade sha K b img chunked ds)) \<Longrightarrow> d \<in> set ds \<or> (\<exists>p c. d = full_write sha p c)"
proof (induction ds arbitrary: chunked)
  case (Cons x ds)
  show ?case
  proof (cases "is_write x")
    case True
    then obtain path offset data where x: "x = Write path offset data" by (cases x) auto
    with Cons show ?thesis by (auto simp: upgrade_write simp del: upgrade.simps split: if_splits option.splits)
  next
    case False
    with Cons show ?thesis by (auto simp: upgrade_other simp del: upgrade.simps)
  qed
qed simp

lemma path_safe_inline: "path_safe x ds \<Longrightarrow> filter is_blocks_write ds = []"
  by (induction ds arbitrary: x) (auto split: if_splits elim: is_blocks_write.elims)

lemma collapse_inline:
  assumes "filter is_blocks_write ds = []"
  shows "filter is_blocks_write (collapse (full_write sha p c) ds) = (if \<exists>d \<in> set ds. is_write d then [full_write sha p c] else [])"
  using assms by (induction ds) (auto simp: full_write_def filter_empty_conv split: if_splits)

lemma collapse_none: "\<not> (\<exists>d \<in> set ds. is_write d) \<Longrightarrow> collapse w ds = ds"
  by (induction ds) auto

lemma untime_tree [simp]: "map_option untime (tree i p) = tree i p"
  by (simp add: tree_def option.map_comp comp_def)

lemma upgrade_settled:
  assumes safe: "commit_safe True i ds" and img: "tree img = tree (foldl (fs_apply 0) i ds)"
  shows "tree (foldl (fs_apply 0) i (snd (upgrade sha K b img {} ds))) =
    tree (foldl (fs_apply now) img (filter is_blocks_write (snd (upgrade sha K b img {} ds))))"
proof
  fix p
  let ?up = "snd (upgrade sha K b img {} ds)"
  have single: "\<forall>d \<in> set ds. single d" using commit_safe_single [OF safe] by blast
  then have up: "\<forall>d \<in> set ?up. single d" using upgrade_from by (fastforce simp: full_write_def)
  have ps: "path_safe (tree i p) (at_path p ds)" by (rule commit_safe_path [OF safe])
  note none = path_safe_inline [OF ps]
  have at: "at_path p ?up = (case chunked_at img p of None \<Rightarrow> at_path p ds
      | Some c \<Rightarrow> collapse (full_write sha p c) (at_path p ds))" by (simp add: upgrade_at)
  have flt: "at_path p (filter is_blocks_write ?up) = filter is_blocks_write (at_path p ?up)"
    by (simp add: at_path_def conj_commute)
  have lhs: "tree (foldl (fs_apply 0) i ?up) p = foldl tree_step (tree i p) (at_path p ?up)" by (rule tree_fold [OF up])
  have rhs: "tree (foldl (fs_apply now) img (filter is_blocks_write ?up)) p =
      foldl tree_step (foldl tree_step (tree i p) (at_path p ds)) (filter is_blocks_write (at_path p ?up))"
    using up unfolding flt [symmetric] by (subst tree_fold) (auto simp: img tree_fold [OF single])
  show "tree (foldl (fs_apply 0) i ?up) p = tree (foldl (fs_apply now) img (filter is_blocks_write ?up)) p"
  proof (cases "chunked_at img p")
    case None
    then show ?thesis unfolding lhs rhs by (simp add: at none)
  next
    case (Some c)
    show ?thesis
    proof (cases "\<exists>d \<in> set (at_path p ds). is_write d")
      case True
      have "\<forall>d \<in> set (at_path p ds). delta_path d = p" by (simp add: at_path_def)
      from collapse_fold [OF ps untime_tree True this, of sha c] obtain c' m' where
        f: "foldl tree_step (tree i p) (at_path p ds) = Some (File (Inline c') m')"
          "foldl tree_step (tree i p) (collapse (full_write sha p c) (at_path p ds)) =
             Some (File (Blocks (blocks_of sha c) (blocks_size (blocks_of sha c))) m')" by blast
      have "tree img p = Some (File (Inline c') m')" using f(1) by (simp add: img tree_fold [OF single])
      then have "untime (File (Inline c') m') = File (Inline c') m'" using untime_tree [of img p] by simp
      then have "tree_step (Some (File (Inline c') m')) (full_write sha p c) =
          Some (File (Blocks (blocks_of sha c) (blocks_size (blocks_of sha c))) m')"
        by (simp add: tree_step_def full_write_def untime_def)
      then show ?thesis unfolding lhs rhs by (simp add: at Some collapse_inline [OF none] True f)
    next
      case False
      then show ?thesis unfolding lhs rhs by (simp add: at Some collapse_inline [OF none] collapse_none none)
    qed
  qed
qed

text \<open>The stream after a commit and the image after a commit are the same tree.\<close>

lemma upgrade_tree:
  assumes "commit_safe False i ds" "tree img = tree (foldl (fs_apply 0) i ds)"
  shows "tree (foldl (fs_apply 0) i (snd (upgrade sha K b img {} ds))) =
    tree (foldl (fs_apply now) img (filter is_blocks_write (snd (upgrade sha K b img {} ds))))"
  using assms
proof (induction ds arbitrary: i)
  case (Cons d ds)
  show ?case
  proof (cases "is_write d")
    case True
    then have "commit_safe True i (d # ds)" using Cons.prems(1) by (cases d) auto
    then show ?thesis by (rule upgrade_settled [OF _ Cons.prems(2)])
  next
    case False
    then have safe: "commit_safe False (fs_apply 0 i d) ds" using Cons.prems(1) by (cases d) auto
    have "\<not> is_blocks_write d" using False by (cases d) auto
    with Cons.IH [OF safe] Cons.prems(2) False show ?thesis by (simp add: upgrade_other)
  qed
qed simp

lemma commit_safe_allowed: "commit_safe w i ds \<Longrightarrow> d \<in> set ds \<Longrightarrow> delta_allowed d"
proof (induction ds arbitrary: w i)
  case (Cons x ds)
  then show ?case by (cases x) auto
qed simp

lemma upgrade_allowed:
  assumes "commit_safe w i ds" "d \<in> set (snd (upgrade sha K b img chunked ds))"
  shows "delta_allowed d"
  using upgrade_from [OF assms(2)] commit_safe_allowed [OF assms(1)] by (auto simp: full_write_def)

end
