(* ===== verification/Fs_Serde.thy ===== *)
theory Fs_Serde
  imports Fs_Upgrade
begin

text \<open>
  The serialisation of the file-system crate: \<open>serde_json\<close> reads back the deltas, segments and
  manifests it writes (\<open>fs_serde\<close>), with an instance that shows the laws can hold.
\<close>

locale fs_serde =
  fixes Q :: fs_codec
  assumes delta_json: "\<exists>b. json_fs_delta Q d = Inr b \<and> unjson_fs_delta Q b = Inr d"
    and segment_json: "\<exists>b. json_segment Q seg = Inr b \<and> unjson_segment Q b = Inr seg"
    and manifest_json: "\<exists>b. json_fs_manifest Q m = Inr b \<and> unjson_fs_manifest Q b = Inr m"
begin

definition json_of :: "fs_delta \<Rightarrow> bytes" where
  "json_of d = projr (json_fs_delta Q d)"

lemma json_of_eq: "json_fs_delta Q d = Inr (json_of d)" "unjson_fs_delta Q (json_of d) = Inr d"
  using delta_json [of d] by (auto simp: json_of_def)

text \<open>The events of a batch of deltas decode to the deltas.\<close>

lemma delta_events_json:
  "map_res (new_event_json (json_fs_delta Q) ''delta'') ds = Inr (map (\<lambda>d. new_event_new ''delta'' (json_of d)) ds)"
  by (rule map_res_eq) (simp add: new_event_json_def json_of_eq)

lemma decode_batch:
  assumes "map (\<lambda>e. (ev_type e, ev_data e)) es = map (\<lambda>e. (ne_type e, ne_data e)) (map (\<lambda>d. new_event_new ''delta'' (json_of d)) ds)"
  shows "map (event_json (unjson_fs_delta Q)) es = map Inr ds"
proof -
  have "map ev_data es = map json_of ds"
    using arg_cong [OF assms, of "map snd"] by (simp add: comp_def new_event_new_def)
  then have "map (unjson_fs_delta Q) (map ev_data es) = map (unjson_fs_delta Q) (map json_of ds)" by simp
  then have *: "map (\<lambda>e. unjson_fs_delta Q (ev_data e)) es = map Inr ds" by (simp add: comp_def json_of_eq)
  have "event_json (unjson_fs_delta Q) e = map_err Encoding (unjson_fs_delta Q (ev_data e))" for e
    by (simp add: event_json_def)
  then have "map (event_json (unjson_fs_delta Q)) es = map (map_err Encoding) (map (\<lambda>e. unjson_fs_delta Q (ev_data e)) es)" by simp
  then show ?thesis unfolding * by (simp add: comp_def)
qed

end

section \<open>An instance\<close>

definition net_fields :: "string \<Rightarrow> string list" where
  "net_fields b = (case net_dec (length b) b of None \<Rightarrow> [] | Some xs \<Rightarrow> xs)"

lemma net_fields_enc [simp]: "net_fields (net_enc xs) = xs"
  by (simp add: net_fields_def net_dec_enc [OF length_net_enc])

definition show_opt :: "('a \<Rightarrow> string) \<Rightarrow> 'a option \<Rightarrow> string" where
  "show_opt f x = net_enc (case x of None \<Rightarrow> [] | Some v \<Rightarrow> [f v])"

definition read_opt :: "(string \<Rightarrow> 'a) \<Rightarrow> string \<Rightarrow> 'a option" where
  "read_opt f b = (case net_fields b of [v] \<Rightarrow> Some (f v) | _ \<Rightarrow> None)"

lemma read_show_opt: "(\<And>v. f (g v) = v) \<Longrightarrow> read_opt f (show_opt g x) = x"
  by (cases x) (simp_all add: read_opt_def show_opt_def)

definition show_meta :: "node_meta \<Rightarrow> string" where
  "show_meta m = net_enc (show_nat (nm_mode m) # show_nat (nm_uid m) # show_nat (nm_gid m) # show_int (nm_mtime_ms m) # flat_pairs (nm_xattrs m))"

definition read_meta :: "string \<Rightarrow> node_meta" where
  "read_meta b = (case net_fields b of
     m # u # g # t # xs \<Rightarrow> \<lparr>nm_mode = dec_value m, nm_uid = dec_value u, nm_gid = dec_value g, nm_mtime_ms = read_int t, nm_xattrs = pairs_of xs\<rparr>
   | _ \<Rightarrow> meta_file 0)"

lemma read_show_meta [simp]: "read_meta (show_meta m) = m"
  by (simp add: read_meta_def show_meta_def pairs_of_flat)

definition show_refs :: "block_ref list \<Rightarrow> string" where
  "show_refs rs = net_enc (flat_pairs (map (\<lambda>r. (br_hash r, show_nat (br_len r))) rs))"

definition read_refs :: "string \<Rightarrow> block_ref list" where
  "read_refs b = map (\<lambda>(h, n). \<lparr>br_hash = h, br_len = dec_value n\<rparr>) (pairs_of (net_fields b))"

lemma block_ref_eta [simp]: "\<lparr>br_hash = br_hash r, br_len = br_len r\<rparr> = r"
  by (cases r) simp

lemma read_show_refs [simp]: "read_refs (show_refs rs) = rs"
  by (simp add: read_refs_def show_refs_def pairs_of_flat comp_def)

fun show_content :: "content \<Rightarrow> string" where
  "show_content (Inline b) = net_enc [b]"
| "show_content (Blocks rs n) = net_enc [show_refs rs, show_nat n]"

definition read_content_of :: "string \<Rightarrow> content" where
  "read_content_of b = (case net_fields b of [d] \<Rightarrow> Inline d | [rs, n] \<Rightarrow> Blocks (read_refs rs) (dec_value n) | _ \<Rightarrow> Inline [])"

lemma read_show_content [simp]: "read_content_of (show_content c) = c"
  by (cases c) (simp_all add: read_content_of_def)

fun show_node :: "node \<Rightarrow> string" where
  "show_node (File c m) = net_enc [''f'', show_content c, show_meta m]"
| "show_node (Dir m) = net_enc [''d'', show_meta m]"
| "show_node (Symlink t m) = net_enc [''l'', t, show_meta m]"

definition read_node :: "string \<Rightarrow> node" where
  "read_node b = (case net_fields b of
     [k, x, m] \<Rightarrow> if k = ''f'' then File (read_content_of x) (read_meta m) else Symlink x (read_meta m)
   | [_, m] \<Rightarrow> Dir (read_meta m) | _ \<Rightarrow> Dir (meta_dir 0))"

lemma read_show_node [simp]: "read_node (show_node n) = n"
  by (cases n) (simp_all add: read_node_def)

fun show_fs_delta :: "fs_delta \<Rightarrow> string" where
  "show_fs_delta (Write p n (InlineData d)) = net_enc [''wi'', p, show_nat n, d]"
| "show_fs_delta (Write p n (BlocksData rs)) = net_enc [''wb'', p, show_nat n, show_refs rs]"
| "show_fs_delta (Mkdir p) = net_enc [''mk'', p]"
| "show_fs_delta (Remove p) = net_enc [''rm'', p]"
| "show_fs_delta (Rename a b) = net_enc [''mv'', a, b]"
| "show_fs_delta (MkSymlink p t) = net_enc [''ln'', p, t]"
| "show_fs_delta (SetAttr p m u g t) = net_enc [''sa'', p, show_opt show_nat m, show_opt show_nat u, show_opt show_nat g, show_opt show_int t]"
| "show_fs_delta (SetXattr p k v) = net_enc [''sx'', p, k, show_opt (\<lambda>x. x) v]"

definition read_fs_delta :: "string \<Rightarrow> fs_delta" where
  "read_fs_delta b = (case net_fields b of
     [k, p] \<Rightarrow> if k = ''mk'' then Mkdir p else Remove p
   | [k, p, t] \<Rightarrow> if k = ''mv'' then Rename p t else MkSymlink p t
   | [k, p, n, d] \<Rightarrow>
       if k = ''wi'' then Write p (dec_value n) (InlineData d)
       else if k = ''wb'' then Write p (dec_value n) (BlocksData (read_refs d))
       else SetXattr p n (read_opt (\<lambda>x. x) d)
   | [_, p, m, u, g, t] \<Rightarrow> SetAttr p (read_opt dec_value m) (read_opt dec_value u) (read_opt dec_value g) (read_opt read_int t)
   | _ \<Rightarrow> Remove [])"

lemma read_show_fs_delta [simp]: "read_fs_delta (show_fs_delta d) = d"
  by (cases d rule: show_fs_delta.cases) (simp_all add: read_fs_delta_def read_show_opt)

definition show_segment :: "fs_segment \<Rightarrow> string" where
  "show_segment g = net_enc (flat_pairs (map (\<lambda>(p, n). (p, show_opt show_node n)) (sg_entries g)))"

definition read_segment :: "string \<Rightarrow> fs_segment" where
  "read_segment b = \<lparr>sg_entries = map (\<lambda>(p, n). (p, read_opt read_node n)) (pairs_of (net_fields b))\<rparr>"

lemma read_show_segment [simp]: "read_segment (show_segment g) = g"
  by (simp add: read_segment_def show_segment_def pairs_of_flat comp_def case_prod_beta read_show_opt)

definition mem_fs :: fs_codec where
  "mem_fs =
     \<lparr>json_fs_delta = (\<lambda>d. Inr (show_fs_delta d)), unjson_fs_delta = (\<lambda>b. Inr (read_fs_delta b)),
      json_segment = (\<lambda>g. Inr (show_segment g)), unjson_segment = (\<lambda>b. Inr (read_segment b)),
      json_fs_manifest = (\<lambda>m. Inr (net_enc (fm_segments m))), unjson_fs_manifest = (\<lambda>b. Inr \<lparr>fm_segments = net_fields b\<rparr>)\<rparr>"

interpretation mem_fsq: fs_serde mem_fs
  by unfold_locales (simp_all add: mem_fs_def)

end
