(* ===== verification/Volume_Props.thy ===== *)
theory Volume_Props
  imports Fs_Serde
begin

text \<open>
  The write handle of the file-system crate against its stream: what a mount reconstructs from the
  latest manifest, its segments and the backlog is the tree the handle holds, through commits and
  checkpoints; and the batches and mounts for which this fails.
\<close>

section \<open>Replaying a stream\<close>

definition deltas_of :: "fs_codec \<Rightarrow> event list \<Rightarrow> fs_delta list" where
  "deltas_of Q es = concat (map (\<lambda>e. case event_json (unjson_fs_delta Q) e of Inl _ \<Rightarrow> [] | Inr d \<Rightarrow> [d]) es)"

definition timed :: "(nat \<Rightarrow> i64) \<Rightarrow> nat \<Rightarrow> fs_delta list \<Rightarrow> timed_delta list" where
  "timed clk n ds = zip (map clk [n ..< n + length ds]) ds"

lemma timed_simps [simp]:
  "timed clk n [] = []" "timed clk n (d # ds) = (clk n, d) # timed clk (Suc n) ds"
  by (simp_all add: timed_def upt_conv_Cons del: upt_Suc)

lemma snd_timed [simp]: "map snd (timed clk n ds) = ds"
  by (simp add: timed_def)

lemma timed_all: "list_all (\<lambda>(now, d). P d) (timed clk n ds) \<longleftrightarrow> (\<forall>d \<in> set ds. P d)"
  by (induction ds arbitrary: n) simp_all

lemma deltas_of_append [simp]: "deltas_of Q (es @ fs) = deltas_of Q es @ deltas_of Q fs"
  by (simp add: deltas_of_def)

lemma replay_fold:
  "foldl (replay_event Q clk) (n, i) es = (n + length (deltas_of Q es), replay i (timed clk n (deltas_of Q es)))"
  by (induction es arbitrary: n i) (auto simp: replay_event_def deltas_of_def split: sum.split)

lemma gather_fold:
  "foldl (gather_event Q clk) (n, di) es =
     (n + length (deltas_of Q es), foldl (\<lambda>di (now, d). di_apply now di d) di (timed clk n (deltas_of Q es)))"
  by (induction es arbitrary: n di) (auto simp: gather_event_def deltas_of_def split: sum.split)

lemma fold_zero: "foldl (fs_apply now) i ds = replay i (map (\<lambda>d. (now, d)) ds)"
  by (induction ds arbitrary: i) simp_all

lemma deltas_of_decoded: "map (event_json (unjson_fs_delta Q)) es = map Inr ds \<Longrightarrow> deltas_of Q es = ds"
proof (induction es arbitrary: ds)
  case (Cons e es)
  then show ?case by (cases ds) (auto simp: deltas_of_def)
qed (simp add: deltas_of_def)

section \<open>The handle and its stream\<close>

text \<open>The base image and the events a mount folds over it.\<close>

definition vol_state ::
  "('s, 't) slatedb_ops \<Rightarrow> codec \<Rightarrow> ('s \<Rightarrow> kv_map) \<Rightarrow> fs_codec \<Rightarrow> 'b bucket_ops \<Rightarrow> 's \<Rightarrow> 'b \<Rightarrow> string \<Rightarrow> fs_image \<Rightarrow> version \<Rightarrow> envelope list \<Rightarrow> bool" where
  "vol_state B C content Q K s b vol base start es \<longleftrightarrow>
     (\<exists>snap. latest_snapshot B C s vol = Inr snap \<and> volume_base Q K b snap = Inr (base, start)) \<and>
     start \<le> next_version C (content s) vol \<and> lineage C (content s) vol start None es"

text \<open>The stream replays, from the latest checkpoint, to the tree of the image.\<close>

definition vol_holds ::
  "('s, 't) slatedb_ops \<Rightarrow> codec \<Rightarrow> ('s \<Rightarrow> kv_map) \<Rightarrow> fs_codec \<Rightarrow> 'b bucket_ops \<Rightarrow> 's \<Rightarrow> 'b \<Rightarrow> string \<Rightarrow> fs_image \<Rightarrow> bool" where
  "vol_holds B C content Q K s b vol img \<longleftrightarrow>
     log_ok C (content s) vol \<and> fs_ok img \<and>
     (\<exists>base start es. vol_state B C content Q K s b vol base start es \<and> fs_ok base \<and>
        (\<forall>d \<in> set (deltas_of Q (map event_from_parts es)). delta_allowed d) \<and>
        tree (foldl (fs_apply 0) base (deltas_of Q (map event_from_parts es))) = tree img)"

lemma vol_holdsI:
  assumes "log_ok C (content s) vol" "fs_ok img" "vol_state B C content Q K s b vol base start es" "fs_ok base"
    "deltas_of Q (map event_from_parts es) = ds" "\<forall>d \<in> set ds. delta_allowed d" "tree (foldl (fs_apply 0) base ds) = tree img"
  shows "vol_holds B C content Q K s b vol img"
  unfolding vol_holds_def using assms by blast

definition vol_inv ::
  "('s, 't) slatedb_ops \<Rightarrow> codec \<Rightarrow> ('s \<Rightarrow> kv_map) \<Rightarrow> fs_codec \<Rightarrow> 'b bucket_ops \<Rightarrow> 's \<Rightarrow> 'b \<Rightarrow> volume \<Rightarrow> bool" where
  "vol_inv B C content Q K s b v \<longleftrightarrow>
     vol_holds B C content Q K s b (v_vol v) (v_image v) \<and> v_tail v = current_version C (content s) (v_vol v) \<and> v_pending v = []"

context event_store begin

lemma load_eq:
  assumes "log_ok C (content s) vol" "vol_state B C content Q K s b vol base0 start es" "next_version C (content s) vol < VMAX"
  shows "volume_load B C Q K clk s b vol =
     Some (Inr (replay base0 (timed clk 0 (deltas_of Q (map event_from_parts es))), last_event_version (map event_from_parts es)))"
proof -
  obtain snap where snap: "latest_snapshot B C s vol = Inr snap" "volume_base Q K b snap = Inr (base0, start)"
    and lin: "start \<le> next_version C (content s) vol" "lineage C (content s) vol start None es"
    using assms(2) by (auto simp: vol_state_def)
  note log = log_okD [OF assms(1)]
  have "start < VMAX" using lin(1) assms(3) by simp
  note f = store_fold_lineage [OF log(2,1,3) this lin(2), where a = "(0 :: nat, base0)" and f = "replay_event Q clk"]
  show ?thesis by (simp add: volume_load_def snap f replay_fold)
qed

text \<open>A handle in step with its stream: every mount gives its tree.\<close>

lemma holds_load:
  assumes "vol_holds B C content Q K s b vol img" "next_version C (content s) vol < VMAX"
  shows "\<exists>img' tail. volume_load B C Q K clk s b vol = Some (Inr (img', tail)) \<and> tree img' = tree img \<and> fs_ok img'"
proof -
  obtain base0 start es where h: "vol_state B C content Q K s b vol base0 start es" "fs_ok base0"
    "\<forall>d \<in> set (deltas_of Q (map event_from_parts es)). delta_allowed d"
    "tree (foldl (fs_apply 0) base0 (deltas_of Q (map event_from_parts es))) = tree img"
    and log: "log_ok C (content s) vol" using assms(1) by (auto simp: vol_holds_def)
  let ?ds = "deltas_of Q (map event_from_parts es)"
  have "tree (replay base0 (timed clk 0 ?ds)) = tree (replay base0 (map (\<lambda>d. (0, d)) ?ds)) \<and> fs_ok (replay base0 (timed clk 0 ?ds))"
    by (rule tree_replay_cong) (simp_all add: h(2,3) comp_def)
  with load_eq [OF log h(1) assms(2)] h(4) show ?thesis by (simp add: fold_zero)
qed

end

section \<open>Commit\<close>

abbreviation mutations :: "volume \<Rightarrow> timed_delta list \<Rightarrow> volume" where
  "mutations v tds \<equiv> foldl (\<lambda>v (now, d). mutate now v d) v tds"

lemma mutations_eq:
  "mutations v tds = v\<lparr>v_image := replay (v_image v) tds, v_pending := v_pending v @ map snd tds\<rparr>"
proof (induction tds arbitrary: v)
  case (Cons x tds)
  then show ?case by (cases x) (simp add: mutate_def)
qed simp

text \<open>A commit that returns: nothing to do, or one append of the upgraded batch.\<close>

lemma volume_commit_cases:
  assumes "volume_commit B C Q sha K E s b v = (Inr u, v', s', b')"
  obtains (idle) "v_pending v = []" "v' = v" "s' = s" "b' = b"
  | (appended) uploads upgraded events ticket where "v_pending v \<noteq> []"
      "upgrade sha K b (v_image v) {} (v_pending v) = (uploads, upgraded)" "upload_blocks K b uploads = (Inr (), b')"
      "map_res (new_event_json (json_fs_delta Q) ''delta'') upgraded = Inr events"
      "commit_appends B C (ve_append E) s (v_vol v) (tail_expected (v_tail v)) None (Some (v_token v)) events True = (Inr ticket, s')"
      "v' = v\<lparr>v_image := foldl (fs_apply (ve_now E)) (v_image v) (filter is_blocks_write upgraded),
              v_tail := Some (last_version (tk_info ticket)), v_pending := []\<rparr>"
proof (cases "v_pending v = []")
  case True
  with assms show ?thesis by (intro idle) (simp_all add: volume_commit_def)
next
  case False
  obtain uploads upgraded where up: "upgrade sha K b (v_image v) {} (v_pending v) = (uploads, upgraded)"
    by (cases "upgrade sha K b (v_image v) {} (v_pending v)")
  obtain r1 b1 where r1: "upload_blocks K b uploads = (r1, b1)" by (cases "upload_blocks K b uploads")
  have u: "r1 = Inr ()" using assms False by (cases r1) (simp_all add: volume_commit_def up r1)
  obtain events where ev: "map_res (new_event_json (json_fs_delta Q) ''delta'') upgraded = Inr events"
    using assms False
    by (cases "map_res (new_event_json (json_fs_delta Q) ''delta'') upgraded") (simp_all add: volume_commit_def up r1 u Let_def)
  obtain r s1 where c: "commit_appends B C (ve_append E) s (v_vol v) (tail_expected (v_tail v)) None (Some (v_token v)) events True = (r, s1)"
    by (cases "commit_appends B C (ve_append E) s (v_vol v) (tail_expected (v_tail v)) None (Some (v_token v)) events True")
  obtain ticket where t: "r = Inr ticket"
    using assms False by (cases r) (simp_all add: volume_commit_def up r1 u ev Let_def append_with_token_def c)
  from assms False have "s' = s1 \<and> b' = b1 \<and> v' = v\<lparr>v_image := foldl (fs_apply (ve_now E)) (v_image v) (filter is_blocks_write upgraded),
              v_tail := Some (last_version (tk_info ticket)), v_pending := []\<rparr>"
    by (simp add: volume_commit_def up r1 u ev Let_def append_with_token_def c t)
  with appended [OF False up _ ev] r1 u c t show ?thesis by simp
qed

text \<open>What the stream and the bucket of a segment manifest are after objects were added elsewhere.\<close>

lemma volume_base_cong:
  assumes "bucket K objects" "\<And>q. objects b q \<noteq> None \<Longrightarrow> objects b' q = objects b q" "volume_base Q K b snap = Inr x"
  shows "volume_base Q K b' snap = Inr x"
proof (cases snap)
  case (Some r)
  obtain m where m: "unjson_fs_manifest Q (snap_state r) = Inr m"
    using assms(3) Some by (auto simp: volume_base_def load_segments_def bind_res_eq_Inr)
  have "fold_res (\<lambda>img path. bind_res (map_err bucket_io (bk_get K b (bk_path K path)))
         (\<lambda>bytes. bind_res (map_err Encoding (unjson_segment Q bytes)) (\<lambda>seg. Inr (merge_segment img seg)))) i ps = Inr y \<Longrightarrow>
      fold_res (\<lambda>img path. bind_res (map_err bucket_io (bk_get K b' (bk_path K path)))
         (\<lambda>bytes. bind_res (map_err Encoding (unjson_segment Q bytes)) (\<lambda>seg. Inr (merge_segment img seg)))) i ps = Inr y" for i ps y
  proof (induction ps arbitrary: i)
    case (Cons p ps)
    then obtain d where d: "bk_get K b (bk_path K p) = Inr d" by (auto simp: bind_res_eq_Inr)
    then have "objects b (bk_path K p) = Some d" by (simp add: bucket.get_eq [OF assms(1)])
    with assms(2) have "bk_get K b' (bk_path K p) = Inr d" by (simp add: bucket.get_eq [OF assms(1)])
    with d Cons show ?case by (auto simp: bind_res_eq_Inr)
  qed simp
  with assms(3) show ?thesis by (auto simp: volume_base_def load_segments_def Some m bind_res_eq_Inr)
qed (use assms(3) in \<open>simp add: volume_base_def\<close>)

lemma upgrade_uploads: "\<exists>cs. fst (upgrade sha K b img chunked ds) = map (\<lambda>c. (sha c, c)) cs"
proof (induction ds arbitrary: chunked)
  case (Cons d ds)
  show ?case
  proof (cases "is_write d")
    case True
    then obtain path offset data where d: "d = Write path offset data" by (cases d) auto
    obtain cs where cs: "fst (upgrade sha K b img (insert path chunked) ds) = map (\<lambda>c. (sha c, c)) cs" using Cons by blast
    obtain cs' where cs': "fst (upgrade sha K b img chunked ds) = map (\<lambda>c. (sha c, c)) cs'" using Cons by blast
    show ?thesis
    proof (cases "path \<in> chunked \<or> chunked_at img path = None")
      case True
      with cs' show ?thesis by (auto simp: d upgrade_write simp del: upgrade.simps)
    next
      case False
      then obtain c where c: "chunked_at img path = Some c" by auto
      obtain ms where "missing_blocks sha K b c = map (\<lambda>c. (sha c, c)) ms" by (auto simp: missing_blocks_def)
      with False c cs have "fst (upgrade sha K b img chunked (d # ds)) = map (\<lambda>c. (sha c, c)) (ms @ cs)"
        by (simp add: d upgrade_write del: upgrade.simps)
      then show ?thesis by blast
    qed
  next
    case False
    with Cons show ?thesis by (simp add: upgrade_other del: upgrade.simps)
  qed
qed simp

lemma upgrade_nonempty:
  assumes "ds \<noteq> []" shows "snd (upgrade sha K b img {} ds) \<noteq> []"
proof (cases ds)
  case (Cons d ds')
  show ?thesis
  proof (cases "is_write d")
    case True
    then show ?thesis using Cons by (cases d) (auto simp: upgrade_write simp del: upgrade.simps split: option.split)
  next
    case False
    then show ?thesis by (simp add: Cons upgrade_other del: upgrade.simps)
  qed
qed (use assms in simp)

lemma fs_ok_fold: "fs_ok i \<Longrightarrow> \<forall>d \<in> set ds. delta_allowed d \<Longrightarrow> fs_ok (foldl (fs_apply now) i ds)"
  by (induction ds arbitrary: i) simp_all

lemma tree_fold_cong:
  assumes "tree i = tree j" "fs_ok i" "fs_ok j" "\<forall>d \<in> set ds. delta_allowed d"
  shows "tree (foldl (fs_apply n) i ds) = tree (foldl (fs_apply n') j ds)"
  unfolding fold_zero using tree_replay_cong [OF assms(1-3)] assms(4) by (simp add: comp_def)

text \<open>The handle's image after a commit is the tree of its old image with the upgraded batch replayed.\<close>

lemma committed_tree:
  assumes "fs_ok i" "commit_safe False i (map snd tds)" "upgraded = snd (upgrade sha K b (replay i tds) {} (map snd tds))"
  shows "tree (foldl (fs_apply now) (replay i tds) (filter is_blocks_write upgraded)) = tree (foldl (fs_apply 0) i upgraded)"
    "fs_ok (foldl (fs_apply now) (replay i tds) (filter is_blocks_write upgraded))" "\<forall>d \<in> set upgraded. delta_allowed d"
proof -
  have al: "\<forall>d \<in> set (map snd tds). delta_allowed d" using commit_safe_allowed [OF assms(2)] by blast
  show up: "\<forall>d \<in> set upgraded. delta_allowed d" unfolding assms(3) by (intro ballI) (rule upgrade_allowed [OF assms(2)])
  have "tree (replay i tds) = tree (replay i (map (\<lambda>d. (0, d)) (map snd tds))) \<and> fs_ok (replay i tds)"
    by (rule tree_replay_cong) (use assms(1) al in \<open>simp_all add: comp_def\<close>)
  then have img: "tree (replay i tds) = tree (foldl (fs_apply 0) i (map snd tds))" "fs_ok (replay i tds)" by (simp_all add: fold_zero)
  show "tree (foldl (fs_apply now) (replay i tds) (filter is_blocks_write upgraded)) = tree (foldl (fs_apply 0) i upgraded)"
    unfolding assms(3) by (rule upgrade_tree [OF assms(2) img(1), symmetric])
  show "fs_ok (foldl (fs_apply now) (replay i tds) (filter is_blocks_write upgraded))"
    using img(2) up by (intro fs_ok_fold) auto
qed

text \<open>The stream and its state after the append of a commit, when no object is lost meanwhile.\<close>

lemma append_extends:
  assumes store: "event_store B content writes base C" and serde: "fs_serde Q" and bk: "bucket K objects"
    and h: "vol_state B C content Q K s b p base0 start es" and log: "log_ok C (content s) p" and room: "log_room C (content s) p"
    and env: "ulids_ok (Es 0)" "others (Es 0) s = s" and json: "map_res (new_event_json (json_fs_delta Q) ''delta'') upgraded = Inr events"
    and c: "commit_appends B C Es s p expected None token events True = (Inr ticket, s')"
    and keep: "\<And>q. objects b q \<noteq> None \<Longrightarrow> objects b' q = objects b q"
  shows "\<exists>bs. vol_state B C content Q K s' b' p base0 start (es @ bs) \<and>
      deltas_of Q (map event_from_parts (es @ bs)) = deltas_of Q (map event_from_parts es) @ upgraded"
    and "log_ok C (content s') p" "latest_snapshot B C s' p = latest_snapshot B C s p"
    and "current_version C (content s') p = Some (last_version (tk_info ticket))"
    and "next_version C (content s') p < VMAX" "global_seq (content s') + 1 < VMAX"
proof -
  have ev: "events = map (\<lambda>d. new_event_new ''delta'' (fs_serde.json_of Q d)) upgraded"
    using json by (simp add: fs_serde.delta_events_json [OF serde])
  note room' = log_room_append [OF room commit_appends_batch [OF c]]
  note a = event_store.append_log [OF store log env(1) room' env(2) c]
  note sc = event_store.axioms(2) [OF store]
  let ?bs = "batch_of C (Es 0) (content s) p None events"
  have "map (event_json (unjson_fs_delta Q)) (map event_from_parts ?bs) = map Inr upgraded"
    by (rule fs_serde.decode_batch [OF serde]) (simp only: batch_payload ev)
  then have new: "deltas_of Q (map event_from_parts (es @ ?bs)) = deltas_of Q (map event_from_parts es) @ upgraded" by (simp add: deltas_of_decoded)
  have lo: "start \<le> next_version C (content s) p" and lin: "lineage C (content s) p start None es"
    using h by (simp_all add: vol_state_def)
  have nv: "next_version C (content s') p = next_version C (content s) p + length events"
    unfolding a(1) by (rule serde_codec.append_map_next [OF sc log_okD(3) [OF log] a(2)])
  show lat: "latest_snapshot B C s' p = latest_snapshot B C s p"
    by (rule event_store.latest_after_append [OF store log env(1) room' env(2) c])
  have "lineage C (content s') p start None (es @ ?bs)"
    unfolding a(1) by (rule serde_codec.lineage_append_own [OF sc log env(1) room' a(2) lin lo])
  then have "vol_state B C content Q K s' b' p base0 start (es @ ?bs)"
    using h lo nv volume_base_cong [OF bk keep] by (auto simp: vol_state_def lat)
  with new show "\<exists>bs. vol_state B C content Q K s' b' p base0 start (es @ bs) \<and>
      deltas_of Q (map event_from_parts (es @ bs)) = deltas_of Q (map event_from_parts es) @ upgraded" by blast
  show "log_ok C (content s') p" unfolding a(1) by (rule serde_codec.log_ok_append [OF sc log env(1) room' a(2)])
  show "current_version C (content s') p = Some (last_version (tk_info ticket))"
    unfolding a(1,4) by (rule serde_codec.append_map_version [OF sc log_okD(3) [OF log] a(2)])
  have "length events \<le> MAX_BATCH_RECORDS" using commit_appends_batch [OF c] by (auto simp: check_batch_def split: if_splits)
  moreover have "global_seq (content s') = global_seq (content s) + length events"
    unfolding a(1) by (rule append_map_seq [OF room'])
  ultimately show "next_version C (content s') p < VMAX" "global_seq (content s') + 1 < VMAX"
    using room nv by (simp_all add: log_room_def)
qed

text \<open>A commit keeps the handle and its stream in step.\<close>

lemma commit_keeps:
  assumes store: "event_store B content writes base C" and serde: "fs_serde Q" and bk: "bucket K objects"
    and inv: "vol_inv B C content Q K s b v" and room: "log_room C (content s) (v_vol v)"
    and env: "ulids_ok (ve_append E 0)" "others (ve_append E 0) s = s"
    and sha: "distinct_digests sha K" "blocks_addressed sha K objects b"
    and safe: "commit_safe False (v_image v) (map snd tds)"
    and ok: "volume_commit B C Q sha K E s b (mutations v tds) = (Inr u, v', s', b')"
  shows "vol_inv B C content Q K s' b' v'" "v_vol v' = v_vol v" "next_version C (content s') (v_vol v) < VMAX"
    "global_seq (content s') + 1 < VMAX" "blocks_addressed sha K objects b'" "v_token v' = v_token v"
    "latest_snapshot B C s' (v_vol v) = latest_snapshot B C s (v_vol v)"
    "\<And>q. objects b q \<noteq> None \<Longrightarrow> objects b' q = objects b q"
    "\<And>q. (\<forall>c. q \<noteq> block_path K (sha c)) \<Longrightarrow> objects b' q = objects b q"
proof -
  let ?p = "v_vol v" and ?ds = "map snd tds"
  have v: "v_pending v = []" "v_tail v = current_version C (content s) ?p" "vol_holds B C content Q K s b ?p (v_image v)"
    using inv by (simp_all add: vol_inv_def)
  obtain base0 start es where h: "vol_state B C content Q K s b ?p base0 start es" "fs_ok base0"
    "\<forall>d \<in> set (deltas_of Q (map event_from_parts es)). delta_allowed d"
    "tree (foldl (fs_apply 0) base0 (deltas_of Q (map event_from_parts es))) = tree (v_image v)"
    and log: "log_ok C (content s) ?p" "fs_ok (v_image v)" using v(3) by (auto simp: vol_holds_def)
  let ?old = "deltas_of Q (map event_from_parts es)"
  have "vol_inv B C content Q K s' b' v' \<and> v_vol v' = v_vol v \<and> next_version C (content s') ?p < VMAX \<and>
    global_seq (content s') + 1 < VMAX \<and> blocks_addressed sha K objects b' \<and> v_token v' = v_token v \<and>
    latest_snapshot B C s' ?p = latest_snapshot B C s ?p \<and> (\<forall>q. objects b q \<noteq> None \<longrightarrow> objects b' q = objects b q) \<and>
    (\<forall>q. (\<forall>c. q \<noteq> block_path K (sha c)) \<longrightarrow> objects b' q = objects b q)"
    using ok
  proof (cases rule: volume_commit_cases)
    case idle
    then have "tds = []" by (simp add: mutations_eq)
    with idle inv room sha(2) show ?thesis by (simp add: log_room_def)
  next
    case (appended uploads upgraded events ticket)
    let ?img = "replay (v_image v) tds"
    have up: "upgrade sha K b ?img {} ?ds = (uploads, upgraded)" and ds: "?ds \<noteq> []"
      and c: "commit_appends B C (ve_append E) s ?p (tail_expected (v_tail v)) None (Some (v_token v)) events True = (Inr ticket, s')"
      and v': "v' = v\<lparr>v_image := foldl (fs_apply (ve_now E)) ?img (filter is_blocks_write upgraded),
        v_tail := Some (last_version (tk_info ticket)), v_pending := []\<rparr>"
      using appended(1,2,5,6) by (simp_all add: mutations_eq v(1))
    have upg: "upgraded = snd (upgrade sha K b ?img {} ?ds)" using up by simp
    note ct = committed_tree [OF log(2) safe upg]
    obtain cs where cs: "uploads = map (\<lambda>c. (sha c, c)) cs" using upgrade_uploads [of sha K b ?img "{}" ?ds] up by auto
    note ups = bucket.upload_stores [OF bk appended(3) [unfolded cs] sha]
    have keep: "objects b q \<noteq> None \<Longrightarrow> objects b' q = objects b q" for q using ups by blast
    note ax = append_extends [OF store serde bk h(1) log(1) room env appended(4) c keep]
    obtain bs where st: "vol_state B C content Q K s' b' ?p base0 start (es @ bs)" "deltas_of Q (map event_from_parts (es @ bs)) = ?old @ upgraded"
      using ax(1) by blast
    have "fs_ok (foldl (fs_apply 0) base0 ?old)" by (rule fs_ok_fold [OF h(2,3)])
    from tree_fold_cong [OF h(4) this log(2) ct(3)]
    have "tree (foldl (fs_apply 0) base0 (?old @ upgraded)) = tree (v_image v')" by (simp add: v' ct(1))
    moreover have "\<forall>d \<in> set (?old @ upgraded). delta_allowed d" using h(3) ct(3) by auto
    moreover have "fs_ok (v_image v')" using ct(2) by (simp add: v')
    ultimately have "vol_holds B C content Q K s' b' ?p (v_image v')" using st h(2) ax(2) by (intro vol_holdsI)
    with ax(4) have "vol_inv B C content Q K s' b' v'" by (simp add: vol_inv_def v')
    then show ?thesis using ups ax(3,5,6) keep by (simp add: v')
  qed
  then show "vol_inv B C content Q K s' b' v'" "v_vol v' = v_vol v" "next_version C (content s') ?p < VMAX"
    "global_seq (content s') + 1 < VMAX" "blocks_addressed sha K objects b'" "v_token v' = v_token v"
    "latest_snapshot B C s' ?p = latest_snapshot B C s ?p"
    "\<And>q. objects b q \<noteq> None \<Longrightarrow> objects b' q = objects b q"
    "\<And>q. (\<forall>c. q \<noteq> block_path K (sha c)) \<Longrightarrow> objects b' q = objects b q" by blast+
qed

section \<open>Checkpoint\<close>

lemma volume_checkpoint_cases:
  assumes "volume_checkpoint B C Q sha K E s b v = Some (Inr rec, v', s', b')"
  obtains u b1 s1 through seg w state x where "volume_commit B C Q sha K E s b v = (Inr u, v', s1, b1)" "v_tail v' = Some through"
    "seal_segment B C Q K E s1 b1 (v_vol v') = Some (Inr seg)"
    "put_segment Q K b1 (bk_path K (''segments/'' @ v_vol v' @ ''/'' @ ve_ulid E)) seg = (Inr w, b')"
    "extend_manifest B C Q s1 (v_vol v') (bk_path K (''segments/'' @ v_vol v' @ ''/'' @ ve_ulid E)) = Inr state"
    "publish_snapshot B C (ve_publish E) s1 (v_vol v') rec state = (Inr x, s')" "rec = volume_record (v_vol v') through (ve_now E)"
proof -
  obtain r v1 s1 b1 where c: "volume_commit B C Q sha K E s b v = (r, v1, s1, b1)" by (cases "volume_commit B C Q sha K E s b v")
  obtain u where u: "r = Inr u" using assms by (cases r) (simp_all add: volume_checkpoint_def c)
  obtain through where t: "v_tail v1 = Some through" using assms by (cases "v_tail v1") (simp_all add: volume_checkpoint_def c u)
  obtain g where g: "seal_segment B C Q K E s1 b1 (v_vol v1) = Some g"
    using assms by (cases "seal_segment B C Q K E s1 b1 (v_vol v1)") (simp_all add: volume_checkpoint_def c u t)
  obtain seg where seg: "g = Inr seg" using assms by (cases g) (simp_all add: volume_checkpoint_def c u t g)
  let ?path = "bk_path K (''segments/'' @ v_vol v1 @ ''/'' @ ve_ulid E)"
  obtain r2 b2 where p: "put_segment Q K b1 ?path seg = (r2, b2)" by (cases "put_segment Q K b1 ?path seg")
  obtain w where w: "r2 = Inr w" using assms p by (cases r2) (simp_all add: volume_checkpoint_def c u t g seg Let_def)
  obtain state where st: "extend_manifest B C Q s1 (v_vol v1) ?path = Inr state"
    using assms p by (cases "extend_manifest B C Q s1 (v_vol v1) ?path") (simp_all add: volume_checkpoint_def c u t g seg w Let_def)
  let ?rec = "volume_record (v_vol v1) through (ve_now E)"
  obtain r3 s2 where pub: "publish_snapshot B C (ve_publish E) s1 (v_vol v1) ?rec state = (r3, s2)"
    by (cases "publish_snapshot B C (ve_publish E) s1 (v_vol v1) ?rec state")
  obtain x where x: "r3 = Inr x" using assms p st pub by (cases r3) (simp_all add: volume_checkpoint_def c u t g seg w Let_def)
  from assms p st pub have "v1 = v' \<and> s2 = s' \<and> b2 = b' \<and> ?rec = rec"
    by (auto simp: volume_checkpoint_def c u t g seg w x Let_def)
  then have e: "v1 = v'" "s2 = s'" "b2 = b'" "?rec = rec" by blast+
  show ?thesis
    by (rule that [OF c [unfolded u e(1)] t [unfolded e(1)] g [unfolded seg e(1)] p [unfolded w e(1,3)] st [unfolded e(1)]
        pub [unfolded x e(4,2), unfolded e(1)] e(4) [symmetric, unfolded e(1)]])
qed

lemma put_segment_stores:
  assumes "bucket K objects" "fs_serde Q" "put_segment Q K b path seg = (Inr w, b')"
  shows "\<exists>d. bk_get K b' path = Inr d \<and> unjson_segment Q d = Inr seg" "q \<noteq> path \<Longrightarrow> objects b' q = objects b q"
proof -
  obtain d where d: "json_segment Q seg = Inr d" "unjson_segment Q d = Inr seg" using fs_serde.segment_json [OF assms(2)] by blast
  have put: "bk_put K b path d = (Inr (), b')" using assms(3) d(1) by (cases "bk_put K b path d") (auto simp: put_segment_def)
  with d(2) bucket.get_after_put [OF assms(1)] show "\<exists>d. bk_get K b' path = Inr d \<and> unjson_segment Q d = Inr seg" by blast
  show "q \<noteq> path \<Longrightarrow> objects b' q = objects b q" using bucket.put_other [OF assms(1) put] by blast
qed

text \<open>The segments of the extended manifest: those of the old one, then the new segment.\<close>

lemma load_extended:
  assumes bk: "bucket K objects" and serde: "fs_serde Q" and ext: "extend_manifest B C Q s vol path = Inr state"
    and snap: "latest_snapshot B C s vol = Inr snap" "volume_base Q K b snap = Inr (base0, start)"
    and put: "put_segment Q K b path seg = (Inr w, b')" and fresh: "objects b path = None" "bk_path K path = path"
  shows "load_segments Q K b' state = Inr (merge_segment base0 seg)"
proof -
  let ?step = "\<lambda>b img path. bind_res (map_err bucket_io (bk_get K b (bk_path K path)))
         (\<lambda>bytes. bind_res (map_err Encoding (unjson_segment Q bytes)) (\<lambda>seg. Inr (merge_segment img seg)))"
  note stores = put_segment_stores [OF bk serde put]
  have keep: "objects b' q = objects b q" if "objects b q \<noteq> None" for q using that stores(2) fresh(1) by (cases "q = path") auto
  obtain m where m: "(case snap of None \<Rightarrow> Inr fs_manifest_default | Some r \<Rightarrow> map_err Encoding (unjson_fs_manifest Q (snap_state r))) = Inr m"
    "json_fs_manifest Q (m\<lparr>fm_segments := fm_segments m @ [path]\<rparr>) = Inr state"
    using ext by (auto simp: extend_manifest_def snap(1) bind_res_eq_Inr)
  obtain d where d: "json_fs_manifest Q (m\<lparr>fm_segments := fm_segments m @ [path]\<rparr>) = Inr d"
      "unjson_fs_manifest Q d = Inr (m\<lparr>fm_segments := fm_segments m @ [path]\<rparr>)" using fs_serde.manifest_json [OF serde] by blast
  then have man: "unjson_fs_manifest Q state = Inr (m\<lparr>fm_segments := fm_segments m @ [path]\<rparr>)" using m(2) by simp
  have "volume_base Q K b' snap = Inr (base0, start)" by (rule volume_base_cong [OF bk keep snap(2)])
  then have "fold_res (?step b') fs_image_default (fm_segments m) = Inr base0"
    using m(1) by (cases snap) (auto simp: volume_base_def load_segments_def fs_manifest_default_def bind_res_eq_Inr)
  then show ?thesis
    using stores(1) by (auto simp: load_segments_def man fold_res_append fresh(2))
qed

lemma checkpoint_keeps:
  assumes store: "event_store B content writes base C" and serde: "fs_serde Q" and bk: "bucket K objects"
    and inv: "vol_inv B C content Q K s b v" and room: "log_room C (content s) (v_vol v)"
    and env: "ulids_ok (ve_append E 0)" "others (ve_append E 0) s = s" "\<And>x. others (ve_publish E) x = x"
    and sha: "distinct_digests sha K" "blocks_addressed sha K objects b"
    and safe: "commit_safe False (v_image v) (map snd tds)"
    and path: "\<And>b1. bk_path K (''segments/'' @ v_vol v @ ''/'' @ ve_ulid E) \<noteq> block_path K (sha b1)"
      "objects b (bk_path K (''segments/'' @ v_vol v @ ''/'' @ ve_ulid E)) = None"
      "bk_path K (bk_path K (''segments/'' @ v_vol v @ ''/'' @ ve_ulid E)) = bk_path K (''segments/'' @ v_vol v @ ''/'' @ ve_ulid E)"
    and ok: "volume_checkpoint B C Q sha K E s b (mutations v tds) = Some (Inr rec, v', s', b')"
  shows "vol_inv B C content Q K s' b' v'" "v_vol v' = v_vol v" "next_version C (content s') (v_vol v) < VMAX"
    "v_tail v' = Some (comp_through_version rec)"
    "\<exists>img. vol_state B C content Q K s' b' (v_vol v) img (next_version C (content s') (v_vol v)) [] \<and> tree img = tree (v_image v') \<and> fs_ok img"
proof -
  let ?p = "v_vol v" and ?path = "bk_path K (''segments/'' @ v_vol v @ ''/'' @ ve_ulid E)"
  from ok obtain u b1 s1 through seg w state x where cm: "volume_commit B C Q sha K E s b (mutations v tds) = (Inr u, v', s1, b1)" "v_tail v' = Some through"
    and rest: "seal_segment B C Q K E s1 b1 (v_vol v') = Some (Inr seg)"
    "put_segment Q K b1 (bk_path K (''segments/'' @ v_vol v' @ ''/'' @ ve_ulid E)) seg = (Inr w, b')"
    "extend_manifest B C Q s1 (v_vol v') (bk_path K (''segments/'' @ v_vol v' @ ''/'' @ ve_ulid E)) = Inr state"
    "publish_snapshot B C (ve_publish E) s1 (v_vol v') rec state = (Inr x, s')" "rec = volume_record (v_vol v') through (ve_now E)"
    by (rule volume_checkpoint_cases)
  note c = commit_keeps [OF store serde bk inv room env(1,2) sha safe cm(1)]
  note rest = rest [unfolded c(2)]
  have holds: "vol_holds B C content Q K s1 b1 ?p (v_image v')" and tail: "v_tail v' = current_version C (content s1) ?p"
    using c(1) by (simp_all add: vol_inv_def c(2))
  obtain base0 start es where h: "vol_state B C content Q K s1 b1 ?p base0 start es" "fs_ok base0"
    "\<forall>d \<in> set (deltas_of Q (map event_from_parts es)). delta_allowed d"
    "tree (foldl (fs_apply 0) base0 (deltas_of Q (map event_from_parts es))) = tree (v_image v')"
    and log: "log_ok C (content s1) ?p" "fs_ok (v_image v')" using holds by (auto simp: vol_holds_def)
  let ?ds = "deltas_of Q (map event_from_parts es)"
  obtain snap where snap: "latest_snapshot B C s1 ?p = Inr snap" "volume_base Q K b1 snap = Inr (base0, start)"
    and lin: "start \<le> next_version C (content s1) ?p" "lineage C (content s1) ?p start None es"
    using h(1) by (auto simp: vol_state_def)
  have "start < VMAX" using lin(1) c(3) by simp
  note f = event_store.store_fold_lineage [OF store log_okD(2,1,3) [OF log(1)] this lin(2),
      where a = "(0 :: nat, \<lparr>di_entries = [], di_live = base0\<rparr>)" and f = "gather_event Q (ve_clock E)"]
  have "seg = \<lparr>sg_entries = di_entries (foldl (\<lambda>di (now, d). di_apply now di d) \<lparr>di_entries = [], di_live = base0\<rparr> (timed (ve_clock E) 0 ?ds))\<rparr>"
    using rest(1) by (simp add: seal_segment_def snap f gather_fold)
  moreover have al: "list_all (\<lambda>(now, d). delta_allowed d) (timed (ve_clock E) 0 ?ds)"
    using h(3) by (simp add: timed_all)
  ultimately have merged: "merge_segment base0 seg = replay base0 (timed (ve_clock E) 0 ?ds)"
    using fs_ckpt.merge_sealed [OF h(2) al] by simp
  have "objects b1 ?path = None" using c(9) path(1,2) by simp
  note load = load_extended [OF bk serde rest(3) snap rest(2) this path(3)]
  note pub = event_store.publish_log [OF store log(1) env(3) c(4) rest(4)]
  have cv: "current_version C (content s1) ?p = Some through" using tail cm(2) by simp
  then have "next_version C (content s1) ?p = through + 1" by (simp add: next_version_def)
  then have nv: "next_version C (content s') ?p = through + 1" "through + 1 < VMAX" using pub(3) c(3) by simp_all
  then have start: "add64 (comp_through_version rec) 1 = next_version C (content s') ?p" by (simp add: rest(5) volume_record_def)
  let ?base = "merge_segment base0 seg"
  have st: "vol_state B C content Q K s' b' ?p ?base (next_version C (content s') ?p) []"
    unfolding vol_state_def pub(1) volume_base_def
    using event_store.lineage_past_tail [OF store pub(2)] by (simp add: load start [unfolded One_nat_def])
  have "tree ?base = tree (foldl (fs_apply 0) base0 ?ds) \<and> fs_ok ?base"
    unfolding merged fold_zero by (rule tree_replay_cong) (use h(2,3) in \<open>simp_all add: comp_def\<close>)
  then have tree: "tree ?base = tree (v_image v')" "fs_ok ?base" using h(4) by simp_all
  have "vol_holds B C content Q K s' b' ?p (v_image v')"
    by (rule vol_holdsI [OF pub(2) log(2) st tree(2), where ds = "[]"]) (simp_all add: deltas_of_def tree(1))
  moreover have "v_tail v' = current_version C (content s') ?p"
    using pub(3) cm(2) by (cases "current_version C (content s') ?p") (simp_all add: next_version_def cv)
  ultimately show "vol_inv B C content Q K s' b' v'" using c(1) by (simp add: vol_inv_def c(2))
  show "v_vol v' = v_vol v" "next_version C (content s') (v_vol v) < VMAX" "v_tail v' = Some (comp_through_version rec)"
    using nv by (simp_all add: c(2) cm(2) rest(5) volume_record_def)
  show "\<exists>img. vol_state B C content Q K s' b' ?p img (next_version C (content s') ?p) [] \<and> tree img = tree (v_image v') \<and> fs_ok img"
    using st tree by blast
qed

section \<open>An example volume\<close>

definition example_volume :: volume where
  "example_volume = \<lparr>v_vol = ''a'', v_token = ''t'', v_image = fs_image_default, v_tail = None, v_pending = [], v_blocks = Map.empty\<rparr>"

definition example_volume_env :: "u64 \<Rightarrow> mem_db volume_env" where
  "example_volume_env h = \<lparr>ve_fence = (mem_env 0)\<lparr>watch := [\<lparr>durable_seq = h, close_reason = None\<rparr>]\<rparr>, ve_append = mem_env,
     ve_publish = (mem_env 0)\<lparr>watch := [\<lparr>durable_seq = h, close_reason = None\<rparr>]\<rparr>, ve_ulid = ''u'', ve_clock = (\<lambda>_. 5), ve_now = 5\<rparr>"

definition example_deltas :: "timed_delta list" where
  "example_deltas = [(5, Mkdir ''/d'')]"

lemma example_volume_simps [simp]:
  "v_vol example_volume = ''a''" "v_image example_volume = fs_image_default" "v_tail example_volume = None"
  "v_pending example_volume = []" "v_token example_volume = ''t''"
  "ve_append (example_volume_env h) = mem_env" "ve_ulid (example_volume_env h) = ''u''" "ve_now (example_volume_env h) = 5"
  "ve_publish (example_volume_env h) = (mem_env 0)\<lparr>watch := [\<lparr>durable_seq = h, close_reason = None\<rparr>]\<rparr>"
  "ve_fence (example_volume_env h) = (mem_env 0)\<lparr>watch := [\<lparr>durable_seq = h, close_reason = None\<rparr>]\<rparr>"
  "ve_clock (example_volume_env h) = (\<lambda>_. 5)"
  by (simp_all add: example_volume_def example_volume_env_def)

lemma example_sha_ok [simp]:
  "distinct_digests example_sha mem_bucket_ops" "blocks_addressed example_sha mem_bucket_ops map_of []"
  by (auto simp: distinct_digests_def blocks_addressed_def inj_def block_path_def mem_bucket_ops_def example_sha_def)

lemma example_safe [simp]: "commit_safe False fs_image_default (map snd example_deltas)"
  by (simp add: example_deltas_def)

lemma example_vol_inv: "vol_inv mem_ops mem_codec mem_content mem_fs mem_bucket_ops mem_empty [] example_volume"
proof -
  have "lineage mem_codec (mem_content mem_empty) ''a'' 0 None []"
    using mem_store.lineage_past_tail [of mem_empty "''a''"] by simp
  then have st: "vol_state mem_ops mem_codec mem_content mem_fs mem_bucket_ops mem_empty [] ''a'' fs_image_default 0 []"
    by (simp add: vol_state_def mem_latest_none volume_base_def)
  have "fs_ok fs_image_default" by (simp add: fs_ok_def fs_image_default_def)
  then have "vol_holds mem_ops mem_codec mem_content mem_fs mem_bucket_ops mem_empty [] ''a'' fs_image_default"
    by (intro vol_holdsI [OF _ _ st, where ds = "[]"]) (simp_all add: deltas_of_def)
  then show ?thesis by (simp add: vol_inv_def)
qed

lemma example_commit:
  obtains v1 s1 where "\<forall>h. volume_commit mem_ops mem_codec mem_fs example_sha mem_bucket_ops (example_volume_env h) mem_empty []
      (mutations example_volume example_deltas) = (Inr (), v1, s1, [])"
    "v_vol v1 = ''a''" "v_tail v1 = Some 0" "global_seq (mem_content s1) = 1"
proof -
  let ?evs = "[new_event_new ''delta'' (net_enc [''mk'', ''/d''])]"
  have batch: "check_batch ?evs = Inr ()"
    by (simp add: check_batch_def MAX_BATCH_RECORDS_def MAX_RECORD_BYTES_def new_event_new_def net_enc_def net_field_def)
  have ref: "refusal mem_codec (mem_content mem_empty) ''a'' NoStream (Some ''t'') ?evs = None" by (simp add: refusal_def)
  note q = mem_store.commit_appends_quiet [where s = mem_empty and stream = "''a''" and Es = mem_env and from_version = None and
      events = ?evs and expected = NoStream and token = "Some ''t''" and idx = True, OF batch]
  have "append_room mem_codec (mem_content mem_empty) ''a'' None ?evs" by (rule log_room_append [OF _ batch]) simp
  then obtain ticket s1 where c: "commit_appends mem_ops mem_codec mem_env mem_empty ''a'' NoStream None (Some ''t'') ?evs True = (Inr ticket, s1)"
      "last_version (tk_info ticket) = 0" "mem_content s1 = append_map mem_codec (mem_env 0) Map.empty ''a'' None True ?evs"
    using q ref by (auto simp: append_start_def)
  have "global_seq (append_map mem_codec (mem_env 0) Map.empty ''a'' None True ?evs) = 1"
    using append_map_seq [OF log_room_append [OF mem_empty_room batch], where C = mem_codec] by simp
  show ?thesis
    by (rule that [of "(mutations example_volume example_deltas)\<lparr>v_tail := Some 0, v_pending := []\<rparr>" s1])
      (use \<open>global_seq _ = 1\<close> in \<open>simp_all add: volume_commit_def mutations_eq example_deltas_def tail_expected_def append_with_token_def c new_event_json_def mem_fs_def Let_def\<close>)
qed

lemma seal_ok:
  assumes "event_store B content writes base C" "vol_holds B C content Q K s b vol img" "next_version C (content s) vol < VMAX"
  shows "\<exists>seg. seal_segment B C Q K E s b vol = Some (Inr seg)"
proof -
  obtain base0 start es snap where h: "latest_snapshot B C s vol = Inr snap" "volume_base Q K b snap = Inr (base0, start)"
    "start \<le> next_version C (content s) vol" "lineage C (content s) vol start None es" "log_ok C (content s) vol"
    using assms(2) by (auto simp: vol_holds_def vol_state_def)
  have "start < VMAX" using h(3) assms(3) by simp
  note f = event_store.store_fold_lineage [OF assms(1) log_okD(2,1,3) [OF h(5)] this h(4),
      where a = "(0 :: nat, \<lparr>di_entries = [], di_live = base0\<rparr>)" and f = "gather_event Q (ve_clock E)"]
  show ?thesis by (simp add: seal_segment_def h(1,2) f gather_fold)
qed

lemma example_volume_checkpoint:
  obtains h rec v' s' b' where "volume_checkpoint mem_ops mem_codec mem_fs example_sha mem_bucket_ops (example_volume_env h) mem_empty []
      (mutations example_volume example_deltas) = Some (Inr rec, v', s', b')"
    "log_room mem_codec (mem_content s') ''a''" "log_ok mem_codec (mem_content s') ''a''"
proof -
  obtain v1 s1 where c: "\<forall>h. volume_commit mem_ops mem_codec mem_fs example_sha mem_bucket_ops (example_volume_env h) mem_empty []
      (mutations example_volume example_deltas) = (Inr (), v1, s1, [])" "v_vol v1 = ''a''" "v_tail v1 = Some 0" "global_seq (mem_content s1) = 1"
    by (rule example_commit)
  let ?t = "0 :: version"
  note k = commit_keeps [OF mem_store.event_store_axioms mem_fsq.fs_serde_axioms mem_bk.bucket_axioms example_vol_inv _ _ _ _ _ _ c(1) [rule_format]]
  have inv: "vol_inv mem_ops mem_codec mem_content mem_fs mem_bucket_ops s1 [] v1" "next_version mem_codec (mem_content s1) ''a'' < VMAX"
    "global_seq (mem_content s1) + 1 < VMAX" "latest_snapshot mem_ops mem_codec s1 ''a'' = Inr None"
    using k(1,3,4,7) by (simp_all add: mem_latest_none)
  let ?E = "\<lambda>h. example_volume_env h"
  have "\<exists>seg. seal_segment mem_ops mem_codec mem_fs mem_bucket_ops (?E h) s1 [] ''a'' = Some (Inr seg)" for h
    by (rule seal_ok [OF mem_store.event_store_axioms]) (use inv c(2) in \<open>auto simp: vol_inv_def\<close>)
  then obtain seg where seg: "seal_segment mem_ops mem_codec mem_fs mem_bucket_ops (?E h) s1 [] ''a'' = Some (Inr (seg h))" for h by metis
  have sq: "global_seq (mem_content s1) + 1 < 2 ^ 64" using inv(3) by simp
  let ?state = "net_enc [''segments/a/u'']"
  obtain k s2 where pub: "\<forall>w. publish_snapshot mem_ops mem_codec ((mem_env 0)\<lparr>watch := w\<rparr>) s1 ''a'' (volume_record ''a'' ?t 5) ?state = (await_seq w k, s2)"
    and s2: "mem_content s2 = publish_map mem_codec (mem_env 0) (mem_content s1) ''a'' (volume_record ''a'' ?t 5) ?state"
    by (rule mem_store.publish_watch [OF mem_env_ok(2) sq])
  have log: "log_ok mem_codec (mem_content s1) ''a''" and "current_version mem_codec (mem_content s1) ''a'' = Some 0"
    using inv(1) c(2,3) by (simp_all add: vol_inv_def vol_holds_def)
  then have nv: "next_version mem_codec (mem_content s1) ''a'' = 1" by (simp add: next_version_def)
  note pl = mem_store.publish_log [OF log mem_env_ok(2) inv(3) pub [rule_format, of "watch (mem_env 0)", simplified]]
  have "log_room mem_codec (mem_content s2) ''a''"
    using nv pl(3) c(4) by (simp add: log_room_def s2 MAX_BATCH_RECORDS_def publish_map_seq)
  have path: "bk_path mem_bucket_ops p = p" for p by (simp add: mem_bucket_ops_def)
  have put: "put_segment mem_fs mem_bucket_ops [] p g = (Inr (), [(p, show_segment g)])" for p g
    by (simp add: put_segment_def mem_fs_def mem_bucket_ops_def)
  have ext: "extend_manifest mem_ops mem_codec mem_fs s1 ''a'' ''segments/a/u'' = Inr ?state"
    by (simp add: extend_manifest_def inv(4) mem_fs_def fs_manifest_default_def)
  have "volume_checkpoint mem_ops mem_codec mem_fs example_sha mem_bucket_ops (?E k) mem_empty [] (mutations example_volume example_deltas) =
      Some (Inr (volume_record ''a'' ?t 5), v1, s2, [(''segments/a/u'', show_segment (seg k))])"
    using pub await_one [of k k] by (simp add: volume_checkpoint_def c seg put ext path Let_def)
  with that \<open>log_room _ _ _\<close> pl(2) show ?thesis by blast
qed

section \<open>Properties\<close>

text \<open>C9: a commit keeps the volume and its stream in step: when a batch of mutations is committed on a handle that
  holds what its stream replays to, every later mount, whenever it runs, reconstructs the tree the handle holds after
  the commit, modification times apart, although large files were replaced by block-backed writes in the batch; the
  batch is \<open>commit_safe\<close>: its extents go to new or inline files, it removes, renames or links no path after its first
  write, and no rename goes onto its source, into the source's subtree or onto a directory above it. Other batches can
  lose a file (\<open>truncate_after_write_lost\<close>).\<close>

theorem volume_commit_then_mount:
  assumes store: "event_store B content writes base C" and serde: "fs_serde Q" and bk: "bucket K objects"
    and inv: "vol_inv B C content Q K s b v" and room: "log_room C (content s) (v_vol v)"
    and env: "ulids_ok (ve_append E 0)" "others (ve_append E 0) s = s"
    and sha: "distinct_digests sha K" "blocks_addressed sha K objects b"
    and safe: "commit_safe False (v_image v) (map snd tds)"
    and ok: "volume_commit B C Q sha K E s b (foldl (\<lambda>v (now, d). mutate now v d) v tds) = (Inr u, v', s', b')"
  shows "vol_inv B C content Q K s' b' v' \<and>
     (\<forall>clk. \<exists>img tail. volume_load B C Q K clk s' b' (v_vol v) = Some (Inr (img, tail)) \<and> tree img = tree (v_image v'))"
proof -
  note c = commit_keeps [OF assms]
  have "vol_holds B C content Q K s' b' (v_vol v) (v_image v')" using c(1) by (simp add: vol_inv_def c(2))
  from event_store.holds_load [OF store this c(3)] c(1) show ?thesis by blast
qed

theorem volume_commit_then_mount_witness:
  "\<exists>h v1 s1 img tail. volume_commit mem_ops mem_codec mem_fs example_sha mem_bucket_ops (example_volume_env h) mem_empty []
       (foldl (\<lambda>v (now, d). mutate now v d) example_volume example_deltas) = (Inr (), v1, s1, []) \<and>
     volume_load mem_ops mem_codec mem_fs mem_bucket_ops (\<lambda>_. 9) s1 [] ''a'' = Some (Inr (img, tail)) \<and> tree img = tree (v_image v1)"
proof -
  obtain v1 s1 where c: "\<forall>h. volume_commit mem_ops mem_codec mem_fs example_sha mem_bucket_ops (example_volume_env h) mem_empty []
      (mutations example_volume example_deltas) = (Inr (), v1, s1, [])" by (rule example_commit)
  from volume_commit_then_mount [OF mem_store.event_store_axioms mem_fsq.fs_serde_axioms mem_bk.bucket_axioms example_vol_inv _ _ _ _ _ _ c [rule_format, of 0]] c
  show ?thesis by simp
qed

text \<open>C10: a checkpoint keeps the volume: when the mutations still pending are \<open>commit_safe\<close> (extents into new or
  inline files, nothing removed, renamed or linked after the first of them), then after a checkpoint that returns, a mount
  reads the tree the handle holds, modification times apart, from the published segments alone, at any later time, and
  the handle is still in step with its stream.\<close>

theorem volume_checkpoint_then_mount:
  assumes store: "event_store B content writes base C" and serde: "fs_serde Q" and bk: "bucket K objects"
    and inv: "vol_inv B C content Q K s b v" and room: "log_room C (content s) (v_vol v)"
    and env: "ulids_ok (ve_append E 0)" "others (ve_append E 0) s = s" "\<And>x. others (ve_publish E) x = x"
    and sha: "distinct_digests sha K" "blocks_addressed sha K objects b"
    and safe: "commit_safe False (v_image v) (map snd tds)"
    and path: "\<And>c. bk_path K (''segments/'' @ v_vol v @ ''/'' @ ve_ulid E) \<noteq> block_path K (sha c)"
      "objects b (bk_path K (''segments/'' @ v_vol v @ ''/'' @ ve_ulid E)) = None"
      "bk_path K (bk_path K (''segments/'' @ v_vol v @ ''/'' @ ve_ulid E)) = bk_path K (''segments/'' @ v_vol v @ ''/'' @ ve_ulid E)"
    and ok: "volume_checkpoint B C Q sha K E s b (foldl (\<lambda>v (now, d). mutate now v d) v tds) = Some (Inr rec, v', s', b')"
  shows "vol_inv B C content Q K s' b' v' \<and> v_tail v' = Some (comp_through_version rec) \<and>
     (\<exists>img. tree img = tree (v_image v') \<and> (\<forall>clk. volume_load B C Q K clk s' b' (v_vol v) = Some (Inr (img, None))))"
proof -
  note c = checkpoint_keeps [OF assms]
  obtain img where img: "vol_state B C content Q K s' b' (v_vol v) img (next_version C (content s') (v_vol v)) []" "tree img = tree (v_image v')"
    using c(5) by blast
  have "log_ok C (content s') (v_vol v)" using c(1) by (simp add: vol_inv_def vol_holds_def c(2))
  from event_store.load_eq [OF store this img(1) c(3)] have "volume_load B C Q K clk s' b' (v_vol v) = Some (Inr (img, None))" for clk
    by (simp add: deltas_of_def last_event_version_def)
  with c(1,4) img(2) show ?thesis by blast
qed

lemma mem_watch [simp]: "others ((mem_env k)\<lparr>watch := w\<rparr>) x = x"
  by (simp add: mem_env_def)

lemma example_paths:
  "bk_path mem_bucket_ops p = p" "''segments/a/u'' \<noteq> block_path mem_bucket_ops (example_sha c)"
  by (simp_all add: mem_bucket_ops_def block_path_def)

theorem volume_checkpoint_then_mount_witness:
  "\<exists>h rec v' s' b' img. volume_checkpoint mem_ops mem_codec mem_fs example_sha mem_bucket_ops (example_volume_env h) mem_empty []
       (foldl (\<lambda>v (now, d). mutate now v d) example_volume example_deltas) = Some (Inr rec, v', s', b') \<and>
     volume_load mem_ops mem_codec mem_fs mem_bucket_ops (\<lambda>_. 9) s' b' ''a'' = Some (Inr (img, None)) \<and> tree img = tree (v_image v')"
proof -
  obtain h rec v' s' b' where ok: "volume_checkpoint mem_ops mem_codec mem_fs example_sha mem_bucket_ops (example_volume_env h) mem_empty []
      (mutations example_volume example_deltas) = Some (Inr rec, v', s', b')" by (rule example_volume_checkpoint)
  from volume_checkpoint_then_mount [OF mem_store.event_store_axioms mem_fsq.fs_serde_axioms mem_bk.bucket_axioms example_vol_inv _ _ _ _ _ _ _ _ _ _ ok]
  have "\<exists>img. tree img = tree (v_image v') \<and> (\<forall>clk. volume_load mem_ops mem_codec mem_fs mem_bucket_ops clk s' b' ''a'' = Some (Inr (img, None)))"
    by (simp add: example_paths)
  with ok show ?thesis by blast
qed

text \<open>A volume that is mounted right after a checkpoint cannot be written: the mount gives the right tree, but it
  takes its tail from the backlog only, which is empty, so the handle expects a stream that does not exist and every
  commit that follows is refused, as long as nobody else appends.\<close>

theorem mount_after_checkpoint_stuck:
  assumes store: "event_store B content writes base C" and serde: "fs_serde Q" and bk: "bucket K objects"
    and inv: "vol_inv B C content Q K s b v" and room: "log_room C (content s) (v_vol v)"
    and env: "ulids_ok (ve_append E 0)" "others (ve_append E 0) s = s" "\<And>x. others (ve_publish E) x = x"
    and sha: "distinct_digests sha K" "blocks_addressed sha K objects b"
    and safe: "commit_safe False (v_image v) (map snd tds)"
    and path: "\<And>c. bk_path K (''segments/'' @ v_vol v @ ''/'' @ ve_ulid E) \<noteq> block_path K (sha c)"
      "objects b (bk_path K (''segments/'' @ v_vol v @ ''/'' @ ve_ulid E)) = None"
      "bk_path K (bk_path K (''segments/'' @ v_vol v @ ''/'' @ ve_ulid E)) = bk_path K (''segments/'' @ v_vol v @ ''/'' @ ve_ulid E)"
    and ok: "volume_checkpoint B C Q sha K E s b (foldl (\<lambda>v (now, d). mutate now v d) v tds) = Some (Inr rec, v', s', b')"
    and mount: "volume_mount B C Q K E2 s' b' (v_vol v) = Some (Inr v2, s2)" "others (ve_fence E2) s' = s'"
    and next_batch: "tds2 \<noteq> []" "log_room C (content s2) (v_vol v)" "ulids_ok (ve_append E3 0)" "others (ve_append E3 0) s2 = s2"
  shows "v_tail v2 = None \<and> tree (v_image v2) = tree (v_image v') \<and>
     (\<exists>e v3 s3 b3. volume_commit B C Q sha K E3 s2 b2 (foldl (\<lambda>v (now, d). mutate now v d) v2 tds2) = (Inl e, v3, s3, b3))"
proof -
  let ?p = "v_vol v"
  note c = checkpoint_keeps [OF store serde bk inv room env sha safe path ok]
  obtain img where img: "vol_state B C content Q K s' b' ?p img (next_version C (content s') ?p) []" "tree img = tree (v_image v')"
    using c(5) by blast
  have log: "log_ok C (content s') ?p" and "v_tail v' = current_version C (content s') ?p"
    using c(1) by (simp_all add: vol_inv_def vol_holds_def c(2))
  then have tail: "current_version C (content s') ?p \<noteq> None" using c(4) by (metis option.distinct(1))
  obtain r s2' where f: "fence B C (ve_fence E2) s' ?p (Some (ve_ulid E2)) = (r, s2')" by (cases "fence B C (ve_fence E2) s' ?p (Some (ve_ulid E2))")
  obtain x where x: "r = Inr x" using mount(1) by (cases r) (simp_all add: volume_mount_def f Let_def)
  have s2: "s2' = s2" using mount(1) by (auto simp: volume_mount_def f x Let_def)
  note fl = event_store.fence_log [OF store log mount(2) f [unfolded s2]]
  have nv: "next_version C (content s2) ?p = next_version C (content s') ?p" by (simp add: next_version_def fl(3))
  have "vol_state B C content Q K s2 b' ?p img (next_version C (content s2) ?p) []"
    using img(1) fl(5) by (auto simp: vol_state_def fl(2) nv)
  from event_store.load_eq [OF store fl(1) this] c(3)
  have "volume_load B C Q K clk s2 b' ?p = Some (Inr (img, None))" for clk by (simp add: nv deltas_of_def last_event_version_def)
  with mount(1) have v2: "v_vol v2 = ?p" "v_tail v2 = None" "v_image v2 = img" "v_pending v2 = []"
    by (auto simp: volume_mount_def f x Let_def s2)
  have "\<exists>e v3 s3 b3. volume_commit B C Q sha K E3 s2 b2 (mutations v2 tds2) = (Inl e, v3, s3, b3)"
  proof (rule ccontr)
    assume *: "\<nexists>e v3 s3 b3. volume_commit B C Q sha K E3 s2 b2 (mutations v2 tds2) = (Inl e, v3, s3, b3)"
    obtain r v3 s3 b3 where r: "volume_commit B C Q sha K E3 s2 b2 (mutations v2 tds2) = (r, v3, s3, b3)"
      by (cases "volume_commit B C Q sha K E3 s2 b2 (mutations v2 tds2)")
    with * obtain u where u: "volume_commit B C Q sha K E3 s2 b2 (mutations v2 tds2) = (Inr u, v3, s3, b3)" by (cases r) auto
    then show False
    proof (cases rule: volume_commit_cases)
      case idle
      then show False using next_batch(1) by (simp add: mutations_eq)
    next
      case (appended uploads upgraded events ticket)
      have cm: "commit_appends B C (ve_append E3) s2 ?p NoStream None (Some (v_token v2)) events True = (Inr ticket, s3)"
        using appended(5) by (simp add: mutations_eq v2 tail_expected_def)
      from event_store.append_log(3) [OF store fl(1) next_batch(3) log_room_append [OF next_batch(2) commit_appends_batch [OF cm]] next_batch(4) cm]
      show False using tail by (simp add: fl(3))
    qed
  qed
  with v2 img(2) show ?thesis by simp
qed

lemma example_mount:
  assumes "log_ok mem_codec (mem_content s) ''a''" "next_version mem_codec (mem_content s) ''a'' < VMAX"
    and st: "vol_state mem_ops mem_codec mem_content mem_fs mem_bucket_ops s b ''a'' img start es"
  shows "\<exists>h v2 s2. volume_mount mem_ops mem_codec mem_fs mem_bucket_ops (example_volume_env h) s b ''a'' = Some (Inr v2, s2) \<and>
     next_version mem_codec (mem_content s2) ''a'' = next_version mem_codec (mem_content s) ''a'' \<and>
     global_seq (mem_content s2) = global_seq (mem_content s)"
proof -
  note log = log_okD [OF assms(1)]
  obtain k s2 where f: "\<forall>w. fence mem_ops mem_codec ((mem_env 0)\<lparr>watch := w\<rparr>) s ''a'' (Some ''u'') =
      (bind_res (case k of None \<Rightarrow> Inr () | Some sq \<Rightarrow> await_seq w sq) (\<lambda>_. Inr (tail_commit_info (tail_of mem_codec (mem_content s) ''a''))), s2)"
    by (rule mem_store.fence_watch [OF log(1,3) mem_env_ok(2)])
  note fl = mem_store.fence_log [OF assms(1) mem_watch f [rule_format]]
  have nv: "next_version mem_codec (mem_content s2) ''a'' = next_version mem_codec (mem_content s) ''a''" by (simp add: next_version_def fl(3))
  have "vol_state mem_ops mem_codec mem_content mem_fs mem_bucket_ops s2 b ''a'' img start es"
    using st fl(5) by (auto simp: vol_state_def fl(2) nv)
  from mem_store.load_eq [OF fl(1) this] assms(2)
  obtain img' t where l: "volume_load mem_ops mem_codec mem_fs mem_bucket_ops (\<lambda>_. 5) s2 b ''a'' = Some (Inr (img', t))" by (simp add: nv)
  let ?h = "case k of None \<Rightarrow> 0 | Some sq \<Rightarrow> sq"
  have "\<exists>v2. volume_mount mem_ops mem_codec mem_fs mem_bucket_ops (example_volume_env ?h) s b ''a'' = Some (Inr v2, s2)"
    using f [rule_format, of "[\<lparr>durable_seq = ?h, close_reason = None\<rparr>]"] await_one [of ?h ?h]
    by (cases k) (simp_all add: volume_mount_def Let_def l)
  with nv fl(4) show ?thesis by blast
qed

theorem mount_after_checkpoint_stuck_witness:
  "\<exists>h h2 rec v' s' b' v2 s2 e v3 s3 b3. volume_checkpoint mem_ops mem_codec mem_fs example_sha mem_bucket_ops (example_volume_env h) mem_empty []
       (foldl (\<lambda>v (now, d). mutate now v d) example_volume example_deltas) = Some (Inr rec, v', s', b') \<and>
     volume_mount mem_ops mem_codec mem_fs mem_bucket_ops (example_volume_env h2) s' b' ''a'' = Some (Inr v2, s2) \<and>
     tree (v_image v2) = tree (v_image v') \<and>
     volume_commit mem_ops mem_codec mem_fs example_sha mem_bucket_ops (example_volume_env h2) s2 b' (mutate 6 v2 (Mkdir ''/e'')) = (Inl e, v3, s3, b3)"
proof -
  obtain h rec v' s' b' where ok: "volume_checkpoint mem_ops mem_codec mem_fs example_sha mem_bucket_ops (example_volume_env h) mem_empty []
      (mutations example_volume example_deltas) = Some (Inr rec, v', s', b')"
    and lg: "log_room mem_codec (mem_content s') ''a''" "log_ok mem_codec (mem_content s') ''a''" by (rule example_volume_checkpoint)
  note hyps = mem_store.event_store_axioms mem_fsq.fs_serde_axioms mem_bk.bucket_axioms example_vol_inv
  have sub: "next_version mem_codec (mem_content s') ''a'' < VMAX" using lg(1) by (simp add: log_room_def)
  obtain img where "vol_state mem_ops mem_codec mem_content mem_fs mem_bucket_ops s' b' ''a'' img (next_version mem_codec (mem_content s') ''a'') []"
    using checkpoint_keeps(5) [OF hyps _ _ _ _ _ _ _ _ _ _ ok] by (auto simp: example_paths)
  from example_mount [OF lg(2) sub this] obtain h2 v2 s2 where m: "volume_mount mem_ops mem_codec mem_fs mem_bucket_ops (example_volume_env h2) s' b' ''a'' = Some (Inr v2, s2)"
    and lg2: "log_room mem_codec (mem_content s2) ''a''" using lg(1) unfolding log_room_def by metis
  have "tree (v_image v2) = tree (v_image v') \<and> (\<exists>e v3 s3 b3. volume_commit mem_ops mem_codec mem_fs example_sha mem_bucket_ops
      (example_volume_env h2) s2 b' (mutate 6 v2 (Mkdir ''/e'')) = (Inl e, v3, s3, b3))"
    using mount_after_checkpoint_stuck [OF hyps _ _ _ _ _ _ _ _ _ _ ok, of "example_volume_env h2" v2 s2 "[(6, Mkdir ''/e'')]" "example_volume_env h2" b'] m lg2
    by (simp add: example_paths)
  with ok m show ?thesis by blast
qed

text \<open>A file that is truncated after it was written in the same batch is lost by the commit: when both contents
  need blocks, the handle shows the truncated file, but the batch that the commit appends ends with the removal, so no
  replay of the stream has the file.\<close>

theorem truncate_after_write_lost:
  assumes "v_pending v = []" "BLOCK_CHUNK < length d" "BLOCK_CHUNK < sz" "length d < 2 ^ 64"
    and old: "\<nexists>c m. map_of (nodes (v_image v)) path = Some (File (Inline c) m)"
  shows "\<exists>v' m. truncate K now b (write_file now v path 0 d) path sz = (Inr (), v') \<and>
     map_of (nodes (v_image v')) path = Some (File (Inline (resize sz d)) m) \<and>
     (\<forall>i n. map_of (nodes (foldl (fs_apply n) i (snd (upgrade sha K b (v_image v') {} (v_pending v'))))) path = None)"
proof -
  let ?c = "resize sz d"
  let ?v1 = "write_file now v path 0 d"
  have sp: "splice [] 0 x = x" for x by (simp add: splice_def resize_def)
  have n1: "look (v_image ?v1) path = Some (File (Inline d) (meta_file now))"
    using old by (simp add: write_file_def mutate_def apply_write_def sp Let_def split: option.splits node.splits content.splits)
  have rd: "volume_read_file K b ?v1 path = (Inr (Some d), ?v1)"
    using assms(4) by (simp add: volume_read_file_def image_read_file_def n1 read_content_def content_len_def slice_of_def Let_def)
  let ?v' = "mutate now (mutate now ?v1 (Remove path)) (Write path 0 (InlineData ?c))"
  have tr: "truncate K now b ?v1 path sz = (Inr (), ?v')" by (simp add: truncate_def rd Let_def)
  have n2: "look (v_image ?v') path = Some (File (Inline ?c) (meta_file now))"
    by (simp add: mutate_def apply_write_def apply_remove_def sp Let_def)
  have pend: "v_pending ?v' = [Write path 0 (InlineData d), Remove path, Write path 0 (InlineData ?c)]"
    using assms(1) by (simp add: mutate_def write_file_def)
  have len: "\<not> length ?c \<le> BLOCK_CHUNK" using assms(3) by (simp add: resize_def)
  have "snd (upgrade sha K b (v_image ?v') {} (v_pending ?v')) = [Write path 0 (BlocksData (blocks_of sha ?c)), Remove path]"
    unfolding pend by (simp add: n2 len)
  then have "look (foldl (fs_apply n) i (snd (upgrade sha K b (v_image ?v') {} (v_pending ?v')))) path = None" for i n
    by (simp add: look_remove)
  with tr n2 show ?thesis by blast
qed

text \<open>A file of zeros.\<close>

definition zeros :: "nat \<Rightarrow> bytes" where
  "zeros n = replicate n CHR 0x00"

theorem truncate_after_write_lost_witness:
  "\<exists>v' m. truncate mem_bucket_ops 5 [] (write_file 5 example_volume ''/f'' 0 (zeros (BLOCK_CHUNK + 2))) ''/f'' (BLOCK_CHUNK + 1) = (Inr (), v') \<and>
     map_of (nodes (v_image v')) ''/f'' = Some (File (Inline (resize (BLOCK_CHUNK + 1) (zeros (BLOCK_CHUNK + 2)))) m) \<and>
     map_of (nodes (foldl (fs_apply 5) fs_image_default (snd (upgrade example_sha mem_bucket_ops [] (v_image v') {} (v_pending v'))))) ''/f'' = None"
proof -
  have "length (zeros (BLOCK_CHUNK + 2)) = BLOCK_CHUNK + 2" "BLOCK_CHUNK + 2 < 2 ^ 64" by (simp_all add: zeros_def BLOCK_CHUNK_def)
  then show ?thesis
    using truncate_after_write_lost [of example_volume "zeros (BLOCK_CHUNK + 2)" "BLOCK_CHUNK + 1" "''/f''" mem_bucket_ops 5 "[]" example_sha]
    by (fastforce simp: fs_image_default_def)
qed

end
