(* ===== verification/Replica_Props.thy ===== *)
theory Replica_Props
  imports Replica Volume_Props
begin

text \<open>
  A replica catches up with the volume: whatever part of the stream it has applied and whatever part
  retention has removed, a sync leaves it at the tail of the stream with the tree of the whole stream,
  as long as the removed part is covered by its cursor or by the latest checkpoint.
\<close>

lemma follow_fold:
  "foldl (follow_event Q clk) (k, rp) es =
     (k + length (deltas_of Q es),
      rp\<lparr>rp_image := replay (rp_image rp) (timed clk k (deltas_of Q es)),
         rp_cursor := if es = [] then rp_cursor rp else Some (ev_version (last es))\<rparr>)"
proof (induction es arbitrary: k rp)
  case (Cons e es)
  show ?case
  proof (cases "event_json (unjson_fs_delta Q) e")
    case (Inl x)
    then have "follow_event Q clk (k, rp) e = (k, rp\<lparr>rp_cursor := Some (ev_version e)\<rparr>)" "deltas_of Q (e # es) = deltas_of Q es"
      by (simp_all add: follow_event_def deltas_of_def)
    then show ?thesis by (simp add: Cons)
  next
    case (Inr d)
    then have "follow_event Q clk (k, rp) e =
        (k + 1, rp\<lparr>rp_image := fs_apply (clk k) (rp_image rp) d, rp_cursor := Some (ev_version e)\<rparr>)" "deltas_of Q (e # es) = d # deltas_of Q es"
      by (simp_all add: follow_event_def deltas_of_def)
    then show ?thesis by (simp add: Cons)
  qed
qed (simp add: deltas_of_def)

text \<open>The image of a stream prefix.\<close>

definition image_of :: "fs_codec \<Rightarrow> envelope list \<Rightarrow> fs_image" where
  "image_of Q es = foldl (fs_apply 0) fs_image_default (deltas_of Q (map event_from_parts es))"

text \<open>
  A stream of which the versions below \<open>f\<close> are gone, as a reader sees it: \<open>full\<close> is everything that
  was ever appended, and the latest checkpoint, if any, holds a prefix of it.
\<close>

definition retained ::
  "codec \<Rightarrow> fs_codec \<Rightarrow> 'b bucket_ops \<Rightarrow> kv_map \<Rightarrow> 'b \<Rightarrow> string \<Rightarrow> envelope list \<Rightarrow> version \<Rightarrow> snapshot_record option \<Rightarrow> bool" where
  "retained C Q K m b vol full f snap \<longleftrightarrow>
     wf_db C m \<and> name_ok vol \<and> length full < VMAX \<and> map env_version full = [0 ..< length full] \<and>
     history C m vol 0 None = drop f full \<and> (\<forall>d \<in> set (deltas_of Q (map event_from_parts full)). delta_allowed d) \<and>
     (case snap of
        None \<Rightarrow> True
      | Some r \<Rightarrow> snap_through_version r < length full \<and>
          (\<exists>img. load_segments Q K b (snap_state r) = Inr img \<and> fs_ok img \<and> tree img = tree (image_of Q (take (snap_through_version r + 1) full))))"

lemma version_nth:
  assumes "retained C Q K m b vol full f snap" "c < length full"
  shows "env_version (full ! c) = c"
proof -
  have "map env_version full ! c = [0 ..< length full] ! c" using assms(1) by (simp add: retained_def)
  with assms(2) show ?thesis by simp
qed

lemma retained_read:
  assumes "retained C Q K m b vol full f snap" "serves r m" "lo \<le> length full"
  shows "reader_read_stream C r vol (Included lo, Unbounded) = Inr (map event_from_parts (drop (max lo f) full))"
proof -
  note ret = assms(1) [unfolded retained_def]
  note vs = version_nth [OF assms(1)]
  have "filter (\<lambda>e. lo \<le> env_version e) (drop f full) = drop (max lo f) full"
  proof (cases "lo \<le> f")
    case True
    have "\<forall>e \<in> set (drop f full). lo \<le> env_version e"
      using True by (auto simp: in_set_conv_nth vs)
    with True show ?thesis by (simp add: max_def filter_id_conv)
  next
    case False
    have "drop f full = take (lo - f) (drop f full) @ drop lo full"
      using False by (metis append_take_drop_id drop_drop le_add_diff_inverse2 nat_le_linear)
    moreover have "filter (\<lambda>e. lo \<le> env_version e) (take (lo - f) (drop f full)) = []"
      by (auto simp: filter_empty_conv in_set_conv_nth vs)
    moreover have "filter (\<lambda>e. lo \<le> env_version e) (drop lo full) = drop lo full"
      by (auto simp: filter_id_conv in_set_conv_nth vs)
    ultimately show ?thesis using False by (metis append_Nil filter_append max.absorb1 nat_le_linear)
  qed
  moreover have "lo < VMAX" using ret assms(3) by auto
  ultimately show ?thesis
    using read_events_eq [OF assms(2), of C vol "(Included lo, Unbounded)" lo None] ret history_from [of C m vol 0 lo None]
    by (simp add: reader_read_stream_def bounds_def)
qed

text \<open>Replaying the rest of the stream on a prefix gives the tree of the stream.\<close>

lemma replay_rest:
  assumes "retained C Q K m b vol full f snap" "fs_ok i" "tree i = tree (image_of Q (take c full))"
  shows "tree (replay i (timed clk k (deltas_of Q (map event_from_parts (drop c full))))) = tree (image_of Q full)"
proof -
  let ?xs = "deltas_of Q (map event_from_parts (take c full))" and ?ys = "deltas_of Q (map event_from_parts (drop c full))"
  have split: "deltas_of Q (map event_from_parts full) = ?xs @ ?ys" by (simp flip: deltas_of_append map_append)
  then have al: "\<forall>d \<in> set ?xs. delta_allowed d" "\<forall>d \<in> set ?ys. delta_allowed d" using assms(1) by (auto simp: retained_def)
  have "fs_ok (image_of Q (take c full))"
    unfolding image_of_def by (rule fs_ok_fold [OF _ al(1)]) (simp add: fs_ok_def fs_image_default_def)
  from tree_replay_cong [OF assms(3,2) this, of "timed clk k ?ys" "map (\<lambda>d. (0, d)) ?ys"] al(2)
  show ?thesis by (simp add: image_of_def split fold_zero comp_def)
qed

lemma version_at:
  assumes "retained C Q K m b vol full f snap" "c < length full"
  shows "ev_version (hd (map event_from_parts (drop c full))) = c"
  using version_nth [OF assms] assms(2) by (simp add: hd_map hd_drop_conv_nth)

lemma last_version_drop:
  assumes "retained C Q K m b vol full f snap" "c < length full"
  shows "ev_version (last (map event_from_parts (drop c full))) = length full - 1"
proof -
  have "full \<noteq> []" using assms(2) by auto
  with version_nth [OF assms(1), of "length full - 1"] show ?thesis using assms(2) by (simp add: last_map last_conv_nth)
qed

text \<open>Following the rest of the stream from a prefix ends at the tail.\<close>

lemma follow_rest:
  assumes ret: "retained C Q K m b vol full f snap" and img: "fs_ok (rp_image q)" "tree (rp_image q) = tree (image_of Q (take c full))"
    and c: "c \<le> length full" "rp_cursor q = (if c = 0 then None else Some (c - 1))"
  shows "tree (rp_image (snd (foldl (follow_event Q clk) (0, q) (map event_from_parts (drop c full))))) = tree (image_of Q full) \<and>
    rp_cursor (snd (foldl (follow_event Q clk) (0, q) (map event_from_parts (drop c full)))) = (if full = [] then None else Some (length full - 1))"
proof (cases "c < length full")
  case True
  then have "drop c full \<noteq> []" "full \<noteq> []" by auto
  with replay_rest [OF ret img] last_version_drop [OF ret True] show ?thesis by (simp add: follow_fold)
next
  case False
  with c img replay_rest [OF ret img] show ?thesis by (auto simp: follow_fold)
qed

text \<open>The gap check notices exactly that retention passed the cursor.\<close>

lemma sync_gap_retained:
  assumes ret: "retained C Q K m b vol full f snap" and snap: "\<And>k. reader_latest_snapshot C (rs k) vol = Inr snap"
    and c: "c \<le> length full" and cover: "f \<le> c \<or> (\<exists>r. snap = Some r \<and> f \<le> snap_through_version r + 1)"
  shows "sync_gap C rs vol c (map event_from_parts (drop (max c f) full)) = Inr (c < f)"
proof (cases "max c f < length full")
  case True
  then obtain e es where e: "map event_from_parts (drop (max c f) full) = e # es" by (cases "map event_from_parts (drop (max c f) full)") auto
  with version_at [OF ret True] show ?thesis by (simp add: sync_gap_def less_max_iff_disj)
next
  case False
  have "snap_through_version r < length full" if "snap = Some r" for r using ret that by (simp add: retained_def)
  with False c cover show ?thesis by (auto simp: sync_gap_def snap split: option.split)
qed

section \<open>Property\<close>

text \<open>C11: a replica catches up: from any prefix of the stream it has applied, a sync succeeds and leaves it at the tail with the
  tree of the whole stream, up to modification times, even when retention removed events it had not seen, which it notices and repairs from
  the latest checkpoint; the removed part must be covered by the cursor or by the checkpoint.\<close>

theorem replica_sync_catches_up:
  assumes ret: "retained C Q K m b (rp_vol rp) full f snap" and srv: "\<And>k. serves (rs k) m"
    and snap: "\<And>k. reader_latest_snapshot C (rs k) (rp_vol rp) = Inr snap"
    and at: "(case rp_cursor rp of None \<Rightarrow> 0 | Some c \<Rightarrow> c + 1) = c0" "c0 \<le> length full"
    and img: "fs_ok (rp_image rp)" "tree (rp_image rp) = tree (image_of Q (take c0 full))"
    and cover: "f \<le> c0 \<or> (\<exists>r. snap = Some r \<and> f \<le> snap_through_version r + 1)"
  shows "\<exists>rp'. replica_sync C Q K clk rs b rp = (Inr (), rp') \<and> tree (rp_image rp') = tree (image_of Q full) \<and>
     rp_cursor rp' = (if full = [] then None else Some (length full - 1))"
proof -
  let ?n = "length full" and ?p = "rp_vol rp"
  have n: "?n < VMAX" using ret by (simp add: retained_def)
  have start: "(case rp_cursor rp of None \<Rightarrow> 0 | Some c \<Rightarrow> add64 c 1) = c0"
    using at n by (cases "rp_cursor rp") (auto simp: add64_def)
  let ?evs = "map event_from_parts (drop (max c0 f) full)"
  have rd: "reader_read_stream C (rs 0) ?p (Included c0, Unbounded) = Inr ?evs" by (rule retained_read [OF ret srv at(2)])
  have gap: "sync_gap C rs ?p c0 ?evs = Inr (c0 < f)" by (rule sync_gap_retained [OF ret snap at(2) cover])
  show ?thesis
  proof (cases "c0 < f")
    case False
    then have "?evs = map event_from_parts (drop c0 full)" by (simp add: max_def)
    moreover have "rp_cursor rp = (if c0 = 0 then None else Some (c0 - 1))" using at(1) by (cases "rp_cursor rp") auto
    moreover have "replica_sync C Q K clk rs b rp = (Inr (), snd (foldl (follow_event Q clk) (0, rp) ?evs))"
      by (simp only: replica_sync_def start Let_def rd gap False sum.case prod.case if_False)
    ultimately show ?thesis using follow_rest [OF ret img at(2), of clk] by auto
  next
    case True
    then obtain r where r: "snap = Some r" "f \<le> snap_through_version r + 1" using cover by auto
    let ?t = "snap_through_version r + 1"
    obtain i where i: "load_segments Q K b (snap_state r) = Inr i" "fs_ok i" "tree i = tree (image_of Q (take ?t full))" "?t \<le> ?n"
      using ret by (auto simp: retained_def r)
    have t: "add64 (snap_through_version r) 1 = ?t" using i(4) n by (simp add: add64_def)
    let ?more = "map event_from_parts (drop ?t full)"
    have rd2: "reader_read_stream C (rs 3) ?p (Included ?t, Unbounded) = Inr ?more"
      using retained_read [OF ret srv i(4)] r(2) by (simp add: max_def)
    have "\<not> (?more \<noteq> [] \<and> ?t < ev_version (hd ?more))" using version_at [OF ret, of ?t] by auto
    then have rl: "reload C Q K rs b rp = (Inr ?more, rp\<lparr>rp_image := i, rp_cursor := Some (snap_through_version r)\<rparr>)"
      by (simp only: reload_def snap r(1) i(1) Let_def t rd2 sum.case option.case if_False)
    let ?q = "rp\<lparr>rp_image := i, rp_cursor := Some (snap_through_version r)\<rparr>"
    have "replica_sync C Q K clk rs b rp = (Inr (), snd (foldl (follow_event Q clk) (0, ?q) ?more))"
      by (simp only: replica_sync_def start Let_def rd gap rl True sum.case prod.case if_True)
    moreover have "fs_ok (rp_image ?q)" "tree (rp_image ?q) = tree (image_of Q (take ?t full))"
      "rp_cursor ?q = (if ?t = 0 then None else Some (?t - 1))" using i(2,3) by simp_all
    ultimately show ?thesis using follow_rest [OF ret, of ?q ?t clk] i(4) by auto
  qed
qed

text \<open>An event that made a directory and was purged, with the segment that keeps its effect.\<close>

definition example_purged :: envelope where
  "example_purged = \<lparr>env_id = ''e'', env_type = ''delta'', env_version = 0, env_seq = 1, env_data = show_fs_delta (Mkdir ''/d''),
     env_metadata = [], env_ts_ms = 5\<rparr>"

definition example_segments :: mem_bucket where
  "example_segments = [(''segments/a/u'', show_segment \<lparr>sg_entries = [(''/d'', Some (Dir (meta_dir 7)))]\<rparr>)]"

definition example_replica :: replica where
  "example_replica = \<lparr>rp_vol = ''a'', rp_image = fs_image_default, rp_cursor = None, rp_blocks = Map.empty\<rparr>"

lemma example_retained:
  obtains s where "retained mem_codec mem_fs mem_bucket_ops (mem_content s) example_segments ''a'' [example_purged] 1
       (Some \<lparr>snap_through_version = 0, snap_ts_ms = 5, snap_state = net_enc [''segments/a/u'']\<rparr>)"
    "latest_snapshot mem_ops mem_codec s ''a'' = Inr (Some \<lparr>snap_through_version = 0, snap_ts_ms = 5, snap_state = net_enc [''segments/a/u'']\<rparr>)"
proof -
  let ?rec = "volume_record ''a'' 0 5" and ?state = "net_enc [''segments/a/u'']"
  obtain r s where p: "publish_snapshot mem_ops mem_codec (mem_env 0) mem_empty ''a'' ?rec ?state = (r, s)"
    "mem_content s = publish_map mem_codec (mem_env 0) (mem_content mem_empty) ''a'' ?rec ?state"
    by (rule mem_store.publish_eq [of "mem_env 0" mem_empty "''a''" ?rec ?state]) simp_all
  note pl = mem_store.publish_log [OF _ mem_env_ok(2) _ p(1), simplified]
  have "history mem_codec (mem_content s) ''a'' 0 None = history mem_codec Map.empty ''a'' 0 None"
    unfolding p(2) by (rule same_meta(1)) simp_all
  then have hist: "history mem_codec (mem_content s) ''a'' 0 None = []" by (simp add: history_def pick_def stored_def)
  let ?img = "merge_segment fs_image_default \<lparr>sg_entries = [(''/d'', Some (Dir (meta_dir 7)))]\<rparr>"
  have ds: "deltas_of mem_fs (map event_from_parts [example_purged]) = [Mkdir ''/d'']"
    using read_show_fs_delta [of "Mkdir ''/d''"]
    by (simp add: example_purged_def deltas_of_def event_json_def event_from_parts_def mem_fs_def)
  have load: "load_segments mem_fs mem_bucket_ops example_segments ?state = Inr ?img"
    by (simp add: load_segments_def mem_fs_def example_segments_def mem_bucket_ops_def)
  have img: "fs_ok ?img" "tree ?img = tree (fs_apply 0 fs_image_default (Mkdir ''/d''))"
    by (simp add: fs_ok_def bt_ok_def fs_image_default_def merge_segment_def merge_entry_def)
      (simp add: fun_eq_iff tree_def fs_image_default_def merge_segment_def merge_entry_def apply_mkdir_def meta_dir_def meta_with_def untime_def)
  have "retained mem_codec mem_fs mem_bucket_ops (mem_content s) example_segments ''a'' [example_purged] 1
       (Some \<lparr>snap_through_version = 0, snap_ts_ms = 5, snap_state = ?state\<rparr>)"
    using log_okD(1) [OF pl(2)] ds
    by (simp add: retained_def hist load img image_of_def) (simp add: example_purged_def)
  with pl(1) that show ?thesis by (simp add: volume_record_def)
qed

theorem replica_sync_catches_up_witness:
  "\<exists>s rp'. replica_sync mem_codec mem_fs mem_bucket_ops (\<lambda>_. 9) (\<lambda>_. db_reader mem_ops s) example_segments example_replica = (Inr (), rp') \<and>
     tree (rp_image rp') = tree (image_of mem_fs [example_purged]) \<and> rp_cursor rp' = Some 0"
proof -
  obtain s where s: "retained mem_codec mem_fs mem_bucket_ops (mem_content s) example_segments ''a'' [example_purged] 1
       (Some \<lparr>snap_through_version = 0, snap_ts_ms = 5, snap_state = net_enc [''segments/a/u'']\<rparr>)"
    "latest_snapshot mem_ops mem_codec s ''a'' = Inr (Some \<lparr>snap_through_version = 0, snap_ts_ms = 5, snap_state = net_enc [''segments/a/u'']\<rparr>)"
    by (rule example_retained)
  have "\<exists>rp'. replica_sync mem_codec mem_fs mem_bucket_ops (\<lambda>_. 9) (\<lambda>_. db_reader mem_ops s) example_segments example_replica = (Inr (), rp') \<and>
     tree (rp_image rp') = tree (image_of mem_fs [example_purged]) \<and> rp_cursor rp' = Some 0"
    using replica_sync_catches_up [of mem_codec mem_fs mem_bucket_ops "mem_content s" example_segments example_replica "[example_purged]" 1 _
        "\<lambda>_. db_reader mem_ops s" 0 "\<lambda>_. 9"] s mem.serves_db [of s]
    by (simp add: example_replica_def reader_latest_snapshot_def latest_snapshot_def fs_ok_def fs_image_default_def image_of_def deltas_of_def)
  then show ?thesis by blast
qed

end
