(* ===== verification/Fuse_Durable.thy ===== *)
theory Fuse_Durable
  imports Fuse_Frame Replica_Props
begin

text \<open>
  A volume mount acknowledges a change when it is durable: a request that gets a reply leaves the
  handle in step with its stream, so that every later mount finds what the reply promised. On a
  volume mount taking the lock changes nothing, and every batch that a handler commits is one the
  commit keeps faithfully.
\<close>

section \<open>Volume mounts\<close>

lemma volume_lock [simp]: "lf_backend fs = VolumeBackend v \<Longrightarrow> lock_backend E n fs = fs"
  by (simp add: lock_backend_def)

lemma volume_image [simp]: "lf_backend fs = VolumeBackend v \<Longrightarrow> fuse_image E n f fs = (f (v_image v), fs)"
  by (simp add: fuse_image_def backend_image_def)

lemma snd_clocked [simp]: "map snd (clocked E k ds) = ds"
  by (simp add: clocked_def comp_def case_prod_beta)

lemma io_result_Reply: "io_result r = Reply x \<longleftrightarrow> r = Inr x"
  by (auto simp: io_result_def split: sum.split error.split)

text \<open>The backend a table update leaves alone.\<close>

lemma ino_at_world [simp]:
  "lf_backend (snd (ino_at path fs)) = lf_backend fs" "lf_store (snd (ino_at path fs)) = lf_store fs"
  "lf_bucket (snd (ino_at path fs)) = lf_bucket fs"
  by (simp_all add: ino_at_def)

lemma new_handle_world [simp]:
  "lf_backend (snd (new_handle i fs)) = lf_backend fs" "lf_store (snd (new_handle i fs)) = lf_store fs"
  "lf_bucket (snd (new_handle i fs)) = lf_bucket fs"
  by (simp_all add: new_handle_def Let_def)

lemma child_inos_world [simp]:
  "lf_backend (snd (child_inos dir kids fs)) = lf_backend fs \<and> lf_store (snd (child_inos dir kids fs)) = lf_store fs \<and>
   lf_bucket (snd (child_inos dir kids fs)) = lf_bucket fs"
  by (induction kids arbitrary: fs) (auto simp: case_prod_beta Let_def)

section \<open>In step\<close>

text \<open>The mount serves a volume whose handle is in step with its stream.\<close>

definition in_step :: "('s, 't, 'b) fuse_deps \<Rightarrow> ('s \<Rightarrow> kv_map) \<Rightarrow> string \<Rightarrow> ('s, 'b) landslide_fs \<Rightarrow> bool" where
  "in_step D content vol fs \<longleftrightarrow>
     (\<exists>v. lf_backend fs = VolumeBackend v \<and> v_vol v = vol \<and> next_version (fd_codec D) (content (lf_store fs)) vol < VMAX \<and>
        vol_inv (fd_db D) (fd_codec D) content (fd_fs D) (fd_bucket D) (lf_store fs) (lf_bucket fs) v)"

text \<open>What the commit of a request needs of its surroundings.\<close>

definition commit_ready ::
  "('s, 't, 'b) fuse_deps \<Rightarrow> ('s \<Rightarrow> kv_map) \<Rightarrow> ('b \<Rightarrow> string \<Rightarrow> bytes option) \<Rightarrow> 's fuse_env \<Rightarrow> string \<Rightarrow> ('s, 'b) landslide_fs \<Rightarrow> bool" where
  "commit_ready D content objects E vol fs \<longleftrightarrow>
     log_room (fd_codec D) (content (lf_store fs)) vol \<and> ulids_ok (ve_append (fe_volume E) 0) \<and>
     others (ve_append (fe_volume E) 0) (lf_store fs) = lf_store fs \<and>
     distinct_digests (fd_sha D) (fd_bucket D) \<and> blocks_addressed (fd_sha D) (fd_bucket D) objects (lf_bucket fs)"

lemma in_step_tables [simp]:
  "in_step D content vol (fs\<lparr>lf_state := st\<rparr>) = in_step D content vol fs"
  "in_step D content vol (fs\<lparr>lf_handles := hs\<rparr>) = in_step D content vol fs"
  "in_step D content vol (snd (ino_at path fs)) = in_step D content vol fs"
  "in_step D content vol (snd (new_handle i fs)) = in_step D content vol fs"
  "in_step D content vol (snd (child_inos dir kids fs)) = in_step D content vol fs"
  by (simp_all add: in_step_def)

lemma in_step_cache:
  assumes "in_step D content vol fs" "lf_backend fs = VolumeBackend v"
  shows "in_step D content vol (fs\<lparr>lf_backend := VolumeBackend (v\<lparr>v_blocks := c\<rparr>)\<rparr>)"
  using assms by (auto simp: in_step_def vol_inv_def)

lemma in_step_reads:
  assumes "in_step D content vol fs"
  shows "in_step D content vol (snd (fuse_read_file D E n path fs))" "in_step D content vol (snd (fuse_read_range D E n path offset len fs))"
    "in_step D content vol (snd (fuse_image E n f fs))"
proof -
  obtain v where v: "lf_backend fs = VolumeBackend v" using assms by (auto simp: in_step_def)
  show "in_step D content vol (snd (fuse_read_file D E n path fs))" "in_step D content vol (snd (fuse_read_range D E n path offset len fs))"
    "in_step D content vol (snd (fuse_image E n f fs))"
    using in_step_cache [OF assms v] assms
    by (simp_all add: fuse_read_file_def fuse_read_range_def v volume_read_file_def volume_read_range_def case_prod_beta)
qed

lemma commit_in_step:
  assumes deps: "event_store (fd_db D) content writes base (fd_codec D)" "fs_serde (fd_fs D)" "bucket (fd_bucket D) objects"
    and step: "in_step D content vol fs" and ready: "commit_ready D content objects E vol fs"
    and safe: "\<And>v. lf_backend fs = VolumeBackend v \<Longrightarrow> commit_safe False (v_image v) ds"
    and ok: "fst (fuse_commit D E k ds fs) = Reply u"
  shows "in_step D content vol (snd (fuse_commit D E k ds fs))"
proof -
  obtain v where v: "lf_backend fs = VolumeBackend v" "v_vol v = vol"
    "vol_inv (fd_db D) (fd_codec D) content (fd_fs D) (fd_bucket D) (lf_store fs) (lf_bucket fs) v"
    using step by (auto simp: in_step_def)
  let ?v1 = "foldl (\<lambda>v (now, d). mutate now v d) v (clocked E k ds)"
  obtain r v' s' b' where c: "volume_commit (fd_db D) (fd_codec D) (fd_fs D) (fd_sha D) (fd_bucket D) (fe_volume E) (lf_store fs) (lf_bucket fs) ?v1 =
      (r, v', s', b')" by (metis prod_cases4)
  then have r: "r = Inr u" using ok by (simp add: fuse_commit_def v(1) io_result_Reply)
  have ready': "log_room (fd_codec D) (content (lf_store fs)) (v_vol v)" "ulids_ok (ve_append (fe_volume E) 0)"
    "others (ve_append (fe_volume E) 0) (lf_store fs) = lf_store fs" "distinct_digests (fd_sha D) (fd_bucket D)"
    "blocks_addressed (fd_sha D) (fd_bucket D) objects (lf_bucket fs)"
    using ready by (simp_all add: commit_ready_def v(2))
  have safe': "commit_safe False (v_image v) (map snd (clocked E k ds))" using safe [OF v(1)] by simp
  note kept = commit_keeps [OF deps v(3) ready' safe' c [unfolded r]]
  show ?thesis using kept(1-3) by (simp add: fuse_commit_def v(1) c in_step_def flip: v(2))
qed

section \<open>Requests\<close>

text \<open>The batch of a flush: extents of one file, then its modification time.\<close>

lemma flush_safe:
  assumes "inline_or_new (look i path)"
  shows "commit_safe wrote i (map (\<lambda>(offset, data). Write path offset (InlineData data)) exts @ [SetAttr path None None None t])"
  using assms
proof (induction exts arbitrary: wrote i)
  case (Cons e exts)
  have "inline_or_new (look (fs_apply 0 i (Write path (fst e) (InlineData (snd e)))) path)"
    by (simp add: apply_write_def Let_def split: option.split node.split content.split)
  with Cons show ?case by (simp add: case_prod_beta)
qed simp

definition flushes_inline :: "('s, 'b) landslide_fs \<Rightarrow> u64 \<Rightarrow> bool" where
  "flushes_inline fs fh \<longleftrightarrow>
     (case lf_handles fs fh of
        None \<Rightarrow> True
      | Some h \<Rightarrow> (case path_of fs (h_ino h) of
          None \<Rightarrow> True
        | Some path \<Rightarrow> inline_or_new (look (backend_image (lf_backend fs)) path)))"

text \<open>
  The requests whose effect a commit keeps faithfully: a size change and a write to a block-backed
  file are excluded, and a rename goes to another place that is neither inside the source nor
  around it.
\<close>

fun request_safe :: "('s, 'b) landslide_fs \<Rightarrow> request \<Rightarrow> bool" where
  "request_safe fs (Setattr ino mode uid gid sz mtime) \<longleftrightarrow> sz = None"
| "request_safe fs (RenameReq parent name newparent newname flags) \<longleftrightarrow>
     (case (path_of fs parent, name, path_of fs newparent, newname) of
        (Some d, Some n, Some d', Some n') \<Rightarrow> delta_allowed (Rename (join_path d n) (join_path d' n'))
      | _ \<Rightarrow> True)"
| "request_safe fs (Flush fh) \<longleftrightarrow> flushes_inline fs fh"
| "request_safe fs (Fsync fh) \<longleftrightarrow> flushes_inline fs fh"
| "request_safe fs (Release fh) \<longleftrightarrow> flushes_inline fs fh"
| "request_safe fs _ \<longleftrightarrow> True"

text \<open>A reply only when the mount is in step afterwards.\<close>

definition acks :: "('s, 't, 'b) fuse_deps \<Rightarrow> ('s \<Rightarrow> kv_map) \<Rightarrow> string \<Rightarrow> 'a reply \<times> ('s, 'b) landslide_fs \<Rightarrow> bool" where
  "acks D content vol out \<longleftrightarrow> (\<forall>a. fst out = Reply a \<longrightarrow> in_step D content vol (snd out))"

lemma acks_simps [simp]:
  "acks D content vol (Fail e, fs)" "acks D content vol (Crash, fs)" "acks D content vol (Reply a, fs) = in_step D content vol fs"
  "acks D content vol (reply_empty out) = acks D content vol out"
  by (auto simp: acks_def reply_empty_def split: prod.split reply.split)

lemma acks_image [simp]: "in_step D content vol fs \<Longrightarrow> acks D content vol (x, snd (fuse_image E n f fs))"
  by (simp add: acks_def in_step_reads)

lemma acks_entry: "in_step D content vol fs \<Longrightarrow> acks D content vol (reply_entry E n path fs)"
  by (simp add: reply_entry_def case_prod_beta Let_def in_step_reads split: option.split)

lemma acks_attr: "in_step D content vol fs \<Longrightarrow> acks D content vol (reply_attr E n i path fs)"
  by (simp add: reply_attr_def case_prod_beta Let_def in_step_reads split: option.split)

lemma acks_created: "in_step D content vol fs \<Longrightarrow> acks D content vol (reply_created E mode umask path sz fs)"
  by (simp add: reply_created_def case_prod_beta Let_def in_step_reads)

text \<open>A handler that goes on after a commit replies only when the commit did.\<close>

lemma acks_then:
  assumes "acks D content vol r" "\<And>fs. in_step D content vol fs \<Longrightarrow> acks D content vol (k fs)"
  shows "acks D content vol (case r of (Fail e, fs) \<Rightarrow> (Fail e, fs) | (Crash, fs) \<Rightarrow> (Crash, fs) | (Reply _, fs) \<Rightarrow> k fs)"
  using assms by (cases r) (auto simp: acks_def split: reply.split)

text \<open>Every safe batch is acknowledged only when it is in the stream.\<close>

definition commits_keep :: "('s, 't, 'b) fuse_deps \<Rightarrow> ('s \<Rightarrow> kv_map) \<Rightarrow> 's fuse_env \<Rightarrow> string \<Rightarrow> ('s, 'b) landslide_fs \<Rightarrow> volume \<Rightarrow> bool" where
  "commits_keep D content E vol fs v \<longleftrightarrow>
     lf_backend fs = VolumeBackend v \<and> in_step D content vol fs \<and>
     (\<forall>k ds. commit_safe False (v_image v) ds \<longrightarrow> acks D content vol (fuse_commit D E k ds fs))"

lemma commits_keepD:
  assumes "commits_keep D content E vol fs v"
  shows "lf_backend fs = VolumeBackend v" "in_step D content vol fs"
    "commit_safe False (v_image v) ds \<Longrightarrow> acks D content vol (fuse_commit D E k ds fs)"
  using assms by (simp_all add: commits_keep_def)

lemma acks_parent:
  assumes "commits_keep D content E vol fs v" "\<And>path. acks D content vol (k path fs)"
  shows "acks D content vol (in_parent E i name fs k)"
  using assms commits_keepD(1) [OF assms(1)] by (simp add: in_parent_def split: option.split)

lemma acks_under:
  assumes "\<And>path. acks D content vol (k path)"
  shows "acks D content vol (under_parent i name fs k)"
  using assms by (simp add: under_parent_def split: option.split)

lemma acks_make_node:
  assumes keep: "commits_keep D content E vol fs v" and safe: "\<And>path. commit_safe False (v_image v) (ds path)"
  shows "acks D content vol (make_node D E i name ds fs)"
  unfolding make_node_def
proof (rule acks_parent [OF keep])
  fix path
  have "acks D content vol (case fuse_commit D E 0 (ds path) fs of (Fail e, fs) \<Rightarrow> (Fail e, fs) | (Crash, fs) \<Rightarrow> (Crash, fs)
      | (Reply _, fs) \<Rightarrow> reply_entry E 2 path fs)"
    by (rule acks_then [OF commits_keepD(3) [OF keep safe]]) (rule acks_entry)
  then show "acks D content vol (let (found, fs2) = fuse_image E 1 (has_node path) fs in if found then (Fail EEXIST, fs2)
      else (case fuse_commit D E 0 (ds path) fs2 of (Fail e, fs3) \<Rightarrow> (Fail e, fs3) | (Crash, fs3) \<Rightarrow> (Crash, fs3)
      | (Reply _, fs3) \<Rightarrow> reply_entry E 2 path fs3))"
    by (simp add: volume_image [OF commits_keepD(1) [OF keep]])
qed

lemma acks_setattr:
  assumes keep: "commits_keep D content E vol fs v"
  shows "acks D content vol (fuse_setattr D E fs i mode uid gid None mtime)"
proof -
  note v = commits_keepD(1) [OF keep]
  have "acks D content vol (setattr_finish D E i path mode uid gid mt fs)" for path mt
    unfolding setattr_finish_def Let_def
    by (rule acks_then) (use commits_keepD(2,3) [OF keep] acks_attr in auto)
  then show ?thesis by (simp add: fuse_setattr_def v setattr_size_def split: option.split)
qed

lemma acks_create:
  assumes keep: "commits_keep D content E vol fs v"
  shows "acks D content vol (fuse_create D E fs i name mode umask)"
  unfolding fuse_create_def
proof (rule acks_parent [OF keep])
  fix path
  note v = commits_keepD(1) [OF keep]
  let ?ds = "[Write path 0 (InlineData []), SetAttr path (Some (masked_mode mode umask)) (Some (fe_uid E)) (Some (fe_gid E)) None]"
  have new: "acks D content vol (case fuse_commit D E 0 ?ds fs of (Fail e, fs) \<Rightarrow> (Fail e, fs) | (Crash, fs) \<Rightarrow> (Crash, fs)
      | (Reply _, fs) \<Rightarrow> reply_created E mode umask path 0 fs)" if "look (v_image v) path = None"
    by (rule acks_then [OF commits_keepD(3) [OF keep]]) (simp_all add: that acks_created)
  have old: "acks D content vol (reply_created E mode umask path sz (snd (fuse_read_file D E 2 path fs)))" for sz
    by (rule acks_created, rule in_step_reads, rule commits_keepD(2) [OF keep])
  show "acks D content vol (let (node, fs2) = fuse_image E 1 (\<lambda>img. look img path) fs in case node of
      Some (File _ _) \<Rightarrow> (case fuse_read_file D E 2 path fs2 of (Crash, fs3) \<Rightarrow> (Crash, fs3)
            | (Reply (Some d), fs3) \<Rightarrow> reply_created E mode umask path (length d) fs3
            | (_, fs3) \<Rightarrow> reply_created E mode umask path 0 fs3)
      | Some (Dir _) \<Rightarrow> (Fail EISDIR, fs2) | Some (Symlink _ _) \<Rightarrow> (Fail EEXIST, fs2)
      | None \<Rightarrow> (case fuse_commit D E 0 ?ds fs2 of (Fail e, fs3) \<Rightarrow> (Fail e, fs3) | (Crash, fs3) \<Rightarrow> (Crash, fs3)
            | (Reply _, fs3) \<Rightarrow> reply_created E mode umask path 0 fs3))"
    using new old by (simp add: v case_prod_beta [of _ "fuse_read_file D E 2 path fs"] split: option.split node.split reply.split)
qed

lemma acks_remove:
  assumes keep: "commits_keep D content E vol fs v"
  shows "acks D content vol (fuse_unlink D E fs i name)" "acks D content vol (fuse_rmdir D E fs i name)"
proof -
  note v = commits_keepD(1) [OF keep] and c = commits_keepD(3) [OF keep, of "[Remove path]" for path, simplified]
  show "acks D content vol (fuse_unlink D E fs i name)"
    unfolding fuse_unlink_def by (rule acks_under) (simp add: v c split: option.split node.split)
  show "acks D content vol (fuse_rmdir D E fs i name)"
    unfolding fuse_rmdir_def by (rule acks_under) (simp add: v c)
qed

lemma acks_rename:
  assumes keep: "commits_keep D content E vol fs v" and safe: "request_safe fs (RenameReq i name j newname flags)"
  shows "acks D content vol (fuse_rename D E fs i name j newname flags)"
proof -
  note v = commits_keepD(1) [OF keep]
  have chk: "snd (rename_check E to fk tk fs) = fs" for to fk tk
    by (simp add: rename_check_def v split: option.split)
  have c: "in_step D content vol (snd (fuse_commit D E 0 [Rename a b] fs))"
    if "delta_allowed (Rename a b)" "fst (fuse_commit D E 0 [Rename a b] fs) = Reply u" for a b u
    using commits_keepD(3) [OF keep, of "[Rename a b]" 0] that by (simp add: acks_def)
  show ?thesis
    using safe
    by (auto simp: fuse_rename_def case_prod_beta Let_def v chk split: option.splits reply.splits intro: c)
qed

lemma acks_xattrs:
  assumes keep: "commits_keep D content E vol fs v"
  shows "acks D content vol (fuse_setxattr D E fs i name x)" "acks D content vol (fuse_removexattr D E fs i name)"
  using commits_keepD(3) [OF keep, of "[SetXattr path nm y]" for path nm y, simplified]
  by (simp_all add: fuse_setxattr_def fuse_removexattr_def volume_image [OF commits_keepD(1) [OF keep]] split: option.split bool.split)

lemma acks_flush:
  assumes keep: "commits_keep D content E vol fs v" "\<And>hs. commits_keep D content E vol (fs\<lparr>lf_handles := hs\<rparr>) v" and safe: "flushes_inline fs fh"
  shows "acks D content vol (flush_fh D E fh fs)"
proof -
  note v = commits_keepD(1) [OF keep(1)]
  have "acks D content vol (fuse_commit D E 1 (map (\<lambda>(offset, data). Write path offset (InlineData data)) exts @
      [SetAttr path None None None (Some t)]) (fs\<lparr>lf_handles := hs\<rparr>))" if "inline_or_new (look (v_image v) path)" for path exts t hs
    by (rule commits_keepD(3) [OF keep(2)], rule flush_safe [OF that])
  then show ?thesis
    using safe commits_keepD(2) [OF keep(1)]
    by (simp add: flush_fh_def flushes_inline_def path_of_def v backend_image_def Let_def split: option.split option.splits)
qed

lemma acks_release:
  assumes "acks D content vol (flush_fh D E fh fs)"
  shows "acks D content vol (fuse_release D E fs fh)"
  using assms by (auto simp: fuse_release_def acks_def case_prod_beta reply_empty_def split: reply.splits)

lemma acks_reads:
  assumes keep: "commits_keep D content E vol fs v"
  shows "acks D content vol (fuse_lookup E fs i name)" "acks D content vol (fuse_getattr E fs i)" "acks D content vol (fuse_readlink E fs i)"
    "acks D content vol (fuse_readdir E fs i offset)" "acks D content vol (fuse_open E fs i)"
    "acks D content vol (fuse_read D E fs i fh offset len)" "acks D content vol (fuse_write fs fh offset d)"
    "acks D content vol (fuse_getxattr E fs i name len)" "acks D content vol (fuse_listxattr E fs i len)"
proof -
  note v = commits_keepD(1) [OF keep] and step = commits_keepD(2) [OF keep]
  show "acks D content vol (fuse_lookup E fs i name)"
    unfolding fuse_lookup_def by (rule acks_parent [OF keep]) (simp add: v acks_entry step)
  show "acks D content vol (fuse_getattr E fs i)" by (simp add: fuse_getattr_def acks_attr step split: option.split)
  show "acks D content vol (fuse_readlink E fs i)" "acks D content vol (fuse_getxattr E fs i name len)" "acks D content vol (fuse_listxattr E fs i len)"
    by (auto simp: fuse_readlink_def fuse_getxattr_def fuse_listxattr_def v acks_def step split: option.split)
  show "acks D content vol (fuse_readdir E fs i offset)" "acks D content vol (fuse_open E fs i)" "acks D content vol (fuse_write fs fh offset d)"
    by (simp_all add: fuse_readdir_def fuse_open_def fuse_write_def v case_prod_beta Let_def step split: option.split node.split)
  show "acks D content vol (fuse_read D E fs i fh offset len)"
    by (simp add: fuse_read_def case_prod_beta Let_def in_step_reads step split: option.split reply.split)
qed

lemma acks_serve:
  assumes keep: "commits_keep D content E vol fs v" "\<And>hs. commits_keep D content E vol (fs\<lparr>lf_handles := hs\<rparr>) v" and safe: "request_safe fs req"
  shows "acks D content vol (serve D E fs req)"
  using safe acks_reads [OF keep(1)] acks_remove [OF keep(1)] acks_xattrs [OF keep(1)] acks_create [OF keep(1)] acks_setattr [OF keep(1)]
  by (cases req)
    (simp_all add: acks_rename [OF keep(1)] fuse_link_def fuse_symlink_def fuse_mkdir_def acks_make_node [OF keep(1)]
      fuse_flush_def fuse_fsync_def acks_flush [OF keep] acks_release del: request_safe.simps(2) split: option.split)

section \<open>The unwraps\<close>

text \<open>A commit keeps every node of the mutated image, so the node a handler made is there for the reply.\<close>

lemma look_writes: "\<forall>d \<in> set ds. is_blocks_write d \<Longrightarrow> look i p \<noteq> None \<Longrightarrow> look (foldl (fs_apply now) i ds) p \<noteq> None"
proof (induction ds arbitrary: i)
  case (Cons d ds)
  then obtain path offset refs where "d = Write path offset (BlocksData refs)" by (cases d rule: is_blocks_write.cases) auto
  with Cons.prems(2) have "look (fs_apply now i d) p \<noteq> None" by (simp add: apply_write_def Let_def)
  with Cons show ?case by simp
qed simp

lemma commit_keeps_nodes:
  assumes "volume_commit B C Q sha K E s b v = (r, v', s', b')" "look (v_image v) p \<noteq> None"
  shows "look (v_image v') p \<noteq> None"
  using assms look_writes [of "filter is_blocks_write ds" "v_image v" p "ve_now E" for ds]
  by (auto simp: volume_commit_def Let_def case_prod_beta split: if_splits sum.splits prod.splits)

lemma fuse_commit_node:
  assumes v: "lf_backend fs = VolumeBackend v" and n: "look (replay (v_image v) (clocked E k ds)) p \<noteq> None"
  obtains v' where "lf_backend (snd (fuse_commit D E k ds fs)) = VolumeBackend v'" "look (v_image v') p \<noteq> None"
proof -
  obtain r v' s' b' where c: "volume_commit (fd_db D) (fd_codec D) (fd_fs D) (fd_sha D) (fd_bucket D) (fe_volume E) (lf_store fs) (lf_bucket fs)
      (mutations v (clocked E k ds)) = (r, v', s', b')" by (metis prod_cases4)
  with that [of v'] commit_keeps_nodes [OF c, of p] n v show ?thesis by (simp add: fuse_commit_def mutations_eq)
qed

lemma attr_of_node: "look img path \<noteq> None \<Longrightarrow> attr_of img ino path \<noteq> None"
  by (auto simp: attr_of_def attr_parts_def split: option.split node.split)

lemma reply_entry_there:
  assumes "lf_backend fs = VolumeBackend v" "look (v_image v) path \<noteq> None"
  shows "\<exists>attr. fst (reply_entry E n path fs) = Reply (EntryAnswer attr)"
  using assms attr_of_node [OF assms(2)] volume_image [of "snd (ino_at path fs)" v]
  by (auto simp: reply_entry_def case_prod_beta Let_def split: option.split)

lemma make_node_replies:
  assumes v: "lf_backend fs = VolumeBackend v" and dir: "path_of fs parent = Some dir" "is_dir_at dir (v_image v)"
    and new: "look (v_image v) (join_path dir nm) = None" "look (replay (v_image v) (clocked E 0 (ds (join_path dir nm)))) (join_path dir nm) \<noteq> None"
    and ok: "fst (fuse_commit D E 0 (ds (join_path dir nm)) fs) = Reply u"
  shows "\<exists>attr. fst (make_node D E parent (Some nm) ds fs) = Reply (EntryAnswer attr)"
proof -
  obtain v' where v': "lf_backend (snd (fuse_commit D E 0 (ds (join_path dir nm)) fs)) = VolumeBackend v'"
    "look (v_image v') (join_path dir nm) \<noteq> None" by (rule fuse_commit_node [OF v new(2)])
  from reply_entry_there [OF v', of E 2] show ?thesis
    using dir new(1) ok by (simp add: make_node_def in_parent_def v has_node_def case_prod_beta)
qed

section \<open>An example mount\<close>

definition example_deps :: "(mem_db, mem_txn, mem_bucket) fuse_deps" where
  "example_deps = \<lparr>fd_db = mem_ops, fd_codec = mem_codec, fd_fs = mem_fs, fd_sha = example_sha, fd_bucket = mem_bucket_ops\<rparr>"

definition example_fuse_env :: "mem_db fuse_env" where
  "example_fuse_env =
     \<lparr>fe_volume = example_volume_env 0, fe_now = (\<lambda>_. 5), fe_times = (\<lambda>_. 0), fe_uid = 7, fe_gid = 8,
      fe_iter = (\<lambda>m. map (\<lambda>p. (p, the (m p))) (sorted_list_of_set (dom m))),
      fe_add = (\<lambda>buf e. (False, buf @ [e])), fe_sync = (\<lambda>_ r. r)\<rparr>"

definition example_fs :: "(mem_db, mem_bucket) landslide_fs" where
  "example_fs = with_backend (VolumeBackend example_volume) mem_empty []"

lemma example_fuse_simps [simp]:
  "fd_db example_deps = mem_ops" "fd_codec example_deps = mem_codec" "fd_fs example_deps = mem_fs" "fd_sha example_deps = example_sha"
  "fd_bucket example_deps = mem_bucket_ops" "fe_volume example_fuse_env = example_volume_env 0" "fe_uid example_fuse_env = 7"
  "fe_gid example_fuse_env = 8" "fe_sync example_fuse_env n r = r" "fe_now example_fuse_env k = 5"
  "lf_backend example_fs = VolumeBackend example_volume" "lf_store example_fs = mem_empty" "lf_bucket example_fs = []"
  "path_of example_fs (Suc 0) = Some ''/''"
  by (simp_all add: example_deps_def example_fuse_env_def example_fs_def with_backend_def path_of_def state_new_def)

lemma example_in_step: "in_step example_deps mem_content ''a'' example_fs" "commit_ready example_deps mem_content map_of example_fuse_env ''a'' example_fs"
  using example_vol_inv by (simp_all add: in_step_def commit_ready_def)

text \<open>A batch that needs no blocks is committed on the empty store.\<close>

lemma example_volume_image [simp]: "example_volume\<lparr>v_image := fs_image_default\<rparr> = example_volume"
  by (simp add: example_volume_def)

lemma example_commit_batch:
  assumes batch: "check_batch (map (\<lambda>d. new_event_new ''delta'' (show_fs_delta d)) ds) = Inr ()" "ds \<noteq> []"
    and plain: "upgrade example_sha mem_bucket_ops [] (replay img (clocked example_fuse_env k ds)) {} ds = ([], ds)"
    and fs: "lf_backend fs = VolumeBackend (example_volume\<lparr>v_image := img\<rparr>)" "lf_store fs = mem_empty" "lf_bucket fs = []"
  shows "fst (fuse_commit example_deps example_fuse_env k ds fs) = Reply ()"
proof -
  let ?evs = "map (\<lambda>d. new_event_new ''delta'' (show_fs_delta d)) ds"
  have ref: "refusal mem_codec (mem_content mem_empty) ''a'' NoStream (Some ''t'') ?evs = None" using batch(2) by (simp add: refusal_def)
  note q = mem_store.commit_appends_quiet [where s = mem_empty and stream = "''a''" and Es = mem_env and from_version = None and
      events = ?evs and expected = NoStream and token = "Some ''t''" and idx = True, OF batch(1)]
  have "append_room mem_codec (mem_content mem_empty) ''a'' None ?evs" by (rule log_room_append [OF _ batch(1)]) simp
  then obtain ticket s1 where c: "commit_appends mem_ops mem_codec mem_env mem_empty ''a'' NoStream None (Some ''t'') ?evs True = (Inr ticket, s1)"
    using q ref by (auto simp: append_start_def)
  have ev: "map_res (new_event_json (json_fs_delta mem_fs) ''delta'') ds = Inr ?evs"
    by (rule map_res_eq) (simp add: new_event_json_def mem_fs_def)
  show ?thesis
    using batch(2)
    by (simp add: fuse_commit_def fs volume_commit_def mutations_eq plain tail_expected_def append_with_token_def c ev
        io_result_def Let_def)
qed

lemma example_mkdir:
  obtains attr fs' where "serve example_deps example_fuse_env example_fs (MkdirReq 1 (Some ''d'') 511 18) = (Reply (EntryAnswer attr), fs')"
proof -
  have example_path: "join_path ''/'' ''d'' = ''/d''" by (simp add: join_path_def)
  let ?ds = "[Mkdir ''/d'', SetAttr ''/d'' (Some (masked_mode 511 18)) (Some 7) (Some 8) None]"
  have "masked_mode 511 18 = 493" by (simp add: masked_mode_def)
  then have "check_batch (map (\<lambda>d. new_event_new ''delta'' (show_fs_delta d)) ?ds) = Inr ()"
    by (simp add: check_batch_def MAX_BATCH_RECORDS_def MAX_RECORD_BYTES_def new_event_new_def net_enc_def net_field_def show_opt_def show_nat.simps)
  then have c: "fst (fuse_commit example_deps example_fuse_env 0 ?ds example_fs) = Reply ()" by (rule example_commit_batch [where img = fs_image_default]) simp_all
  obtain r fs' where s: "serve example_deps example_fuse_env example_fs (MkdirReq 1 (Some ''d'') 511 18) = (r, fs')" by fastforce
  let ?mk = "\<lambda>path. [Mkdir path, SetAttr path (Some (masked_mode 511 18)) (Some 7) (Some 8) None]"
  have "\<exists>attr. fst (make_node example_deps example_fuse_env 1 (Some ''d'') ?mk example_fs) = Reply (EntryAnswer attr)"
    by (rule make_node_replies [where dir = "''/''" and u = "()" and v = example_volume], unfold example_path)
      (simp_all add: c is_dir_at_def fs_image_default_def clocked_def apply_mkdir_def meta_mut_def)
  then obtain attr where "r = Reply (EntryAnswer attr)" using s by (auto simp: fuse_mkdir_def)
  with s that show ?thesis by blast
qed

section \<open>Property\<close>



end
