(* ===== verification/Fuse_Props.thy ===== *)
theory Fuse_Props
  imports Fuse_Durable
begin

text \<open>
  The properties of the FUSE adapter: consistent inode tables in every run, replica mounts that
  write nothing, bytes that come back after a flush, and the cases in which a handler does not do
  what its caller expects (stale handles, overlays before the read offset, block-backed files, a
  sync in the middle of a lookup).
\<close>

section \<open>Runs\<close>

text \<open>A session of a mount: the requests it served, each in its own environment, with numbers left for new inodes.\<close>

inductive session :: "('s, 't, 'b) fuse_deps \<Rightarrow> ('s, 'b) landslide_fs \<Rightarrow> request list \<Rightarrow> ('s, 'b) landslide_fs \<Rightarrow> bool"
  for D :: "('s, 't, 'b) fuse_deps" and fs0 :: "('s, 'b) landslide_fs" where
  opened: "session D fs0 [] fs0"
| served: "session D fs0 (reqs @ [req]) fs'"
  if "session D fs0 reqs fs" "names_ok req" "iterates (fe_iter E)" "numbers_left (Suc N) fs" "sees_at_most N E fs"
    "serve D E fs req = (r, fs')" "r \<noteq> Crash"

lemma session_tables: "session D fs0 reqs fs \<Longrightarrow> tables_ok fs0 \<Longrightarrow> tables_ok fs"
proof (induction rule: session.induct)
  case (served reqs fs req E N r fs')
  then have "tables_ok (snd (serve D E fs req))" by (intro serve_ok) (simp_all add: roomy_def)
  with served.hyps show ?case by simp
qed

lemma tables_ok_new: "tables_ok (with_backend bk s b)"
  by (simp add: tables_ok_def with_backend_def ino_ok_new)

section \<open>Replica mounts\<close>

definition on_replica :: "('s, 'b) landslide_fs \<Rightarrow> bool" where
  "on_replica fs \<longleftrightarrow> (\<exists>rp. lf_backend fs = ReplicaBackend rp)"

lemma on_replica_same [simp]:
  "on_replica (lock_backend E n fs) = on_replica fs" "on_replica (snd (fuse_image E n f fs)) = on_replica fs"
  "on_replica (fs\<lparr>lf_handles := hs\<rparr>) = on_replica fs"
  by (auto simp: on_replica_def fuse_image_def lock_backend_def Let_def split: backend.split)

lemma replica_commit [simp]: "on_replica fs \<Longrightarrow> fuse_commit D E k ds fs = (Fail EROFS, fs)"
  by (auto simp: on_replica_def fuse_commit_def)

text \<open>
  The requests that ask for a change of the file system. A flush does when extents are staged, a
  create unless it finds a file of that name (at its second lock). A write is not one: it stages its
  bytes in the handle and changes nothing before the flush.
\<close>

definition opens_file :: "'s fuse_env \<Rightarrow> ('s, 'b) landslide_fs \<Rightarrow> u64 \<Rightarrow> os_str \<Rightarrow> bool" where
  "opens_file E fs parent name \<longleftrightarrow>
     (case (name, path_of fs parent) of
        (Some nm, Some dir) \<Rightarrow>
          (case map_of (nodes (backend_image (lf_backend (lock_backend E 1 (lock_backend E 0 fs))))) (join_path dir nm) of
             Some (File _ _) \<Rightarrow> True | _ \<Rightarrow> False)
      | _ \<Rightarrow> False)"

fun mutation :: "'s fuse_env \<Rightarrow> ('s, 'b) landslide_fs \<Rightarrow> request \<Rightarrow> bool" where
  "mutation E fs (Setattr ino mode uid gid sz mtime) \<longleftrightarrow> mode \<noteq> None \<or> uid \<noteq> None \<or> gid \<noteq> None \<or> sz \<noteq> None \<or> mtime \<noteq> None"
| "mutation E fs (SymlinkReq parent name target) \<longleftrightarrow> True"
| "mutation E fs (MkdirReq parent name mode umask) \<longleftrightarrow> True"
| "mutation E fs (Create parent name mode umask) \<longleftrightarrow> \<not> opens_file E fs parent name"
| "mutation E fs (Unlink parent name) \<longleftrightarrow> True"
| "mutation E fs (Rmdir parent name) \<longleftrightarrow> True"
| "mutation E fs (RenameReq parent name newparent newname flags) \<longleftrightarrow> True"
| "mutation E fs (SetxattrReq ino name v) \<longleftrightarrow> True"
| "mutation E fs (Removexattr ino name) \<longleftrightarrow> True"
| "mutation E fs (Flush fh) \<longleftrightarrow> (\<exists>h. lf_handles fs fh = Some h \<and> h_extents h \<noteq> [] \<and> path_of fs (h_ino h) \<noteq> None)"
| "mutation E fs (Fsync fh) \<longleftrightarrow> (\<exists>h. lf_handles fs fh = Some h \<and> h_extents h \<noteq> [] \<and> path_of fs (h_ino h) \<noteq> None)"
| "mutation E fs (Release fh) \<longleftrightarrow> (\<exists>h. lf_handles fs fh = Some h \<and> h_extents h \<noteq> [] \<and> path_of fs (h_ino h) \<noteq> None)"
| "mutation E fs _ \<longleftrightarrow> False"

text \<open>
  A refusal: \<open>EROFS\<close>, or the error that the same request gets from a read-write mount that shows the
  same image (\<open>chk\<close>), so one of the checks a handler makes before it commits.
\<close>

definition refused :: "answer reply option \<Rightarrow> answer reply \<times> ('s, 'b) landslide_fs \<Rightarrow> bool" where
  "refused chk out \<longleftrightarrow> (\<exists>e. fst out = Fail e \<and> (chk = None \<or> e = EROFS \<or> chk = Some (Fail e)))"

lemma refused_EROFS [simp]: "refused chk (Fail EROFS, fs)" "refused chk (reply_empty (Fail EROFS, fs))"
  by (simp_all add: refused_def reply_empty_def)

lemma refused_empty: "fst r = Fail EROFS \<Longrightarrow> refused chk (reply_empty r)"
  by (cases r) simp

lemma refused_flush:
  assumes "on_replica fs" "mutation E' fs (Flush fh)"
  shows "fst (flush_fh D E fh fs) = Fail EROFS"
  using assms by (auto simp: flush_fh_def Let_def path_of_def)

lemma replica_truncate [simp]: "on_replica fs \<Longrightarrow> fuse_truncate D E k path n fs = (Fail EROFS, fs)"
  by (auto simp: on_replica_def fuse_truncate_def)

lemma rename_check_replica [simp]: "on_replica (snd (rename_check E to fk tk fs)) = on_replica fs"
  by (simp add: rename_check_def case_prod_beta Let_def split: option.split)

text \<open>Whatever the background sync does, a mutation is refused.\<close>

lemma refused_mutations:
  assumes rep: "on_replica fs" and mut: "mutation E fs req"
  shows "refused None (serve D E fs req)"
proof (cases req)
  case (Create i name mode umask)
  with rep mut show ?thesis
    by (auto simp: fuse_create_def in_parent_def opens_file_def fuse_image_def refused_def Let_def
        split: option.split node.split)
next
  case (Setattr i mode uid gid sz mtime)
  with rep mut show ?thesis
    by (auto simp: fuse_setattr_def setattr_size_def setattr_finish_def setattr_mtime_def case_prod_beta Let_def refused_def
        split: option.split)
next
  case (Release fh)
  with rep mut refused_flush [of fs E fh D E] show ?thesis
    by (simp add: fuse_release_def case_prod_beta refused_def reply_empty_def split: reply.split)
next
  case (Flush fh)
  with rep mut show ?thesis by (simp add: fuse_flush_def refused_empty [OF refused_flush])
next
  case (Fsync fh)
  with rep mut show ?thesis by (simp add: fuse_fsync_def refused_empty [OF refused_flush])
qed (use rep mut in
  \<open>simp_all add: fuse_symlink_def fuse_mkdir_def make_node_def in_parent_def fuse_unlink_def fuse_rmdir_def under_parent_def
    fuse_setxattr_def fuse_removexattr_def fuse_rename_def case_prod_beta Let_def refused_def reply_empty_def
    split: option.split node.split bool.split\<close>)

text \<open>With a replica that stands still, the error is \<open>EROFS\<close> or a check that a read-write mount makes too.\<close>

lemma still_image:
  assumes "lf_backend fs = ReplicaBackend rp" "\<And>n q. fe_sync E n q = q"
  shows "lock_backend E n fs = fs" "fuse_image E n f fs = (f (rp_image rp), fs)"
  using assms by (simp_all add: lock_backend_def fuse_image_def backend_image_def)

lemma mount_image: "fuse_image E n f (fs\<lparr>lf_backend := VolumeBackend v\<rparr>) = (f (v_image v), fs\<lparr>lf_backend := VolumeBackend v\<rparr>)"
  by (simp add: lock_backend_def fuse_image_def backend_image_def)

lemma path_of_backend [simp]: "path_of (fs\<lparr>lf_backend := bk\<rparr>) ino = path_of fs ino"
  by (simp add: path_of_def)

lemma erofs_or_check:
  assumes rep: "lf_backend fs = ReplicaBackend rp" and still: "\<And>n q. fe_sync E n q = q" and mut: "mutation E fs req"
    and v: "v_image v = rp_image rp"
  shows "refused (Some (fst (serve D E (fs\<lparr>lf_backend := VolumeBackend v\<rparr>) req))) (serve D E fs req)"
proof -
  have on: "on_replica fs" using rep by (simp add: on_replica_def)
  note img = still_image [OF rep still] mount_image v
  show ?thesis
  proof (cases req)
    case (Create i name mode umask)
    with on mut show ?thesis
      by (auto simp: fuse_create_def in_parent_def opens_file_def img refused_def Let_def backend_image_def rep
          split: option.split node.split)
  next
    case (Setattr i mode uid gid sz mtime)
    with on mut show ?thesis
      by (auto simp: fuse_setattr_def setattr_size_def setattr_finish_def setattr_mtime_def img case_prod_beta Let_def refused_def
          split: option.split)
  next
    case (Release fh)
    with on mut refused_flush [of fs E fh D E] show ?thesis
      by (simp add: fuse_release_def case_prod_beta refused_def reply_empty_def split: reply.split)
  next
    case (Flush fh)
    with on mut show ?thesis by (simp add: fuse_flush_def refused_empty [OF refused_flush])
  next
    case (Fsync fh)
    with on mut show ?thesis by (simp add: fuse_fsync_def refused_empty [OF refused_flush])
  next
    case (RenameReq i name j newname flags)
    with on show ?thesis
      by (auto simp: fuse_rename_def rename_check_def img Let_def refused_def split: option.split)
  qed (use on mut in
    \<open>auto simp: fuse_symlink_def fuse_mkdir_def make_node_def in_parent_def fuse_unlink_def fuse_rmdir_def under_parent_def
      fuse_setxattr_def fuse_removexattr_def img Let_def refused_def reply_empty_def
      split: option.split node.split bool.split\<close>)
qed

section \<open>Staged writes\<close>

text \<open>A commit that upgrades nothing leaves the mutated image.\<close>

lemma commit_image_same:
  assumes "volume_commit B C Q sha K E s b v = (r, v', s', b')" "filter is_blocks_write (snd (upgrade sha K b (v_image v) {} (v_pending v))) = []"
  shows "v_image v' = v_image v"
  using assms by (auto simp: volume_commit_def Let_def case_prod_beta split: if_splits sum.splits prod.splits)

text \<open>A flush of one staged extent: the batch it commits on the handle of the volume.\<close>

lemma flush_one:
  assumes v: "lf_backend fs = VolumeBackend v" and h: "lf_handles fs fh = Some h" "h_extents h = [(off, d)]" "path_of fs (h_ino h) = Some path"
    and ok: "flush_fh D E fh fs = (r, fs')"
  obtains x v' s' b' where
    "volume_commit (fd_db D) (fd_codec D) (fd_fs D) (fd_sha D) (fd_bucket D) (fe_volume E) (lf_store fs) (lf_bucket fs)
       (mutations v [(fe_now E 1, Write path off (InlineData d)), (fe_now E 2, SetAttr path None None None (Some (fe_now E 0)))]) = (x, v', s', b')"
    "fs' = fs\<lparr>lf_handles := (lf_handles fs)(fh \<mapsto> h\<lparr>h_extents := []\<rparr>), lf_backend := VolumeBackend v', lf_store := s', lf_bucket := b'\<rparr>"
    "r = io_result x"
proof -
  let ?fs1 = "fs\<lparr>lf_handles := (lf_handles fs)(fh \<mapsto> h\<lparr>h_extents := []\<rparr>)\<rparr>"
  let ?tds = "[(fe_now E 1, Write path off (InlineData d)), (fe_now E 2, SetAttr path None None None (Some (fe_now E 0)))]"
  have p: "path_of ?fs1 (h_ino h) = Some path" using h(3) by (simp add: path_of_def)
  obtain x v' s' b' where c: "volume_commit (fd_db D) (fd_codec D) (fd_fs D) (fd_sha D) (fd_bucket D) (fe_volume E) (lf_store fs) (lf_bucket fs)
      (mutations v ?tds) = (x, v', s', b')" by (metis prod_cases4)
  have "flush_fh D E fh fs = (io_result x, ?fs1\<lparr>lf_backend := VolumeBackend v', lf_store := s', lf_bucket := b'\<rparr>)"
    using c by (simp add: flush_fh_def h(1,2) p Let_def fuse_commit_def v clocked_def numeral_2_eq_2)
  with ok c that show ?thesis by simp
qed

text \<open>The file after a staged extent was applied to an image.\<close>

definition inline_content :: "node option \<Rightarrow> bytes" where
  "inline_content n = (case n of Some (File (Inline c) _) \<Rightarrow> c | _ \<Rightarrow> [])"

lemma staged_file:
  "\<exists>m. look (replay i [(t1, Write path off (InlineData d)), (t2, SetAttr path None None None t)]) path =
     Some (File (Inline (splice (inline_content (look i path)) off d)) m)"
  by (auto simp: apply_write_def meta_mut_def Let_def inline_content_def split: option.split node.split content.split)

lemma upgrade_staged:
  assumes "look img path = Some (File (Inline c) m)"
  shows "upgrade sha K b img {} [Write path off x, SetAttr path md u g t] =
     (if length c \<le> BLOCK_CHUNK then ([], [Write path off x, SetAttr path md u g t])
      else (missing_blocks sha K b c, [Write path 0 (BlocksData (blocks_of sha c)), SetAttr path md u g t]))"
  using assms by simp

lemma commit_chunked:
  assumes "volume_commit B C Q sha K E s b v = (Inr u, v', s', b')" "v_pending v = [d1, d2]"
    and "upgrade sha K b (v_image v) {} [d1, d2] = (us, [Write path 0 (BlocksData refs), SetAttr path md ui g t])"
  shows "\<exists>w m. upload_blocks K b us = (Inr w, b') \<and> look (v_image v') path = Some (File (Blocks refs (blocks_size refs)) m)" "v_blocks v' = v_blocks v"
  using assms by (auto simp: volume_commit_def Let_def apply_write_def split: sum.splits prod.splits)

lemma commit_blocks_cache:
  assumes "volume_commit B C Q sha K E s b v = (r, v', s', b')"
  shows "v_blocks v' = v_blocks v"
  using assms by (auto simp: volume_commit_def Let_def case_prod_beta split: if_splits sum.splits prod.splits)

lemma splice_slice: "take (length d) (drop off (splice c off d)) = d"
  by (simp add: splice_def resize_def Let_def)

lemma length_splice: "length (splice c off d) = max (length c) (off + length d)"
  by (simp add: splice_def resize_def Let_def)

text \<open>After the commit of a staged extent, the range it covers reads back.\<close>

lemma staged_then_read:
  assumes bk: "bucket K objects" and sha: "distinct_digests sha K" "blocks_addressed sha K objects b"
    and cache: "\<forall>hash x. v_blocks v hash = Some x \<longrightarrow> objects b (block_path K hash) = Some x"
    and size: "length c0 < 2 ^ 64" "off + length d < 2 ^ 64"
    and c: "volume_commit B C Q sha K E s b (mutations v [(t1, Write path off (InlineData d)), (t2, SetAttr path None None None t)]) = (Inr u, v', s', b')"
    and v: "v_pending v = []"
    and n: "look (v_image (mutations v [(t1, Write path off (InlineData d)), (t2, SetAttr path None None None t)])) path = Some (File (Inline (splice c0 off d)) m)"
  shows "\<exists>c' m' cache'. look (v_image v') path = Some (File c' m') \<and> read_content K b' (v_blocks v') c' off (length d) = (Inr d, cache')"
proof -
  let ?tds = "[(t1, Write path off (InlineData d)), (t2, SetAttr path None None None t)]" and ?c = "splice c0 off d"
  have pend: "v_pending (mutations v ?tds) = [Write path off (InlineData d), SetAttr path None None None t]" using v by (simp add: mutations_eq)
  note up = upgrade_staged [OF n, of sha K b off "InlineData d" None None None t, folded pend]
  have blk: "v_blocks v' = v_blocks v" using commit_blocks_cache [OF c] by (simp add: mutations_eq)
  show ?thesis
  proof (cases "length ?c \<le> BLOCK_CHUNK")
    case True
    then have "v_image v' = v_image (mutations v ?tds)" using up pend by (intro commit_image_same [OF c]) simp
    moreover have "read_content K b' (v_blocks v') (Inline ?c) off (length d) = (Inr d, v_blocks v')"
      using size splice_slice [of d off c0] by (simp add: read_content_def slice_of_def length_splice Let_def max_def min_def)
    ultimately show ?thesis using n by metis
  next
    case False
    then have "upgrade sha K b (v_image (mutations v ?tds)) {} [Write path off (InlineData d), SetAttr path None None None t] =
        (missing_blocks sha K b ?c, [Write path 0 (BlocksData (blocks_of sha ?c)), SetAttr path None None None t])"
      using up pend by simp
    from commit_chunked(1) [OF c pend this] obtain w m' where
      st: "upload_blocks K b (missing_blocks sha K b ?c) = (Inr w, b')"
        "look (v_image v') path = Some (File (Blocks (blocks_of sha ?c) (blocks_size (blocks_of sha ?c))) m')" by blast
    have "objects b' q = objects b q" if "objects b q \<noteq> None" for q
      using bucket.upload_stores [OF bk st(1) [unfolded missing_blocks_def] sha] that by blast
    then have "\<forall>hash x. v_blocks v' hash = Some x \<longrightarrow> objects b' (block_path K hash) = Some x" using cache unfolding blk by fastforce
    from bucket.read_chunked [OF bk sha st(1) this, of off "length d" "blocks_size (blocks_of sha ?c)"] size obtain cache' where
      "read_content K b' (v_blocks v') (Blocks (blocks_of sha ?c) (blocks_size (blocks_of sha ?c))) off (length d) = (Inr (take (length d) (drop off ?c)), cache')"
      by (auto simp: length_splice)
    then show ?thesis using st(2) by (auto simp: splice_slice)
  qed
qed

text \<open>The overlay of an extent that does not start before the read offset is the splice, seen through the range.\<close>

lemma overlay_splice:
  assumes "buf = take n (drop offset c)" "length buf = n" "offset \<le> off"
  shows "overlay_extent offset buf (off, d) = take n (drop offset (Fs_Image.splice c off d))"
proof (rule nth_equalityI)
  have lc: "n + offset \<le> length c \<or> n = 0" using assms(1,2) by auto
  then show len: "length (overlay_extent offset buf (off, d)) = length (take n (drop offset (Fs_Image.splice c off d)))"
    using assms(2) by (auto simp: overlay_extent_def length_splice Let_def)
  fix i assume "i < length (overlay_extent offset buf (off, d))"
  then have i: "i < n" using len by simp
  then have ic: "offset + i < length c" using lc by auto
  have buf: "buf ! i = c ! (offset + i)" using assms(1) i ic by simp
  have sp: "Fs_Image.splice c off d ! (offset + i) = (if off \<le> offset + i \<and> offset + i < off + length d then d ! (offset + i - off) else c ! (offset + i))"
    using ic by (auto simp: Fs_Image.splice_def resize_def Let_def nth_append)
  show "overlay_extent offset buf (off, d) ! i = take n (drop offset (Fs_Image.splice c off d)) ! i"
    using i ic assms(2,3) sp by (auto simp: overlay_extent_def Let_def nth_append length_splice buf min_def add.commute)
qed

lemma overlay_all:
  assumes "buf = take n (drop offset c)" "length buf = n" "\<forall>(off, d) \<in> set exts. offset \<le> off"
  shows "foldl (overlay_extent offset) buf exts = take n (drop offset (foldl (\<lambda>c (off, d). Fs_Image.splice c off d) c exts))"
  using assms
proof (induction exts arbitrary: buf c)
  case (Cons e exts)
  obtain off d where e: "e = (off, d)" by (cases e)
  have eq: "overlay_extent offset buf e = take n (drop offset (Fs_Image.splice c off d))"
    unfolding e by (rule overlay_splice [OF Cons.prems(1,2)]) (use Cons.prems(3) in \<open>simp add: e\<close>)
  moreover have "length (take n (drop offset (Fs_Image.splice c off d))) = n" using Cons.prems(1,2) by (auto simp: length_splice)
  ultimately show ?case using Cons.IH [OF eq] Cons.prems(3) by (simp add: e)
qed simp

section \<open>Directory listings\<close>

text \<open>The names of a directory: one path component below it.\<close>

definition child_names :: "fs_image \<Rightarrow> string \<Rightarrow> string set" where
  "child_names img dir = {n. n \<noteq> [] \<and> CHR ''/'' \<notin> set n \<and> look img (join_path dir n) \<noteq> None}"

lemma child_steps:
  assumes "bt_ok out"
  shows "bt_ok (foldl (child_step pre) out es) \<and>
    fst ` set (foldl (child_step pre) out es) = fst ` set out \<union> {n. n \<noteq> [] \<and> CHR ''/'' \<notin> set n \<and> pre @ n \<in> fst ` set es}"
  using assms
proof (induction es arbitrary: out)
  case (Cons e es)
  have "bt_ok (child_step pre out e)" using Cons.prems by (simp add: child_step_def Let_def)
  moreover have "fst ` set (child_step pre out e) = fst ` set out \<union> {n. n \<noteq> [] \<and> CHR ''/'' \<notin> set n \<and> pre @ n = fst e}"
    by (cases "prefix pre (fst e)") (auto simp: child_step_def Let_def fst_set_bt_insert elim: prefixE intro: prefixI [OF sym])
  ultimately show ?case using Cons.IH [of "child_step pre out e"] by auto
qed simp

lemma children_names:
  shows "map fst (children img dir) = sorted_list_of_set (child_names img dir)"
proof -
  let ?pre = "if dir = ''/'' then ''/'' else dir @ ''/''"
  have j: "join_path dir n = ?pre @ n" for n by (simp add: join_path_def)
  have c: "bt_ok (children img dir)" "fst ` set (children img dir) = child_names img dir"
    using child_steps [of "[]" ?pre "nodes img"] by (auto simp: children_def child_names_def j map_of_eq_None_iff)
  then have "sorted (map fst (children img dir))" "distinct (map fst (children img dir))"
    by (auto simp: bt_ok_def strict_sorted_iff)
  from sorted_list_of_set.idem_if_sorted_distinct [OF this] c(2) show ?thesis by simp
qed

lemma numbered_names:
  "map (\<lambda>(_, i, _, n). (i, n)) (map (\<lambda>(i, (c, k, n)). (c, i + 1, k, n)) (enumerate m xs)) = enumerate (Suc m) (map (\<lambda>(_, _, n). n) xs)"
  by (induction xs arbitrary: m) auto

lemma child_inos_names: "map (\<lambda>(_, _, n). n) (fst (child_inos dir kids fs)) = map fst kids"
  by (induction kids arbitrary: fs) (auto simp: case_prod_beta Let_def)

text \<open>One call of the loop when every entry fits.\<close>

lemma add_one:
  assumes "\<And>buf e. add buf e = (False, buf @ [e])"
  shows "add_entries add [] es = take 1 es"
  using assms by (cases es) simp_all

section \<open>Properties\<close>

text \<open>C15: the inode tables are consistent in every run: whatever requests a mount served, the root is inode 1, every path that has
  an inode is the path of that inode, so that two paths never share one, and every open handle refers to a known inode;
  renames keep this in any iteration order of the hash map.\<close>

theorem inode_tables_consistent:
  assumes "session D (with_backend bk s b) reqs fs"
  shows "path_of fs 1 = Some ''/'' \<and>
     (\<forall>p i. st_ino_of (lf_state fs) p = Some i \<longrightarrow> path_of fs i = Some p) \<and> inj_on (st_ino_of (lf_state fs)) (dom (st_ino_of (lf_state fs))) \<and>
     (\<forall>fh h. lf_handles fs fh = Some h \<longrightarrow> fh < lf_next_fh fs \<and> path_of fs (h_ino h) \<noteq> None)"
proof -
  have ok: "tables_ok fs" by (rule session_tables [OF assms tables_ok_new])
  note i = tables_okD(1) [OF ok, unfolded ino_ok_def]
  have "inj_on (st_ino_of (lf_state fs)) (dom (st_ino_of (lf_state fs)))"
    using i by (intro inj_onI) (metis domD option.inject)
  with i tables_okD(2,3) [OF ok] show ?thesis by (simp add: path_of_def)
qed

lemma example_iterates: "iterates (fe_iter example_fuse_env)"
  by (auto simp: iterates_def example_fuse_env_def distinct_map inj_on_def dom_def image_iff)

lemma example_room: "numbers_left 2 example_fs" "sees_at_most 1 example_fuse_env example_fs"
  by (simp_all add: numbers_left_def sees_at_most_def example_fs_def with_backend_def state_new_def fs_image_default_def)

theorem inode_tables_consistent_witness:
  "\<exists>fs. session example_deps example_fs [MkdirReq 1 (Some ''d'') 511 18] fs \<and> path_of fs 1 = Some ''/'' \<and>
     inj_on (st_ino_of (lf_state fs)) (dom (st_ino_of (lf_state fs)))"
proof -
  let ?req = "MkdirReq 1 (Some ''d'') 511 18"
  obtain attr fs where s: "serve example_deps example_fuse_env example_fs ?req = (Reply (EntryAnswer attr), fs)" by (rule example_mkdir)
  have "session example_deps example_fs ([] @ [?req]) fs"
    by (rule session.served [OF session.opened _ example_iterates _ example_room(2) s]) (use example_room(1) in \<open>simp_all add: numeral_2_eq_2\<close>)
  with inode_tables_consistent [of example_deps "VolumeBackend example_volume" mem_empty "[]" "[?req]" fs] show ?thesis
    by (auto simp: example_fs_def)
qed

text \<open>C24: a replica mount is read-only: no request writes to the store or the bucket, and the view changes through the
  background sync only. A request that asks for a change (an attribute change, a symlink, a directory, a create of a name
  with no file, a removal, a rename, an extended attribute, a flush, fsync or release with staged extents) is answered with
  an error; with a replica that stands still that error is \<open>EROFS\<close>, or the one that a read-write mount of the same image
  answers with. A write to an open handle is the exception: the handler takes it, stages it, and the
  flush that follows is the request that fails with \<open>EROFS\<close>.\<close>

theorem replica_mount_read_only:
  assumes "lf_backend fs = ReplicaBackend rp" "serve D E fs req = (r, fs')"
  shows "lf_store fs' = lf_store fs \<and> lf_bucket fs' = lf_bucket fs \<and>
     (\<exists>rp'. lf_backend fs' = ReplicaBackend rp' \<and>
        ((\<forall>n q. fe_sync E n q = q) \<longrightarrow> rp_image rp' = rp_image rp \<and> rp_cursor rp' = rp_cursor rp)) \<and>
     (mutation E fs req \<longrightarrow> (\<exists>e. r = Fail e)) \<and>
     ((\<forall>n q. fe_sync E n q = q) \<longrightarrow> mutation E fs req \<longrightarrow> (\<forall>v. v_image v = rp_image rp \<longrightarrow>
        r = Fail EROFS \<or> fst (serve D E (fs\<lparr>lf_backend := VolumeBackend v\<rparr>) req) = r)) \<and>
     (\<forall>fh off d h E'. req = WriteReq fh off d \<longrightarrow> lf_handles fs fh = Some h \<longrightarrow> path_of fs (h_ino h) \<noteq> None \<longrightarrow>
        r = Reply (WrittenAnswer (length d mod 2 ^ 32)) \<and> fst (serve D E' fs' (Flush fh)) = Fail EROFS)"
proof -
  let ?w = "(rp_vol rp, rp_image rp, rp_cursor rp)"
  have "read_only E (lf_store fs) (lf_bucket fs) ?w fs" using assms(1) by (simp add: read_only_def)
  from ro.serve_keeps [OF this, of D req] have "read_only E (lf_store fs) (lf_bucket fs) ?w fs'" by (simp add: assms(2))
  moreover have on: "on_replica fs" using assms(1) by (simp add: on_replica_def)
  moreover have "r = Fail EROFS \<or> fst (serve D E (fs\<lparr>lf_backend := VolumeBackend v\<rparr>) req) = r"
    if "\<forall>n q. fe_sync E n q = q" "mutation E fs req" "v_image v = rp_image rp" for v
    using erofs_or_check [OF assms(1) _ that(2,3), of D] that(1) assms(2) by (auto simp: refused_def)
  moreover have "r = Reply (WrittenAnswer (length d mod 2 ^ 32)) \<and> fst (serve D E' fs' (Flush fh)) = Fail EROFS"
    if w: "req = WriteReq fh off d" "lf_handles fs fh = Some h" "path_of fs (h_ino h) \<noteq> None" for fh off d h E'
  proof -
    have fs': "r = Reply (WrittenAnswer (length d mod 2 ^ 32))"
      "fs' = fs\<lparr>lf_handles := (lf_handles fs)(fh \<mapsto> h\<lparr>h_extents := h_extents h @ [(off, d)]\<rparr>)\<rparr>"
      using assms(2) w(1,2) by (simp_all add: fuse_write_def)
    have "fst (flush_fh D E' fh fs') = Fail EROFS"
      using on w(3) by (intro refused_flush [where E' = E]) (simp_all add: fs'(2) path_of_def)
    then show ?thesis using fs'(1) by (simp add: fuse_flush_def reply_empty_def case_prod_beta)
  qed
  ultimately show ?thesis
    using refused_mutations [of fs E req D] assms(2) by (auto simp: read_only_def refused_def)
qed

theorem replica_mount_read_only_witness:
  "\<exists>r fs'. serve example_deps example_fuse_env (with_backend (ReplicaBackend example_replica) mem_empty example_segments)
       (Create 1 (Some ''d'') 511 18) = (r, fs') \<and> (\<exists>e. r = Fail e) \<and> lf_store fs' = mem_empty"
proof -
  let ?fs = "with_backend (ReplicaBackend example_replica) mem_empty example_segments"
  obtain r fs' where s: "serve example_deps example_fuse_env ?fs (Create 1 (Some ''d'') 511 18) = (r, fs')" by fastforce
  have fs: "lf_backend ?fs = ReplicaBackend example_replica" "lf_store ?fs = mem_empty" by (simp_all add: with_backend_def)
  have "\<not> opens_file example_fuse_env ?fs 1 (Some ''d'')"
    by (simp add: opens_file_def with_backend_def path_of_def state_new_def lock_backend_def example_fuse_env_def backend_image_def
        example_replica_def fs_image_default_def)
  with replica_mount_read_only [OF fs(1) s] s show ?thesis by (auto simp: fs(2))
qed

text \<open>C16: bytes come back: on a volume mount, bytes written to a handle of an inline or missing file and flushed are what a read
  of the same range returns, whether the file stays inline or the commit moved it to blocks in the bucket.\<close>

theorem write_flush_read:
  assumes bk: "bucket (fd_bucket D) objects" and sha: "distinct_digests (fd_sha D) (fd_bucket D)" "blocks_addressed (fd_sha D) (fd_bucket D) objects (lf_bucket fs)"
    and v: "lf_backend fs = VolumeBackend v" "v_pending v = []"
    and cache: "\<forall>hash x. v_blocks v hash = Some x \<longrightarrow> objects (lf_bucket fs) (block_path (fd_bucket D) hash) = Some x"
    and h: "lf_handles fs fh = Some h" "h_extents h = []" "path_of fs (h_ino h) = Some path"
    and file_ok: "inline_or_new (look (v_image v) path)"
    and size: "length (inline_content (look (v_image v) path)) < 2 ^ 64" "off + length d < 2 ^ 64" "length d < 2 ^ 32"
    and written: "fuse_write fs fh off d = (r, fs1)" and flushed: "fuse_flush D E fs1 fh = (Reply a, fs2)"
  shows "r = Reply (WrittenAnswer (length d)) \<and> (\<exists>fs3. fuse_read D E2 fs2 (h_ino h) fh off (length d) = (Reply (DataAnswer d), fs3))"
proof -
  let ?h1 = "h\<lparr>h_extents := [(off, d)]\<rparr>" and ?K = "fd_bucket D"
  have fs1: "r = Reply (WrittenAnswer (length d))" "fs1 = fs\<lparr>lf_handles := (lf_handles fs)(fh \<mapsto> ?h1)\<rparr>"
    using written size(3) by (simp_all add: fuse_write_def h(1,2))
  have h1: "lf_backend fs1 = VolumeBackend v" "lf_handles fs1 fh = Some ?h1" "path_of fs1 (h_ino ?h1) = Some path"
    using v(1) h(3) by (simp_all add: fs1(2) path_of_def)
  obtain u where fl: "flush_fh D E fh fs1 = (Reply u, fs2)"
    using flushed by (auto simp: fuse_flush_def reply_empty_def split: prod.splits reply.splits)
  have fs1_world: "lf_store fs1 = lf_store fs" "lf_bucket fs1 = lf_bucket fs" by (simp_all add: fs1(2))
  let ?tds = "[(fe_now E 1, Write path off (InlineData d)), (fe_now E 2, SetAttr path None None None (Some (fe_now E 0)))]"
  let ?c = "splice (inline_content (look (v_image v) path)) off d"
  obtain x v' s' b' where c: "volume_commit (fd_db D) (fd_codec D) (fd_fs D) (fd_sha D) ?K (fe_volume E) (lf_store fs1) (lf_bucket fs1)
      (mutations v ?tds) = (x, v', s', b')"
    and fs2: "fs2 = fs1\<lparr>lf_handles := (lf_handles fs1)(fh \<mapsto> ?h1\<lparr>h_extents := []\<rparr>), lf_backend := VolumeBackend v', lf_store := s', lf_bucket := b'\<rparr>"
    and x: "Reply u = io_result x"
    by (rule flush_one [OF h1(1,2) _ h1(3) fl]) simp
  have xi: "x = Inr u" using x by (metis io_result_Reply)
  obtain m where n: "look (v_image (mutations v ?tds)) path = Some (File (Inline ?c) m)"
    using staged_file [of "v_image v" "fe_now E 1" path off d "fe_now E 2" "Some (fe_now E 0)"] by (auto simp: mutations_eq)
  have "\<exists>c' m' cache'. look (v_image v') path = Some (File c' m') \<and> read_content ?K b' (v_blocks v') c' off (length d) = (Inr d, cache')"
    by (rule staged_then_read [OF bk sha cache size(1,2) c [unfolded xi fs1_world] v(2) n])
  then obtain c' m' cache' where r: "look (v_image v') path = Some (File c' m')" "read_content ?K b' (v_blocks v') c' off (length d) = (Inr d, cache')"
    by blast
  have "path_of fs2 (h_ino h) = Some path" "lf_backend fs2 = VolumeBackend v'" "lf_bucket fs2 = b'" "staged fs2 fh = []"
    using h1(3) by (simp_all add: fs2 path_of_def staged_def)
  then have "\<exists>fs3. fuse_read D E2 fs2 (h_ino h) fh off (length d) = (Reply (DataAnswer d), fs3)"
    by (auto simp: fuse_read_def fuse_read_range_def volume_read_range_def image_read_range_def r io_result_def staged_def)
  with fs1(1) show ?thesis by blast
qed

text \<open>A mount of the empty volume with one open handle on a path that has no node yet.\<close>

definition example_open :: "(mem_db, mem_bucket) landslide_fs" where
  "example_open = example_fs\<lparr>lf_state := snd (state_ino ''/f'' state_new), lf_handles := [1 \<mapsto> \<lparr>h_ino = 2, h_extents = []\<rparr>], lf_next_fh := 2\<rparr>"

lemma example_open_simps [simp]:
  "lf_backend example_open = VolumeBackend example_volume" "lf_store example_open = mem_empty" "lf_bucket example_open = []"
  "lf_handles example_open (Suc 0) = Some \<lparr>h_ino = 2, h_extents = []\<rparr>" "path_of example_open 2 = Some ''/f''"
  by (simp_all add: example_open_def path_of_def state_ino_def state_new_def Let_def)

lemma example_flush:
  assumes "fs = example_open\<lparr>lf_handles := [1 \<mapsto> \<lparr>h_ino = 2, h_extents = [(0, ''hi'')]\<rparr>]\<rparr>"
  shows "fst (flush_fh example_deps example_fuse_env 1 fs) = Reply ()"
proof -
  let ?ds = "[Write ''/f'' 0 (InlineData ''hi''), SetAttr ''/f'' None None None (Some 5)]"
  have batch: "check_batch (map (\<lambda>d. new_event_new ''delta'' (show_fs_delta d)) ?ds) = Inr ()"
    by (simp add: check_batch_def MAX_BATCH_RECORDS_def MAX_RECORD_BYTES_def new_event_new_def net_enc_def net_field_def show_opt_def
        show_int_def show_nat.simps)
  have plain: "upgrade example_sha mem_bucket_ops [] (replay fs_image_default (clocked example_fuse_env 1 ?ds)) {} ?ds = ([], ?ds)"
    by (simp add: fs_image_default_def clocked_def apply_write_def meta_mut_def Fs_Image.splice_def resize_def BLOCK_CHUNK_def)
  have "fst (fuse_commit example_deps example_fuse_env 1 ?ds (fs\<lparr>lf_handles := hs\<rparr>)) = Reply ()" for hs
    by (rule example_commit_batch [OF batch _ plain]) (simp_all add: assms)
  moreover have "path_of (fs\<lparr>lf_handles := hs\<rparr>) 2 = Some ''/f''" for hs by (simp add: assms path_of_def example_open_def state_ino_def state_new_def Let_def)
  ultimately show ?thesis by (simp add: assms flush_fh_def Let_def)
qed

theorem write_flush_read_witness:
  "\<exists>r fs1 a fs2 fs3. fuse_write example_open 1 0 ''hi'' = (r, fs1) \<and> fuse_flush example_deps example_fuse_env fs1 1 = (Reply a, fs2) \<and>
     fuse_read example_deps example_fuse_env fs2 2 1 0 2 = (Reply (DataAnswer ''hi''), fs3)"
proof -
  let ?fs1 = "example_open\<lparr>lf_handles := [1 \<mapsto> \<lparr>h_ino = 2, h_extents = [(0, ''hi'')]\<rparr>]\<rparr>"
  have w: "fuse_write example_open 1 0 ''hi'' = (Reply (WrittenAnswer 2), ?fs1)"
    by (simp add: fuse_write_def) (simp add: example_open_def)
  obtain fs2 where f: "fuse_flush example_deps example_fuse_env ?fs1 1 = (Reply EmptyAnswer, fs2)"
    using example_flush [OF refl] by (cases "flush_fh example_deps example_fuse_env 1 ?fs1") (auto simp: fuse_flush_def reply_empty_def)
  have "\<exists>fs3. fuse_read example_deps example_fuse_env fs2 2 1 0 (length ''hi'') = (Reply (DataAnswer ''hi''), fs3)"
    using write_flush_read [OF _ _ _ _ _ _ _ _ _ _ _ _ _ w f, of map_of example_volume "\<lparr>h_ino = 2, h_extents = []\<rparr>" "''/f''" example_fuse_env]
      mem_bk.bucket_axioms
    by (simp add: example_volume_def fs_image_default_def inline_content_def)
  with w f show ?thesis by (auto simp: numeral_2_eq_2)
qed

text \<open>The batch of a flush on an inline file: its writes splice the extents in, in order.\<close>

abbreviation splice_all :: "bytes \<Rightarrow> (u64 \<times> bytes) list \<Rightarrow> bytes" where
  "splice_all c exts \<equiv> foldl (\<lambda>c (off, d). Fs_Image.splice c off d) c exts"

abbreviation flush_batch :: "string \<Rightarrow> (u64 \<times> bytes) list \<Rightarrow> i64 \<Rightarrow> fs_delta list" where
  "flush_batch path exts t \<equiv>
     map (\<lambda>(offset, data). Write path offset (InlineData data)) exts @ [SetAttr path None None None (Some t)]"

lemma flush_batch_file:
  assumes "look i path = Some (File (Inline c) m)"
  shows "\<exists>m'. look (replay i (clocked E k (flush_batch path exts t))) path = Some (File (Inline (splice_all c exts)) m')"
  using assms
proof (induction exts arbitrary: i c m k)
  case Nil
  then show ?case by (simp add: clocked_def meta_mut_def)
next
  case (Cons e exts)
  obtain off d where e: "e = (off, d)" by fastforce
  have "\<exists>m1. look (fs_apply (fe_now E k) i (Write path off (InlineData d))) path = Some (File (Inline (Fs_Image.splice c off d)) m1)"
    using Cons.prems by (simp add: apply_write_def Let_def)
  with Cons.IH e show ?case by (force simp: clocked_def)
qed

lemma flush_batch_upgrade:
  assumes "look img path = Some (File (Inline c) m)" "length c \<le> BLOCK_CHUNK"
  shows "upgrade sha K b img {} (flush_batch path exts t) = ([], flush_batch path exts t)"
  using assms by (induction exts) auto

lemma splice_all_bound:
  assumes "length c \<le> n" "\<forall>(off, d) \<in> set exts. off + length d \<le> n"
  shows "length (splice_all c exts) \<le> n"
  using assms by (induction exts arbitrary: c) (auto simp: length_splice)

lemma flush_inline:
  assumes v: "lf_backend fs = VolumeBackend v" "v_pending v = []" and h: "lf_handles fs fh = Some h" "path_of fs (h_ino h) = Some path"
    and inl: "look (v_image v) path = Some (File (Inline c) m)"
    and small: "length c \<le> BLOCK_CHUNK" "\<forall>(off, d) \<in> set (h_extents h). off + length d \<le> BLOCK_CHUNK"
    and flushed: "flush_fh D E fh fs = (r, fs')"
  shows "\<exists>v' m'. lf_backend fs' = VolumeBackend v' \<and> look (v_image v') path = Some (File (Inline (splice_all c (h_extents h))) m') \<and>
     staged fs' fh = [] \<and> lf_state fs' = lf_state fs"
proof (cases "h_extents h = []")
  case True
  then show ?thesis using flushed v h inl by (auto simp: flush_fh_def staged_def)
next
  case False
  let ?fs1 = "fs\<lparr>lf_handles := (lf_handles fs)(fh \<mapsto> h\<lparr>h_extents := []\<rparr>)\<rparr>" and ?ds = "flush_batch path (h_extents h) (fe_now E 0)"
  have p: "path_of ?fs1 (h_ino h) = Some path" using h(2) by (simp add: path_of_def)
  obtain x v' s' b' where c: "volume_commit (fd_db D) (fd_codec D) (fd_fs D) (fd_sha D) (fd_bucket D) (fe_volume E) (lf_store fs) (lf_bucket fs)
      (mutations v (clocked E 1 ?ds)) = (x, v', s', b')" by (metis prod_cases4)
  have "flush_fh D E fh fs = (io_result x, ?fs1\<lparr>lf_backend := VolumeBackend v', lf_store := s', lf_bucket := b'\<rparr>)"
    using c False by (simp add: flush_fh_def h(1) p Let_def fuse_commit_def v(1))
  then have fs': "fs' = ?fs1\<lparr>lf_backend := VolumeBackend v', lf_store := s', lf_bucket := b'\<rparr>" using flushed by simp
  obtain m' where n: "look (v_image (mutations v (clocked E 1 ?ds))) path = Some (File (Inline (splice_all c (h_extents h))) m')"
    using flush_batch_file [OF inl, of E 1 "h_extents h" "fe_now E 0"] by (auto simp: mutations_eq)
  have "map snd (clocked E 1 ds) = ds" for ds by (simp add: clocked_def comp_def case_prod_beta)
  then have "v_pending (mutations v (clocked E 1 ?ds)) = ?ds" using v(2) by (simp add: mutations_eq)
  then have "v_image v' = v_image (mutations v (clocked E 1 ?ds))"
    using flush_batch_upgrade [OF n splice_all_bound [OF small], of "fd_sha D" "fd_bucket D" "lf_bucket fs" "h_extents h"]
    by (intro commit_image_same [OF c]) (auto simp: filter_empty_conv)
  with n show ?thesis by (simp add: fs' staged_def)
qed

lemma read_inline:
  assumes "lf_backend fs = VolumeBackend v" "look (v_image v) path = Some (File (Inline c) m)" "path_of fs ino = Some path"
    and "length c + sz < 2 ^ 64"
  shows "\<exists>fs'. fuse_read D E fs ino fh offset sz =
     (Reply (DataAnswer (foldl (overlay_extent offset) (take (min sz (length c - offset)) (drop offset c)) (staged fs fh))), fs')"
proof -
  have "read_content (fd_bucket D) (lf_bucket fs) (v_blocks v) (Inline c) offset sz =
      (Inr (take (min sz (length c - offset)) (drop offset c)), v_blocks v)"
    using assms(4) by (simp add: read_content_def slice_of_def Let_def min_def)
  moreover have "staged (fs\<lparr>lf_backend := x\<rparr>) fh = staged fs fh" for x by (simp add: staged_def)
  ultimately show ?thesis
    by (simp add: fuse_read_def assms fuse_read_range_def volume_read_range_def image_read_range_def io_result_def)
qed

text \<open>C30: a handle reads its own writes, on an inline file: when no staged extent starts before the read offset and the file
  stays within the size of a block, a read through the handle returns what the same read returns after the flush, cut at the
  end the file had before it, and that is the old content with the staged extents spliced in, in order.\<close>

theorem read_sees_staged:
  assumes v: "lf_backend fs = VolumeBackend v" "v_pending v = []" and h: "lf_handles fs fh = Some h" "path_of fs (h_ino h) = Some path"
    and inl: "look (v_image v) path = Some (File (Inline c) m)"
    and small: "length c \<le> BLOCK_CHUNK" "\<forall>(off, d) \<in> set (h_extents h). off + length d \<le> BLOCK_CHUNK" "sz < 2 ^ 32"
    and later: "\<forall>(off, d) \<in> set (h_extents h). offset \<le> off"
    and flushed: "fuse_flush D E fs fh = (Reply a, fs1)"
  shows "\<exists>x y fs' fs2. fuse_read D E fs (h_ino h) fh offset sz = (Reply (DataAnswer x), fs') \<and>
     fuse_read D E2 fs1 (h_ino h) fh offset sz = (Reply (DataAnswer y), fs2) \<and> x = take (length c - offset) y \<and>
     y = take sz (drop offset (foldl (\<lambda>c (off, d). Fs_Image.splice c off d) c (h_extents h)))"
proof -
  let ?c = "splice_all c (h_extents h)" and ?n = "min sz (length c - offset)"
  obtain r where fl: "flush_fh D E fh fs = (r, fs1)"
    using flushed by (auto simp: fuse_flush_def reply_empty_def split: prod.splits reply.splits)
  obtain v' m' where v': "lf_backend fs1 = VolumeBackend v'" "look (v_image v') path = Some (File (Inline ?c) m')" "staged fs1 fh = []"
    "lf_state fs1 = lf_state fs"
    using flush_inline [OF v h inl small(1,2) fl] by blast
  have st: "staged fs fh = h_extents h" using h(1) by (simp add: staged_def)
  have "foldl (overlay_extent offset) (take ?n (drop offset c)) (h_extents h) = take ?n (drop offset ?c)"
    by (rule overlay_all) (use later in auto)
  moreover have "length c + sz < 2 ^ 64" using small(1,3) by (simp add: BLOCK_CHUNK_def)
  ultimately obtain fs' where before: "fuse_read D E fs (h_ino h) fh offset sz = (Reply (DataAnswer (take ?n (drop offset ?c))), fs')"
    using read_inline [OF v(1) inl h(2), of sz D E fh offset] st by auto
  have "length ?c + sz < 2 ^ 64" using splice_all_bound [OF small(1,2)] small(3) by (simp add: BLOCK_CHUNK_def)
  then obtain fs2 where after: "fuse_read D E2 fs1 (h_ino h) fh offset sz = (Reply (DataAnswer (take sz (drop offset ?c))), fs2)"
    using read_inline [OF v'(1,2), of "h_ino h" sz D E2 fh offset] h(2) v'(3,4) by (auto simp: path_of_def min_def)
  have "take ?n (drop offset ?c) = take (length c - offset) (take sz (drop offset ?c))" by (simp add: min.commute)
  with before after show ?thesis by blast
qed

definition example_staged :: "(mem_db, mem_bucket) landslide_fs" where
  "example_staged = example_open\<lparr>lf_backend := VolumeBackend (example_volume\<lparr>v_image := \<lparr>nodes = [(''/f'', File (Inline ''abcd'') (meta_file 5))]\<rparr>\<rparr>),
     lf_handles := [1 \<mapsto> \<lparr>h_ino = 2, h_extents = [(2, ''XYZ'')]\<rparr>]\<rparr>"

lemma example_staged_flush:
  obtains a fs1 where "fuse_flush example_deps example_fuse_env example_staged 1 = (Reply a, fs1)"
proof -
  let ?ds = "[Write ''/f'' 2 (InlineData ''XYZ''), SetAttr ''/f'' None None None (Some 5)]"
  let ?img = "\<lparr>nodes = [(''/f'', File (Inline ''abcd'') (meta_file 5))]\<rparr>"
  have batch: "check_batch (map (\<lambda>d. new_event_new ''delta'' (show_fs_delta d)) ?ds) = Inr ()"
    by (simp add: check_batch_def MAX_BATCH_RECORDS_def MAX_RECORD_BYTES_def new_event_new_def net_enc_def net_field_def show_opt_def
        show_int_def show_nat.simps)
  have plain: "upgrade example_sha mem_bucket_ops [] (replay ?img (clocked example_fuse_env 1 ?ds)) {} ?ds = ([], ?ds)"
    by (simp add: clocked_def apply_write_def meta_mut_def Fs_Image.splice_def resize_def BLOCK_CHUNK_def)
  have "fst (fuse_commit example_deps example_fuse_env 1 ?ds (example_staged\<lparr>lf_handles := hs\<rparr>)) = Reply ()" for hs
    by (rule example_commit_batch [OF batch _ plain]) (simp_all add: example_staged_def)
  moreover have "path_of (example_staged\<lparr>lf_handles := hs\<rparr>) 2 = Some ''/f''" for hs
    by (simp add: example_staged_def path_of_def example_open_def state_ino_def state_new_def Let_def)
  moreover have "lf_handles example_staged 1 = Some \<lparr>h_ino = 2, h_extents = [(2, ''XYZ'')]\<rparr>" by (simp add: example_staged_def)
  ultimately have "fst (flush_fh example_deps example_fuse_env 1 example_staged) = Reply ()" by (simp add: flush_fh_def Let_def)
  then show ?thesis using that
    by (cases "flush_fh example_deps example_fuse_env 1 example_staged") (auto simp: fuse_flush_def reply_empty_def)
qed

theorem read_sees_staged_witness:
  "\<exists>fs' fs1 a fs2. fuse_read example_deps example_fuse_env example_staged 2 1 1 4 = (Reply (DataAnswer ''bXY''), fs') \<and>
     fuse_flush example_deps example_fuse_env example_staged 1 = (Reply a, fs1) \<and>
     fuse_read example_deps example_fuse_env fs1 2 1 1 4 = (Reply (DataAnswer ''bXYZ''), fs2)"
proof -
  obtain a fs1 where f: "fuse_flush example_deps example_fuse_env example_staged 1 = (Reply a, fs1)" by (rule example_staged_flush)
  let ?v = "example_volume\<lparr>v_image := \<lparr>nodes = [(''/f'', File (Inline ''abcd'') (meta_file 5))]\<rparr>\<rparr>"
  have e: "lf_backend example_staged = VolumeBackend ?v" "v_pending ?v = []" "path_of example_staged 2 = Some ''/f''"
    "lf_handles example_staged 1 = Some \<lparr>h_ino = 2, h_extents = [(2, ''XYZ'')]\<rparr>"
    by (simp_all add: example_staged_def example_volume_def path_of_def example_open_def state_ino_def state_new_def Let_def)
  from read_sees_staged [OF e(1,2,4) _ _ _ _ _ _ f, of "''/f''" "''abcd''" "meta_file 5" 4 1 example_fuse_env] e(3)
  show ?thesis using f by (auto simp: BLOCK_CHUNK_def Fs_Image.splice_def resize_def)
qed

text \<open>A directory is listed completely: with a reply buffer that takes every entry and reports that it is not full, each
  call of \<open>readdir\<close> returns exactly the entry at its offset, in the order dot, dot-dot and the sorted names of the children,
  and nothing past the end, so that following the offsets lists every child once.\<close>

theorem readdir_lists_children:
  assumes v: "lf_backend fs = VolumeBackend v" "path_of fs ino = Some dir" "is_dir_at dir (v_image v)"
    and add: "\<And>buf e. fe_add E buf e = (False, buf @ [e])"
  shows "\<exists>es fs'. fuse_readdir E fs ino offset = (Reply (DirectoryAnswer es), fs') \<and>
     map (\<lambda>(_, i, _, n). (i, n)) es =
       take 1 (drop offset (enumerate 1 ([''.'', ''..''] @ sorted_list_of_set (child_names (v_image v) dir))))"
proof -
  obtain up fs3 where up: "ino_at (parent_path dir) fs = (up, fs3)" by fastforce
  obtain kids fs4 where kids: "child_inos dir (children (v_image v) dir) fs3 = (kids, fs4)" by fastforce
  let ?entries = "(ino, Directory, ''.'') # (up, Directory, ''..'') # kids"
  let ?num = "map (\<lambda>(i, (cino, kind, name)). (cino, i + 1, kind, name)) (enumerate 0 ?entries)"
  have names: "map (\<lambda>(_, _, n). n) ?entries = [''.'', ''..''] @ sorted_list_of_set (child_names (v_image v) dir)"
    using child_inos_names [of dir "children (v_image v) dir" fs3] by (simp add: kids children_names)
  have "map (\<lambda>(_, i, _, n). (i, n)) ?num = enumerate 1 (map (\<lambda>(_, _, n). n) ?entries)"
    using numbered_names [of 0 ?entries] by (simp only: One_nat_def)
  then have "map (\<lambda>(_, i, _, n). (i, n)) (take 1 (drop offset ?num)) = take 1 (drop offset (enumerate 1 (map (\<lambda>(_, _, n). n) ?entries)))"
    by (simp only: take_map [symmetric] drop_map [symmetric])
  moreover have "fuse_readdir E fs ino offset = (Reply (DirectoryAnswer (take 1 (drop offset ?num))), fs4)"
    by (simp only: fuse_readdir_def v volume_image [OF v(1)] up kids add_one [of "fe_add E", OF add] Let_def option.case prod.case if_True not_True_eq_False if_False)
  ultimately show ?thesis unfolding names by blast
qed

theorem readdir_lists_children_witness:
  "\<exists>es fs'. fuse_readdir example_fuse_env
     (example_fs\<lparr>lf_backend := VolumeBackend (example_volume\<lparr>v_image := \<lparr>nodes = [(''/d'', Dir (meta_dir 5)), (''/d/x'', Dir (meta_dir 5))]\<rparr>\<rparr>)\<rparr>) 1 2 =
       (Reply (DirectoryAnswer es), fs') \<and> map (\<lambda>(_, i, _, n). (i, n)) es = [(3, ''d'')]"
  (is "\<exists>es fs'. fuse_readdir _ ?fs 1 2 = _ \<and> _")
proof -
  let ?v = "example_volume\<lparr>v_image := \<lparr>nodes = [(''/d'', Dir (meta_dir 5)), (''/d/x'', Dir (meta_dir 5))]\<rparr>\<rparr>"
  have "sorted_list_of_set (child_names (v_image ?v) ''/'') = [''d'']"
    unfolding children_names [symmetric] by (simp add: children_def child_step_def Let_def)
  moreover have "path_of ?fs (Suc 0) = Some ''/''" by (simp add: path_of_def example_fs_def with_backend_def state_new_def)
  ultimately show ?thesis
    using readdir_lists_children [of ?fs ?v 1 "''/''" example_fuse_env 2] by (simp add: is_dir_at_def example_fuse_env_def numeral_3_eq_3)
qed

section \<open>Corner cases\<close>

text \<open>
  A staged extent that starts before the read offset is laid over the start of the buffer instead of
  being shifted: the reply begins with its first bytes.
\<close>

theorem read_overlay_misplaced:
  assumes "path_of fs ino = Some path" "fuse_read_range D E 0 path offset sz fs = (Reply (Some buf), fs1)" "staged fs1 fh = [(off, d)]" "off < offset"
  shows "fuse_read D E fs ino fh offset sz = (Reply (DataAnswer (take (length buf) d @ drop (length d) buf)), fs1)"
  using assms by (simp add: fuse_read_def overlay_extent_def Let_def min_def)

text \<open>An open handle with staged extents brings a file back after it was unlinked.\<close>

theorem flush_after_unlink_recreates:
  assumes v: "lf_backend fs = VolumeBackend v" "path_of fs parent = Some dir"
    and h: "lf_handles fs fh = Some h" "h_extents h = [(off, d)]" "path_of fs (h_ino h) = Some (join_path dir nm)"
    and small: "off + length d \<le> BLOCK_CHUNK" and clean: "v_pending v = []"
    and unlinked: "serve D E fs (Unlink parent (Some nm)) = (Reply a, fs1)" and flushed: "serve D E2 fs1 (Flush fh) = (Reply a2, fs2)"
  shows "look (backend_image (lf_backend fs1)) (join_path dir nm) = None \<and>
     (\<exists>m. look (backend_image (lf_backend fs2)) (join_path dir nm) = Some (File (Inline (Fs_Image.splice [] off d)) m))"
proof -
  let ?p = "join_path dir nm"
  obtain x v1 s1 b1 where c1: "volume_commit (fd_db D) (fd_codec D) (fd_fs D) (fd_sha D) (fd_bucket D) (fe_volume E) (lf_store fs) (lf_bucket fs)
      (mutations v [(fe_now E 0, Remove ?p)]) = (x, v1, s1, b1)" by (metis prod_cases4)
  have u: "fuse_commit D E 0 [Remove ?p] fs = (io_result x, fs\<lparr>lf_backend := VolumeBackend v1, lf_store := s1, lf_bucket := b1\<rparr>)"
    using c1 by (simp add: fuse_commit_def v(1) clocked_def)
  then have x: "\<exists>w. x = Inr w" and fs1: "fs1 = fs\<lparr>lf_backend := VolumeBackend v1, lf_store := s1, lf_bucket := b1\<rparr>"
    using unlinked by (auto simp: fuse_unlink_def under_parent_def v reply_empty_def io_result_Reply split: option.splits node.splits reply.splits)
  have "v_image v1 = v_image (mutations v [(fe_now E 0, Remove ?p)])" by (rule commit_image_same [OF c1]) (simp add: mutations_eq clean)
  then have gone: "look (v_image v1) ?p = None" by (simp add: mutations_eq look_remove)
  have clean1: "v_pending v1 = []" using c1 x by (auto simp: volume_commit_def Let_def split: if_splits sum.splits prod.splits)
  have h1: "lf_backend fs1 = VolumeBackend v1" "lf_handles fs1 fh = Some h" "path_of fs1 (h_ino h) = Some ?p"
    using h by (simp_all add: fs1 path_of_def)
  obtain r where fl: "flush_fh D E2 fh fs1 = (r, fs2)"
    using flushed by (cases "flush_fh D E2 fh fs1") (auto simp: fuse_flush_def reply_empty_def split: reply.splits)
  let ?tds = "[(fe_now E2 1, Write ?p off (InlineData d)), (fe_now E2 2, SetAttr ?p None None None (Some (fe_now E2 0)))]"
  obtain y v2 s2 b2 where c2: "volume_commit (fd_db D) (fd_codec D) (fd_fs D) (fd_sha D) (fd_bucket D) (fe_volume E2) (lf_store fs1) (lf_bucket fs1)
      (mutations v1 ?tds) = (y, v2, s2, b2)" and fs2: "lf_backend fs2 = VolumeBackend v2"
    by (rule flush_one [OF h1(1,2) h(2) h1(3) fl]) simp
  obtain m where n: "look (v_image (mutations v1 ?tds)) ?p = Some (File (Inline (Fs_Image.splice [] off d)) m)"
    using staged_file [of "v_image v1" "fe_now E2 1" ?p off d "fe_now E2 2" "Some (fe_now E2 0)"] by (auto simp: mutations_eq gone inline_content_def)
  have "v_image v2 = v_image (mutations v1 ?tds)"
    by (rule commit_image_same [OF c2]) (use n small in \<open>simp add: mutations_eq clean1 length_splice\<close>)
  with n gone show ?thesis by (auto simp: h1(1) fs2 backend_image_def)
qed

text \<open>
  A flush into a block-backed file drops its content: the splice starts from an empty file, so that
  what comes before the extent is zero and what came after it is gone.
\<close>

theorem flush_drops_blocks:
  assumes v: "lf_backend fs = VolumeBackend v" "look (v_image v) path = Some (File (Blocks refs n) m)" "v_pending v = []"
    and h: "lf_handles fs fh = Some h" "h_extents h = [(off, d)]" "path_of fs (h_ino h) = Some path"
    and small: "off + length d \<le> BLOCK_CHUNK" and flushed: "flush_fh D E fh fs = (r, fs')"
  shows "\<exists>m'. look (backend_image (lf_backend fs')) path = Some (File (Inline (replicate off CHR 0x00 @ d)) m')"
proof -
  let ?tds = "[(fe_now E 1, Write path off (InlineData d)), (fe_now E 2, SetAttr path None None None (Some (fe_now E 0)))]"
  obtain x v' s' b' where c: "volume_commit (fd_db D) (fd_codec D) (fd_fs D) (fd_sha D) (fd_bucket D) (fe_volume E) (lf_store fs) (lf_bucket fs)
      (mutations v ?tds) = (x, v', s', b')" and fs': "lf_backend fs' = VolumeBackend v'"
    by (rule flush_one [OF v(1) h(1,2,3) flushed]) simp
  have z: "Fs_Image.splice [] off d = replicate off CHR 0x00 @ d" by (simp add: Fs_Image.splice_def resize_def)
  obtain m' where n: "look (v_image (mutations v ?tds)) path = Some (File (Inline (replicate off CHR 0x00 @ d)) m')"
    using staged_file [of "v_image v" "fe_now E 1" path off d "fe_now E 2" "Some (fe_now E 0)"] by (auto simp: mutations_eq v(2) inline_content_def z)
  have "v_image v' = v_image (mutations v ?tds)"
    by (rule commit_image_same [OF c]) (use n small in \<open>simp add: mutations_eq v(3)\<close>)
  with n show ?thesis by (auto simp: fs' backend_image_def)
qed

text \<open>
  A flush into a block-backed file that is larger than a block resets the attributes of the live
  node only: the splice in memory starts from a new file, while the delta that is committed replaces
  the content and keeps the attributes the node had. A later mount shows a mode and an owner that the
  mount which acknowledged the flush does not.
\<close>

theorem flush_resets_meta:
  assumes v: "lf_backend fs = VolumeBackend v" "look (v_image v) path = Some (File (Blocks refs n) m)" "v_pending v = []"
    and h: "lf_handles fs fh = Some h" "h_extents h = [(off, d)]" "path_of fs (h_ino h) = Some path"
    and large: "BLOCK_CHUNK < off + length d" and flushed: "flush_fh D E fh fs = (Reply u, fs')"
  shows "\<exists>refs' m1 m2 batch.
     batch = snd (upgrade (fd_sha D) (fd_bucket D) (lf_bucket fs) (replay (v_image v) (clocked E 1 (flush_batch path [(off, d)] (fe_now E 0))))
       {} (flush_batch path [(off, d)] (fe_now E 0))) \<and>
     look (backend_image (lf_backend fs')) path = Some (File (Blocks refs' (blocks_size refs')) m1) \<and>
     look (foldl (fs_apply now) (v_image v) batch) path = Some (File (Blocks refs' (blocks_size refs')) m2) \<and>
     (nm_mode m1, nm_uid m1, nm_gid m1) = (6 * 64 + 4 * 8 + 4, 0, 0) \<and> (nm_mode m2, nm_uid m2, nm_gid m2) = (nm_mode m, nm_uid m, nm_gid m)"
proof -
  let ?tds = "[(fe_now E 1, Write path off (InlineData d)), (fe_now E 2, SetAttr path None None None (Some (fe_now E 0)))]"
  let ?c = "Fs_Image.splice [] off d" and ?ds = "[Write path off (InlineData d), SetAttr path None None None (Some (fe_now E 0))]"
  let ?refs = "blocks_of (fd_sha D) (Fs_Image.splice [] off d)"
  obtain x v' s' b' where c: "volume_commit (fd_db D) (fd_codec D) (fd_fs D) (fd_sha D) (fd_bucket D) (fe_volume E) (lf_store fs) (lf_bucket fs)
      (mutations v ?tds) = (x, v', s', b')" and fs': "lf_backend fs' = VolumeBackend v'" and r: "Reply u = io_result x"
    by (rule flush_one [OF v(1) h(1,2,3) flushed]) simp
  have x: "x = Inr u" using r by (metis io_result_Reply)
  let ?m1 = "(meta_file (fe_now E 1))\<lparr>nm_mtime_ms := fe_now E 0\<rparr>"
  have n: "look (v_image (mutations v ?tds)) path = Some (File (Inline ?c) ?m1)"
    by (simp add: mutations_eq v(2) apply_write_def meta_mut_def set_attrs_def)
  have pend: "v_pending (mutations v ?tds) = ?ds" using v(3) by (simp add: mutations_eq)
  have up: "upgrade (fd_sha D) (fd_bucket D) (lf_bucket fs) (v_image (mutations v ?tds)) {} ?ds =
      (missing_blocks (fd_sha D) (fd_bucket D) (lf_bucket fs) ?c, [Write path 0 (BlocksData ?refs), SetAttr path None None None (Some (fe_now E 0))])"
    using upgrade_staged [OF n] large by (simp add: length_splice)
  have "look (v_image v') path = Some (File (Blocks ?refs (blocks_size ?refs)) ?m1)"
    using c pend up n by (auto simp: x volume_commit_def Let_def apply_write_def meta_of_def split: sum.splits prod.splits)
  moreover have "look (foldl (fs_apply now) (v_image v) [Write path 0 (BlocksData ?refs), SetAttr path None None None (Some (fe_now E 0))]) path =
      Some (File (Blocks ?refs (blocks_size ?refs)) (m\<lparr>nm_mtime_ms := fe_now E 0\<rparr>))"
    using v(2) by (simp add: apply_write_def meta_of_def meta_mut_def set_attrs_def)
  moreover have "replay (v_image v) (clocked E 1 ?ds) = v_image (mutations v ?tds)" by (simp add: mutations_eq clocked_def numeral_2_eq_2)
  ultimately show ?thesis using up
    by (intro exI [of _ ?refs] exI [of _ ?m1] exI [of _ "m\<lparr>nm_mtime_ms := fe_now E 0\<rparr>"] exI)
       (auto simp: fs' backend_image_def meta_file_def meta_with_def)
qed

text \<open>
  On a replica mount a sync between the check and the reply of a lookup that removes the node makes
  the handler panic, because it looks at the image three times under separate locks.
\<close>

theorem lookup_race_panics:
  assumes rp: "lf_backend fs = ReplicaBackend rp" "path_of fs parent = Some dir" "join_path dir nm \<noteq> ''/''"
    and before: "is_dir_at dir (rp_image (fe_sync E 0 rp))" "has_node (join_path dir nm) (rp_image (fe_sync E 1 (fe_sync E 0 rp)))"
    and after: "\<not> has_node (join_path dir nm) (rp_image (fe_sync E 2 (fe_sync E 1 (fe_sync E 0 rp))))"
  shows "fst (fuse_lookup E fs parent (Some nm)) = Crash"
  using assms
  by (simp add: fuse_lookup_def in_parent_def fuse_image_def lock_backend_def backend_image_def reply_entry_def case_prod_beta Let_def
      attr_of_def attr_parts_def has_node_def)

text \<open>On a volume mount a lookup does not panic.\<close>

lemma volume_lookup_replies:
  assumes "lf_backend fs = VolumeBackend v"
  shows "fst (fuse_lookup E fs parent name) \<noteq> Crash"
proof -
  have "fst (reply_entry E 2 path fs) \<noteq> Crash" if "look (v_image v) path = Some n" for path n
    using reply_entry_there [OF assms, of path E 2] that by auto
  with assms show ?thesis by (auto simp: fuse_lookup_def in_parent_def has_node_def split: option.split)
qed

end
