(* ===== verification/Mirror.thy ===== *)
theory Mirror
  imports Fuse_Fs Host_Fs
begin

text \<open>
  The directory mirror (\<open>landslide-fuse/src/mirror.rs\<close>): a replica written into a directory of the
  host, with a state file that remembers what was written. The calls of \<open>std::fs\<close> it
  makes are the parameter \<open>host_ops\<close>.
\<close>

definition STATE_FILE :: string where
  "STATE_FILE = ''.landslide-mirror.json''"

record state_entry =
  se_size :: u64
  se_mtime_ms :: i64
  se_mode :: u32
  se_target :: "string option"

fun entry_of :: "node \<Rightarrow> state_entry" where
  "entry_of (File content meta) =
     \<lparr>se_size = content_len content, se_mtime_ms = nm_mtime_ms meta, se_mode = nm_mode meta, se_target = None\<rparr>"
| "entry_of (Symlink target meta) =
     \<lparr>se_size = length target, se_mtime_ms = nm_mtime_ms meta, se_mode = nm_mode meta, se_target = Some target\<rparr>"
| "entry_of (Dir meta) =
     \<lparr>se_size = 0, se_mtime_ms = nm_mtime_ms meta, se_mode = nm_mode meta, se_target = None\<rparr>"

type_synonym mirror_state = "string \<rightharpoonup> state_entry"

record mirror =
  mr_replica :: replica
  mr_dir :: host_path
  mr_state :: mirror_state

text \<open>The serialisation of the state file and the iteration order of its map.\<close>

record mirror_deps =
  md_json_state :: "mirror_state \<Rightarrow> string + bytes"
  md_unjson_state :: "bytes \<Rightarrow> string + mirror_state"
  md_keys :: "mirror_state \<Rightarrow> string list"

definition mirror_io :: "string \<Rightarrow> error" where
  "mirror_io e = InvalidInput (''mirror io: '' @ e)"

section \<open>Host helpers\<close>

definition local_path :: "mirror \<Rightarrow> string \<Rightarrow> host_path" where
  "local_path mr vol_path = mr_dir mr @ components vol_path"

definition remove_any :: "'h host_ops \<Rightarrow> 'h \<Rightarrow> host_path \<Rightarrow> 'h" where
  "remove_any H h loc =
     (case h_lstat H h loc of
        Some HostDir \<Rightarrow> h_remove_dir_all H h loc
      | Some _ \<Rightarrow> h_remove_file H h loc
      | None \<Rightarrow> h)"

text \<open>\<open>with_extension\<close>: what follows the last dot of the name is replaced, unless the dot opens the name.\<close>

definition with_extension :: "host_path \<Rightarrow> string \<Rightarrow> host_path" where
  "with_extension path ext =
     (if path = [] then []
      else let name = last path;
               stem = (case rfind CHR ''.'' name of None \<Rightarrow> name | Some i \<Rightarrow> if i = 0 then name else take i name)
           in butlast path @ [stem @ ''.'' @ ext])"

definition write_file_atomic :: "'h host_ops \<Rightarrow> 'h \<Rightarrow> host_path \<Rightarrow> bytes \<Rightarrow> (string + unit) \<times> 'h" where
  "write_file_atomic H h path bytes =
     (let tmp = with_extension path ''landslide-mirror.tmp'' in
      case h_write H h tmp bytes of
        (Inl e, h1) \<Rightarrow> (Inl e, h1)
      | (Inr _, h1) \<Rightarrow> h_rename H h1 tmp path)"

definition apply_mode :: "'h host_ops \<Rightarrow> 'h \<Rightarrow> host_path \<Rightarrow> u32 \<Rightarrow> 'h" where
  "apply_mode H h loc mode =
     (case h_lstat H h loc of
        None \<Rightarrow> h
      | Some HostLink \<Rightarrow> h
      | Some _ \<Rightarrow> h_set_mode H h loc (mode AND PERM_BITS))"

section \<open>One pass\<close>

definition ensure_parent :: "'h host_ops \<Rightarrow> 'h \<Rightarrow> host_path \<Rightarrow> (string + unit) \<times> 'h" where
  "ensure_parent H h loc = (if loc = [] then (Inr (), h) else h_create_dir_all H h (butlast loc))"

definition write_file_node ::
  "'b bucket_ops \<Rightarrow> 'h host_ops \<Rightarrow> 'b \<Rightarrow> 'h \<Rightarrow> mirror \<Rightarrow> string \<Rightarrow> node_meta \<Rightarrow> unit res \<times> 'h \<times> mirror" where
  "write_file_node K H b h mr path meta =
     (let loc = local_path mr path;
          h1 = (if h_is_dir H h loc then remove_any H h loc else h);
          (r, rp) = replica_read_file K b (mr_replica mr) path;
          mr1 = mr\<lparr>mr_replica := rp\<rparr>
      in case r of
        Inl e \<Rightarrow> (Inl e, h1, mr1)
      | Inr None \<Rightarrow> (Inl (InvalidInput (path @ '': vanished mid-sync'')), h1, mr1)
      | Inr (Some bytes) \<Rightarrow>
          (case write_file_atomic H h1 loc bytes of
             (Inl e, h2) \<Rightarrow> (Inl (mirror_io e), h2, mr1)
           | (Inr _, h2) \<Rightarrow>
               let h3 = apply_mode H h2 loc (nm_mode meta) in
               (Inr (), if h_open_write H h3 loc then h_set_modified H h3 loc (ts (nm_mtime_ms meta)) else h3, mr1)))"

definition write_node ::
  "'b bucket_ops \<Rightarrow> 'h host_ops \<Rightarrow> 'b \<Rightarrow> 'h \<Rightarrow> mirror \<Rightarrow> string \<Rightarrow> node \<Rightarrow> unit res \<times> 'h \<times> mirror" where
  "write_node K H b h mr path n =
     (let loc = local_path mr path in
      case ensure_parent H h loc of
        (Inl e, h1) \<Rightarrow> (Inl (mirror_io e), h1, mr)
      | (Inr _, h1) \<Rightarrow>
          (case n of
             Dir _ \<Rightarrow>
               if h_is_dir H h1 loc then (Inr (), h1, mr)
               else (case h_create_dir_all H (remove_any H h1 loc) loc of (r, h2) \<Rightarrow> (map_err mirror_io r, h2, mr))
           | Symlink target _ \<Rightarrow>
               (case h_symlink H (remove_any H h1 loc) target loc of (r, h2) \<Rightarrow> (map_err mirror_io r, h2, mr))
           | File _ meta \<Rightarrow> write_file_node K H b h1 mr path meta))"

record 'h pass =
  ps_host :: 'h
  ps_mirror :: mirror
  ps_dir_modes :: "(host_path \<times> u32) list"

text \<open>One iteration of the first loop; a write that fails is reported and skipped, a panic ends the pass.\<close>

definition pass_step ::
  "'b bucket_ops \<Rightarrow> 'h host_ops \<Rightarrow> 'b \<Rightarrow> 'h pass \<Rightarrow> string \<times> node \<Rightarrow> (error \<times> 'h \<times> mirror) + 'h pass" where
  "pass_step K H b ps x =
     (case x of (path, n) \<Rightarrow>
        let entry = entry_of n; loc = local_path (ps_mirror ps) path;
            push = (\<lambda>ps. case n of Dir _ \<Rightarrow> ps\<lparr>ps_dir_modes := ps_dir_modes ps @ [(loc, se_mode entry)]\<rparr> | _ \<Rightarrow> ps)
        in if mr_state (ps_mirror ps) path = Some entry \<and> h_lstat H (ps_host ps) loc \<noteq> None then Inr (push ps)
           else (case write_node K H b (ps_host ps) (ps_mirror ps) path n of
               (Inr _, h1, mr1) \<Rightarrow> Inr (push (ps\<lparr>ps_host := h1, ps_mirror := mr1\<lparr>mr_state := (mr_state mr1)(path \<mapsto> entry)\<rparr>\<rparr>))
             | (Inl (Panicked m), h1, mr1) \<Rightarrow> Inl (Panicked m, h1, mr1)
             | (Inl _, h1, mr1) \<Rightarrow> Inr (ps\<lparr>ps_host := h1, ps_mirror := mr1\<rparr>)))"

text \<open>The deletions, deepest first, and the modes of the directories.\<close>

definition gone_paths :: "mirror_deps \<Rightarrow> fs_image \<Rightarrow> mirror_state \<Rightarrow> string list" where
  "gone_paths M img st = sort_key (\<lambda>p. - int (length p)) (filter (\<lambda>p. map_of (nodes img) p = None) (md_keys M st))"

definition drop_path :: "'h host_ops \<Rightarrow> 'h pass \<Rightarrow> string \<Rightarrow> 'h pass" where
  "drop_path H ps path =
     ps\<lparr>ps_host := remove_any H (ps_host ps) (local_path (ps_mirror ps) path),
        ps_mirror := (ps_mirror ps)\<lparr>mr_state := (mr_state (ps_mirror ps))(path := None)\<rparr>\<rparr>"

definition save_state :: "mirror_deps \<Rightarrow> 'h host_ops \<Rightarrow> 'h \<Rightarrow> mirror \<Rightarrow> unit res \<times> 'h" where
  "save_state M H h mr =
     (let tmp = mr_dir mr @ [STATE_FILE @ ''.tmp''] in
      case map_err Encoding (md_json_state M (mr_state mr)) of
        Inl e \<Rightarrow> (Inl e, h)
      | Inr bytes \<Rightarrow>
          (case h_write H h tmp bytes of
             (Inl e, h1) \<Rightarrow> (Inl (mirror_io e), h1)
           | (Inr _, h1) \<Rightarrow> apfst (map_err mirror_io) (h_rename H h1 tmp (mr_dir mr @ [STATE_FILE]))))"

definition materialize ::
  "'b bucket_ops \<Rightarrow> mirror_deps \<Rightarrow> 'h host_ops \<Rightarrow> 'b \<Rightarrow> 'h \<Rightarrow> mirror \<Rightarrow> unit res \<times> 'h \<times> mirror" where
  "materialize K M H b h mr =
     (let img = rp_image (mr_replica mr) in
      case fold_res (pass_step K H b) \<lparr>ps_host = h, ps_mirror = mr, ps_dir_modes = []\<rparr> (nodes img) of
        Inl stop \<Rightarrow> apfst Inl stop
      | Inr ps \<Rightarrow>
          let ps1 = foldl (drop_path H) ps (gone_paths M img (mr_state (ps_mirror ps)));
              h1 = foldl (\<lambda>h (loc, mode). apply_mode H h loc mode) (ps_host ps1) (ps_dir_modes ps1)
          in case save_state M H h1 (ps_mirror ps1) of (r, h2) \<Rightarrow> (r, h2, ps_mirror ps1))"

section \<open>Operations\<close>

definition sync_once ::
  "codec \<Rightarrow> fs_codec \<Rightarrow> 'b bucket_ops \<Rightarrow> mirror_deps \<Rightarrow> 'h host_ops \<Rightarrow> (nat \<Rightarrow> i64) \<Rightarrow> (nat \<Rightarrow> kv_read) \<Rightarrow> 'b \<Rightarrow> 'h \<Rightarrow> mirror \<Rightarrow>
   version res \<times> 'h \<times> mirror" where
  "sync_once C Q K M H clk rs b h mr =
     (case replica_sync C Q K clk rs b (mr_replica mr) of
        (Inl e, rp) \<Rightarrow> (Inl e, h, mr\<lparr>mr_replica := rp\<rparr>)
      | (Inr _, rp) \<Rightarrow>
          (case materialize K M H b h (mr\<lparr>mr_replica := rp\<rparr>) of
             (Inl e, h1, mr1) \<Rightarrow> (Inl e, h1, mr1)
           | (Inr _, h1, mr1) \<Rightarrow> (Inr (case rp_cursor (mr_replica mr1) of None \<Rightarrow> 0 | Some c \<Rightarrow> c), h1, mr1)))"

definition load_state :: "mirror_deps \<Rightarrow> 'h host_ops \<Rightarrow> 'h \<Rightarrow> host_path \<Rightarrow> mirror_state res" where
  "load_state M H h dir =
     (case h_read H h (dir @ [STATE_FILE]) of
        Inr bytes \<Rightarrow> map_err Encoding (md_unjson_state M bytes)
      | Inl NotFound \<Rightarrow> Inr Map.empty
      | Inl (OtherIo e) \<Rightarrow> Inl (mirror_io e))"

definition mirror_open ::
  "codec \<Rightarrow> fs_codec \<Rightarrow> 'b bucket_ops \<Rightarrow> mirror_deps \<Rightarrow> 'h host_ops \<Rightarrow> (nat \<Rightarrow> i64) \<Rightarrow> (nat \<Rightarrow> kv_read) \<Rightarrow> 'b \<Rightarrow> 'h \<Rightarrow> string \<Rightarrow>
   host_path \<Rightarrow> mirror res \<times> 'h" where
  "mirror_open C Q K M H clk rs b h vol dir =
     (case h_create_dir_all H h dir of
        (Inl e, h1) \<Rightarrow> (Inl (mirror_io e), h1)
      | (Inr _, h1) \<Rightarrow>
          (case bind_res (load_state M H h1 dir) (\<lambda>st. bind_res (replica_open C Q K clk rs b vol) (\<lambda>rp.
                  Inr \<lparr>mr_replica = rp, mr_dir = dir, mr_state = st\<rparr>)) of
             Inl e \<Rightarrow> (Inl e, h1)
           | Inr mr \<Rightarrow>
               (case materialize K M H b h1 mr of
                  (Inl e, h2, _) \<Rightarrow> (Inl e, h2)
                | (Inr _, h2, mr1) \<Rightarrow> (Inr mr1, h2))))"

text \<open>One iteration of \<open>run\<close>: an error is logged and the next pass starts from the same state.\<close>

definition run_pass ::
  "codec \<Rightarrow> fs_codec \<Rightarrow> 'b bucket_ops \<Rightarrow> mirror_deps \<Rightarrow> 'h host_ops \<Rightarrow> (nat \<Rightarrow> i64) \<Rightarrow> (nat \<Rightarrow> kv_read) \<Rightarrow> 'b \<Rightarrow> 'h \<Rightarrow> mirror \<Rightarrow> 'h \<times> mirror" where
  "run_pass C Q K M H clk rs b h mr = snd (sync_once C Q K M H clk rs b h mr)"

text \<open>The reads of the two syncs of \<open>materialize_once\<close> are \<open>rs\<close> and \<open>rs'\<close>.\<close>

definition materialize_once ::
  "codec \<Rightarrow> fs_codec \<Rightarrow> 'b bucket_ops \<Rightarrow> mirror_deps \<Rightarrow> 'h host_ops \<Rightarrow> (nat \<Rightarrow> i64) \<Rightarrow> (nat \<Rightarrow> kv_read) \<Rightarrow> (nat \<Rightarrow> kv_read) \<Rightarrow> 'b \<Rightarrow> 'h \<Rightarrow> string \<Rightarrow>
   host_path \<Rightarrow> version res \<times> 'h" where
  "materialize_once C Q K M H clk rs rs' b h vol dir =
     (case mirror_open C Q K M H clk rs b h vol dir of
        (Inl e, h1) \<Rightarrow> (Inl e, h1)
      | (Inr mr, h1) \<Rightarrow> (case sync_once C Q K M H clk rs' b h1 mr of (r, h2, _) \<Rightarrow> (r, h2)))"

end
