(* ===== verification/Mirror_Sync.thy ===== *)
theory Mirror_Sync
  imports Mirror Fs_Segments
begin

text \<open>
  The mirror converges: on a host that satisfies the laws of \<open>host_fs\<close>, a pass takes a directory that
  shows one image to one that shows the next, exactly, apart from the state file. The steps follow the
  three loops of \<open>materialize\<close>: writes, deletions, modes.
\<close>

section \<open>Paths\<close>

definition abs_path :: "string list \<Rightarrow> string" where
  "abs_path cs = concat (map (\<lambda>c. CHR ''/'' # c) cs)"

definition name_part :: "string \<Rightarrow> bool" where
  "name_part c \<longleftrightarrow> c \<noteq> [] \<and> c \<noteq> ''.'' \<and> c \<noteq> ''..'' \<and> CHR ''/'' \<notin> set c"

text \<open>An absolute path written the usual way.\<close>

definition proper_path :: "string \<Rightarrow> bool" where
  "proper_path p \<longleftrightarrow> components p \<noteq> [] \<and> abs_path (components p) = p"

lemma split_slash_append: "CHR ''/'' \<notin> set c \<Longrightarrow> split_slash (c @ CHR ''/'' # s) = c # split_slash s"
  by (induction c) auto

lemma split_slash_word: "CHR ''/'' \<notin> set c \<Longrightarrow> split_slash c = [c]"
  by (induction c) auto

lemma split_slash_no_slash: "c \<in> set (split_slash s) \<Longrightarrow> CHR ''/'' \<notin> set c"
  by (induction s arbitrary: c rule: split_slash.induct) (auto split: if_splits list.splits)

lemma split_abs_path: "\<forall>c \<in> set cs. CHR ''/'' \<notin> set c \<Longrightarrow> cs \<noteq> [] \<Longrightarrow> split_slash (abs_path cs) = [] # cs"
proof (induction cs)
  case (Cons c cs)
  show ?case
  proof (cases "cs = []")
    case True
    with Cons.prems show ?thesis by (simp add: abs_path_def split_slash_word)
  next
    case False
    then obtain s where s: "abs_path cs = CHR ''/'' # s" by (cases cs) (simp_all add: abs_path_def)
    with Cons False have "split_slash s = cs" by simp
    moreover have "abs_path (c # cs) = CHR ''/'' # c @ abs_path cs" by (simp add: abs_path_def)
    ultimately show ?thesis using Cons.prems s by (simp add: split_slash_append)
  qed
qed simp

lemma components_abs_path:
  assumes "\<forall>c \<in> set cs. name_part c"
  shows "components (abs_path cs) = cs"
proof (cases "cs = []")
  case False
  have "filter (\<lambda>c. c \<noteq> [] \<and> c \<noteq> ''.'' \<and> c \<noteq> ''..'') cs = cs" using assms by (simp add: filter_id_conv name_part_def)
  with assms False show ?thesis by (simp add: components_def split_abs_path name_part_def)
qed (simp add: components_def abs_path_def)

lemma components_parts: "c \<in> set (components p) \<Longrightarrow> name_part c"
  by (auto simp: components_def name_part_def dest: split_slash_no_slash)

lemma components_prefix: "prefix q (components p) \<Longrightarrow> components (abs_path q) = q"
  by (rule components_abs_path) (auto dest: set_mono_prefix components_parts)

lemma plain_components [simp]: "plain (components p)"
  by (auto simp: plain_def name_part_def dest: components_parts)

lemma components_inj: "proper_path p \<Longrightarrow> proper_path p' \<Longrightarrow> components p = components p' \<longleftrightarrow> p = p'"
  by (metis proper_path_def)

lemma abs_path_less:
  assumes "strict_prefix q cs"
  shows "abs_path q < abs_path cs"
proof -
  obtain z zs where "cs = q @ z # zs" using assms by (auto elim: strict_prefixE')
  then show ?thesis using append_less_same_prefix [of "abs_path q" "[]" "abs_path (z # zs)"] by (simp add: abs_path_def)
qed

section \<open>What a directory shows\<close>

text \<open>The content of a file, and that it can be read: its blocks are in the bucket with their lengths.\<close>

definition block_bytes :: "'b bucket_ops \<Rightarrow> ('b \<Rightarrow> string \<Rightarrow> bytes option) \<Rightarrow> 'b \<Rightarrow> string \<Rightarrow> bytes" where
  "block_bytes K objects b hash = the (objects b (block_path K hash))"

fun content_bytes :: "'b bucket_ops \<Rightarrow> ('b \<Rightarrow> string \<Rightarrow> bytes option) \<Rightarrow> 'b \<Rightarrow> content \<Rightarrow> bytes" where
  "content_bytes K objects b (Inline d) = d"
| "content_bytes K objects b (Blocks refs sz) = file_of (block_bytes K objects b) refs"

fun content_stored :: "'b bucket_ops \<Rightarrow> ('b \<Rightarrow> string \<Rightarrow> bytes option) \<Rightarrow> 'b \<Rightarrow> content \<Rightarrow> bool" where
  "content_stored K objects b (Inline d) \<longleftrightarrow> length d < 2 ^ 64"
| "content_stored K objects b (Blocks refs sz) \<longleftrightarrow>
     blocks_stored K objects b (block_bytes K objects b) refs \<and> sz = length (file_of (block_bytes K objects b) refs) \<and> sz < 2 ^ 64"

definition cache_agrees :: "'b bucket_ops \<Rightarrow> ('b \<Rightarrow> string \<Rightarrow> bytes option) \<Rightarrow> 'b \<Rightarrow> block_cache \<Rightarrow> bool" where
  "cache_agrees K objects b cache \<longleftrightarrow> (\<forall>h x. cache h = Some x \<longrightarrow> objects b (block_path K h) = Some x)"

context bucket begin

lemma read_blocks_agrees:
  "cache_agrees K objects b cache \<Longrightarrow> cache_agrees K objects b (snd (read_blocks K b offset fin pos out cache refs))"
proof (induction refs arbitrary: pos out cache)
  case (Cons r refs)
  have "cache_agrees K objects b (snd (fetch_block K b cache (br_hash r)))"
    using Cons.prems by (auto simp: fetch_block_def cache_agrees_def get_eq split: option.split sum.split)
  with Cons show ?case by (auto simp: Let_def split: prod.split sum.split)
qed simp

lemma read_whole:
  assumes "content_stored K objects b c" "cache_agrees K objects b cache"
  shows "\<exists>cache'. read_content K b cache c 0 (content_len c) = (Inr (content_bytes K objects b c), cache') \<and> cache_agrees K objects b cache'"
proof (cases c)
  case (Inline d)
  with assms show ?thesis by (simp add: read_content_def content_len_def slice_of_def)
next
  case (Blocks refs sz)
  let ?f = "file_of (block_bytes K objects b) refs"
  have st: "blocks_stored K objects b (block_bytes K objects b) refs" "sz = length ?f" "length ?f < 2 ^ 64" using assms(1) Blocks by auto
  have "cache_ok (block_bytes K objects b) cache refs" using assms(2) by (auto simp: cache_ok_def cache_agrees_def block_bytes_def)
  from read_blocks_slice [OF st(1) this, of 0 0 "length ?f" "[]"] st(3)
  obtain cache' where "read_blocks K b 0 (length ?f) 0 [] cache refs = (Inr ?f, cache')" by auto
  with read_blocks_agrees [OF assms(2), of 0 "length ?f" 0 "[]" refs] st Blocks show ?thesis
    by (simp add: read_content_def content_len_def)
qed

end

fun on_disk :: "(content \<Rightarrow> bytes) \<Rightarrow> node \<Rightarrow> host_node" where
  "on_disk body (File c m) = HFile (body c) (nm_mode m AND PERM_BITS) (ts (nm_mtime_ms m))"
| "on_disk body (Dir m) = HDir (nm_mode m AND PERM_BITS)"
| "on_disk body (Symlink t m) = HLink t"

text \<open>Equal, the mode of a directory apart: modes of directories are set last.\<close>

definition same_node :: "host_node \<Rightarrow> host_node \<Rightarrow> bool" where
  "same_node x y \<longleftrightarrow> x = y \<or> is_hdir (Some x) \<and> is_hdir (Some y)"

definition is_dir_node :: "node \<Rightarrow> bool" where
  "is_dir_node n \<longleftrightarrow> (\<exists>m. n = Dir m)"

definition is_link_node :: "node \<Rightarrow> bool" where
  "is_link_node n \<longleftrightarrow> (\<exists>t m. n = Symlink t m)"

lemma is_dir_node_simps [simp]: "is_dir_node (Dir m)" "\<not> is_dir_node (File c m)" "\<not> is_dir_node (Symlink t m)"
  by (simp_all add: is_dir_node_def)

lemma same_node_simps [simp]: "same_node x x" "same_node (HDir m) (HDir m')"
  by (simp_all add: same_node_def)

lemma on_disk_dir [simp]: "is_hdir (Some (on_disk body n)) \<longleftrightarrow> is_dir_node n"
  by (cases n) (simp_all add: is_dir_node_def)

lemma on_disk_link [simp]: "is_hlink (Some (on_disk body n)) \<longleftrightarrow> is_link_node n"
  by (cases n) (simp_all add: is_link_node_def)

text \<open>The tree below a path is replaced by one node; a directory keeps what is below.\<close>

definition placed :: "host_path \<Rightarrow> bool \<Rightarrow> host_node \<Rightarrow> host_view \<Rightarrow> host_view" where
  "placed p keep d V = (\<lambda>q. if q = p then Some d else if strict_prefix p q \<and> \<not> keep then None else V q)"

text \<open>The files of an image can be read, whatever a cache in \<open>A\<close> holds.\<close>

definition readable :: "'b bucket_ops \<Rightarrow> 'b \<Rightarrow> (content \<Rightarrow> bytes) \<Rightarrow> (block_cache \<Rightarrow> bool) \<Rightarrow> fs_image \<Rightarrow> bool" where
  "readable K b body A img \<longleftrightarrow>
     (\<forall>cache p c m. A cache \<and> map_of (nodes img) p = Some (File c m) \<longrightarrow>
       (\<exists>cache'. read_content K b cache c 0 (content_len c) = (Inr (body c), cache') \<and> A cache'))"

text \<open>Modes that do not lock the mirror out: its process can open the files for writing and work in the directories.\<close>

definition modes_allow :: "(u32 \<Rightarrow> bool) \<Rightarrow> (u32 \<Rightarrow> bool) \<Rightarrow> fs_image \<Rightarrow> bool" where
  "modes_allow may_write may_enter img \<longleftrightarrow>
     (\<forall>p n. map_of (nodes img) p = Some n \<longrightarrow>
        (case n of File _ m \<Rightarrow> may_write (nm_mode m AND PERM_BITS) | Dir m \<Rightarrow> may_enter (nm_mode m AND PERM_BITS) | Symlink _ _ \<Rightarrow> True))"

section \<open>Writing a node\<close>

abbreviation temp_of :: "host_path \<Rightarrow> host_path" where
  "temp_of p \<equiv> with_extension p ''landslide-mirror.tmp''"

context host_fs begin

text \<open>\<open>rm -f\<close>: whatever was there is gone, and only that.\<close>

lemma remove_any_effect:
  assumes "ok h" "unlinked (view h) p" "p \<noteq> []"
  shows "ok (remove_any H h p) \<and> view (remove_any H h p) = pruned p (view h)"
proof (cases "view h p")
  case None
  have "view h q = None" if "prefix p q" for q
  proof (rule ccontr)
    assume "view h q \<noteq> None"
    with tree [OF assms(1) this] None that show False
      by (cases "p = q") (auto simp: real_path_def strict_prefix_def)
  qed
  then have "view h = pruned p (view h)" by (auto simp: pruned_def)
  with None assms(1) show ?thesis by (simp add: remove_any_def lstat [OF assms(1,2)])
next
  case (Some n)
  then have r: "real_path (view h) p" using tree [OF assms(1)] by simp
  show ?thesis
  proof (cases "is_hdir (Some n)")
    case True
    with Some remove_dir_all [OF assms(1) r _ assms(3)] show ?thesis
      by (auto simp: remove_any_def lstat [OF assms(1,2)])
  next
    case False
    then have "\<not> is_hdir (view h p)" using Some by simp
    from nothing_below [OF assms(1) this]
    have "view h q = None" if "strict_prefix p q" for q using that .
    then have "pruned p (view h) = (view h)(p := None)"
      by (auto simp: pruned_def strict_prefix_def fun_eq_iff)
    with Some False remove_file [OF assms(1,2)] show ?thesis
      by (cases n) (simp_all add: remove_any_def lstat [OF assms(1,2)])
  qed
qed

lemma apply_mode_effect:
  assumes "ok h" "view h p = Some n" "\<not> is_hlink (Some n)" "is_hdir (Some n) \<Longrightarrow> may_enter (m AND PERM_BITS)"
  shows "ok (apply_mode H h p m) \<and> view (apply_mode H h p m) = (view h)(p \<mapsto> with_mode (m AND PERM_BITS) n)"
proof -
  have r: "real_path (view h) p" using tree [OF assms(1)] assms(2) by simp
  have "h_lstat H h p = Some (host_kind_of n)" "host_kind_of n \<noteq> HostLink"
    using lstat [OF assms(1) real_unlinked [OF r]] assms(2,3) by (cases n; simp)+
  then have "apply_mode H h p m = h_set_mode H h p (m AND PERM_BITS)"
    by (simp add: apply_mode_def split: host_kind.split)
  with set_mode [OF assms(1) r assms(2-4)] show ?thesis by simp
qed

lemma placed_update:
  assumes "ok h" "keep \<or> \<not> is_hdir (view h p)"
  shows "placed p keep d (view h) = (view h)(p \<mapsto> d)"
proof
  fix q
  show "placed p keep d (view h) q = ((view h)(p \<mapsto> d)) q"
    using nothing_below [OF assms(1), of p q] assms(2) by (auto simp: placed_def)
qed

lemma placed_pruned: "\<not> keep \<Longrightarrow> (pruned p V)(p \<mapsto> d) = placed p keep d V"
  by (auto simp: placed_def pruned_def strict_prefix_def)

lemma pruned_placed:
  assumes "ok h" "\<not> is_hdir (view h p)"
  shows "(pruned p (view h))(p \<mapsto> d) = placed p keep d (view h)"
proof
  fix q
  show "((pruned p (view h))(p \<mapsto> d)) q = placed p keep d (view h) q"
    using nothing_below [OF assms, of q] by (auto simp: placed_def pruned_def strict_prefix_def)
qed

lemma real_pruned: "real_path V p \<Longrightarrow> real_path (pruned p V) p"
  by (auto simp: real_path_def pruned_def)

lemma ensure_parent_real:
  assumes "ok h" "real_path (view h) p"
  shows "\<exists>h'. ensure_parent H h p = (Inr (), h') \<and> ok h' \<and> view h' = view h"
proof (cases "p = []")
  case False
  have below: "is_hdir (view h q)" if "prefix q (butlast p)" for q
  proof -
    have "strict_prefix (butlast p) p" using False by (cases p rule: rev_cases) (auto simp: strict_prefix_def)
    with that have "strict_prefix q p" by (rule prefix_order.le_less_trans)
    with assms(2) show ?thesis by (simp add: real_path_def)
  qed
  then have "made_dirs m (butlast p) (view h) = view h" for m by (fastforce simp: made_dirs_def)
  with create_dir_all [OF assms(1), of "butlast p"] below assms(2) False show ?thesis
    by (fastforce simp: ensure_parent_def real_path_def plain_def dest: in_set_butlastD)
qed (use assms(1) in \<open>simp add: ensure_parent_def\<close>)

lemma temp_of_parent:
  assumes "p \<noteq> []"
  shows "\<exists>x. temp_of p = butlast p @ [x @ ''.landslide-mirror.tmp'']"
  using assms by (auto simp: with_extension_def Let_def)

lemma real_sibling:
  assumes "real_path V p" "p \<noteq> []" "x \<noteq> ''.''" "x \<noteq> ''..''"
  shows "real_path V (butlast p @ [x])"
proof -
  have snoc: "strict_prefix q (r @ [y]) \<longleftrightarrow> prefix q r" for q r and y :: string
    by (auto simp: strict_prefix_def dest: prefix_length_le)
  have "strict_prefix q p \<longleftrightarrow> prefix q (butlast p)" for q
    using snoc [of q "butlast p" "last p"] assms(2) by simp
  moreover note snoc [of _ "butlast p" x]
  moreover have "plain (butlast p)" using assms(1) by (auto simp: real_path_def plain_def dest: in_set_butlastD)
  ultimately show ?thesis using assms by (auto simp: real_path_def plain_def)
qed

lemma real_update: "real_path V p \<Longrightarrow> \<not> strict_prefix q p \<Longrightarrow> real_path (V(q := x)) p"
  by (auto simp: real_path_def)

lemma write_file_atomic_effect:
  assumes "ok h" "real_path (view h) p" "p \<noteq> []" "\<not> is_hdir (view h p)"
    and "view h (temp_of p) = None" "\<not> suffix ''.landslide-mirror.tmp'' (last p)"
  shows "\<exists>h' m t. write_file_atomic H h p d = (Inr (), h') \<and> ok h' \<and> view h' = (view h)(p \<mapsto> HFile d m t)"
proof -
  obtain x where x: "temp_of p = butlast p @ [x @ ''.landslide-mirror.tmp'']" using temp_of_parent [OF assms(3)] by blast
  have real: "real_path (view h) (temp_of p)" unfolding x by (rule real_sibling [OF assms(2,3)]) auto
  have ne: "temp_of p \<noteq> p" using assms(6) unfolding x by (metis last_snoc suffixI)
  have np: "\<not> strict_prefix (temp_of p) p" unfolding x using assms(3) by (auto dest: prefix_length_less)
  have tne: "temp_of p \<noteq> []" by (simp add: x)
  obtain h1 m t where w: "h_write H h (temp_of p) d = (Inr (), h1)" "ok h1" "view h1 = (view h)(temp_of p \<mapsto> HFile d m t)"
    using write_file [OF assms(1) real _ tne] assms(5) by blast
  have "\<exists>h2. h_rename H h1 (temp_of p) p = (Inr (), h2) \<and> ok h2 \<and> view h2 = (view h1)(temp_of p := None, p \<mapsto> HFile d m t)"
    using w assms(2-4) ne np real by (intro rename) (auto simp: real_update)
  moreover have "(view h1)(temp_of p := None) = view h" using w(3) assms(5) by auto
  ultimately show ?thesis using w(1) by (auto simp: write_file_atomic_def Let_def)
qed

lemma write_file_node_effect:
  assumes "ok h" "real_path (view h) (local_path mr p)" "local_path mr p \<noteq> []"
    and "view h (temp_of (local_path mr p)) = None" "\<not> suffix ''.landslide-mirror.tmp'' (last (local_path mr p))"
    and "readable K b body A (rp_image (mr_replica mr))" "A (rp_blocks (mr_replica mr))"
    and "map_of (nodes (rp_image (mr_replica mr))) p = Some (File c m)" "modes_allow may_write may_enter (rp_image (mr_replica mr))"
  shows "\<exists>h' cache. write_file_node K H b h mr p m = (Inr (), h', mr\<lparr>mr_replica := (mr_replica mr)\<lparr>rp_blocks := cache\<rparr>\<rparr>) \<and> A cache \<and>
    ok h' \<and> view h' = placed (local_path mr p) False (on_disk body (File c m)) (view h)"
proof -
  let ?loc = "local_path mr p"
  define h1 where "h1 = (if h_is_dir H h ?loc then remove_any H h ?loc else h)"
  note rm = remove_any_effect [OF assms(1) real_unlinked [OF assms(2)] assms(3)]
  have h1: "ok h1" "real_path (view h1) ?loc"
    using assms(1,2) rm real_pruned [OF assms(2)] by (simp_all add: h1_def)
  have h1': "\<not> is_hdir (view h1 ?loc)" "view h1 (temp_of ?loc) = None"
    using assms(4) rm is_dir [OF assms(1) real_unlinked [OF assms(2)]] by (auto simp: h1_def pruned_def)
  have placed: "(view h1)(?loc \<mapsto> d) = placed ?loc False d (view h)" for d
  proof (cases "h_is_dir H h ?loc")
    case True
    then show ?thesis using rm by (simp add: h1_def placed_pruned)
  next
    case False
    then have "\<not> is_hdir (view h ?loc)"
      using is_dir [OF assms(1) real_unlinked [OF assms(2)]] by (cases "is_hlink (view h ?loc)") auto
    with False show ?thesis using placed_update [OF assms(1)] by (simp add: h1_def)
  qed
  obtain cache where c: "read_content K b (rp_blocks (mr_replica mr)) c 0 (content_len c) = (Inr (body c), cache)" "A cache"
    using assms(6-8) unfolding readable_def by blast
  then have read: "replica_read_file K b (mr_replica mr) p = (Inr (Some (body c)), (mr_replica mr)\<lparr>rp_blocks := cache\<rparr>)"
    by (simp add: replica_read_file_def image_read_file_def assms(8))
  obtain h2 m2 t2 where w: "write_file_atomic H h1 ?loc (body c) = (Inr (), h2)" "ok h2" "view h2 = (view h1)(?loc \<mapsto> HFile (body c) m2 t2)"
    using write_file_atomic_effect [OF h1 assms(3) h1' assms(5)] by blast
  define h3 where "h3 = apply_mode H h2 ?loc (nm_mode m)"
  have h3: "ok h3" "view h3 = (view h1)(?loc \<mapsto> HFile (body c) (nm_mode m AND PERM_BITS) t2)"
    using apply_mode_effect [OF w(2), of ?loc "HFile (body c) m2 t2" "nm_mode m"] w(3) by (simp_all add: h3_def)
  have r3: "real_path (view h3) ?loc" using tree [OF h3(1)] h3(2) by simp
  have "may_write (nm_mode m AND PERM_BITS)" using assms(8,9) unfolding modes_allow_def by fastforce
  then have opened: "h_open_write H h3 ?loc" using open_write [OF h3(1) r3] h3(2) by simp
  have "ok (h_set_modified H h3 ?loc (ts (nm_mtime_ms m)))"
    "view (h_set_modified H h3 ?loc (ts (nm_mtime_ms m))) = (view h1)(?loc \<mapsto> on_disk body (File c m))"
    using set_modified [OF h3(1) r3 _ opened] h3(2) by simp_all
  moreover have "write_file_node K H b h mr p m =
      (Inr (), h_set_modified H h3 ?loc (ts (nm_mtime_ms m)), mr\<lparr>mr_replica := (mr_replica mr)\<lparr>rp_blocks := cache\<rparr>\<rparr>)"
    using read w(1) opened by (simp add: write_file_node_def Let_def h1_def h3_def)
  ultimately show ?thesis using c(2) placed by auto
qed

lemma make_link_effect:
  assumes "ok h" "real_path (view h) p" "p \<noteq> []"
  shows "\<exists>h'. h_symlink H (remove_any H h p) t p = (Inr (), h') \<and> ok h' \<and> view h' = placed p False (HLink t) (view h)"
  using symlink [of "remove_any H h p" p t] remove_any_effect [OF assms(1) real_unlinked [OF assms(2)] assms(3)] real_pruned [OF assms(2)] assms(3)
  by (auto simp: pruned_def simp flip: placed_pruned [of False])

lemma make_dir_effect:
  assumes "ok h" "real_path (view h) p" "p \<noteq> []" "\<not> is_hlink (view h p)"
  shows "\<exists>h' m. (if h_is_dir H h p then (Inr (), h) else h_create_dir_all H (remove_any H h p) p) = (Inr (), h') \<and> ok h' \<and>
    view h' = placed p True (HDir m) (view h)"
proof (cases "is_hdir (view h p)")
  case True
  then obtain m where m: "view h p = Some (HDir m)" by blast
  then have "placed p True (HDir m) (view h) = view h" using placed_update [OF assms(1)] by (simp add: fun_upd_idem)
  with is_dir [OF assms(1) real_unlinked [OF assms(2)] assms(4)] True assms(1) show ?thesis
    by (intro exI [of _ h] exI [of _ m]) simp
next
  case False
  let ?V = "pruned p (view h)"
  note rm = remove_any_effect [OF assms(1) real_unlinked [OF assms(2)] assms(3)]
  have above: "is_hdir (?V q)" if "prefix q p" "q \<noteq> p" for q
    using real_pruned [OF assms(2)] that by (simp add: real_path_def strict_prefix_def)
  have self: "?V p = None" by (simp add: pruned_def)
  have "?V q = None \<or> is_hdir (?V q)" if "prefix q p" for q using above [OF that] self by (cases "q = p") auto
  then obtain h' m where h': "h_create_dir_all H (remove_any H h p) p = (Inr (), h')" "ok h'" "view h' = made_dirs m p ?V"
    using create_dir_all [of "remove_any H h p" p] rm assms(2) by (auto simp: real_path_def)
  have "made_dirs m p ?V = ?V(p \<mapsto> HDir m)"
  proof
    fix q show "made_dirs m p ?V q = (?V(p \<mapsto> HDir m)) q" using above [of q] self by (cases "q = p") (auto simp: made_dirs_def)
  qed
  with pruned_placed [OF assms(1) False] h'(3) have "view h' = placed p True (HDir m) (view h)" by simp
  with h'(1,2) is_dir [OF assms(1) real_unlinked [OF assms(2)] assms(4)] False show ?thesis by auto
qed

text \<open>Writing any node of the image.\<close>

lemma write_node_effect:
  assumes "ok h" "real_path (view h) (local_path mr p)" "local_path mr p \<noteq> []"
    and "is_dir_node n \<Longrightarrow> \<not> is_hlink (view h (local_path mr p))"
    and "view h (temp_of (local_path mr p)) = None" "\<not> suffix ''.landslide-mirror.tmp'' (last (local_path mr p))"
    and "readable K b body A (rp_image (mr_replica mr))" "A (rp_blocks (mr_replica mr))"
    and "map_of (nodes (rp_image (mr_replica mr))) p = Some n" "modes_allow may_write may_enter (rp_image (mr_replica mr))"
  shows "\<exists>h' cache d. write_node K H b h mr p n = (Inr (), h', mr\<lparr>mr_replica := (mr_replica mr)\<lparr>rp_blocks := cache\<rparr>\<rparr>) \<and> A cache \<and>
    ok h' \<and> same_node d (on_disk body n) \<and> view h' = placed (local_path mr p) (is_dir_node n) d (view h)"
proof -
  let ?loc = "local_path mr p"
  obtain h1 where p: "ensure_parent H h ?loc = (Inr (), h1)" "ok h1" "view h1 = view h" using ensure_parent_real [OF assms(1,2)] by blast
  have r: "real_path (view h1) ?loc" using assms(2) p(3) by simp
  have unread: ?thesis
    if "write_node K H b h mr p n = (Inr (), h', mr)" "ok h'" "same_node d (on_disk body n)" "view h' = placed ?loc (is_dir_node n) d (view h)" for h' d
    using that assms(8) by (intro exI [of _ h'] exI [of _ "rp_blocks (mr_replica mr)"] exI [of _ d]) simp
  show ?thesis
  proof (cases n)
    case (File c m)
    have "\<exists>h' cache. write_file_node K H b h1 mr p m = (Inr (), h', mr\<lparr>mr_replica := (mr_replica mr)\<lparr>rp_blocks := cache\<rparr>\<rparr>) \<and> A cache \<and>
        ok h' \<and> view h' = placed ?loc False (on_disk body n) (view h)"
      using write_file_node_effect [OF p(2) r assms(3) _ assms(6-8)] assms(5,9,10) by (simp add: File p(3))
    then obtain h' cache where w: "write_file_node K H b h1 mr p m = (Inr (), h', mr\<lparr>mr_replica := (mr_replica mr)\<lparr>rp_blocks := cache\<rparr>\<rparr>)" "A cache"
        "ok h'" "view h' = placed ?loc False (on_disk body n) (view h)" by blast
    then have "write_node K H b h mr p n = (Inr (), h', mr\<lparr>mr_replica := (mr_replica mr)\<lparr>rp_blocks := cache\<rparr>\<rparr>)"
      by (simp add: write_node_def Let_def p(1) File)
    with w(2-4) File show ?thesis by (intro exI [of _ h'] exI [of _ cache] exI [of _ "on_disk body n"]) simp
  next
    case (Symlink t m)
    from make_link_effect [OF p(2) r assms(3), of t]
    obtain h' where "h_symlink H (remove_any H h1 ?loc) t ?loc = (Inr (), h')" "ok h'" "view h' = placed ?loc False (HLink t) (view h)"
      unfolding p(3) by blast
    with p(1) Symlink show ?thesis by (intro unread [of h' "HLink t"]) (simp_all add: write_node_def Let_def map_err_def)
  next
    case (Dir m)
    from make_dir_effect [OF p(2) r assms(3)] assms(4) Dir
    obtain h' m' where "(if h_is_dir H h1 ?loc then (Inr (), h1) else h_create_dir_all H (remove_any H h1 ?loc) ?loc) = (Inr (), h')" "ok h'"
        "view h' = placed ?loc True (HDir m') (view h)"
      unfolding p(3) by auto
    with p(1) Dir show ?thesis
      by (intro unread [of h' "HDir m'"]) (auto simp: write_node_def Let_def map_err_def split: if_splits)
  qed
qed

end

section \<open>The loops\<close>

text \<open>Images a directory can show: proper paths, parents that are directories, and none of the mirror's own names.\<close>

definition tree_image :: "fs_image \<Rightarrow> bool" where
  "tree_image img \<longleftrightarrow> fs_ok img \<and>
     (\<forall>p n. map_of (nodes img) p = Some n \<longrightarrow> proper_path p \<and>
       (\<forall>q. strict_prefix q (components p) \<and> q \<noteq> [] \<longrightarrow> (\<exists>m. map_of (nodes img) (abs_path q) = Some (Dir m))))"

definition names_free :: "fs_image \<Rightarrow> bool" where
  "names_free img \<longleftrightarrow>
     (\<forall>p n. map_of (nodes img) p = Some n \<longrightarrow> components p \<noteq> [STATE_FILE] \<and> components p \<noteq> [STATE_FILE @ ''.tmp''] \<and>
       \<not> suffix ''.landslide-mirror.tmp'' (last (components p)))"

definition state_file_ok :: "host_view \<Rightarrow> host_path \<Rightarrow> bool" where
  "state_file_ok V dir \<longleftrightarrow> is_hdir (V dir) \<and> (V (dir @ [STATE_FILE]) = None \<or> is_hfile (V (dir @ [STATE_FILE])))"

text \<open>The directory has exactly the nodes of the image, the state file apart.\<close>

definition shows_image :: "(content \<Rightarrow> bytes) \<Rightarrow> host_view \<Rightarrow> host_path \<Rightarrow> fs_image \<Rightarrow> bool" where
  "shows_image body V dir img \<longleftrightarrow> state_file_ok V dir \<and>
     (\<forall>p n. map_of (nodes img) p = Some n \<longrightarrow> V (dir @ components p) = Some (on_disk body n)) \<and>
     (\<forall>q. q \<noteq> [] \<and> q \<noteq> [STATE_FILE] \<and> V (dir @ q) \<noteq> None \<longrightarrow> (\<exists>p n. map_of (nodes img) p = Some n \<and> components p = q))"

text \<open>In between: \<open>new\<close> is on disk, up to the modes of directories, and what else is there is from \<open>old\<close>.\<close>

definition disk_inv :: "(content \<Rightarrow> bytes) \<Rightarrow> host_path \<Rightarrow> (string \<rightharpoonup> node) \<Rightarrow> (string \<rightharpoonup> node) \<Rightarrow> host_view \<Rightarrow> bool" where
  "disk_inv body dir old new V \<longleftrightarrow> state_file_ok V dir \<and>
     (\<forall>p n. new p = Some n \<longrightarrow> (\<exists>d. V (dir @ components p) = Some d \<and> same_node d (on_disk body n))) \<and>
     (\<forall>q. q \<noteq> [] \<and> q \<noteq> [STATE_FILE] \<and> V (dir @ q) \<noteq> None \<longrightarrow>
       (\<exists>p n. new p = Some n \<and> components p = q) \<or>
       (\<exists>p n. new p = None \<and> old p = Some n \<and> components p = q \<and> V (dir @ q) = Some (on_disk body n)))"

lemma disk_inv_new: "disk_inv body dir old new V \<Longrightarrow> new p = Some n \<Longrightarrow> \<exists>d. V (dir @ components p) = Some d \<and> same_node d (on_disk body n)"
  by (simp add: disk_inv_def)

lemma disk_inv_other:
  assumes "disk_inv body dir old new V" "V (dir @ q) \<noteq> None" "q \<noteq> []" "q \<noteq> [STATE_FILE]"
  obtains p n where "new p = Some n" "components p = q"
  | p n where "new p = None" "old p = Some n" "components p = q" "V (dir @ q) = Some (on_disk body n)"
  using assms unfolding disk_inv_def by blast

lemma shows_disk_inv: "shows_image body V dir img \<Longrightarrow> disk_inv body dir (map_of (nodes img)) Map.empty V"
  unfolding shows_image_def disk_inv_def by (metis (no_types, lifting) option.distinct(1))

lemma not_below:
  assumes "length q \<le> Suc (length dir)" "cs \<noteq> []" "q \<noteq> dir @ cs"
  shows "\<not> prefix (dir @ cs) q"
proof
  assume *: "prefix (dir @ cs) q"
  then have "length dir + length cs \<le> length q" by (auto dest: prefix_length_le)
  moreover have "1 \<le> length cs" using assms(2) by (cases cs) simp_all
  ultimately have "length q = length (dir @ cs)" using assms(1) unfolding length_append by linarith
  with * assms(3) show False by (auto simp: prefix_def)
qed

lemma disk_inv_place:
  assumes inv: "disk_inv body dir old new V" and d: "same_node d (on_disk body n)"
    and p: "components p \<noteq> []" "components p \<noteq> [STATE_FILE]"
    and inj: "\<And>p'. new p' \<noteq> None \<or> old p' \<noteq> None \<Longrightarrow> components p' = components p \<Longrightarrow> p' = p"
    and below: "\<And>p'. new p' \<noteq> None \<Longrightarrow> strict_prefix (components p) (components p') \<Longrightarrow> is_dir_node n"
  shows "disk_inv body dir old (new(p \<mapsto> n)) (placed (dir @ components p) (is_dir_node n) d V)"
proof -
  let ?V = "placed (dir @ components p) (is_dir_node n) d V"
  have kept: "?V q = V q" if "length q \<le> Suc (length dir)" "q \<noteq> dir @ components p" for q
    using not_below [OF that(1) p(1) that(2)] that(2) by (auto simp: placed_def strict_prefix_def)
  have "state_file_ok ?V dir" using inv p by (simp add: state_file_ok_def disk_inv_def kept)
  moreover have "\<exists>d'. ?V (dir @ components p') = Some d' \<and> same_node d' (on_disk body n')" if "(new(p \<mapsto> n)) p' = Some n'" for p' n'
  proof (cases "p' = p")
    case False
    then have "new p' = Some n'" using that by simp
    moreover from this inj [of p'] False have "components p' \<noteq> components p" by auto
    ultimately show ?thesis using disk_inv_new [OF inv] below [of p'] by (auto simp: placed_def strict_prefix_def)
  qed (use that d in \<open>simp add: placed_def\<close>)
  moreover have "(\<exists>p' n'. (new(p \<mapsto> n)) p' = Some n' \<and> components p' = q) \<or>
      (\<exists>p' n'. (new(p \<mapsto> n)) p' = None \<and> old p' = Some n' \<and> components p' = q \<and> ?V (dir @ q) = Some (on_disk body n'))"
    if q: "q \<noteq> []" "q \<noteq> [STATE_FILE]" "?V (dir @ q) \<noteq> None" for q
  proof (cases "q = components p")
    case False
    then have v: "?V (dir @ q) = V (dir @ q)" using q(3) by (auto simp: placed_def split: if_splits)
    with q have "V (dir @ q) \<noteq> None" by simp
    from inv this q(1,2) show ?thesis
    proof (cases rule: disk_inv_other)
      case (1 p' n')
      with False show ?thesis by (intro disjI1 exI [of _ p'] exI [of _ n']) auto
    next
      case (2 p' n')
      with False v show ?thesis by (intro disjI2 exI [of _ p'] exI [of _ n']) auto
    qed
  qed auto
  ultimately show ?thesis unfolding disk_inv_def by blast
qed

lemma disk_inv_drop:
  assumes inv: "disk_inv body dir old new V" and p: "components p \<noteq> []" "components p \<noteq> [STATE_FILE]"
    and new: "\<And>p'. new p' \<noteq> None \<Longrightarrow> \<not> prefix (components p) (components p')"
  shows "disk_inv body dir (old(p := None)) new (pruned (dir @ components p) V)"
proof -
  let ?V = "pruned (dir @ components p) V"
  have kept: "?V q = V q" if "length q \<le> Suc (length dir)" "q \<noteq> dir @ components p" for q
    using not_below [OF that(1) p(1) that(2)] by (simp add: pruned_def)
  have "state_file_ok ?V dir" using inv p by (simp add: state_file_ok_def disk_inv_def kept)
  moreover have "\<exists>d'. ?V (dir @ components p') = Some d' \<and> same_node d' (on_disk body n')" if "new p' = Some n'" for p' n'
    using disk_inv_new [OF inv that] new [of p'] that by (auto simp: pruned_def)
  moreover have "(\<exists>p' n'. new p' = Some n' \<and> components p' = q) \<or>
      (\<exists>p' n'. new p' = None \<and> (old(p := None)) p' = Some n' \<and> components p' = q \<and> ?V (dir @ q) = Some (on_disk body n'))"
    if q: "q \<noteq> []" "q \<noteq> [STATE_FILE]" "?V (dir @ q) \<noteq> None" for q
  proof -
    have v: "?V (dir @ q) = V (dir @ q)" "\<not> prefix (components p) q" using q(3) by (auto simp: pruned_def split: if_splits)
    with q have "V (dir @ q) \<noteq> None" by simp
    from inv this q(1,2) show ?thesis
    proof (cases rule: disk_inv_other)
      case (2 p' n')
      with v show ?thesis by (intro disjI2 exI [of _ p'] exI [of _ n']) auto
    qed blast
  qed
  ultimately show ?thesis unfolding disk_inv_def by blast
qed

text \<open>
  Between the last pass and this one: no directory became a link or the other way round, and a
  fingerprint that did not change belongs to a node that did not change on disk.
\<close>

definition no_link_flip :: "fs_image \<Rightarrow> fs_image \<Rightarrow> bool" where
  "no_link_flip img0 img \<longleftrightarrow>
     (\<forall>p n0 n. map_of (nodes img0) p = Some n0 \<and> map_of (nodes img) p = Some n \<longrightarrow>
       \<not> (is_dir_node n0 \<and> is_link_node n) \<and> \<not> (is_link_node n0 \<and> is_dir_node n))"

definition fingerprints_tell :: "(content \<Rightarrow> bytes) \<Rightarrow> fs_image \<Rightarrow> fs_image \<Rightarrow> bool" where
  "fingerprints_tell body img0 img \<longleftrightarrow>
     (\<forall>p n0 n. map_of (nodes img0) p = Some n0 \<and> map_of (nodes img) p = Some n \<and> entry_of n0 = entry_of n \<longrightarrow> on_disk body n0 = on_disk body n)"

text \<open>The part of a mirror that the first loop keeps or builds.\<close>

definition mirror_inv :: "(block_cache \<Rightarrow> bool) \<Rightarrow> mirror \<Rightarrow> (string \<times> node) list \<Rightarrow> 'h pass \<Rightarrow> bool" where
  "mirror_inv A mr xs ps \<longleftrightarrow>
     (\<exists>cache. A cache \<and> ps_mirror ps = mr\<lparr>mr_replica := (mr_replica mr)\<lparr>rp_blocks := cache\<rparr>,
        mr_state := mr_state mr ++ (map_option entry_of \<circ> map_of xs)\<rparr>) \<and>
     ps_dir_modes ps = concat (map (\<lambda>(p, n). if is_dir_node n then [(local_path mr p, nm_mode (node_meta_of n))] else []) xs)"

lemma no_flip:
  assumes "no_link_flip img0 img" "map_of (nodes img0) p = Some n0" "map_of (nodes img) p = Some n"
  shows "\<not> (is_dir_node n0 \<and> is_link_node n)" "\<not> (is_link_node n0 \<and> is_dir_node n)"
  using assms unfolding no_link_flip_def by blast+

lemma tree_parent:
  assumes "tree_image img" "map_of (nodes img) p = Some n" "strict_prefix q (components p)" "q \<noteq> []"
  obtains m where "map_of (nodes img) (abs_path q) = Some (Dir m)" "components (abs_path q) = q" "abs_path q < p"
proof -
  have c: "components (abs_path q) = q" using assms(3) by (intro components_prefix [of _ p]) (simp add: strict_prefix_def)
  have "abs_path (components p) = p" using assms(1,2) by (auto simp: tree_image_def proper_path_def)
  with abs_path_less [OF assms(3)] have "abs_path q < p" by simp
  with c assms that show ?thesis unfolding tree_image_def by blast
qed

lemma tree_proper: "tree_image img \<Longrightarrow> map_of (nodes img) p = Some n \<Longrightarrow> proper_path p"
  by (simp add: tree_image_def)

text \<open>Paths of the image come after their parents.\<close>

lemma earlier_done:
  assumes "bt_ok (xs @ (p, n) # ys)" "map_of (xs @ (p, n) # ys) p' = Some n'" "p' < p"
  shows "map_of xs p' = Some n'"
proof -
  have "p' \<noteq> p" "p' \<notin> fst ` set ys" using assms(1,3) by (auto simp: bt_ok_def sorted_wrt_append)
  then have "map_of ((p, n) # ys) p' = None" by (simp add: map_of_eq_None_iff)
  with assms(2) show ?thesis by (auto simp: map_add_def split: option.splits if_splits)
qed

lemma not_later: "bt_ok (xs @ (p, n) # ys) \<Longrightarrow> map_of xs p = None"
  by (auto simp: bt_ok_def sorted_wrt_append map_of_eq_None_iff)

lemma temp_not_state: "x @ ''.landslide-mirror.tmp'' \<noteq> STATE_FILE"
proof
  assume "x @ ''.landslide-mirror.tmp'' = STATE_FILE"
  then have "last (x @ ''.landslide-mirror.tmp'') = last STATE_FILE" by (rule arg_cong)
  then show False by (simp add: STATE_FILE_def)
qed

text \<open>The facts about one node that the invariant gives, when the nodes before it were written.\<close>

lemma written_before:
  assumes "tree_image img" "nodes img = xs @ (p, n) # ys"
  shows "map_of (nodes img) p = Some n" "map_of xs p = None" "\<And>p' n'. map_of xs p' = Some n' \<Longrightarrow> map_of (nodes img) p' = Some n'"
    "\<And>p' n'. map_of (nodes img) p' = Some n' \<Longrightarrow> p' < p \<Longrightarrow> map_of xs p' = Some n'"
proof -
  have bt: "bt_ok (xs @ (p, n) # ys)" using assms by (simp add: tree_image_def fs_ok_def)
  show "map_of xs p = None" by (rule not_later [OF bt])
  then show "map_of (nodes img) p = Some n" by (simp add: assms(2) map_add_def)
  show "map_of (nodes img) p' = Some n'" if "map_of xs p' = Some n'" for p' n'
    using that bt_distinct [OF bt] by (auto simp: assms(2) map_add_Some_iff dest: map_of_SomeD intro: map_of_is_SomeI)
  show "map_of xs p' = Some n'" if "map_of (nodes img) p' = Some n'" "p' < p" for p' n'
    using earlier_done [OF bt _ that(2)] that(1) unfolding assms(2) .
qed

lemma parents_written:
  assumes img: "tree_image img" and split: "nodes img = xs @ (p, n) # ys"
    and inv: "disk_inv body dir old (map_of xs) V" and dir: "real_path V dir"
  shows "real_path V (dir @ components p)"
  unfolding real_path_def
proof (intro conjI allI impI)
  show "plain (dir @ components p)" using dir by (simp add: real_path_def)
  have hdir: "is_hdir (V dir)" using inv by (simp add: disk_inv_def state_file_ok_def)
  fix q assume q: "strict_prefix q (dir @ components p)"
  then consider "strict_prefix q dir" | "q = dir" | r where "q = dir @ r" "r \<noteq> []" "strict_prefix r (components p)"
    by (auto simp: strict_prefix_def prefix_append)
  then show "is_hdir (V q)"
  proof cases
    case (3 r)
    from tree_parent [OF img written_before(1) [OF img split] 3(3,2)]
    obtain m where m: "map_of (nodes img) (abs_path r) = Some (Dir m)" "components (abs_path r) = r" "abs_path r < p" .
    from disk_inv_new [OF inv written_before(4) [OF img split m(1,3)]] m(2) show ?thesis by (auto simp: 3 same_node_def)
  qed (use dir hdir in \<open>auto simp: real_path_def\<close>)
qed

lemma temp_free:
  assumes "disk_inv body dir (map_of (nodes img0)) new V" "names_free img0" "names_free img"
    and "\<And>p' n'. new p' = Some n' \<Longrightarrow> map_of (nodes img) p' = Some n'" "components p \<noteq> []"
  shows "V (temp_of (dir @ components p)) = None"
proof (rule ccontr)
  assume n: "V (temp_of (dir @ components p)) \<noteq> None"
  obtain x where x: "temp_of (dir @ components p) = dir @ butlast (components p) @ [x @ ''.landslide-mirror.tmp'']"
    using assms(5) by (auto simp: with_extension_def Let_def butlast_append)
  let ?q = "butlast (components p) @ [x @ ''.landslide-mirror.tmp'']"
  have "?q \<noteq> [STATE_FILE]" using temp_not_state by (auto simp: append_eq_Cons_conv)
  moreover have "?q \<noteq> []" by simp
  moreover have "V (dir @ ?q) \<noteq> None" using n x by simp
  ultimately have "\<exists>p' n'. (new p' = Some n' \<or> map_of (nodes img0) p' = Some n') \<and> components p' = ?q"
    using disk_inv_other [OF assms(1), of ?q] by blast
  then obtain p' n' where p': "new p' = Some n' \<or> map_of (nodes img0) p' = Some n'" "components p' = ?q" by blast
  from p'(1) have "\<not> suffix ''.landslide-mirror.tmp'' (last (components p'))" using assms(2-4) unfolding names_free_def by blast
  with p'(2) show False by (simp add: suffix_def)
qed

lemma before_write:
  assumes img: "tree_image img0" "tree_image img" "names_free img0" "names_free img" "no_link_flip img0 img"
    and split: "nodes img = xs @ (p, n) # ys"
    and inv: "disk_inv body dir (map_of (nodes img0)) (map_of xs) V"
  shows "V (dir @ components p) = None \<or> (\<exists>n0. map_of (nodes img0) p = Some n0 \<and> V (dir @ components p) = Some (on_disk body n0))"
    and "is_dir_node n \<Longrightarrow> \<not> is_hlink (V (dir @ components p))"
    and "\<And>p'. map_of xs p' \<noteq> None \<Longrightarrow> strict_prefix (components p) (components p') \<Longrightarrow> is_dir_node n"
    and "\<And>p'. map_of xs p' \<noteq> None \<or> map_of (nodes img0) p' \<noteq> None \<Longrightarrow> components p' = components p \<Longrightarrow> p' = p"
proof -
  note wb = written_before [OF img(2) split]
  note pp = tree_proper [OF img(2) wb(1)]
  have q: "components p \<noteq> []" "components p \<noteq> [STATE_FILE]" using pp img(4) wb(1) by (auto simp: proper_path_def names_free_def)
  show inj: "p' = p" if "map_of xs p' \<noteq> None \<or> map_of (nodes img0) p' \<noteq> None" "components p' = components p" for p'
  proof -
    have "proper_path p'" using that(1) wb(3) tree_proper img(1,2) by fastforce
    with pp that(2) show ?thesis by (simp add: components_inj)
  qed
  show loc: "V (dir @ components p) = None \<or> (\<exists>n0. map_of (nodes img0) p = Some n0 \<and> V (dir @ components p) = Some (on_disk body n0))"
  proof (rule disjCI)
    assume "\<not> (\<exists>n0. map_of (nodes img0) p = Some n0 \<and> V (dir @ components p) = Some (on_disk body n0))"
    then show "V (dir @ components p) = None"
      using disk_inv_other [OF inv _ q] inj wb(2) by (metis option.distinct(1))
  qed
  show "\<not> is_hlink (V (dir @ components p))" if "is_dir_node n"
  proof
    assume l: "is_hlink (V (dir @ components p))"
    then obtain n0 where n0: "map_of (nodes img0) p = Some n0" "V (dir @ components p) = Some (on_disk body n0)" using loc by auto
    with l on_disk_link [of body n0] have "is_link_node n0" by simp
    with no_flip [OF img(5) n0(1) wb(1)] that show False by simp
  qed
  show "is_dir_node n" if "map_of xs p' \<noteq> None" "strict_prefix (components p) (components p')" for p'
  proof -
    from that(1) obtain n' where "map_of xs p' = Some n'" by auto
    from tree_parent [OF img(2) wb(3) [OF this] that(2) q(1)] pp wb(1) show ?thesis by (auto simp: proper_path_def is_dir_node_def)
  qed
qed

context host_fs begin

lemma real_dir: "ok h \<Longrightarrow> disk_inv body dir old new (view h) \<Longrightarrow> real_path (view h) dir"
  using tree [of h dir] by (auto simp: disk_inv_def state_file_ok_def)

lemma pass_step_effect:
  assumes img: "tree_image img0" "tree_image img" "names_free img0" "names_free img" "no_link_flip img0 img"
    and fp: "fingerprints_tell body img0 img" and read: "readable K b body A img"
    and modes_img: "modes_allow may_write may_enter img"
    and mr: "rp_image (mr_replica mr) = img" "mr_dir mr = dir" "mr_state mr = map_option entry_of \<circ> map_of (nodes img0)"
    and split: "nodes img = xs @ (p, n) # ys"
    and ok: "ok (ps_host ps)" and inv: "disk_inv body dir (map_of (nodes img0)) (map_of xs) (view (ps_host ps))" and mi: "mirror_inv A mr xs ps"
  shows "\<exists>ps'. pass_step K H b ps (p, n) = Inr ps' \<and> ok (ps_host ps') \<and>
    disk_inv body dir (map_of (nodes img0)) (map_of (xs @ [(p, n)])) (view (ps_host ps')) \<and> mirror_inv A mr (xs @ [(p, n)]) ps'"
proof -
  let ?V = "view (ps_host ps)" and ?loc = "dir @ components p" and ?m = "ps_mirror ps"
  note bw = before_write [OF img split inv] and real = parents_written [OF img(2) split inv real_dir [OF ok inv]]
  note wb = written_before [OF img(2) split] and p = written_before(1) [OF img(2) split] and fresh = written_before(2) [OF img(2) split]
  have xs: "map_of (xs @ [(p, n)]) = (map_of xs)(p \<mapsto> n)" using fresh by (auto simp: map_add_def fun_eq_iff split: option.split)
  have q: "components p \<noteq> []" "components p \<noteq> [STATE_FILE]" "\<not> suffix ''.landslide-mirror.tmp'' (last (components p))"
    using tree_proper [OF img(2) p] img(4) p by (auto simp: proper_path_def names_free_def)
  obtain cache where c: "A cache" "?m = mr\<lparr>mr_replica := (mr_replica mr)\<lparr>rp_blocks := cache\<rparr>, mr_state := mr_state mr ++ (map_option entry_of \<circ> map_of xs)\<rparr>"
    and modes: "ps_dir_modes ps = concat (map (\<lambda>(p, n). if is_dir_node n then [(local_path mr p, nm_mode (node_meta_of n))] else []) xs)"
    using mi unfolding mirror_inv_def by blast
  have loc: "local_path ?m p = ?loc" "local_path mr p = ?loc" using mr(2) by (simp_all add: c(2) local_path_def)
  have st: "mr_state ?m p = map_option entry_of (map_of (nodes img0) p)" using fresh mr(3) by (simp add: c(2) map_add_def)
  define push where "push = (\<lambda>qs :: 'h pass. qs\<lparr>ps_dir_modes := ps_dir_modes qs @ (if is_dir_node n then [(?loc, nm_mode (node_meta_of n))] else [])\<rparr>)"
  have state: "mr_state mr ++ (map_option entry_of \<circ> map_of (xs @ [(p, n)])) = (mr_state mr ++ (map_option entry_of \<circ> map_of xs))(p \<mapsto> entry_of n)"
    unfolding xs by (auto simp: map_add_def fun_eq_iff)
  have placed: "disk_inv body dir (map_of (nodes img0)) (map_of (xs @ [(p, n)])) (placed ?loc (is_dir_node n) d ?V)"
    if "same_node d (on_disk body n)" for d
    unfolding xs by (rule disk_inv_place [OF inv that q(1,2) bw(4,3)])
  show ?thesis
  proof (cases "mr_state ?m p = Some (entry_of n) \<and> h_lstat H (ps_host ps) ?loc \<noteq> None")
    case True
    then have "?V ?loc \<noteq> None" using lstat [OF ok real_unlinked [OF real]] by simp
    then obtain n0 where n0: "map_of (nodes img0) p = Some n0" "?V ?loc = Some (on_disk body n0)" using bw(1) by auto
    with True st have "entry_of n0 = entry_of n" by simp
    with fp n0 p have d: "?V ?loc = Some (on_disk body n)" unfolding fingerprints_tell_def by metis
    have "placed ?loc (is_dir_node n) (on_disk body n) ?V = ?V"
      using placed_update [OF ok, of "is_dir_node n" ?loc "on_disk body n"] d on_disk_dir [of body n] by (simp add: fun_upd_idem) metis
    with placed [of "on_disk body n"] have "disk_inv body dir (map_of (nodes img0)) (map_of (xs @ [(p, n)])) ?V" by simp
    moreover have "mirror_inv A mr (xs @ [(p, n)]) (push ps)"
      unfolding mirror_inv_def state using c True modes loc(2) by (auto simp: push_def fun_upd_idem)
    moreover have "pass_step K H b ps (p, n) = Inr (push ps)" using True by (cases n) (simp_all add: pass_step_def Let_def loc push_def)
    ultimately show ?thesis using ok by (simp add: push_def)
  next
    case False
    have "\<exists>h' cache' d. write_node K H b (ps_host ps) ?m p n = (Inr (), h', ?m\<lparr>mr_replica := (mr_replica ?m)\<lparr>rp_blocks := cache'\<rparr>\<rparr>) \<and> A cache' \<and>
        ok h' \<and> same_node d (on_disk body n) \<and> view h' = placed ?loc (is_dir_node n) d ?V"
      using write_node_effect [OF ok, of ?m p n K b body A] real bw(2) temp_free [OF inv img(3,4) wb(3) q(1)] q(1,3) read modes_img c mr(1) p unfolding loc(1) by (simp add: c(2))
    then obtain h' cache' d where w: "write_node K H b (ps_host ps) ?m p n = (Inr (), h', ?m\<lparr>mr_replica := (mr_replica ?m)\<lparr>rp_blocks := cache'\<rparr>\<rparr>)" "A cache'"
        "ok h'" "same_node d (on_disk body n)" "view h' = placed ?loc (is_dir_node n) d ?V" by blast
    let ?ps = "ps\<lparr>ps_host := h', ps_mirror := ?m\<lparr>mr_replica := (mr_replica ?m)\<lparr>rp_blocks := cache'\<rparr>, mr_state := (mr_state ?m)(p \<mapsto> entry_of n)\<rparr>\<rparr>"
    have "pass_step K H b ps (p, n) = Inr (push ?ps)" using False w(1) by (cases n) (auto simp: pass_step_def Let_def loc push_def)
    moreover have "mirror_inv A mr (xs @ [(p, n)]) (push ?ps)"
      unfolding mirror_inv_def state using c(2) w(2) modes loc(2) by (auto simp: push_def)
    ultimately show ?thesis using w placed [OF w(4)] by (simp add: push_def)
  qed
qed

lemma pass_loop:
  assumes img: "tree_image img0" "tree_image img" "names_free img0" "names_free img" "no_link_flip img0 img"
    and fp: "fingerprints_tell body img0 img" and read: "readable K b body A img"
    and modes_img: "modes_allow may_write may_enter img"
    and mr: "rp_image (mr_replica mr) = img" "mr_dir mr = dir" "mr_state mr = map_option entry_of \<circ> map_of (nodes img0)"
    and split: "nodes img = xs @ ys"
    and ok: "ok (ps_host ps)" and inv: "disk_inv body dir (map_of (nodes img0)) (map_of xs) (view (ps_host ps))" and mi: "mirror_inv A mr xs ps"
  shows "\<exists>ps'. fold_res (pass_step K H b) ps ys = Inr ps' \<and> ok (ps_host ps') \<and>
    disk_inv body dir (map_of (nodes img0)) (map_of (nodes img)) (view (ps_host ps')) \<and> mirror_inv A mr (nodes img) ps'"
  using split ok inv mi
proof (induction ys arbitrary: xs ps)
  case (Cons x ys)
  obtain p n where x: "x = (p, n)" by (cases x)
  from pass_step_effect [OF img fp read modes_img mr Cons.prems(1) [unfolded x] Cons.prems(2-4)]
  obtain ps' where s: "pass_step K H b ps (p, n) = Inr ps'" "ok (ps_host ps')"
      "disk_inv body dir (map_of (nodes img0)) (map_of (xs @ [(p, n)])) (view (ps_host ps'))" "mirror_inv A mr (xs @ [(p, n)]) ps'" by blast
  from Cons.IH [OF _ s(2-4)] Cons.prems(1) s(1) show ?case by (simp add: x)
qed simp

end

text \<open>Deletions: what left the image goes, whatever happened to the directories above it.\<close>

lemma gone_unlinked:
  assumes img: "tree_image img0" "tree_image img" "names_free img0" "no_link_flip img0 img"
    and p: "map_of (nodes img0) p = Some n0" and dir: "real_path V dir"
    and old: "\<And>p n. old p = Some n \<Longrightarrow> map_of (nodes img0) p = Some n"
    and inv: "disk_inv body dir old (map_of (nodes img)) V"
  shows "unlinked V (dir @ components p)"
  unfolding unlinked_def
proof (intro conjI allI impI)
  show "plain (dir @ components p)" using dir by (simp add: real_path_def)
  have hdir: "is_hdir (V dir)" using inv by (simp add: disk_inv_def state_file_ok_def)
  fix q assume "strict_prefix q (dir @ components p)"
  then consider "strict_prefix q dir" | "q = dir" | r where "q = dir @ r" "r \<noteq> []" "strict_prefix r (components p)"
    by (auto simp: strict_prefix_def prefix_append)
  then show "\<not> is_hlink (V q)"
  proof cases
    case 1
    with dir show ?thesis by (fastforce simp: real_path_def)
  next
    case 2
    with hdir show ?thesis by auto
  next
    case (3 r)
    from tree_parent [OF img(1) p 3(3,2)] obtain m where m: "map_of (nodes img0) (abs_path r) = Some (Dir m)" "components (abs_path r) = r" .
    then have r: "r \<noteq> [STATE_FILE]" "proper_path (abs_path r)" using img(1,3) tree_proper by (auto simp: names_free_def)
    show ?thesis
    proof
      assume l: "is_hlink (V q)"
      then have "V (dir @ r) \<noteq> None" by (auto simp: 3)
      from inv this 3(2) r(1) show False
      proof (cases rule: disk_inv_other)
        case (1 p' n')
        then have "p' = abs_path r" using m(2) r(2) tree_proper [OF img(2)] by (simp flip: components_inj)
        moreover from disk_inv_new [OF inv 1(1)] l 1(2) have "is_link_node n'"
          by (cases n') (auto simp: 3 same_node_def is_link_node_def)
        ultimately show False using no_flip(1) [OF img(4) m(1)] 1(1) by simp
      next
        case (2 p' n')
        then have "p' = abs_path r" using m(2) r(2) tree_proper [OF img(1)] old by (simp flip: components_inj)
        with 2 old m(1) l show False by (auto simp: 3)
      qed
    qed
  qed
qed

context host_fs begin

lemma drop_loop:
  assumes img: "tree_image img0" "tree_image img" "names_free img0" "no_link_flip img0 img"
    and gs: "\<And>p. p \<in> set gs \<Longrightarrow> map_of (nodes img0) p \<noteq> None \<and> map_of (nodes img) p = None" and dir: "mr_dir (ps_mirror ps) = dir"
    and old: "\<And>p n. old p = Some n \<Longrightarrow> map_of (nodes img0) p = Some n"
    and ok: "ok (ps_host ps)" and inv: "disk_inv body dir old (map_of (nodes img)) (view (ps_host ps))"
  shows "let ps' = foldl (drop_path H) ps gs in ok (ps_host ps') \<and>
    disk_inv body dir (old |` (- set gs)) (map_of (nodes img)) (view (ps_host ps')) \<and> ps_dir_modes ps' = ps_dir_modes ps \<and>
    ps_mirror ps' = (ps_mirror ps)\<lparr>mr_state := mr_state (ps_mirror ps) |` (- set gs)\<rparr>"
  using gs dir old ok inv
proof (induction gs arbitrary: ps old)
  case (Cons p gs)
  let ?ps = "drop_path H ps p" and ?loc = "dir @ components p"
  obtain n0 where p: "map_of (nodes img0) p = Some n0" "map_of (nodes img) p = None" using Cons.prems(1) [of p] by auto
  have pp: "proper_path p" "components p \<noteq> []" "components p \<noteq> [STATE_FILE]"
    using tree_proper [OF img(1) p(1)] img(3) p(1) by (auto simp: proper_path_def names_free_def)
  have new: "\<not> prefix (components p) (components p')" if "map_of (nodes img) p' \<noteq> None" for p'
  proof
    assume a: "prefix (components p) (components p')"
    from that obtain n' where n': "map_of (nodes img) p' = Some n'" by auto
    show False
    proof (cases "components p = components p'")
      case True
      with pp(1) tree_proper [OF img(2) n'] have "p = p'" by (simp add: components_inj)
      with p(2) n' show False by simp
    next
      case False
      with a have "strict_prefix (components p) (components p')" by (simp add: strict_prefix_def)
      from tree_parent [OF img(2) n' this pp(2)] p(2) pp(1) show False by (auto simp: proper_path_def)
    qed
  qed
  have u: "unlinked (view (ps_host ps)) ?loc"
    by (rule gone_unlinked [OF img p(1) real_dir [OF Cons.prems(4,5)] Cons.prems(3,5)])
  have loc: "local_path (ps_mirror ps) p = ?loc" using Cons.prems(2) by (simp add: local_path_def)
  note rm = remove_any_effect [OF Cons.prems(4) u] pp(2)
  have s: "ok (ps_host ?ps)" "disk_inv body dir (old(p := None)) (map_of (nodes img)) (view (ps_host ?ps))"
    "mr_dir (ps_mirror ?ps) = dir" "ps_dir_modes ?ps = ps_dir_modes ps"
    "ps_mirror ?ps = (ps_mirror ps)\<lparr>mr_state := (mr_state (ps_mirror ps))(p := None)\<rparr>"
    using rm disk_inv_drop [OF Cons.prems(5) pp(2,3) new] Cons.prems(2) by (simp_all add: drop_path_def loc)
  have r: "(f(p := None)) |` (- set gs) = f |` (- set (p # gs))" for f :: "string \<rightharpoonup> 'x" by (auto simp: restrict_map_def)
  have "let ps' = foldl (drop_path H) ?ps gs in ok (ps_host ps') \<and>
      disk_inv body dir ((old(p := None)) |` (- set gs)) (map_of (nodes img)) (view (ps_host ps')) \<and> ps_dir_modes ps' = ps_dir_modes ?ps \<and>
      ps_mirror ps' = (ps_mirror ?ps)\<lparr>mr_state := mr_state (ps_mirror ?ps) |` (- set gs)\<rparr>"
    by (rule Cons.IH [OF _ s(3) _ s(1,2)]) (use Cons.prems(1,3) in \<open>auto split: if_splits\<close>)
  then show ?case using r [of old] r [of "mr_state (ps_mirror ps)"] by (simp add: s(4,5) Let_def)
qed (simp add: Let_def restrict_map_def)

lemma mode_loop:
  assumes "ok h" "\<And>p m. (p, m) \<in> set ms \<Longrightarrow> is_hdir (view h p) \<and> want p = m \<and> may_enter (m AND PERM_BITS)"
  shows "let h' = foldl (\<lambda>h (loc, mode). apply_mode H h loc mode) h ms in
    ok h' \<and> view h' = (\<lambda>q. if q \<in> fst ` set ms then Some (HDir (want q AND PERM_BITS)) else view h q)"
  using assms
proof (induction ms arbitrary: h)
  case (Cons x ms)
  obtain p m where x: "x = (p, m)" by (cases x)
  then obtain m' where m': "view h p = Some (HDir m')" "want p = m" "may_enter (m AND PERM_BITS)" using Cons.prems(2) [of p m] by auto
  let ?h = "apply_mode H h p m"
  have h: "ok ?h" "view ?h = (view h)(p \<mapsto> HDir (want p AND PERM_BITS))"
    using apply_mode_effect [OF Cons.prems(1) m'(1), of m] m'(2,3) by simp_all
  have d: "is_hdir (view ?h q) \<and> want q = k \<and> may_enter (k AND PERM_BITS)" if "(q, k) \<in> set ms" for q k
    using Cons.prems(2) [of q k] that by (simp add: h(2))
  from Cons.IH [OF h(1) d] show ?case by (auto simp: x h(2) Let_def fun_eq_iff)
qed (simp add: Let_def)

lemma save_state_effect:
  assumes "ok h" "state_file_ok (view h) (mr_dir mr)" "view h (mr_dir mr @ [STATE_FILE @ ''.tmp'']) = None"
    and "md_json_state M (mr_state mr) = Inr bytes"
  shows "\<exists>h' m t. save_state M H h mr = (Inr (), h') \<and> ok h' \<and> view h' = (view h)(mr_dir mr @ [STATE_FILE] \<mapsto> HFile bytes m t)"
proof -
  let ?tmp = "mr_dir mr @ [STATE_FILE @ ''.tmp'']" and ?file = "mr_dir mr @ [STATE_FILE]"
  have dir: "is_hdir (view h (mr_dir mr))" using assms(2) by (simp add: state_file_ok_def)
  then have rd: "real_path (view h) (mr_dir mr)" using tree [OF assms(1)] by auto
  have snoc: "real_path (view h) (mr_dir mr @ [c])" if "c \<noteq> ''.''" "c \<noteq> ''..''" for c
    using rd dir that by (auto simp: real_path_def plain_def strict_prefix_def)
  have real: "real_path (view h) ?tmp" "real_path (view h) ?file" by (rule snoc; simp add: STATE_FILE_def)+
  obtain h1 m t where w: "h_write H h ?tmp bytes = (Inr (), h1)" "ok h1" "view h1 = (view h)(?tmp \<mapsto> HFile bytes m t)"
    using write_file [OF assms(1) real(1)] assms(3) by blast
  have "\<not> strict_prefix ?tmp ?file" by (auto dest: prefix_length_less)
  moreover have "\<not> is_hdir (view h ?file)" "?tmp \<noteq> ?file" using assms(2) by (auto simp: state_file_ok_def)
  ultimately have "\<exists>h2. h_rename H h1 ?tmp ?file = (Inr (), h2) \<and> ok h2 \<and> view h2 = (view h1)(?tmp := None, ?file \<mapsto> HFile bytes m t)"
    using w real by (intro rename) (auto simp: real_update)
  moreover have "(view h1)(?tmp := None) = view h" using w(3) assms(3) by auto
  ultimately obtain h2 where "h_rename H h1 ?tmp ?file = (Inr (), h2)" "ok h2" "view h2 = (view h)(?file \<mapsto> HFile bytes m t)" by auto
  with w(1) assms(4) show ?thesis
    by (intro exI [of _ h2] exI [of _ m] exI [of _ t]) (simp add: save_state_def Let_def map_err_def)
qed

end

end
