(* ===== verification/Mirror_Props.thy ===== *)
theory Mirror_Props
  imports Mirror_Sync Replica_Props
begin

text \<open>
  The directory mirror converges to the image of its replica, on every host that keeps the laws of
  \<open>host_fs\<close>, and the corner cases in which it does not.
\<close>

section \<open>A whole pass\<close>

text \<open>After the deletions and the modes the directory shows the image.\<close>

lemma disk_inv_shows:
  assumes inv: "disk_inv body dir old (map_of (nodes img)) V" and gone: "\<And>p. map_of (nodes img) p = None \<Longrightarrow> old p = None"
    and img: "tree_image img" "names_free img"
    and V': "V' = (\<lambda>q. if \<exists>p m. map_of (nodes img) p = Some (Dir m) \<and> q = dir @ components p then Some (HDir (want q AND PERM_BITS)) else V q)"
    and want: "\<And>p m. map_of (nodes img) p = Some (Dir m) \<Longrightarrow> want (dir @ components p) = nm_mode m"
  shows "shows_image body (V'(dir @ [STATE_FILE] \<mapsto> HFile d m t)) dir img" "state_file_ok V' dir" "V' (dir @ [STATE_FILE @ ''.tmp'']) = None"
proof -
  have comps: "components p \<noteq> []" "components p \<noteq> [STATE_FILE]" "components p \<noteq> [STATE_FILE @ ''.tmp'']" "proper_path p"
    if "map_of (nodes img) p = Some n" for p n
    using that img tree_proper [OF img(1) that] by (auto simp: names_free_def proper_path_def)
  have own: "V' (dir @ q) = V (dir @ q)" if "\<And>p n. map_of (nodes img) p = Some n \<Longrightarrow> components p \<noteq> q" for q
    using that by (auto simp: V')
  have "V' dir = V dir" using own [of "[]"] comps by simp
  moreover have "V' (dir @ [STATE_FILE]) = V (dir @ [STATE_FILE])" using own comps by simp
  ultimately show st: "state_file_ok V' dir" using inv by (simp add: disk_inv_def state_file_ok_def)
  have other: "\<exists>p n. map_of (nodes img) p = Some n \<and> components p = q" if "V (dir @ q) \<noteq> None" "q \<noteq> []" "q \<noteq> [STATE_FILE]" for q
    using disk_inv_other [OF inv that] gone by (metis option.distinct(1))
  show "V' (dir @ [STATE_FILE @ ''.tmp'']) = None"
  proof -
    have "V (dir @ [STATE_FILE @ ''.tmp'']) = None"
    proof (rule ccontr)
      assume "V (dir @ [STATE_FILE @ ''.tmp'']) \<noteq> None"
      from other [OF this] comps(3) show False by auto
    qed
    with own [of "[STATE_FILE @ ''.tmp'']"] comps show ?thesis by simp
  qed
  have node: "V' (dir @ components p) = Some (on_disk body n)" if n: "map_of (nodes img) p = Some n" for p n
  proof (cases "is_dir_node n")
    case True
    then obtain m where m: "n = Dir m" by (auto simp: is_dir_node_def)
    with n have "V' (dir @ components p) = Some (HDir (want (dir @ components p) AND PERM_BITS))" unfolding V' by auto
    with want [of p m] n m show ?thesis by simp
  next
    case False
    have "\<not> (\<exists>p' m. map_of (nodes img) p' = Some (Dir m) \<and> dir @ components p = dir @ components p')"
      using False n comps(4) components_inj by (auto simp: is_dir_node_def)
    then have "V' (dir @ components p) = V (dir @ components p)" unfolding V' by (rule if_not_P)
    with disk_inv_new [OF inv n] False on_disk_dir [of body n] show ?thesis by (auto simp: same_node_def)
  qed
  have only: "\<exists>p n. map_of (nodes img) p = Some n \<and> components p = q" if "V' (dir @ q) \<noteq> None" "q \<noteq> []" "q \<noteq> [STATE_FILE]" for q
    using own [of q] other [of q] that by metis
  show "shows_image body (V'(dir @ [STATE_FILE] \<mapsto> HFile d m t)) dir img"
    using st node only comps unfolding shows_image_def state_file_ok_def by simp
qed

lemma finite_entries: "finite (dom (map_option f \<circ> map_of xs))"
  by (rule finite_subset [OF _ finite_dom_map_of [of xs]]) auto

context host_fs begin

lemma materialize_effect:
  assumes img: "tree_image img0" "tree_image img" "names_free img0" "names_free img" "no_link_flip img0 img"
    and fp: "fingerprints_tell body img0 img" and read: "readable K b body A img"
    and modes_img: "modes_allow may_write may_enter img"
    and mr: "rp_image (mr_replica mr) = img" "mr_dir mr = dir" "mr_state mr = map_option entry_of \<circ> map_of (nodes img0)" "A (rp_blocks (mr_replica mr))"
    and keys: "\<And>st. finite (dom st) \<Longrightarrow> set (md_keys M st) = dom st" and json: "\<And>st. finite (dom st) \<Longrightarrow> \<exists>d. md_json_state M st = Inr d"
    and ok: "ok h" and disk: "shows_image body (view h) dir img0"
  shows "\<exists>h' cache. materialize K M H b h mr = (Inr (), h', mr\<lparr>mr_replica := (mr_replica mr)\<lparr>rp_blocks := cache\<rparr>,
      mr_state := map_option entry_of \<circ> map_of (nodes img)\<rparr>) \<and> ok h' \<and> shows_image body (view h') dir img"
proof -
  let ?ps = "\<lparr>ps_host = h, ps_mirror = mr, ps_dir_modes = []\<rparr>" and ?e = "\<lambda>img. map_option entry_of \<circ> map_of (nodes img)"
  have "mirror_inv A mr [] ?ps" using mr(4) by (auto simp: mirror_inv_def map_add_def comp_def intro!: exI [of _ "rp_blocks (mr_replica mr)"])
  then obtain ps1 where p1: "fold_res (pass_step K H b) ?ps (nodes img) = Inr ps1" "ok (ps_host ps1)"
      "disk_inv body dir (map_of (nodes img0)) (map_of (nodes img)) (view (ps_host ps1))" "mirror_inv A mr (nodes img) ps1"
    using pass_loop [OF img fp read modes_img mr(1-3), of "[]" "nodes img" ?ps] ok shows_disk_inv [OF disk] by auto
  from p1(4) obtain cache where c: "ps_mirror ps1 = mr\<lparr>mr_replica := (mr_replica mr)\<lparr>rp_blocks := cache\<rparr>, mr_state := ?e img0 ++ ?e img\<rparr>"
    and modes: "ps_dir_modes ps1 = concat (map (\<lambda>(p, n). if is_dir_node n then [(local_path mr p, nm_mode (node_meta_of n))] else []) (nodes img))"
    unfolding mirror_inv_def mr(3) by blast
  define gs where "gs = gone_paths M img (mr_state (ps_mirror ps1))"
  have "set gs = {p \<in> dom (?e img0 ++ ?e img). map_of (nodes img) p = None}"
  proof -
    have "finite (dom (?e img0 ++ ?e img))" by (simp only: dom_map_add finite_Un finite_entries simp_thms)
    from keys [OF this] show ?thesis unfolding gs_def gone_paths_def by (auto simp: c)
  qed
  then have gs: "p \<in> set gs \<longleftrightarrow> map_of (nodes img0) p \<noteq> None \<and> map_of (nodes img) p = None" for p
    by (auto simp: map_add_def dom_def)
  define ps2 where "ps2 = foldl (drop_path H) ps1 gs"
  have p2: "ok (ps_host ps2)" "disk_inv body dir (map_of (nodes img0) |` (- set gs)) (map_of (nodes img)) (view (ps_host ps2))"
      "ps_dir_modes ps2 = ps_dir_modes ps1" "ps_mirror ps2 = (ps_mirror ps1)\<lparr>mr_state := mr_state (ps_mirror ps1) |` (- set gs)\<rparr>"
    using drop_loop [OF img(1-3,5), of gs ps1 dir "map_of (nodes img0)" body] gs p1(2,3) c mr(2) by (simp_all add: Let_def ps2_def)
  have "mr_state (ps_mirror ps2) = ?e img"
    unfolding p2(4) c using gs by (auto simp: fun_eq_iff restrict_map_def map_add_def split: option.split)
  then have m2: "ps_mirror ps2 = mr\<lparr>mr_replica := (mr_replica mr)\<lparr>rp_blocks := cache\<rparr>, mr_state := ?e img\<rparr>"
    unfolding p2(4) c by simp
  define want where "want = (\<lambda>q. nm_mode (node_meta_of (the (map_of (nodes img) (abs_path (drop (length dir) q))))))"
  have want: "want (dir @ components p) = nm_mode m" if "map_of (nodes img) p = Some (Dir m)" for p m
    using that tree_proper [OF img(2) that] by (simp add: want_def proper_path_def)
  have dist: "distinct (map fst (nodes img))" using img(2) by (simp add: tree_image_def fs_ok_def bt_distinct)
  have ms: "(q, k) \<in> set (ps_dir_modes ps2) \<longleftrightarrow> (\<exists>p m. map_of (nodes img) p = Some (Dir m) \<and> q = dir @ components p \<and> k = nm_mode m)" for q k
    unfolding p2(3) modes map_of_eq_Some_iff [OF dist] using mr(2) by (force simp: local_path_def is_dir_node_def split: if_splits)
  define h3 where "h3 = foldl (\<lambda>h (loc, mode). apply_mode H h loc mode) (ps_host ps2) (ps_dir_modes ps2)"
  have "is_hdir (view (ps_host ps2) q) \<and> want q = k \<and> may_enter (k AND PERM_BITS)" if q: "(q, k) \<in> set (ps_dir_modes ps2)" for q k
  proof -
    from q obtain p m where p: "map_of (nodes img) p = Some (Dir m)" "q = dir @ components p" "k = nm_mode m" unfolding ms by blast
    then have "may_enter (k AND PERM_BITS)" using modes_img unfolding modes_allow_def by fastforce
    with p disk_inv_new [OF p2(2)] want show ?thesis by (fastforce simp: same_node_def)
  qed
  from mode_loop [OF p2(1) this] have h3: "ok h3" "view h3 = (\<lambda>q. if q \<in> fst ` set (ps_dir_modes ps2) then Some (HDir (want q AND PERM_BITS)) else view (ps_host ps2) q)"
    by (simp_all add: h3_def Let_def)
  have "q \<in> fst ` set (ps_dir_modes ps2) \<longleftrightarrow> (\<exists>p m. map_of (nodes img) p = Some (Dir m) \<and> q = dir @ components p)" for q
    using ms by (force simp: image_iff)
  with h3(2) have v3: "view h3 = (\<lambda>q. if \<exists>p m. map_of (nodes img) p = Some (Dir m) \<and> q = dir @ components p then Some (HDir (want q AND PERM_BITS)) else view (ps_host ps2) q)"
    by simp
  have none: "(map_of (nodes img0) |` (- set gs)) p = None" if "map_of (nodes img) p = None" for p
    using that gs by (auto simp: restrict_map_def)
  note sh = disk_inv_shows [OF p2(2) none img(2,4) v3 want]
  obtain d where d: "md_json_state M (?e img) = Inr d" using json finite_entries by blast
  have "mr_dir (ps_mirror ps2) = dir" "mr_state (ps_mirror ps2) = ?e img" using m2 mr(2) by simp_all
  with save_state_effect [OF h3(1), of "ps_mirror ps2" M d] sh(2,3) d
  obtain h4 m t where s: "save_state M H h3 (ps_mirror ps2) = (Inr (), h4)" "ok h4" "view h4 = (view h3)(dir @ [STATE_FILE] \<mapsto> HFile d m t)" by auto
  have "materialize K M H b h mr = (Inr (), h4, ps_mirror ps2)"
    using p1(1) s(1) unfolding materialize_def Let_def mr(1) by (simp add: gs_def [symmetric] ps2_def [symmetric] h3_def [symmetric])
  with m2 s(2,3) sh(1) show ?thesis by auto
qed

end

section \<open>Property\<close>

text \<open>C12: a sync of the mirror converges: on a host whose calls do what they document, when the directory shows the image of the
  last pass and the replica has caught up, \<open>sync_once\<close> succeeds with the version reached, and the directory then
  has exactly the files, directories and links of the replica's image, with their content, modes and times, and the
  state file; the recorded fingerprints are those of the image. This holds when between the two images no directory became a
  link or the other way round, equal fingerprints belong to equal nodes, no path has one of the mirror's own names, and
  the modes of the new image let the mirror's process open the files for writing and work in the directories, which is
  no condition for a privileged process. The corner cases below show passes in which a link
  flip, an equal fingerprint or a read-only mode gets in the way.\<close>

theorem mirror_sync_converges:
  assumes host: "host_fs H view ok may_write may_enter" and bk: "bucket K objects"
    and before: "ok h" "shows_image (content_bytes K objects b) (view h) (mr_dir mr) img0" "mr_state mr = map_option entry_of \<circ> map_of (nodes img0)"
    and sync: "replica_sync C Q K clk rs b (mr_replica mr) = (Inr u, rp)"
    and stored: "\<forall>p c m. map_of (nodes (rp_image rp)) p = Some (File c m) \<longrightarrow> content_stored K objects b c" "cache_agrees K objects b (rp_blocks rp)"
    and img: "tree_image img0" "tree_image (rp_image rp)" "names_free img0" "names_free (rp_image rp)" "no_link_flip img0 (rp_image rp)"
      "fingerprints_tell (content_bytes K objects b) img0 (rp_image rp)"
    and modes: "modes_allow may_write may_enter (rp_image rp)"
    and keys: "\<forall>st. finite (dom st) \<longrightarrow> set (md_keys M st) = dom st" and json: "\<forall>st. finite (dom st) \<longrightarrow> (\<exists>d. md_json_state M st = Inr d)"
  shows "\<exists>h' mr'. sync_once C Q K M H clk rs b h mr = (Inr (case rp_cursor rp of None \<Rightarrow> 0 | Some c \<Rightarrow> c), h', mr') \<and> ok h' \<and>
     shows_image (content_bytes K objects b) (view h') (mr_dir mr) (rp_image rp) \<and>
     mr_state mr' = map_option entry_of \<circ> map_of (nodes (rp_image rp)) \<and> rp_image (mr_replica mr') = rp_image rp \<and> mr_dir mr' = mr_dir mr"
proof -
  have "readable K b (content_bytes K objects b) (cache_agrees K objects b) (rp_image rp)"
    unfolding readable_def using bucket.read_whole [OF bk] stored(1) by blast
  from host_fs.materialize_effect [OF host img this modes, of "mr\<lparr>mr_replica := rp\<rparr>" "mr_dir mr" M h] before stored(2) keys json
  obtain h' cache where "materialize K M H b h (mr\<lparr>mr_replica := rp\<rparr>) = (Inr (), h',
      mr\<lparr>mr_replica := rp\<lparr>rp_blocks := cache\<rparr>, mr_state := map_option entry_of \<circ> map_of (nodes (rp_image rp))\<rparr>)" "ok h'"
      "shows_image (content_bytes K objects b) (view h') (mr_dir mr) (rp_image rp)" by auto
  then show ?thesis using sync by (simp add: sync_once_def)
qed

text \<open>A mirror of a directory \<open>/old\<close> whose volume has moved on to a directory with a file and a link.\<close>

definition example_mirrored :: fs_image where
  "example_mirrored = \<lparr>nodes = [(''/old'', Dir (meta_dir 3))]\<rparr>"

definition example_image :: fs_image where
  "example_image = \<lparr>nodes = [(''/d'', Dir (meta_dir 5)), (''/d/f'', File (Inline ''hi'') (meta_file 6)), (''/l'', Symlink ''d/f'' (meta_symlink 7))]\<rparr>"

definition example_host :: host_view where
  "example_host = [[] \<mapsto> HDir 493, [''mnt''] \<mapsto> HDir 493, [''mnt'', ''old''] \<mapsto> HDir 493]"

definition example_mirror :: mirror where
  "example_mirror =
     \<lparr>mr_replica = \<lparr>rp_vol = ''a'', rp_image = example_image, rp_cursor = None, rp_blocks = Map.empty\<rparr>,
      mr_dir = [''mnt''], mr_state = map_option entry_of \<circ> map_of (nodes example_mirrored)\<rparr>"

definition example_mirror_deps :: mirror_deps where
  "example_mirror_deps =
     \<lparr>md_json_state = (\<lambda>_. Inr []), md_unjson_state = (\<lambda>_. Inr Map.empty), md_keys = (\<lambda>st. sorted_list_of_set (dom st))\<rparr>"

lemma example_components:
  "components ''/old'' = [''old'']" "components ''/d'' = [''d'']" "components ''/d/f'' = [''d'', ''f'']" "components ''/l'' = [''l'']"
  by (simp_all add: components_def)

lemma example_modes: "493 AND PERM_BITS = (493 :: nat)" "420 AND PERM_BITS = (420 :: nat)"
  by simp_all

lemma example_keys:
  "map_of (nodes example_mirrored) p = Some n \<longleftrightarrow> p = ''/old'' \<and> n = Dir (meta_dir 3)"
  "map_of (nodes example_image) p = Some n \<longleftrightarrow> p = ''/d'' \<and> n = Dir (meta_dir 5) \<or>
     p = ''/d/f'' \<and> n = File (Inline ''hi'') (meta_file 6) \<or> p = ''/l'' \<and> n = Symlink ''d/f'' (meta_symlink 7)"
  by (auto simp: example_mirrored_def example_image_def)

lemma strict_prefix_pair: "strict_prefix q [x] \<longleftrightarrow> q = []" "strict_prefix q [x, y] \<longleftrightarrow> q = [] \<or> q = [x]"
  by (auto simp: strict_prefix_def prefix_Cons)

lemma example_ok: "fs_ok example_mirrored" "fs_ok example_image"
  by (simp_all add: fs_ok_def bt_ok_def example_mirrored_def example_image_def)

lemma example_proper: "proper_path ''/old''" "proper_path ''/d''" "proper_path ''/d/f''" "proper_path ''/l''"
  by (simp_all add: example_components proper_path_def abs_path_def)

lemma example_parent: "abs_path [''d''] = ''/d''"
  by (simp add: abs_path_def)

lemma example_trees: "tree_image example_mirrored" "tree_image example_image"
proof -
  have "\<exists>m. map_of (nodes example_image) (abs_path [''d'']) = Some (Dir m)" by (simp add: example_parent example_keys)
  with example_ok example_proper show "tree_image example_mirrored" "tree_image example_image"
    unfolding tree_image_def by (auto simp only: example_keys(1) example_keys(2) example_components strict_prefix_pair)
qed

lemma mirror_example_names: "names_free example_mirrored" "names_free example_image"
  unfolding names_free_def example_keys by (auto simp: example_components STATE_FILE_def dest: suffix_length_le)

lemma example_shows: "mh_ok example_host" "shows_image body example_host [''mnt''] example_mirrored"
  by (auto simp: mh_ok_def real_path_def plain_def example_host_def strict_prefix_def prefix_Cons
      shows_image_def state_file_ok_def example_mirrored_def example_components example_modes STATE_FILE_def meta_dir_def meta_with_def split: if_splits)

lemma mirror_example_sync: "replica_sync mem_codec mem_fs mem_bucket_ops clk (\<lambda>_. db_reader mem_ops mem_empty) [] (mr_replica example_mirror) = (Inr (), mr_replica example_mirror)"
proof -
  have "retained mem_codec mem_fs mem_bucket_ops (mem_content mem_empty) [] ''a'' [] 0 None"
    by (simp add: retained_def history_def pick_def stored_def deltas_of_def)
  note rd = retained_read [OF this mem.serves_db, of 0, simplified]
  have snap: "reader_latest_snapshot mem_codec (db_reader mem_ops mem_empty) ''a'' = Inr None"
  proof -
    obtain l where l: "kv_scan (db_reader mem_ops mem_empty) (snap_prefix ''a'') = Inr l"
        "is_scan (mem_content mem_empty) (snap_prefix ''a'') (Unbounded, Unbounded) l"
      using serves_scan [OF mem.serves_db] by metis
    then have "set l = {}" by (auto simp: is_scan_def in_scan_set)
    with l(1) show ?thesis by (simp add: reader_latest_snapshot_def kv_latest_snapshot_def)
  qed
  show ?thesis by (simp add: replica_sync_def example_mirror_def rd sync_gap_def snap)
qed

theorem mirror_sync_converges_witness:
  "\<exists>h' mr'. sync_once mem_codec mem_fs mem_bucket_ops example_mirror_deps (mem_host_ops False) (\<lambda>_. 0) (\<lambda>_. db_reader mem_ops mem_empty) [] example_host example_mirror =
       (Inr 0, h', mr') \<and>
     h' [''mnt'', ''d'', ''f''] = Some (HFile ''hi'' 420 (ts 6)) \<and> h' [''mnt'', ''l''] = Some (HLink ''d/f'') \<and> h' [''mnt'', ''old''] = None"
proof -
  let ?body = "content_bytes mem_bucket_ops map_of []"
  have dir: "mr_dir example_mirror = [''mnt'']" and rp: "rp_image (mr_replica example_mirror) = example_image" "rp_cursor (mr_replica example_mirror) = None"
    and st: "mr_state example_mirror = map_option entry_of \<circ> map_of (nodes example_mirrored)" by (simp_all add: example_mirror_def)
  have sh: "shows_image ?body example_host (mr_dir example_mirror) example_mirrored" unfolding dir by (rule example_shows)
  have stored: "\<forall>p c m. map_of (nodes (rp_image (mr_replica example_mirror))) p = Some (File c m) \<longrightarrow> content_stored mem_bucket_ops map_of [] c"
    unfolding rp example_keys by auto
  have ca: "cache_agrees mem_bucket_ops map_of [] (rp_blocks (mr_replica example_mirror))" by (simp add: example_mirror_def cache_agrees_def)
  have fl: "no_link_flip example_mirrored (rp_image (mr_replica example_mirror))" unfolding no_link_flip_def rp example_keys by auto
  have fp: "fingerprints_tell ?body example_mirrored (rp_image (mr_replica example_mirror))" unfolding fingerprints_tell_def rp example_keys by auto
  have modes: "modes_allow (owner_writes False) (\<lambda>_. True) (rp_image (mr_replica example_mirror))"
    unfolding modes_allow_def rp example_keys by (auto simp: owner_writes_def meta_file_def meta_with_def)
  have deps: "\<forall>st. finite (dom st) \<longrightarrow> set (md_keys example_mirror_deps st) = dom st"
    "\<forall>st. finite (dom st) \<longrightarrow> (\<exists>d. md_json_state example_mirror_deps st = Inr d)" by (simp_all add: example_mirror_deps_def)
  have trees: "tree_image (rp_image (mr_replica example_mirror))" "names_free (rp_image (mr_replica example_mirror))"
    unfolding rp by (rule example_trees mirror_example_names)+
  have sync: "replica_sync mem_codec mem_fs mem_bucket_ops (\<lambda>_. 0) (\<lambda>_. db_reader mem_ops mem_empty) [] (mr_replica example_mirror) =
      (Inr (), mr_replica example_mirror)" by (rule mirror_example_sync)
  from mirror_sync_converges [where H = "mem_host_ops False" and view = "\<lambda>V. V" and ok = mh_ok and h = example_host,
      OF mem_host.host_fs_axioms mem_bk.bucket_axioms example_shows(1) sh st sync stored ca example_trees(1) trees(1) mirror_example_names(1) trees(2) fl fp modes deps]
  obtain h' mr' where s: "sync_once mem_codec mem_fs mem_bucket_ops example_mirror_deps (mem_host_ops False) (\<lambda>_. 0) (\<lambda>_. db_reader mem_ops mem_empty) [] example_host example_mirror =
       (Inr 0, h', mr')" "shows_image ?body h' [''mnt''] example_image"
    by (auto simp: dir rp)
  have on: "h' ([''mnt''] @ components p) = Some (on_disk ?body n)" if "map_of (nodes example_image) p = Some n" for p n
    using s(2) that by (simp add: shows_image_def)
  have "h' [''mnt'', ''d'', ''f''] = Some (HFile ''hi'' 420 (ts 6))"
    using on [of "''/d/f''" "File (Inline ''hi'') (meta_file 6)"] by (simp add: example_keys example_components meta_file_def meta_with_def)
  moreover have "h' [''mnt'', ''l''] = Some (HLink ''d/f'')"
    using on [of "''/l''" "Symlink ''d/f'' (meta_symlink 7)"] by (simp add: example_keys example_components)
  moreover have "h' [''mnt'', ''old''] = None"
  proof (rule ccontr)
    assume "h' [''mnt'', ''old''] \<noteq> None"
    then have "\<exists>p n. map_of (nodes example_image) p = Some n \<and> components p = [''old'']"
      using s(2) by (auto simp: shows_image_def STATE_FILE_def)
    then show False unfolding example_keys by (auto simp: example_components)
  qed
  ultimately show ?thesis using s(1) by blast
qed

section \<open>Corner cases\<close>

text \<open>
  A directory of the image stays a symbolic link on the host when the link leads to a directory: the
  check follows it, so the entry is recorded and later writes below it go where the link points.
\<close>

theorem mirror_keeps_dir_link:
  assumes "ensure_parent H h (local_path mr path) = (Inr (), h1)" "h_lstat H h1 (local_path mr path) = Some HostLink"
    "h_is_dir H h1 (local_path mr path)"
  shows "write_node K H b h mr path (Dir meta) = (Inr (), h1, mr)"
  using assms by (simp add: write_node_def)

text \<open>
  Overwriting bytes of a file keeps its size, and a write delta keeps its times: the fingerprint is the
  same, so the pass leaves the old content on disk.
\<close>

theorem mirror_misses_overwrite:
  assumes "map_of (nodes img) p = Some (File (Inline d) m)" "offset + length data \<le> length d"
    and "mr_state (ps_mirror ps) p = Some (entry_of (File (Inline d) m))" "h_lstat H (ps_host ps) (local_path (ps_mirror ps) p) \<noteq> None"
  shows "pass_step K H b ps (p, the (map_of (nodes (fs_apply now img (Write p offset (InlineData data)))) p)) = Inr ps"
proof -
  have "length (splice d offset data) = length d" using assms(2) by (simp add: splice_def Let_def)
  then have "entry_of (File (Inline (splice d offset data)) m) = entry_of (File (Inline d) m)" by (simp add: content_len_def)
  with assms show ?thesis by (simp add: apply_write_def pass_step_def Let_def)
qed

text \<open>
  A directory that becomes a link: the deletion of a path that was below it follows the new link, and
  removes a file of the host outside the mirror.
\<close>

definition link_image :: fs_image where
  "link_image = \<lparr>nodes = [(''/a'', Symlink ''/etc'' (meta_symlink 7))]\<rparr>"

definition link_mirror :: mirror where
  "link_mirror =
     \<lparr>mr_replica = \<lparr>rp_vol = ''a'', rp_image = link_image, rp_cursor = None, rp_blocks = Map.empty\<rparr>, mr_dir = [''mnt''],
      mr_state = [''/a'' \<mapsto> entry_of (Dir (meta_dir 5)), ''/a/b'' \<mapsto> entry_of (File (Inline ''x'') (meta_file 6))]\<rparr>"

definition link_host :: host_view where
  "link_host = [[] \<mapsto> HDir 493, [''etc''] \<mapsto> HDir 493, [''etc'', ''b''] \<mapsto> HFile ''keep'' 420 0,
     [''mnt''] \<mapsto> HDir 493, [''mnt'', ''a''] \<mapsto> HDir 493, [''mnt'', ''a'', ''b''] \<mapsto> HFile ''x'' 420 6]"

definition link_deps :: mirror_deps where
  "link_deps = \<lparr>md_json_state = (\<lambda>_. Inr []), md_unjson_state = (\<lambda>_. Inr Map.empty),
     md_keys = (\<lambda>st. filter (\<lambda>p. st p \<noteq> None) [''/a'', ''/a/b''])\<rparr>"

theorem mirror_deletes_through_link:
  "link_host [''etc'', ''b''] = Some (HFile ''keep'' 420 0) \<and>
   (case materialize mem_bucket_ops link_deps (mem_host_ops True) [] link_host link_mirror of
      (r, h', _) \<Rightarrow> r = Inr () \<and> h' [''mnt'', ''a''] = Some (HLink ''/etc'') \<and> h' [''etc'', ''b''] = None)"
  by code_simp

text \<open>
  A process without privileges cannot open a file for writing once it is read-only, so its time is
  never set; the fingerprint records the time all the same, and no later pass sets it.
\<close>

definition read_only_image :: fs_image where
  "read_only_image = \<lparr>nodes = [(''/a'', File (Inline ''x'') ((meta_file 6)\<lparr>nm_mode := 292\<rparr>))]\<rparr>"

definition read_only_mirror :: mirror where
  "read_only_mirror =
     \<lparr>mr_replica = \<lparr>rp_vol = ''a'', rp_image = read_only_image, rp_cursor = None, rp_blocks = Map.empty\<rparr>, mr_dir = [''mnt''],
      mr_state = Map.empty\<rparr>"

theorem mirror_misses_time:
  "case materialize mem_bucket_ops link_deps (mem_host_ops False) [] [[] \<mapsto> HDir 493, [''mnt''] \<mapsto> HDir 493] read_only_mirror of
     (r, h', mr') \<Rightarrow> r = Inr () \<and> h' [''mnt'', ''a''] = Some (HFile ''x'' 292 0) \<and> map_option se_mtime_ms (mr_state mr' ''/a'') = Some 6"
  by (simp add: read_only_mirror_def read_only_image_def materialize_def pass_step_def write_node_def write_file_node_def ensure_parent_def
      local_path_def components_def mem_host_ops_def mh_at_def write_file_atomic_def with_extension_def rfind_def apply_mode_def owner_writes_def
      replica_read_file_def image_read_file_def read_content_def slice_of_def gone_paths_def link_deps_def save_state_def STATE_FILE_def mh_edit_def
      made_dirs_def content_len_def meta_file_def meta_with_def Let_def)

end
