(* ===== verification/Landslidefs.thy ===== *)
theory Landslidefs
  imports Program Mirror_Props Volume_Props
begin

text \<open>
  The command line tool of the file-system crate (\<open>landslide-fuse/src/bin/landslidefs.rs\<close>) and its
  examples \<open>sidecar.rs\<close> and \<open>churn.rs\<close>: the choice of the bucket and of the database from the
  environment, the commands and their arguments, and what each command does with the volume, the
  replica and the mirror. Outside are the object stores, SlateDB's builders and \<open>fuser\<close> (fields of
  \<open>cli_deps\<close>), the reading of a path by the host, and, in \<open>cli_env\<close>, the process environment, the
  clocks and what the reader sees in each of its reads.
\<close>

section \<open>Mounts\<close>

datatype mount_option = CustomOption string | DefaultPermissions | ReadOnlyOption

definition fuse_mount ::
  "(('s, 'b) landslide_fs \<Rightarrow> string \<Rightarrow> mount_option list \<Rightarrow> (string + unit) \<times> ('s, 'b) landslide_fs) \<Rightarrow> ('s, 't, 'b) fuse_deps \<Rightarrow>
   's volume_env \<Rightarrow> 's \<Rightarrow> 'b \<Rightarrow> string \<Rightarrow> string \<Rightarrow> (unit res \<times> 's \<times> 'b) option" where
  "fuse_mount fuser D E s b vol mountpoint =
     map_option (\<lambda>(r, s'). case r of
         Inl e \<Rightarrow> (Inl e, s', b)
       | Inr fs \<Rightarrow> (case fuser fs mountpoint [] of (r', fs') \<Rightarrow>
           (map_err (\<lambda>e. InvalidInput (''fuse mount: '' @ e)) r', lf_store fs', lf_bucket fs')))
     (mount_volume D E s b vol)"

definition fuse_mount_replica ::
  "(('s, 'b) landslide_fs \<Rightarrow> string \<Rightarrow> mount_option list \<Rightarrow> (string + unit) \<times> ('s, 'b) landslide_fs) \<Rightarrow> ('s, 't, 'b) fuse_deps \<Rightarrow>
   (nat \<Rightarrow> i64) \<Rightarrow> (nat \<Rightarrow> kv_read) \<Rightarrow> 's \<Rightarrow> 'b \<Rightarrow> string \<Rightarrow> string \<Rightarrow> unit res \<times> 's \<times> 'b" where
  "fuse_mount_replica fuser D clk rs s b vol mountpoint =
     (case mount_replica D clk rs s b vol of
        Inl e \<Rightarrow> (Inl e, s, b)
      | Inr fs \<Rightarrow> (case fuser fs mountpoint [CustomOption ''allow_other'', DefaultPermissions, ReadOnlyOption] of (r', fs') \<Rightarrow>
          (map_err (\<lambda>e. InvalidInput (''fuse mount: '' @ e)) r', lf_store fs', lf_bucket fs')))"

text \<open>\<open>Mirror::run\<close>: the passes up to the interruption, with the log of the failed ones.\<close>

fun mirror_run ::
  "(slate_error \<Rightarrow> string) \<Rightarrow> codec \<Rightarrow> fs_codec \<Rightarrow> 'b bucket_ops \<Rightarrow> mirror_deps \<Rightarrow> 'h host_ops \<Rightarrow> (nat \<Rightarrow> i64) \<Rightarrow> string \<Rightarrow>
   (nat \<Rightarrow> kv_read) list \<Rightarrow> 'b \<Rightarrow> 'h \<Rightarrow> mirror \<Rightarrow> line list \<times> 'h \<times> mirror" where
  "mirror_run slate C Q K M H clk dir [] b h mr = ([], h, mr)"
| "mirror_run slate C Q K M H clk dir (rs # passes) b h mr =
     (case sync_once C Q K M H clk rs b h mr of (r, h1, mr1) \<Rightarrow>
        apfst (\<lambda>out. (case r of
            Inl e \<Rightarrow> [Stderr (''landslide-mirror: sync of '' @ debug_str dir @ '' failed: '' @ error_text slate e @ ''; retrying next pass'')]
          | Inr _ \<Rightarrow> []) @ out)
        (mirror_run slate C Q K M H clk dir passes b h1 mr1))"

section \<open>Dependencies and environment\<close>

record ('s, 't, 'b, 'h, 'r) cli_deps =
  cd_fuse :: "('s, 't, 'b) fuse_deps"
  cd_mirror :: mirror_deps
  cd_host :: "'h host_ops"
  cd_path :: "string \<Rightarrow> host_path"
  cd_s3 :: "string \<Rightarrow> string \<Rightarrow> string + 'b"
  cd_local :: "string \<Rightarrow> string + 'b"
  cd_build :: "string \<Rightarrow> 'b \<Rightarrow> slate_settings \<Rightarrow> slate_error + 's"
  cd_stock :: slate_settings
  cd_open_db :: "string \<Rightarrow> 'b \<Rightarrow> reader_options \<Rightarrow> slate_error + 'r"
  cd_reader_stock :: reader_options
  cd_fuser :: "('s, 'b) landslide_fs \<Rightarrow> string \<Rightarrow> mount_option list \<Rightarrow> (string + unit) \<times> ('s, 'b) landslide_fs"
  cd_with_fuse :: bool
  cd_slate_text :: "slate_error \<Rightarrow> string"

text \<open>\<open>ce_reads r k\<close> are the reads of the k-th sync over the reader \<open>r\<close>; after \<open>ce_passes\<close> passes a mirror
  that follows is interrupted; \<open>ce_db\<close> is the database behind a replica mount.\<close>

record ('s, 'h, 'r) cli_env =
  ce_var :: "string \<Rightarrow> string option"
  ce_args :: "string list"
  ce_volume :: "'s volume_env"
  ce_clock :: "nat \<Rightarrow> i64"
  ce_reads :: "'r \<Rightarrow> nat \<Rightarrow> nat \<Rightarrow> kv_read"
  ce_passes :: nat
  ce_db :: "'r \<Rightarrow> 's"
  ce_host :: 'h

type_synonym ('s, 'b, 'h) cli_result = "((stop + unit) \<times> line list \<times> 's option \<times> 'b option \<times> 'h) option"

definition cli_bucket :: "('s, 't, 'b, 'h, 'r) cli_deps \<Rightarrow> (string \<Rightarrow> string option) \<Rightarrow> 'b res" where
  "cli_bucket D var =
     (case var ''LANDSLIDE_BUCKET'' of
        Some bucket_name \<Rightarrow>
          expect_ok ''s3 build'' (cd_s3 D bucket_name (var_or var ''LANDSLIDE_REGION'' (var_or var ''AWS_REGION'' ''us-east-1'')))
      | None \<Rightarrow> expect_ok ''local fs'' (cd_local D (var_or var ''LANDSLIDE_BUCKET_DIR'' ''/tmp/landslide-bucket'')))"

definition cli_path :: "(string \<Rightarrow> string option) \<Rightarrow> string" where
  "cli_path var = var_or var ''LANDSLIDE_PATH'' ''landslidefs/churn''"

definition cli_reader :: "('s, 't, 'b, 'h, 'r) cli_deps \<Rightarrow> (string \<Rightarrow> string option) \<Rightarrow> 'b \<Rightarrow> 'r res" where
  "cli_reader D var b =
     reader_open (cd_open_db D) (cd_reader_stock D)
       \<lparr>rc_path = cli_path var, rc_object_store = b,
        rc_options = Some ((cd_reader_stock D)\<lparr>manifest_poll_interval := parse_or 500 (var ''LANDSLIDE_POLL_MS'')\<rparr>)\<rparr>"

definition cli_store :: "('s, 't, 'b, 'h, 'r) cli_deps \<Rightarrow> (string \<Rightarrow> string option) \<Rightarrow> 'b \<Rightarrow> 's res" where
  "cli_store D var b =
     store_open (cd_build D) (cd_stock D) \<lparr>cf_path = cli_path var, cf_object_store = b, cf_settings = None\<rparr>"

section \<open>Commands\<close>

datatype cli_command =
    MountCmd string string
  | FollowCmd string string u64
  | MirrorOnce string string
  | MirrorFollow string string u64
  | CheckpointCmd string
  | VerifyCmd string
  | UsageCmd string

definition usage_main :: string where
  "usage_main = ''usage: landslidefs <mount|follow|mirror|checkpoint|verify> <vol> [mountpoint|dir] [interval-ms]''"

definition usage_mirror :: string where
  "usage_mirror = ''usage: landslidefs mirror <once|follow> <vol> <dir> [interval-ms]''"

text \<open>\<open>args.next()\<close> at a position of the argument list.\<close>

definition arg :: "string list \<Rightarrow> nat \<Rightarrow> string option" where
  "arg args i = (if i < length args then Some (args ! i) else None)"

definition cli_parse :: "bool \<Rightarrow> string list \<Rightarrow> cli_command res" where
  "cli_parse with_fuse args =
     (let cmd = (case arg args 0 of None \<Rightarrow> ''help'' | Some c \<Rightarrow> c) in
      if with_fuse \<and> cmd = ''mount'' then
        bind_res (expect ''usage: landslidefs mount <vol> <mountpoint>'' (arg args 1)) (\<lambda>vol.
        bind_res (expect ''usage: landslidefs mount <vol> <mountpoint>'' (arg args 2)) (\<lambda>mp. Inr (MountCmd vol mp)))
      else if with_fuse \<and> cmd = ''follow'' then
        bind_res (expect ''usage: landslidefs follow <vol> <mountpoint> [interval-ms]'' (arg args 1)) (\<lambda>vol.
        bind_res (expect ''usage: landslidefs follow <vol> <mountpoint> [interval-ms]'' (arg args 2)) (\<lambda>mp.
          Inr (FollowCmd vol mp (parse_or 2000 (arg args 3)))))
      else if cmd = ''mirror'' then
        (let sub = (case arg args 1 of None \<Rightarrow> ''follow'' | Some c \<Rightarrow> c) in
         bind_res (expect usage_mirror (arg args 2)) (\<lambda>vol.
         bind_res (expect usage_mirror (arg args 3)) (\<lambda>dir.
           Inr (if sub = ''once'' then MirrorOnce vol dir
                else if sub = ''follow'' then MirrorFollow vol dir (parse_or 2000 (arg args 4))
                else UsageCmd usage_mirror))))
      else if cmd = ''checkpoint'' then
        bind_res (expect ''usage: landslidefs checkpoint <vol>'' (arg args 1)) (\<lambda>vol. Inr (CheckpointCmd vol))
      else if cmd = ''verify'' then
        bind_res (expect ''usage: landslidefs verify <vol>'' (arg args 1)) (\<lambda>vol. Inr (VerifyCmd vol))
      else Inr (UsageCmd usage_main))"

text \<open>The statistics of \<open>verify\<close>.\<close>

fun node_len :: "node \<Rightarrow> u64" where
  "node_len (File content _) = content_len content"
| "node_len _ = 0"

definition verify_counts :: "fs_image \<Rightarrow> nat \<times> u64" where
  "verify_counts img = foldl (\<lambda>(f, b) (_, n). (f + (if 0 < node_len n then 1 else 0), add64 b (node_len n))) (0, 0) (nodes img)"

section \<open>Running a command\<close>

definition cli_mount :: "('s, 't, 'b) fuse_deps \<Rightarrow> 's volume_env \<Rightarrow> string \<Rightarrow> ('s \<times> 'b \<times> 'h, volume) prog" where
  "cli_mount D E vol =
     call_opt (\<lambda>(s, b, h). map_option (\<lambda>(r, s'). (r, s', b, h)) (volume_mount (fd_db D) (fd_codec D) (fd_fs D) (fd_bucket D) E s b vol))"

definition cli_checkpoint :: "('s, 't, 'b) fuse_deps \<Rightarrow> 's volume_env \<Rightarrow> string \<Rightarrow> ('s \<times> 'b \<times> 'h, unit) prog" where
  "cli_checkpoint D E vol =
     and_then (cli_mount D E vol) (\<lambda>v.
     and_then (call_opt (\<lambda>(s, b, h). map_option (\<lambda>(r, _, s', b'). (r, s', b', h))
         (volume_checkpoint (fd_db D) (fd_codec D) (fd_fs D) (fd_sha D) (fd_bucket D) E s b v))) (\<lambda>rec.
       println (''checkpointed '' @ vol @ '' through v'' @ show_nat (comp_through_version rec))))"

text \<open>The two lines of \<open>verify\<close>.\<close>

definition cli_report :: "('s, 't, 'b) fuse_deps \<Rightarrow> string \<Rightarrow> volume \<Rightarrow> ('s \<times> 'b \<times> 'h, unit) prog" where
  "cli_report D vol v =
     and_then (println (''volume '' @ vol @ '': '' @ show_nat (length (nodes (v_image v))) @ '' nodes, '' @
         show_nat (fst (verify_counts (v_image v))) @ '' files, '' @ show_nat (snd (verify_counts (v_image v))) @ '' content bytes'')) (\<lambda>_.
     and_then (query (\<lambda>(s, _, _). volume_tail (fd_db D) (fd_codec D) s v)) (\<lambda>tail.
       println (''tail version: '' @ debug_version tail @ '', block cache after mount: '' @ show_nat (block_cache_len v))))"

definition cli_verify :: "('s, 't, 'b) fuse_deps \<Rightarrow> 's volume_env \<Rightarrow> string \<Rightarrow> ('s \<times> 'b \<times> 'h, unit) prog" where
  "cli_verify D E vol = and_then (cli_mount D E vol) (cli_report D vol)"

definition cli_mirror_once :: "('s, 't, 'b, 'h, 'r) cli_deps \<Rightarrow> ('s, 'h, 'r) cli_env \<Rightarrow> 'r \<Rightarrow> string \<Rightarrow> string \<Rightarrow> ('s \<times> 'b \<times> 'h, unit) prog" where
  "cli_mirror_once D E r vol dir =
     and_then (call (\<lambda>(s, b, h). apsnd (\<lambda>h'. (s, b, h')) (materialize_once (fd_codec (cd_fuse D)) (fd_fs (cd_fuse D)) (fd_bucket (cd_fuse D))
         (cd_mirror D) (cd_host D) (ce_clock E) (ce_reads E r 0) (ce_reads E r 1) b h vol (cd_path D dir)))) (\<lambda>v.
       println (''materialized '' @ vol @ '' into '' @ dir @ '' @ v'' @ show_nat v))"

text \<open>The mirror that follows: \<open>hello\<close> prints the greeting of the caller.\<close>

definition cli_mirror_follow ::
  "('s, 't, 'b, 'h, 'r) cli_deps \<Rightarrow> ('s, 'h, 'r) cli_env \<Rightarrow> ('s \<times> 'b \<times> 'h, unit) prog \<Rightarrow> 'r \<Rightarrow> string \<Rightarrow> string \<Rightarrow> ('s \<times> 'b \<times> 'h, unit) prog" where
  "cli_mirror_follow D E hello r vol dir =
     (let C = fd_codec (cd_fuse D); Q = fd_fs (cd_fuse D); K = fd_bucket (cd_fuse D) in
     and_then (call (\<lambda>(s, b, h). apsnd (\<lambda>h'. (s, b, h'))
         (mirror_open C Q K (cd_mirror D) (cd_host D) (ce_clock E) (ce_reads E r 0) b h vol (cd_path D dir)))) (\<lambda>mr.
     and_then hello (\<lambda>_ (s, b, h).
       case mirror_run (cd_slate_text D) C Q K (cd_mirror D) (cd_host D) (ce_clock E) dir
              (map (ce_reads E r) [1..<Suc (ce_passes E)]) b h mr of
         (out, h', _) \<Rightarrow> Some (Inl Interrupted, out, s, b, h'))))"

text \<open>A command that runs on what it opens.\<close>

definition run_opened :: "('s \<times> 'b \<times> 'h, unit) prog \<Rightarrow> 's res \<Rightarrow> 'b \<Rightarrow> 'h \<Rightarrow> ('s, 'b, 'h) cli_result" where
  "run_opened p r b h =
     (case r of
        Inl e \<Rightarrow> Some (Inl (Raised e), [], None, Some b, h)
      | Inr s \<Rightarrow> map_option (\<lambda>(x, out, s', b', h'). (x, out, Some s', Some b', h')) (p (s, b, h)))"

definition run_reader :: "('s, 'h, 'r) cli_env \<Rightarrow> ('r \<Rightarrow> ('s \<times> 'b \<times> 'h, unit) prog) \<Rightarrow> 'r res \<Rightarrow> 'b \<Rightarrow> 'h \<Rightarrow> ('s, 'b, 'h) cli_result" where
  "run_reader E p r b h =
     (case r of
        Inl e \<Rightarrow> Some (Inl (Raised e), [], None, Some b, h)
      | Inr rd \<Rightarrow> run_opened (p rd) (Inr (ce_db E rd)) b h)"

definition printed :: "line list \<Rightarrow> ('s, 'b, 'h) cli_result \<Rightarrow> ('s, 'b, 'h) cli_result" where
  "printed out r = map_option (apsnd (apfst ((@) out))) r"

definition fuse_follow ::
  "('s, 't, 'b, 'h, 'r) cli_deps \<Rightarrow> ('s, 'h, 'r) cli_env \<Rightarrow> 'r \<Rightarrow> string \<Rightarrow> string \<Rightarrow> ('s \<times> 'b \<times> 'h, unit) prog" where
  "fuse_follow D E r vol mp =
     call (\<lambda>(s, b, h). case fuse_mount_replica (cd_fuser D) (cd_fuse D) (ce_clock E) (ce_reads E r 0) s b vol mp of (x, s', b') \<Rightarrow> (x, s', b', h))"

definition fuse_serve ::
  "('s, 't, 'b, 'h, 'r) cli_deps \<Rightarrow> ('s, 'h, 'r) cli_env \<Rightarrow> string \<Rightarrow> string \<Rightarrow> ('s \<times> 'b \<times> 'h, unit) prog" where
  "fuse_serve D E vol mp =
     call_opt (\<lambda>(s, b, h). map_option (\<lambda>(r, s', b'). (r, s', b', h)) (fuse_mount (cd_fuser D) (cd_fuse D) (ce_volume E) s b vol mp))"

fun cli_run ::
  "('s, 't, 'b, 'h, 'r) cli_deps \<Rightarrow> ('s, 'h, 'r) cli_env \<Rightarrow> 'b \<Rightarrow> cli_command \<Rightarrow> ('s, 'b, 'h) cli_result" where
  "cli_run D E b (MountCmd vol mp) =
     printed [Stderr (''mounting '' @ vol @ '' at '' @ mp @ '' (fence taken; ctrl-c to stop)'')]
       (run_opened (fuse_serve D E vol mp) (cli_store D (ce_var E) b) b (ce_host E))"
| "cli_run D E b (FollowCmd vol mp interval) =
     printed [Stderr (''read-only replica of '' @ vol @ '' at '' @ mp @ '' (syncs every '' @ show_nat interval @ ''ms; ctrl-c to stop)'')]
       (run_reader E (\<lambda>r. fuse_follow D E r vol mp) (cli_reader D (ce_var E) b) b (ce_host E))"
| "cli_run D E b (MirrorOnce vol dir) =
     run_reader E (\<lambda>r. cli_mirror_once D E r vol dir) (cli_reader D (ce_var E) b) b (ce_host E)"
| "cli_run D E b (MirrorFollow vol dir interval) =
     run_reader E (\<lambda>r. cli_mirror_follow D E
         (eprintln (''mirroring '' @ vol @ '' into '' @ dir @ '' every '' @ show_nat interval @ ''ms (ctrl-c to stop)'')) r vol dir)
       (cli_reader D (ce_var E) b) b (ce_host E)"
| "cli_run D E b (CheckpointCmd vol) = run_opened (cli_checkpoint (cd_fuse D) (ce_volume E) vol) (cli_store D (ce_var E) b) b (ce_host E)"
| "cli_run D E b (VerifyCmd vol) = run_opened (cli_verify (cd_fuse D) (ce_volume E) vol) (cli_store D (ce_var E) b) b (ce_host E)"
| "cli_run D E b (UsageCmd text) = Some (Inl (Exited 1), [Stderr text], None, Some b, ce_host E)"

definition cli_main :: "('s, 't, 'b, 'h, 'r) cli_deps \<Rightarrow> ('s, 'h, 'r) cli_env \<Rightarrow> ('s, 'b, 'h) cli_result" where
  "cli_main D E =
     (case cli_bucket D (ce_var E) of
        Inl e \<Rightarrow> Some (Inl (Raised e), [], None, None, ce_host E)
      | Inr b \<Rightarrow> (case cli_parse (cd_with_fuse D) (ce_args E) of
          Inl e \<Rightarrow> Some (Inl (Raised e), [], None, Some b, ce_host E)
        | Inr cmd \<Rightarrow> cli_run D E b cmd))"

section \<open>The examples\<close>

text \<open>\<open>sidecar.rs\<close>: the reader is opened whatever the command is, with a fixed poll interval.\<close>

definition arg_or :: "string list \<Rightarrow> nat \<Rightarrow> string \<Rightarrow> string" where
  "arg_or args i fallback = (case arg args i of None \<Rightarrow> fallback | Some x \<Rightarrow> x)"

definition sidecar_main :: "('s, 't, 'b, 'h, 'r) cli_deps \<Rightarrow> ('s, 'h, 'r) cli_env \<Rightarrow> ('s, 'b, 'h) cli_result" where
  "sidecar_main D E =
     (let args = ce_args E; cmd = arg_or args 0 ''help''; vol = arg_or args 1 ''churn-demo'';
          dir = arg_or args 2 ''/tmp/landslide-rootfs''; interval = parse_or 2000 (arg args 3) in
      case cli_bucket D (ce_var E) of
        Inl e \<Rightarrow> Some (Inl (Raised e), [], None, None, ce_host E)
      | Inr b \<Rightarrow> run_reader E (\<lambda>r.
            if cmd = ''once'' then cli_mirror_once D E r vol dir
            else if cmd = ''follow'' then cli_mirror_follow D E
              (println (''mirroring '' @ vol @ '' into '' @ dir @ '' every '' @ show_nat interval @ ''ms (ctrl-c to stop)'')) r vol dir
            else and_then (eprintln ''usage: sidecar <once|follow> <vol> <dir> [interval-ms]'') (\<lambda>_. exit_process 1))
          (reader_open (cd_open_db D) (cd_reader_stock D)
             \<lparr>rc_path = cli_path (ce_var E), rc_object_store = b,
              rc_options = Some ((cd_reader_stock D)\<lparr>manifest_poll_interval := 500\<rparr>)\<rparr>)
          b (ce_host E))"

text \<open>\<open>churn.rs\<close>: the store is opened for writing whatever the command is. The second call of \<open>bucket()\<close>
  gives another handle of the same object store.\<close>

definition discriminant_line :: "(node \<Rightarrow> string) \<Rightarrow> string \<times> node \<Rightarrow> line" where
  "discriminant_line dbg kv = Stdout (''  '' @ fst kv @ '': '' @ dbg (snd kv))"

definition churn_verify :: "(node \<Rightarrow> string) \<Rightarrow> ('s, 't, 'b) fuse_deps \<Rightarrow> 's volume_env \<Rightarrow> string \<Rightarrow> ('s \<times> 'b \<times> 'h, unit) prog" where
  "churn_verify dbg D E vol =
     and_then (cli_mount D E vol) (\<lambda>v.
     and_then (cli_report D vol v) (\<lambda>_ w.
       Some (Inr (), map (discriminant_line dbg) (take 5 (nodes (v_image v))), w)))"

definition churn_main ::
  "(node \<Rightarrow> string) \<Rightarrow> ('s, 't, 'b, 'h, 'r) cli_deps \<Rightarrow> ('s, 'h, 'r) cli_env \<Rightarrow> ('s, 'b, 'h) cli_result" where
  "churn_main dbg D E =
     (let args = ce_args E; cmd = arg_or args 0 ''help''; vol = arg_or args 1 ''churn-demo'' in
      case cli_bucket D (ce_var E) of
        Inl e \<Rightarrow> Some (Inl (Raised e), [], None, None, ce_host E)
      | Inr b \<Rightarrow> run_opened (
            if cmd = ''mount'' then
              and_then (attempt (expect ''usage: mount <vol> <mountpoint>'' (arg args 2))) (\<lambda>mp.
              and_then (println (''mounting '' @ vol @ '' at '' @ mp @ '' (fence taken; ctrl-c to stop)'')) (\<lambda>_. fuse_serve D E vol mp))
            else if cmd = ''follow'' then
              and_then (attempt (expect ''usage: follow <vol> <mountpoint>'' (arg args 2))) (\<lambda>mp.
              and_then (attempt (reader_open (cd_open_db D) (cd_reader_stock D)
                  \<lparr>rc_path = cli_path (ce_var E), rc_object_store = b, rc_options = None\<rparr>)) (\<lambda>r.
              and_then (println (''read-only replica of '' @ vol @ '' at '' @ mp @ '' (syncs every 2s; ctrl-c to stop)'')) (\<lambda>_.
                fuse_follow D E r vol mp)))
            else if cmd = ''verify'' then churn_verify dbg (cd_fuse D) (ce_volume E) vol
            else if cmd = ''checkpoint'' then cli_checkpoint (cd_fuse D) (ce_volume E) vol
            else and_then (eprintln ''usage: churn <mount|follow|verify|checkpoint> <vol> [mountpoint]'') (\<lambda>_. exit_process 1))
          (cli_store D (ce_var E) b) b (ce_host E))"

section \<open>Parsing\<close>

lemma show_nat_digits: "list_all is_digit (show_nat n)" "show_nat n \<noteq> []"
proof (induction n rule: show_nat.induct)
  case (1 n)
  { case 1 with "1.IH" show ?case by (cases "n < 10") (simp_all add: show_nat.simps [of n]) }
  { case 2 show ?case by (simp add: show_nat.simps [of n]) }
qed

lemma parse_show_nat: "n < 2 ^ 64 \<Longrightarrow> parse_u64 (show_nat n) = Some n"
proof -
  assume n: "n < 2 ^ 64"
  obtain c r where cr: "show_nat n = c # r" using show_nat_digits(2) [of n] by (cases "show_nat n") auto
  have "is_digit c" using show_nat_digits(1) [of n] by (simp add: cr)
  then have "c \<noteq> CHR ''+''" by (auto simp: is_digit_def)
  then show ?thesis using show_nat_digits [of n] dec_value_show_nat [of n] n by (simp add: parse_u64_def cr)
qed

text \<open>The command lines of the tool's documentation.\<close>

fun cli_words :: "cli_command \<Rightarrow> string list" where
  "cli_words (MountCmd vol mp) = [''mount'', vol, mp]"
| "cli_words (FollowCmd vol mp interval) = [''follow'', vol, mp, show_nat interval]"
| "cli_words (MirrorOnce vol dir) = [''mirror'', ''once'', vol, dir]"
| "cli_words (MirrorFollow vol dir interval) = [''mirror'', ''follow'', vol, dir, show_nat interval]"
| "cli_words (CheckpointCmd vol) = [''checkpoint'', vol]"
| "cli_words (VerifyCmd vol) = [''verify'', vol]"
| "cli_words (UsageCmd _) = []"

fun cli_interval :: "cli_command \<Rightarrow> u64" where
  "cli_interval (FollowCmd _ _ interval) = interval"
| "cli_interval (MirrorFollow _ _ interval) = interval"
| "cli_interval _ = 0"

text \<open>Every documented command line is read as its command, with the interval it names; a missing interval is 2000.\<close>

theorem cli_parse_words:
  assumes "\<nexists>text. cmd = UsageCmd text" "cli_interval cmd < 2 ^ 64"
  shows "cli_parse True (cli_words cmd) = Inr cmd"
  using assms by (cases cmd) (simp_all add: cli_parse_def arg_def expect_def parse_or_def parse_show_nat)

section \<open>Statistics\<close>

lemma verify_fold:
  "foldl (\<lambda>(f, b) (_, n). (f + (if 0 < node_len n then 1 else 0), add64 b (node_len n))) (f, b) l =
     (f + length (filter (\<lambda>kn. 0 < node_len (snd kn)) l), if l = [] then b else (b + sum_list (map (node_len \<circ> snd) l)) mod 2 ^ 64)"
proof (induction l arbitrary: f b)
  case (Cons kn l)
  obtain k n where kn: "kn = (k, n)" by (cases kn)
  have "(add64 b (node_len n) + x) mod 2 ^ 64 = (b + node_len n + x) mod 2 ^ 64" for x by (simp add: add64_def mod_add_left_eq)
  then show ?case using Cons by (auto simp: kn add64_def add.assoc)
qed simp

text \<open>The statistics of \<open>verify\<close> are the number of files with content and the sum of the sizes, in 64 bits.\<close>

theorem verify_counts_eq:
  "verify_counts img = (length (filter (\<lambda>kn. 0 < node_len (snd kn)) (nodes img)), sum_list (map (node_len \<circ> snd) (nodes img)) mod 2 ^ 64)"
  by (cases "nodes img = []") (simp_all add: verify_counts_def verify_fold)

section \<open>Verify and checkpoint\<close>

lemma run_zero: "show_nat 0 = ''0''"
  by code_simp

definition mounted :: "fs_codec \<Rightarrow> 's volume_env \<Rightarrow> string \<Rightarrow> fs_image \<Rightarrow> envelope list \<Rightarrow> volume" where
  "mounted Q E vol base es =
     \<lparr>v_vol = vol, v_token = ve_ulid E, v_image = replay base (timed (ve_clock E) 0 (deltas_of Q (map event_from_parts es))),
      v_tail = last_event_version (map event_from_parts es), v_pending = [], v_blocks = Map.empty\<rparr>"

context event_store begin

lemma mount_outcome:
  assumes log: "log_ok C (content s) vol" and st: "vol_state B C content Q K s b vol base0 start es"
    and room: "next_version C (content s) vol < VMAX" and quiet: "others (ve_fence E) s = s"
  obtains s' where "content s' = fence_map (content s) vol (Some (ve_ulid E))" "log_ok C (content s') vol"
      "current_version C (content s') vol = current_version C (content s) vol"
      "volume_mount B C Q K E s b vol = Some (Inr (mounted Q E vol base0 es), s') \<or>
       (\<exists>w. volume_mount B C Q K E s b vol = Some (Inl (Backend (SlateClosed w)), s'))"
proof -
  note ok = log_okD [OF log]
  obtain r s' where f: "fence B C (ve_fence E) s vol (Some (ve_ulid E)) = (r, s')" "content s' = fence_map (content s) vol (Some (ve_ulid E))"
    "r = Inr (tail_commit_info (tail_of C (content s) vol)) \<or> (\<exists>w. r = Inl (Backend (SlateClosed w)))"
    by (rule fence_eq [OF ok(1,3) quiet])
  note fl = fence_log [OF log quiet f(1)]
  have nv: "next_version C (content s') vol = next_version C (content s) vol" by (simp add: next_version_def fl(3))
  have "vol_state B C content Q K s' b vol base0 start es" using st fl(5) by (auto simp: vol_state_def fl(2) nv)
  from load_eq [OF fl(1) this, of "ve_clock E"] room
  have l: "volume_load B C Q K (ve_clock E) s' b vol =
      Some (Inr (v_image (mounted Q E vol base0 es), v_tail (mounted Q E vol base0 es)))" by (simp add: nv mounted_def)
  show ?thesis
  proof (rule that [OF f(2) fl(1,3)])
    show "volume_mount B C Q K E s b vol = Some (Inr (mounted Q E vol base0 es), s') \<or>
       (\<exists>w. volume_mount B C Q K E s b vol = Some (Inl (Backend (SlateClosed w)), s'))"
      using f(3) by (auto simp: volume_mount_def Let_def f(1) l mounted_def)
  qed
qed

lemma append_fenced_off:
  assumes "content s' = fence_map m vol (Some token)" "wf_db C m" "name_ok vol" "token \<noteq> []" "is_utf8 token"
    and "other \<noteq> token" "check_batch events = Inr ()" "ulids_ok (Es 0)" "append_room C (content s') vol None events" "others (Es 0) s' = s'"
  shows "append_with_token B C Es s' vol other expected events = (Inl (FenceMismatch vol token), s')"
proof -
  have wf: "wf_db C (content s')" unfolding assms(1) by (rule wf_fence_map [OF assms(2,3)])
  have "fence_of (content s') vol = Some token" using assms(4,5) by (simp add: assms(1) fence_map_def fence_of_def)
  with commit_appends_quiet [OF assms(7) wf assms(3), where Es = Es and from_version = None and expected = expected and
      token = "Some other" and idx = True] assms(6,8-10)
  show ?thesis by (simp add: refusal_def append_with_token_def)
qed

end

text \<open>The command \<open>verify\<close> reports on the volume and takes it over: when it prints its two lines, they are the
  statistics of what the stream replays to and the version of the stream, the stream is as before, and
  from then on a writer that was mounted is refused, because the mount has taken the fence.\<close>

theorem verify_evicts_writer:
  assumes store: "event_store (fd_db D) content writes base (fd_codec D)"
    and log: "log_ok (fd_codec D) (content s) vol" and st: "vol_state (fd_db D) (fd_codec D) content (fd_fs D) (fd_bucket D) s b vol base0 start es"
    and room: "next_version (fd_codec D) (content s) vol < VMAX" and quiet: "others (ve_fence E) s = s"
    and ok: "cli_verify D E vol (s, b, h) = Some (Inr (), out, s', b', h')"
    and token: "ve_ulid E \<noteq> []" "is_utf8 (ve_ulid E)" "other \<noteq> ve_ulid E"
    and batch: "check_batch events = Inr ()" "ulids_ok (Es 0)" "append_room (fd_codec D) (content s') vol None events" "others (Es 0) s' = s'"
  shows "append_with_token (fd_db D) (fd_codec D) Es s' vol other expected events = (Inl (FenceMismatch vol (ve_ulid E)), s')"
    "b' = b" "h' = h" "current_version (fd_codec D) (content s') vol = current_version (fd_codec D) (content s) vol"
    "out = (let img = v_image (mounted (fd_fs D) E vol base0 es) in
       [Stdout (''volume '' @ vol @ '': '' @ show_nat (length (nodes img)) @ '' nodes, '' @ show_nat (fst (verify_counts img)) @
          '' files, '' @ show_nat (snd (verify_counts img)) @ '' content bytes''),
        Stdout (''tail version: '' @ debug_version (current_version (fd_codec D) (content s) vol) @ '', block cache after mount: 0'')])"
proof -
  let ?v = "mounted (fd_fs D) E vol base0 es"
  obtain s1 where m: "content s1 = fence_map (content s) vol (Some (ve_ulid E))" "log_ok (fd_codec D) (content s1) vol"
      "current_version (fd_codec D) (content s1) vol = current_version (fd_codec D) (content s) vol"
      "volume_mount (fd_db D) (fd_codec D) (fd_fs D) (fd_bucket D) E s b vol = Some (Inr ?v, s1) \<or>
       (\<exists>w. volume_mount (fd_db D) (fd_codec D) (fd_fs D) (fd_bucket D) E s b vol = Some (Inl (Backend (SlateClosed w)), s1))"
    by (rule event_store.mount_outcome [OF store log st room quiet])
  note lg = log_okD [OF m(2)]
  have "slatedb (fd_db D) content writes base" using store by (simp add: event_store_def)
  from kv_tail_of [OF slatedb.serves_db [OF this] lg(1,3)]
  have tail: "stream_version (fd_db D) (fd_codec D) s1 vol = Inr (current_version (fd_codec D) (content s) vol)"
    using m(3) by (simp add: stream_version_def current_version_def)
  have run: "s' = s1 \<and> b' = b \<and> h' = h \<and> out =
      [Stdout (''volume '' @ vol @ '': '' @ show_nat (length (nodes (v_image ?v))) @ '' nodes, '' @ show_nat (fst (verify_counts (v_image ?v))) @
          '' files, '' @ show_nat (snd (verify_counts (v_image ?v))) @ '' content bytes''),
        Stdout (''tail version: '' @ debug_version (current_version (fd_codec D) (content s) vol) @ '', block cache after mount: 0'')]"
    using ok m(4) tail run_zero
    by (auto simp: cli_verify_def cli_report_def cli_mount_def prog_defs volume_tail_def block_cache_len_def mounted_def)
  then show "b' = b" "h' = h" "current_version (fd_codec D) (content s') vol = current_version (fd_codec D) (content s) vol"
    using m(3) by simp_all
  show "append_with_token (fd_db D) (fd_codec D) Es s' vol other expected events = (Inl (FenceMismatch vol (ve_ulid E)), s')"
    using run batch log_okD(1,3) [OF log] token
    by (intro event_store.append_fenced_off [OF store, where m = "content s"]) (simp_all add: m(1))
  show "out = (let img = v_image (mounted (fd_fs D) E vol base0 es) in
       [Stdout (''volume '' @ vol @ '': '' @ show_nat (length (nodes img)) @ '' nodes, '' @ show_nat (fst (verify_counts img)) @
          '' files, '' @ show_nat (snd (verify_counts img)) @ '' content bytes''),
        Stdout (''tail version: '' @ debug_version (current_version (fd_codec D) (content s) vol) @ '', block cache after mount: 0'')])"
    using run by (simp add: Let_def)
qed

text \<open>A second \<open>checkpoint\<close> is an error: when the latest checkpoint covers the stream, the command mounts with an empty
  backlog and stops with \<open>nothing to checkpoint\<close> (or already at the fence, when the database closes).\<close>

theorem checkpoint_again_refused:
  assumes store: "event_store (fd_db D) content writes base (fd_codec D)"
    and log: "log_ok (fd_codec D) (content s) vol" and st: "vol_state (fd_db D) (fd_codec D) content (fd_fs D) (fd_bucket D) s b vol base0 start []"
    and room: "next_version (fd_codec D) (content s) vol < VMAX" and quiet: "others (ve_fence E) s = s"
  shows "\<exists>s' e. cli_checkpoint D E vol (s, b, h) = Some (Inl (Raised e), [], s', b, h) \<and>
     (e = InvalidInput ''nothing to checkpoint'' \<or> (\<exists>w. e = Backend (SlateClosed w)))"
proof -
  obtain s1 where m: "volume_mount (fd_db D) (fd_codec D) (fd_fs D) (fd_bucket D) E s b vol = Some (Inr (mounted (fd_fs D) E vol base0 []), s1) \<or>
       (\<exists>w. volume_mount (fd_db D) (fd_codec D) (fd_fs D) (fd_bucket D) E s b vol = Some (Inl (Backend (SlateClosed w)), s1))"
    by (rule event_store.mount_outcome [OF store log st room quiet])
  then show ?thesis
    by (auto simp: cli_checkpoint_def cli_mount_def prog_defs volume_checkpoint_def volume_commit_def mounted_def last_event_version_def)
qed

end
