(* ===== verification/Bank_Account.thy ===== *)
theory Bank_Account
  imports Program
begin

text \<open>
  The example \<open>examples/bank_account.rs\<close>: an account as an aggregate over its events, and the run of
  \<open>main\<close> over a store: an atomic batch, a rehydration with a conditional append, a tail over the
  reader, a compaction and a rehydration from the snapshot. \<open>serde_json\<close> is the parameter record
  \<open>bank_codec\<close>. The amounts are 64-bit: a cast and a sum wrap.
\<close>

section \<open>The account\<close>

datatype account_event = Opened string | Deposited u64 | Withdrawn u64

record account =
  acc_owner :: string
  acc_balance :: i64

record bank_codec =
  json_account_event :: "account_event \<Rightarrow> string + bytes"
  unjson_account_event :: "bytes \<Rightarrow> string + account_event"
  json_account :: "account \<Rightarrow> string + bytes"
  unjson_account :: "bytes \<Rightarrow> string + account"

fun account_step :: "account \<Rightarrow> account_event \<Rightarrow> account" where
  "account_step a (Opened owner) = a\<lparr>acc_owner := owner\<rparr>"
| "account_step a (Deposited cents) = a\<lparr>acc_balance := wrap_i64 (acc_balance a + wrap_i64 (int cents))\<rparr>"
| "account_step a (Withdrawn cents) = a\<lparr>acc_balance := wrap_i64 (acc_balance a - wrap_i64 (int cents))\<rparr>"

text \<open>\<open>Aggregate::apply\<close>: an event that does not decode is a panic, after which nothing more is applied.\<close>

definition account_apply :: "bank_codec \<Rightarrow> account res \<Rightarrow> event \<Rightarrow> account res" where
  "account_apply J st e =
     bind_res st (\<lambda>a. bind_res (expect_ok ''in-band event'' (event_json (unjson_account_event J) e)) (\<lambda>d. Inr (account_step a d)))"

definition account_default :: account where
  "account_default = \<lparr>acc_owner = '''', acc_balance = 0\<rparr>"

definition account_aggregate :: "bank_codec \<Rightarrow> account res aggregate" where
  "account_aggregate J =
     \<lparr>agg_default = Inr account_default, agg_apply = account_apply J,
      agg_snapshot = (\<lambda>st. bind_res st (\<lambda>a. map_err Encoding (json_account J a))),
      agg_restore = (\<lambda>b. bind_res (map_err Encoding (unjson_account J b)) (\<lambda>a. Inr (Inr a)))\<rparr>"

section \<open>The program\<close>

text \<open>What each call of the run takes from outside: the attempts of the three appends, the
  compaction, and the states the polls of the tail see before the timeout.\<close>

record ('s, 'r) bank_env =
  be_first :: "nat \<Rightarrow> 's env"
  be_withdraw :: "nat \<Rightarrow> 's env"
  be_deposit :: "nat \<Rightarrow> 's env"
  be_compact :: "'s env"
  be_polls :: "'r \<Rightarrow> 's \<Rightarrow> kv_read list"

definition account_event_new :: "bank_codec \<Rightarrow> string \<Rightarrow> account_event \<Rightarrow> new_event res" where
  "account_event_new J event_type e = new_event_json (json_account_event J) event_type e"

definition rehydrate_account ::
  "('s, 't) slatedb_ops \<Rightarrow> codec \<Rightarrow> bank_codec \<Rightarrow> 's \<Rightarrow> (account \<times> version option) res option" where
  "rehydrate_account B C J s =
     map_option (\<lambda>r. bind_res r (\<lambda>(st, v). bind_res st (\<lambda>a. Inr (a, v)))) (rehydrate B C (account_aggregate J) s ''account-42'')"

text \<open>The loop over the tail: it ends at version 3 and at the first error; a tail that has not sent it
  before the timeout is a panic.\<close>

fun tailed :: "event res list \<Rightarrow> ('w, unit) prog" where
  "tailed [] = attempt (Inl (Panicked ''tail timed out''))"
| "tailed (Inl e # msgs) = ret ()"
| "tailed (Inr e # msgs) =
     and_then (println (''tailed v'' @ show_nat (ev_version e) @ '' '' @ ev_type e)) (\<lambda>_.
       if ev_version e = 3 then ret () else tailed msgs)"

definition bank_run ::
  "('s, 't) slatedb_ops \<Rightarrow> codec \<Rightarrow> bank_codec \<Rightarrow> ('s, 'r) bank_env \<Rightarrow> 'r \<Rightarrow> ('s, unit) prog" where
  "bank_run B C J E reader =
     and_then (attempt (account_event_new J ''opened'' (Opened ''ada''))) (\<lambda>e1.
     and_then (attempt (account_event_new J ''deposited'' (Deposited 10000))) (\<lambda>e2.
     and_then (call (\<lambda>s. append_event B C (be_first E) s ''account-42'' NoStream [e1, e2])) (\<lambda>commit.
     and_then (println (''committed versions '' @ show_nat (first_version commit) @ ''..='' @ show_nat (last_version commit))) (\<lambda>_.
     and_then (query_opt (rehydrate_account B C J)) (\<lambda>(account, version).
     and_then (println (acc_owner account @ '' has '' @ show_int (acc_balance account) @ '' cents'')) (\<lambda>_.
     and_then (attempt (expect ''unwrap of None'' version)) (\<lambda>v.
     and_then (attempt (account_event_new J ''withdrawn'' (Withdrawn 2500))) (\<lambda>e3.
     and_then (call (\<lambda>s. append_event B C (be_withdraw E) s ''account-42'' (Exact v) [e3])) (\<lambda>_.
     and_then (attempt (account_event_new J ''deposited'' (Deposited 500))) (\<lambda>e4.
     and_then (call (\<lambda>s. append_event B C (be_deposit E) s ''account-42'' (Exact 2) [e4])) (\<lambda>_.
     and_then (\<lambda>s. tailed (follow_stream C ''account-42'' 0 (be_polls E reader s)) s) (\<lambda>_.
     and_then (call_opt (\<lambda>s. compact B C (account_aggregate J) (be_compact E) s ''account-42'')) (\<lambda>rec.
     and_then (println (''compacted through v'' @ show_nat (comp_through_version rec) @ '' ('' @ comp_stream rec @ '')'')) (\<lambda>_.
     and_then (query_opt (rehydrate_account B C J)) (\<lambda>(account, version).
       println (''rehydrated at v'' @ debug_version version @ '': '' @ show_int (acc_balance account) @ '' cents''))))))))))))))))"

definition bank_main ::
  "(string \<Rightarrow> 'o \<Rightarrow> 'z slate_settings_scheme \<Rightarrow> slate_error + 's) \<Rightarrow> 'z slate_settings_scheme \<Rightarrow>
   (string \<Rightarrow> 'o \<Rightarrow> 'y reader_options_scheme \<Rightarrow> slate_error + 'r) \<Rightarrow> 'y reader_options_scheme \<Rightarrow> 'o \<Rightarrow>
   ('s, 't) slatedb_ops \<Rightarrow> codec \<Rightarrow> bank_codec \<Rightarrow> ('s, 'r) bank_env \<Rightarrow> ((stop + unit) \<times> line list \<times> 's option) option" where
  "bank_main build stock open_db reader_stock object_store B C J E =
     (case store_open build stock \<lparr>cf_path = ''bank_account'', cf_object_store = object_store, cf_settings = None\<rparr> of
        Inl e \<Rightarrow> Some (Inl (Raised e), [], None)
      | Inr s \<Rightarrow> (case reader_open open_db reader_stock \<lparr>rc_path = ''bank_account'', rc_object_store = object_store, rc_options = None\<rparr> of
            Inl e \<Rightarrow> Some (Inl (Raised e), [], Some s)
          | Inr reader \<Rightarrow> map_option (\<lambda>(r, out, s'). (r, out, Some s')) (bank_run B C J E reader s)))"

section \<open>Balances\<close>

fun amount :: "account_event \<Rightarrow> int" where
  "amount (Opened _) = 0"
| "amount (Deposited cents) = int cents"
| "amount (Withdrawn cents) = - int cents"

lemma account_fold_balance:
  assumes "acc_balance a = wrap_i64 x"
  shows "acc_balance (foldl account_step a es) = wrap_i64 (x + sum_list (map amount es))"
  using assms
proof (induction es arbitrary: a x)
  case (Cons e es)
  have "acc_balance (account_step a e) = wrap_i64 (x + amount e)" using Cons.prems by (cases e) simp_all
  from Cons.IH [OF this] show ?case by (simp add: add.assoc)
qed simp

text \<open>The balance of a history is the deposits less the withdrawals, wrapped to 64 bits, and exact while the total is in range.\<close>

theorem account_balance:
  "acc_balance (foldl account_step account_default es) = wrap_i64 (sum_list (map amount es))"
  using account_fold_balance [of account_default 0 es] by (simp add: account_default_def)

section \<open>The run\<close>

text \<open>The serialisers: decoding inverts encoding, and the records of a run are far below the size limit.\<close>

definition bank_events :: "account_event set" where
  "bank_events = {Opened ''ada'', Deposited 10000, Withdrawn 2500, Deposited 500}"

locale bank_serde =
  fixes J :: bank_codec
  assumes event_codec: "\<exists>b. json_account_event J e = Inr b \<and> unjson_account_event J b = Inr e"
    and account_codec: "\<exists>b. json_account J a = Inr b \<and> unjson_account J b = Inr a"
    and event_size: "json_account_event J e = Inr b \<Longrightarrow> e \<in> bank_events \<Longrightarrow>
       length b \<le> MAX_RECORD_BYTES"
begin

definition event_bytes :: "account_event \<Rightarrow> bytes" where
  "event_bytes e = projr (json_account_event J e)"

lemma event_bytes: "json_account_event J e = Inr (event_bytes e)" "unjson_account_event J (event_bytes e) = Inr e"
  using event_codec [of e] by (auto simp: event_bytes_def)

lemma event_new: "account_event_new J ty e = Inr (new_event_new ty (event_bytes e))"
  by (simp add: account_event_new_def new_event_json_def event_bytes(1))

text \<open>The envelopes of a history hold these events.\<close>

definition holds_events :: "envelope list \<Rightarrow> (string \<times> account_event) list \<Rightarrow> bool" where
  "holds_events es ds \<longleftrightarrow> map (\<lambda>e. (env_type e, env_data e)) es = map (apsnd event_bytes) ds"

lemma holds_events_fold:
  "holds_events es ds \<Longrightarrow> foldl (account_apply J) (Inr a) (map event_from_parts es) = Inr (foldl account_step a (map snd ds))"
proof (induction ds arbitrary: a es)
  case (Cons d ds)
  then obtain e es' where es: "es = e # es'" "env_data e = event_bytes (snd d)" "holds_events es' ds"
    by (cases es) (auto simp: holds_events_def apsnd_def map_prod_def split: prod.splits)
  have "account_apply J (Inr a) (event_from_parts e) = Inr (account_step a (snd d))"
    by (simp add: account_apply_def event_json_def event_from_parts_def es(2) event_bytes(2) expect_ok_def)
  with Cons.IH [OF es(3)] es(1) show ?case by simp
qed (simp add: holds_events_def)

lemma holds_events_batch:
  assumes "holds_events es ds"
  shows "holds_events (es @ batch_of C E m p None (map (\<lambda>(ty, e). new_event_new ty (event_bytes e)) ds'))
     (ds @ ds')"
proof -
  have "map (\<lambda>e. (env_type e, env_data e)) (batch_of C E m p None events) = map (\<lambda>e. (ne_type e, ne_data e)) events" for events
    by (rule nth_equalityI) (simp_all add: batch_nth)
  with assms show ?thesis by (auto simp: holds_events_def new_event_new_def)
qed

lemma aggregate_simps:
  "agg_default (account_aggregate J) = Inr account_default" "agg_apply (account_aggregate J) = account_apply J"
  "agg_snapshot (account_aggregate J) (Inr a) = Inr (projr (json_account J a))"
  "agg_restore (account_aggregate J) (projr (json_account J a)) = Inr (Inr a)"
  using account_codec [of a] by (auto simp: account_aggregate_def)

end

text \<open>What the run prints.\<close>

definition bank_lines :: "line list" where
  "bank_lines = map Stdout
     [''committed versions 0..=1'', ''ada has 10000 cents'', ''tailed v0 opened'', ''tailed v1 deposited'', ''tailed v2 withdrawn'',
      ''tailed v3 deposited'', ''compacted through v3 (account-42)'', ''rehydrated at vSome(3): 8000 cents'']"

lemma run_digits: "digit 0 = CHR ''0''" "digit (Suc 0) = CHR ''1''" "digit 1 = CHR ''1''" "digit 2 = CHR ''2''" "digit 3 = CHR ''3''" "digit 8 = CHR ''8''"
  by code_simp+

lemma run_numbers: "show_nat 0 = ''0''" "show_nat (Suc 0) = ''1''" "show_nat 2 = ''2''" "show_nat 3 = ''3''" "show_int 10000 = ''10000''" "show_int 8000 = ''8000''"
  by (simp_all add: show_int_def show_nat.simps run_digits)

text \<open>A store of which the account's stream is owned by the run.\<close>

locale bank = event_store B content writes base C + bank_serde J
  for B :: "('s, 't) slatedb_ops" and content writes base C J
begin

definition bank_at :: "'s \<Rightarrow> envelope list \<Rightarrow> (string \<times> account_event) list \<Rightarrow> bool" where
  "bank_at s es ds \<longleftrightarrow> own_log C (content s) ''account-42'' es \<and> holds_events es ds \<and>
     latest_snapshot B C s ''account-42'' = Inr None \<and> global_seq (content s) = length es"

lemma bank_at_length: "bank_at s es ds \<Longrightarrow> length es = length ds"
  by (metis bank_at_def holds_events_def length_map)

lemma bank_append:
  assumes at: "bank_at s es ds" and quiet: "ulids_ok (Es 0)" "others (Es 0) s = s"
    and ds': "ds' \<noteq> []" "length ds + length ds' \<le> 100" "snd ` set ds' \<subseteq> bank_events"
    and expected: "version_matches expected (if ds = [] then None else Some (length ds - 1))"
  obtains s' es' where "append_event B C Es s ''account-42'' expected (map (\<lambda>(ty, e). new_event_new ty (event_bytes e)) ds') =
      (Inr \<lparr>first_version = length ds, last_version = length ds + length ds' - 1, start_sequence = length ds + 1\<rparr>, s')"
    "bank_at s' es' (ds @ ds')"
proof -
  let ?evs = "map (\<lambda>(ty, e). new_event_new ty (event_bytes e)) ds'"
  have own: "own_log C (content s) ''account-42'' es" and h: "holds_events es ds" "latest_snapshot B C s ''account-42'' = Inr None"
    and len: "length es = length ds" "global_seq (content s) = length ds" "es = [] \<longleftrightarrow> ds = []"
    using at bank_at_length [OF at] by (auto simp: bank_at_def)
  have "length (event_bytes e) \<le> MAX_RECORD_BYTES" if "(ty, e) \<in> set ds'" for ty e
    by (rule event_size [OF event_bytes(1) subsetD [OF ds'(3) image_eqI [OF _ that]]]) simp
  then have batch: "check_batch ?evs = Inr ()"
    using ds'(2) by (auto simp: check_batch_ok MAX_BATCH_RECORDS_def new_event_new_def)
  have room: "append_room C (content s) ''account-42'' None ?evs"
    using ds'(2) len own_logD(6) [OF own] by (simp add: append_room_def append_start_def)
  have matches: "version_matches expected (if es = [] then None else Some (length es - 1))" using expected by (simp only: len)
  obtain s' where s': "append_event B C Es s ''account-42'' expected ?evs =
      (Inr \<lparr>first_version = length es, last_version = length es + length ?evs - 1, start_sequence = global_seq (content s) + 1\<rparr>, s')"
    "own_log C (content s') ''account-42'' (es @ batch_of C (Es 0) (content s) ''account-42'' None ?evs)"
    "global_seq (content s') = global_seq (content s) + length ?evs" "latest_snapshot B C s' ''account-42'' = latest_snapshot B C s ''account-42''"
    by (rule own_append [where Es = Es and expected = expected, OF own batch _ quiet(1) room quiet(2) matches]) (use ds'(1) in simp)
  have "bank_at s' (es @ batch_of C (Es 0) (content s) ''account-42'' None ?evs) (ds @ ds')"
    using s'(2-4) holds_events_batch [OF h(1)] h(2) len by (simp add: bank_at_def)
  with s'(1) len show ?thesis by (intro that) simp_all
qed

lemma bank_rehydrate:
  assumes "bank_at s es ds"
  shows "rehydrate_account B C J s = Some (Inr (foldl account_step account_default (map snd ds), if ds = [] then None else Some (length ds - 1)))"
  using own_rehydrate(1) [of s "''account-42''" es "account_aggregate J"] assms bank_at_length [OF assms] holds_events_fold [of es ds account_default]
  by (auto simp: rehydrate_account_def bank_at_def aggregate_simps)

lemma bank_compact:
  fixes E :: "'s env"
  assumes at: "bank_at s es ds" "ds \<noteq> []" "length ds \<le> 100" and quiet: "others E s = s"
  obtains r s' rec where "compact B C (account_aggregate J) E s ''account-42'' = Some (bind_res r (\<lambda>_. Inr rec), s')"
    "comp_through_version rec = length ds - 1" "comp_stream rec = ''account-42''" "r = Inr () \<or> (\<exists>w. r = Inl (Backend (SlateClosed w)))"
    "rehydrate_account B C J s' = Some (Inr (foldl account_step account_default (map snd ds), Some (length ds - 1)))"
proof -
  let ?a = "foldl account_step account_default (map snd ds)"
  have own: "own_log C (content s) ''account-42'' es" and h: "holds_events es ds" and len: "length es = length ds" "es \<noteq> []" "global_seq (content s) = length ds"
    using at bank_at_length [OF at(1)] by (auto simp: bank_at_def)
  define rec where "rec = \<lparr>comp_stream = ''account-42'', comp_through_version = length es - 1, comp_events_compacted = length es,
     comp_job_id = None, comp_ts_ms = clock E 0\<rparr>"
  obtain r s' where p: "publish_snapshot B C E s ''account-42'' rec (projr (json_account J ?a)) = (r, s')" by fastforce
  have fold: "foldl (agg_apply (account_aggregate J)) (agg_default (account_aggregate J)) (map event_from_parts es) = Inr ?a"
    by (simp add: aggregate_simps holds_events_fold [OF h])
  have c: "compact B C (account_aggregate J) E s ''account-42'' = Some (bind_res r (\<lambda>_. Inr rec), s')"
    using own_compact [OF own len(2), of "account_aggregate J"] fold p by (simp add: aggregate_simps(3) rec_def)
  have room: "global_seq (content s) + 1 < VMAX" using at(3) len by simp
  note pub = own_publish [OF own quiet room p]
  have "rehydrate B C (account_aggregate J) s' ''account-42'' = Some (Inr (Inr ?a, Some (length ds - 1)))"
    using own_rehydrate(2) [OF pub(1,3), of "account_aggregate J" "Inr ?a"] at(2,3) len by (simp add: rec_def aggregate_simps)
  then show ?thesis using that [OF c _ _ pub(4)] len by (simp add: rec_def rehydrate_account_def)
qed

text \<open>The tail prints a history that ends at version 3 and returns.\<close>

lemma bank_tail:
  assumes "bank_at s [e0, e1, e2, e3] ds"
  shows "tailed (map (Inr \<circ> event_from_parts) [e0, e1, e2, e3]) w =
     Some (Inr (), map (\<lambda>i. Stdout (''tailed v'' @ show_nat i @ '' '' @ fst (ds ! i))) [0, 1, 2, 3], w)"
proof -
  have h: "map (\<lambda>e. (env_type e, env_data e)) [e0, e1, e2, e3] = map (apsnd event_bytes) ds"
    and own: "own_log C (content s) ''account-42'' [e0, e1, e2, e3]" using assms by (simp_all add: bank_at_def holds_events_def)
  have "map env_type [e0, e1, e2, e3] = map fst ds" using arg_cong [OF h, of "map fst"] by (simp add: comp_def)
  moreover have "length ds = 4" using bank_at_length [OF assms] by simp
  ultimately have ty: "fst (ds ! i) = map env_type [e0, e1, e2, e3] ! i" if "i < 4" for i using that by simp
  have "next_version C (content s) ''account-42'' = 4" using own_logD(6) [OF own] by simp
  then have "map env_version [e0, e1, e2, e3] = [0..<4]" using own_logD(5) [OF own] by simp
  then have v: "env_version e0 = 0" "env_version e1 = 1" "env_version e2 = 2" "env_version e3 = 3"
    by (simp_all add: upt_conv_Cons)
  show ?thesis
    using v
    by (simp add: ty prog_defs event_from_parts_def numeral_2_eq_2 numeral_3_eq_3)
qed

lemma bank_at_empty: "content s = Map.empty \<Longrightarrow> bank_at s [] []"
  unfolding bank_at_def using latest_none [of s] by (auto simp: own_log_empty name_ok_def holds_events_def)

lemma bank_follow:
  assumes "bank_at s es ds" "list_all2 serves rs ms" "growing C ''account-42'' Map.empty ms" "ms \<noteq> []" "last ms = content s"
  shows "follow_stream C ''account-42'' 0 rs = map (Inr \<circ> event_from_parts) es"
proof -
  have own: "own_log C (content s) ''account-42'' es" using assms(1) by (simp add: bank_at_def)
  from follow_growing [OF assms(2) wf_db_empty assms(3) log_okD(3) [OF own_logD(1) [OF own]], of 0] assms(4,5) own_logD(8) [OF own]
  show ?thesis by (simp add: follow_stream_def advance_def pick_def [of C Map.empty])
qed

lemma bank_run_eq:
  fixes E :: "('s, 'r) bank_env"
  assumes fresh: "content s = Map.empty"
    and quiet: "\<And>F. F \<in> {be_first E 0, be_withdraw E 0, be_deposit E 0, be_compact E} \<Longrightarrow> ulids_ok F \<and> (\<forall>s. others F s = s)"
    and polls: "\<And>s. wf_db C (content s) \<Longrightarrow>
      \<exists>ms. list_all2 serves (be_polls E reader s) ms \<and> growing C ''account-42'' Map.empty ms \<and> ms \<noteq> [] \<and> last ms = content s"
  shows "\<exists>s'. bank_run B C J E reader s = Some (Inr (), bank_lines, s') \<or>
     (\<exists>w. bank_run B C J E reader s = Some (Inl (Raised (Backend (SlateClosed w))), take 6 bank_lines, s'))"
proof -
  let ?d1 = "[(''opened'', Opened ''ada''), (''deposited'', Deposited 10000)]"
  let ?d2 = "[(''withdrawn'', Withdrawn 2500)]" and ?d3 = "[(''deposited'', Deposited 500)]"
  let ?new = "map (\<lambda>(ty, e). new_event_new ty (event_bytes e))"
  obtain s1 es1 where a1: "append_event B C (be_first E) s ''account-42'' NoStream (?new ?d1) =
      (Inr \<lparr>first_version = 0, last_version = 1, start_sequence = 1\<rparr>, s1)" "bank_at s1 es1 ?d1"
    using quiet by (auto intro: bank_append [OF bank_at_empty [OF fresh], where Es = "be_first E" and ds' = ?d1 and expected = NoStream] simp: bank_events_def)
  obtain s2 es2 where a2: "append_event B C (be_withdraw E) s1 ''account-42'' (Exact 1) (?new ?d2) =
      (Inr \<lparr>first_version = 2, last_version = 2, start_sequence = 3\<rparr>, s2)" "bank_at s2 es2 (?d1 @ ?d2)"
    using quiet by (auto intro: bank_append [OF a1(2), where Es = "be_withdraw E" and ds' = ?d2 and expected = "Exact 1"] simp: bank_events_def)
  obtain s3 es3 where a3: "append_event B C (be_deposit E) s2 ''account-42'' (Exact 2) (?new ?d3) =
      (Inr \<lparr>first_version = 3, last_version = 3, start_sequence = 4\<rparr>, s3)" "bank_at s3 es3 (?d1 @ ?d2 @ ?d3)"
    using quiet by (auto intro: bank_append [OF a2(2), where Es = "be_deposit E" and ds' = ?d3 and expected = "Exact 2"] simp: bank_events_def)
  have "length es3 = 4" using bank_at_length [OF a3(2)] by simp
  then obtain e0 e1 e2 e3 where es3: "es3 = [e0, e1, e2, e3]" by (auto simp: numeral_eq_Suc length_Suc_conv)
  note tail = bank_tail [OF a3(2) [unfolded es3], where w = s3]
  have "wf_db C (content s3)" using a3(2) by (auto simp: bank_at_def own_log_def log_ok_def)
  with polls obtain ms where ms: "list_all2 serves (be_polls E reader s3) ms" "growing C ''account-42'' Map.empty ms" "ms \<noteq> []" "last ms = content s3"
    by blast
  note follow = bank_follow [OF a3(2) ms, unfolded es3]
  obtain r s4 rec where c: "compact B C (account_aggregate J) (be_compact E) s3 ''account-42'' = Some (bind_res r (\<lambda>_. Inr rec), s4)"
    "comp_through_version rec = 3" "comp_stream rec = ''account-42''" "r = Inr () \<or> (\<exists>w. r = Inl (Backend (SlateClosed w)))"
    "rehydrate_account B C J s4 = Some (Inr (foldl account_step account_default (map snd (?d1 @ ?d2 @ ?d3)), Some 3))"
    by (rule bank_compact [OF a3(2), where E = "be_compact E"]) (use quiet in simp_all)
  note r1 = bank_rehydrate [OF a1(2)]
  show ?thesis
    using c(4) a1(1) a2(1) a3(1) r1 c(1-3,5) follow tail
    by (auto simp: bank_run_def bank_lines_def prog_defs event_new account_default_def debug_version_def run_numbers simp del: tailed.simps)
qed

end

section \<open>Reference serialisers\<close>

fun show_account_event :: "account_event \<Rightarrow> bytes" where
  "show_account_event (Opened owner) = net_enc [''o'', owner]"
| "show_account_event (Deposited cents) = net_enc [''d'', show_nat cents]"
| "show_account_event (Withdrawn cents) = net_enc [''w'', show_nat cents]"

definition read_account_event :: "string list \<Rightarrow> account_event option" where
  "read_account_event xs = (case xs of [k, x] \<Rightarrow>
       Some (if k = ''o'' then Opened x else if k = ''d'' then Deposited (dec_value x) else Withdrawn (dec_value x)) | _ \<Rightarrow> None)"

definition mem_bank_codec :: bank_codec where
  "mem_bank_codec =
     \<lparr>json_account_event = (\<lambda>e. Inr (show_account_event e)), unjson_account_event = net_parse read_account_event,
      json_account = (\<lambda>a. Inr (net_enc [acc_owner a, show_int (acc_balance a)])),
      unjson_account = net_parse (\<lambda>xs. case xs of [o', b] \<Rightarrow> Some \<lparr>acc_owner = o', acc_balance = read_int b\<rparr> | _ \<Rightarrow> None)\<rparr>"

lemma read_account_event_show: "net_parse read_account_event (show_account_event e) = Inr e"
  by (cases e) (simp_all add: net_parse_enc read_account_event_def)

interpretation mem_bank: bank mem_ops mem_content mem_writes mt_base mem_codec mem_bank_codec
proof
  show "\<exists>b. json_account_event mem_bank_codec e = Inr b \<and> unjson_account_event mem_bank_codec b = Inr e" for e
    by (simp add: mem_bank_codec_def read_account_event_show)
  show "\<exists>b. json_account mem_bank_codec a = Inr b \<and> unjson_account mem_bank_codec b = Inr a" for a
    by (simp add: mem_bank_codec_def net_parse_enc)
  show "json_account_event mem_bank_codec e = Inr b \<Longrightarrow> e \<in> bank_events \<Longrightarrow> length b \<le> MAX_RECORD_BYTES" for e b
    by (auto simp: mem_bank_codec_def bank_events_def net_enc_def net_field_def MAX_RECORD_BYTES_def show_nat.simps)
qed

section \<open>Properties\<close>

text \<open>The example runs as its comments say: on a fresh database that nobody else writes to, with a reader whose
  polls see the stream grow up to the last append, the program prints exactly the lines of
  \<open>bank_lines\<close> (the batch at versions 0 and 1, the balance after it, every event once, the compaction
  and the balance rehydrated from the snapshot) and returns; when the database closes before the
  compaction is durable, it stops there with that error.\<close>

theorem bank_account_run:
  assumes store: "event_store B content writes base C" and serde: "bank_serde J"
    and opened: "build ''bank_account'' object_store (default_settings stock) = Inr s" "content s = Map.empty"
      "open_db ''bank_account'' object_store reader_stock = Inr reader"
    and quiet: "\<And>F. F \<in> {be_first E 0, be_withdraw E 0, be_deposit E 0, be_compact E} \<Longrightarrow> ulids_ok F \<and> (\<forall>s. others F s = s)"
    and polls: "\<And>s. wf_db C (content s) \<Longrightarrow>
      \<exists>ms. list_all2 serves (be_polls E reader s) ms \<and> growing C ''account-42'' Map.empty ms \<and> ms \<noteq> [] \<and> last ms = content s"
  shows "\<exists>s'. bank_main build stock open_db reader_stock object_store B C J E = Some (Inr (), bank_lines, Some s') \<or>
     (\<exists>w. bank_main build stock open_db reader_stock object_store B C J E =
        Some (Inl (Raised (Backend (SlateClosed w))), take 6 bank_lines, Some s'))"
proof -
  have "bank B content writes base C J" using store serde by (simp add: bank_def)
  from bank.bank_run_eq [OF this opened(2) quiet polls] show ?thesis
    by (auto simp: bank_main_def store_open_def reader_open_def opened)
qed

definition mem_bank_env :: "(mem_db, unit) bank_env" where
  "mem_bank_env = \<lparr>be_first = mem_env, be_withdraw = mem_env, be_deposit = mem_env, be_compact = mem_env 0,
     be_polls = (\<lambda>_ s. [db_reader mem_ops mem_empty, db_reader mem_ops s])\<rparr>"

theorem bank_account_run_witness:
  "\<exists>s'. bank_main (\<lambda>_ _ _. Inr mem_empty) \<lparr>flush_interval = None, l0_sst_size_bytes = 0\<rparr> (\<lambda>_ _ _. Inr ()) \<lparr>manifest_poll_interval = 10000\<rparr> ()
      mem_ops mem_codec mem_bank_codec mem_bank_env = Some (Inr (), bank_lines, Some s') \<or>
     (\<exists>w. bank_main (\<lambda>_ _ _. Inr mem_empty) \<lparr>flush_interval = None, l0_sst_size_bytes = 0\<rparr> (\<lambda>_ _ _. Inr ()) \<lparr>manifest_poll_interval = 10000\<rparr> ()
      mem_ops mem_codec mem_bank_codec mem_bank_env = Some (Inl (Raised (Backend (SlateClosed w))), take 6 bank_lines, Some s'))"
proof (rule bank_account_run [OF mem_store.event_store_axioms mem_bank.bank_serde_axioms])
  show "\<exists>ms. list_all2 serves (be_polls mem_bank_env () s) ms \<and> growing mem_codec ''account-42'' Map.empty ms \<and> ms \<noteq> [] \<and> last ms = mem_content s"
    if "wf_db mem_codec (mem_content s)" for s
    using that mem.serves_db [of mem_empty] mem.serves_db [of s]
    by (intro exI [of _ "[Map.empty, mem_content s]"]) (simp add: mem_bank_env_def grows_def)
qed (auto simp: mem_bank_env_def)

end
