(* ===== verification/Fs_Snapshots.thy ===== *)
theory Fs_Snapshots
  imports Program Checkpointing
begin

text \<open>
  The example \<open>examples/fs_snapshots.rs\<close>: a volume of small files as a fold of its events, sealed in
  segments that a manifest lists, and the run of \<open>main\<close> that commits, checkpoints and mounts. The
  segments live in a map, the application's own object storage; \<open>serde_json\<close> is the parameter
  record \<open>snap_codec\<close>. The deltas of a checkpoint are its writes: when the events delete nothing a
  mount gives the fold of the whole stream, and a deletion across a checkpoint is lost.
\<close>

section \<open>The volume\<close>

datatype snap_event = SnapWrite string string | SnapDelete string

type_synonym snap_image = "string \<rightharpoonup> string"
type_synonym snap_bucket = "string \<rightharpoonup> bytes"

record snap_codec =
  json_snap_event :: "snap_event \<Rightarrow> string + bytes"
  unjson_snap_event :: "bytes \<Rightarrow> string + snap_event"
  json_snap_image :: "snap_image \<Rightarrow> string + bytes"
  unjson_snap_image :: "bytes \<Rightarrow> string + snap_image"
  json_snap_manifest :: "string list \<Rightarrow> string + bytes"
  unjson_snap_manifest :: "bytes \<Rightarrow> string + string list"

fun snap_step :: "snap_image \<Rightarrow> snap_event \<Rightarrow> snap_image" where
  "snap_step img (SnapWrite path content) = img(path \<mapsto> content)"
| "snap_step img (SnapDelete path) = img(path := None)"

text \<open>\<open>apply\<close>: an event that does not decode is a panic.\<close>

definition snap_apply :: "snap_codec \<Rightarrow> snap_image res \<Rightarrow> event \<Rightarrow> snap_image res" where
  "snap_apply J st e =
     bind_res st (\<lambda>img. bind_res (expect_ok ''unwrap of Err'' (event_json (unjson_snap_event J) e)) (\<lambda>d. Inr (snap_step img d)))"

definition snap_fold ::
  "('s, 't) slatedb_ops \<Rightarrow> codec \<Rightarrow> snap_codec \<Rightarrow> 's \<Rightarrow> string \<Rightarrow> version \<Rightarrow> snap_image \<Rightarrow> (snap_image \<times> version option) res option" where
  "snap_fold B C J s vol start img =
     map_option (\<lambda>r. bind_res r (\<lambda>(st, tip). bind_res st (\<lambda>img. Inr (img, tip))))
       (store_fold B C s vol (Included start, Unbounded) (Inr img) (snap_apply J))"

text \<open>\<open>mount\<close>; indexing the bucket with a segment it does not hold is a panic.\<close>

definition snap_segments :: "snap_codec \<Rightarrow> snap_bucket \<Rightarrow> string list \<Rightarrow> snap_image res" where
  "snap_segments J bucket segments =
     fold_res (\<lambda>img seg. bind_res (expect ''no entry found for key'' (bucket seg)) (\<lambda>b.
         bind_res (map_err Encoding (unjson_snap_image J b)) (\<lambda>delta. Inr (img ++ delta))))
       Map.empty segments"

definition snap_mount ::
  "('s, 't) slatedb_ops \<Rightarrow> codec \<Rightarrow> snap_codec \<Rightarrow> string \<Rightarrow> ('s \<times> snap_bucket, snap_image \<times> version option) prog" where
  "snap_mount B C J vol =
     and_then (query (\<lambda>(s, _). latest_snapshot B C s vol)) (\<lambda>snap.
     and_then (attempt (case snap of
         Some r \<Rightarrow> bind_res (map_err Encoding (unjson_snap_manifest J (snap_state r))) (\<lambda>m. Inr (m, Some (snap_through_version r)))
       | None \<Rightarrow> Inr ([], None))) (\<lambda>(segments, checkpoint_tip).
     let start = (case checkpoint_tip of None \<Rightarrow> 0 | Some v \<Rightarrow> add64 v 1) in
     and_then (println (''  mount: manifest has '' @ show_nat (length segments) @ '' segment(s), folding backlog from v'' @ show_nat start)) (\<lambda>_.
     and_then (query (\<lambda>(_, bucket). snap_segments J bucket segments)) (\<lambda>img.
     and_then (query_opt (\<lambda>(s, _). snap_fold B C J s vol start img)) (\<lambda>(img', backlog_tip).
       ret (img', case backlog_tip of None \<Rightarrow> checkpoint_tip | Some v \<Rightarrow> Some v))))))"

definition snap_checkpoint ::
  "('s, 't) slatedb_ops \<Rightarrow> codec \<Rightarrow> snap_codec \<Rightarrow> 's env \<Rightarrow> string \<Rightarrow> string \<Rightarrow> ('s \<times> snap_bucket, unit) prog" where
  "snap_checkpoint B C J E seg_id vol =
     and_then (query (\<lambda>(s, _). latest_snapshot B C s vol)) (\<lambda>snap.
     and_then (query_opt (\<lambda>(s, _). snap_fold B C J s vol
         (case snap of Some r \<Rightarrow> add64 (snap_through_version r) 1 | None \<Rightarrow> 0) Map.empty)) (\<lambda>(delta, tip).
     case tip of
       None \<Rightarrow> ret ()
     | Some tip \<Rightarrow>
         and_then (query (\<lambda>(s, _). latest_snapshot B C s vol)) (\<lambda>snap.
         and_then (attempt (case snap of None \<Rightarrow> Inr [] | Some r \<Rightarrow> expect_ok ''unwrap of Err'' (unjson_snap_manifest J (snap_state r)))) (\<lambda>segments.
         and_then (attempt (map_err Encoding (json_snap_image J delta))) (\<lambda>b.
         and_then (call (\<lambda>(s, bucket). (Inr (), s, bucket(seg_id \<mapsto> b)))) (\<lambda>_.
         and_then (attempt (map_err Encoding (json_snap_manifest J (segments @ [seg_id])))) (\<lambda>state.
           call (\<lambda>(s, bucket). apsnd (\<lambda>s'. (s', bucket)) (publish_snapshot B C E s vol
             \<lparr>comp_stream = vol, comp_through_version = tip, comp_events_compacted = 0, comp_job_id = None, comp_ts_ms = 0\<rparr> state)))))))))"

section \<open>The program\<close>

record 's snap_env =
  se_append :: "nat \<Rightarrow> nat \<Rightarrow> 's env"
  se_publish :: "nat \<Rightarrow> 's env"
  se_ulid :: "nat \<Rightarrow> string"

definition churn_event :: "nat \<Rightarrow> snap_event" where
  "churn_event i = SnapWrite (''/var/log/'' @ show_nat (i mod 10) @ ''.log'') (''gen '' @ show_nat i)"

fun churn_loop ::
  "('s, 't) slatedb_ops \<Rightarrow> codec \<Rightarrow> snap_codec \<Rightarrow> 's snap_env \<Rightarrow> nat list \<Rightarrow> version option \<Rightarrow> ('s \<times> snap_bucket, unit) prog" where
  "churn_loop B C J E [] v = ret ()"
| "churn_loop B C J E (i # is) v =
     and_then (attempt (new_event_json (json_snap_event J) ''write'' (churn_event i))) (\<lambda>e.
     and_then (call (\<lambda>(s, bucket). apsnd (\<lambda>s'. (s', bucket)) (append_event B C (se_append E i) s ''vol-7''
         (case v of None \<Rightarrow> NoStream | Some v \<Rightarrow> Exact v) [e]))) (\<lambda>commit.
     and_then (if (i + 1) mod 250 = 0
         then and_then (snap_checkpoint B C J (se_publish E i) (se_ulid E i) ''vol-7'') (\<lambda>_.
                println (''checkpointed at v'' @ show_nat (last_version commit)))
         else ret ()) (\<lambda>_.
       churn_loop B C J E is (Some (last_version commit)))))"

definition snapshots_run :: "('s, 't) slatedb_ops \<Rightarrow> codec \<Rightarrow> snap_codec \<Rightarrow> 's snap_env \<Rightarrow> ('s \<times> snap_bucket, unit) prog" where
  "snapshots_run B C J E =
     and_then (churn_loop B C J E [0..<1000] None) (\<lambda>_.
     and_then (snap_mount B C J ''vol-7'') (\<lambda>(img, tip).
     and_then (println (''mounted vol-7 at v'' @ debug_version tip @ '': '' @ show_nat (card (dom img)) @ '' live files'')) (\<lambda>_.
       if card (dom img) = 10 then ret () else attempt (Inl (Panicked ''assertion failed: image.len() == 10'')))))"

definition snapshots_main ::
  "(string \<Rightarrow> 'o \<Rightarrow> 'z slate_settings_scheme \<Rightarrow> slate_error + 's) \<Rightarrow> 'z slate_settings_scheme \<Rightarrow> 'o \<Rightarrow>
   ('s, 't) slatedb_ops \<Rightarrow> codec \<Rightarrow> snap_codec \<Rightarrow> 's snap_env \<Rightarrow> ((stop + unit) \<times> line list \<times> ('s \<times> snap_bucket) option) option" where
  "snapshots_main build stock memory B C J E =
     (case open_in_memory build stock memory of
        Inl e \<Rightarrow> Some (Inl (Raised e), [], None)
      | Inr s \<Rightarrow> map_option (\<lambda>(r, out, w). (r, out, Some w)) (snapshots_run B C J E (s, Map.empty)))"

section \<open>Segments of writes\<close>

fun is_snap_write :: "snap_event \<Rightarrow> bool" where
  "is_snap_write (SnapWrite _ _) = True"
| "is_snap_write (SnapDelete _) = False"

text \<open>Sealing in pieces: a segment is what the writes since the last one lead to from nothing.\<close>

interpretation snap_seal: checkpointing snap_step "\<lambda>_. Map.empty" snap_step Some "(++)" "\<lambda>i b x. x = i ++ b" "\<lambda>_. True" is_snap_write
proof
  show "snap_step x d = i ++ snap_step b d" if "x = i ++ b" "is_snap_write d" for i b x d
    using that by (cases d) simp_all
qed simp_all

lemma snap_fold_finite: "finite (dom img) \<Longrightarrow> finite (dom (foldl snap_step img ds))"
proof (induction ds arbitrary: img)
  case (Cons d ds)
  have "finite (dom (snap_step img d))" using Cons.prems by (cases d) simp_all
  from Cons.IH [OF this] show ?case by simp
qed simp

text \<open>A deletion of a file an earlier segment holds is not in the next segment: the merge brings the file back.\<close>

theorem deleted_file_returns:
  "foldl (++) Map.empty [foldl snap_step Map.empty [SnapWrite p c], foldl snap_step Map.empty [SnapDelete p]] p = Some c"
  "foldl snap_step Map.empty [SnapWrite p c, SnapDelete p] p = None"
  by simp_all

text \<open>The files of the run: ten paths, each written a hundred times.\<close>

fun snap_path :: "snap_event \<Rightarrow> string" where
  "snap_path (SnapWrite path _) = path"
| "snap_path (SnapDelete path) = path"

lemma dom_writes: "list_all is_snap_write ds \<Longrightarrow> dom (foldl snap_step img ds) = dom img \<union> snap_path ` set ds"
proof (induction ds arbitrary: img)
  case (Cons d ds)
  then have "dom (foldl snap_step (snap_step img d) ds) = dom (snap_step img d) \<union> snap_path ` set ds" by simp
  moreover have "dom (snap_step img d) = insert (snap_path d) (dom img)" using Cons.prems by (cases d) simp_all
  ultimately show ?case by simp
qed simp

lemma churned_files: "card (dom (foldl snap_step Map.empty (map churn_event [0..<1000]))) = 10"
proof -
  let ?p = "\<lambda>i. ''/var/log/'' @ show_nat i @ ''.log''"
  have "dom (foldl snap_step Map.empty (map churn_event [0..<1000])) = (snap_path \<circ> churn_event) ` {0..<1000}"
    by (subst dom_writes) (auto simp: list_all_iff churn_event_def image_comp)
  also have "\<dots> = ?p ` {..<10}"
  proof (intro equalityI subsetI)
    fix x assume "x \<in> ?p ` {..<10}"
    then obtain i where "i < 10" "x = ?p i" by auto
    then have "x = (snap_path \<circ> churn_event) i" "i \<in> {0..<1000}" by (simp_all add: churn_event_def)
    then show "x \<in> (snap_path \<circ> churn_event) ` {0..<1000}" by blast
  qed (auto simp: churn_event_def)
  also have "card (?p ` {..<10}) = card {..<10::nat}"
  proof (rule card_image, rule inj_onI)
    fix i j assume "?p i = ?p j"
    then have "show_nat i = show_nat j" by simp
    then show "i = j" by (metis dec_value_show_nat)
  qed
  finally show ?thesis by simp
qed

lemma checkpoint_commits: "filter (\<lambda>i. Suc i mod 250 = 0) [0..<1000] = [249, 499, 749, 999]"
proof (rule strict_sorted_unique)
  have "i = 249 \<or> i = 499 \<or> i = 749 \<or> i = 999" if "250 dvd Suc i" "i < 1000" for i
  proof -
    from that(1) obtain q where q: "Suc i = 250 * q" by (rule dvdE)
    with that(2) have "q = 1 \<or> q = 2 \<or> q = 3 \<or> q = 4" by linarith
    with q show ?thesis by auto
  qed
  then show "set (filter (\<lambda>i. Suc i mod 250 = 0) [0..<1000]) = set [249, 499, 749, 999]" by auto
qed (simp_all add: sorted_wrt_filter)

definition snap_lines :: "line list" where
  "snap_lines = map Stdout
     [''checkpointed at v249'', ''checkpointed at v499'', ''checkpointed at v749'', ''checkpointed at v999'',
      ''  mount: manifest has 4 segment(s), folding backlog from v1000'', ''mounted vol-7 at vSome(999): 10 live files'']"

lemma snap_digits: "digit 0 = CHR ''0''" "digit 1 = CHR ''1''" "digit (Suc 0) = CHR ''1''" "digit 2 = CHR ''2''" "digit 4 = CHR ''4''" "digit 7 = CHR ''7''" "digit 9 = CHR ''9''"
  by code_simp+

lemma snap_numbers: "show_nat 249 = ''249''" "show_nat 499 = ''499''" "show_nat 749 = ''749''" "show_nat 999 = ''999''"
  "show_nat 1000 = ''1000''" "show_nat 10 = ''10''" "show_nat 4 = ''4''"
  by (simp_all add: show_nat.simps snap_digits)

section \<open>The stored volume\<close>

locale snap_serde =
  fixes J :: snap_codec
  assumes event_codec: "\<exists>b. json_snap_event J e = Inr b \<and> unjson_snap_event J b = Inr e"
    and image_codec: "finite (dom img) \<Longrightarrow> \<exists>b. json_snap_image J img = Inr b \<and> unjson_snap_image J b = Inr img"
    and manifest_codec: "\<exists>b. json_snap_manifest J segs = Inr b \<and> unjson_snap_manifest J b = Inr segs"
    and event_size: "json_snap_event J (churn_event i) = Inr b \<Longrightarrow> i < 1000 \<Longrightarrow> length b \<le> MAX_RECORD_BYTES"
begin

definition snap_bytes :: "snap_event \<Rightarrow> bytes" where
  "snap_bytes e = projr (json_snap_event J e)"

lemma snap_bytes: "json_snap_event J e = Inr (snap_bytes e)" "unjson_snap_event J (snap_bytes e) = Inr e"
  using event_codec [of e] by (auto simp: snap_bytes_def)

lemma snap_apply_fold:
  "map env_data es = map snap_bytes ds \<Longrightarrow> foldl (snap_apply J) (Inr img) (map event_from_parts es) = Inr (foldl snap_step img ds)"
proof (induction ds arbitrary: img es)
  case (Cons d ds)
  then obtain e es' where es: "es = e # es'" "env_data e = snap_bytes d" "map env_data es' = map snap_bytes ds" by (cases es) auto
  have "snap_apply J (Inr img) (event_from_parts e) = Inr (snap_step img d)"
    by (simp add: snap_apply_def event_json_def event_from_parts_def es(2) snap_bytes(2) expect_ok_def)
  with Cons.IH [OF es(3)] es(1) show ?case by simp
qed simp

text \<open>The bucket holds the segments of a manifest.\<close>

definition holds_segments :: "snap_bucket \<Rightarrow> string list \<Rightarrow> snap_image list \<Rightarrow> bool" where
  "holds_segments bucket = list_all2 (\<lambda>seg img. \<exists>b. bucket seg = Some b \<and> unjson_snap_image J b = Inr img)"

lemma snap_segments_eq: "holds_segments bucket segs imgs \<Longrightarrow> snap_segments J bucket segs = Inr (foldl (++) Map.empty imgs)"
proof -
  have "fold_res (\<lambda>img seg. bind_res (expect ''no entry found for key'' (bucket seg)) (\<lambda>b.
         bind_res (map_err Encoding (unjson_snap_image J b)) (\<lambda>delta. Inr (img ++ delta)))) i segs = Inr (foldl (++) i imgs)"
    if "holds_segments bucket segs imgs" for i
    using that unfolding holds_segments_def by (induction arbitrary: i rule: list_all2_induct) (auto simp: expect_def)
  then show "holds_segments bucket segs imgs \<Longrightarrow> ?thesis" by (simp add: snap_segments_def)
qed

lemma holds_segments_put:
  assumes "holds_segments bucket segs imgs" "seg \<notin> set segs" "unjson_snap_image J b = Inr img"
  shows "holds_segments (bucket(seg \<mapsto> b)) (segs @ [seg]) (imgs @ [img])"
proof -
  have "holds_segments (bucket(seg \<mapsto> b)) segs imgs"
    using assms(1,2) unfolding holds_segments_def by (auto simp: list_all2_conv_all_nth in_set_conv_nth)
  with assms(3) show ?thesis by (simp add: holds_segments_def list_all2_appendI)
qed

end

text \<open>Nobody else writes, and the identifiers of the segments are distinct.\<close>

definition snap_quiet :: "'s snap_env \<Rightarrow> bool" where
  "snap_quiet E \<longleftrightarrow> inj (se_ulid E) \<and>
     (\<forall>i s. ulids_ok (se_append E i 0) \<and> others (se_append E i 0) s = s \<and> others (se_publish E i) s = s)"

definition tail_version_expected :: "'a list \<Rightarrow> expected_version" where
  "tail_version_expected ds = (if ds = [] then NoStream else Exact (length ds - 1))"

locale snap_store = event_store B content writes base C + snap_serde J
  for B :: "('s, 't) slatedb_ops" and content writes base C J
begin

text \<open>The stream holds \<open>ds\<close>, and the segments of the latest manifest merge to the fold of the first \<open>k\<close>.\<close>

definition stored_volume ::
  "'s \<Rightarrow> snap_bucket \<Rightarrow> string \<Rightarrow> envelope list \<Rightarrow> snap_event list \<Rightarrow> nat \<Rightarrow> string list \<Rightarrow> snap_image list \<Rightarrow> bool" where
  "stored_volume s bucket vol es ds k segs imgs \<longleftrightarrow>
     own_log C (content s) vol es \<and> map env_data es = map snap_bytes ds \<and> k \<le> length ds \<and> length ds + 1 < VMAX \<and>
     (latest_snapshot B C s vol = Inr None \<and> k = 0 \<and> segs = [] \<or>
      (\<exists>r. latest_snapshot B C s vol = Inr (Some r) \<and> snap_through_version r + 1 = k \<and> unjson_snap_manifest J (snap_state r) = Inr segs)) \<and>
     holds_segments bucket segs imgs \<and> foldl (++) Map.empty imgs = foldl snap_step Map.empty (take k ds)"

lemma snap_fold_eq:
  assumes "own_log C (content s) vol es" "map env_data es = map snap_bytes ds" "start < VMAX"
  shows "snap_fold B C J s vol start img =
     Some (Inr (foldl snap_step img (drop start ds), if length ds \<le> start then None else Some (length ds - 1)))"
proof -
  have "length es = length ds" using assms(2) by (metis length_map)
  moreover have "map env_data (drop start es) = map snap_bytes (drop start ds)" using assms(2) by (metis drop_map)
  ultimately show ?thesis
    using own_fold [OF assms(1,3), of "Inr img" "snap_apply J"] snap_apply_fold by (simp add: snap_fold_def)
qed

text \<open>A mount of a stored volume returns the fold of its whole stream and the last version.\<close>

lemma snap_mount_eq:
  assumes "stored_volume s bucket vol es ds k segs imgs"
  shows "snap_mount B C J vol (s, bucket) = Some (Inr (foldl snap_step Map.empty ds, if ds = [] then None else Some (length ds - 1)),
     [Stdout (''  mount: manifest has '' @ show_nat (length segs) @ '' segment(s), folding backlog from v'' @ show_nat k)], s, bucket)"
proof -
  note inv = assms [unfolded stored_volume_def]
  have "foldl snap_step (foldl snap_step Map.empty (take k ds)) (drop k ds) = foldl snap_step Map.empty ds"
    by (metis append_take_drop_id foldl_append)
  moreover have "k < VMAX" using inv by simp
  ultimately have fold: "snap_fold B C J s vol k (foldl (++) Map.empty imgs) =
      Some (Inr (foldl snap_step Map.empty ds, if length ds \<le> k then None else Some (length ds - 1)))"
    using inv snap_fold_eq [of s vol es ds k] by simp
  have segs: "snap_segments J bucket segs = Inr (foldl (++) Map.empty imgs)" using inv snap_segments_eq by blast
  show ?thesis
  proof (cases "latest_snapshot B C s vol = Inr None \<and> k = 0 \<and> segs = []")
    case True
    with fold segs show ?thesis by (auto simp: snap_mount_def prog_defs)
  next
    case False
    with inv obtain r where r: "latest_snapshot B C s vol = Inr (Some r)" "k = snap_through_version r + 1"
      "unjson_snap_manifest J (snap_state r) = Inr segs" by auto
    with fold segs inv show ?thesis by (auto simp: snap_mount_def prog_defs)
  qed
qed

text \<open>A checkpoint of writes seals them in one segment; when it is not acknowledged the state is the same.\<close>

lemma snap_checkpoint_eq:
  fixes E :: "'s env"
  assumes inv: "stored_volume s bucket vol es ds k segs imgs" and "k < length ds" "list_all is_snap_write (drop k ds)" "seg \<notin> set segs"
    and quiet: "others E s = s" "global_seq (content s) + 1 < VMAX"
  obtains r s' b img where "snap_checkpoint B C J E seg vol (s, bucket) = Some (map_err Raised r, [], s', bucket(seg \<mapsto> b))"
    "r = Inr () \<or> (\<exists>w. r = Inl (Backend (SlateClosed w)))" "global_seq (content s') = global_seq (content s) + 1"
    "stored_volume s' (bucket(seg \<mapsto> b)) vol es ds (length ds) (segs @ [seg]) (imgs @ [img])"
proof -
  note iv = inv [unfolded stored_volume_def]
  have own: "own_log C (content s) vol es" and len: "length es = length ds" using iv by (auto dest: map_eq_imp_length_eq)
  define delta where "delta = foldl snap_step Map.empty (drop k ds)"
  obtain b where b: "json_snap_image J delta = Inr b" "unjson_snap_image J b = Inr delta"
    using image_codec [of delta] snap_fold_finite [of Map.empty "drop k ds"] by (auto simp: delta_def)
  obtain st where st: "json_snap_manifest J (segs @ [seg]) = Inr st" "unjson_snap_manifest J st = Inr (segs @ [seg])"
    using manifest_codec by blast
  let ?rec = "\<lparr>comp_stream = vol, comp_through_version = length ds - 1, comp_events_compacted = 0, comp_job_id = None, comp_ts_ms = 0\<rparr>"
  obtain r s' where p: "publish_snapshot B C E s vol ?rec st = (r, s')" by fastforce
  note pub = own_publish [OF own quiet p]
  have fold: "snap_fold B C J s vol k Map.empty = Some (Inr (delta, Some (length ds - 1)))"
    using snap_fold_eq [OF own, of ds k Map.empty] iv assms(2) by (simp add: delta_def)
  have run: "snap_checkpoint B C J E seg vol (s, bucket) = Some (map_err Raised r, [], s', bucket(seg \<mapsto> b))"
  proof (cases "latest_snapshot B C s vol = Inr None \<and> k = 0 \<and> segs = []")
    case True
    with fold b st p show ?thesis by (auto simp: snap_checkpoint_def prog_defs split: sum.splits)
  next
    case False
    with iv obtain x where "latest_snapshot B C s vol = Inr (Some x)" "k = snap_through_version x + 1"
      "unjson_snap_manifest J (snap_state x) = Inr segs" by auto
    with fold b st p iv show ?thesis by (auto simp: snap_checkpoint_def prog_defs split: sum.splits)
  qed
  have "foldl (++) Map.empty (imgs @ [delta]) = foldl snap_step (foldl snap_step Map.empty (take k ds)) (drop k ds)"
    using iv snap_seal.merge_sealed [OF _ assms(3), where i = "foldl snap_step Map.empty (take k ds)" and g = delta] by (simp add: delta_def)
  also have "\<dots> = foldl snap_step Map.empty ds" by (metis append_take_drop_id foldl_append)
  finally have merged: "foldl (++) Map.empty (imgs @ [delta]) = foldl snap_step Map.empty ds" .
  have "stored_volume s' (bucket(seg \<mapsto> b)) vol es ds (length ds) (segs @ [seg]) (imgs @ [delta])"
    using iv pub(1,3) st(2) merged holds_segments_put [OF _ assms(4) b(2)] assms(2) unfolding stored_volume_def by auto
  with that [OF run pub(4,2)] show ?thesis by blast
qed

lemma snap_append_eq:
  assumes inv: "stored_volume s bucket vol es ds k segs imgs" and "length (snap_bytes d) \<le> MAX_RECORD_BYTES"
    and quiet: "ulids_ok (Es 0)" "others (Es 0) s = s" and room: "length ds + 2 < VMAX" "global_seq (content s) + 1 < VMAX"
  obtains s' es' where "append_event B C Es s vol (tail_version_expected ds) [new_event_new ty (snap_bytes d)] =
      (Inr \<lparr>first_version = length ds, last_version = length ds, start_sequence = global_seq (content s) + 1\<rparr>, s')"
    "stored_volume s' bucket vol es' (ds @ [d]) k segs imgs" "global_seq (content s') = global_seq (content s) + 1"
proof -
  note iv = inv [unfolded stored_volume_def]
  let ?e = "new_event_new ty (snap_bytes d)"
  have own: "own_log C (content s) vol es" and len: "length es = length ds" using iv by (auto dest: map_eq_imp_length_eq)
  have batch: "check_batch [?e] = Inr ()" using assms(2) by (simp add: check_batch_ok MAX_BATCH_RECORDS_def new_event_new_def)
  have fits: "append_room C (content s) vol None [?e]" using room own_logD(6) [OF own] len by (simp add: append_room_def append_start_def)
  have expected: "version_matches (tail_version_expected ds) (if es = [] then None else Some (length es - 1))"
    using len by (auto simp: tail_version_expected_def)
  obtain s' where s': "append_event B C Es s vol (tail_version_expected ds) [?e] =
      (Inr \<lparr>first_version = length es, last_version = length es + length [?e] - 1, start_sequence = global_seq (content s) + 1\<rparr>, s')"
    "own_log C (content s') vol (es @ batch_of C (Es 0) (content s) vol None [?e])"
    "global_seq (content s') = global_seq (content s) + length [?e]" "latest_snapshot B C s' vol = latest_snapshot B C s vol"
    by (rule own_append [where Es = Es, OF own batch _ quiet(1) fits quiet(2) expected]) simp
  have "map env_data (batch_of C (Es 0) (content s) vol None [?e]) = [snap_bytes d]"
    by (rule nth_equalityI) (simp_all add: batch_nth new_event_new_def)
  then have "stored_volume s' bucket vol (es @ batch_of C (Es 0) (content s) vol None [?e]) (ds @ [d]) k segs imgs"
    using iv s'(2,4) room(1) by (simp add: stored_volume_def)
  with s' len show ?thesis by (intro that) simp_all
qed

text \<open>The state of the run after \<open>n\<close> commits.\<close>

definition churned :: "'s snap_env \<Rightarrow> nat \<Rightarrow> 's \<Rightarrow> snap_bucket \<Rightarrow> bool" where
  "churned E n s bucket \<longleftrightarrow> (\<exists>es segs imgs.
     stored_volume s bucket ''vol-7'' es (map churn_event [0..<n]) (250 * (n div 250)) segs imgs \<and>
     length segs = n div 250 \<and> set segs \<subseteq> se_ulid E ` {..<n} \<and> global_seq (content s) = n + n div 250)"

lemma churned_empty: "content s = Map.empty \<Longrightarrow> churned E 0 s bucket"
  using latest_none [of s]
  by (auto simp: churned_def stored_volume_def own_log_empty name_ok_def holds_segments_def)

lemma churn_append:
  assumes at: "churned E n s bucket" "n < 1000" and quiet: "snap_quiet E"
  obtains s' es segs imgs where "append_event B C (se_append E n) s ''vol-7'' (if n = 0 then NoStream else Exact (n - 1))
      [new_event_new ''write'' (snap_bytes (churn_event n))] =
      (Inr \<lparr>first_version = n, last_version = n, start_sequence = global_seq (content s) + 1\<rparr>, s')"
    "stored_volume s' bucket ''vol-7'' es (map churn_event [0..<Suc n]) (250 * (n div 250)) segs imgs"
    "length segs = n div 250" "set segs \<subseteq> se_ulid E ` {..<n}" "global_seq (content s') = Suc n + n div 250"
proof -
  obtain es segs imgs where v: "stored_volume s bucket ''vol-7'' es (map churn_event [0..<n]) (250 * (n div 250)) segs imgs"
    and segs: "length segs = n div 250" "set segs \<subseteq> se_ulid E ` {..<n}" and sq: "global_seq (content s) = n + n div 250"
    using at(1) by (auto simp: churned_def)
  have "length (snap_bytes (churn_event n)) \<le> MAX_RECORD_BYTES" by (rule event_size [OF snap_bytes(1) at(2)])
  moreover have "n + n div 250 < 2000" using at(2) div_le_dividend [of n 250] by linarith
  ultimately obtain s' es' where "append_event B C (se_append E n) s ''vol-7'' (tail_version_expected (map churn_event [0..<n]))
      [new_event_new ''write'' (snap_bytes (churn_event n))] =
      (Inr \<lparr>first_version = n, last_version = n, start_sequence = global_seq (content s) + 1\<rparr>, s')"
    "stored_volume s' bucket ''vol-7'' es' (map churn_event [0..<n] @ [churn_event n]) (250 * (n div 250)) segs imgs"
    "global_seq (content s') = global_seq (content s) + 1"
    using snap_append_eq [OF v, where Es = "se_append E n" and d = "churn_event n" and ty = "''write''"] quiet at(2) sq
    by (auto simp: snap_quiet_def)
  moreover have "tail_version_expected (map churn_event [0..<n]) = (if n = 0 then NoStream else Exact (n - 1))"
    by (simp add: tail_version_expected_def)
  ultimately show ?thesis using that segs sq by simp
qed

lemma churn_body:
  assumes at: "churned E n s bucket" "n < 1000" and quiet: "snap_quiet E"
  shows "(\<exists>s' bucket'. churned E (Suc n) s' bucket' \<and>
      churn_loop B C J E (n # is) (if n = 0 then None else Some (n - 1)) (s, bucket) =
        map_option (\<lambda>(r, out, w). (r, (if Suc n mod 250 = 0 then [Stdout (''checkpointed at v'' @ show_nat n)] else []) @ out, w))
          (churn_loop B C J E is (Some n) (s', bucket'))) \<or>
     (\<exists>w x. churn_loop B C J E (n # is) (if n = 0 then None else Some (n - 1)) (s, bucket) =
        Some (Inl (Raised (Backend (SlateClosed w))), [], x))"
proof -
  obtain s1 es segs imgs where a: "append_event B C (se_append E n) s ''vol-7'' (if n = 0 then NoStream else Exact (n - 1))
      [new_event_new ''write'' (snap_bytes (churn_event n))] =
      (Inr \<lparr>first_version = n, last_version = n, start_sequence = global_seq (content s) + 1\<rparr>, s1)"
    and v: "stored_volume s1 bucket ''vol-7'' es (map churn_event [0..<Suc n]) (250 * (n div 250)) segs imgs"
    and segs: "length segs = n div 250" "set segs \<subseteq> se_ulid E ` {..<n}" and sq: "global_seq (content s1) = Suc n + n div 250"
    by (rule churn_append [OF assms])
  have new: "new_event_json (json_snap_event J) ''write'' (churn_event n) = Inr (new_event_new ''write'' (snap_bytes (churn_event n)))"
    by (simp add: new_event_json_def snap_bytes(1))
  have ex: "(case if n = 0 then None else Some (n - 1) of None \<Rightarrow> NoStream | Some v \<Rightarrow> Exact v) = (if n = 0 then NoStream else Exact (n - 1))"
    by simp
  have less: "set segs \<subseteq> se_ulid E ` {..<Suc n}" using segs(2) by (auto simp: less_Suc_eq)
  show ?thesis
  proof (cases "Suc n mod 250 = 0")
    case False
    then have "churned E (Suc n) s1 bucket" using v segs(1) less sq by (auto simp: churned_def div_Suc)
    with a new ex False show ?thesis
      by (intro disjI1 exI [of _ s1] exI [of _ bucket]) (auto simp: prog_defs option.map_id)
  next
    case True
    have d: "Suc n div 250 = Suc (n div 250)" using True by (simp add: div_Suc)
    then have k: "250 * (Suc n div 250) = Suc n" "250 * (n div 250) < Suc n" using True mult_div_mod_eq [of 250 "Suc n"] by simp_all
    have wr: "list_all is_snap_write (drop (250 * (n div 250)) (map churn_event [0..<Suc n]))"
      by (auto simp: list_all_iff churn_event_def dest!: in_set_dropD)
    have fresh: "se_ulid E n \<notin> set segs" using segs(2) quiet by (auto simp: snap_quiet_def dest: injD)
    have room: "global_seq (content s1) + 1 < VMAX" using sq at(2) div_le_dividend [of n 250] by simp
    have calm: "others (se_publish E n) s1 = s1" using quiet by (simp add: snap_quiet_def)
    obtain r s2 b img where c: "snap_checkpoint B C J (se_publish E n) (se_ulid E n) ''vol-7'' (s1, bucket) =
        Some (map_err Raised r, [], s2, bucket(se_ulid E n \<mapsto> b))" "r = Inr () \<or> (\<exists>w. r = Inl (Backend (SlateClosed w)))"
      "global_seq (content s2) = global_seq (content s1) + 1"
      "stored_volume s2 (bucket(se_ulid E n \<mapsto> b)) ''vol-7'' es (map churn_event [0..<Suc n]) (length (map churn_event [0..<Suc n]))
         (segs @ [se_ulid E n]) (imgs @ [img])"
      by (rule snap_checkpoint_eq [OF v _ wr fresh calm room]) (use k(2) in simp)
    then have "churned E (Suc n) s2 (bucket(se_ulid E n \<mapsto> b))"
      unfolding churned_def k(1) using segs(1) less sq d
      by (intro exI [of _ es] exI [of _ "segs @ [se_ulid E n]"] exI [of _ "imgs @ [img]"]) simp
    from c(2) show ?thesis
    proof
      assume "r = Inr ()"
      with a new ex c(1) True \<open>churned E (Suc n) _ _\<close> show ?thesis
        by (intro disjI1 exI [of _ s2] exI [of _ "bucket(se_ulid E n \<mapsto> b)"]) (auto simp: prog_defs option.map_id)
    next
      assume "\<exists>w. r = Inl (Backend (SlateClosed w))"
      with a new ex c(1) True show ?thesis by (auto simp: prog_defs)
    qed
  qed
qed

lemma churn_loop_eq:
  assumes "churned E n s bucket" "n \<le> 1000" "snap_quiet E"
  shows "(\<exists>s' bucket'. churned E 1000 s' bucket' \<and>
      churn_loop B C J E [n..<1000] (if n = 0 then None else Some (n - 1)) (s, bucket) =
        Some (Inr (), map (\<lambda>i. Stdout (''checkpointed at v'' @ show_nat i)) (filter (\<lambda>i. Suc i mod 250 = 0) [n..<1000]), s', bucket')) \<or>
     (\<exists>w out x. churn_loop B C J E [n..<1000] (if n = 0 then None else Some (n - 1)) (s, bucket) =
        Some (Inl (Raised (Backend (SlateClosed w))), out, x))"
  using assms(2,1)
proof (induction arbitrary: s bucket rule: inc_induct)
  case base
  then show ?case by (auto simp: ret_def)
next
  case (step n)
  have up: "[n..<1000] = n # [Suc n..<1000]" using step.hyps by (simp add: upt_conv_Cons)
  from churn_body [OF step.prems step.hyps(2) assms(3), of "[Suc n..<1000]"] show ?case
  proof
    assume "\<exists>s' bucket'. churned E (Suc n) s' bucket' \<and>
      churn_loop B C J E (n # [Suc n..<1000]) (if n = 0 then None else Some (n - 1)) (s, bucket) =
        map_option (\<lambda>(r, out, w). (r, (if Suc n mod 250 = 0 then [Stdout (''checkpointed at v'' @ show_nat n)] else []) @ out, w))
          (churn_loop B C J E [Suc n..<1000] (Some n) (s', bucket'))"
    then obtain s' bucket' where c: "churned E (Suc n) s' bucket'"
      "churn_loop B C J E (n # [Suc n..<1000]) (if n = 0 then None else Some (n - 1)) (s, bucket) =
        map_option (\<lambda>(r, out, w). (r, (if Suc n mod 250 = 0 then [Stdout (''checkpointed at v'' @ show_nat n)] else []) @ out, w))
          (churn_loop B C J E [Suc n..<1000] (Some n) (s', bucket'))" by blast
    with step.IH [OF c(1)] show ?thesis unfolding up c(2) by fastforce
  next
    assume "\<exists>w x. churn_loop B C J E (n # [Suc n..<1000]) (if n = 0 then None else Some (n - 1)) (s, bucket) =
      Some (Inl (Raised (Backend (SlateClosed w))), [], x)"
    then show ?thesis unfolding up by blast
  qed
qed

lemma snapshots_run_eq:
  assumes "content s = Map.empty" "snap_quiet E"
  shows "\<exists>w. snapshots_run B C J E (s, Map.empty) = Some (Inr (), snap_lines, w) \<or>
     (\<exists>e out. snapshots_run B C J E (s, Map.empty) = Some (Inl (Raised (Backend (SlateClosed e))), out, w))"
  using churn_loop_eq [OF churned_empty [OF assms(1)] le0 assms(2), of Map.empty]
proof
  assume "\<exists>s' bucket'. churned E 1000 s' bucket' \<and> churn_loop B C J E [0..<1000] (if 0 = 0 then None else Some (0 - 1)) (s, Map.empty) =
    Some (Inr (), map (\<lambda>i. Stdout (''checkpointed at v'' @ show_nat i)) (filter (\<lambda>i. Suc i mod 250 = 0) [0..<1000]), s', bucket')"
  then obtain s' bucket' where c: "churned E 1000 s' bucket'" "churn_loop B C J E [0..<1000] None (s, Map.empty) =
      Some (Inr (), map (\<lambda>i. Stdout (''checkpointed at v'' @ show_nat i)) [249, 499, 749, 999], s', bucket')" by (auto simp: checkpoint_commits)
  obtain es segs imgs where v: "stored_volume s' bucket' ''vol-7'' es (map churn_event [0..<1000]) 1000 segs imgs" "length segs = 4"
    using c(1) by (auto simp: churned_def)
  from snap_mount_eq [OF v(1)] have "snap_mount B C J ''vol-7'' (s', bucket') =
      Some (Inr (foldl snap_step Map.empty (map churn_event [0..<1000]), Some 999),
       [Stdout ''  mount: manifest has 4 segment(s), folding backlog from v1000''], s', bucket')"
    by (simp add: v(2) snap_numbers)
  with c(2) show ?thesis
    by (simp add: snapshots_run_def prog_defs churned_files snap_lines_def debug_version_def snap_numbers)
next
  assume "\<exists>w out x. churn_loop B C J E [0..<1000] (if 0 = 0 then None else Some (0 - 1)) (s, Map.empty) =
    Some (Inl (Raised (Backend (SlateClosed w))), out, x)"
  then show ?thesis by (auto simp: snapshots_run_def and_then_def)
qed

end

section \<open>Reference serialisers\<close>

fun show_snap_event :: "snap_event \<Rightarrow> bytes" where
  "show_snap_event (SnapWrite path content) = net_enc [''w'', path, content]"
| "show_snap_event (SnapDelete path) = net_enc [''d'', path]"

definition read_snap_event :: "string list \<Rightarrow> snap_event option" where
  "read_snap_event xs = (case xs of [_, p, c] \<Rightarrow> Some (SnapWrite p c) | [_, p] \<Rightarrow> Some (SnapDelete p) | _ \<Rightarrow> None)"

definition mem_snap_codec :: snap_codec where
  "mem_snap_codec =
     \<lparr>json_snap_event = (\<lambda>e. Inr (show_snap_event e)), unjson_snap_event = net_parse read_snap_event,
      json_snap_image = (\<lambda>img. Inr (net_enc (flat_pairs (map (\<lambda>k. (k, the (img k))) (sorted_list_of_set (dom img)))))),
      unjson_snap_image = net_parse (\<lambda>xs. Some (map_of (pairs_of xs))),
      json_snap_manifest = (\<lambda>segs. Inr (net_enc segs)), unjson_snap_manifest = net_parse Some\<rparr>"

lemma read_snap_event_show: "net_parse read_snap_event (show_snap_event e) = Inr e"
  by (cases e) (simp_all add: net_parse_enc read_snap_event_def)

interpretation mem_snap: snap_store mem_ops mem_content mem_writes mt_base mem_codec mem_snap_codec
proof
  show "\<exists>b. json_snap_event mem_snap_codec e = Inr b \<and> unjson_snap_event mem_snap_codec b = Inr e" for e
    by (simp add: mem_snap_codec_def read_snap_event_show)
  show "\<exists>b. json_snap_manifest mem_snap_codec segs = Inr b \<and> unjson_snap_manifest mem_snap_codec b = Inr segs" for segs
    by (simp add: mem_snap_codec_def net_parse_enc)
  show "\<exists>b. json_snap_image mem_snap_codec img = Inr b \<and> unjson_snap_image mem_snap_codec b = Inr img" if "finite (dom img)" for img
    using that by (simp add: mem_snap_codec_def net_parse_enc pairs_of_flat map_of_map_keys)
  show "json_snap_event mem_snap_codec (churn_event i) = Inr b \<Longrightarrow> i < 1000 \<Longrightarrow> length b \<le> MAX_RECORD_BYTES" for i b
    using show_nat_pad [of i 3] show_nat_pad [of "i mod 10" 1]
    by (auto simp: mem_snap_codec_def churn_event_def net_enc_def net_field_def MAX_RECORD_BYTES_def)
qed

section \<open>Properties\<close>

text \<open>The example runs as it asserts: on a fresh database that nobody else writes to, a thousand commits with a
  checkpoint every 250 leave a manifest of four segments that covers the stream, and the mount folds no
  backlog, reports version 999 and finds the ten files; when the database closes before a
  checkpoint is durable, the program stops with that error.\<close>

theorem snapshots_example_run:
  assumes store: "event_store B content writes base C" and serde: "snap_serde J"
    and opened: "build ''landslide'' memory (default_settings stock) = Inr s" "content s = Map.empty"
    and ulids: "inj (se_ulid E)"
    and quiet: "\<And>i s. ulids_ok (se_append E i 0) \<and> others (se_append E i 0) s = s \<and> others (se_publish E i) s = s"
  shows "\<exists>w. snapshots_main build stock memory B C J E = Some (Inr (), snap_lines, Some w) \<or>
     (\<exists>e out. snapshots_main build stock memory B C J E = Some (Inl (Raised (Backend (SlateClosed e))), out, Some w))"
proof -
  have st: "snap_store B content writes base C J" using store serde by (simp add: snap_store_def)
  have "snap_quiet E" using ulids quiet by (simp add: snap_quiet_def)
  from snap_store.snapshots_run_eq [OF st opened(2) this] show ?thesis
    by (auto simp: snapshots_main_def open_in_memory_def store_open_def config_in_memory_def opened(1))
qed

definition mem_snap_env :: "mem_db snap_env" where
  "mem_snap_env = \<lparr>se_append = (\<lambda>_. mem_env), se_publish = mem_env, se_ulid = show_nat\<rparr>"

theorem snapshots_example_run_witness:
  "\<exists>w. snapshots_main (\<lambda>_ _ _. Inr mem_empty) \<lparr>flush_interval = None, l0_sst_size_bytes = 0\<rparr> () mem_ops mem_codec mem_snap_codec mem_snap_env =
       Some (Inr (), snap_lines, Some w) \<or>
     (\<exists>e out. snapshots_main (\<lambda>_ _ _. Inr mem_empty) \<lparr>flush_interval = None, l0_sst_size_bytes = 0\<rparr> () mem_ops mem_codec mem_snap_codec mem_snap_env =
       Some (Inl (Raised (Backend (SlateClosed e))), out, Some w))"
proof (rule snapshots_example_run [OF mem_store.event_store_axioms mem_snap.snap_serde_axioms])
  show "inj (se_ulid mem_snap_env)" by (metis (no_types, lifting) dec_value_show_nat injI mem_snap_env_def snap_env.select_convs(3))
qed (auto simp: mem_snap_env_def)

end
