(* ===== verification/Spec2Isabelle.thy ===== *)
theory Spec2Isabelle
  imports Wire_Bytes Sqlite_Churn Sqlite_Files Fuse_Props Landslidefs Bank_Account Fs_Snapshots
begin

text \<open>
  \<^bold>\<open>Landslide: an event store on an object store, with a SQLite replicator and a file system on top.\<close>

  The repository has three crates. The core crate (\<open>src/src\<close>) is an event store over the key-value
  engine SlateDB: streams of versioned events with optimistic appends, fencing tokens, transactions
  over several streams, forks, retention, snapshots, compaction jobs, and a read-only reader that
  tails streams. \<open>landslide-sqlite\<close> replicates a SQLite database: it captures the committed
  transactions of the write-ahead log, appends them as events, and seals them into page segments in a
  bucket. \<open>landslide-fuse\<close> keeps a file system as a stream of deltas, with content-addressed blocks
  and sealed segments in a bucket, a read-only replica, and a FUSE adapter. The two upper crates call
  the core through appends with a token, folds, snapshots and the reader, so their theorems rest on
  those of the core.

  \<^bold>\<open>Foundations.\<close> \<open>Prelude\<close> (results, 64-bit counters, list and order lemmas), \<open>Rust_Std\<close> (decimal
  formatting and parsing, big-endian bytes), \<open>Btree_Map\<close> (\<open>BTreeMap\<close> as a sorted association list),
  \<open>Records\<close> (\<open>error.rs\<close>, \<open>envelope.rs\<close>, \<open>snapshot.rs\<close>, \<open>aggregate.rs\<close> and the serialisation
  parameter \<open>codec\<close>), \<open>Checkpointing\<close> (a locale for folds that are sealed in pieces). \<open>Slate\<close> states
  SlateDB as a record of operations and the locale of what its documentation promises (snapshot
  isolation with conflict detection); \<open>Mem_Db\<close> interprets it on an in-memory engine, which also
  supplies the witnesses. \<open>Bucket\<close> does the same for the object store and \<open>Host_Fs\<close>
  for the host's file system: the effect of the calls on paths that pass no link, with the permissions of the
  process as predicates on modes, and an in-memory host that follows links. An environment record gives a
  call its clock readings, fresh identifiers, durability statuses and what other clients do between
  the begin and the commit of each transaction.

  \<^bold>\<open>Core crate.\<close>
  \<^item> \<open>Kv\<close>, \<open>Kv_Spec\<close>: key layout and read helpers (\<open>kv.rs\<close>), and their meaning on a well-formed map:
    the visible history of a stream under trims, rollbacks and deletion.
  \<^item> \<open>Append\<close>, \<open>Append_Spec\<close>, \<open>Event_Store\<close>, \<open>Append_Map\<close>, \<open>Write_Path\<close>, \<open>Fencing\<close>: the write path of
    \<open>store.rs\<close>. An append that succeeds took effect at one state, whatever other clients did; one that
    is refused or runs out of retries wrote nothing; a transaction refines the sequential composition of its operations; repeated
    conditional appends take effect once; timestamps never go back; fences exclude other writers; a
    durable append answers when a status covers it; the retry loop ends.
  \<^item> \<open>Branch\<close>, \<open>Branch_Spec\<close>, \<open>Forking\<close>, \<open>Retention\<close>: forks (\<open>fork.rs\<close>) and retention. Fork-resolved
    reads refine the lineage relation and always return; forks share history and are isolated; trims
    and deletions take from a read exactly what they are meant to hide, and purging deletes exactly the
    records that no pin of a live direct child covers; a live fork of a deleted child holds no pin, which
    \<open>purge_below_loses_grandchild\<close> shows on a run.
  \<^item> \<open>Query\<close>, \<open>Query_Props\<close>: reads, pages, the time index, the reader (\<open>reader.rs\<close>): paging loses and
    repeats nothing, tailing yields each event once.
  \<^item> \<open>Compaction\<close>, \<open>Compaction_Props\<close>, \<open>Jobs_Props\<close>: snapshots, rehydration and the job journal
    (\<open>jobs.rs\<close>). \<open>Stream_Log\<close> collects what the upper crates use: a stream as an append-only log.
  \<^item> \<open>Wire_Bytes\<close>: the adapters that write byte strings as base64 or raw, of all three crates, and their round trips.

  \<^bold>\<open>SQLite crate.\<close> \<open>Sqlite_Image\<close> (deltas, page images, segments, manifests of \<open>lib.rs\<close>), \<open>Sqlite_Wal\<close>
  (\<open>wal.rs\<close> and the capture loop, byte for byte), \<open>Sqlite_Serde\<close>, \<open>Sqlite_Db\<close> (open, sync, checkpoint,
  restore of \<open>store.rs\<close>), \<open>Sqlite_Props\<close>: capture returns exactly the committed transactions and is
  incremental; a sync and a checkpoint keep the handle equal to what a restore gives. \<open>Sqlite_Runs\<close>: so does
  every run of them, with coalescing and purging, up to the pages past the end of the file.
  \<open>Sqlite_Files\<close>: writing a restored image to a file leaves its bytes there and no stale log beside it.

  \<^bold>\<open>File-system crate.\<close>
  \<^item> \<open>Fs_Image\<close>, \<open>Fs_Segments\<close>: nodes, deltas, the image and the checkpoint fold (\<open>lib.rs\<close>,
    \<open>DeltaImage\<close> of \<open>store.rs\<close>); merging segments equals applying the deltas.
  \<^item> \<open>Fs_Content\<close>: inline and block-backed reads, chunking and uploads.
  \<^item> \<open>Volume\<close>, \<open>Fs_Upgrade\<close>, \<open>Fs_Serde\<close>, \<open>Volume_Props\<close>: the write handle; commits and checkpoints keep the
    stream replaying to the tree of the handle.
  \<^item> \<open>Replica\<close>, \<open>Replica_Props\<close>: a sync catches up with the stream, across purged backlogs.
  \<^item> \<open>Fuse_Fs\<close>: the adapter of \<open>fs.rs\<close>, one definition per handler and \<open>serve\<close> over all of them.
    \<open>Fuse_Tables\<close>: consistent inode and handle tables in every run. \<open>Fuse_Frame\<close>: the locale of what
    every handler keeps, interpreted on read-only mounts and on the identity of a volume's handle.
    \<open>Fuse_Durable\<close>: a reply to a request that is \<open>request_safe\<close> means the stream has the change. \<open>Fuse_Props\<close>:
    runs, replica mounts that refuse every mutation but take (and never store) staged writes, reads after writes,
    listings, and the corner cases in which a handler surprises its caller.
  \<^item> \<open>Mirror\<close>, \<open>Mirror_Sync\<close>, \<open>Mirror_Props\<close>: the directory mirror of \<open>mirror.rs\<close> over a host; a sync takes a
    directory that shows one image to one that shows the next, exactly, and the corner cases in which
    it does not: a directory that becomes a link, or a link a directory, an overwrite of equal size, the
    time of a read-only file.

  \<^bold>\<open>Programs.\<close> \<open>Program\<close>: the monad of a \<open>main\<close> (what it prints, how it stops), the configuration and
  opening of stores and readers, and the streams a program owns. On it, with one definition per function:
  \<^item> \<open>Landslidefs\<close>: the command line tool and the examples \<open>sidecar.rs\<close> and \<open>churn.rs\<close> of the file-system
    crate. Every documented command line parses to its command, the statistics count what their code
    counts, and two commands that surprise: \<open>verify\<close> takes the fence from a mounted writer, and
    \<open>checkpoint\<close> fails when there is nothing new.
  \<^item> \<open>Bank_Account\<close>, \<open>Fs_Snapshots\<close>: the examples of the core crate, whose whole runs are proved to
    print what they are meant to show, and the deletion that comes back over a checkpoint.
  \<^item> \<open>Sqlite_Churn\<close>: the churn example of the SQLite crate. Its key generator never reaches zero, and a
    run that ends well prints that the restored database has the bytes of the handle.

  \<^bold>\<open>Bounds and hypotheses.\<close> Versions and global sequence numbers stay below \<open>VMAX = 10 ^ 16\<close>, the range
  in which the decimal keys sort as numbers; \<open>log_room\<close> and \<open>append_room\<close> say that the next batch fits.
  Stream names contain no slash (\<open>name_ok\<close>): the key layout does not separate them otherwise. Folds
  over forks and retention loops are \<^theory_text>\<open>partial_function\<close>s or bounded recursions, and their termination
  is a theorem. Theorems about a handle that later reads (\<open>volume_commit_then_mount\<close>,
  \<open>sync_then_restore\<close>) assume that nobody else appends to its stream during the call, which the fence
  ensures, and \<open>commit_safe\<close> excludes the batches on which the commit of a volume diverges from its
  image. Serialisation is a parameter with round-trip laws, SHA-256 one with distinct digests, and
  \<open>numbers_left\<close> bounds inode and handle numbers below \<open>2 ^ 64\<close>. Of a failed commit SlateDB is relied on
  for conflicts only (\<open>commit_conflict\<close>): after another failure of the engine the outcome of a call is open.
  Trees of a volume are compared up to modification times (\<open>tree\<close>), which every replay reads anew.
  The mirror's theorem assumes an image whose parents are directories and whose modes do not lock the
  process out (\<open>modes_allow\<close>), and that the fingerprints tell changed nodes apart. Runs of a SQLite handle assume that a transaction that grows the file writes the pages it
  adds (\<open>grows_written\<close>) and that object names are new.

  \<^bold>\<open>Not modelled.\<close> The tokio runtime with its channels and timers (a tail, a replica mount and a mirror are
  given the sequence of states their polls see), the serialisation libraries,
  the session loop of \<open>fuser\<close> and the builders of SlateDB and of the object stores (parameters), the
  formatting of elapsed times, the tests, and the Python and shell scripts.
\<close>

end
